(* ===== verification/Prelude.thy ===== *)
theory Prelude
  imports
    Complex_Main
    "HOL-Library.Word"
    "HOL-Library.Multiset"
    "HOL-Library.Signed_Division"
    "HOL-Library.Monad_Syntax"
begin

text \<open>
  Vocabulary shared by every component: the conversions of C++ between
  floating-point and integer values, truncating division, the vector class
  TVector3, bounds-checked reading of arrays, look-up in a std::map, and
  removal from a std::vector by position.

  A Double\_t is an exact real here.  Wherever the C++ code may compute a value
  that is no finite number (a division by zero), converts a number that does
  not fit the target integer type, reads outside an array or violates an
  assert, the model returns None; so None always means "the program leaves
  defined behaviour" and a theorem that a function returns Some value shows
  that this does not happen.
\<close>

section \<open>Collections of facts\<close>

named_theorems code_simps \<open>unfoldings of small operations of the code\<close>
named_theorems inv_intros \<open>preservation lemmas of the component invariants\<close>

section \<open>Numbers\<close>

text \<open>Conversion of a floating-point value to an integer type truncates towards
  zero; a value that does not fit the type is undefined behaviour.\<close>

definition trunc_int :: "real \<Rightarrow> int" where
  "trunc_int r = (if r < 0 then \<lceil>r\<rceil> else \<lfloor>r\<rfloor>)"

definition to_int16 :: "real \<Rightarrow> int option" where
  "to_int16 r = (let k = trunc_int r in if -32768 \<le> k \<and> k \<le> 32767 then Some k else None)"

definition to_int32 :: "real \<Rightarrow> int option" where
  "to_int32 r = (let k = trunc_int r in
     if -2147483648 \<le> k \<and> k \<le> 2147483647 then Some k else None)"

definition to_uint32 :: "real \<Rightarrow> nat option" where
  "to_uint32 r = (let k = trunc_int r in if 0 \<le> k \<and> k < 4294967296 then Some (nat k) else None)"

text \<open>round() of <cmath>: half-way cases away from zero.\<close>

definition c_round :: "real \<Rightarrow> real" where
  "c_round r = (if r < 0 then - of_int \<lfloor>- r + 1/2\<rfloor> else of_int \<lfloor>r + 1/2\<rfloor>)"

text \<open>A quotient that is a finite number.\<close>

definition c_div :: "real \<Rightarrow> real \<Rightarrow> real option" where
  "c_div x y = (if y = 0 then None else Some (x / y))"

lemma c_div_Some [simp]: "c_div x y = Some z \<longleftrightarrow> y \<noteq> 0 \<and> z = x / y"
  by (auto simp: c_div_def)

lemma c_div_None [simp]: "c_div x y = None \<longleftrightarrow> y = 0"
  by (simp add: c_div_def)

text \<open>Conversion to Short\_t keeps the value modulo 2^16.\<close>

definition wrap16 :: "int \<Rightarrow> int" where
  "wrap16 k = (k + 32768) mod 65536 - 32768"

lemma wrap16_id [simp]: "-32768 \<le> k \<Longrightarrow> k < 32768 \<Longrightarrow> wrap16 k = k"
  by (simp add: wrap16_def)

lemma trunc_int_of_int [simp]: "trunc_int (of_int k) = k"
  by (simp add: trunc_int_def)

lemma trunc_int_nonneg [simp]: "0 \<le> r \<Longrightarrow> trunc_int r = \<lfloor>r\<rfloor>"
  by (simp add: trunc_int_def)

lemma trunc_int_abs_le: "\<bar>of_int (trunc_int r)\<bar> \<le> \<bar>r\<bar>"
proof (cases "r < 0")
  case True
  then have "of_int \<lceil>r\<rceil> \<le> (0::real)" by simp
  then have "\<bar>of_int \<lceil>r\<rceil> :: real\<bar> = - of_int \<lceil>r\<rceil>" by (rule abs_of_nonpos)
  then show ?thesis using True le_of_int_ceiling [of r] unfolding trunc_int_def
    by (simp only: if_True abs_of_neg)
qed (simp add: trunc_int_def)

lemma trunc_int_close: "\<bar>r - of_int (trunc_int r)\<bar> < 1"
  by (simp add: trunc_int_def abs_if) linarith

lemma to_int16_of_int:
  "-32768 \<le> k \<Longrightarrow> k \<le> 32767 \<Longrightarrow> to_int16 (of_int k) = Some k"
  by (simp add: to_int16_def)

lemma to_int16_range: "to_int16 r = Some k \<Longrightarrow> -32768 \<le> k \<and> k \<le> 32767"
  by (auto simp: to_int16_def Let_def split: if_splits)

lemma to_int32_of_int:
  "-2147483648 \<le> k \<Longrightarrow> k \<le> 2147483647 \<Longrightarrow> to_int32 (of_int k) = Some k"
  by (simp add: to_int32_def)

lemma to_uint32_of_int:
  "0 \<le> k \<Longrightarrow> k < 4294967296 \<Longrightarrow> to_uint32 (of_int k) = Some (nat k)"
  by (simp add: to_uint32_def)

lemma to_uint32_negative: "k < 0 \<Longrightarrow> to_uint32 (of_int k) = None"
  by (simp add: to_uint32_def)

section \<open>Arrays and containers\<close>

text \<open>Reading an array: outside its bounds is undefined behaviour.\<close>

definition rd :: "'a list \<Rightarrow> nat \<Rightarrow> 'a option" where
  "rd xs i = (if i < length xs then Some (xs ! i) else None)"

lemma rd_Some [simp]: "rd xs i = Some x \<longleftrightarrow> i < length xs \<and> xs ! i = x"
  by (auto simp: rd_def)

lemma rd_None [simp]: "rd xs i = None \<longleftrightarrow> length xs \<le> i"
  by (auto simp: rd_def)

text \<open>Reading with an Int\_t subscript, which may be negative.\<close>

definition rdi :: "'a list \<Rightarrow> int \<Rightarrow> 'a option" where
  "rdi xs i = (if 0 \<le> i then rd xs (nat i) else None)"

lemma rdi_Some [simp]:
  "rdi xs i = Some x \<longleftrightarrow> 0 \<le> i \<and> nat i < length xs \<and> xs ! nat i = x"
  by (auto simp: rdi_def)

lemma rdi_None [simp]:
  "rdi xs i = None \<longleftrightarrow> i < 0 \<or> length xs \<le> nat i"
  by (auto simp: rdi_def)

text \<open>std::map::operator[] on a map of numbers yields 0 for a missing key.  (It
  also inserts that 0, which no other read can tell from its absence.)\<close>

definition map_at :: "('k \<Rightarrow> ('v::zero) option) \<Rightarrow> 'k \<Rightarrow> 'v" where
  "map_at m k = (case m k of None \<Rightarrow> 0 | Some v \<Rightarrow> v)"

lemma map_at_None [simp]: "m k = None \<Longrightarrow> map_at m k = 0"
  and map_at_Some [simp]: "m k = Some v \<Longrightarrow> map_at m k = v"
  by (simp_all add: map_at_def)

text \<open>std::vector::erase(begin() + i).\<close>

definition erase :: "nat \<Rightarrow> 'a list \<Rightarrow> 'a list" where
  "erase i xs = take i xs @ drop (Suc i) xs"

lemma length_erase [simp]: "i < length xs \<Longrightarrow> length (erase i xs) = length xs - 1"
  by (auto simp: erase_def)

lemma mset_erase: "i < length xs \<Longrightarrow> add_mset (xs ! i) (mset (erase i xs)) = mset xs"
proof -
  assume i: "i < length xs"
  have "mset xs = mset (take i xs @ xs ! i # drop (Suc i) xs)"
    using id_take_nth_drop [OF i] by simp
  then show ?thesis by (simp add: erase_def)
qed

lemma set_erase_subset: "set (erase i xs) \<subseteq> set xs"
  by (auto simp: erase_def dest: in_set_takeD in_set_dropD)

section \<open>TVector3\<close>

datatype vec3 = Vec (vx: real) (vy: real) (vz: real)

instantiation vec3 :: real_vector
begin

definition zero_vec3 :: vec3 where "zero_vec3 = Vec 0 0 0"

definition plus_vec3 :: "vec3 \<Rightarrow> vec3 \<Rightarrow> vec3" where
  "plus_vec3 a b = Vec (vx a + vx b) (vy a + vy b) (vz a + vz b)"

definition minus_vec3 :: "vec3 \<Rightarrow> vec3 \<Rightarrow> vec3" where
  "minus_vec3 a b = Vec (vx a - vx b) (vy a - vy b) (vz a - vz b)"

definition uminus_vec3 :: "vec3 \<Rightarrow> vec3" where
  "uminus_vec3 a = Vec (- vx a) (- vy a) (- vz a)"

definition scaleR_vec3 :: "real \<Rightarrow> vec3 \<Rightarrow> vec3" where
  "scaleR_vec3 c a = Vec (c * vx a) (c * vy a) (c * vz a)"

instance
  by standard (auto simp: zero_vec3_def plus_vec3_def minus_vec3_def uminus_vec3_def
      scaleR_vec3_def algebra_simps)

end

lemmas vec3_defs = zero_vec3_def plus_vec3_def minus_vec3_def uminus_vec3_def scaleR_vec3_def

lemma vec3_sel [simp]:
  "vx (a + b) = vx a + vx b" "vy (a + b) = vy a + vy b" "vz (a + b) = vz a + vz b"
  "vx (a - b) = vx a - vx b" "vy (a - b) = vy a - vy b" "vz (a - b) = vz a - vz b"
  "vx (- a) = - vx a" "vy (- a) = - vy a" "vz (- a) = - vz a"
  "vx (c *\<^sub>R a) = c * vx a" "vy (c *\<^sub>R a) = c * vy a" "vz (c *\<^sub>R a) = c * vz a"
  "vx 0 = 0" "vy 0 = 0" "vz 0 = 0"
  by (simp_all add: vec3_defs)

lemma vec3_eqI: "vx a = vx b \<Longrightarrow> vy a = vy b \<Longrightarrow> vz a = vz b \<Longrightarrow> a = b"
  by (cases a; cases b) simp

text \<open>TVector3::Mag2 and the scalar product.\<close>

definition vdot :: "vec3 \<Rightarrow> vec3 \<Rightarrow> real" where
  "vdot a b = vx a * vx b + vy a * vy b + vz a * vz b"

definition vmag2 :: "vec3 \<Rightarrow> real" where
  "vmag2 a = vdot a a"

lemma vmag2_nonneg [simp]: "0 \<le> vmag2 a"
  by (simp add: vmag2_def vdot_def)

text \<open>A 3x3 matrix of Double\_t and its product with a vector (TMatrixD * x).\<close>

datatype mat3 = Mat (row1: vec3) (row2: vec3) (row3: vec3)

definition mat_vec :: "mat3 \<Rightarrow> vec3 \<Rightarrow> vec3" where
  "mat_vec m v = Vec (vdot (row1 m) v) (vdot (row2 m) v) (vdot (row3 m) v)"

definition mat_col :: "mat3 \<Rightarrow> nat \<Rightarrow> vec3" where
  "mat_col m j = (if j = 0 then Vec (vx (row1 m)) (vx (row2 m)) (vx (row3 m))
     else if j = 1 then Vec (vy (row1 m)) (vy (row2 m)) (vy (row3 m))
     else Vec (vz (row1 m)) (vz (row2 m)) (vz (row3 m)))"

definition mat_mul :: "mat3 \<Rightarrow> mat3 \<Rightarrow> mat3" where
  "mat_mul a b = (let r = (\<lambda>v. Vec (vdot v (mat_col b 0)) (vdot v (mat_col b 1)) (vdot v (mat_col b 2)))
     in Mat (r (row1 a)) (r (row2 a)) (r (row3 a)))"

definition mat_one :: mat3 where
  "mat_one = Mat (Vec 1 0 0) (Vec 0 1 0) (Vec 0 0 1)"

lemma mat_vec_mul: "mat_vec (mat_mul a b) v = mat_vec a (mat_vec b v)"
  by (simp add: mat_vec_def mat_mul_def mat_col_def vdot_def Let_def algebra_simps)

lemma mat_vec_one [simp]: "mat_vec mat_one v = v"
  by (cases v) (simp add: mat_vec_def mat_one_def vdot_def)

lemma mat_mul_assoc: "mat_mul (mat_mul a b) c = mat_mul a (mat_mul b c)"
  by (simp add: mat_mul_def mat_col_def vdot_def Let_def algebra_simps)

lemma mat_mul_one_left [simp]: "mat_mul mat_one b = b"
  by (cases b; cases "row1 b"; cases "row2 b"; cases "row3 b")
    (auto simp: mat_mul_def mat_one_def mat_col_def vdot_def Let_def intro: vec3_eqI)

end
