(* ===== verification/Auxi.thy ===== *)
theory Auxi
  imports Prelude
begin

text \<open>
  The numerical helpers of src/src/TSBSSimAuxi.cxx: conversion of an analog
  value to an ADC reading, the two APV25 pulse shapes, and the sums of
  Gaussians and of circles that describe an avalanche on the readout board.
\<close>

section \<open>ADC conversion\<close>

definition MAX_ADCBITS :: int where
  "MAX_ADCBITS = 8 * 2 - 1"

definition ADCConvert :: "real \<Rightarrow> real \<Rightarrow> real \<Rightarrow> int \<Rightarrow> int option" where
  "ADCConvert val off gain bits =
     (if \<not> (0 \<le> bits \<and> bits \<le> MAX_ADCBITS) then None else
      (let val = (if val < 0 then 0 else val) in
       do {
         vvv \<leftarrow> c_div (val - off) gain;
         let saturation = (2 ^ nat bits - 1 :: real);
         let vvv = (if saturation < vvv then saturation else vvv);
         dval \<leftarrow> to_int16 (of_int \<lfloor>if saturation < vvv then saturation else vvv\<rfloor>);
         Some (if dval < 0 then 0 else dval)
       }))"

section \<open>Pulse shapes\<close>

definition PulseShape3 :: "real \<Rightarrow> real \<Rightarrow> real \<Rightarrow> real" where
  "PulseShape3 t C Tp =
     (let x = t / Tp; v = C / Tp * x * exp (- x) in if 0 < v then v else 0)"

definition PulseShape4 :: "real \<Rightarrow> real \<Rightarrow> real \<Rightarrow> real \<Rightarrow> real" where
  "PulseShape4 t A tau0 tau1 =
     (if tau1 < 0 then PulseShape3 t A tau0
      else (let x0 = - t / tau0; x1 = - t / tau1;
                v = A * ((tau0 + tau1) / tau1 / tau1) * (1 - exp x0) * exp x1
            in if 0 < v then v else 0))"

section \<open>Densities on the readout plane\<close>

text \<open>The parameter arrays are lists; \<open>&par[k]\<close> is \<open>drop k par\<close>.\<close>

definition Gaus2D :: "real \<Rightarrow> real \<Rightarrow> real list \<Rightarrow> real option" where
  "Gaus2D x0 x1 par = do {
     p2 \<leftarrow> rd par 2; p4 \<leftarrow> rd par 4;
     if 0 < p2 \<and> 0 < p4 then do {
       p0 \<leftarrow> rd par 0; p1 \<leftarrow> rd par 1; p3 \<leftarrow> rd par 3;
       let rx = (x0 - p1) / p2;
       let ry = (x1 - p3) / p4;
       Some (p0 * exp (- (rx * rx + ry * ry) / 2))
     } else Some 0 }"

text \<open>The loop that MultiGaus2D and MultiCircle share: sum \<open>f (i)\<close> for
  \<open>i = 0, ..., n - 1\<close>, starting at \<open>acc\<close>.\<close>

fun sum_loop :: "(nat \<Rightarrow> real option) \<Rightarrow> nat \<Rightarrow> nat \<Rightarrow> real \<Rightarrow> real option" where
  "sum_loop f i 0 acc = Some acc"
| "sum_loop f i (Suc n) acc = do { gg \<leftarrow> f i; sum_loop f (Suc i) n (acc + gg) }"

definition MultiGaus2D :: "real \<Rightarrow> real \<Rightarrow> real list \<Rightarrow> real option" where
  "MultiGaus2D x0 x1 par = do {
     p0 \<leftarrow> rd par 0; ngaus \<leftarrow> to_int32 p0;
     sum_loop (\<lambda>i. Gaus2D x0 x1 (drop (5 * i + 1) par)) 0 (nat ngaus) 0 }"

definition SimpleCircle :: "real \<Rightarrow> real \<Rightarrow> real list \<Rightarrow> real option" where
  "SimpleCircle x0 x1 par = do {
     p1 \<leftarrow> rd par 1; p2 \<leftarrow> rd par 2; p3 \<leftarrow> rd par 3;
     let dx = x0 - p1;
     let dy = x1 - p2;
     if dx * dx + dy * dy < p3 * p3 then rd par 0 else Some 0 }"

definition MultiCircle :: "real \<Rightarrow> real \<Rightarrow> real list \<Rightarrow> real option" where
  "MultiCircle x0 x1 par = do {
     p0 \<leftarrow> rd par 0; n \<leftarrow> to_int32 p0;
     sum_loop (\<lambda>i. SimpleCircle x0 x1 (drop (4 * i + 1) par)) 0 (nat n) 0 }"

section \<open>Facts about the ADC\<close>

lemma adc_full_scale:
  assumes "0 \<le> bits" "bits \<le> MAX_ADCBITS"
  shows "(2::int) ^ nat bits - 1 \<le> 32767"
proof -
  have "(2::int) ^ nat bits \<le> 2 ^ 15"
    using assms by (intro power_increasing) (auto simp: MAX_ADCBITS_def)
  then show ?thesis by simp
qed

lemma floor_clip:
  "\<lfloor>if of_int s < v then of_int s else v\<rfloor> = min s \<lfloor>v :: real\<rfloor>"
  by (auto simp: min_def floor_less_iff le_floor_iff)

lemma ADCConvert_unfold:
  assumes "0 \<le> bits" "bits \<le> MAX_ADCBITS" "gain \<noteq> 0"
  shows "ADCConvert val off gain bits =
    map_option (max 0) (to_int16 (of_int (min (2 ^ nat bits - 1) \<lfloor>(max val 0 - off) / gain\<rfloor>)))"
proof -
  let ?s = "(2::int) ^ nat bits - 1"
  have s: "(2 ^ nat bits - 1 :: real) = of_int ?s" by simp
  have v: "(if val < 0 then 0 else val) = max val 0" by (simp add: max_def)
  show ?thesis
    using assms unfolding ADCConvert_def Let_def s v
    by (simp add: c_div_def floor_clip max_def map_option_case
        del: of_int_diff of_int_power of_int_1 split: option.splits)
qed

lemma ADCConvert_eq:
  assumes "0 \<le> bits" "bits \<le> MAX_ADCBITS" "gain \<noteq> 0"
    and low: "-32768 \<le> \<lfloor>(max val 0 - off) / gain\<rfloor>"
  shows "ADCConvert val off gain bits =
    Some (max 0 (min (2 ^ nat bits - 1) \<lfloor>(max val 0 - off) / gain\<rfloor>))"
proof -
  have "(0::int) < 2 ^ nat bits" by simp
  with low adc_full_scale [OF assms(1,2)]
  have "to_int16 (of_int (min (2 ^ nat bits - 1) \<lfloor>(max val 0 - off) / gain\<rfloor>))
    = Some (min (2 ^ nat bits - 1) \<lfloor>(max val 0 - off) / gain\<rfloor>)"
    by (intro to_int16_of_int) linarith+
  then show ?thesis by (simp add: ADCConvert_unfold assms)
qed

lemma ADCConvert_gain: "ADCConvert val off gain bits = Some d \<Longrightarrow> gain \<noteq> 0"
  by (auto simp: ADCConvert_def Let_def split: if_splits bind_splits)

lemma ADCConvert_bits:
  "ADCConvert val off gain bits = Some d \<Longrightarrow> 0 \<le> bits \<and> bits \<le> MAX_ADCBITS"
  by (auto simp: ADCConvert_def split: if_splits)

text \<open>Every reading ADCConvert returns is a value of the ADC's resolution: between 0
  and the full scale 2^bits - 1, and so representable in a Short\_t.\<close>

lemma ADCConvert_range:
  assumes "ADCConvert val off gain bits = Some d"
  shows "0 \<le> d \<and> d \<le> 2 ^ nat bits - 1 \<and> d \<le> 32767"
proof -
  have b: "0 \<le> bits" "bits \<le> MAX_ADCBITS" "gain \<noteq> 0"
    using ADCConvert_bits [OF assms] ADCConvert_gain [OF assms] by auto
  have "d = max 0 (min (2 ^ nat bits - 1) \<lfloor>(max val 0 - off) / gain\<rfloor>)"
    using assms b by (auto simp: ADCConvert_unfold to_int16_def Let_def split: if_splits)
  moreover have "(0::int) < 2 ^ nat bits" by simp
  ultimately show ?thesis using adc_full_scale [OF b(1,2)] by linarith
qed

lemma ADCConvert_range_example:
  "ADCConvert 5000 0 1 12 = Some 4095 \<and> (4095::int) \<le> 2 ^ nat 12 - 1"
proof -
  have e: "ADCConvert 5000 0 1 12 = Some 4095"
    by (simp add: ADCConvert_eq MAX_ADCBITS_def)
  show ?thesis using e ADCConvert_range [OF e] by simp
qed

text \<open>Between pedestal and full scale the conversion loses less than one unit of the
  gain: the reading times the gain, with the offset added back, is within one gain of
  the analog value.\<close>

lemma ADCConvert_quantisation:
  assumes "0 \<le> bits" "bits \<le> MAX_ADCBITS" "0 < gain" "0 \<le> val" "off \<le> val"
    and "(val - off) / gain \<le> 2 ^ nat bits - 1"
  shows "\<exists>d. ADCConvert val off gain bits = Some d
    \<and> of_int d * gain + off \<le> val \<and> val < (of_int d + 1) * gain + off"
proof -
  let ?v = "(val - off) / gain"
  have v: "0 \<le> ?v" using assms by simp
  have "of_int \<lfloor>?v\<rfloor> \<le> (of_int (2 ^ nat bits - 1) :: real)"
    using order_trans [OF of_int_floor_le assms(6)] by simp
  then have "\<lfloor>?v\<rfloor> \<le> 2 ^ nat bits - 1" by (simp only: of_int_le_iff)
  moreover have "0 \<le> \<lfloor>?v\<rfloor>" using v by simp
  ultimately have m: "max 0 (min (2 ^ nat bits - 1) \<lfloor>?v\<rfloor>) = \<lfloor>?v\<rfloor>" and f: "-32768 \<le> \<lfloor>?v\<rfloor>"
    by (simp_all only: min_absorb2 max_absorb2)
  have "max val 0 = val" using assms(4) by simp
  with ADCConvert_eq [of bits gain val off] assms(1-3) m f
  have e: "ADCConvert val off gain bits = Some \<lfloor>?v\<rfloor>" by (simp only:)
  have "of_int \<lfloor>?v\<rfloor> * gain \<le> val - off" "val - off < (of_int \<lfloor>?v\<rfloor> + 1) * gain"
    using \<open>0 < gain\<close> floor_divide_lower [of gain "val - off"] floor_divide_upper [of gain "val - off"]
    by auto
  then show ?thesis using e by force
qed

section \<open>Facts about the pulse shapes\<close>

lemma PulseShape3_nonneg: "0 \<le> PulseShape3 t C Tp"
  by (simp add: PulseShape3_def Let_def)

lemma PulseShape3_early: "0 \<le> C \<Longrightarrow> 0 < Tp \<Longrightarrow> t \<le> 0 \<Longrightarrow> PulseShape3 t C Tp = 0"
  by (auto simp: PulseShape3_def Let_def not_less mult_nonneg_nonpos divide_nonpos_pos
      zero_less_mult_iff zero_less_divide_iff)

lemma x_exp_le: "(x::real) * exp (- x) \<le> exp (- 1)"
proof -
  have "x \<le> exp (x - 1)" using exp_ge_add_one_self [of "x - 1"] by simp
  then have "x * exp (- x) \<le> exp (x - 1) * exp (- x)" by (intro mult_right_mono) auto
  also have "\<dots> = exp (- 1)" by (simp flip: exp_add)
  finally show ?thesis .
qed

lemma PulseShape4_early:
  assumes "0 \<le> A" "0 < tau0" "0 < tau1" "t \<le> 0"
  shows "PulseShape4 t A tau0 tau1 = 0"
proof -
  have "1 - exp (- t / tau0) \<le> 0" using assms by (simp add: divide_nonpos_pos)
  moreover have "0 \<le> A * ((tau0 + tau1) / tau1 / tau1)" using assms by simp
  ultimately have "A * ((tau0 + tau1) / tau1 / tau1) * (1 - exp (- t / tau0)) * exp (- t / tau1) \<le> 0"
    by (intro mult_nonpos_nonneg mult_nonneg_nonpos) auto
  then show ?thesis using \<open>0 < tau1\<close> by (simp add: PulseShape4_def Let_def not_less)
qed

text \<open>The pulse shape used with the shipped settings (a negative second time constant
  selects the SiD model) is causal, never negative, and peaks one shaping time after the
  charge arrives, at C / (e Tp).\<close>

lemma PulseShape_peak:
  assumes "0 \<le> C" "0 < Tp" "tau1 < 0"
  shows "0 \<le> PulseShape4 t C Tp tau1
    \<and> (t \<le> 0 \<longrightarrow> PulseShape4 t C Tp tau1 = 0)
    \<and> PulseShape4 t C Tp tau1 \<le> PulseShape4 Tp C Tp tau1
    \<and> PulseShape4 Tp C Tp tau1 = C / Tp * exp (- 1)"
proof -
  have "C / Tp * (t / Tp * exp (- (t / Tp))) \<le> C / Tp * exp (- 1)"
    using assms by (intro mult_left_mono x_exp_le) simp
  moreover have pk: "PulseShape3 Tp C Tp = C / Tp * exp (- 1)"
    using assms by (auto simp: PulseShape3_def Let_def not_less zero_less_mult_iff zero_less_divide_iff)
  moreover have "0 \<le> C / Tp * exp (- 1)" using assms by simp
  ultimately have "PulseShape3 t C Tp \<le> PulseShape3 Tp C Tp"
    unfolding pk by (simp add: PulseShape3_def Let_def mult.assoc)
  then show ?thesis
    using assms pk PulseShape3_nonneg PulseShape3_early by (simp add: PulseShape4_def)
qed

lemma PulseShape_peak_example:
  "PulseShape4 20 2 50 (-1) \<le> PulseShape4 50 2 50 (-1) \<and> PulseShape4 50 2 50 (-1) = 2 / 50 * exp (- 1)"
  using PulseShape_peak [of 2 50 "-1" 20] by simp

section \<open>Facts about the densities\<close>

lemma sum_loop_ge:
  "(\<And>k v. f k = Some v \<Longrightarrow> 0 \<le> v) \<Longrightarrow> sum_loop f i n acc = Some s \<Longrightarrow> acc \<le> s"
proof (induction n arbitrary: i acc)
  case (Suc n)
  from Suc.prems(2) obtain g where g: "f i = Some g" "sum_loop f (Suc i) n (acc + g) = Some s"
    by (auto split: bind_splits)
  have "acc + g \<le> s" using Suc.prems(1) by (intro Suc.IH [OF _ g(2)]) auto
  with Suc.prems(1) [OF g(1)] show ?case by simp
qed simp

lemma sum_loop_total:
  "(\<And>k. i \<le> k \<Longrightarrow> k < i + n \<Longrightarrow> f k \<noteq> None)
   \<Longrightarrow> sum_loop f i n acc = Some (acc + (\<Sum>k = i..<i + n. the (f k)))"
proof (induction n arbitrary: i acc)
  case (Suc n)
  from Suc.prems [of i] obtain g where g: "f i = Some g" by auto
  have "sum_loop f (Suc i) n (acc + g) = Some (acc + g + (\<Sum>k = Suc i..<Suc i + n. the (f k)))"
    using Suc.prems by (intro Suc.IH) auto
  then show ?case using g by (simp add: sum.atLeast_Suc_lessThan)
qed simp

lemma SimpleCircle_total: "4 \<le> length par \<Longrightarrow> SimpleCircle x y par \<noteq> None"
  by (auto simp: SimpleCircle_def rd_def Let_def)

lemma Gaus2D_total: "5 \<le> length par \<Longrightarrow> Gaus2D x y par \<noteq> None"
  by (auto simp: Gaus2D_def rd_def Let_def)

text \<open>The avalanche density read by the strip loop: with n circles whose four
  parameters all lie in the array, MultiCircle reads nothing outside it and is exactly the
  sum of the n circles.\<close>

lemma MultiCircle_sum:
  assumes "n < 2147483648" and "length par = 4 * n + 1" and "par ! 0 = of_nat n"
  shows "MultiCircle x y par =
    Some (\<Sum>i<n. let dx = x - par ! (4 * i + 2); dy = y - par ! (4 * i + 3)
       in if dx * dx + dy * dy < (par ! (4 * i + 4))\<^sup>2 then par ! (4 * i + 1) else 0)"
proof -
  have "to_int32 (of_int (int n)) = Some (int n)" using assms(1) by (intro to_int32_of_int) auto
  then have "to_int32 (par ! 0) = Some (int n)" using assms(3) by simp
  moreover have "SimpleCircle x y (drop (4 * i + 1) par) =
      Some (let dx = x - par ! (4 * i + 2); dy = y - par ! (4 * i + 3)
       in if dx * dx + dy * dy < (par ! (4 * i + 4))\<^sup>2 then par ! (4 * i + 1) else 0)"
    if i: "i < n" for i
  proof -
    have "rd (drop (4 * i + 1) par) 0 = Some (par ! (4 * i + 1))"
      "rd (drop (4 * i + 1) par) 1 = Some (par ! (4 * i + 2))"
      "rd (drop (4 * i + 1) par) 2 = Some (par ! (4 * i + 3))"
      "rd (drop (4 * i + 1) par) 3 = Some (par ! (4 * i + 4))"
      using i assms(2) by (simp_all add: rd_def eval_nat_numeral)
    then show ?thesis by (simp only: SimpleCircle_def) (simp add: power2_eq_square Let_def)
  qed
  ultimately show ?thesis
    using assms(2) by (simp add: MultiCircle_def rd_def sum_loop_total lessThan_atLeast0)
qed

end
