(* ===== verification/HitData.thy ===== *)
theory HitData
  imports Prelude
begin

text \<open>
  The hit containers: g4sbshitdata and g4sbsgendata (src/src/TSBSGeant4File.h and
  .cxx), an array of numbers with a bit pattern that remembers which of them
  have been set; TSBSGEMHit (src/src/TSBSGEMHit.h), the virtual strips of one
  avalanche; TSBSGEMSimHitData (src/src/TSBSGEMSimHitData.h), the hits of one
  event; and the sizes of src/src/gemc\_types.h.
\<close>

unbundle bit_operations_syntax

section \<open>Sizes of the data banks\<close>

definition GEM_TAG :: int where "GEM_TAG = 110"
definition FLUX_TAG :: int where "FLUX_TAG = 800"

definition data_size :: "int \<Rightarrow> int" where
  "data_size tag = (if tag = GEM_TAG then 23 else if tag = FLUX_TAG then 21 else 0)"

section \<open>g4sbshitdata\<close>

text \<open>\<open>new double[size]\<close> leaves its elements indeterminate; such an element is None.\<close>

record hitdata =
  hd_detid :: int
  hd_size :: nat
  hd_fill :: "64 word"
  hd_data :: "real option list"

text \<open>\<open>1 << k\<close> is a shift of a 32-bit Int\_t, whose result is then widened to the 64
  bits of fFillbits; from k = 31 on the result does not fit the Int\_t.\<close>

definition int_bit :: "nat \<Rightarrow> 64 word option" where
  "int_bit k = (if k < 31 then Some (push_bit k 1) else None)"

text \<open>The constructor exits the program for a size over 64; for size 0 the write to
  \<open>fData[0]\<close> is outside the array.\<close>

definition hitdata_new :: "int \<Rightarrow> nat \<Rightarrow> hitdata option" where
  "hitdata_new detid sz =
     (if 8 * 8 < sz \<or> sz = 0 then None
      else Some \<lparr> hd_detid = detid, hd_size = sz, hd_fill = 0 OR 1,
                  hd_data = (replicate sz None)[0 := Some (31415927 / 10000000)] \<rparr>)"

definition SetData :: "nat \<Rightarrow> real \<Rightarrow> hitdata \<Rightarrow> hitdata option" where
  "SetData idx data h =
     (if hd_size h \<le> idx then Some h
      else do {
        b \<leftarrow> int_bit idx;
        Some (h \<lparr> hd_fill := hd_fill h OR b, hd_data := (hd_data h)[idx := Some data] \<rparr>) })"

definition GetData :: "nat \<Rightarrow> hitdata \<Rightarrow> real option" where
  "GetData idx h =
     (if hd_size h \<le> idx then Some (10 ^ 9)
      else do {
        b \<leftarrow> int_bit idx;
        if hd_fill h AND b = 0 then Some (10 ^ 9)
        else do { cell \<leftarrow> rd (hd_data h) idx; cell } })"

definition IsFilled :: "hitdata \<Rightarrow> bool option" where
  "IsFilled h = do { b \<leftarrow> int_bit (hd_size h); Some (hd_fill h = b - 1) }"

section \<open>g4sbsgendata\<close>

definition gendata_new :: "hitdata option" where
  "gendata_new = do { h \<leftarrow> hitdata_new (-1) (13 + 2); SetData 8 1 h }"

definition raw :: "nat \<Rightarrow> hitdata \<Rightarrow> real option" where
  "raw i h = do { cell \<leftarrow> rd (hd_data h) i; cell }"

definition if_filled :: "hitdata \<Rightarrow> 'a option \<Rightarrow> 'a option \<Rightarrow> 'a option" where
  "if_filled h a b = do { f \<leftarrow> IsFilled h; if f then a else b }"

definition raw3 :: "nat \<Rightarrow> hitdata \<Rightarrow> vec3 option" where
  "raw3 i h = do { x \<leftarrow> raw i h; y \<leftarrow> raw (i + 1) h; z \<leftarrow> raw (i + 2) h; Some (Vec x y z) }"

definition unset3 :: vec3 where
  "unset3 = Vec (- (10 ^ 9)) (- (10 ^ 9)) (- (10 ^ 9))"

definition GetTRID :: "hitdata \<Rightarrow> int option" where
  "GetTRID h = if_filled h (do { r \<leftarrow> raw 0 h; to_int32 r }) (Some (- (10 ^ 9)))"

definition GetPID :: "hitdata \<Rightarrow> int option" where
  "GetPID h = if_filled h (do { r \<leftarrow> raw 1 h; to_int32 r }) (Some (- (10 ^ 9)))"

definition GetWeight :: "hitdata \<Rightarrow> real option" where
  "GetWeight h = raw 8 h"

definition GetP :: "hitdata \<Rightarrow> vec3 option" where
  "GetP h = if_filled h (raw3 2 h) (Some unset3)"

definition GetV :: "hitdata \<Rightarrow> vec3 option" where
  "GetV h = if_filled h (raw3 5 h) (Some unset3)"

definition GetMomentumAtTarget :: "hitdata \<Rightarrow> vec3 option" where
  "GetMomentumAtTarget h = if_filled h (raw3 9 h) (Some unset3)"

definition GetVertexAtTarget :: "hitdata \<Rightarrow> vec3 option" where
  "GetVertexAtTarget h = if_filled h (raw3 12 h) (Some unset3)"

section \<open>A store of numbered slots\<close>

text \<open>Filling a record is a sequence of SetData calls.\<close>

fun put_all :: "(nat \<Rightarrow> real \<Rightarrow> 's \<Rightarrow> 's option) \<Rightarrow> (nat \<times> real) list \<Rightarrow> 's \<Rightarrow> 's option" where
  "put_all put [] s = Some s"
| "put_all put ((i, x) # kvs) s = do { s' \<leftarrow> put i x s; put_all put kvs s' }"

text \<open>What the users of a hit record rely on, with the slots seen as a partial map.\<close>

locale slot_store =
  fixes inv :: "'s \<Rightarrow> bool"
    and cap :: "'s \<Rightarrow> nat"
    and slots :: "'s \<Rightarrow> nat \<Rightarrow> real option"
    and put :: "nat \<Rightarrow> real \<Rightarrow> 's \<Rightarrow> 's option"
    and get :: "nat \<Rightarrow> 's \<Rightarrow> real option"
    and full :: "'s \<Rightarrow> bool option"
    and unset :: real
  assumes put_in: "inv s \<Longrightarrow> i < cap s \<Longrightarrow>
      \<exists>t. put i x s = Some t \<and> inv t \<and> cap t = cap s \<and> slots t = (slots s)(i \<mapsto> x)"
    and put_out: "inv s \<Longrightarrow> cap s \<le> i \<Longrightarrow> put i x s = Some s"
    and get_slot: "inv s \<Longrightarrow> get i s = Some (case slots s i of None \<Rightarrow> unset | Some x \<Rightarrow> x)"
    and full_slots: "inv s \<Longrightarrow> full s = Some ({..<cap s} \<subseteq> dom (slots s))"
    and slots_cap: "inv s \<Longrightarrow> dom (slots s) \<subseteq> {..<cap s}"
begin

lemma put_all_slots:
  "inv s \<Longrightarrow> \<forall>(i, x) \<in> set kvs. i < cap s \<Longrightarrow>
   \<exists>t. put_all put kvs s = Some t \<and> inv t \<and> cap t = cap s \<and> slots t = slots s ++ map_of (rev kvs)"
proof (induction kvs arbitrary: s)
  case (Cons kv kvs)
  obtain i x where kv: "kv = (i, x)" by force
  obtain s' where s': "put i x s = Some s'" "inv s'" "cap s' = cap s" "slots s' = (slots s)(i \<mapsto> x)"
    using put_in [of s i x] Cons.prems kv by auto
  obtain t where t: "put_all put kvs s' = Some t" "inv t" "cap t = cap s'"
      "slots t = slots s' ++ map_of (rev kvs)"
    using Cons.IH [OF s'(2)] Cons.prems s'(3) by auto
  then show ?case using s' kv by (simp add: map_add_def fun_eq_iff split: option.splits)
qed simp

lemma get_put_all:
  assumes "inv s" "\<forall>(i, x) \<in> set kvs. i < cap s" "distinct (map fst kvs)" "(i, x) \<in> set kvs"
  shows "\<exists>t. put_all put kvs s = Some t \<and> get i t = Some x"
proof -
  obtain t where t: "put_all put kvs s = Some t" "inv t" "slots t = slots s ++ map_of (rev kvs)"
    using put_all_slots [OF assms(1,2)] by auto
  have "map_of (rev kvs) i = Some x"
    using assms(3,4) by (intro map_of_is_SomeI) (simp_all add: rev_map [symmetric])
  then show ?thesis using t get_slot [OF t(2), of i] by (simp add: map_add_def)
qed

lemma full_put_all:
  assumes "inv s" "\<forall>(i, x) \<in> set kvs. i < cap s"
  shows "\<exists>t. put_all put kvs s = Some t \<and>
    full t = Some ({..<cap s} \<subseteq> dom (slots s) \<union> fst ` set kvs)"
proof -
  obtain t where t: "put_all put kvs s = Some t" "inv t" "cap t = cap s"
      "slots t = slots s ++ map_of (rev kvs)"
    using put_all_slots [OF assms] by auto
  then show ?thesis using full_slots [OF t(2)] by (auto simp: dom_map_of_conv_image_fst)
qed

end

section \<open>g4sbshitdata is such a store\<close>

definition hd_inv :: "hitdata \<Rightarrow> bool" where
  "hd_inv h \<longleftrightarrow> 0 < hd_size h \<and> hd_size h < 31 \<and> length (hd_data h) = hd_size h
     \<and> (\<forall>i. bit (hd_fill h) i \<longrightarrow> i < hd_size h \<and> hd_data h ! i \<noteq> None)"

definition hd_slots :: "hitdata \<Rightarrow> nat \<Rightarrow> real option" where
  "hd_slots h i = (if bit (hd_fill h) i then hd_data h ! i else None)"

lemma int_bit_small [simp]: "k < 31 \<Longrightarrow> int_bit k = Some (2 ^ k)"
  by (simp add: int_bit_def)

lemma bit_exp_word [simp]: "k < 64 \<Longrightarrow> bit ((2 :: 64 word) ^ k) i \<longleftrightarrow> i = k"
  by (auto simp: bit_exp_iff)

lemma hitdata_new_inv:
  assumes "0 < sz" "sz < 31"
  shows "\<exists>h. hitdata_new detid sz = Some h \<and> hd_inv h \<and> hd_size h = sz
    \<and> hd_slots h = [0 \<mapsto> 31415927 / 10000000]"
  using assms by (auto simp: hitdata_new_def hd_inv_def hd_slots_def fun_eq_iff bit_simps
      intro: exI [of _ "31415927 / 10000000 :: real"])

lemma SetData_in:
  assumes "hd_inv h" "i < hd_size h"
  shows "\<exists>t. SetData i x h = Some t \<and> hd_inv t \<and> hd_size t = hd_size h
    \<and> hd_slots t = (hd_slots h)(i \<mapsto> x)"
  using assms
  by (auto simp: SetData_def hd_inv_def hd_slots_def fun_eq_iff bit_or_iff nth_list_update)

lemma GetData_slot:
  "hd_inv h \<Longrightarrow> GetData i h = Some (case hd_slots h i of None \<Rightarrow> 10 ^ 9 | Some x \<Rightarrow> x)"
  by (auto simp: GetData_def hd_inv_def hd_slots_def and_exp_eq_0_iff_not_bit rd_def not_le split: option.splits)

lemma mask_iff: "k < 31 \<Longrightarrow> (w = 2 ^ k - (1 :: 64 word)) \<longleftrightarrow> (\<forall>i < 64. bit w i \<longleftrightarrow> i < k)"
  by (auto simp: bit_eq_iff bit_mask_iff simp flip: mask_eq_exp_minus_1)

lemma IsFilled_slots:
  "hd_inv h \<Longrightarrow> IsFilled h = Some ({..<hd_size h} \<subseteq> dom (hd_slots h))"
  by (auto simp: IsFilled_def hd_inv_def hd_slots_def mask_iff dom_def subset_iff)

interpretation hd: slot_store hd_inv hd_size hd_slots SetData GetData IsFilled "10 ^ 9"
proof
  show "\<And>s i x. hd_inv s \<Longrightarrow> hd_size s \<le> i \<Longrightarrow> SetData i x s = Some s"
    by (simp add: SetData_def)
  show "\<And>s. hd_inv s \<Longrightarrow> dom (hd_slots s) \<subseteq> {..<hd_size s}"
    by (auto simp: hd_inv_def hd_slots_def split: if_splits)
qed (simp_all add: SetData_in GetData_slot IsFilled_slots)

lemma gendata_new_inv:
  "\<exists>h. gendata_new = Some h \<and> hd_inv h \<and> hd_size h = 15
     \<and> hd_slots h = [0 \<mapsto> 31415927 / 10000000, 8 \<mapsto> 1]"
proof -
  obtain h where h: "hitdata_new (-1) 15 = Some h" "hd_inv h" "hd_size h = 15"
      "hd_slots h = [0 \<mapsto> 31415927 / 10000000]"
    using hitdata_new_inv [of 15 "-1"] by auto
  then show ?thesis using SetData_in [OF h(2), of 8 1] by (auto simp: gendata_new_def)
qed

lemma raw_slot: "hd_inv h \<Longrightarrow> hd_slots h i = Some x \<Longrightarrow> raw i h = Some x"
  by (auto simp: raw_def rd_def hd_inv_def hd_slots_def split: if_splits)

text \<open>C15. A hit record of any size up to 30 slots behaves as a map: after a sequence of
  SetData calls on distinct slots every GetData returns what was stored, and IsFilled says
  exactly whether every slot other than slot 0 (which the constructor sets) was stored.\<close>

theorem hitdata_fill_read:
  assumes "0 < sz" "sz < 31" "\<forall>(i, x) \<in> set kvs. i < sz" "distinct (map fst kvs)"
  shows "\<exists>h t. hitdata_new detid sz = Some h \<and> put_all SetData kvs h = Some t
    \<and> (\<forall>(i, x) \<in> set kvs. GetData i t = Some x)
    \<and> IsFilled t = Some ({1..<sz} \<subseteq> fst ` set kvs)"
proof -
  obtain h where h: "hitdata_new detid sz = Some h" "hd_inv h" "hd_size h = sz"
      "hd_slots h = [0 \<mapsto> 31415927 / 10000000]"
    using hitdata_new_inv [OF assms(1,2)] by blast
  have kvs: "\<forall>(i, x) \<in> set kvs. i < hd_size h" using assms(3) h(3) by simp
  obtain t where t: "put_all SetData kvs h = Some t"
      "IsFilled t = Some ({..<hd_size h} \<subseteq> dom (hd_slots h) \<union> fst ` set kvs)"
    using hd.full_put_all [OF h(2) kvs] by blast
  have "GetData i t = Some x" if "(i, x) \<in> set kvs" for i x
    using hd.get_put_all [OF h(2) kvs assms(4) that] t(1) by simp
  moreover have "({..<hd_size h} \<subseteq> dom (hd_slots h) \<union> fst ` set kvs) = ({1..<sz} \<subseteq> fst ` set kvs)"
    using h(3,4) by (auto simp: subset_iff Suc_le_eq)
  ultimately show ?thesis using h(1) t by (intro exI [of _ h] exI [of _ t]) auto
qed

theorem hitdata_fill_read_witness:
  "\<exists>h t. hitdata_new 1 3 = Some h \<and> put_all SetData [(1, 5), (2, 7)] h = Some t
    \<and> (\<forall>(i, x) \<in> set [(1, 5), (2, 7)]. GetData i t = Some x)
    \<and> IsFilled t = Some ({1..<3} \<subseteq> fst ` set [(1 :: nat, 5 :: real), (2, 7)])"
  by (rule hitdata_fill_read) auto

lemma accessors_full:
  assumes "IsFilled t = Some True" "\<And>i. 0 < i \<Longrightarrow> i < 15 \<Longrightarrow> raw i t = Some (v i)"
  shows "GetP t = Some (Vec (v 2) (v 3) (v 4))" "GetV t = Some (Vec (v 5) (v 6) (v 7))"
    "GetMomentumAtTarget t = Some (Vec (v 9) (v 10) (v 11))"
    "GetVertexAtTarget t = Some (Vec (v 12) (v 13) (v 14))"
  using assms
  by (simp_all add: GetP_def GetV_def GetMomentumAtTarget_def GetVertexAtTarget_def if_filled_def raw3_def)

lemma accessors_unset:
  assumes "IsFilled t = Some False"
  shows "GetP t = Some unset3" "GetV t = Some unset3" "GetTRID t = Some (- (10 ^ 9))"
    "GetPID t = Some (- (10 ^ 9))" "GetMomentumAtTarget t = Some unset3"
    "GetVertexAtTarget t = Some unset3"
  using assms
  by (simp_all add: GetP_def GetV_def GetTRID_def GetPID_def GetMomentumAtTarget_def
      GetVertexAtTarget_def if_filled_def)

text \<open>The record of a generated track: once all of its slots 1 to 14 but the weight
  have been stored the accessors return the stored particle, momentum and vertices; if one
  of them is missing, every accessor returns the -1e9 that marks a record as unusable.\<close>

lemma gendata_accessors:
  assumes "\<forall>(i, x) \<in> set kvs. i < 15"
  shows "\<exists>g t. gendata_new = Some g \<and> put_all SetData kvs g = Some t \<and>
    (let m = [8 \<mapsto> 1] ++ map_of (rev kvs); v = (\<lambda>i. the (m i)) in
     (if {1..<15} \<subseteq> insert 8 (fst ` set kvs)
      then GetP t = Some (Vec (v 2) (v 3) (v 4)) \<and> GetV t = Some (Vec (v 5) (v 6) (v 7))
         \<and> GetMomentumAtTarget t = Some (Vec (v 9) (v 10) (v 11))
         \<and> GetVertexAtTarget t = Some (Vec (v 12) (v 13) (v 14))
      else GetP t = Some unset3 \<and> GetV t = Some unset3 \<and> GetTRID t = Some (- (10 ^ 9))
         \<and> GetPID t = Some (- (10 ^ 9)) \<and> GetMomentumAtTarget t = Some unset3
         \<and> GetVertexAtTarget t = Some unset3)
     \<and> GetWeight t = m 8)"
proof -
  obtain g where g: "gendata_new = Some g" "hd_inv g" "hd_size g = 15"
      "hd_slots g = [0 \<mapsto> 31415927 / 10000000, 8 \<mapsto> 1]"
    using gendata_new_inv by blast
  have kvs: "\<forall>(i, x) \<in> set kvs. i < hd_size g" using assms g(3) by simp
  obtain t where t: "put_all SetData kvs g = Some t" "hd_inv t" "hd_size t = hd_size g"
      "hd_slots t = hd_slots g ++ map_of (rev kvs)"
    using hd.put_all_slots [OF g(2) kvs] by blast
  let ?m = "[8 \<mapsto> 1] ++ map_of (rev kvs)"
  have slot: "hd_slots t i = ?m i" if "0 < i" for i
    using that t(4) g(4) by (simp add: map_add_def split: option.splits)
  have w: "GetWeight t = ?m 8"
  proof -
    obtain x where "?m 8 = Some x" by (cases "map_of (rev kvs) 8") (auto simp: map_add_def)
    then show ?thesis using raw_slot [OF t(2), of 8] slot [of 8] by (auto simp: GetWeight_def)
  qed
  have dom0: "dom (hd_slots t) = {0, 8} \<union> fst ` set kvs"
    using t(4) g(4) by (auto simp: dom_map_of_conv_image_fst)
  have "({..<hd_size t} \<subseteq> dom (hd_slots t)) = ({1..<15} \<subseteq> insert 8 (fst ` set kvs))"
    unfolding dom0 t(3) g(3) by (auto simp: subset_iff Suc_le_eq)
  then have full: "IsFilled t = Some ({1..<15} \<subseteq> insert 8 (fst ` set kvs))"
    using IsFilled_slots [OF t(2)] by simp
  have r: "raw i t = Some (the (?m i))" if "{1..<15} \<subseteq> insert 8 (fst ` set kvs)" "0 < i" "i < 15" for i
  proof -
    have "i \<in> {1..<15}" using that by simp
    then have "i \<in> insert 8 (fst ` set kvs)" using that(1) by blast
    then have "i \<in> dom ?m" by (auto simp: dom_map_of_conv_image_fst)
    then obtain x where "?m i = Some x" by (metis domD)
    then show ?thesis using raw_slot [OF t(2), of i] slot [of i] that by auto
  qed
  have "if {1..<15} \<subseteq> insert 8 (fst ` set kvs)
      then GetP t = Some (Vec (the (?m 2)) (the (?m 3)) (the (?m 4)))
         \<and> GetV t = Some (Vec (the (?m 5)) (the (?m 6)) (the (?m 7)))
         \<and> GetMomentumAtTarget t = Some (Vec (the (?m 9)) (the (?m 10)) (the (?m 11)))
         \<and> GetVertexAtTarget t = Some (Vec (the (?m 12)) (the (?m 13)) (the (?m 14)))
      else GetP t = Some unset3 \<and> GetV t = Some unset3 \<and> GetTRID t = Some (- (10 ^ 9))
         \<and> GetPID t = Some (- (10 ^ 9)) \<and> GetMomentumAtTarget t = Some unset3
         \<and> GetVertexAtTarget t = Some unset3"
    (is "if ?F then _ else _")
  proof (cases ?F)
    case True
    then have "IsFilled t = Some True" using full by simp
    from accessors_full [OF this r [OF True]] True show ?thesis by simp
  next
    case False
    then have "IsFilled t = Some False" using full by simp
    from accessors_unset [OF this] False show ?thesis by simp
  qed
  then show ?thesis using g(1) t(1) w unfolding Let_def by blast
qed

lemma gendata_accessors_example:
  "\<exists>g t. gendata_new = Some g \<and> put_all SetData [(2, 5)] g = Some t \<and> GetP t = Some unset3"
proof -
  have "\<not> {1..<15} \<subseteq> {8, 2 :: nat}" by (auto simp: subset_iff)
  then show ?thesis using gendata_accessors [of "[(2, 5)]"] by (auto simp: Let_def)
qed

section \<open>TSBSGEMHit\<close>

text \<open>The arrays fIdx, fADC and fCharge are used strictly within their bounds by the
  code; an access outside them is None here.\<close>

record gemhit =
  gh_idx :: "int list"
  gh_adc :: "int list"
  gh_charge :: "real list"
  gh_time :: real
  gh_nsample :: nat
  gh_hitcharge :: real
  gh_total :: int
  gh_size :: nat

definition gemhit_new :: "nat \<Rightarrow> nat \<Rightarrow> gemhit" where
  "gemhit_new n nsample =
     \<lparr> gh_idx = replicate n 0, gh_adc = replicate (nsample * n) 0, gh_charge = replicate n 0,
       gh_time = -1, gh_nsample = nsample, gh_hitcharge = 0, gh_total = 0, gh_size = n \<rparr>"

definition wr :: "nat \<Rightarrow> 'a \<Rightarrow> 'a list \<Rightarrow> 'a list option" where
  "wr i x xs = (if i < length xs then Some (xs[i := x]) else None)"

text \<open>The strip number is narrowed to a Short\_t.\<close>

definition AddStripAt :: "int \<Rightarrow> nat \<Rightarrow> gemhit \<Rightarrow> gemhit option" where
  "AddStripAt idx n v = do { xs \<leftarrow> wr n (wrap16 idx) (gh_idx v); Some (v \<lparr> gh_idx := xs \<rparr>) }"

definition AddChargeAt :: "real \<Rightarrow> nat \<Rightarrow> gemhit \<Rightarrow> gemhit option" where
  "AddChargeAt val n v = do { xs \<leftarrow> wr n val (gh_charge v); Some (v \<lparr> gh_charge := xs \<rparr>) }"

definition AddSampleAt :: "int \<Rightarrow> nat \<Rightarrow> nat \<Rightarrow> gemhit \<Rightarrow> gemhit option" where
  "AddSampleAt val sample n v = do {
     xs \<leftarrow> wr (n * gh_nsample v + sample) val (gh_adc v);
     Some (v \<lparr> gh_adc := xs, gh_total := gh_total v + val \<rparr>) }"

definition GetIdx :: "nat \<Rightarrow> gemhit \<Rightarrow> int option" where
  "GetIdx n v = rd (gh_idx v) n"

definition GetADC :: "nat \<Rightarrow> nat \<Rightarrow> gemhit \<Rightarrow> int option" where
  "GetADC n sample v = rd (gh_adc v) (n * gh_nsample v + sample)"

definition GetCharge :: "nat \<Rightarrow> gemhit \<Rightarrow> real option" where
  "GetCharge n v = rd (gh_charge v) n"

text \<open>fSize counts the strips in use; the arrays may be longer.\<close>

definition SetTime :: "real \<Rightarrow> gemhit \<Rightarrow> gemhit" where
  "SetTime val v = v \<lparr> gh_time := val \<rparr>"

definition SetHitCharge :: "real \<Rightarrow> gemhit \<Rightarrow> gemhit" where
  "SetHitCharge val v = v \<lparr> gh_hitcharge := val \<rparr>"

definition SetSize :: "nat \<Rightarrow> gemhit \<Rightarrow> gemhit" where
  "SetSize n v = v \<lparr> gh_size := n \<rparr>"

definition gh_inv :: "gemhit \<Rightarrow> bool" where
  "gh_inv v \<longleftrightarrow> gh_size v \<le> length (gh_idx v) \<and> gh_size v \<le> length (gh_charge v)
     \<and> gh_nsample v * gh_size v \<le> length (gh_adc v)"

lemma gemhit_new_inv [inv_intros]: "gh_inv (gemhit_new n k)"
  by (simp add: gh_inv_def gemhit_new_def)

lemma sample_index: "n < sz \<Longrightarrow> k < ns \<Longrightarrow> n * ns + k < ns * (sz :: nat)"
proof -
  assume "n < sz" "k < ns"
  then have "n * ns + k < Suc n * ns" by simp
  also have "\<dots> \<le> sz * ns" using \<open>n < sz\<close> by (intro mult_le_mono1) simp
  finally show ?thesis by (simp add: mult.commute)
qed

lemma sample_index_inj:
  "k < ns \<Longrightarrow> k' < ns \<Longrightarrow> n * ns + k = n' * ns + (k' :: nat) \<longleftrightarrow> n = n' \<and> k = k'"
proof
  assume a: "k < ns" "k' < ns" "n * ns + k = n' * ns + k'"
  then have "(n * ns + k) div ns = (n' * ns + k') div ns" "(n * ns + k) mod ns = (n' * ns + k') mod ns"
    by simp_all
  then show "n = n' \<and> k = k'" using a by (simp add: add.commute)
qed simp

lemma AddSampleAt_ok:
  assumes "gh_inv v" "n < gh_size v" "k < gh_nsample v"
  shows "\<exists>v'. AddSampleAt val k n v = Some v' \<and> gh_inv v' \<and> gh_size v' = gh_size v
    \<and> gh_nsample v' = gh_nsample v
    \<and> (\<forall>n' k'. n' < gh_size v \<longrightarrow> k' < gh_nsample v \<longrightarrow>
          GetADC n' k' v' = (if n' = n \<and> k' = k then Some val else GetADC n' k' v))"
  using assms sample_index [OF assms(2,3)]
  by (auto simp: AddSampleAt_def wr_def gh_inv_def GetADC_def rd_def nth_list_update sample_index_inj)

section \<open>TSBSGEMSimHitData\<close>

record gemhitdata =
  hdGem :: nat
  hdPlane :: nat
  hdModule :: nat
  hdEdep :: real
  hdTime :: real
  hdType :: nat
  hdTRID :: nat
  hdPID :: int
  hdXi :: vec3
  hdXo :: vec3
  hdXr :: vec3
  hdMom :: vec3
  hdVert :: vec3

record simhitdata =
  shRunID :: nat
  shEvtID :: nat
  shSource :: int
  shHits :: "gemhitdata list"

definition hit0 :: gemhitdata where
  "hit0 = \<lparr> hdGem = 0, hdPlane = 0, hdModule = 0, hdEdep = 0, hdTime = 0, hdType = 0, hdTRID = 0,
     hdPID = 0, hdXi = 0, hdXo = 0, hdXr = 0, hdMom = 0, hdVert = 0 \<rparr>"

definition simhitdata_new :: simhitdata where
  "simhitdata_new = \<lparr> shRunID = 0, shEvtID = 0, shSource = 0, shHits = [] \<rparr>"

text \<open>std::vector::resize keeps the first elements and appends value-initialised ones.\<close>

definition resize :: "nat \<Rightarrow> 'a \<Rightarrow> 'a list \<Rightarrow> 'a list" where
  "resize n x xs = take n xs @ replicate (n - length xs) x"

definition SetNHit :: "nat \<Rightarrow> simhitdata \<Rightarrow> simhitdata" where
  "SetNHit h d = d \<lparr> shHits := resize h hit0 (shHits d) \<rparr>"

definition ClearEvent :: "simhitdata \<Rightarrow> simhitdata" where
  "ClearEvent d = d \<lparr> shHits := [] \<rparr>"

definition InitEvent :: "nat \<Rightarrow> simhitdata \<Rightarrow> simhitdata" where
  "InitEvent h d = (if h \<le> 0 then d else SetNHit h d)"

text \<open>The setters write a field of \<open>fHitData[k]\<close>.\<close>

definition upd_hit :: "nat \<Rightarrow> (gemhitdata \<Rightarrow> gemhitdata) \<Rightarrow> simhitdata \<Rightarrow> simhitdata option" where
  "upd_hit k f d = do { x \<leftarrow> rd (shHits d) k; Some (d \<lparr> shHits := (shHits d)[k := f x] \<rparr>) }"

definition SetMomentum :: "nat \<Rightarrow> vec3 \<Rightarrow> simhitdata \<Rightarrow> simhitdata option" where
  "SetMomentum k p = upd_hit k (hdMom_update (\<lambda>_. p))"
definition SetHitEntrance :: "nat \<Rightarrow> vec3 \<Rightarrow> simhitdata \<Rightarrow> simhitdata option" where
  "SetHitEntrance k x = upd_hit k (hdXi_update (\<lambda>_. x))"
definition SetHitExit :: "nat \<Rightarrow> vec3 \<Rightarrow> simhitdata \<Rightarrow> simhitdata option" where
  "SetHitExit k x = upd_hit k (hdXo_update (\<lambda>_. x))"
definition SetHitReadout :: "nat \<Rightarrow> vec3 \<Rightarrow> simhitdata \<Rightarrow> simhitdata option" where
  "SetHitReadout k x = upd_hit k (hdXr_update (\<lambda>_. x))"
definition SetVertex :: "nat \<Rightarrow> vec3 \<Rightarrow> simhitdata \<Rightarrow> simhitdata option" where
  "SetVertex k v = upd_hit k (hdVert_update (\<lambda>_. v))"
definition SetHitEnergy :: "nat \<Rightarrow> real \<Rightarrow> simhitdata \<Rightarrow> simhitdata option" where
  "SetHitEnergy k e = upd_hit k (hdEdep_update (\<lambda>_. e))"
definition SetHitTime :: "nat \<Rightarrow> real \<Rightarrow> simhitdata \<Rightarrow> simhitdata option" where
  "SetHitTime k t = upd_hit k (hdTime_update (\<lambda>_. t))"
definition SetHitChamber :: "nat \<Rightarrow> nat \<Rightarrow> simhitdata \<Rightarrow> simhitdata option" where
  "SetHitChamber k c = upd_hit k (hdGem_update (\<lambda>_. c))"
definition SetHitPlane :: "nat \<Rightarrow> nat \<Rightarrow> simhitdata \<Rightarrow> simhitdata option" where
  "SetHitPlane k p = upd_hit k (hdPlane_update (\<lambda>_. p))"
definition SetHitModule :: "nat \<Rightarrow> nat \<Rightarrow> simhitdata \<Rightarrow> simhitdata option" where
  "SetHitModule k m = upd_hit k (hdModule_update (\<lambda>_. m))"
definition SetParticleType :: "nat \<Rightarrow> nat \<Rightarrow> simhitdata \<Rightarrow> simhitdata option" where
  "SetParticleType k t = upd_hit k (hdType_update (\<lambda>_. t))"
definition SetTrackID :: "nat \<Rightarrow> nat \<Rightarrow> simhitdata \<Rightarrow> simhitdata option" where
  "SetTrackID k t = upd_hit k (hdTRID_update (\<lambda>_. t))"
definition SetParticleID :: "nat \<Rightarrow> int \<Rightarrow> simhitdata \<Rightarrow> simhitdata option" where
  "SetParticleID k p = upd_hit k (hdPID_update (\<lambda>_. p))"

lemmas hit_setters = SetMomentum_def SetHitEntrance_def SetHitExit_def SetHitReadout_def
  SetVertex_def SetHitEnergy_def SetHitTime_def SetHitChamber_def SetHitPlane_def
  SetHitModule_def SetParticleType_def SetTrackID_def SetParticleID_def

lemma upd_hit_Some [simp]:
  "k < length (shHits d) \<Longrightarrow> upd_hit k f d = Some (d \<lparr> shHits := (shHits d)[k := f (shHits d ! k)] \<rparr>)"
  by (simp add: upd_hit_def rd_def)

lemma length_resize [simp]: "length (resize n x xs) = n"
  by (simp add: resize_def)

lemma nth_resize: "i < n \<Longrightarrow> resize n x xs ! i = (if i < length xs then xs ! i else x)"
  by (simp add: resize_def nth_append)

lemma length_SetNHit [simp]: "length (shHits (SetNHit n d)) = n"
  by (simp add: SetNHit_def)

end
