(* ===== verification/DBManager.thy ===== *)
theory DBManager
  imports Prelude
begin

text \<open>
  The database manager, src/src/TSBSDBManager.cxx and .h: looking up keys in
  the text files of db/, converting their values, the tables that number the
  GEM modules, the geometry of every plane and module, and the optics
  coefficients.  A file is the list of its lines; the file system and the
  environment variables are parameters.  A call of exit is the value Exit.
\<close>

section \<open>Input streams\<close>

text \<open>An istringstream: what is left to read, and its failbit and eofbit.\<close>

record stream =
  st_rest :: string
  st_fail :: bool
  st_eof :: bool

definition open_stream :: "string \<Rightarrow> stream" where
  "open_stream s = \<lparr> st_rest = s, st_fail = False, st_eof = False \<rparr>"

definition good :: "stream \<Rightarrow> bool" where
  "good s \<longleftrightarrow> \<not> st_fail s \<and> \<not> st_eof s"

definition isspace :: "char \<Rightarrow> bool" where
  "isspace c \<longleftrightarrow> c \<in> {CHR 0x20, CHR 0x09, CHR 0x0A, CHR 0x0B, CHR 0x0C, CHR 0x0D}"

definition isdigit :: "char \<Rightarrow> bool" where
  "isdigit c \<longleftrightarrow> 48 \<le> (of_char c :: nat) \<and> (of_char c :: nat) \<le> 57"

definition digits_val :: "string \<Rightarrow> int" where
  "digits_val ds = fold (\<lambda>c n. 10 * n + (of_char c - 48)) ds 0"

definition split_sign :: "string \<Rightarrow> int \<times> string" where
  "split_sign s = (case s of [] \<Rightarrow> (1, [])
     | c # r \<Rightarrow> if c = CHR 0x2D then (-1, r) else if c = CHR 0x2B then (1, r) else (1, s))"

text \<open>\<open>sv >> n\<close> for an Int\_t: a stream that is not good only fails, as does one with
  nothing but blanks left, and the variable keeps its value; a failed conversion
  stores 0, a number too large the nearest Int\_t.\<close>

definition read_int :: "stream \<Rightarrow> int option \<Rightarrow> stream \<times> int option" where
  "read_int sv old =
     (if \<not> good sv then (sv \<lparr> st_fail := True \<rparr>, old)
      else (let t = dropWhile isspace (st_rest sv) in
        if t = [] then (\<lparr> st_rest = [], st_fail = True, st_eof = True \<rparr>, old)
        else (let (sg, u) = split_sign t; ds = takeWhile isdigit u; r = dropWhile isdigit u;
                  n = sg * digits_val ds in
          if ds = [] then (\<lparr> st_rest = r, st_fail = True, st_eof = (r = []) \<rparr>, Some 0)
          else if n < -2147483648
          then (\<lparr> st_rest = r, st_fail = True, st_eof = (r = []) \<rparr>, Some (-2147483648))
          else if 2147483647 < n
          then (\<lparr> st_rest = r, st_fail = True, st_eof = (r = []) \<rparr>, Some 2147483647)
          else (\<lparr> st_rest = r, st_fail = False, st_eof = (r = []) \<rparr>, Some n))))"

text \<open>\<open>sv >> d\<close> for a Double\_t: decimal digits with an optional point and exponent.\<close>

definition scale10 :: "int \<Rightarrow> int \<Rightarrow> real" where
  "scale10 m e = (if 0 \<le> e then of_int m * 10 ^ nat e else of_int m / 10 ^ nat (- e))"

definition read_double :: "stream \<Rightarrow> real option \<Rightarrow> stream \<times> real option" where
  "read_double sv old =
     (if \<not> good sv then (sv \<lparr> st_fail := True \<rparr>, old)
      else (let t = dropWhile isspace (st_rest sv) in
        if t = [] then (\<lparr> st_rest = [], st_fail = True, st_eof = True \<rparr>, old)
        else (let (sg, u) = split_sign t; ds = takeWhile isdigit u; r = dropWhile isdigit u;
                  point = (case r of [] \<Rightarrow> False | c # _ \<Rightarrow> c = CHR 0x2E);
                  fs = (if point then takeWhile isdigit (tl r) else []);
                  r1 = (if point then dropWhile isdigit (tl r) else r);
                  expo = (ds @ fs \<noteq> [] \<and> (case r1 of [] \<Rightarrow> False | c # _ \<Rightarrow> c = CHR 0x65 \<or> c = CHR 0x45));
                  (esg, r2) = (if expo then split_sign (tl r1) else (1, r1));
                  es = (if expo then takeWhile isdigit r2 else []);
                  r3 = (if expo then dropWhile isdigit r2 else r2) in
          if ds @ fs = [] \<or> (expo \<and> es = [])
          then (\<lparr> st_rest = r3, st_fail = True, st_eof = (r3 = []) \<rparr>, Some 0)
          else (\<lparr> st_rest = r3, st_fail = False, st_eof = (r3 = []) \<rparr>,
                Some (scale10 (sg * digits_val (ds @ fs)) (esg * digits_val es - int (length fs)))))))"

definition read_string :: "stream \<Rightarrow> string option \<Rightarrow> stream \<times> string option" where
  "read_string sv old =
     (if \<not> good sv then (sv \<lparr> st_fail := True \<rparr>, old)
      else (let t = dropWhile isspace (st_rest sv) in
        if t = [] then (\<lparr> st_rest = [], st_fail = True, st_eof = True \<rparr>, old)
        else (let r = dropWhile (\<lambda>c. \<not> isspace c) t in
          (\<lparr> st_rest = r, st_fail = False, st_eof = (r = []) \<rparr>, Some (takeWhile (\<lambda>c. \<not> isspace c) t)))))"

section \<open>Keys and values\<close>

definition key_blank :: "char \<Rightarrow> bool" where
  "key_blank c \<longleftrightarrow> c \<in> {CHR 0x20, CHR 0x09, CHR 0x3D}"

fun FindKey :: "string list \<Rightarrow> string \<Rightarrow> string" where
  "FindKey [] key = []"
| "FindKey (line # inp) key =
     (if length line \<le> length key then FindKey inp key
      else if take (length key) line = key
      then dropWhile key_blank (drop (length key) line)
      else FindKey inp key)"

datatype dbtype = kInt | kDouble | kIntV | kString

datatype dbval = DInt int | DDouble real | DIntV "int option list" | DString string

text \<open>The variables a request list points to, by the name of their key.\<close>

type_synonym dbvars = "string \<Rightarrow> dbval option"

definition var_int :: "dbval option \<Rightarrow> int option" where
  "var_int v = (case v of Some (DInt n) \<Rightarrow> Some n | _ \<Rightarrow> None)"
definition var_double :: "dbval option \<Rightarrow> real option" where
  "var_double v = (case v of Some (DDouble x) \<Rightarrow> Some x | _ \<Rightarrow> None)"
definition var_string :: "dbval option \<Rightarrow> string option" where
  "var_string v = (case v of Some (DString s) \<Rightarrow> Some s | _ \<Rightarrow> None)"

text \<open>The loop of the kIntV case: while the stream is good, read and append.\<close>

lemma length_split_sign: "length (snd (split_sign t)) \<le> length t"
  by (cases t) (auto simp: split_sign_def)

lemma read_int_progress:
  "good sv \<Longrightarrow> read_int sv old = (sv', v) \<Longrightarrow> good sv' \<Longrightarrow> length (st_rest sv') < length (st_rest sv)"
proof -
  assume a: "good sv" "read_int sv old = (sv', v)" "good sv'"
  let ?t = "dropWhile isspace (st_rest sv)"
  obtain sg u where u: "split_sign ?t = (sg, u)" by force
  have "length u \<le> length ?t" using length_split_sign [of ?t] u by simp
  also have "\<dots> \<le> length (st_rest sv)" by (rule length_dropWhile_le)
  finally have "length u \<le> length (st_rest sv)" .
  moreover have "takeWhile isdigit u \<noteq> [] \<Longrightarrow> length (dropWhile isdigit u) < length u"
    by (cases u) (auto simp: le_imp_less_Suc length_dropWhile_le split: if_splits)
  ultimately show ?thesis
    using a u by (auto simp: read_int_def good_def Let_def split: if_splits)
qed

function read_ints :: "stream \<Rightarrow> int option \<Rightarrow> int option list \<Rightarrow> stream \<times> int option list" where
  "read_ints sv tempval acc =
     (if \<not> good sv then (sv, acc)
      else read_ints (fst (read_int sv tempval)) (snd (read_int sv tempval))
             (acc @ [snd (read_int sv tempval)]))"
  by pat_completeness auto

termination
proof (relation "measure (\<lambda>(sv, _, _). if good sv then Suc (length (st_rest sv)) else 0)")
  show "((fst (read_int sv tempval), snd (read_int sv tempval), acc @ [snd (read_int sv tempval)]),
         sv, tempval, acc) \<in> measure (\<lambda>(sv, _, _). if good sv then Suc (length (st_rest sv)) else 0)"
    if "\<not> \<not> good sv" for sv tempval acc
    using that read_int_progress [of sv tempval] by (cases "read_int sv tempval") auto
qed simp

declare read_ints.simps [simp del]

definition convert :: "dbtype \<Rightarrow> string \<Rightarrow> dbval option \<Rightarrow> stream \<times> dbval option" where
  "convert ty val old = (let sv = open_stream val in
     case ty of
       kDouble \<Rightarrow> map_prod id (map_option DDouble) (read_double sv (var_double old))
     | kInt \<Rightarrow> map_prod id (map_option DInt) (read_int sv (var_int old))
     | kIntV \<Rightarrow> (let acc = (case old of Some (DIntV xs) \<Rightarrow> xs | _ \<Rightarrow> []);
                     (sv', xs) = read_ints sv None acc
                 in (sv', Some (DIntV xs)))
     | kString \<Rightarrow> map_prod id (map_option DString) (read_string sv (var_string old)))"

fun LoadDB :: "string list \<Rightarrow> (string \<times> dbtype) list \<Rightarrow> string \<Rightarrow> dbvars \<Rightarrow> int \<times> dbvars" where
  "LoadDB inp [] prefix st = (0, st)"
| "LoadDB inp ((name, ty) # request) prefix st =
     (let val = FindKey inp (prefix @ name) in
      if val \<noteq> [] then
        (let (sv, v) = convert ty val (st name); st' = st(name := v) in
         if st_fail sv then (1, st') else LoadDB inp request prefix st')
      else (2, st))"

section \<open>Finding a database file\<close>

definition open_path :: "string option \<Rightarrow> string \<Rightarrow> string \<Rightarrow> string option" where
  "open_path env subdir filename = (case env of None \<Rightarrow> None
     | Some e \<Rightarrow> Some ((if e \<noteq> [] then e @ ''/'' else []) @ (if subdir \<noteq> [] then subdir @ ''/'' else []) @ filename))"

fun first_file :: "(string \<Rightarrow> 'f option) \<Rightarrow> string option list \<Rightarrow> 'f option" where
  "first_file fs [] = None"
| "first_file fs (None # ps) = first_file fs ps"
| "first_file fs (Some p # ps) = (case fs p of Some f \<Rightarrow> Some f | None \<Rightarrow> first_file fs ps)"

definition OpenInput :: "(string \<Rightarrow> string option) \<Rightarrow> (string \<Rightarrow> 'f option) \<Rightarrow> string \<Rightarrow> 'f option" where
  "OpenInput getenv fs filename =
     first_file fs [open_path (Some []) [] filename, open_path (getenv ''DB_DIR'') [] filename,
       open_path (getenv ''LIBSBSGEM'') ''db'' filename]"

section \<open>The manager and its tables\<close>

record geoinfo =
  g_dmag :: real
  g_d0 :: real
  g_xoffset :: real
  g_dx :: real
  g_dy :: real
  g_thetaV :: real
  g_depth :: real
  g_stripangle_u :: real
  g_pitch_u :: real
  g_stripangle_v :: real
  g_pitch_v :: real

record dbm =
  dbVars :: dbvars  \<comment> \<open>the scalar members filled from the general file, by their key\<close>
  dbNChamber :: int
  dbNGEMPlane :: int
  dbNReadOut :: int
  dbNSigParticle :: int
  dbNModule :: "int list"
  dbPMtoIgem :: "int \<times> int \<Rightarrow> int option"
  dbIgemtoPlane :: "int \<Rightarrow> int option"
  dbIgemtoModule :: "int \<Rightarrow> int option"
  dbSigPID :: "int list"
  dbSigTID :: "int list"
  dbPMGeo :: "int \<Rightarrow> geoinfo list option"
  dbNOpticsTerms :: int
  dbOptics :: "int \<Rightarrow> real list option"

definition fErrID :: int where "fErrID = -999"
definition fErrVal :: real where "fErrVal = -999"

datatype 'a run = Exit int | Undefined | Ok 'a

fun run_bind :: "'a run \<Rightarrow> ('a \<Rightarrow> 'b run) \<Rightarrow> 'b run" where
  "run_bind (Exit c) f = Exit c"
| "run_bind Undefined f = Undefined"
| "run_bind (Ok x) f = f x"

lemma run_bind_Ok [simp]: "run_bind r f = Ok y \<longleftrightarrow> (\<exists>x. r = Ok x \<and> f x = Ok y)"
  by (cases r) auto

text \<open>The numbering loop of LoadGeneralInfo: modules are numbered plane by plane.\<close>

fun number_modules :: "int \<Rightarrow> nat \<Rightarrow> int \<Rightarrow> int \<Rightarrow> dbm \<Rightarrow> int \<times> dbm" where
  "number_modules i 0 j nGEMtot m = (nGEMtot, m)"
| "number_modules i (Suc n) j nGEMtot m =
     number_modules i n (j + 1) (nGEMtot + 1)
       (m \<lparr> dbPMtoIgem := (dbPMtoIgem m)((i, j) \<mapsto> nGEMtot),
            dbIgemtoPlane := (dbIgemtoPlane m)(nGEMtot \<mapsto> i),
            dbIgemtoModule := (dbIgemtoModule m)(nGEMtot \<mapsto> j) \<rparr>)"

fun number_planes :: "int \<Rightarrow> int list \<Rightarrow> int \<Rightarrow> dbm \<Rightarrow> int \<times> dbm" where
  "number_planes i [] nGEMtot m = (nGEMtot, m)"
| "number_planes i (nmodule # NModule) nGEMtot m =
     (let m1 = m \<lparr> dbNModule := dbNModule m @ [nmodule] \<rparr>;
          (tot, m2) = number_modules i (nat nmodule) 0 nGEMtot m1
      in number_planes (i + 1) NModule tot m2)"

definition general_request :: "(string \<times> dbtype) list" where
  "general_request =
    [(''do_map_sector'', kInt), (''self_define_sector'', kInt), (''sector_mapped'', kInt),
     (''nchamber'', kInt), (''nsector'', kInt), (''nplane'', kInt), (''nmodule'', kIntV),
     (''nreadout'', kInt), (''gem_drift_id'', kInt), (''gem_copper_front_id'', kInt),
     (''gem_copper_back_id'', kInt), (''gem_strip_id'', kInt), (''faec_id'', kInt),
     (''laec_id'', kInt), (''nsignal'', kInt), (''chan_per_slot'', kInt),
     (''modules_per_readout'', kInt), (''g4sbs_detectortype'', kInt),
     (''g4sbs_z_specoffset'', kDouble), (''calo_thr'', kDouble), (''z0'', kDouble),
     (''calo_z'', kDouble), (''calo_res'', kDouble), (''docalo'', kInt),
     (''order_optics'', kInt), (''opticsfile'', kString)]"

definition signal_request :: "(string \<times> dbtype) list" where
  "signal_request = [(''pid'', kInt), (''tid'', kInt)]"

text \<open>\<open>sn << i\<close> for a non-negative Int\_t.\<close>

fun digits_of :: "nat \<Rightarrow> string" where
  "digits_of n = (if n < 10 then [char_of (48 + n)] else digits_of (n div 10) @ [char_of (48 + n mod 10)])"

declare digits_of.simps [simp del]

fun load_signals :: "string list \<Rightarrow> string \<Rightarrow> nat \<Rightarrow> nat \<Rightarrow> dbvars \<Rightarrow> dbm \<Rightarrow> dbm run" where
  "load_signals inp prefix i 0 st m = Ok m"
| "load_signals inp prefix i (Suc n) st m =
     (let (err, st) = LoadDB inp signal_request (prefix @ ''signal'' @ digits_of (i + 1) @ ''.'') st in
      if err \<noteq> 0 then Exit 2
      else case (var_int (st ''pid''), var_int (st ''tid'')) of
             (Some pid, Some tid) \<Rightarrow>
                load_signals inp prefix (i + 1) n st
                  (m \<lparr> dbSigPID := dbSigPID m @ [pid], dbSigTID := dbSigTID m @ [tid] \<rparr>)
           | _ \<Rightarrow> Undefined)"

section \<open>Optics coefficients\<close>

text \<open>One line of the optics file: four coefficients, then the exponents m, l, k, j, i.
  A failed extraction leaves the variable as it was (None when never read).\<close>

type_synonym optics_row = "real option list \<times> int option list"

definition read_row :: "stream \<Rightarrow> optics_row \<Rightarrow> stream \<times> optics_row" where
  "read_row s0 row = (let (c, e) = row;
     (s1, cxfp) = read_double s0 (c ! 0); (s2, cyfp) = read_double s1 (c ! 1);
     (s3, cxpfp) = read_double s2 (c ! 2); (s4, cypfp) = read_double s3 (c ! 3);
     (s5, m) = read_int s4 (e ! 0); (s6, l) = read_int s5 (e ! 1);
     (s7, k) = read_int s6 (e ! 2); (s8, j) = read_int s7 (e ! 3);
     (s9, i) = read_int s8 (e ! 4)
     in (s9, [cxfp, cyfp, cxpfp, cypfp], [m, l, k, j, i]))"

text \<open>What is appended to \<open>fOpticsCoeff[0]\<close> to \<open>fOpticsCoeff[8]\<close>.\<close>

definition row_coeffs :: "optics_row \<Rightarrow> real list option" where
  "row_coeffs row = (let (c, e) = row in
     if None \<in> set c \<or> None \<in> set e then None
     else Some (List.map the c @ rev (List.map (\<lambda>n. of_int (the n)) e)))"

fun push_row :: "int \<Rightarrow> real list \<Rightarrow> (int \<Rightarrow> real list option) \<Rightarrow> int \<Rightarrow> real list option" where
  "push_row q [] co = co"
| "push_row q (x # xs) co =
     push_row (q + 1) xs (co(q \<mapsto> (case co q of None \<Rightarrow> [] | Some ys \<Rightarrow> ys) @ [x]))"

fun read_rows :: "nat \<Rightarrow> stream \<Rightarrow> optics_row \<Rightarrow> (int \<Rightarrow> real list option) \<Rightarrow> (int \<Rightarrow> real list option) option" where
  "read_rows 0 s row co = Some co"
| "read_rows (Suc n) s row co =
     (let (s', row') = read_row s row in
      case row_coeffs row' of None \<Rightarrow> None | Some xs \<Rightarrow> read_rows n s' row' (push_row 0 xs co))"

text \<open>TString::ReadLine belongs to ROOT and is the parameter read\_line.\<close>

definition LoadOptics :: "(stream \<Rightarrow> stream) \<Rightarrow> (string \<Rightarrow> string option) \<Rightarrow> dbm \<Rightarrow> dbm run" where
  "LoadOptics read_line contents m =
     (let s0 = (case var_string (dbVars m ''opticsfile'') of
                  Some f \<Rightarrow> (case contents f of Some t \<Rightarrow> open_stream t
                               | None \<Rightarrow> \<lparr> st_rest = [], st_fail = True, st_eof = False \<rparr>)
                | None \<Rightarrow> \<lparr> st_rest = [], st_fail = True, st_eof = False \<rparr>);
          co0 = (\<lambda>q. if 0 \<le> q \<and> q < 9 then Some [] else dbOptics m q);
          s1 = read_line s0;
          (s2, terms) = read_int s1 (Some (dbNOpticsTerms m));
          s3 = read_line (read_line (read_line s2)) in
      case terms of None \<Rightarrow> Undefined
      | Some n \<Rightarrow> (case read_rows (nat n) s3 (replicate 4 None, replicate 5 None) co0 of
            None \<Rightarrow> Undefined | Some co \<Rightarrow> Ok (m \<lparr> dbNOpticsTerms := n, dbOptics := co \<rparr>)))"

text \<open>\<open>size() > j\<close> compares an unsigned with a signed integer: a negative j is larger
  than every size.\<close>

definition GetOpticsCoeff :: "dbm \<Rightarrow> int \<Rightarrow> int \<Rightarrow> real" where
  "GetOpticsCoeff m i j =
     (let cs = (case dbOptics m i of None \<Rightarrow> [] | Some cs \<Rightarrow> cs) in
      if 0 \<le> j \<and> j < int (length cs) then cs ! nat j else 10 ^ 38)"

section \<open>Loading the general information\<close>

fun split_lines :: "string \<Rightarrow> string \<Rightarrow> string list" where
  "split_lines cur [] = (if cur = [] then [] else [cur])"
| "split_lines cur (c # s) = (if c = CHR 0x0A then cur # split_lines [] s else split_lines (cur @ [c]) s)"

definition set_general :: "dbvars \<Rightarrow> dbm \<Rightarrow> dbm option" where
  "set_general st m = do {
     nchamber \<leftarrow> var_int (st ''nchamber''); nplane \<leftarrow> var_int (st ''nplane'');
     nreadout \<leftarrow> var_int (st ''nreadout''); nsignal \<leftarrow> var_int (st ''nsignal'');
     Some (m \<lparr> dbVars := st, dbNChamber := nchamber, dbNGEMPlane := nplane,
              dbNReadOut := nreadout, dbNSigParticle := nsignal \<rparr>) }"

definition module_list :: "dbvars \<Rightarrow> int list option" where
  "module_list st = (case st ''nmodule'' of
     Some (DIntV xs) \<Rightarrow> if None \<in> set xs then None else Some (List.map the xs) | _ \<Rightarrow> None)"

text \<open>The second half of LoadGeneralInfo, from the consistency check on.\<close>

definition setup_modules :: "string list \<Rightarrow> string \<Rightarrow> dbvars \<Rightarrow> int list \<Rightarrow> dbm \<Rightarrow> dbm run" where
  "setup_modules inp prefix st NModule m =
     (if dbNGEMPlane m \<noteq> int (length NModule) then Exit 2
      else (let (nGEMtot, m) = number_planes 0 NModule 0 m in
        run_bind (load_signals inp prefix 0 (nat (dbNSigParticle m)) st m) (\<lambda>m.
        Ok (m \<lparr> dbPMGeo := (\<lambda>i. if 0 \<le> i \<and> i < dbNGEMPlane m then Some [] else dbPMGeo m i) \<rparr>))))"

definition LoadGeneralInfo ::
  "(string \<Rightarrow> string option) \<Rightarrow> (string \<Rightarrow> string option) \<Rightarrow> (stream \<Rightarrow> stream) \<Rightarrow> string \<Rightarrow> dbm \<Rightarrow> dbm run" where
  "LoadGeneralInfo getenv contents read_line fileName m =
     (case OpenInput getenv contents fileName of None \<Rightarrow> Exit 0
      | Some text \<Rightarrow>
         (let inp = split_lines [] text; prefix = ''generalinfo.'';
              (err, st) = LoadDB inp general_request prefix ((dbVars m)(''nmodule'' \<mapsto> DIntV [])) in
          if err \<noteq> 0 then Exit 2
          else case (set_general st m, module_list st, var_int (st ''order_optics'')) of
            (Some m, Some NModule, Some fOrderOptics) \<Rightarrow>
              run_bind (if 0 < fOrderOptics then LoadOptics read_line contents m else Ok m)
                (setup_modules inp prefix st NModule)
          | _ \<Rightarrow> Undefined))"

section \<open>Loading the geometry\<close>

definition geo_request :: "(string \<times> dbtype) list" where
  "geo_request = [(''dmag'', kDouble), (''d0'', kDouble), (''xoffset'', kDouble), (''dx'', kDouble),
     (''dy'', kDouble), (''thetaV'', kDouble), (''depth'', kDouble)]"

definition geo_plane_request :: "(string \<times> dbtype) list" where
  "geo_plane_request = [(''x.stripangle'', kDouble), (''x.pitch'', kDouble),
     (''y.stripangle'', kDouble), (''y.pitch'', kDouble)]"

definition geo_of :: "dbvars \<Rightarrow> geoinfo option" where
  "geo_of st = do {
     dmag \<leftarrow> var_double (st ''dmag''); d0 \<leftarrow> var_double (st ''d0'');
     xo \<leftarrow> var_double (st ''xoffset''); dx \<leftarrow> var_double (st ''dx''); dy \<leftarrow> var_double (st ''dy'');
     tv \<leftarrow> var_double (st ''thetaV''); dep \<leftarrow> var_double (st ''depth'');
     au \<leftarrow> var_double (st ''x.stripangle''); pu \<leftarrow> var_double (st ''x.pitch'');
     av \<leftarrow> var_double (st ''y.stripangle''); pv \<leftarrow> var_double (st ''y.pitch'');
     Some \<lparr> g_dmag = dmag, g_d0 = d0, g_xoffset = xo, g_dx = dx, g_dy = dy, g_thetaV = tv,
            g_depth = dep, g_stripangle_u = au, g_pitch_u = pu, g_stripangle_v = av, g_pitch_v = pv \<rparr> }"

text \<open>\<open>fPMGeoInfo[i]\<close>: operator[] yields an empty vector for a missing key.\<close>

definition geos :: "dbm \<Rightarrow> int \<Rightarrow> geoinfo list" where
  "geos m i = (case dbPMGeo m i of None \<Rightarrow> [] | Some gs \<Rightarrow> gs)"

definition push_geo :: "int \<Rightarrow> geoinfo \<Rightarrow> dbm \<Rightarrow> dbm" where
  "push_geo i g m = m \<lparr> dbPMGeo := (dbPMGeo m)(i \<mapsto> geos m i @ [g]) \<rparr>"

fun load_modules :: "string list \<Rightarrow> string \<Rightarrow> nat \<Rightarrow> nat \<Rightarrow> nat \<Rightarrow> dbvars \<Rightarrow> dbm \<Rightarrow> (dbvars \<times> dbm) run" where
  "load_modules inp prefix i j 0 st m = Ok (st, m)"
| "load_modules inp prefix i j (Suc n) st m =
     (let pre = prefix @ ''.plane'' @ digits_of i @ ''.module'' @ digits_of j @ ''.'';
          (err, st) = LoadDB inp geo_request pre st in
      if err \<noteq> 0 then Exit 2
      else (let (err, st) = LoadDB inp geo_plane_request pre st in
        if err \<noteq> 0 then Exit 2
        else case geo_of st of None \<Rightarrow> Undefined
          | Some thisGeo \<Rightarrow> load_modules inp prefix i (j + 1) n st (push_geo (int i) thisGeo m)))"

fun load_planes :: "string list \<Rightarrow> string \<Rightarrow> nat \<Rightarrow> nat \<Rightarrow> dbvars \<Rightarrow> dbm \<Rightarrow> dbm run" where
  "load_planes inp prefix i 0 st m = Ok m"
| "load_planes inp prefix i (Suc n) st m =
     (case rd (dbNModule m) i of None \<Rightarrow> Undefined
      | Some nm \<Rightarrow> run_bind (load_modules inp prefix i 0 (nat nm) st m)
          (\<lambda>(st, m). load_planes inp prefix (i + 1) n st m))"

definition LoadGeoInfo ::
  "(string \<Rightarrow> string option) \<Rightarrow> (string \<Rightarrow> string option) \<Rightarrow> string \<Rightarrow> dbm \<Rightarrow> dbm run" where
  "LoadGeoInfo getenv contents prefix m =
     (case OpenInput getenv contents (''db_'' @ prefix @ ''.dat'') of None \<Rightarrow> Exit 0
      | Some text \<Rightarrow> load_planes (split_lines [] text) prefix 0 (nat (dbNGEMPlane m)) (\<lambda>_. None) m)"

section \<open>Queries\<close>

definition CheckIndex :: "dbm \<Rightarrow> int \<Rightarrow> int \<Rightarrow> int \<Rightarrow> bool option" where
  "CheckIndex m i j k =
     (if dbNChamber m \<le> i \<or> i < 0 then Some False
      else do {
        nm \<leftarrow> rdi (dbNModule m) i;
        if nm \<le> j \<or> j < 0 then Some False
        else if dbNReadOut m \<le> k \<or> k < 0 then Some True
        else Some True })"

definition geo_at :: "dbm \<Rightarrow> int \<Rightarrow> int \<Rightarrow> geoinfo option" where
  "geo_at m i j = rdi (geos m i) j"

definition geo_query :: "(geoinfo \<Rightarrow> real) \<Rightarrow> dbm \<Rightarrow> int \<Rightarrow> int \<Rightarrow> int \<Rightarrow> real option" where
  "geo_query f m i j k = do {
     ok \<leftarrow> CheckIndex m i j k;
     if \<not> ok then Some fErrVal else do { g \<leftarrow> geo_at m i j; Some (f g) } }"

definition GetDMag :: "dbm \<Rightarrow> int \<Rightarrow> int \<Rightarrow> real option" where
  "GetDMag m i j = geo_query g_dmag m i j 0"
definition GetD0 :: "dbm \<Rightarrow> int \<Rightarrow> int \<Rightarrow> real option" where
  "GetD0 m i j = geo_query g_d0 m i j 0"
definition GetXOffset :: "dbm \<Rightarrow> int \<Rightarrow> int \<Rightarrow> real option" where
  "GetXOffset m i j = geo_query g_xoffset m i j 0"
definition GetDX :: "dbm \<Rightarrow> int \<Rightarrow> int \<Rightarrow> real option" where
  "GetDX m i j = geo_query g_dx m i j 0"
definition GetDY :: "dbm \<Rightarrow> int \<Rightarrow> int \<Rightarrow> real option" where
  "GetDY m i j = geo_query g_dy m i j 0"
definition GetThetaV :: "dbm \<Rightarrow> int \<Rightarrow> int \<Rightarrow> real option" where
  "GetThetaV m i j = geo_query g_thetaV m i j 0"
definition GetStripAngle :: "dbm \<Rightarrow> int \<Rightarrow> int \<Rightarrow> int \<Rightarrow> real option" where
  "GetStripAngle m i j k = geo_query (\<lambda>g. if k = 0 then g_stripangle_u g else g_stripangle_u g) m i j k"

fun find_module :: "nat \<Rightarrow> geoinfo list \<Rightarrow> real \<Rightarrow> int \<Rightarrow> int" where
  "find_module k [] x md = md"
| "find_module k (g # gs) x md =
     find_module (k + 1) gs x
       (if g_xoffset g - g_dx g / 2 \<le> x \<and> x \<le> g_xoffset g + g_dx g / 2 then int k else md)"

definition GetModuleIDFromPos :: "dbm \<Rightarrow> int \<Rightarrow> real \<Rightarrow> int option" where
  "GetModuleIDFromPos m iplane x = do {
     ok \<leftarrow> CheckIndex m iplane 0 0;
     if \<not> ok then to_int32 fErrVal
     else Some (find_module 0 (geos m iplane) x (-1)) }"

definition GetPosFromModuleStrip :: "dbm \<Rightarrow> int \<Rightarrow> int \<Rightarrow> int \<Rightarrow> int \<Rightarrow> real option" where
  "GetPosFromModuleStrip m iproj iplane imodule istrip = do {
     ok \<leftarrow> CheckIndex m iplane imodule 0;
     if \<not> ok then Some fErrVal
     else if iproj = 0 then do {
       g \<leftarrow> geo_at m iplane imodule;
       Some (g_pitch_u g * of_int istrip - g_dx g / 2 + g_xoffset g) }
     else if iproj = 1 then do {
       g \<leftarrow> geo_at m iplane imodule;
       Some (g_pitch_v g * of_int istrip - g_dy g / 2) }
     else Some fErrVal }"

definition GetNModule :: "dbm \<Rightarrow> int \<Rightarrow> int option" where
  "GetNModule m plane = (if plane < 0 then Some 0 else rdi (dbNModule m) plane)"
definition GetPlaneID :: "dbm \<Rightarrow> int \<Rightarrow> int" where
  "GetPlaneID m igem = map_at (dbIgemtoPlane m) igem"
definition GetModuleID :: "dbm \<Rightarrow> int \<Rightarrow> int" where
  "GetModuleID m igem = map_at (dbIgemtoModule m) igem"
definition GetGEMID :: "dbm \<Rightarrow> int \<Rightarrow> int \<Rightarrow> int" where
  "GetGEMID m ip im = map_at (dbPMtoIgem m) (ip, im)"

definition DoCalo :: "dbm \<Rightarrow> int option" where
  "DoCalo m = var_int (dbVars m ''docalo'')"

definition Getg4sbsDetectorType :: "dbm \<Rightarrow> int option" where
  "Getg4sbsDetectorType m = var_int (dbVars m ''g4sbs_detectortype'')"

definition Getg4sbsZSpecOffset :: "dbm \<Rightarrow> real option" where
  "Getg4sbsZSpecOffset m = var_double (dbVars m ''g4sbs_z_specoffset'')"

definition GetCaloThreshold :: "dbm \<Rightarrow> real option" where
  "GetCaloThreshold m = var_double (dbVars m ''calo_thr'')"

definition GetSigPID :: "dbm \<Rightarrow> nat \<Rightarrow> int option" where
  "GetSigPID m i = (if length (dbSigPID m) \<le> i then Some fErrID else rd (dbSigPID m) i)"
definition GetSigTID :: "dbm \<Rightarrow> nat \<Rightarrow> int option" where
  "GetSigTID m i = (if length (dbSigPID m) \<le> i then Some fErrID else rd (dbSigTID m) i)"

section \<open>The numbering of the modules\<close>

text \<open>Number of modules in the planes before plane k.\<close>

definition modules_before :: "int list \<Rightarrow> nat \<Rightarrow> int" where
  "modules_before ns k = (\<Sum>n\<leftarrow>take k ns. max 0 n)"

lemma modules_before_simps [simp]:
  "modules_before ns 0 = 0"
  "modules_before (n # ns) (Suc k) = max 0 n + modules_before ns k"
  "modules_before [] k = 0"
  by (simp_all add: modules_before_def)

lemma modules_before_nonneg [simp]: "0 \<le> modules_before ns k"
  unfolding modules_before_def by (rule sum_list_nonneg) auto

lemma modules_before_Suc:
  "k < length ns \<Longrightarrow> modules_before ns (Suc k) = modules_before ns k + max 0 (ns ! k)"
  by (simp add: modules_before_def take_Suc_conv_app_nth)

lemma modules_before_cover:
  "0 \<le> g \<Longrightarrow> g < modules_before ns (length ns) \<Longrightarrow>
   \<exists>k < length ns. 0 \<le> g - modules_before ns k \<and> g - modules_before ns k < ns ! k"
proof (induction ns arbitrary: g)
  case (Cons n ns)
  show ?case
  proof (cases "g < max 0 n")
    case True
    then show ?thesis using Cons.prems by (intro exI [of _ 0]) auto
  next
    case False
    then obtain k where "k < length ns" "0 \<le> g - max 0 n - modules_before ns k"
        "g - max 0 n - modules_before ns k < ns ! k"
    proof -
      assume *: "\<And>k. k < length ns \<Longrightarrow> 0 \<le> g - max 0 n - modules_before ns k
        \<Longrightarrow> g - max 0 n - modules_before ns k < ns ! k \<Longrightarrow> thesis"
      have "0 \<le> g - max 0 n" "g - max 0 n < modules_before ns (length ns)"
        using False Cons.prems by auto
      from Cons.IH [OF this] * show thesis by blast
    qed
    then show ?thesis by (intro exI [of _ "Suc k"]) auto
  qed
qed simp

definition same_setup :: "dbm \<Rightarrow> dbm \<Rightarrow> bool" where
  "same_setup m m' \<longleftrightarrow> dbVars m' = dbVars m \<and> dbNChamber m' = dbNChamber m
     \<and> dbNGEMPlane m' = dbNGEMPlane m \<and> dbNReadOut m' = dbNReadOut m
     \<and> dbNSigParticle m' = dbNSigParticle m \<and> dbPMGeo m' = dbPMGeo m"

lemma number_modules_frame:
  "number_modules i n j tot m = (tot', m') \<Longrightarrow> same_setup m m' \<and> dbNModule m' = dbNModule m"
  by (induction i n j tot m rule: number_modules.induct) (auto simp: same_setup_def)

lemma number_modules_spec:
  "number_modules i n j tot m = (tot', m') \<Longrightarrow>
   tot' = tot + int n \<and>
   (\<forall>p. dbPMtoIgem m' p = (if fst p = i \<and> j \<le> snd p \<and> snd p < j + int n
          then Some (tot + (snd p - j)) else dbPMtoIgem m p)) \<and>
   (\<forall>g. dbIgemtoPlane m' g = (if tot \<le> g \<and> g < tot + int n then Some i else dbIgemtoPlane m g)) \<and>
   (\<forall>g. dbIgemtoModule m' g = (if tot \<le> g \<and> g < tot + int n then Some (j + (g - tot)) else dbIgemtoModule m g))"
proof (induction i n j tot m rule: number_modules.induct)
  case (2 i n j tot m)
  then show ?case by (auto simp: split: if_splits)
qed auto

lemma number_planes_frame:
  "number_planes i ns tot m = (tot', m') \<Longrightarrow> same_setup m m' \<and> dbNModule m' = dbNModule m @ ns"
proof (induction i ns tot m rule: number_planes.induct)
  case (2 i n ns tot m)
  obtain t m2 where e: "number_modules i (nat n) 0 tot (m \<lparr> dbNModule := dbNModule m @ [n] \<rparr>) = (t, m2)"
    by force
  show ?case using "2.IH" [OF refl e [symmetric] refl] "2.prems" number_modules_frame [OF e] e
    by (simp add: Let_def same_setup_def)
qed (simp add: same_setup_def)

lemma number_planes_spec:
  "number_planes i ns tot m = (tot', m') \<Longrightarrow>
   tot' = tot + modules_before ns (length ns) \<and>
   (\<forall>k < length ns. \<forall>j. 0 \<le> j \<and> j < ns ! k \<longrightarrow>
      dbPMtoIgem m' (i + int k, j) = Some (tot + modules_before ns k + j) \<and>
      dbIgemtoPlane m' (tot + modules_before ns k + j) = Some (i + int k) \<and>
      dbIgemtoModule m' (tot + modules_before ns k + j) = Some j) \<and>
   (\<forall>p. fst p < i \<longrightarrow> dbPMtoIgem m' p = dbPMtoIgem m p) \<and>
   (\<forall>g < tot. dbIgemtoPlane m' g = dbIgemtoPlane m g \<and> dbIgemtoModule m' g = dbIgemtoModule m g)"
proof (induction i ns tot m arbitrary: rule: number_planes.induct)
  case (2 i n ns tot m)
  obtain t m2 where e: "number_modules i (nat n) 0 tot (m \<lparr> dbNModule := dbNModule m @ [n] \<rparr>) = (t, m2)"
    by force
  note s = number_modules_spec [OF e]
  have ih: "t + modules_before ns (length ns) = tot'"
   "(\<forall>k < length ns. \<forall>j. 0 \<le> j \<and> j < ns ! k \<longrightarrow>
      dbPMtoIgem m' (i + 1 + int k, j) = Some (t + modules_before ns k + j) \<and>
      dbIgemtoPlane m' (t + modules_before ns k + j) = Some (i + 1 + int k) \<and>
      dbIgemtoModule m' (t + modules_before ns k + j) = Some j)"
   "(\<forall>p. fst p < i + 1 \<longrightarrow> dbPMtoIgem m' p = dbPMtoIgem m2 p)"
   "(\<forall>g < t. dbIgemtoPlane m' g = dbIgemtoPlane m2 g \<and> dbIgemtoModule m' g = dbIgemtoModule m2 g)"
    using "2.IH" [OF refl e [symmetric] refl] "2.prems" e by (auto simp: Let_def)
  have t: "t = tot + max 0 n" using s by auto
  have "dbPMtoIgem m' (i + int k, j) = Some (tot + modules_before (n # ns) k + j) \<and>
      dbIgemtoPlane m' (tot + modules_before (n # ns) k + j) = Some (i + int k) \<and>
      dbIgemtoModule m' (tot + modules_before (n # ns) k + j) = Some j"
    if k: "k < length (n # ns)" "0 \<le> j" "j < (n # ns) ! k" for k j
  proof (cases k)
    case 0
    then show ?thesis using k s ih(3,4) t by auto
  next
    case (Suc q)
    then show ?thesis using k ih(2) t by (auto simp: algebra_simps)
  qed
  then show ?case using ih s t by auto
qed auto

definition same_tables :: "dbm \<Rightarrow> dbm \<Rightarrow> bool" where
  "same_tables m m' \<longleftrightarrow> dbNModule m' = dbNModule m \<and> dbPMtoIgem m' = dbPMtoIgem m
     \<and> dbIgemtoPlane m' = dbIgemtoPlane m \<and> dbIgemtoModule m' = dbIgemtoModule m"

lemma load_signals_frame:
  "load_signals inp prefix i n st m = Ok m' \<Longrightarrow> same_setup m m' \<and> same_tables m m'"
proof (induction inp prefix i n st m rule: load_signals.induct)
  case (2 inp prefix i n st m)
  obtain err st' where e:
      "LoadDB inp signal_request (prefix @ ''signal'' @ digits_of (i + 1) @ ''.'') st = (err, st')"
    by force
  show ?case using "2.prems" "2.IH" [OF e [symmetric]] e
    by (auto simp: Let_def same_setup_def same_tables_def split: if_splits option.splits)
qed (simp add: same_setup_def same_tables_def)

lemma LoadOptics_frame:
  "LoadOptics rl contents m = Ok m' \<Longrightarrow> same_setup m m' \<and> same_tables m m'"
  by (auto simp: LoadOptics_def Let_def same_setup_def same_tables_def
      split: prod.splits option.splits)

lemma set_general_frame: "set_general st m = Some m' \<Longrightarrow> same_tables m m'"
  by (auto simp: set_general_def same_tables_def split: bind_splits)

lemma setup_modules_spec:
  assumes "setup_modules inp prefix st ns m = Ok m'"
  shows "\<exists>tot m3. number_planes 0 ns 0 m = (tot, m3) \<and> same_tables m3 m'
    \<and> int (length ns) = dbNGEMPlane m' \<and> dbNModule m' = dbNModule m @ ns
    \<and> dbPMGeo m' = (\<lambda>i. if 0 \<le> i \<and> i < dbNGEMPlane m' then Some [] else dbPMGeo m i)"
proof -
  obtain tot m3 where n: "number_planes 0 ns 0 m = (tot, m3)" by force
  obtain m4 where l: "load_signals inp prefix 0 (nat (dbNSigParticle m3)) st m3 = Ok m4"
    and m': "m' = m4 \<lparr> dbPMGeo := (\<lambda>i. if 0 \<le> i \<and> i < dbNGEMPlane m4 then Some [] else dbPMGeo m4 i) \<rparr>"
    and len: "dbNGEMPlane m = int (length ns)"
    using assms n by (auto simp: setup_modules_def Let_def split: if_splits)
  show ?thesis
    using n m' len load_signals_frame [OF l] number_planes_frame [OF n]
    by (simp add: same_tables_def same_setup_def fun_eq_iff)
qed

lemma LoadGeneralInfo_cases:
  assumes "LoadGeneralInfo getenv contents rl fileName m = Ok m'"
  shows "\<exists>inp st ns m2. same_tables m m2 \<and> setup_modules inp ''generalinfo.'' st ns m2 = Ok m'"
proof -
  obtain contnt where t: "OpenInput getenv contents fileName = Some contnt"
    using assms by (cases "OpenInput getenv contents fileName") (auto simp: LoadGeneralInfo_def)
  obtain err st where db: "LoadDB (split_lines [] contnt) general_request ''generalinfo.''
      ((dbVars m)(''nmodule'' \<mapsto> DIntV [])) = (err, st)" by force
  have e: "err = 0" using assms t db by (simp add: LoadGeneralInfo_def split: if_split_asm)
  obtain m1 ns oo where g: "set_general st m = Some m1"
    and rest: "run_bind (if 0 < (oo::int) then LoadOptics rl contents m1 else Ok m1)
      (setup_modules (split_lines [] contnt) ''generalinfo.'' st ns) = Ok m'"
    using assms t db e by (auto simp: LoadGeneralInfo_def simp del: run_bind_Ok split: option.splits)
  obtain m2 where g2: "(if 0 < oo then LoadOptics rl contents m1 else Ok m1) = Ok m2"
      "setup_modules (split_lines [] contnt) ''generalinfo.'' st ns m2 = Ok m'"
    using rest by (simp only: run_bind_Ok) blast
  have "same_tables m1 m2"
    using g2(1) LoadOptics_frame by (auto simp: same_tables_def split: if_splits)
  with set_general_frame [OF g] have "same_tables m m2" by (simp add: same_tables_def)
  with g2(2) show ?thesis by blast
qed

text \<open>After the general file has been loaded into a fresh manager, the chamber numbers
  follow the module counts plane by plane, and the three look-up tables are inverse to each
  other: (plane, module) to chamber and back for every module, chamber to (plane, module)
  and back for every chamber number below the total.\<close>

lemma LoadGeneralInfo_numbering:
  assumes "LoadGeneralInfo getenv contents rl fileName m = Ok m'" "dbNModule m = []"
  shows "(\<forall>k < length (dbNModule m'). \<forall>j. 0 \<le> j \<and> j < dbNModule m' ! k \<longrightarrow>
      GetGEMID m' (int k) j = modules_before (dbNModule m') k + j
      \<and> GetPlaneID m' (GetGEMID m' (int k) j) = int k \<and> GetModuleID m' (GetGEMID m' (int k) j) = j)
    \<and> (\<forall>g. 0 \<le> g \<and> g < modules_before (dbNModule m') (length (dbNModule m')) \<longrightarrow>
      GetGEMID m' (GetPlaneID m' g) (GetModuleID m' g) = g)
    \<and> int (length (dbNModule m')) = dbNGEMPlane m'"
proof -
  obtain inp st ns m2 where "same_tables m m2" "setup_modules inp ''generalinfo.'' st ns m2 = Ok m'"
    using LoadGeneralInfo_cases [OF assms(1)] by blast
  with setup_modules_spec assms(2) obtain tot m3 where n: "number_planes 0 ns 0 m2 = (tot, m3)"
      "same_tables m3 m'" "int (length ns) = dbNGEMPlane m'" "dbNModule m' = ns"
    by (fastforce simp: same_tables_def)
  have t: "GetGEMID m' (int k) j = modules_before ns k + j
      \<and> GetPlaneID m' (modules_before ns k + j) = int k \<and> GetModuleID m' (modules_before ns k + j) = j"
    if "k < length ns" "0 \<le> j" "j < ns ! k" for k j
    using number_planes_spec [OF n(1)] n(2) that
    by (simp add: GetGEMID_def GetPlaneID_def GetModuleID_def same_tables_def)
  have "GetGEMID m' (GetPlaneID m' g) (GetModuleID m' g) = g"
    if g: "0 \<le> g" "g < modules_before ns (length ns)" for g
  proof -
    obtain k where k: "k < length ns" "0 \<le> g - modules_before ns k" "g - modules_before ns k < ns ! k"
      using modules_before_cover [OF g] by blast
    then show ?thesis using t [OF k] by simp
  qed
  then show ?thesis using t n(3,4) by auto
qed

section \<open>A concrete configuration\<close>

text \<open>A general file with two planes of two and one modules.\<close>

definition generalEx :: string where
  "generalEx = concat (List.map (\<lambda>l. ''generalinfo.'' @ l @ [CHR 0x0A])
    [''do_map_sector = 0'', ''self_define_sector = 0'', ''sector_mapped = 0'', ''nchamber = 2'',
     ''nsector = 1'', ''nplane = 2'', ''nmodule = 2 1'', ''nreadout = 2'', ''gem_drift_id = 1'',
     ''gem_copper_front_id = 2'', ''gem_copper_back_id = 3'', ''gem_strip_id = 4'', ''faec_id = 5'',
     ''laec_id = 6'', ''nsignal = 0'', ''chan_per_slot = 2048'', ''modules_per_readout = 1'',
     ''g4sbs_detectortype = 1'', ''g4sbs_z_specoffset = 1.5'', ''calo_thr = 2.5'', ''z0 = 0'',
     ''calo_z = 0'', ''calo_res = 0'', ''docalo = 1'', ''order_optics = 0'', ''opticsfile = none''])"

definition dbm0 :: dbm where
  "dbm0 = \<lparr> dbVars = (\<lambda>_. None), dbNChamber = 0, dbNGEMPlane = 0, dbNReadOut = 0,
     dbNSigParticle = 0, dbNModule = [], dbPMtoIgem = (\<lambda>_. None), dbIgemtoPlane = (\<lambda>_. None),
     dbIgemtoModule = (\<lambda>_. None), dbSigPID = [], dbSigTID = [], dbPMGeo = (\<lambda>_. None),
     dbNOpticsTerms = 0, dbOptics = (\<lambda>_. None) \<rparr>"

lemmas stream_eval = open_stream_def convert_def read_int_def read_double_def read_string_def
  read_ints.simps isspace_def isdigit_def key_blank_def good_def split_sign_def digits_val_def
  var_int_def var_double_def var_string_def scale10_def

lemma generalEx_lines: "split_lines [] generalEx = (List.map (\<lambda>l. ''generalinfo.'' @ l)
    [''do_map_sector = 0'', ''self_define_sector = 0'', ''sector_mapped = 0'', ''nchamber = 2'',
     ''nsector = 1'', ''nplane = 2'', ''nmodule = 2 1'', ''nreadout = 2'', ''gem_drift_id = 1'',
     ''gem_copper_front_id = 2'', ''gem_copper_back_id = 3'', ''gem_strip_id = 4'', ''faec_id = 5'',
     ''laec_id = 6'', ''nsignal = 0'', ''chan_per_slot = 2048'', ''modules_per_readout = 1'',
     ''g4sbs_detectortype = 1'', ''g4sbs_z_specoffset = 1.5'', ''calo_thr = 2.5'', ''z0 = 0'',
     ''calo_z = 0'', ''calo_res = 0'', ''docalo = 1'', ''order_optics = 0'', ''opticsfile = none''])"
  by (simp add: generalEx_def)

lemma generalEx_load:
  "\<exists>st. LoadDB (split_lines [] generalEx) general_request ''generalinfo.''
     ((dbVars dbm0)(''nmodule'' \<mapsto> DIntV [])) = (0, st)
   \<and> st ''nchamber'' = Some (DInt 2) \<and> st ''nplane'' = Some (DInt 2) \<and> st ''nreadout'' = Some (DInt 2)
   \<and> st ''nsignal'' = Some (DInt 0) \<and> st ''order_optics'' = Some (DInt 0)
   \<and> st ''nmodule'' = Some (DIntV [Some 2, Some 1])"
  unfolding generalEx_lines dbm0_def general_request_def
  by (simp add: stream_eval Let_def)

definition filesEx :: "string \<Rightarrow> string option" where
  "filesEx = [''db_generalinfo.dat'' \<mapsto> generalEx]"

lemma filesEx_general: "filesEx ''db_generalinfo.dat'' = Some generalEx"
  by (simp add: filesEx_def)

lemma generalEx_run:
  assumes "contents ''db_generalinfo.dat'' = Some generalEx"
  shows "\<exists>m. LoadGeneralInfo (\<lambda>_. None) contents id ''db_generalinfo.dat'' dbm0 = Ok m
     \<and> dbNModule m = [2, 1] \<and> dbNChamber m = 2 \<and> dbNGEMPlane m = 2"
proof -
  have o: "OpenInput (\<lambda>_. None) contents ''db_generalinfo.dat'' = Some generalEx"
    using assms by (simp add: OpenInput_def open_path_def)
  obtain st where l: "LoadDB (split_lines [] generalEx) general_request ''generalinfo.''
     ((dbVars dbm0)(''nmodule'' \<mapsto> DIntV [])) = (0, st)"
     "st ''nchamber'' = Some (DInt 2)" "st ''nplane'' = Some (DInt 2)" "st ''nreadout'' = Some (DInt 2)"
     "st ''nsignal'' = Some (DInt 0)" "st ''order_optics'' = Some (DInt 0)"
     "st ''nmodule'' = Some (DIntV [Some 2, Some 1])"
    using generalEx_load by blast
  then have "set_general st dbm0 = Some (dbm0 \<lparr> dbVars := st, dbNChamber := 2, dbNGEMPlane := 2,
      dbNReadOut := 2, dbNSigParticle := 0 \<rparr>)" "module_list st = Some [2, 1]"
    by (simp_all add: set_general_def module_list_def var_int_def)
  with l o show ?thesis
    by (simp add: LoadGeneralInfo_def var_int_def setup_modules_def dbm0_def eval_nat_numeral)
qed

lemma LoadGeneralInfo_numbering_example:
  "\<exists>m. LoadGeneralInfo (\<lambda>_. None) filesEx id ''db_generalinfo.dat'' dbm0 = Ok m
     \<and> GetGEMID m 1 0 = 2 \<and> GetPlaneID m 2 = 1 \<and> GetModuleID m 2 = 0"
proof -
  obtain m where m: "LoadGeneralInfo (\<lambda>_. None) filesEx id ''db_generalinfo.dat'' dbm0 = Ok m"
      "dbNModule m = [2, 1]"
    using generalEx_run [of filesEx, OF filesEx_general] by blast
  have f: "dbNModule dbm0 = []" by (simp add: dbm0_def)
  have c: "1 < length (dbNModule m)" "0 \<le> (0::int) \<and> 0 < dbNModule m ! 1" using m(2) by auto
  note t = conjunct1 [OF LoadGeneralInfo_numbering [OF m(1) f], rule_format, OF c]
  have e: "GetGEMID m 1 0 = 2" using t m(2) by (simp add: modules_before_def)
  have "GetPlaneID m 2 = 1" "GetModuleID m 2 = 0" by (metis e of_nat_1 t)+
  with e m(1) show ?thesis by auto
qed

section \<open>Completeness of the geometry\<close>

lemma load_modules_spec:
  "load_modules inp prefix i j n st m = Ok (st', m') \<Longrightarrow>
   \<exists>gs. length gs = n \<and> geos m' (int i) = geos m (int i) @ gs
     \<and> (\<forall>q. q \<noteq> int i \<longrightarrow> geos m' q = geos m q)
     \<and> same_tables m m' \<and> dbNChamber m' = dbNChamber m \<and> dbNGEMPlane m' = dbNGEMPlane m"
proof (induction inp prefix i j n st m rule: load_modules.induct)
  case (2 inp prefix i j n st m)
  let ?pre = "prefix @ ''.plane'' @ digits_of i @ ''.module'' @ digits_of j @ ''.''"
  obtain e1 s1 where a: "LoadDB inp geo_request ?pre st = (e1, s1)" by force
  obtain e2 s2 where b: "LoadDB inp geo_plane_request ?pre s1 = (e2, s2)" by force
  obtain g where g: "geo_of s2 = Some g" and ok: "e1 = 0" "e2 = 0"
    and r: "load_modules inp prefix i (j + 1) n s2 (push_geo (int i) g m) = Ok (st', m')"
    using "2.prems" a b by (auto simp: Let_def split: if_splits option.splits)
  from "2.IH" [OF refl a [symmetric] refl _ b [symmetric] refl _ g r] ok
  obtain gs where "length gs = n" "geos m' (int i) = geos (push_geo (int i) g m) (int i) @ gs"
      "\<forall>q. q \<noteq> int i \<longrightarrow> geos m' q = geos (push_geo (int i) g m) q"
      "same_tables (push_geo (int i) g m) m'" "dbNChamber m' = dbNChamber (push_geo (int i) g m)"
      "dbNGEMPlane m' = dbNGEMPlane (push_geo (int i) g m)"
    by auto
  then show ?case
    by (intro exI [of _ "g # gs"]) (simp add: push_geo_def geos_def same_tables_def)
qed (simp add: same_tables_def)

lemma load_planes_spec:
  "load_planes inp prefix i n st m = Ok m' \<Longrightarrow>
   (\<forall>q. int i \<le> q \<and> q < int (i + n) \<longrightarrow> nat q < length (dbNModule m)
      \<and> length (geos m' q) = length (geos m q) + nat (dbNModule m ! nat q))
   \<and> (\<forall>q. \<not> (int i \<le> q \<and> q < int (i + n)) \<longrightarrow> geos m' q = geos m q)
   \<and> same_tables m m' \<and> dbNChamber m' = dbNChamber m \<and> dbNGEMPlane m' = dbNGEMPlane m"
proof (induction inp prefix i n st m rule: load_planes.induct)
  case (2 inp prefix i n st m)
  obtain nm where nm: "i < length (dbNModule m)" "dbNModule m ! i = nm"
    using "2.prems" by (auto split: option.splits)
  then have nmS: "rd (dbNModule m) i = Some nm" by simp
  obtain s1 m1 where l: "load_modules inp prefix i 0 (nat nm) st m = Ok (s1, m1)"
    and r: "load_planes inp prefix (i + 1) n s1 m1 = Ok m'"
    using "2.prems" nmS by auto
  obtain gs where gs: "length gs = nat nm" "geos m1 (int i) = geos m (int i) @ gs"
      "\<And>q. q \<noteq> int i \<Longrightarrow> geos m1 q = geos m q" "same_tables m m1"
      "dbNChamber m1 = dbNChamber m" "dbNGEMPlane m1 = dbNGEMPlane m"
    using load_modules_spec [OF l] by blast
  have M: "dbNModule m1 = dbNModule m" using gs(4) by (simp add: same_tables_def)
  note ih = "2.IH" [OF nmS r]
  show ?case
  proof (intro conjI allI impI)
    fix q assume q: "int i \<le> q \<and> q < int (i + Suc n)"
    show "nat q < length (dbNModule m)"
      using q ih nm M by (cases "q = int i") auto
    show "length (geos m' q) = length (geos m q) + nat (dbNModule m ! nat q)"
      using q ih nm M gs by (cases "q = int i") auto
  next
    fix q assume "\<not> (int i \<le> q \<and> q < int (i + Suc n))"
    then show "geos m' q = geos m q" using ih gs(3) [of q] by auto
  qed (use ih gs in \<open>auto simp: same_tables_def\<close>)
qed (auto simp: same_tables_def)

lemma loaded_db:
  assumes "LoadGeneralInfo getenv contents rl fileName m0 = Ok m1" "dbNModule m0 = []"
    and "LoadGeoInfo getenv2 contents2 pre m1 = Ok m"
  shows "int (length (dbNModule m)) = dbNGEMPlane m"
    and "0 \<le> i \<Longrightarrow> i < dbNGEMPlane m \<Longrightarrow> length (geos m i) = nat (dbNModule m ! nat i)"
proof -
  obtain inp st ns m2 where c: "same_tables m0 m2" "setup_modules inp ''generalinfo.'' st ns m2 = Ok m1"
    using LoadGeneralInfo_cases [OF assms(1)] by blast
  obtain ns' where s: "int (length ns') = dbNGEMPlane m1" "dbNModule m1 = ns'"
      "dbPMGeo m1 = (\<lambda>i. if 0 \<le> i \<and> i < dbNGEMPlane m1 then Some [] else dbPMGeo m2 i)"
    using setup_modules_spec [OF c(2)] c(1) assms(2) by (auto simp: same_tables_def)
  obtain inp2 st2 where l: "load_planes inp2 pre 0 (nat (dbNGEMPlane m1)) st2 m1 = Ok m"
    using assms(3) by (auto simp: LoadGeoInfo_def split: option.splits)
  note p = load_planes_spec [OF l]
  show "int (length (dbNModule m)) = dbNGEMPlane m" using p s by (simp add: same_tables_def)
  assume i: "0 \<le> i" "i < dbNGEMPlane m"
  have "geos m1 i = []" using i p s(3) by (simp add: geos_def)
  then show "length (geos m i) = nat (dbNModule m ! nat i)" using p i by (auto simp: same_tables_def)
qed

lemma CheckIndex_True:
  "CheckIndex m i j k = Some True \<longleftrightarrow>
     0 \<le> i \<and> i < dbNChamber m \<and> nat i < length (dbNModule m) \<and> 0 \<le> j \<and> j < dbNModule m ! nat i"
  by (auto simp: CheckIndex_def split: bind_splits)

lemma CheckIndex_False:
  "CheckIndex m i j k = Some False \<longleftrightarrow> i < 0 \<or> dbNChamber m \<le> i
     \<or> (nat i < length (dbNModule m) \<and> (j < 0 \<or> dbNModule m ! nat i \<le> j))"
  by (auto simp: CheckIndex_def split: bind_splits)

text \<open>A database whose module lists have the lengths of the module counts.\<close>

definition geometry_ok :: "dbm \<Rightarrow> bool" where
  "geometry_ok m \<longleftrightarrow> dbNChamber m \<le> int (length (dbNModule m))
     \<and> (\<forall>i. 0 \<le> i \<and> i < dbNChamber m \<longrightarrow> int (length (geos m i)) = max 0 (dbNModule m ! nat i))"

lemma geometry_ok_loaded:
  assumes "LoadGeneralInfo getenv contents rl fileName m0 = Ok m1" "dbNModule m0 = []"
    "LoadGeoInfo getenv2 contents2 pre m1 = Ok m" "dbNChamber m \<le> dbNGEMPlane m"
  shows "geometry_ok m"
  using loaded_db [OF assms(1-3)] assms(4) by (auto simp: geometry_ok_def)

lemma CheckIndex_total:
  assumes "geometry_ok m"
  shows "CheckIndex m i j k = Some True \<and> 0 \<le> j \<and> nat j < length (geos m i) \<or> CheckIndex m i j k = Some False"
proof (cases "0 \<le> i \<and> i < dbNChamber m")
  case True
  then have l: "nat i < length (dbNModule m)" "int (length (geos m i)) = max 0 (dbNModule m ! nat i)"
    using assms by (auto simp: geometry_ok_def)
  show ?thesis
  proof (cases "0 \<le> j \<and> j < dbNModule m ! nat i")
    case True
    then show ?thesis using l \<open>0 \<le> i \<and> i < dbNChamber m\<close> by (auto simp: CheckIndex_True)
  next
    case False
    then have "CheckIndex m i j k = Some False" using l True by (auto simp: CheckIndex_False)
    then show ?thesis by simp
  qed
next
  case False
  then have "CheckIndex m i j k = Some False" by (auto simp: CheckIndex_False)
  then show ?thesis by simp
qed

lemma geo_query_total:
  assumes "geometry_ok m"
  shows "geo_query f m i j k \<noteq> None"
  using CheckIndex_total [OF assms, of i j k] by (auto simp: geo_query_def geo_at_def rdi_def rd_def)

lemma geo_query_loaded:
  assumes "geometry_ok m"
  shows "geo_query f m i j k = Some (if 0 \<le> i \<and> i < dbNChamber m \<and> 0 \<le> j \<and> j < dbNModule m ! nat i
    then f (geos m i ! nat j) else fErrVal)"
proof (cases "0 \<le> i \<and> i < dbNChamber m \<and> 0 \<le> j \<and> j < dbNModule m ! nat i")
  case True
  then have "CheckIndex m i j k = Some True" using assms by (auto simp: CheckIndex_True geometry_ok_def)
  moreover have "nat j < length (geos m i)" using True assms by (auto simp: geometry_ok_def)
  ultimately show ?thesis using True by (simp add: geo_query_def geo_at_def rdi_def rd_def)
next
  case False
  then have "CheckIndex m i j k = Some False" using assms by (auto simp: CheckIndex_False geometry_ok_def)
  then show ?thesis unfolding if_not_P [OF False] by (simp add: geo_query_def)
qed

text \<open>The x coordinate lies in the module.\<close>

definition in_module :: "geoinfo \<Rightarrow> real \<Rightarrow> bool" where
  "in_module g x \<longleftrightarrow> g_xoffset g - g_dx g / 2 \<le> x \<and> x \<le> g_xoffset g + g_dx g / 2"

lemma find_module_spec:
  "find_module k gs x md = md \<and> (\<forall>g \<in> set gs. \<not> (g_xoffset g - g_dx g / 2 \<le> x \<and> x \<le> g_xoffset g + g_dx g / 2))
   \<or> (\<exists>q < length gs. find_module k gs x md = int (k + q)
        \<and> g_xoffset (gs ! q) - g_dx (gs ! q) / 2 \<le> x \<and> x \<le> g_xoffset (gs ! q) + g_dx (gs ! q) / 2)"
proof (induction k gs x md rule: find_module.induct)
  case (2 k g gs x md)
  let ?h = "g_xoffset g - g_dx g / 2 \<le> x \<and> x \<le> g_xoffset g + g_dx g / 2"
  from "2.IH" show ?case
  proof (elim disjE)
    assume a: "find_module (k + 1) gs x (if ?h then int k else md) = (if ?h then int k else md)
      \<and> (\<forall>g \<in> set gs. \<not> (g_xoffset g - g_dx g / 2 \<le> x \<and> x \<le> g_xoffset g + g_dx g / 2))"
    show ?thesis
    proof (cases ?h)
      case True
      then show ?thesis using a by (intro disjI2 exI [of _ 0]) auto
    qed (use a in auto)
  next
    assume "\<exists>q < length gs. find_module (k + 1) gs x (if ?h then int k else md) = int (k + 1 + q)
        \<and> g_xoffset (gs ! q) - g_dx (gs ! q) / 2 \<le> x \<and> x \<le> g_xoffset (gs ! q) + g_dx (gs ! q) / 2"
    then obtain q where "q < length gs"
        "find_module (k + 1) gs x (if ?h then int k else md) = int (k + 1 + q)
        \<and> g_xoffset (gs ! q) - g_dx (gs ! q) / 2 \<le> x \<and> x \<le> g_xoffset (gs ! q) + g_dx (gs ! q) / 2"
      by blast
    then show ?thesis by (intro disjI2 exI [of _ "Suc q"]) auto
  qed
qed simp

lemma module_from_pos:
  assumes "geometry_ok m"
  shows "\<exists>md. GetModuleIDFromPos m i x = Some md \<and>
    (if 0 \<le> i \<and> i < dbNChamber m \<and> 0 < dbNModule m ! nat i
     then md = -1 \<and> (\<forall>g \<in> set (geos m i). \<not> in_module g x)
       \<or> 0 \<le> md \<and> md < dbNModule m ! nat i \<and> in_module (geos m i ! nat md) x
     else md = -999)"
proof (cases "0 \<le> i \<and> i < dbNChamber m \<and> 0 < dbNModule m ! nat i")
  case True
  then have c: "CheckIndex m i 0 0 = Some True" using assms by (auto simp: CheckIndex_True geometry_ok_def)
  have l: "int (length (geos m i)) = dbNModule m ! nat i" using True assms by (auto simp: geometry_ok_def)
  have g: "GetModuleIDFromPos m i x = Some (find_module 0 (geos m i) x (-1))" using c by (simp add: GetModuleIDFromPos_def)
  from find_module_spec [of 0 "geos m i" x "-1"] show ?thesis unfolding if_P [OF True]
  proof (elim disjE exE conjE)
    assume "find_module 0 (geos m i) x (-1) = -1"
      "\<forall>g \<in> set (geos m i). \<not> (g_xoffset g - g_dx g / 2 \<le> x \<and> x \<le> g_xoffset g + g_dx g / 2)"
    then show "\<exists>md. GetModuleIDFromPos m i x = Some md \<and> (md = -1 \<and> (\<forall>g \<in> set (geos m i). \<not> in_module g x)
       \<or> 0 \<le> md \<and> md < dbNModule m ! nat i \<and> in_module (geos m i ! nat md) x)"
      using g by (auto simp: in_module_def)
  next
    fix q assume q: "q < length (geos m i)" "find_module 0 (geos m i) x (-1) = int (0 + q)"
      "g_xoffset (geos m i ! q) - g_dx (geos m i ! q) / 2 \<le> x" "x \<le> g_xoffset (geos m i ! q) + g_dx (geos m i ! q) / 2"
    then show "\<exists>md. GetModuleIDFromPos m i x = Some md \<and> (md = -1 \<and> (\<forall>g \<in> set (geos m i). \<not> in_module g x)
       \<or> 0 \<le> md \<and> md < dbNModule m ! nat i \<and> in_module (geos m i ! nat md) x)"
      using g l by (intro exI [of _ "int q"]) (auto simp: in_module_def)
  qed
next
  case False
  then have "CheckIndex m i 0 0 = Some False" using assms by (auto simp: CheckIndex_False geometry_ok_def)
  moreover have "to_int32 fErrVal = Some (-999)"
    by (simp add: to_int32_def fErrVal_def trunc_int_def Let_def)
  ultimately show ?thesis unfolding if_not_P [OF False] by (simp add: GetModuleIDFromPos_def)
qed

text \<open>C30. After LoadGeneralInfo on a manager that has no module counts yet, and then LoadGeoInfo, both
  without error, and if nchamber is at most the number of planes, no geometry query leaves the
  containers.  For an existing module GetDMag, GetD0, GetXOffset, GetDX, GetDY and GetThetaV give the entry
  loaded for it, GetStripAngle gives the angle of the x strips whatever readout k is asked for, and
  GetPosFromModuleStrip the position of the strip in x or y; for any other they give the error value.
  GetModuleIDFromPos gives a module of the plane in which the point lies, -1 if there is none, and
  -999 for a plane that does not exist or has no modules.\<close>

theorem geometry_queries_total:
  assumes "LoadGeneralInfo getenv contents rl fileName m0 = Ok m1" "dbNModule m0 = []"
    and "LoadGeoInfo getenv2 contents2 pre m1 = Ok m"
    and "dbNChamber m \<le> dbNGEMPlane m"
  shows "let g = geos m i ! nat j;
      answer = (\<lambda>x. Some (if 0 \<le> i \<and> i < dbNChamber m \<and> 0 \<le> j \<and> j < dbNModule m ! nat i then x else fErrVal)) in
    GetDMag m i j = answer (g_dmag g) \<and> GetD0 m i j = answer (g_d0 g) \<and> GetXOffset m i j = answer (g_xoffset g)
    \<and> GetDX m i j = answer (g_dx g) \<and> GetDY m i j = answer (g_dy g) \<and> GetThetaV m i j = answer (g_thetaV g)
    \<and> GetStripAngle m i j k = answer (g_stripangle_u g)
    \<and> GetPosFromModuleStrip m 0 i j s = answer (g_pitch_u g * of_int s - g_dx g / 2 + g_xoffset g)
    \<and> GetPosFromModuleStrip m 1 i j s = answer (g_pitch_v g * of_int s - g_dy g / 2)
    \<and> (\<exists>md. GetModuleIDFromPos m i x = Some md \<and>
        (if 0 \<le> i \<and> i < dbNChamber m \<and> 0 < dbNModule m ! nat i
         then md = -1 \<and> (\<forall>g \<in> set (geos m i). \<not> in_module g x)
           \<or> 0 \<le> md \<and> md < dbNModule m ! nat i \<and> in_module (geos m i ! nat md) x
         else md = -999))"
proof -
  note ok = geometry_ok_loaded [OF assms]
  have p: "GetPosFromModuleStrip m 0 i j s = geo_query (\<lambda>g. g_pitch_u g * of_int s - g_dx g / 2 + g_xoffset g) m i j 0"
    "GetPosFromModuleStrip m 1 i j s = geo_query (\<lambda>g. g_pitch_v g * of_int s - g_dy g / 2) m i j 0"
    by (simp_all add: GetPosFromModuleStrip_def geo_query_def)
  show ?thesis
    unfolding Let_def p GetDMag_def GetD0_def GetXOffset_def GetDX_def GetDY_def GetThetaV_def GetStripAngle_def geo_query_loaded [OF ok]
    using module_from_pos [OF ok, of i x] by simp
qed

section \<open>Positions and modules\<close>

text \<open>No point lies in two modules of the plane.\<close>

definition disjoint_modules :: "geoinfo list \<Rightarrow> bool" where
  "disjoint_modules gs \<longleftrightarrow> (\<forall>p < length gs. \<forall>q < length gs. p \<noteq> q \<longrightarrow>
     g_xoffset (gs ! p) + g_dx (gs ! p) / 2 < g_xoffset (gs ! q) - g_dx (gs ! q) / 2
     \<or> g_xoffset (gs ! q) + g_dx (gs ! q) / 2 < g_xoffset (gs ! p) - g_dx (gs ! p) / 2)"

text \<open>C31. Strip position and module look-up agree: on a plane whose modules do not overlap,
  the x position GetPosFromModuleStrip gives to a strip inside module k is located in
  module k by GetModuleIDFromPos.\<close>

theorem module_of_strip_position:
  assumes "CheckIndex m i k 0 = Some True" "int (length (geos m i)) = dbNModule m ! nat i"
    and "disjoint_modules (geos m i)"
    and "0 \<le> g_pitch_u (geos m i ! nat k) * of_int s"
    and "g_pitch_u (geos m i ! nat k) * of_int s \<le> g_dx (geos m i ! nat k)"
  shows "\<exists>x. GetPosFromModuleStrip m 0 i k s = Some x \<and> GetModuleIDFromPos m i x = Some k"
proof -
  let ?g = "geos m i ! nat k"
  define x where "x = g_pitch_u ?g * of_int s - g_dx ?g / 2 + g_xoffset ?g"
  have k: "0 \<le> k" "nat k < length (geos m i)" using assms(1,2) by (auto simp: CheckIndex_True)
  have c0: "CheckIndex m i 0 0 = Some True" using assms(1) by (auto simp: CheckIndex_True)
  have p: "GetPosFromModuleStrip m 0 i k s = Some x"
    using assms(1) k by (simp add: GetPosFromModuleStrip_def geo_at_def rdi_def rd_def x_def)
  have inside: "g_xoffset ?g - g_dx ?g / 2 \<le> x" "x \<le> g_xoffset ?g + g_dx ?g / 2"
    using assms(4,5) by (simp_all add: x_def)
  then obtain q where q: "q < length (geos m i)" "find_module 0 (geos m i) x (-1) = int q"
      "g_xoffset (geos m i ! q) - g_dx (geos m i ! q) / 2 \<le> x"
      "x \<le> g_xoffset (geos m i ! q) + g_dx (geos m i ! q) / 2"
    using find_module_spec [of 0 "geos m i" x "-1"] nth_mem [OF k(2)] by auto
  have "q = nat k"
  proof (rule ccontr)
    assume "q \<noteq> nat k"
    with assms(3) q(1) k(2) have "g_xoffset (geos m i ! q) + g_dx (geos m i ! q) / 2
        < g_xoffset ?g - g_dx ?g / 2
      \<or> g_xoffset ?g + g_dx ?g / 2 < g_xoffset (geos m i ! q) - g_dx (geos m i ! q) / 2"
      unfolding disjoint_modules_def by blast
    with inside q(3,4) show False by linarith
  qed
  then show ?thesis using p q(2) c0 k(1) by (simp add: GetModuleIDFromPos_def)
qed

section \<open>Files written block by block\<close>

text \<open>Every line of a block starts with the prefix of its plane and module, so that keys are
  looked up in their own block only.\<close>

lemma FindKey_skip:
  "length p = length q \<Longrightarrow> p \<noteq> q \<Longrightarrow>
   FindKey (List.map (\<lambda>l. p @ l) ls @ ys) (q @ k) = FindKey ys (q @ k)"
  by (induction ls) auto

lemma FindKey_block:
  "FindKey ls k \<noteq> [] \<Longrightarrow> FindKey (List.map (\<lambda>l. p @ l) ls @ ys) (p @ k) = FindKey ls k"
  by (induction ls) (auto split: if_splits)

lemma FindKey_blocks:
  "FindKey ls k \<noteq> [] \<Longrightarrow> p \<in> set ps \<Longrightarrow> \<forall>q \<in> set ps. length q = length p \<Longrightarrow>
   FindKey (concat (List.map (\<lambda>p. List.map (\<lambda>l. p @ l) ls) ps)) (p @ k) = FindKey ls k"
proof (induction ps)
  case (Cons q ps)
  show ?case
  proof (cases "q = p")
    case False
    have "FindKey (concat (List.map (\<lambda>p. List.map (\<lambda>l. p @ l) ls) ps)) (p @ k) = FindKey ls k"
    proof (rule Cons.IH [OF Cons.prems(1)])
      show "p \<in> set ps" using Cons.prems(2) False by simp
      show "\<forall>q \<in> set ps. length q = length p" using Cons.prems(3) by (meson list.set_intros(2))
    qed
    moreover have len: "length q = length p" using Cons.prems(3) by (metis list.set_intros(1))
    ultimately show ?thesis using False by (simp only: list.map concat.simps FindKey_skip [OF len False])
  next
    case True
    then show ?thesis by (simp only: list.map concat.simps FindKey_block [OF Cons.prems(1)])
  qed
qed simp

lemma LoadDB_cong:
  "(\<And>name ty. (name, ty) \<in> set req \<Longrightarrow> FindKey inp (p @ name) = FindKey inp' (p' @ name)) \<Longrightarrow>
   LoadDB inp req p st = LoadDB inp' req p' st"
proof (induction req arbitrary: st)
  case (Cons r req)
  obtain name ty where r: "r = (name, ty)" by force
  have e: "FindKey inp (p @ name) = FindKey inp' (p' @ name)" using Cons.prems r by auto
  have ih: "LoadDB inp req p st = LoadDB inp' req p' st" for st using Cons by auto
  show ?case by (simp only: r LoadDB.simps e ih)
qed simp

lemma split_lines_cat:
  "cur @ l \<noteq> [] \<Longrightarrow> CHR 0x0A \<notin> set l \<Longrightarrow>
   split_lines cur (l @ CHR 0x0A # s) = (cur @ l) # split_lines [] s"
  by (induction l arbitrary: cur) auto

lemma split_lines_concat:
  "\<forall>l \<in> set ls. l \<noteq> [] \<and> CHR 0x0A \<notin> set l \<Longrightarrow>
   split_lines [] (concat (List.map (\<lambda>l. l @ [CHR 0x0A]) ls)) = ls"
  by (induction ls) (auto simp: split_lines_cat)

definition geoLines :: "string list" where
  "geoLines = [''dmag = 2'', ''d0 = 1.5'', ''xoffset = -0.25'', ''dx = 0.5'', ''dy = 0.4'', ''thetaV = 10'',
      ''depth = 0.03'', ''x.stripangle = 0'', ''x.pitch = 4e-4'', ''y.stripangle = 90'', ''y.pitch = 4e-4'']"

definition geoPre :: "string list" where
  "geoPre = [''ft.plane0.module0.'', ''ft.plane0.module1.'', ''ft.plane1.module0.'']"

definition geoEx :: string where
  "geoEx = concat (List.map (\<lambda>l. l @ [CHR 0x0A])
     (concat (List.map (\<lambda>p. List.map (\<lambda>l. p @ l) geoLines) geoPre)))"

lemma geoEx_lines:
  "split_lines [] geoEx = concat (List.map (\<lambda>p. List.map (\<lambda>l. p @ l) geoLines) geoPre)"
  unfolding geoEx_def by (rule split_lines_concat) (simp add: geoLines_def geoPre_def)

lemma geoLines_all_keys:
  "\<forall>x \<in> set (geo_request @ geo_plane_request). FindKey geoLines (fst x) \<noteq> []"
  unfolding geo_request_def geo_plane_request_def geoLines_def
  by (simp add: key_blank_def)

lemma geoLines_keys:
  "(name, ty) \<in> set (geo_request @ geo_plane_request) \<Longrightarrow> FindKey geoLines name \<noteq> []"
  using geoLines_all_keys by force

lemma geoEx_find:
  assumes "p \<in> set geoPre" "(name, ty) \<in> set (geo_request @ geo_plane_request)"
  shows "FindKey (split_lines [] geoEx) (p @ name) = FindKey geoLines name"
proof -
  have "\<forall>q \<in> set geoPre. length q = length p" using assms(1) by (auto simp: geoPre_def)
  then show ?thesis
    unfolding geoEx_lines by (rule FindKey_blocks [OF geoLines_keys [OF assms(2)] assms(1)])
qed



definition geoVars :: "dbvars" where
  "geoVars = map_of (List.map (\<lambda>(k, x). (k, DDouble x))
     [(''dmag'', 2), (''d0'', 3/2), (''xoffset'', -1/4), (''dx'', 1/2), (''dy'', 2/5), (''thetaV'', 10),
      (''depth'', 3/100), (''x.stripangle'', 0), (''x.pitch'', 1/2500), (''y.stripangle'', 90),
      (''y.pitch'', 1/2500)])"

lemma geoLines_load1:
  "LoadDB geoLines geo_request [] st = (0, st(''dmag'' \<mapsto> DDouble 2, ''d0'' \<mapsto> DDouble (3/2),
     ''xoffset'' \<mapsto> DDouble (-1/4), ''dx'' \<mapsto> DDouble (1/2), ''dy'' \<mapsto> DDouble (2/5),
     ''thetaV'' \<mapsto> DDouble 10, ''depth'' \<mapsto> DDouble (3/100)))"
  unfolding geoLines_def geo_request_def
  by (simp add: stream_eval Let_def)

lemma geoLines_load2:
  "LoadDB geoLines geo_plane_request [] st = (0, st(''x.stripangle'' \<mapsto> DDouble 0,
     ''x.pitch'' \<mapsto> DDouble (1/2500), ''y.stripangle'' \<mapsto> DDouble 90, ''y.pitch'' \<mapsto> DDouble (1/2500)))"
  unfolding geoLines_def geo_plane_request_def
  by (simp add: stream_eval Let_def)

lemma geoEx_load:
  assumes "p \<in> set geoPre"
  shows "\<exists>s1 s2 g. LoadDB (split_lines [] geoEx) geo_request p st = (0, s1)
    \<and> LoadDB (split_lines [] geoEx) geo_plane_request p s1 = (0, s2) \<and> geo_of s2 = Some g"
proof -
  have "LoadDB (split_lines [] geoEx) geo_request p s = LoadDB geoLines geo_request [] s" for s
    by (rule LoadDB_cong) (use geoEx_find [OF assms] in auto)
  moreover have "LoadDB (split_lines [] geoEx) geo_plane_request p s = LoadDB geoLines geo_plane_request [] s" for s
    by (rule LoadDB_cong) (use geoEx_find [OF assms] in auto)
  ultimately show ?thesis
    by (simp add: geoLines_load1 geoLines_load2 geo_of_def var_double_def)
qed

lemma char_digits: "char_of (48::nat) = CHR ''0''" "char_of (49::nat) = CHR ''1''"
  by (simp_all add: char_of_def bit_iff_odd)

lemma load_modules_step:
  assumes "prefix @ ''.plane'' @ digits_of i @ ''.module'' @ digits_of j @ ''.'' \<in> set geoPre"
    and "\<And>st m. \<exists>r. load_modules (split_lines [] geoEx) prefix i (j + 1) n st m = Ok r"
  shows "\<exists>r. load_modules (split_lines [] geoEx) prefix i j (Suc n) st m = Ok r"
proof -
  obtain s1 s2 g where "LoadDB (split_lines [] geoEx) geo_request
      (prefix @ ''.plane'' @ digits_of i @ ''.module'' @ digits_of j @ ''.'') st = (0, s1)"
    "LoadDB (split_lines [] geoEx) geo_plane_request
      (prefix @ ''.plane'' @ digits_of i @ ''.module'' @ digits_of j @ ''.'') s1 = (0, s2)" "geo_of s2 = Some g"
    using geoEx_load [OF assms(1)] by blast
  then show ?thesis using assms(2) by simp
qed

lemma geoEx_run:
  assumes m: "dbNModule m = [2, 1]" "dbNGEMPlane m = 2" and geo: "contents ''db_ft.dat'' = Some geoEx"
  shows "\<exists>m'. LoadGeoInfo (\<lambda>_. None) contents ''ft'' m = Ok m'"
proof -
  have "\<exists>r. load_modules (split_lines [] geoEx) ''ft'' 0 0 (Suc (Suc 0)) st m = Ok r" for st m
    by (intro load_modules_step) (simp_all add: digits_of.simps char_digits geoPre_def)
  then obtain s1 m1 where a: "load_modules (split_lines [] geoEx) ''ft'' 0 0 2 (\<lambda>_. None) m = Ok (s1, m1)"
    by (metis numeral_2_eq_2 surj_pair)
  have "\<exists>r. load_modules (split_lines [] geoEx) ''ft'' 1 0 (Suc 0) s1 m1 = Ok r"
    by (intro load_modules_step) (simp_all add: digits_of.simps char_digits geoPre_def)
  then obtain s2 m2 where b: "load_modules (split_lines [] geoEx) ''ft'' 1 0 1 s1 m1 = Ok (s2, m2)"
    by (metis One_nat_def surj_pair)
  have "dbNModule m1 = [2, 1]" using load_modules_spec [OF a] m(1) by (auto simp: same_tables_def)
  then show ?thesis using m a b geo
    by (simp add: LoadGeoInfo_def OpenInput_def open_path_def numeral_2_eq_2 rd_def)
qed

theorem geometry_queries_total_witness:
  "\<exists>m1 m. LoadGeneralInfo (\<lambda>_. None) filesEx id ''db_generalinfo.dat'' dbm0 = Ok m1
    \<and> LoadGeoInfo (\<lambda>_. None) [''db_ft.dat'' \<mapsto> geoEx] ''ft'' m1 = Ok m
    \<and> GetDX m 1 0 = Some (g_dx (geos m 1 ! 0)) \<and> GetDX m 1 1 = Some fErrVal"
proof -
  obtain m1 where m1: "LoadGeneralInfo (\<lambda>_. None) filesEx id ''db_generalinfo.dat'' dbm0 = Ok m1"
      "dbNModule m1 = [2, 1]" "dbNChamber m1 = 2" "dbNGEMPlane m1 = 2"
    using generalEx_run [of filesEx, OF filesEx_general] by blast
  obtain m where m: "LoadGeoInfo (\<lambda>_. None) [''db_ft.dat'' \<mapsto> geoEx] ''ft'' m1 = Ok m"
    using geoEx_run [of m1 "[''db_ft.dat'' \<mapsto> geoEx]"] m1 by auto
  have f: "dbNModule dbm0 = []" by (simp add: dbm0_def)
  obtain inp st where "load_planes inp ''ft'' 0 (nat (dbNGEMPlane m1)) st m1 = Ok m"
    using m by (auto simp: LoadGeoInfo_def split: option.splits)
  from load_planes_spec [OF this] m1
  have c: "dbNChamber m = 2" "dbNGEMPlane m = 2" "dbNModule m = [2, 1]" by (auto simp: same_tables_def)
  then have "dbNChamber m \<le> dbNGEMPlane m" by simp
  note q = geometry_queries_total [OF m1(1) f m this, unfolded Let_def]
  have "GetDX m 1 0 = Some (g_dx (geos m 1 ! 0))" "GetDX m 1 1 = Some fErrVal" using q [of 1 0] q [of 1 1] c by simp_all
  then show ?thesis using m1(1) m by blast
qed

definition geoB :: "real \<Rightarrow> geoinfo" where
  "geoB xo = \<lparr> g_dmag = 2, g_d0 = 1, g_xoffset = xo, g_dx = 1/2, g_dy = 2/5, g_thetaV = 10,
     g_depth = 0, g_stripangle_u = 0, g_pitch_u = 1/2500, g_stripangle_v = 90, g_pitch_v = 1/2500 \<rparr>"

definition dbmB :: dbm where
  "dbmB = dbm0 \<lparr> dbNChamber := 1, dbNGEMPlane := 1, dbNModule := [2],
     dbPMGeo := [0 \<mapsto> [geoB (-1), geoB 1]] \<rparr>"

theorem module_of_strip_position_witness:
  "\<exists>x. GetPosFromModuleStrip dbmB 0 0 1 100 = Some x \<and> GetModuleIDFromPos dbmB 0 x = Some 1"
  by (rule module_of_strip_position)
    (auto simp: dbmB_def dbm0_def geoB_def CheckIndex_True geos_def disjoint_modules_def less_Suc_eq)

text \<open>A strip angle asked for the second readout (k = 1, the y strips) is the angle of
  the first: both branches of GetStripAngle read stripangle\_u, so the loaded y.stripangle
  is never reported.\<close>

lemma GetStripAngle_ignores_readout:
  "GetStripAngle m i j k = GetStripAngle m i j 0"
  by (simp add: GetStripAngle_def geo_query_def CheckIndex_def)

section \<open>Numbers written and read back\<close>

lemma digit_char: "n < 10 \<Longrightarrow> isdigit (char_of (48 + n)) \<and> (of_char (char_of (48 + n) :: char) :: nat) = 48 + n"
  by (simp add: isdigit_def)

lemma digits_of_digits: "\<forall>c \<in> set (digits_of n). isdigit c" and digits_of_nonempty: "digits_of n \<noteq> []"
  by (induction n rule: digits_of.induct; subst digits_of.simps; use digit_char in auto)+

lemma digits_val_app: "digits_val (xs @ [c]) = 10 * digits_val xs + (of_char c - 48)"
  by (simp add: digits_val_def)

lemma digits_val_of: "digits_val (digits_of n) = int n"
proof (induction n rule: digits_of.induct)
  case (1 n)
  have o: "k < 10 \<Longrightarrow> (of_char (char_of (48 + k) :: char) :: int) = 48 + int k" for k :: nat
    by (metis digit_char of_nat_of_char of_nat_add of_nat_numeral)
  show ?case
  proof (cases "n < 10")
    case True
    then show ?thesis by (subst digits_of.simps) (simp add: digits_val_def o)
  next
    case False
    have "n = 10 * (n div 10) + n mod 10" by simp
    then have "int n = 10 * int (n div 10) + int (n mod 10)" by presburger
    then show ?thesis using False 1 by (subst digits_of.simps) (simp add: digits_val_app o)
  qed
qed

lemma digits_of_head: "\<exists>c cs. digits_of n = c # cs \<and> isdigit c"
  using digits_of_digits [of n] digits_of_nonempty [of n] by (cases "digits_of n") auto

lemma digit_not_special: "isdigit c \<Longrightarrow> \<not> isspace c \<and> c \<noteq> CHR 0x2D \<and> c \<noteq> CHR 0x2B"
  by (auto simp: isdigit_def isspace_def)

text \<open>A number in decimal notation, with a minus sign if it is negative.\<close>

definition decimal :: "int \<Rightarrow> string" where
  "decimal n = (if n < 0 then CHR 0x2D # digits_of (nat (- n)) else digits_of (nat n))"

lemma read_int_decimal:
  assumes "-2147483648 \<le> n" "n \<le> 2147483647" "r = [] \<or> \<not> isdigit (hd r)" "\<forall>c \<in> set ws. isspace c"
  shows "read_int (open_stream (ws @ decimal n @ r)) old =
    (\<lparr> st_rest = r, st_fail = False, st_eof = (r = []) \<rparr>, Some n)"
proof -
  define ds where "ds = digits_of (nat \<bar>n\<bar>)"
  obtain c cs where d: "ds = c # cs" "isdigit c" 
    using digits_of_head [of "nat \<bar>n\<bar>"] unfolding ds_def by blast
  have sp: "\<not> isspace CHR 0x2D" by (simp add: isspace_def)
  have w: "dropWhile isspace (ws @ decimal n @ r) = decimal n @ r"
    using assms(4) d digit_not_special [of c] sp by (auto simp: dropWhile_append2 decimal_def ds_def)
  have t: "takeWhile isdigit (ds @ r) = ds" "dropWhile isdigit (ds @ r) = r"
    using digits_of_digits assms(3) by (cases r; simp add: takeWhile_append2 dropWhile_append2 ds_def)+
  have sg: "split_sign (decimal n @ r) = (if n < 0 then -1 else 1, ds @ r)"
    using d digit_not_special [of c] by (auto simp: split_sign_def decimal_def ds_def)
  have v: "digits_val ds = \<bar>n\<bar>" by (simp add: ds_def digits_val_of)
  have ne: "decimal n @ r \<noteq> []" "ds \<noteq> []" using d by (auto simp: decimal_def ds_def)
  show ?thesis
    using assms(1,2) ne v
    by (auto simp: read_int_def open_stream_def good_def w sg t Let_def)
qed

lemma read_int_digits:
  assumes "n \<le> 2147483647" "r = [] \<or> \<not> isdigit (hd r)" "\<forall>c \<in> set ws. isspace c"
  shows "read_int (open_stream (ws @ digits_of n @ r)) old =
    (\<lparr> st_rest = r, st_fail = False, st_eof = (r = []) \<rparr>, Some (int n))"
  using read_int_decimal [of "int n" r ws old] assms by (simp add: decimal_def)

lemma read_ints_vector:
  assumes "ns \<noteq> []" "\<forall>n \<in> set ns. -2147483648 \<le> n \<and> n \<le> 2147483647" "\<forall>c \<in> set ws. isspace c"
  shows "read_ints (open_stream (ws @ tl (concat (List.map (\<lambda>n. '' '' @ decimal n) ns)))) old acc =
    (\<lparr> st_rest = [], st_fail = False, st_eof = True \<rparr>, acc @ List.map Some ns)"
  using assms
proof (induction ns arbitrary: ws old acc)
  case (Cons n ns)
  let ?r = "concat (List.map (\<lambda>n. '' '' @ decimal n) ns)"
  have sp: "\<not> isdigit CHR 0x20" "isspace CHR 0x20" by (auto simp: isdigit_def isspace_def)
  have r: "?r = [] \<or> \<not> isdigit (hd ?r)" using sp by (cases ns) auto
  have 1: "read_int (open_stream (ws @ decimal n @ ?r)) old =
    (\<lparr> st_rest = ?r, st_fail = False, st_eof = (?r = []) \<rparr>, Some n)"
    using Cons.prems r by (intro read_int_decimal) auto
  have g: "good (open_stream s)" for s by (simp add: good_def open_stream_def)
  show ?case
  proof (cases "ns = []")
    case True
    then show ?thesis using 1 g by (subst read_ints.simps, subst read_ints.simps) (simp add: good_def)
  next
    case False
    have nr: "?r = '' '' @ tl ?r" using False by (cases ns) simp_all
    have "?r \<noteq> []" using False by (cases ns) simp_all
    then have "\<lparr> st_rest = ?r, st_fail = False, st_eof = (?r = []) \<rparr> = open_stream ('' '' @ tl ?r)"
      unfolding open_stream_def nr [symmetric] by simp
    then have 2: "read_int (open_stream (ws @ decimal n @ ?r)) old = (open_stream ('' '' @ tl ?r), Some n)"
      using 1 by (simp only:)
    have "read_ints (open_stream ('' '' @ tl ?r)) (Some n) (acc @ [Some n]) =
      (\<lparr> st_rest = [], st_fail = False, st_eof = True \<rparr>, (acc @ [Some n]) @ List.map Some ns)"
      using Cons.prems False sp by (intro Cons.IH) auto
    then show ?thesis using 2 g by (subst read_ints.simps) simp
  qed
qed simp

text \<open>C32. A list of at least one number between -2147483648 and 2147483647, written in decimal with single
  blanks between the numbers and nothing behind the last, is read back by the kIntV conversion as
  exactly that list, and the conversion succeeds.\<close>

theorem intV_roundtrip:
  assumes "ns \<noteq> []" "\<forall>n \<in> set ns. -2147483648 \<le> n \<and> n \<le> 2147483647"
  shows "\<exists>sv. convert kIntV (tl (concat (List.map (\<lambda>n. '' '' @ decimal n) ns))) None =
    (sv, Some (DIntV (List.map Some ns))) \<and> \<not> st_fail sv"
  using read_ints_vector [OF assms, of "[]" None "[]"] by (simp add: convert_def)

theorem intV_roundtrip_witness:
  "\<exists>sv. convert kIntV (tl (concat (List.map (\<lambda>n. '' '' @ decimal n) [3, -3, 4]))) None =
    (sv, Some (DIntV [Some 3, Some (-3), Some 4])) \<and> \<not> st_fail sv"
  using intV_roundtrip [of "[3, -3, 4]"] by simp

text \<open>A single blank after the last number breaks the value: the loop tests the stream
  before it reads, so it reads once more at the end, appends the number a second time and
  leaves the stream failed, which LoadDB reports as a conversion error.\<close>

lemma intV_trailing_blank:
  assumes "n \<le> 2147483647"
  shows "\<exists>sv. convert kIntV (digits_of n @ '' '') None = (sv, Some (DIntV [Some (int n), Some (int n)]))
    \<and> st_fail sv"
proof -
  have "\<not> isdigit CHR 0x20" "isspace CHR 0x20" by (auto simp: isdigit_def isspace_def)
  with read_int_digits [OF assms, of "'' ''" "[]" None]
  have 1: "read_int (open_stream (digits_of n @ '' '')) None =
    (\<lparr> st_rest = '' '', st_fail = False, st_eof = False \<rparr>, Some (int n))" by simp
  have "read_ints (open_stream (digits_of n @ '' '')) None [] =
    (\<lparr> st_rest = [], st_fail = True, st_eof = True \<rparr>, [Some (int n), Some (int n)])"
    apply (subst read_ints.simps, subst read_ints.simps, subst read_ints.simps)
    using 1 \<open>isspace CHR 0x20\<close> by (simp add: good_def open_stream_def read_int_def)
  then show ?thesis by (simp add: convert_def)
qed

end
