(* ===== verification/SimEvent.thy ===== *)
theory SimEvent
  imports Prelude
begin

text \<open>
  The simulated event, src/src/TSBSSimEvent.h and .cxx: generated tracks,
  calorimeter and scintillator clusters, the GEM clusters and the digitized
  strips of one event.  A TClonesArray of tracks is a list.
\<close>

section \<open>Tracks\<close>

record simtrack =
  tkNumber :: int
  tkPID :: int
  tkOrigin :: vec3
  tkMomentum :: vec3
  tkOriginAtTarget :: vec3
  tkMomentumAtTarget :: vec3

section \<open>Calorimeter and scintillator clusters\<close>

text \<open>A position that is a quotient 0/0 is no number: None.  fPlane belongs to
  TSBSScintCluster only.\<close>

record ecal_cluster =
  ecEnergy :: real
  ecXPos :: "real option"
  ecYPos :: "real option"
  ecXMax :: real
  ecYMax :: real
  ecTime :: real
  ecDetFlag :: int

record scint_cluster = ecal_cluster +
  scPlane :: int

definition TSBSECalCluster ::
  "real \<Rightarrow> real option \<Rightarrow> real option \<Rightarrow> real \<Rightarrow> int \<Rightarrow> real \<Rightarrow> real \<Rightarrow> ecal_cluster" where
  "TSBSECalCluster E Xpos Ypos t flag Xmax Ymax =
     \<lparr> ecEnergy = E, ecXPos = Xpos, ecYPos = Ypos, ecXMax = Xmax, ecYMax = Ymax, ecTime = t,
       ecDetFlag = flag \<rparr>"

definition TSBSScintCluster ::
  "int \<Rightarrow> real \<Rightarrow> real option \<Rightarrow> real option \<Rightarrow> real \<Rightarrow> int \<Rightarrow> real \<Rightarrow> real \<Rightarrow> scint_cluster" where
  "TSBSScintCluster pl E Xpos Ypos t flag Xmax Ymax =
     \<lparr> ecEnergy = E, ecXPos = Xpos, ecYPos = Ypos, ecXMax = Xmax, ecYMax = Ymax, ecTime = t,
       ecDetFlag = flag, scPlane = pl \<rparr>"

section \<open>GEM clusters and strips\<close>

text \<open>fRealSector is never set by the code that fills a cluster: None.  A strip weight is a
  quotient, None if its divisor is 0.  fADC and fClusterRatio hold the first fNsamp elements.\<close>

record gemcluster =
  gcID :: int
  gcSector :: int
  gcPlane :: int
  gcModule :: int
  gcRealSector :: "int option"
  gcSource :: int
  gcType :: int
  gcTRID :: int
  gcPID :: int
  gcP :: vec3
  gcPspec :: vec3
  gcXEntry :: vec3
  gcMCpos :: vec3
  gcHitpos :: vec3
  gcCharge :: real
  gcTime :: real
  gcSize :: "int list"
  gcStart :: "int list"
  gcXProj :: "real list"
  gcVertex :: vec3

definition MC_MAXSAMP :: nat where "MC_MAXSAMP = 10"

record gemstrip =
  gsSector :: int
  gsPlane :: int
  gsModule :: int
  gsProj :: int
  gsChan :: int
  gsSigType :: int
  gsCharge :: real
  gsTime1 :: real
  gsNsamp :: nat
  gsADC :: "int list"
  gsClusters :: "int list"
  gsClusterRatio :: "int list list"
  gsStripWeight :: "real option list"

section \<open>The event\<close>

record simevent =
  evRunID :: int
  evEvtID :: int
  evWeight :: real
  evMCTracks :: "simtrack list"
  evNSignal :: int
  evSectorsMapped :: bool
  evSignalSector :: int
  evGEMClust :: "gemcluster list"
  evGEMStrips :: "gemstrip list"
  evECalClusters :: "ecal_cluster list"
  evScintClusters :: "scint_cluster list"

definition simevent_new :: simevent where
  "simevent_new = \<lparr> evRunID = 0, evEvtID = 0, evWeight = 1, evMCTracks = [], evNSignal = 0,
     evSectorsMapped = False, evSignalSector = 0, evGEMClust = [], evGEMStrips = [],
     evECalClusters = [], evScintClusters = [] \<rparr>"

definition AddTrack :: "int \<Rightarrow> int \<Rightarrow> vec3 \<Rightarrow> vec3 \<Rightarrow> vec3 \<Rightarrow> vec3 \<Rightarrow> simevent \<Rightarrow> simevent" where
  "AddTrack number pid vertex momentum vertexAtTarget momentumAtTarget e =
     e \<lparr> evMCTracks := evMCTracks e @
          [\<lparr> tkNumber = number, tkPID = pid, tkOrigin = vertex, tkMomentum = momentum,
             tkOriginAtTarget = vertexAtTarget, tkMomentumAtTarget = momentumAtTarget \<rparr>] \<rparr>"

text \<open>The option string of Clear matters only by whether it contains "all".\<close>

definition event_Clear :: "bool \<Rightarrow> simevent \<Rightarrow> simevent" where
  "event_Clear all e =
     (let e = e \<lparr> evNSignal := 0, evGEMClust := [], evGEMStrips := [] \<rparr> in
      if all then e \<lparr> evECalClusters := [], evScintClusters := [], evMCTracks := [] \<rparr> else e)"

definition GetNclust :: "simevent \<Rightarrow> int" where "GetNclust e = int (length (evGEMClust e))"
definition GetNstrips :: "simevent \<Rightarrow> int" where "GetNstrips e = int (length (evGEMStrips e))"
definition GetNtracks :: "simevent \<Rightarrow> int" where "GetNtracks e = int (length (evMCTracks e))"

end
