(* ===== verification/Clustering.thy ===== *)
theory Clustering
  imports Prelude
begin

text \<open>
  Growing a calorimeter cluster, the loop that GetGEpECalCluster and
  GetHCalCluster (src/src/TSBSGeant4File.cxx) repeat for every detector: blocks
  are moved from the vectors E\_blocks, x\_blocks, y\_blocks to E\_eprim\_clus,
  x\_eprim\_clus, y\_eprim\_clus as long as one of them lies near a block of the
  cluster.  The three parallel vectors always have the same length (every push
  and erase is done on all three), so they are one list of blocks here, and the
  sanity check on their sizes is always passed.
\<close>

record block =
  blkE :: real
  blkX :: real
  blkY :: real

section \<open>The loop\<close>

text \<open>The innermost loop, over the cluster (index i\_ is k), with block i under test.  A
  block is moved by push\_back and erase; if that was the last block, i steps back, or the
  loop ends when no block is left.\<close>

function scan_clus ::
  "('b \<Rightarrow> 'b \<Rightarrow> bool) \<Rightarrow> nat \<Rightarrow> nat \<Rightarrow> 'b list \<Rightarrow> 'b list \<Rightarrow> nat \<Rightarrow> (nat \<times> 'b list \<times> 'b list \<times> nat) option"
where
  "scan_clus near i k blocks clus N =
     (if length clus \<le> k then Some (i, blocks, clus, N)
      else if length blocks \<le> i then None
      else if near (blocks ! i) (clus ! k) then
        (let clus' = clus @ [blocks ! i]; blocks' = erase i blocks; N' = N + 1 in
         if length blocks' \<le> i then
           (if 0 < i then scan_clus near (i - 1) (k + 1) blocks' clus' N'
            else Some (i, blocks', clus', N'))
         else scan_clus near i (k + 1) blocks' clus' N')
      else scan_clus near i (k + 1) blocks clus N)"
  by pat_completeness auto

termination
  by (relation "measures [\<lambda>(near, i, k, blocks, clus, N). length blocks,
        \<lambda>(near, i, k, blocks, clus, N). length clus - k]") auto

declare scan_clus.simps [simp del]

text \<open>What one move does, abstractly: some block of the pool that lies near some block of the
  cluster goes to the end of the cluster.\<close>

inductive grow_step :: "('b \<Rightarrow> 'b \<Rightarrow> bool) \<Rightarrow> 'b multiset \<times> 'b list \<Rightarrow> 'b multiset \<times> 'b list \<Rightarrow> bool"
  for near where
  grow_move: "x \<in># pool \<Longrightarrow> y \<in> set clus \<Longrightarrow> near x y \<Longrightarrow>
    grow_step near (pool, clus) (pool - {#x#}, clus @ [x])"

inductive_cases grow_stepE: "grow_step near (pool, clus) s"

lemma grow_step_erase:
  assumes "i < length blocks" "k < length clus" "near (blocks ! i) (clus ! k)"
  shows "grow_step near (mset blocks, clus) (mset (erase i blocks), clus @ [blocks ! i])"
proof -
  have "mset (erase i blocks) = mset blocks - {#blocks ! i#}"
    using mset_erase [OF assms(1)] by (metis add_mset_remove_trivial)
  then show ?thesis using grow_move [of "blocks ! i" "mset blocks" "clus ! k" clus near] assms by simp
qed

text \<open>The innermost loop never reads outside the vectors, performs moves only, and if it
  moves nothing has found block i near none of the blocks it looked at.\<close>

definition scan_ok ::
  "('b \<Rightarrow> 'b \<Rightarrow> bool) \<Rightarrow> nat \<Rightarrow> nat \<Rightarrow> 'b list \<Rightarrow> 'b list \<Rightarrow> nat \<Rightarrow> nat \<Rightarrow> 'b list \<Rightarrow> 'b list \<Rightarrow> nat \<Rightarrow> bool"
where
  "scan_ok near i k blocks clus N i' blocks' clus' N' \<longleftrightarrow>
     i' \<le> i \<and> (i' < length blocks' \<or> i' = 0 \<and> blocks' = [])
     \<and> (grow_step near)\<^sup>*\<^sup>* (mset blocks, clus) (mset blocks', clus')
     \<and> N \<le> N' \<and> N' + length blocks' = N + length blocks
     \<and> (N' = N \<longrightarrow> i' = i \<and> blocks' = blocks \<and> clus' = clus
           \<and> (\<forall>q. k \<le> q \<and> q < length clus \<longrightarrow> \<not> near (blocks ! i) (clus ! q)))"

lemma scan_ok_move:
  assumes "i < length blocks" "k < length clus" "near (blocks ! i) (clus ! k)" "i0 \<le> i"
    and "scan_ok near i0 k' (erase i blocks) (clus @ [blocks ! i]) (N + 1) i' blocks' clus' N'"
  shows "scan_ok near i k blocks clus N i' blocks' clus' N'"
proof -
  have "(grow_step near)\<^sup>*\<^sup>* (mset (erase i blocks), clus @ [blocks ! i]) (mset blocks', clus')"
    using assms(5) by (simp add: scan_ok_def)
  with grow_step_erase [of i blocks k clus near, OF assms(1-3)]
  have "(grow_step near)\<^sup>*\<^sup>* (mset blocks, clus) (mset blocks', clus')"
    by (rule converse_rtranclp_into_rtranclp)
  then show ?thesis using assms(1,4,5) unfolding scan_ok_def by auto
qed

lemma scan_clus_spec:
  "i < length blocks \<Longrightarrow> \<exists>i' blocks' clus' N'.
     scan_clus near i k blocks clus N = Some (i', blocks', clus', N')
     \<and> scan_ok near i k blocks clus N i' blocks' clus' N'"
proof (induction near i k blocks clus N rule: scan_clus.induct)
  case (1 near i k blocks clus N)
  let ?b = "erase i blocks" and ?c = "clus @ [blocks ! i]"
  consider "length clus \<le> k" | "k < length clus" "\<not> near (blocks ! i) (clus ! k)"
    | "k < length clus" "near (blocks ! i) (clus ! k)" "length ?b \<le> i" "0 < i"
    | "k < length clus" "near (blocks ! i) (clus ! k)" "length ?b \<le> i" "i = 0"
    | "k < length clus" "near (blocks ! i) (clus ! k)" "i < length ?b"
    by linarith
  then show ?case
  proof cases
    case 1
    then show ?thesis using "1.prems" by (subst scan_clus.simps) (auto simp: scan_ok_def)
  next
    case 2
    then obtain i' b' c' N' where r: "scan_clus near i (k + 1) blocks clus N = Some (i', b', c', N')"
        "scan_ok near i (k + 1) blocks clus N i' b' c' N'"
      using "1.IH"(3) "1.prems" by (auto simp: not_le)
    have "scan_ok near i k blocks clus N i' b' c' N'"
    proof -
      have "\<not> near (blocks ! i) (clus ! q)" if "N' = N" "k \<le> q" "q < length clus" for q
        using that 2(2) r(2) by (cases "q = k") (auto simp: scan_ok_def)
      then show ?thesis using r(2) unfolding scan_ok_def by blast
    qed
    then show ?thesis using r(1) 2 "1.prems" by (subst scan_clus.simps) (auto simp: not_le)
  next
    case 3
    then have "i - 1 < length ?b" using "1.prems" by simp
    then obtain i' b' c' N' where r: "scan_clus near (i - 1) (k + 1) ?b ?c (N + 1) = Some (i', b', c', N')"
        "scan_ok near (i - 1) (k + 1) ?b ?c (N + 1) i' b' c' N'"
      using "1.IH"(1) [OF _ _ _ refl refl refl] 3 "1.prems" by (auto simp: not_le)
    then show ?thesis using 3 "1.prems" scan_ok_move [OF "1.prems" 3(1,2) _ r(2)]
      by (subst scan_clus.simps) (auto simp: Let_def not_le)
  next
    case 4
    have l: "length blocks = 1" using length_erase [OF "1.prems"] 4(3,4) "1.prems" by linarith
    have e: "?b = []" using length_erase [OF "1.prems"] l by (metis diff_self_eq_0 length_0_conv)
    have "scan_ok near i k blocks clus N i ?b ?c (N + 1)"
      using 4 l e "1.prems" grow_step_erase [of i blocks k clus near, OF "1.prems" 4(1,2)] unfolding scan_ok_def by auto
    then show ?thesis using 4 "1.prems" by (subst scan_clus.simps) (auto simp: Let_def not_le)
  next
    case 5
    then obtain i' b' c' N' where r: "scan_clus near i (k + 1) ?b ?c (N + 1) = Some (i', b', c', N')"
        "scan_ok near i (k + 1) ?b ?c (N + 1) i' b' c' N'"
      using "1.IH"(2) [OF _ _ _ refl refl refl] "1.prems" by (auto simp: not_le)
    then show ?thesis using 5 "1.prems" scan_ok_move [OF "1.prems" 5(1,2) _ r(2)]
      by (subst scan_clus.simps) (auto simp: Let_def not_le)
  qed
qed

lemma scan_clus_index: "scan_clus near i k blocks clus N = Some (i', r) \<Longrightarrow> i' \<le> i"
proof (cases "i < length blocks")
  case True
  moreover assume "scan_clus near i k blocks clus N = Some (i', r)"
  ultimately show ?thesis using scan_clus_spec [OF True, of near k clus N] by (auto simp: scan_ok_def)
next
  case False
  moreover assume "scan_clus near i k blocks clus N = Some (i', r)"
  ultimately show ?thesis by (subst (asm) scan_clus.simps) (simp split: if_splits)
qed

text \<open>The loop over the blocks, downwards from the last; the argument is i + 1.\<close>

function scan_blocks ::
  "('b \<Rightarrow> 'b \<Rightarrow> bool) \<Rightarrow> nat \<Rightarrow> 'b list \<Rightarrow> 'b list \<Rightarrow> nat \<Rightarrow> ('b list \<times> 'b list \<times> nat) option"
where
  "scan_blocks near 0 blocks clus N = Some (blocks, clus, N)"
| "scan_blocks near (Suc i) blocks clus N =
     (case scan_clus near i 0 blocks clus N of None \<Rightarrow> None
      | Some (i', blocks', clus', N') \<Rightarrow> scan_blocks near i' blocks' clus' N')"
  by pat_completeness auto

termination
  by (relation "measure (\<lambda>(near, i, blocks, clus, N). i)")
    (auto dest: scan_clus_index simp: less_Suc_eq_le)

lemma scan_blocks_spec:
  "n \<le> length blocks \<Longrightarrow> \<exists>blocks' clus' N'.
     scan_blocks near n blocks clus N = Some (blocks', clus', N')
     \<and> (grow_step near)\<^sup>*\<^sup>* (mset blocks, clus) (mset blocks', clus')
     \<and> N \<le> N' \<and> N' + length blocks' = N + length blocks
     \<and> (N' = N \<longrightarrow> blocks' = blocks \<and> clus' = clus \<and> (\<forall>i < n. \<forall>y \<in> set clus. \<not> near (blocks ! i) y))"
proof (induction near n blocks clus N rule: scan_blocks.induct)
  case (2 near i blocks clus N)
  from scan_clus_spec [of i blocks near 0 clus N] "2.prems" obtain i' b' c' N' where
    s: "scan_clus near i 0 blocks clus N = Some (i', b', c', N')"
       "scan_ok near i 0 blocks clus N i' b' c' N'" by auto
  then have "i' \<le> length b'" by (auto simp: scan_ok_def)
  from "2.IH" [OF s(1) refl refl refl this] obtain b'' c'' N'' where
    r: "scan_blocks near i' b' c' N' = Some (b'', c'', N'')"
      "(grow_step near)\<^sup>*\<^sup>* (mset b', c') (mset b'', c'')" "N' \<le> N''"
      "N'' + length b'' = N' + length b'"
      "N'' = N' \<Longrightarrow> b'' = b' \<and> c'' = c' \<and> (\<forall>i < i'. \<forall>y \<in> set c'. \<not> near (b' ! i) y)" by blast
  have "(grow_step near)\<^sup>*\<^sup>* (mset blocks, clus) (mset b'', c'')"
    using s(2) r(2) by (auto simp: scan_ok_def)
  moreover have "b'' = blocks \<and> c'' = clus \<and> (\<forall>j < Suc i. \<forall>y \<in> set clus. \<not> near (blocks ! j) y)"
    if "N'' = N"
  proof -
    have "N' = N" using that r(3) s(2) by (simp add: scan_ok_def)
    with s(2) have e: "i' = i" "b' = blocks" "c' = clus"
        "\<forall>q < length clus. \<not> near (blocks ! i) (clus ! q)" by (auto simp: scan_ok_def)
    with r(5) that \<open>N' = N\<close> show ?thesis by (auto simp: less_Suc_eq in_set_conv_nth)
  qed
  ultimately show ?case using s r by (auto simp: scan_ok_def)
qed auto

text \<open>The while loop: passes over all blocks until a pass moves nothing.\<close>

function grow :: "('b \<Rightarrow> 'b \<Rightarrow> bool) \<Rightarrow> 'b list \<Rightarrow> 'b list \<Rightarrow> ('b list \<times> 'b list) option" where
  "grow near blocks clus =
     (case scan_blocks near (length blocks) blocks clus 0 of None \<Rightarrow> None
      | Some (blocks', clus', N) \<Rightarrow> if 0 < N then grow near blocks' clus' else Some (blocks', clus'))"
  by pat_completeness auto

termination
proof (relation "measure (\<lambda>(near, blocks, clus). length blocks)")
  fix near :: "'b \<Rightarrow> 'b \<Rightarrow> bool" and blocks clus r b' r' c' N
  assume "scan_blocks near (length blocks) blocks clus 0 = Some r" "(b', r') = r" "(c', N) = r'" "0 < N"
  then show "((near, b', c'), near, blocks, clus) \<in> measure (\<lambda>(near, blocks, clus). length blocks)"
    using scan_blocks_spec [of "length blocks" blocks near clus 0] by auto
qed simp

declare grow.simps [simp del]

lemma grow_spec:
  "\<exists>blocks' clus'. grow near blocks clus = Some (blocks', clus')
     \<and> (grow_step near)\<^sup>*\<^sup>* (mset blocks, clus) (mset blocks', clus')
     \<and> (\<forall>x \<in> set blocks'. \<forall>y \<in> set clus'. \<not> near x y)"
proof (induction near blocks clus rule: grow.induct)
  case (1 near blocks clus)
  obtain b c N where s: "scan_blocks near (length blocks) blocks clus 0 = Some (b, c, N)"
      "(grow_step near)\<^sup>*\<^sup>* (mset blocks, clus) (mset b, c)"
      "N = 0 \<Longrightarrow> b = blocks \<and> c = clus \<and> (\<forall>i < length blocks. \<forall>y \<in> set clus. \<not> near (blocks ! i) y)"
    using scan_blocks_spec [of "length blocks" blocks near clus 0] by blast
  show ?case
  proof (cases "0 < N")
    case True
    from "1.IH" [OF s(1) refl refl True] obtain b' c' where
      "grow near b c = Some (b', c')" "(grow_step near)\<^sup>*\<^sup>* (mset b, c) (mset b', c')"
      "\<forall>x \<in> set b'. \<forall>y \<in> set c'. \<not> near x y" by blast
    then show ?thesis using s True by (subst grow.simps) (auto intro: rtranclp_trans)
  next
    case False
    then have "N = 0" by simp
    with s(3) have "b = blocks" "c = clus" "\<forall>x \<in> set blocks. \<forall>y \<in> set clus. \<not> near x y"
      by (metis in_set_conv_nth)+
    with s(1,2) \<open>N = 0\<close> show ?thesis by (subst grow.simps) auto
  qed
qed

text \<open>A cluster that nothing is near to stays as it is.\<close>

lemma grow_closed:
  assumes "\<forall>x \<in> set blocks. \<forall>y \<in> set clus. \<not> near x y"
  shows "grow near blocks clus = Some (blocks, clus)"
proof -
  have scan: "scan_clus near i k blocks clus N = Some (i, blocks, clus, N)" if "i < length blocks" for i k N
    using that assms
  proof (induction "length clus - k" arbitrary: k)
    case (Suc d)
    then show ?case by (subst scan_clus.simps) (auto simp: not_le)
  qed (subst scan_clus.simps, simp)
  have "scan_blocks near n blocks clus N = Some (blocks, clus, N)" if "n \<le> length blocks" for n N
    using that by (induction n) (auto simp: scan)
  then show ?thesis by (subst grow.simps) simp
qed

section \<open>What the moves preserve\<close>

lemma grow_steps_prefix:
  "(grow_step near)\<^sup>*\<^sup>* (pool, clus) (pool', clus') \<Longrightarrow> \<exists>added. clus' = clus @ added"
  by (induction rule: rtranclp_induct2) (auto elim!: grow_stepE)

lemma grow_steps_mset:
  "(grow_step near)\<^sup>*\<^sup>* (pool, clus) (pool', clus') \<Longrightarrow> pool' + mset clus' = pool + mset clus"
proof (induction rule: rtranclp_induct2)
  case (step p c p' c')
  from step.hyps(2) obtain x where "x \<in># p" "p' = p - {#x#}" "c' = c @ [x]"
    by (auto elim: grow_stepE)
  then have "p' + mset c' = p + mset c" using insert_DiffM [of x p] by (metis add_mset_add_single mset_append mset_single_iff_right union_assoc union_commute mset.simps)
  then show ?case using step.IH by simp
qed simp

text \<open>Blocks linked to y by a chain of near blocks, all of them in B.\<close>

inductive linked :: "('b \<Rightarrow> 'b \<Rightarrow> bool) \<Rightarrow> 'b set \<Rightarrow> 'b \<Rightarrow> 'b \<Rightarrow> bool" for near B y where
  linked_self: "linked near B y y"
| linked_link: "linked near B y z \<Longrightarrow> x \<in> B \<Longrightarrow> near x z \<Longrightarrow> linked near B y x"

lemma grow_steps_linked:
  "(grow_step near)\<^sup>*\<^sup>* (pool, clus) (pool', clus') \<Longrightarrow> set_mset pool \<subseteq> B \<Longrightarrow>
   \<forall>x \<in> set clus. linked near B y x \<Longrightarrow>
   set_mset pool' \<subseteq> B \<and> (\<forall>x \<in> set clus'. linked near B y x)"
proof (induction rule: rtranclp_induct2)
  case (step p c p' c')
  from step.hyps(2) obtain x z where m: "x \<in># p" "p' = p - {#x#}" "c' = c @ [x]" "z \<in> set c" "near x z"
    by (auto elim: grow_stepE)
  have ih: "set_mset p \<subseteq> B" "\<forall>x \<in> set c. linked near B y x" using step.IH step.prems by auto
  have "linked near B y x" using ih m by (meson linked_link subsetD)
  then show ?case using ih m by (auto dest: in_diffD)
qed simp

lemma closed_linked:
  assumes "linked near B y x" "y \<in> set clus" "B \<subseteq> set blocks \<union> set clus"
    and "\<forall>x \<in> set blocks. \<forall>z \<in> set clus. \<not> near x z"
  shows "x \<in> set clus"
  using assms(1) by induction (use assms(2-4) in auto)

section \<open>The cluster of a seed\<close>

text \<open>The proximity test of a detector: a block is near itself.\<close>

locale proximity =
  fixes near :: "'b \<Rightarrow> 'b \<Rightarrow> bool"
  assumes near_refl: "near x x"
begin

lemma grow_component:
  "\<exists>rest clus. grow near blocks [seed] = Some (rest, clus)
     \<and> hd clus = seed \<and> mset rest + mset clus = mset (seed # blocks)
     \<and> set clus = {x. linked near (set (seed # blocks)) seed x}
     \<and> set rest \<inter> set clus = {}"
proof -
  obtain rest clus where g: "grow near blocks [seed] = Some (rest, clus)"
      "(grow_step near)\<^sup>*\<^sup>* (mset blocks, [seed]) (mset rest, clus)"
      "\<forall>x \<in> set rest. \<forall>y \<in> set clus. \<not> near x y"
    using grow_spec [of near blocks "[seed]"] by auto
  obtain added where p: "clus = seed # added" using grow_steps_prefix [OF g(2)] by auto
  have m: "mset rest + mset clus = mset (seed # blocks)" using grow_steps_mset [OF g(2)] by simp
  then have B: "set (seed # blocks) = set rest \<union> set clus" by (metis set_mset_mset set_mset_union)
  have 1: "linked near (set (seed # blocks)) seed x" if "x \<in> set clus" for x
  proof -
    have "set_mset (mset blocks) \<subseteq> set (seed # blocks)" by auto
    moreover have "\<forall>x \<in> set [seed]. linked near (set (seed # blocks)) seed x" by (simp add: linked_self)
    ultimately show ?thesis using grow_steps_linked [OF g(2)] that by blast
  qed
  have 2: "x \<in> set clus" if "linked near (set (seed # blocks)) seed x" for x
  proof (rule closed_linked [OF that _ _ g(3)])
    show "seed \<in> set clus" using p by simp
    show "set (seed # blocks) \<subseteq> set rest \<union> set clus" using B by blast
  qed
  have 3: "set rest \<inter> set clus = {}" using g(3) near_refl by blast
  have 4: "set clus = {x. linked near (set (seed # blocks)) seed x}" using 1 2 by blast
  have 5: "hd clus = seed" using p by simp
  show ?thesis using g(1) 5 m 4 3 by blast
qed

text \<open>So the cluster is determined, as a multiset, by the seed and the pool of blocks.\<close>

lemma grow_component_mset:
  "\<exists>rest clus. grow near blocks [seed] = Some (rest, clus)
     \<and> mset clus = filter_mset (linked near (set (seed # blocks)) seed) (mset (seed # blocks))"
proof -
  obtain rest clus where g: "grow near blocks [seed] = Some (rest, clus)"
      "mset rest + mset clus = mset (seed # blocks)"
      "set clus = {x. linked near (set (seed # blocks)) seed x}" "set rest \<inter> set clus = {}"
    using grow_component by blast
  let ?P = "linked near (set (seed # blocks)) seed"
  have "filter_mset ?P (mset rest) = {#}" using g(3,4) by (auto simp: filter_mset_eq_conv)
  moreover have "filter_mset ?P (mset clus) = mset clus" using g(3) by (simp add: filter_mset_eq_conv)
  ultimately have "mset clus = filter_mset ?P (mset rest + mset clus)" by simp
  then show ?thesis using g(1,2) by metis
qed

end

end
