(* ===== verification/Calorimeter.thy ===== *)
theory Calorimeter
  imports Clustering SimEvent
begin

text \<open>
  The calorimeter reconstruction of src/src/TSBSGeant4File.cxx: GetBBECalCluster,
  GetGEpECalCluster (with the coordinate detector CDet) and GetHCalCluster.
  The hit branches of the tree are lists of hits; the random numbers of
  fR->Poisson and fR->Gaus are parameters, indexed by the number of the draw.
\<close>

section \<open>Hits and seeds\<close>

record calhit =
  chSumedep :: real
  chXcell :: real
  chYcell :: real
  chCol :: int
  chPlane :: int

record seedst =
  sdMax :: real
  sdTot :: real
  sdClus :: "block list"
  sdBlocks :: "block list"

definition seed0 :: seedst where
  "seed0 = \<lparr> sdMax = 0, sdTot = 0, sdClus = [], sdBlocks = [] \<rparr>"

text \<open>A block with more energy than all before becomes the seed; the old seed goes back to
  the blocks.\<close>

definition seed_hit :: "block \<Rightarrow> seedst \<Rightarrow> seedst" where
  "seed_hit b st =
     (let st = st \<lparr> sdTot := sdTot st + blkE b \<rparr> in
      if sdMax st < blkE b then
        st \<lparr> sdMax := blkE b,
             sdBlocks := (if 0 < length (sdClus st) then sdBlocks st @ [sdClus st ! 0] else sdBlocks st),
             sdClus := [b] \<rparr>
      else st \<lparr> sdBlocks := sdBlocks st @ [b] \<rparr>)"

definition npe_thr :: real where "npe_thr = 3"

text \<open>The loop over the hits of the GEp ECal and of HCal: conversion to photoelectrons, cut,
  conversion back, seed.\<close>

fun scan_hits :: "(nat \<Rightarrow> real \<Rightarrow> nat) \<Rightarrow> real \<Rightarrow> nat \<Rightarrow> calhit list \<Rightarrow> seedst \<Rightarrow> seedst" where
  "scan_hits pois K i [] st = st"
| "scan_hits pois K i (h # hs) st =
     (let npe = real (pois i (K * chSumedep h)) in
      if npe < npe_thr then scan_hits pois K (i + 1) hs st
      else scan_hits pois K (i + 1) hs
             (seed_hit \<lparr> blkE = npe / K, blkX = chXcell h, blkY = chYcell h \<rparr> st))"

section \<open>Proximity\<close>

definition near_r :: "real \<Rightarrow> block \<Rightarrow> block \<Rightarrow> bool" where
  "near_r r b c \<longleftrightarrow> sqrt ((blkX b - blkX c) ^ 2 + (blkY b - blkY c) ^ 2) < r"

definition near_ecal :: "block \<Rightarrow> block \<Rightarrow> bool" where
  "near_ecal = near_r (42 / 1000 * (11 / 10))"
definition near_cdet :: "block \<Rightarrow> block \<Rightarrow> bool" where
  "near_cdet = near_r (5 / 1000 * (11 / 10))"
definition near_hcal :: "block \<Rightarrow> block \<Rightarrow> bool" where
  "near_hcal = near_r (152 / 1000 * (15 / 10))"

section \<open>GEp ECal and CDet\<close>

definition Npe_Edep_ECAL :: real where "Npe_Edep_ECAL = 538"
definition Npe_Edep_CDET :: real where "Npe_Edep_CDET = 5634"
definition Npe_Edep_HCAL :: real where "Npe_Edep_HCAL = 5000"

text \<open>The sums over the cluster: energy, and energy-weighted position.\<close>

fun sum_clus :: "(block \<Rightarrow> real) \<Rightarrow> (block \<Rightarrow> real) \<Rightarrow> block list \<Rightarrow> real \<times> real \<times> real \<Rightarrow> real \<times> real \<times> real" where
  "sum_clus fx fy [] (E, X, Y) = (E, X, Y)"
| "sum_clus fx fy (b # bs) (E, X, Y) =
     sum_clus fx fy bs (E + blkE b, X + fx b * blkE b, Y + fy b * blkE b)"

definition ecal_sums :: "block list \<Rightarrow> real \<times> real option \<times> real option" where
  "ecal_sums clus = (let (E, X, Y) = sum_clus blkX blkY clus (0, 0, 0) in (E, c_div X E, c_div Y E))"

text \<open>\<open>pow(-1, col - 1)\<close>.\<close>

definition pow_m1 :: "int \<Rightarrow> real" where
  "pow_m1 n = (if even n then 1 else -1)"

fun cdet_hits :: "(nat \<Rightarrow> real \<Rightarrow> nat) \<Rightarrow> nat \<Rightarrow> calhit list \<Rightarrow> seedst \<times> seedst \<Rightarrow> seedst \<times> seedst" where
  "cdet_hits pois i [] st = st"
| "cdet_hits pois i (h # hs) (st1, st2) =
     (let npe = real (pois i (Npe_Edep_CDET * chSumedep h)) in
      if npe < npe_thr then cdet_hits pois (i + 1) hs (st1, st2)
      else (let b = \<lparr> blkE = npe / Npe_Edep_CDET, blkX = chXcell h + 255 / 1000 * pow_m1 (chCol h - 1),
                      blkY = chYcell h \<rparr> in
        if chPlane h = 1 then cdet_hits pois (i + 1) hs (seed_hit b st1, st2)
        else if chPlane h = 2 then cdet_hits pois (i + 1) hs (st1, seed_hit b st2)
        else cdet_hits pois (i + 1) hs (st1, st2)))"

definition cdet_cluster :: "int \<Rightarrow> seedst \<Rightarrow> scint_cluster option" where
  "cdet_cluster pl st = do {
     (rest, clus) \<leftarrow> grow near_cdet (sdBlocks st) (sdClus st);
     let (E, X, Y) = ecal_sums clus;
     Some (TSBSScintCluster pl E X Y 0 31 0 0) }"

type_synonym calclusters = "ecal_cluster list \<times> scint_cluster list"

definition GetGEpECalCluster ::
  "(nat \<Rightarrow> real \<Rightarrow> nat) \<Rightarrow> real \<Rightarrow> calhit list \<Rightarrow> calhit list \<Rightarrow> calclusters \<Rightarrow> calclusters option" where
  "GetGEpECalCluster pois thr ecal cdet cl =
     (let (fECalClusters, fScintClusters) = cl;
          st = scan_hits pois Npe_Edep_ECAL 0 ecal seed0;
          (Xmax, Ymax) = (if length (sdClus st) = 1 then (blkX (sdClus st ! 0), blkY (sdClus st ! 0)) else (0, 0)) in
      if sdTot st < thr then Some cl
      else do {
        (rest, clus) \<leftarrow> grow near_ecal (sdBlocks st) (sdClus st);
        let (E, X, Y) = ecal_sums clus;
        let fECalClusters = (if thr < E then fECalClusters @ [TSBSECalCluster E X Y 0 12 Xmax Ymax]
                             else fECalClusters);
        let (st1, st2) = cdet_hits pois (length ecal) cdet (seed0, seed0);
        c1 \<leftarrow> cdet_cluster 1 st1;
        c2 \<leftarrow> cdet_cluster 2 st2;
        Some (fECalClusters, fScintClusters @ [c1] @ [c2]) })"

section \<open>HCal\<close>

text \<open>The two outer loops around the growth loop: over the blocks (counted once, before the
  growth) and over the cluster (whose size is read again each time).\<close>

lemma grow_length:
  assumes "grow near blocks clus = Some (b, c)"
  shows "length b + length c = length blocks + length clus"
proof -
  have "(grow_step near)\<^sup>*\<^sup>* (mset blocks, clus) (mset b, c)"
    using grow_spec [of near blocks clus] assms by auto
  from grow_steps_mset [OF this] show ?thesis by (metis size_mset size_union)
qed

function hcal_inner ::
  "(block \<Rightarrow> block \<Rightarrow> bool) \<Rightarrow> nat \<Rightarrow> block list \<Rightarrow> block list \<Rightarrow> (block list \<times> block list) option" where
  "hcal_inner near k blocks clus =
     (if k < length clus then
        (case grow near blocks clus of None \<Rightarrow> None
         | Some (blocks', clus') \<Rightarrow> hcal_inner near (k + 1) blocks' clus')
      else Some (blocks, clus))"
  by pat_completeness auto

termination
  by (relation "measure (\<lambda>(near, k, blocks, clus). length blocks + length clus - k)")
    (auto dest: grow_length)

declare hcal_inner.simps [simp del]

fun hcal_outer ::
  "(block \<Rightarrow> block \<Rightarrow> bool) \<Rightarrow> nat \<Rightarrow> block list \<Rightarrow> block list \<Rightarrow> (block list \<times> block list) option" where
  "hcal_outer near 0 blocks clus = Some (blocks, clus)"
| "hcal_outer near (Suc i) blocks clus =
     (case hcal_inner near 0 blocks clus of None \<Rightarrow> None
      | Some (blocks', clus') \<Rightarrow> hcal_outer near i blocks' clus')"

definition GetHCalCluster ::
  "(nat \<Rightarrow> real \<Rightarrow> nat) \<Rightarrow> calhit list \<Rightarrow> ecal_cluster list \<Rightarrow> ecal_cluster list option" where
  "GetHCalCluster pois hits fECalClusters =
     (if hits = [] then Some fECalClusters
      else (let st = scan_hits pois Npe_Edep_HCAL 0 hits seed0 in
        if 1 / 100 < sdTot st then do {
          (rest, clus) \<leftarrow> hcal_outer near_hcal (length (sdBlocks st)) (sdBlocks st) (sdClus st);
          let (E, X, Y) = sum_clus (\<lambda>b. - blkY b) blkX clus (0, 0, 0);
          Some (fECalClusters @ [TSBSECalCluster E (c_div X E) (c_div Y E) 0 0 0 0]) }
        else Some fECalClusters))"

section \<open>BigBite calorimeter\<close>

definition Npe_Edep_PS :: real where "Npe_Edep_PS = 1550"
definition sigma_Npe_Edep_PS :: real where "sigma_Npe_Edep_PS = 158"
definition Npe_Edep_SH :: real where "Npe_Edep_SH = 2335"
definition sigma_Npe_Edep_SH :: real where "sigma_Npe_Edep_SH = 147"

record bbst =
  bbPSmax :: real
  bbSHmax :: real
  bbXmax :: real
  bbYmax :: real
  bbPS :: "block list"
  bbSH :: "block list"

fun ps_hits :: "(nat \<Rightarrow> real \<Rightarrow> real \<Rightarrow> real) \<Rightarrow> nat \<Rightarrow> calhit list \<Rightarrow> bbst \<Rightarrow> bbst" where
  "ps_hits gaus i [] st = st"
| "ps_hits gaus i (h # hs) st =
     (let edep = gaus i (Npe_Edep_PS * chSumedep h) (sigma_Npe_Edep_PS * chSumedep h) / Npe_Edep_PS;
          st = (if bbPSmax st < edep then st \<lparr> bbPSmax := edep, bbYmax := chYcell h \<rparr> else st)
      in ps_hits gaus (i + 1) hs
           (st \<lparr> bbPS := bbPS st @ [\<lparr> blkE = edep, blkX = 0, blkY = chYcell h \<rparr>] \<rparr>))"

fun sh_hits :: "(nat \<Rightarrow> real \<Rightarrow> real \<Rightarrow> real) \<Rightarrow> nat \<Rightarrow> calhit list \<Rightarrow> bbst \<Rightarrow> bbst" where
  "sh_hits gaus i [] st = st"
| "sh_hits gaus i (h # hs) st =
     (let edep = gaus i (Npe_Edep_SH * chSumedep h) (sigma_Npe_Edep_SH * chSumedep h) / Npe_Edep_SH;
          st = (if bbSHmax st < edep then
                  (let st = st \<lparr> bbSHmax := edep, bbXmax := chXcell h \<rparr> in
                   if bbPSmax st < bbSHmax st then st \<lparr> bbYmax := chYcell h \<rparr> else st)
                else st)
      in sh_hits gaus (i + 1) hs
           (st \<lparr> bbSH := bbSH st @ [\<lparr> blkE = edep, blkX = chXcell h, blkY = chYcell h \<rparr>] \<rparr>))"

definition bb_window :: real where
  "bb_window = 85 / 1000 * 2 + 1 / 100"

fun ps_sum :: "real \<Rightarrow> block list \<Rightarrow> real \<Rightarrow> real" where
  "ps_sum Ymax [] E = E"
| "ps_sum Ymax (b # bs) E =
     ps_sum Ymax bs (if \<bar>blkY b - Ymax\<bar> \<le> bb_window then E + blkE b else E)"

fun sh_sum :: "real \<Rightarrow> real \<Rightarrow> block list \<Rightarrow> real \<times> real \<times> real \<times> real \<Rightarrow> real \<times> real \<times> real \<times> real" where
  "sh_sum Xmax Ymax [] acc = acc"
| "sh_sum Xmax Ymax (b # bs) (E, ESH, X, Y) =
     sh_sum Xmax Ymax bs
       (if \<bar>blkX b - Xmax\<bar> \<le> bb_window \<and> \<bar>blkY b - Ymax\<bar> \<le> bb_window
        then (E + blkE b, ESH + blkE b, X + blkE b * (-1) * blkY b, Y + blkE b * blkX b)
        else (E, ESH, X, Y))"

definition GetBBECalCluster ::
  "(nat \<Rightarrow> real \<Rightarrow> real \<Rightarrow> real) \<Rightarrow> real \<Rightarrow> calhit list \<Rightarrow> calhit list \<Rightarrow> ecal_cluster list \<Rightarrow> ecal_cluster list" where
  "GetBBECalCluster gaus thr ps sh fECalClusters =
     (let st0 = \<lparr> bbPSmax = 0, bbSHmax = 0, bbXmax = 0, bbYmax = 0, bbPS = [], bbSH = [] \<rparr>;
          st = sh_hits gaus (length ps) sh (ps_hits gaus 0 ps st0);
          E_rec = ps_sum (bbYmax st) (bbPS st) 0;
          (E_rec, E_rec_SH, X_rec, Y_rec) = sh_sum (bbXmax st) (bbYmax st) (bbSH st) (E_rec, 0, 0, 0) in
      if thr < E_rec
      then fECalClusters @ [TSBSECalCluster E_rec (c_div X_rec E_rec_SH) (c_div Y_rec E_rec_SH) 0 10 0 0]
      else fECalClusters)"

section \<open>The blocks above threshold and their seed\<close>

fun accepted :: "(nat \<Rightarrow> real \<Rightarrow> nat) \<Rightarrow> real \<Rightarrow> nat \<Rightarrow> calhit list \<Rightarrow> block list" where
  "accepted pois K i [] = []"
| "accepted pois K i (h # hs) =
     (let npe = real (pois i (K * chSumedep h)) in
      (if npe < npe_thr then [] else [\<lparr> blkE = npe / K, blkX = chXcell h, blkY = chYcell h \<rparr>])
      @ accepted pois K (i + 1) hs)"

lemma scan_hits_accepted:
  "scan_hits pois K i hs st = fold seed_hit (accepted pois K i hs) st"
  by (induction pois K i hs st rule: scan_hits.induct) (auto simp: Let_def)

lemma accepted_pos: "0 < K \<Longrightarrow> b \<in> set (accepted pois K i hs) \<Longrightarrow> 0 < blkE b"
  by (induction pois K i hs rule: accepted.induct)
    (auto simp: Let_def npe_thr_def not_less split: if_splits)

text \<open>The first block of largest energy.\<close>

definition first_max :: "block \<Rightarrow> block list \<Rightarrow> bool" where
  "first_max s bs \<longleftrightarrow> (\<exists>xs ys. bs = xs @ s # ys \<and> (\<forall>b \<in> set xs. blkE b < blkE s)
     \<and> (\<forall>b \<in> set ys. blkE b \<le> blkE s))"

lemma first_max_mem: "first_max s bs \<Longrightarrow> s \<in> set bs"
  and first_max_le: "first_max s bs \<Longrightarrow> b \<in> set bs \<Longrightarrow> blkE b \<le> blkE s"
  by (auto simp: first_max_def less_imp_le)

lemma first_max_single: "first_max b [b]"
  unfolding first_max_def by (intro exI [of _ "[]"]) simp

definition seed_ok :: "block list \<Rightarrow> seedst \<Rightarrow> bool" where
  "seed_ok bs st \<longleftrightarrow> sdTot st = sum_list (List.map blkE bs) \<and>
     (if bs = [] then sdClus st = [] \<and> sdBlocks st = [] \<and> sdMax st = 0
      else \<exists>s. sdClus st = [s] \<and> sdMax st = blkE s \<and> first_max s bs
             \<and> mset (s # sdBlocks st) = mset bs)"

lemma seed_ok_step:
  assumes "seed_ok bs st" "0 < blkE b"
  shows "seed_ok (bs @ [b]) (seed_hit b st)"
proof (cases "bs = []")
  case True
  then show ?thesis using assms by (auto simp: seed_ok_def seed_hit_def first_max_single)
next
  case False
  then obtain s where s: "sdClus st = [s]" "sdMax st = blkE s" "first_max s bs"
      "mset (s # sdBlocks st) = mset bs" using assms(1) by (auto simp: seed_ok_def)
  show ?thesis
  proof (cases "blkE s < blkE b")
    case True
    then have "first_max b (bs @ [b])" unfolding first_max_def
      by (intro exI [of _ bs] exI [of _ "[]"]) (auto dest: first_max_le [OF s(3)])
    then show ?thesis using True s assms(1) False by (auto simp: seed_ok_def seed_hit_def Let_def)
  next
    case le: False
    obtain xs ys where "bs = xs @ s # ys" "\<forall>b \<in> set xs. blkE b < blkE s" "\<forall>b \<in> set ys. blkE b \<le> blkE s"
      using s(3) by (auto simp: first_max_def)
    then have "first_max s (bs @ [b])" unfolding first_max_def using le
      by (intro exI [of _ xs] exI [of _ "ys @ [b]"]) auto
    then show ?thesis using le s assms(1) False by (auto simp: seed_ok_def seed_hit_def Let_def)
  qed
qed

lemma seed_ok_fold:
  "\<forall>b \<in> set bs. 0 < blkE b \<Longrightarrow> seed_ok bs (fold seed_hit bs seed0)"
  by (induction bs rule: rev_induct) (auto simp: seed_ok_step, simp add: seed_ok_def seed0_def)

lemma scan_hits_seed:
  "0 < K \<Longrightarrow> seed_ok (accepted pois K i hs) (scan_hits pois K i hs seed0)"
  unfolding scan_hits_accepted by (intro seed_ok_fold ballI) (rule accepted_pos)

section \<open>Sums over a cluster\<close>

lemma sum_clus_eq:
  "sum_clus fx fy bs (E, X, Y) = (E + (\<Sum>b\<leftarrow>bs. blkE b), X + (\<Sum>b\<leftarrow>bs. fx b * blkE b), Y + (\<Sum>b\<leftarrow>bs. fy b * blkE b))"
  by (induction bs arbitrary: E X Y) auto

lemma sum_list_pos:
  "bs \<noteq> [] \<Longrightarrow> \<forall>b \<in> set bs. 0 < (f b :: real) \<Longrightarrow> 0 < (\<Sum>b\<leftarrow>bs. f b)"
proof (induction bs)
  case (Cons b bs)
  then show ?case by (cases bs) (auto intro: add_pos_pos)
qed simp

text \<open>An energy-weighted mean lies between the extremes.\<close>

lemma weighted_mean_bounds:
  assumes "bs \<noteq> []" "\<forall>b \<in> set bs. 0 < blkE b" "\<forall>b \<in> set bs. lo \<le> f b \<and> f b \<le> hi"
  shows "lo \<le> (\<Sum>b\<leftarrow>bs. f b * blkE b) / (\<Sum>b\<leftarrow>bs. blkE b)"
    "(\<Sum>b\<leftarrow>bs. f b * blkE b) / (\<Sum>b\<leftarrow>bs. blkE b) \<le> hi"
proof -
  have E: "0 < (\<Sum>b\<leftarrow>bs. blkE b)" using assms by (intro sum_list_pos) auto
  have "(\<Sum>b\<leftarrow>bs. lo * blkE b) \<le> (\<Sum>b\<leftarrow>bs. f b * blkE b)"
    using assms by (intro sum_list_mono mult_right_mono) (auto intro: less_imp_le)
  then show "lo \<le> (\<Sum>b\<leftarrow>bs. f b * blkE b) / (\<Sum>b\<leftarrow>bs. blkE b)"
    using E by (simp add: le_divide_eq sum_list_const_mult)
  have "(\<Sum>b\<leftarrow>bs. f b * blkE b) \<le> (\<Sum>b\<leftarrow>bs. hi * blkE b)"
    using assms by (intro sum_list_mono mult_right_mono) (auto intro: less_imp_le)
  then show "(\<Sum>b\<leftarrow>bs. f b * blkE b) / (\<Sum>b\<leftarrow>bs. blkE b) \<le> hi"
    using E by (simp add: divide_le_eq sum_list_const_mult)
qed

section \<open>The detectors' proximity tests\<close>

lemma near_r_refl: "0 < r \<Longrightarrow> near_r r b b"
  by (simp add: near_r_def)

interpretation ecal: proximity near_ecal
  by unfold_locales (simp add: near_ecal_def near_r_refl)

interpretation cdet: proximity near_cdet
  by unfold_locales (simp add: near_cdet_def near_r_refl)

interpretation hcal: proximity near_hcal
  by unfold_locales (simp add: near_hcal_def near_r_refl)

text \<open>The blocks of bs linked to the seed: what the growth loop collects.\<close>

definition component :: "(block \<Rightarrow> block \<Rightarrow> bool) \<Rightarrow> block list \<Rightarrow> block \<Rightarrow> block multiset" where
  "component near bs s = filter_mset (linked near (set bs) s) (mset bs)"

definition msum :: "(block \<Rightarrow> real) \<Rightarrow> block multiset \<Rightarrow> real" where
  "msum f M = (\<Sum>b \<in># M. f b)"

lemma msum_mset: "msum f (mset bs) = (\<Sum>b\<leftarrow>bs. f b)"
  unfolding msum_def by (simp flip: mset_map sum_mset_sum_list)

lemma seed_in_component: "s \<in> set bs \<Longrightarrow> s \<in># component near bs s"
  by (simp add: component_def linked_self)

lemma grow_seeded:
  assumes "proximity near" "mset (s # blocks) = mset bs"
  shows "\<exists>rest clus. grow near blocks [s] = Some (rest, clus) \<and> mset clus = component near bs s"
proof -
  have "set (s # blocks) = set bs" using assms(2) by (metis set_mset_mset)
  with proximity.grow_component_mset [OF assms(1), of blocks s] assms(2)
  show ?thesis unfolding component_def by metis
qed

lemma component_sums:
  assumes "mset clus = component near bs s"
  shows "sum_clus fx fy clus (0, 0, 0) = (msum blkE (component near bs s),
    msum (\<lambda>b. fx b * blkE b) (component near bs s), msum (\<lambda>b. fy b * blkE b) (component near bs s))"
  by (simp add: sum_clus_eq msum_mset flip: assms)

lemma component_energy_pos:
  assumes "s \<in> set bs" "\<forall>b \<in> set bs. 0 < blkE b"
  shows "0 < msum blkE (component near bs s)"
proof -
  obtain cs where cs: "mset cs = component near bs s" by (metis ex_mset)
  have "set cs \<subseteq> set bs" using arg_cong [OF cs, of set_mset] by (auto simp: component_def)
  moreover have "cs \<noteq> []" using seed_in_component [OF assms(1), of near] cs by auto
  ultimately show ?thesis unfolding cs [symmetric] msum_mset
    using assms(2) by (intro sum_list_pos) auto
qed

section \<open>The GEp ECal cluster\<close>

lemma cdet_cluster_total: "\<exists>c. cdet_cluster pl st = Some c"
proof -
  obtain rest clus where "grow near_cdet (sdBlocks st) (sdClus st) = Some (rest, clus)"
    using grow_spec [of near_cdet "sdBlocks st" "sdClus st"] by blast
  then show ?thesis by (simp add: cdet_cluster_def split: prod.split)
qed

text \<open>C9. Above the calorimeter threshold GetGEpECalCluster never leaves its arrays, takes as
  seed the first block of largest energy, and reports exactly the blocks linked to the seed
  by chains of neighbours: their energy sum, their energy-weighted mean position, and the
  seed's position; the cluster is stored only if its energy exceeds the threshold.\<close>

theorem GEp_ecal_cluster:
  assumes "0 < thr" "thr \<le> (\<Sum>b\<leftarrow>accepted pois Npe_Edep_ECAL 0 ecal. blkE b)"
  shows "\<exists>s c1 c2. first_max s (accepted pois Npe_Edep_ECAL 0 ecal) \<and>
    (let M = component near_ecal (accepted pois Npe_Edep_ECAL 0 ecal) s; E = msum blkE M in
     GetGEpECalCluster pois thr ecal cdet (es, ss) = Some
       (if thr < E then es @ [TSBSECalCluster E (Some (msum (\<lambda>b. blkX b * blkE b) M / E))
            (Some (msum (\<lambda>b. blkY b * blkE b) M / E)) 0 12 (blkX s) (blkY s)] else es,
        ss @ [c1, c2]))"
proof -
  let ?bs = "accepted pois Npe_Edep_ECAL 0 ecal" and ?st = "scan_hits pois Npe_Edep_ECAL 0 ecal seed0"
  have K: "0 < Npe_Edep_ECAL" by (simp add: Npe_Edep_ECAL_def)
  have ok: "seed_ok ?bs ?st" using scan_hits_seed [OF K] .
  have ne: "?bs \<noteq> []" using assms by auto
  then obtain s where s: "sdClus ?st = [s]" "first_max s ?bs" "mset (s # sdBlocks ?st) = mset ?bs"
    using ok by (auto simp: seed_ok_def)
  obtain rest clus where g: "grow near_ecal (sdBlocks ?st) [s] = Some (rest, clus)"
      "mset clus = component near_ecal ?bs s"
    using grow_seeded [OF ecal.proximity_axioms s(3)] by blast
  have E: "msum blkE (component near_ecal ?bs s) \<noteq> 0"
    using component_energy_pos [OF first_max_mem [OF s(2)], of near_ecal] accepted_pos [OF K] by force
  have sums: "ecal_sums clus = (let M = component near_ecal ?bs s; E = msum blkE M in
      (E, Some (msum (\<lambda>b. blkX b * blkE b) M / E), Some (msum (\<lambda>b. blkY b * blkE b) M / E)))"
    using E by (simp add: ecal_sums_def component_sums [OF g(2)] Let_def c_div_def)
  obtain st1 st2 where cd: "cdet_hits pois (length ecal) cdet (seed0, seed0) = (st1, st2)" by force
  obtain c1 c2 where c: "cdet_cluster 1 st1 = Some c1" "cdet_cluster 2 st2 = Some c2"
    using cdet_cluster_total by blast
  have t: "\<not> sdTot ?st < thr" using ok assms(2) by (simp add: seed_ok_def)
  show ?thesis
    using s(1,2) g(1) t cd c
    by (intro exI [of _ s] exI [of _ c1] exI [of _ c2])
      (simp add: GetGEpECalCluster_def Let_def sums)
qed

theorem GEp_ecal_cluster_witness:
  "\<exists>s c1 c2. first_max s (accepted (\<lambda>_ _. 538) Npe_Edep_ECAL 0 [\<lparr> chSumedep = 1, chXcell = 2, chYcell = 3, chCol = 0, chPlane = 0 \<rparr>])
    \<and> blkX s = 2 \<and> GetGEpECalCluster (\<lambda>_ _. 538) (1/2)
        [\<lparr> chSumedep = 1, chXcell = 2, chYcell = 3, chCol = 0, chPlane = 0 \<rparr>] [] ([], [])
      = Some ([TSBSECalCluster 1 (Some 2) (Some 3) 0 12 2 3], [c1, c2])"
proof -
  let ?h = "[\<lparr> chSumedep = 1, chXcell = 2, chYcell = 3, chCol = 0, chPlane = 0 \<rparr>]"
  let ?b = "\<lparr> blkE = 1, blkX = 2, blkY = 3 \<rparr>"
  have a: "accepted (\<lambda>_ _. 538) Npe_Edep_ECAL 0 ?h = [?b]"
    by (simp add: npe_thr_def Npe_Edep_ECAL_def)
  have h: "1/2 \<le> (\<Sum>b\<leftarrow>accepted (\<lambda>_ _. 538) Npe_Edep_ECAL 0 ?h. blkE b)" unfolding a by simp
  from GEp_ecal_cluster [OF _ h, of "[]" "[]" "[]"] obtain s c1 c2 where
    s: "first_max s [?b]" and g: "let M = component near_ecal [?b] s; E = msum blkE M in
     GetGEpECalCluster (\<lambda>_ _. 538) (1/2) ?h [] ([], []) = Some
       (if 1/2 < E then [] @ [TSBSECalCluster E (Some (msum (\<lambda>b. blkX b * blkE b) M / E))
            (Some (msum (\<lambda>b. blkY b * blkE b) M / E)) 0 12 (blkX s) (blkY s)] else [],
        [] @ [c1, c2])"
    unfolding a by auto
  have "s = ?b" using first_max_mem [OF s] by simp
  moreover have "component near_ecal [?b] ?b = {#?b#}" by (simp add: component_def linked_self)
  ultimately show ?thesis using s g unfolding a by (intro exI [of _ s] exI [of _ c1] exI [of _ c2]) (simp add: msum_def)
qed

section \<open>The coordinate detector\<close>

fun cdet_accepted :: "(nat \<Rightarrow> real \<Rightarrow> nat) \<Rightarrow> int \<Rightarrow> nat \<Rightarrow> calhit list \<Rightarrow> block list" where
  "cdet_accepted pois pl i [] = []"
| "cdet_accepted pois pl i (h # hs) =
     (let npe = real (pois i (Npe_Edep_CDET * chSumedep h)) in
      (if npe < npe_thr \<or> chPlane h \<noteq> pl then []
       else [\<lparr> blkE = npe / Npe_Edep_CDET, blkX = chXcell h + 255 / 1000 * pow_m1 (chCol h - 1), blkY = chYcell h \<rparr>])
      @ cdet_accepted pois pl (i + 1) hs)"

lemma cdet_hits_accepted:
  "cdet_hits pois i hs (st1, st2) =
    (fold seed_hit (cdet_accepted pois 1 i hs) st1, fold seed_hit (cdet_accepted pois 2 i hs) st2)"
  by (induction pois i hs "(st1, st2)" arbitrary: st1 st2 rule: cdet_hits.induct) (auto simp: Let_def)

lemma cdet_accepted_pos: "b \<in> set (cdet_accepted pois pl i hs) \<Longrightarrow> 0 < blkE b"
  by (induction pois pl i hs rule: cdet_accepted.induct)
    (auto simp: Let_def npe_thr_def Npe_Edep_CDET_def not_less split: if_splits)

lemma cdet_cluster_spec:
  assumes "seed_ok bs st" "\<forall>b \<in> set bs. 0 < blkE b"
  shows "cdet_cluster pl st = Some
    (if bs = [] then TSBSScintCluster pl 0 None None 0 31 0 0
     else (let s = hd (sdClus st); M = component near_cdet bs s; E = msum blkE M in
       TSBSScintCluster pl E (Some (msum (\<lambda>b. blkX b * blkE b) M / E))
         (Some (msum (\<lambda>b. blkY b * blkE b) M / E)) 0 31 0 0))"
proof (cases "bs = []")
  case True
  then show ?thesis using assms(1) grow_closed [of "[]" "[]" near_cdet]
    by (simp add: cdet_cluster_def seed_ok_def ecal_sums_def c_div_def)
next
  case False
  then obtain s where s: "sdClus st = [s]" "first_max s bs" "mset (s # sdBlocks st) = mset bs"
    using assms(1) by (auto simp: seed_ok_def)
  obtain rest clus where g: "grow near_cdet (sdBlocks st) [s] = Some (rest, clus)"
      "mset clus = component near_cdet bs s"
    using grow_seeded [OF cdet.proximity_axioms s(3)] by blast
  have "msum blkE (component near_cdet bs s) \<noteq> 0"
    using component_energy_pos [OF first_max_mem [OF s(2)] assms(2), of near_cdet] by simp
  then show ?thesis using False s(1) g(1)
    by (simp add: cdet_cluster_def ecal_sums_def component_sums [OF g(2)] Let_def c_div_def)
qed

text \<open>C29. Whenever the ECal is above threshold one scintillator cluster is stored for each CDet
  plane, also for a plane without any hit: that cluster has energy 0 and the quotient 0/0
  as its position (no number).  A plane with hits gives the energy and the mean position of
  the slats linked to the first slat of largest energy.\<close>

theorem GEp_cdet_clusters:
  assumes "thr \<le> (\<Sum>b\<leftarrow>accepted pois Npe_Edep_ECAL 0 ecal. blkE b)"
  shows "\<exists>es' f. GetGEpECalCluster pois thr ecal cdet (es, ss) = Some (es', ss @ [f 1, f 2]) \<and>
    (\<forall>pl. let bs = cdet_accepted pois pl (length ecal) cdet in
       if bs = [] then f pl = TSBSScintCluster pl 0 None None 0 31 0 0
       else \<exists>s. first_max s bs \<and> (let M = component near_cdet bs s; E = msum blkE M in 0 < E \<and>
         f pl = TSBSScintCluster pl E (Some (msum (\<lambda>b. blkX b * blkE b) M / E))
           (Some (msum (\<lambda>b. blkY b * blkE b) M / E)) 0 31 0 0))"
proof -
  let ?cs = "\<lambda>pl. cdet_accepted pois pl (length ecal) cdet"
  let ?bs = "accepted pois Npe_Edep_ECAL 0 ecal" and ?st = "scan_hits pois Npe_Edep_ECAL 0 ecal seed0"
  define f where "f = (\<lambda>pl. the (cdet_cluster pl (fold seed_hit (?cs pl) seed0)))"
  have ok: "seed_ok (?cs pl) (fold seed_hit (?cs pl) seed0)" "\<forall>b \<in> set (?cs pl). 0 < blkE b" for pl
    using seed_ok_fold [of "?cs pl"] cdet_accepted_pos by blast+
  note sp = cdet_cluster_spec [OF ok]
  have f: "cdet_cluster pl (fold seed_hit (?cs pl) seed0) = Some (f pl)" for pl
    using sp by (simp add: f_def)
  have K: "0 < Npe_Edep_ECAL" by (simp add: Npe_Edep_ECAL_def)
  have t: "\<not> sdTot ?st < thr" using scan_hits_seed [OF K] assms by (simp add: seed_ok_def)
  obtain rest clus where "grow near_ecal (sdBlocks ?st) (sdClus ?st) = Some (rest, clus)"
    using grow_spec [of near_ecal "sdBlocks ?st" "sdClus ?st"] by blast
  then have g: "\<exists>es'. GetGEpECalCluster pois thr ecal cdet (es, ss) = Some (es', ss @ [f 1, f 2])"
    using t f [of 1] f [of 2]
    by (simp add: GetGEpECalCluster_def Let_def cdet_hits_accepted split: prod.split)
  have "let bs = ?cs pl in
       if bs = [] then f pl = TSBSScintCluster pl 0 None None 0 31 0 0
       else \<exists>s. first_max s bs \<and> (let M = component near_cdet bs s; E = msum blkE M in 0 < E \<and>
         f pl = TSBSScintCluster pl E (Some (msum (\<lambda>b. blkX b * blkE b) M / E))
           (Some (msum (\<lambda>b. blkY b * blkE b) M / E)) 0 31 0 0)" for pl
  proof (cases "?cs pl = []")
    case True
    then show ?thesis using sp [of pl pl] by (simp add: f_def)
  next
    case False
    then obtain s where s: "sdClus (fold seed_hit (?cs pl) seed0) = [s]" "first_max s (?cs pl)"
      using ok(1) [of pl] by (auto simp: seed_ok_def)
    have "0 < msum blkE (component near_cdet (?cs pl) s)"
      using component_energy_pos [OF first_max_mem [OF s(2)] ok(2)] .
    then show ?thesis using False s sp [of pl pl] by (auto simp: f_def Let_def)
  qed
  then show ?thesis using g by blast
qed

theorem GEp_cdet_clusters_witness:
  "\<exists>es'. GetGEpECalCluster (\<lambda>_ _. 0) 0 [] [] ([], []) = Some (es',
     [TSBSScintCluster 1 0 None None 0 31 0 0, TSBSScintCluster 2 0 None None 0 31 0 0])"
proof -
  have h: "0 \<le> (\<Sum>b\<leftarrow>accepted (\<lambda>_ _. 0) Npe_Edep_ECAL 0 []. blkE b)" by simp
  from GEp_cdet_clusters [OF h, of "[]" "[]" "[]"] show ?thesis by (auto simp: Let_def)
qed

section \<open>HCal\<close>

lemma hcal_inner_closed:
  "\<forall>x \<in> set blocks. \<forall>y \<in> set clus. \<not> near x y \<Longrightarrow> hcal_inner near k blocks clus = Some (blocks, clus)"
proof (induction "length clus - k" arbitrary: k)
  case (Suc d)
  then show ?case by (subst hcal_inner.simps) (simp add: grow_closed)
qed (subst hcal_inner.simps, simp)

text \<open>The outer loops only repeat a growth that has already come to rest.\<close>

lemma hcal_outer_grow:
  assumes "clus \<noteq> []"
  shows "hcal_outer near (length blocks) blocks clus = grow near blocks clus"
proof (cases blocks)
  case Nil
  then show ?thesis by (simp add: grow_closed)
next
  case (Cons b bs)
  obtain b' c' where g: "grow near blocks clus = Some (b', c')"
      "\<forall>x \<in> set b'. \<forall>y \<in> set c'. \<not> near x y" using grow_spec [of near blocks clus] by blast
  have "hcal_inner near 0 blocks clus = Some (b', c')"
    using assms g by (subst hcal_inner.simps) (simp add: hcal_inner_closed)
  moreover have "hcal_outer near n b' c' = Some (b', c')" for n
    by (induction n) (simp_all add: hcal_inner_closed [OF g(2)])
  ultimately show ?thesis using Cons g(1) by simp
qed

lemma hcal_result:
  assumes "1 / 100 < (\<Sum>b\<leftarrow>accepted pois Npe_Edep_HCAL 0 hits. blkE b)"
  shows "\<exists>s. first_max s (accepted pois Npe_Edep_HCAL 0 hits) \<and>
    (let M = component near_hcal (accepted pois Npe_Edep_HCAL 0 hits) s; E = msum blkE M in
     0 < E \<and> GetHCalCluster pois hits es = Some (es @
       [TSBSECalCluster E (Some (msum (\<lambda>b. - blkY b * blkE b) M / E))
          (Some (msum (\<lambda>b. blkX b * blkE b) M / E)) 0 0 0 0]))"
proof -
  let ?bs = "accepted pois Npe_Edep_HCAL 0 hits" and ?st = "scan_hits pois Npe_Edep_HCAL 0 hits seed0"
  have K: "0 < Npe_Edep_HCAL" by (simp add: Npe_Edep_HCAL_def)
  have ok: "seed_ok ?bs ?st" using scan_hits_seed [OF K] .
  have ne: "?bs \<noteq> []" "hits \<noteq> []" using assms by auto
  then obtain s where s: "sdClus ?st = [s]" "first_max s ?bs" "mset (s # sdBlocks ?st) = mset ?bs"
    using ok by (auto simp: seed_ok_def)
  obtain rest clus where g: "grow near_hcal (sdBlocks ?st) [s] = Some (rest, clus)"
      "mset clus = component near_hcal ?bs s"
    using grow_seeded [OF hcal.proximity_axioms s(3)] by blast
  have o: "hcal_outer near_hcal (length (sdBlocks ?st)) (sdBlocks ?st) (sdClus ?st) = Some (rest, clus)"
    using hcal_outer_grow [of "[s]" near_hcal "sdBlocks ?st"] g(1) s(1) by simp
  have E: "0 < msum blkE (component near_hcal ?bs s)"
    using component_energy_pos [OF first_max_mem [OF s(2)], of near_hcal] accepted_pos [OF K] by blast
  have t: "1 / 100 < sdTot ?st" using ok assms by (simp add: seed_ok_def)
  show ?thesis
    using s(2) o t ne(2) E
    by (intro exI [of _ s]) (simp add: GetHCalCluster_def Let_def component_sums [OF g(2)] c_div_def)
qed

text \<open>C17. GetHCalCluster, whose growth loop sits inside two more loops over the same vectors,
  terminates and reports exactly the blocks linked to the first block of largest energy, in
  transport coordinates (x from -y, y from x).\<close>

theorem HCal_cluster:
  assumes "1 / 100 < (\<Sum>b\<leftarrow>accepted pois Npe_Edep_HCAL 0 hits. blkE b)"
  shows "\<exists>s. first_max s (accepted pois Npe_Edep_HCAL 0 hits) \<and>
    (let M = component near_hcal (accepted pois Npe_Edep_HCAL 0 hits) s; E = msum blkE M in
     0 < E \<and> GetHCalCluster pois hits es = Some (es @
       [TSBSECalCluster E (Some (msum (\<lambda>b. - blkY b * blkE b) M / E))
          (Some (msum (\<lambda>b. blkX b * blkE b) M / E)) 0 0 0 0]))"
  by (rule hcal_result [OF assms])

theorem HCal_cluster_witness:
  "\<exists>s. first_max s (accepted (\<lambda>_ _. 5000) Npe_Edep_HCAL 0 [\<lparr> chSumedep = 1, chXcell = 2, chYcell = 3, chCol = 0, chPlane = 0 \<rparr>])
    \<and> GetHCalCluster (\<lambda>_ _. 5000) [\<lparr> chSumedep = 1, chXcell = 2, chYcell = 3, chCol = 0, chPlane = 0 \<rparr>] []
      = Some [TSBSECalCluster 1 (Some (-3)) (Some 2) 0 0 0 0]"
proof -
  let ?h = "[\<lparr> chSumedep = 1, chXcell = 2, chYcell = 3, chCol = 0, chPlane = 0 \<rparr>]"
  let ?b = "\<lparr> blkE = 1, blkX = 2, blkY = 3 \<rparr>"
  have a: "accepted (\<lambda>_ _. 5000) Npe_Edep_HCAL 0 ?h = [?b]"
    by (simp add: npe_thr_def Npe_Edep_HCAL_def)
  have h: "1/100 < (\<Sum>b\<leftarrow>accepted (\<lambda>_ _. 5000) Npe_Edep_HCAL 0 ?h. blkE b)" unfolding a by simp
  from HCal_cluster [OF h, of "[]"] obtain s where
    s: "first_max s [?b]" and g: "let M = component near_hcal [?b] s; E = msum blkE M in
     0 < E \<and> GetHCalCluster (\<lambda>_ _. 5000) ?h [] = Some ([] @
       [TSBSECalCluster E (Some (msum (\<lambda>b. - blkY b * blkE b) M / E))
          (Some (msum (\<lambda>b. blkX b * blkE b) M / E)) 0 0 0 0])"
    unfolding a by auto
  have "s = ?b" using first_max_mem [OF s] by simp
  moreover have "component near_hcal [?b] ?b = {#?b#}" by (simp add: component_def linked_self)
  ultimately show ?thesis using s g unfolding a by (intro exI [of _ s]) (simp add: msum_def)
qed

section \<open>BigBite\<close>

definition bb_in_y :: "real \<Rightarrow> block \<Rightarrow> bool" where
  "bb_in_y Ymax b \<longleftrightarrow> \<bar>blkY b - Ymax\<bar> \<le> bb_window"

definition bb_in_xy :: "real \<Rightarrow> real \<Rightarrow> block \<Rightarrow> bool" where
  "bb_in_xy Xmax Ymax b \<longleftrightarrow> \<bar>blkX b - Xmax\<bar> \<le> bb_window \<and> bb_in_y Ymax b"

lemma ps_sum_eq: "ps_sum Ymax bs E = E + (\<Sum>b\<leftarrow>filter (bb_in_y Ymax) bs. blkE b)"
  by (induction bs arbitrary: E) (auto simp: bb_in_y_def)

lemma sh_sum_eq:
  "sh_sum Xmax Ymax bs (E, ESH, X, Y) =
    (let w = filter (bb_in_xy Xmax Ymax) bs in
     (E + (\<Sum>b\<leftarrow>w. blkE b), ESH + (\<Sum>b\<leftarrow>w. blkE b), X + (\<Sum>b\<leftarrow>w. - blkY b * blkE b),
      Y + (\<Sum>b\<leftarrow>w. blkX b * blkE b)))"
  by (induction bs arbitrary: E ESH X Y) (auto simp: bb_in_xy_def bb_in_y_def Let_def algebra_simps)

lemma ps_hits_keeps: "bbSH (ps_hits gaus i hs st) = bbSH st \<and> bbSHmax (ps_hits gaus i hs st) = bbSHmax st
   \<and> bbXmax (ps_hits gaus i hs st) = bbXmax st
   \<and> length (bbPS (ps_hits gaus i hs st)) = length (bbPS st) + length hs"
  by (induction gaus i hs st rule: ps_hits.induct) (auto simp: Let_def)

lemma sh_hits_keeps: "bbPS (sh_hits gaus i hs st) = bbPS st
   \<and> length (bbSH (sh_hits gaus i hs st)) = length (bbSH st) + length hs"
  by (induction gaus i hs st rule: sh_hits.induct) (auto simp: Let_def)

text \<open>A BigBite cluster whose shower part has no energy in the window, as when only the
  pre-shower fired, is stored all the same once its energy exceeds the threshold; its
  position is the quotient by that zero energy, so no number.\<close>

lemma BB_preshower_only_position:
  assumes "thr < bb_E" and "bb_E = (\<Sum>b\<leftarrow>filter (bb_in_y (bbYmax st)) (bbPS st). blkE b)"
    and "st = ps_hits gaus 0 ps \<lparr> bbPSmax = 0, bbSHmax = 0, bbXmax = 0, bbYmax = 0, bbPS = [], bbSH = [] \<rparr>"
  shows "GetBBECalCluster gaus thr ps [] es = es @ [TSBSECalCluster bb_E None None 0 10 0 0]"
proof -
  have "bbSH st = []" using assms(3) ps_hits_keeps by simp
  then show ?thesis
    using assms by (simp add: GetBBECalCluster_def Let_def ps_sum_eq c_div_def)
qed

lemma BB_preshower_only_position_example:
  "GetBBECalCluster (\<lambda>_ m _. m) 1 [\<lparr> chSumedep = 2, chXcell = 0, chYcell = 3, chCol = 0, chPlane = 0 \<rparr>] [] []
     = [TSBSECalCluster 2 None None 0 10 0 0]"
  using BB_preshower_only_position [of 1 2 _ "\<lambda>_ m _. m"
      "[\<lparr> chSumedep = 2, chXcell = 0, chYcell = 3, chCol = 0, chPlane = 0 \<rparr>]", OF _ _ refl, of "[]"]
  by (simp add: Npe_Edep_PS_def bb_in_y_def bb_window_def)

section \<open>Independence of the order of the hits\<close>

lemma component_mset: "mset bs = mset bs' \<Longrightarrow> component near bs s = component near bs' s"
  unfolding component_def by (metis set_mset_mset)

lemma first_max_unique:
  assumes "first_max s bs" "first_max s' bs'" "mset bs = mset bs'" "inj_on blkE (set bs)"
  shows "s = s'"
proof -
  have S: "set bs = set bs'" using assms(3) by (metis set_mset_mset)
  have "blkE s = blkE s'"
    using first_max_le [OF assms(1), of s'] first_max_le [OF assms(2), of s]
      first_max_mem [OF assms(1)] first_max_mem [OF assms(2)] S by auto
  then show ?thesis
    using assms(4) first_max_mem [OF assms(1)] first_max_mem [OF assms(2)] S by (auto dest: inj_onD)
qed

lemma HCal_below:
  assumes "(\<Sum>b\<leftarrow>accepted pois Npe_Edep_HCAL 0 hits. blkE b) \<le> 1 / 100"
  shows "GetHCalCluster pois hits es = Some es"
proof -
  have "0 < Npe_Edep_HCAL" by (simp add: Npe_Edep_HCAL_def)
  from scan_hits_seed [OF this, of pois 0 hits] assms show ?thesis
    by (simp add: GetHCalCluster_def seed_ok_def Let_def)
qed

text \<open>C28. The HCal cluster does not depend on the order in which the hits are stored: two hit
  lists that give the same blocks above threshold, no two of them with the same energy, give
  the same cluster.\<close>

theorem HCal_order_independent:
  assumes "mset (accepted pois Npe_Edep_HCAL 0 hits) = mset (accepted pois' Npe_Edep_HCAL 0 hits')"
    and "inj_on blkE (set (accepted pois Npe_Edep_HCAL 0 hits))"
  shows "GetHCalCluster pois hits es = GetHCalCluster pois' hits' es"
proof -
  let ?a = "accepted pois Npe_Edep_HCAL 0 hits" and ?a' = "accepted pois' Npe_Edep_HCAL 0 hits'"
  have tot: "(\<Sum>b\<leftarrow>?a. blkE b) = (\<Sum>b\<leftarrow>?a'. blkE b)"
    using assms(1) by (simp flip: msum_mset)
  show ?thesis
  proof (cases "1 / 100 < (\<Sum>b\<leftarrow>?a. blkE b)")
    case True
    obtain s where s: "first_max s ?a" "(let M = component near_hcal ?a s; E = msum blkE M in
     0 < E \<and> GetHCalCluster pois hits es = Some (es @
       [TSBSECalCluster E (Some (msum (\<lambda>b. - blkY b * blkE b) M / E))
          (Some (msum (\<lambda>b. blkX b * blkE b) M / E)) 0 0 0 0]))"
      using hcal_result [OF True, of es] by blast
    obtain s' where s': "first_max s' ?a'" "(let M = component near_hcal ?a' s'; E = msum blkE M in
     0 < E \<and> GetHCalCluster pois' hits' es = Some (es @
       [TSBSECalCluster E (Some (msum (\<lambda>b. - blkY b * blkE b) M / E))
          (Some (msum (\<lambda>b. blkX b * blkE b) M / E)) 0 0 0 0]))"
      using hcal_result [OF True [unfolded tot], of es] by blast
    have "s = s'" using first_max_unique [OF s(1) s'(1) assms] .
    then show ?thesis using s(2) s'(2) component_mset [OF assms(1), of near_hcal s] by (simp add: Let_def)
  next
    case False
    then show ?thesis using HCal_below tot by (simp add: not_less)
  qed
qed

theorem HCal_order_independent_witness:
  "GetHCalCluster (\<lambda>i _. if i = 0 then 5000 else 10000)
     [\<lparr> chSumedep = 1, chXcell = 2, chYcell = 3, chCol = 0, chPlane = 0 \<rparr>,
      \<lparr> chSumedep = 1, chXcell = 4, chYcell = 3, chCol = 0, chPlane = 0 \<rparr>] []
   = GetHCalCluster (\<lambda>i _. if i = 0 then 10000 else 5000)
     [\<lparr> chSumedep = 1, chXcell = 4, chYcell = 3, chCol = 0, chPlane = 0 \<rparr>,
      \<lparr> chSumedep = 1, chXcell = 2, chYcell = 3, chCol = 0, chPlane = 0 \<rparr>] []"
  by (rule HCal_order_independent) (simp_all add: npe_thr_def Npe_Edep_HCAL_def add_mset_commute)

end
