(* ===== verification/Box.thy ===== *)
theory Box
  imports Prelude
begin

text \<open>
  The box of a GEM chamber, src/src/TSBSBox.cxx and .h: its rotation matrices and
  the conversions between the hall-centre, lab, spectrometer and box frames.
  The three coordinates passed by reference are one vector.  TMatrixD::Mult is the
  matrix product; TMatrixD::Invert is the parameter minv, of which the code relies
  on its giving the inverse of a matrix that has one.
\<close>

section \<open>Frames\<close>

text \<open>Two frames related by a rigid motion: what every pair of conversions promises.\<close>

locale frame_pair =
  fixes ok :: "'p \<Rightarrow> bool"
    and fwd :: "'p \<Rightarrow> vec3 \<Rightarrow> vec3"
    and bwd :: "'p \<Rightarrow> vec3 \<Rightarrow> vec3"
  assumes bwd_fwd: "ok p \<Longrightarrow> bwd p (fwd p v) = v"
    and fwd_bwd: "ok p \<Longrightarrow> fwd p (bwd p v) = v"
    and fwd_dist: "ok p \<Longrightarrow> vmag2 (fwd p v - fwd p w) = vmag2 (v - w)"
begin

lemma bwd_dist: "ok p \<Longrightarrow> vmag2 (bwd p v - bwd p w) = vmag2 (v - w)"
  using fwd_dist [of p "bwd p v" "bwd p w"] by (simp add: fwd_bwd)

lemma fwd_inj: "ok p \<Longrightarrow> fwd p v = fwd p w \<longleftrightarrow> v = w"
  by (metis bwd_fwd)

lemma reverse: "frame_pair ok bwd fwd"
  by unfold_locales (simp_all add: bwd_fwd fwd_bwd bwd_dist)

end

lemma frame_pair_comp:
  assumes "frame_pair ok f b" "frame_pair ok g c"
  shows "frame_pair ok (\<lambda>p v. g p (f p v)) (\<lambda>p v. b p (c p v))"
  using assms unfolding frame_pair_def by simp

section \<open>State\<close>

record box =
  bxDMag :: real
  bxD0 :: real
  bxXOffset :: real
  bxDX :: real
  bxDY :: real
  bxThetaV :: real
  bxOrigin :: vec3
  bxBL :: mat3
  bxLB :: mat3

section \<open>Conversions, in mm\<close>

definition HallCenterToLab :: "box \<Rightarrow> vec3 \<Rightarrow> vec3" where
  "HallCenterToLab b v = v"

definition LabToHallCenter :: "box \<Rightarrow> vec3 \<Rightarrow> vec3" where
  "LabToHallCenter b v = v"

definition LabToSpec :: "box \<Rightarrow> vec3 \<Rightarrow> vec3" where
  "LabToSpec b v = mat_vec (bxLB b) v"

definition SpecToLab :: "box \<Rightarrow> vec3 \<Rightarrow> vec3" where
  "SpecToLab b v = mat_vec (bxBL b) v"

definition SpecToBox :: "box \<Rightarrow> vec3 \<Rightarrow> vec3" where
  "SpecToBox b v = Vec (vx v - bxXOffset b * 1000) (vy v) (vz v)"

definition BoxToSpec :: "box \<Rightarrow> vec3 \<Rightarrow> vec3" where
  "BoxToSpec b v = Vec (vx v + bxXOffset b * 1000) (vy v) (vz v)"

definition LabToBox :: "box \<Rightarrow> vec3 \<Rightarrow> vec3" where
  "LabToBox b v = (let v = LabToSpec b v; v = Vec (vx v) (vy v) (vz v - bxD0 b * 1000) in SpecToBox b v)"

definition BoxToLab :: "box \<Rightarrow> vec3 \<Rightarrow> vec3" where
  "BoxToLab b v = (let v = BoxToSpec b v; v = Vec (vx v) (vy v) (vz v + bxD0 b * 1000) in SpecToLab b v)"

definition HallCenterToBox :: "box \<Rightarrow> vec3 \<Rightarrow> vec3" where
  "HallCenterToBox b v = LabToBox b (HallCenterToLab b v)"

definition HallCenterToSpec :: "box \<Rightarrow> vec3 \<Rightarrow> vec3" where
  "HallCenterToSpec b v = LabToSpec b (HallCenterToLab b v)"

definition SpecToHallCenter :: "box \<Rightarrow> vec3 \<Rightarrow> vec3" where
  "SpecToHallCenter b v = LabToHallCenter b (SpecToLab b v)"

definition BoxToHallCenter :: "box \<Rightarrow> vec3 \<Rightarrow> vec3" where
  "BoxToHallCenter b v = LabToHallCenter b (BoxToLab b v)"

section \<open>Containment\<close>

definition Contains :: "box \<Rightarrow> real \<Rightarrow> real \<Rightarrow> bool" where
  "Contains b x y = (if bxDX b / 2 < \<bar>x\<bar> \<or> bxDY b / 2 < \<bar>y\<bar> then False else True)"

definition Contains3 :: "box \<Rightarrow> vec3 \<Rightarrow> bool" where
  "Contains3 b v = (let v = LabToBox b v in Contains b (vx v) (vy v))"

section \<open>Geometry\<close>

definition arr_roty0 :: mat3 where
  "arr_roty0 = Mat (Vec 1 0 0) (Vec 0 1 0) (Vec 0 0 1)"

definition arr_rotx1 :: "real \<Rightarrow> mat3" where
  "arr_rotx1 th = Mat (Vec 1 0 0) (Vec 0 (cos th) (- sin th)) (Vec 0 (sin th) (cos th))"

definition arr_rotz2 :: mat3 where
  "arr_rotz2 = Mat (Vec 0 (-1) 0) (Vec 1 0 0) (Vec 0 0 1)"

definition SetRotations :: "(mat3 \<Rightarrow> mat3) \<Rightarrow> box \<Rightarrow> box" where
  "SetRotations minv b =
     (let Rotzx = mat_mul arr_rotz2 (arr_rotx1 (bxThetaV b));
          LB = mat_mul Rotzx arr_roty0;
          BL = mat_mul Rotzx arr_roty0
      in b \<lparr> bxLB := LB, bxBL := minv BL \<rparr>)"

definition SetGeometry ::
  "(mat3 \<Rightarrow> mat3) \<Rightarrow> real \<Rightarrow> real \<Rightarrow> real \<Rightarrow> real \<Rightarrow> real \<Rightarrow> real \<Rightarrow> box \<Rightarrow> box" where
  "SetGeometry minv dmag d0 xoffset dx dy thetaV b =
     (let b = b \<lparr> bxDMag := dmag, bxD0 := d0, bxXOffset := xoffset, bxDX := dx, bxDY := dy,
                   bxThetaV := thetaV \<rparr>;
          b = SetRotations minv b
      in b \<lparr> bxOrigin := SpecToHallCenter b (Vec (xoffset * 1000) 0 (bxD0 b * 1000)) \<rparr>)"

definition TSBSBox ::
  "(mat3 \<Rightarrow> mat3) \<Rightarrow> real \<Rightarrow> real \<Rightarrow> real \<Rightarrow> real \<Rightarrow> real \<Rightarrow> real \<Rightarrow> box" where
  "TSBSBox minv dmag d0 xoffset dx dy thetaV = SetGeometry minv dmag d0 xoffset dx dy thetaV
     \<lparr> bxDMag = 1, bxD0 = 1, bxXOffset = 1, bxDX = 1, bxDY = 1, bxThetaV = 0, bxOrigin = 0,
       bxBL = mat_one, bxLB = mat_one \<rparr>"

section \<open>Matrix inversion\<close>

definition mat_det :: "mat3 \<Rightarrow> real" where
  "mat_det m = (case m of Mat (Vec a b c) (Vec d e f) (Vec g h i) \<Rightarrow>
     a * (e * i - f * h) - b * (d * i - f * g) + c * (d * h - e * g))"

text \<open>What the code relies on: Invert gives the inverse of a non-singular matrix.\<close>

definition inverts :: "(mat3 \<Rightarrow> mat3) \<Rightarrow> bool" where
  "inverts minv \<longleftrightarrow> (\<forall>m. mat_det m \<noteq> 0 \<longrightarrow> mat_mul (minv m) m = mat_one \<and> mat_mul m (minv m) = mat_one)"

text \<open>A function with that property, by cofactors.\<close>

definition cofactor_inv :: "mat3 \<Rightarrow> mat3" where
  "cofactor_inv m = (case m of Mat (Vec a b c) (Vec d e f) (Vec g h i) \<Rightarrow>
     (let k = 1 / mat_det m in
      Mat (Vec (k * (e * i - f * h)) (k * (c * h - b * i)) (k * (b * f - c * e)))
          (Vec (k * (f * g - d * i)) (k * (a * i - c * g)) (k * (c * d - a * f)))
          (Vec (k * (d * h - e * g)) (k * (b * g - a * h)) (k * (a * e - b * d)))))"

lemma cofactor_inverts: "inverts cofactor_inv"
  unfolding inverts_def
proof (intro allI impI)
  fix m assume d: "mat_det m \<noteq> 0"
  obtain a b c e f g h i j where m: "m = Mat (Vec a b c) (Vec e f g) (Vec h i j)"
    by (metis mat3.exhaust vec3.exhaust)
  define r where "r = 1 / mat_det m"
  have r: "r * (a * (f * j - g * i) - b * (e * j - g * h) + c * (e * i - f * h)) = 1"
    using d by (simp add: r_def m mat_det_def)
  have inv: "cofactor_inv m = Mat (Vec (r * (f * j - g * i)) (r * (c * i - b * j)) (r * (b * g - c * f)))
          (Vec (r * (g * h - e * j)) (r * (a * j - c * h)) (r * (c * e - a * g)))
          (Vec (r * (e * i - f * h)) (r * (b * h - a * i)) (r * (a * f - b * e)))"
    by (simp add: cofactor_inv_def r_def m)
  show "mat_mul (cofactor_inv m) m = mat_one \<and> mat_mul m (cofactor_inv m) = mat_one"
    unfolding inv unfolding m
    using r by (simp add: mat_mul_def mat_col_def vdot_def mat_one_def Let_def algebra_simps)
qed

section \<open>The matrices of a box\<close>

definition box_ok :: "box \<Rightarrow> bool" where
  "box_ok b \<longleftrightarrow> mat_mul (bxBL b) (bxLB b) = mat_one \<and> mat_mul (bxLB b) (bxBL b) = mat_one
     \<and> bxLB b = mat_mul (mat_mul arr_rotz2 (arr_rotx1 (bxThetaV b))) arr_roty0"

lemma rotation_matrix:
  "mat_mul (mat_mul arr_rotz2 (arr_rotx1 th)) arr_roty0 =
    Mat (Vec 0 (- cos th) (sin th)) (Vec 1 0 0) (Vec 0 (sin th) (cos th))"
  by (simp add: mat_mul_def arr_rotz2_def arr_rotx1_def arr_roty0_def mat_col_def vdot_def)

lemma rotation_det: "mat_det (mat_mul (mat_mul arr_rotz2 (arr_rotx1 th)) arr_roty0) \<noteq> 0"
proof -
  have "mat_det (mat_mul (mat_mul arr_rotz2 (arr_rotx1 th)) arr_roty0) = (cos th)\<^sup>2 + (sin th)\<^sup>2"
    by (simp add: rotation_matrix mat_det_def power2_eq_square)
  then show ?thesis by simp
qed

lemma SetGeometry_ok: "inverts minv \<Longrightarrow> box_ok (SetGeometry minv dmag d0 xo dx dy th b)"
  using rotation_det [of th] by (simp add: SetGeometry_def SetRotations_def Let_def box_ok_def inverts_def)

lemma SetGeometry_fields [simp]:
  "bxD0 (SetGeometry minv dmag d0 xo dx dy th b) = d0"
  "bxXOffset (SetGeometry minv dmag d0 xo dx dy th b) = xo"
  "bxDX (SetGeometry minv dmag d0 xo dx dy th b) = dx"
  "bxDY (SetGeometry minv dmag d0 xo dx dy th b) = dy"
  "bxThetaV (SetGeometry minv dmag d0 xo dx dy th b) = th"
  by (simp_all add: SetGeometry_def SetRotations_def Let_def)

lemma vmag2_rotation:
  "vmag2 (mat_vec (Mat (Vec 0 (- cos th) (sin th)) (Vec 1 0 0) (Vec 0 (sin th) (cos th))) v) = vmag2 v"
proof -
  let ?y = "vy v" and ?z = "vz v"
  have "(- cos th * ?y + sin th * ?z)\<^sup>2 + (sin th * ?y + cos th * ?z)\<^sup>2
      = ((sin th)\<^sup>2 + (cos th)\<^sup>2) * (?y\<^sup>2 + ?z\<^sup>2)"
    by algebra
  also have "\<dots> = ?y\<^sup>2 + ?z\<^sup>2" by simp
  finally have "(- cos th * ?y + sin th * ?z) * (- cos th * ?y + sin th * ?z)
      + (sin th * ?y + cos th * ?z) * (sin th * ?y + cos th * ?z) = ?y * ?y + ?z * ?z"
    by (simp only: power2_eq_square)
  then show ?thesis by (simp add: vmag2_def vdot_def mat_vec_def)
qed

lemma mat_vec_diff: "mat_vec m v - mat_vec m w = mat_vec m (v - w)"
  by (simp add: mat_vec_def vdot_def minus_vec3_def algebra_simps)

interpretation lab_spec: frame_pair box_ok LabToSpec SpecToLab
proof
  fix b :: box and v w
  assume ok: "box_ok b"
  show "SpecToLab b (LabToSpec b v) = v" "LabToSpec b (SpecToLab b v) = v"
    using ok unfolding LabToSpec_def SpecToLab_def mat_vec_mul [symmetric] box_ok_def by (metis mat_vec_one)+
  show "vmag2 (LabToSpec b v - LabToSpec b w) = vmag2 (v - w)"
    using ok by (simp add: box_ok_def LabToSpec_def mat_vec_diff rotation_matrix vmag2_rotation)
qed

interpretation hall_lab: frame_pair box_ok HallCenterToLab LabToHallCenter
  by unfold_locales (simp_all add: HallCenterToLab_def LabToHallCenter_def)

interpretation offset_box: frame_pair box_ok SpecToBox BoxToSpec
  by unfold_locales (auto simp: SpecToBox_def BoxToSpec_def vmag2_def vdot_def intro: vec3_eqI)

text \<open>The shift along z by fD0, in LabToBox and BoxToLab.\<close>

definition shift_in :: "box \<Rightarrow> vec3 \<Rightarrow> vec3" where
  "shift_in b v = SpecToBox b (Vec (vx v) (vy v) (vz v - bxD0 b * 1000))"

definition shift_out :: "box \<Rightarrow> vec3 \<Rightarrow> vec3" where
  "shift_out b v = (let v = BoxToSpec b v in Vec (vx v) (vy v) (vz v + bxD0 b * 1000))"

interpretation spec_box: frame_pair box_ok shift_in shift_out
  by unfold_locales
    (auto simp: shift_in_def shift_out_def SpecToBox_def BoxToSpec_def Let_def vmag2_def vdot_def
      intro: vec3_eqI)

interpretation lab_box: frame_pair box_ok LabToBox BoxToLab
proof -
  have "LabToBox = (\<lambda>b v. shift_in b (LabToSpec b v))" "BoxToLab = (\<lambda>b v. SpecToLab b (shift_out b v))"
    by (simp_all add: fun_eq_iff LabToBox_def BoxToLab_def shift_in_def shift_out_def Let_def)
  then show "frame_pair box_ok LabToBox BoxToLab"
    using frame_pair_comp [OF lab_spec.frame_pair_axioms spec_box.frame_pair_axioms] by simp
qed

interpretation hall_box: frame_pair box_ok HallCenterToBox BoxToHallCenter
  by unfold_locales (simp_all add: HallCenterToBox_def BoxToHallCenter_def HallCenterToLab_def
      LabToHallCenter_def lab_box.bwd_fwd lab_box.fwd_bwd lab_box.fwd_dist)

interpretation hall_spec: frame_pair box_ok HallCenterToSpec SpecToHallCenter
  by unfold_locales (simp_all add: HallCenterToSpec_def SpecToHallCenter_def HallCenterToLab_def
      LabToHallCenter_def lab_spec.bwd_fwd lab_spec.fwd_bwd lab_spec.fwd_dist)

text \<open>The interpretations above, in one statement per pair of conversions.\<close>

definition rigid :: "(vec3 \<Rightarrow> vec3) \<Rightarrow> (vec3 \<Rightarrow> vec3) \<Rightarrow> bool" where
  "rigid f g \<longleftrightarrow> (\<forall>v. g (f v) = v \<and> f (g v) = v)
     \<and> (\<forall>v w. vmag2 (f v - f w) = vmag2 (v - w) \<and> vmag2 (g v - g w) = vmag2 (v - w))"

lemma frame_pair_rigid: "frame_pair ok f g \<Longrightarrow> ok p \<Longrightarrow> rigid (f p) (g p)"
  by (simp add: rigid_def frame_pair.bwd_fwd frame_pair.fwd_bwd frame_pair.fwd_dist frame_pair.bwd_dist)

lemma conversions_rigid:
  assumes "box_ok b"
  shows "rigid (HallCenterToLab b) (LabToHallCenter b)" "rigid (LabToSpec b) (SpecToLab b)"
    "rigid (SpecToBox b) (BoxToSpec b)" "rigid (LabToBox b) (BoxToLab b)"
    "rigid (HallCenterToBox b) (BoxToHallCenter b)" "rigid (HallCenterToSpec b) (SpecToHallCenter b)"
  using frame_pair_rigid [OF hall_lab.frame_pair_axioms assms] frame_pair_rigid [OF lab_spec.frame_pair_axioms assms]
    frame_pair_rigid [OF offset_box.frame_pair_axioms assms] frame_pair_rigid [OF lab_box.frame_pair_axioms assms]
    frame_pair_rigid [OF hall_box.frame_pair_axioms assms] frame_pair_rigid [OF hall_spec.frame_pair_axioms assms]
  by simp_all

lemma LabToSpec_rotation:
  "box_ok b \<Longrightarrow> LabToSpec b v = Vec (vz v * sin (bxThetaV b) - vy v * cos (bxThetaV b)) (vx v)
     (vy v * sin (bxThetaV b) + vz v * cos (bxThetaV b))"
  by (simp add: box_ok_def LabToSpec_def rotation_matrix mat_vec_def vdot_def)

text \<open>C36. After SetGeometry each of the six pairs of conversions between the hall-centre, lab,
  spectrometer and box frames consists of two maps inverse to each other that keep all
  distances.  The way from the hall centre to the spectrometer is the rotation by the
  spectrometer's vertical angle and by 90 degrees about the beam; the way to the box goes on
  with a shift by fD0 along the axis, which is done by neither SpecToBox nor BoxToSpec alone, and
  by fXOffset across; the way back is the same in the opposite order.  The box's
  origin is the point whose box coordinates are (0, 0, 0).\<close>

theorem box_frames:
  assumes "inverts minv" and "b = SetGeometry minv dmag d0 xo dx dy th b0"
  shows "rigid (HallCenterToLab b) (LabToHallCenter b) \<and> rigid (LabToSpec b) (SpecToLab b)
    \<and> rigid (SpecToBox b) (BoxToSpec b) \<and> rigid (LabToBox b) (BoxToLab b)
    \<and> rigid (HallCenterToBox b) (BoxToHallCenter b) \<and> rigid (HallCenterToSpec b) (SpecToHallCenter b)
    \<and> HallCenterToSpec b v = Vec (vz v * sin th - vy v * cos th) (vx v) (vy v * sin th + vz v * cos th)
    \<and> HallCenterToBox b v = SpecToBox b (HallCenterToSpec b v - Vec 0 0 (d0 * 1000))
    \<and> HallCenterToBox b v = Vec (vz v * sin th - vy v * cos th - xo * 1000) (vx v)
        (vy v * sin th + vz v * cos th - d0 * 1000)
    \<and> BoxToHallCenter b v = SpecToHallCenter b (BoxToSpec b v + Vec 0 0 (d0 * 1000))
    \<and> HallCenterToBox b (bxOrigin b) = 0"
proof -
  have ok: "box_ok b" and f: "bxThetaV b = th" "bxD0 b = d0" "bxXOffset b = xo"
    using assms SetGeometry_ok by simp_all
  have hs: "HallCenterToSpec b v = Vec (vz v * sin th - vy v * cos th) (vx v) (vy v * sin th + vz v * cos th)"
    using LabToSpec_rotation [OF ok, of v] by (simp add: HallCenterToSpec_def HallCenterToLab_def f)
  have hb: "HallCenterToBox b u = SpecToBox b (HallCenterToSpec b u - Vec 0 0 (d0 * 1000))" for u
    by (simp add: HallCenterToBox_def HallCenterToSpec_def LabToBox_def HallCenterToLab_def Let_def f
        SpecToBox_def)
  have bh: "BoxToHallCenter b v = SpecToHallCenter b (BoxToSpec b v + Vec 0 0 (d0 * 1000))"
    by (simp add: BoxToHallCenter_def SpecToHallCenter_def BoxToLab_def Let_def f plus_vec3_def)
  have o: "HallCenterToSpec b (bxOrigin b) = Vec (xo * 1000) 0 (d0 * 1000)"
    using hall_spec.fwd_bwd [OF ok] unfolding assms(2)
    by (simp add: SetGeometry_def Let_def SpecToHallCenter_def SpecToLab_def LabToHallCenter_def
        SetRotations_def HallCenterToSpec_def HallCenterToLab_def LabToSpec_def)
  have "HallCenterToBox b (bxOrigin b) = 0" unfolding hb o by (simp add: SpecToBox_def f zero_vec3_def)
  with conversions_rigid [OF ok] hs hb [of v] bh show ?thesis by (simp add: SpecToBox_def f)
qed

theorem box_frames_witness:
  "HallCenterToBox (TSBSBox cofactor_inv 0 1 0 (1/2) (2/5) (pi / 18)) (bxOrigin (TSBSBox cofactor_inv 0 1 0 (1/2) (2/5) (pi / 18))) = 0
    \<and> HallCenterToBox (TSBSBox cofactor_inv 0 1 (1/10) (1/2) (2/5) 0) (Vec 1 2 3) = Vec (- 102) 1 (- 997)"
proof (rule conjI)
  let ?b = "TSBSBox cofactor_inv 0 1 (1/10) (1/2) (2/5) 0"
  have "HallCenterToBox ?b (Vec 1 2 3) = Vec (3 * sin 0 - 2 * cos 0 - 1/10 * 1000) 1 (2 * sin 0 + 3 * cos 0 - 1 * 1000)"
    using box_frames [OF cofactor_inverts TSBSBox_def, of 0 1 "1/10" "1/2" "2/5" 0 "Vec 1 2 3"]
    unfolding vec3.sel by blast
  then show "HallCenterToBox ?b (Vec 1 2 3) = Vec (- 102) 1 (- 997)" by simp
qed (use box_frames [OF cofactor_inverts TSBSBox_def] in blast)

text \<open>Contains(x, y, z) converts the point to box coordinates in millimetres but compares
  them with half widths in metres: a point inside the box whose distance from the centre line,
  in millimetres, exceeds half the width in metres is reported as outside.\<close>

lemma Contains3_units:
  assumes "box_ok b" and "bxDX b / 2 < \<bar>x\<bar>" and "\<bar>x\<bar> \<le> bxDX b * 1000 / 2"
  shows "\<not> Contains3 b (BoxToLab b (Vec x 0 0))"
  using assms by (simp add: Contains3_def lab_box.fwd_bwd Contains_def)

lemma Contains3_units_example:
  "\<not> Contains3 (TSBSBox cofactor_inv 0 1 0 (1/2) (2/5) 0) (BoxToLab (TSBSBox cofactor_inv 0 1 0 (1/2) (2/5) 0) (Vec 100 0 0))"
proof -
  have ok: "box_ok (TSBSBox cofactor_inv 0 1 0 (1/2) (2/5) 0)"
    unfolding TSBSBox_def by (rule SetGeometry_ok [OF cofactor_inverts])
  show ?thesis by (rule Contains3_units [OF ok]) (simp_all add: TSBSBox_def)
qed

end
