(* ===== verification/Plane.thy ===== *)
theory Plane
  imports Box
begin

text \<open>
  GEM planes, chambers and the spectrometer: src/src/TSBSGEMPlane.cxx and .h (geometry
  and strip numbering of one readout plane), src/src/TSBSGEMChamber.cxx and .h (a box
  with its two planes), src/src/TSBSSpec.cxx and .h (the list of chambers).
  OpenFile, LoadDB and Init belong to the Podd library: the database is a parameter
  that gives, for the keys of one request, an error code and the values.
\<close>

section \<open>State\<close>

record plane =
  plOrigin :: vec3
  plSize :: vec3
  plSAngle :: real
  plNStrips :: int
  plSPitch :: real
  plSBeg :: real
  plBox :: box
  plCBS :: real
  plSBS :: real

record chamber =
  chOrigin :: vec3
  chSize :: vec3
  chBox :: box
  chPlanes :: "plane list"

type_synonym database = "string list \<Rightarrow> int \<times> (string \<Rightarrow> real)"

text \<open>The status values of THaAnalysisObject, with an error of its database reader or base class.\<close>

datatype status = kOK | kInitError | kFileError | DBError int

definition torad :: real where "torad = arctan 1 / 45"

section \<open>Frame conversions of a plane\<close>

definition SetRotationsP :: "plane \<Rightarrow> plane" where
  "SetRotationsP pl = pl \<lparr> plCBS := cos (- plSAngle pl), plSBS := sin (- plSAngle pl) \<rparr>"

definition PlaneToStrip :: "plane \<Rightarrow> vec3 \<Rightarrow> vec3" where
  "PlaneToStrip pl v = (let temp = vx v in
     Vec (plCBS pl * vx v - plSBS pl * vy v) (plSBS pl * temp + plCBS pl * vy v) (vz v))"

definition StripToPlane :: "plane \<Rightarrow> vec3 \<Rightarrow> vec3" where
  "StripToPlane pl v = (let temp = vx v in
     Vec (plCBS pl * vx v + plSBS pl * vy v) (- plSBS pl * temp + plCBS pl * vy v) (vz v))"

definition LabToPlane :: "plane \<Rightarrow> vec3 \<Rightarrow> vec3" where
  "LabToPlane pl v = LabToBox (plBox pl) v"

definition PlaneToLab :: "plane \<Rightarrow> vec3 \<Rightarrow> vec3" where
  "PlaneToLab pl v = BoxToLab (plBox pl) v"

definition SpecToPlane :: "plane \<Rightarrow> vec3 \<Rightarrow> vec3" where
  "SpecToPlane pl v = SpecToBox (plBox pl) v"

definition PlaneToSpec :: "plane \<Rightarrow> vec3 \<Rightarrow> vec3" where
  "PlaneToSpec pl v = BoxToSpec (plBox pl) v"

definition LabToStrip :: "plane \<Rightarrow> vec3 \<Rightarrow> vec3" where
  "LabToStrip pl v = PlaneToStrip pl (LabToPlane pl v)"

definition StripToLab :: "plane \<Rightarrow> vec3 \<Rightarrow> vec3" where
  "StripToLab pl v = PlaneToLab pl (StripToPlane pl v)"

definition SpecToStrip :: "plane \<Rightarrow> vec3 \<Rightarrow> vec3" where
  "SpecToStrip pl v = PlaneToStrip pl (SpecToPlane pl v)"

definition StripToSpec :: "plane \<Rightarrow> vec3 \<Rightarrow> vec3" where
  "StripToSpec pl v = PlaneToSpec pl (StripToPlane pl v)"

section \<open>Geometry of a plane\<close>

text \<open>The strip number of a corner, with the correction for rounding.\<close>

definition corner_strip :: "real \<Rightarrow> real \<Rightarrow> int option" where
  "corner_strip x pitch = do {
     q \<leftarrow> c_div x pitch;
     s \<leftarrow> to_int32 q;
     if c_round q - q < 1 / 10 ^ 10 then to_int32 (c_round q) else Some s }"

fun count_strips :: "plane \<Rightarrow> (real \<times> real) list \<Rightarrow> int \<times> int \<Rightarrow> (int \<times> int) option" where
  "count_strips pl [] (smin, smax) = Some (smin, smax)"
| "count_strips pl ((x, y) # cs) (smin, smax) = do {
     s \<leftarrow> corner_strip (vx (PlaneToStrip pl (Vec x y 0))) (plSPitch pl);
     count_strips pl cs (if s < smin then s else smin, if smax < s then s else smax) }"

definition set_strips :: "plane \<Rightarrow> plane option" where
  "set_strips pl = do {
     let xs0 = bxDX (plBox pl) / 2;
     let ys0 = bxDY (plBox pl) / 2;
     smax0 \<leftarrow> to_int32 (1 / 10 ^ 9);
     (smin, smax) \<leftarrow> count_strips pl [(xs0, ys0), (xs0, - ys0), (- xs0, ys0), (- xs0, - ys0)]
                        (1000000000, smax0);
     let n = smax - smin + 1;
     Some (pl \<lparr> plNStrips := n, plSBeg := - of_int n * plSPitch pl * (1 / 2) \<rparr>) }"

definition plane_keys :: "string list" where
  "plane_keys = [''dmag'', ''d0'', ''xoffset'', ''dx'', ''dy'', ''thetaV'']"

definition strip_keys :: "string list" where
  "strip_keys = [''stripangle'', ''pitch'', ''depth'']"

text \<open>The box: copied from the parent chamber, or read from the database.\<close>

definition plane_box ::
  "(mat3 \<Rightarrow> mat3) \<Rightarrow> database \<Rightarrow> chamber option \<Rightarrow> plane \<Rightarrow> status + plane" where
  "plane_box minv db parent pl = (case parent of
     Some ch \<Rightarrow> Inr (pl \<lparr> plOrigin := chOrigin ch, plSize := chSize ch,
       plBox := SetGeometry minv (bxDMag (chBox ch)) (bxD0 (chBox ch)) (bxXOffset (chBox ch))
                  (bxDX (chBox ch)) (bxDY (chBox ch)) (bxThetaV (chBox ch)) (plBox pl) \<rparr>)
   | None \<Rightarrow> (let (err, v) = db plane_keys in
       if err \<noteq> 0 then Inl (DBError err)
       else (let b = SetGeometry minv (v ''dmag'') (v ''d0'') (v ''xoffset'') (v ''dx'') (v ''dy'')
                       (v ''thetaV'' * torad) (plBox pl) in
         Inr (pl \<lparr> plBox := b, plOrigin := bxOrigin b,
                  plSize := Vec (bxDX b) (bxDY b) (vz (plSize pl)) \<rparr>))))"

definition ReadGeometryP ::
  "(mat3 \<Rightarrow> mat3) \<Rightarrow> database \<Rightarrow> chamber option \<Rightarrow> plane \<Rightarrow> (status + plane) option" where
  "ReadGeometryP minv db parent pl = (case plane_box minv db parent pl of
     Inl err \<Rightarrow> Some (Inl err)
   | Inr pl \<Rightarrow> (let (err, v) = db strip_keys in
       if err \<noteq> 0 then Some (Inl (DBError err))
       else do {
         let pl = SetRotationsP (pl \<lparr> plSAngle := v ''stripangle'' * torad, plSPitch := v ''pitch'' \<rparr>);
         let pl = pl \<lparr> plSize := Vec (vx (plSize pl)) (vy (plSize pl)) (v ''depth'') \<rparr>;
         pl \<leftarrow> set_strips pl;
         Some (Inr pl) }))"

definition ReadDatabaseP ::
  "(mat3 \<Rightarrow> mat3) \<Rightarrow> database option \<Rightarrow> chamber option \<Rightarrow> plane \<Rightarrow> (status + plane) option" where
  "ReadDatabaseP minv file parent pl = (case file of None \<Rightarrow> Some (Inl kFileError)
     | Some db \<Rightarrow> ReadGeometryP minv db parent pl)"

section \<open>Strips\<close>

definition GetStripLowerEdge :: "plane \<Rightarrow> int \<Rightarrow> real" where
  "GetStripLowerEdge pl is = plSBeg pl + of_int is * plSPitch pl"

definition GetStripUpperEdge :: "plane \<Rightarrow> int \<Rightarrow> real" where
  "GetStripUpperEdge pl is = GetStripLowerEdge pl is + plSPitch pl"

definition GetStripUnchecked :: "plane \<Rightarrow> real \<Rightarrow> int option" where
  "GetStripUnchecked pl x = do { q \<leftarrow> c_div (x - plSBeg pl) (plSPitch pl); to_int32 q }"

definition GetStripInRange :: "plane \<Rightarrow> real \<Rightarrow> int option" where
  "GetStripInRange pl x = do {
     s \<leftarrow> GetStripUnchecked pl x;
     let s = (if s < 0 then 0 else s);
     Some (if plNStrips pl \<le> s then plNStrips pl - 1 else s) }"

text \<open>A violated assert is None.\<close>

definition GetStrip :: "plane \<Rightarrow> real \<Rightarrow> real \<Rightarrow> int option" where
  "GetStrip pl x yc =
     (let v = StripToPlane pl (Vec x yc 0) in
      if \<not> Contains (plBox pl) (vx v) (vy v) then Some (-1)
      else do {
        s \<leftarrow> GetStripUnchecked pl x;
        if 0 \<le> s \<and> s < plNStrips pl then Some s else None })"

definition StripNumtoStrip :: "plane \<Rightarrow> int \<Rightarrow> real option" where
  "StripNumtoStrip pl strip = do { s0 \<leftarrow> GetStrip pl 0 0; Some (of_int (strip - s0) * plSPitch pl) }"

definition StriptoProj :: "plane \<Rightarrow> real \<Rightarrow> real" where
  "StriptoProj pl s = (let x = bxDX (plBox pl) / 2 in s + x * plCBS pl)"

definition StripNumtoProj :: "plane \<Rightarrow> int \<Rightarrow> real option" where
  "StripNumtoProj pl s = do { x \<leftarrow> StripNumtoStrip pl s; Some (StriptoProj pl x) }"

section \<open>Chambers\<close>

definition ch_HallCenterToPlane :: "chamber \<Rightarrow> vec3 \<Rightarrow> vec3" where
  "ch_HallCenterToPlane ch v = HallCenterToBox (chBox ch) v"
definition ch_HallCenterToSpec :: "chamber \<Rightarrow> vec3 \<Rightarrow> vec3" where
  "ch_HallCenterToSpec ch v = HallCenterToSpec (chBox ch) v"
definition ch_LabToPlane :: "chamber \<Rightarrow> vec3 \<Rightarrow> vec3" where
  "ch_LabToPlane ch v = LabToBox (chBox ch) v"
definition ch_HallCenterToLab :: "chamber \<Rightarrow> vec3 \<Rightarrow> vec3" where
  "ch_HallCenterToLab ch v = HallCenterToLab (chBox ch) v"
definition ch_LabToSpec :: "chamber \<Rightarrow> vec3 \<Rightarrow> vec3" where
  "ch_LabToSpec ch v = LabToSpec (chBox ch) v"
definition ch_SpecToPlane :: "chamber \<Rightarrow> vec3 \<Rightarrow> vec3" where
  "ch_SpecToPlane ch v = SpecToBox (chBox ch) (Vec (vx v) (vy v) (vz v - bxD0 (chBox ch) * 1000))"
definition ch_PlaneToSpec :: "chamber \<Rightarrow> vec3 \<Rightarrow> vec3" where
  "ch_PlaneToSpec ch v = BoxToSpec (chBox ch) (Vec (vx v) (vy v) (vz v + bxD0 (chBox ch) * 1000))"
definition ch_SpecToLab :: "chamber \<Rightarrow> vec3 \<Rightarrow> vec3" where
  "ch_SpecToLab ch v = SpecToLab (chBox ch) v"
definition ch_LabToHallCenter :: "chamber \<Rightarrow> vec3 \<Rightarrow> vec3" where
  "ch_LabToHallCenter ch v = LabToHallCenter (chBox ch) v"
definition ch_PlaneToLab :: "chamber \<Rightarrow> vec3 \<Rightarrow> vec3" where
  "ch_PlaneToLab ch v = BoxToLab (chBox ch) v"
definition ch_SpecToHallCenter :: "chamber \<Rightarrow> vec3 \<Rightarrow> vec3" where
  "ch_SpecToHallCenter ch v = SpecToHallCenter (chBox ch) v"
definition ch_PlaneToHallCenter :: "chamber \<Rightarrow> vec3 \<Rightarrow> vec3" where
  "ch_PlaneToHallCenter ch v = BoxToHallCenter (chBox ch) v"

text \<open>The overloads that take a TVector3 copy its components, convert, and copy back.\<close>

definition on_vector :: "(vec3 \<Rightarrow> vec3) \<Rightarrow> vec3 \<Rightarrow> vec3" where
  "on_vector f X = (let x = vx X; y = vy X; z = vz X; r = f (Vec x y z) in Vec (vx r) (vy r) (vz r))"

definition chamber_keys :: "string list" where
  "chamber_keys = [''dmag'', ''d0'', ''xoffset'', ''dx'', ''dy'', ''thetaV'', ''depth'']"

text \<open>base\_err is the result of THaDetector::ReadGeometry.\<close>

definition ReadGeometryC :: "(mat3 \<Rightarrow> mat3) \<Rightarrow> int \<Rightarrow> database \<Rightarrow> chamber \<Rightarrow> status + chamber" where
  "ReadGeometryC minv base_err db ch =
     (if base_err \<noteq> 0 then Inl (DBError base_err)
      else (let (err, v) = db chamber_keys in
        if err \<noteq> 0 then Inl (DBError err)
        else (let b = SetGeometry minv (v ''dmag'') (v ''d0'') (v ''xoffset'') (v ''dx'') (v ''dy'')
                        (v ''thetaV'' * torad) (chBox ch) in
          Inr (ch \<lparr> chBox := b, chOrigin := bxOrigin b, chSize := Vec (bxDX b) (bxDY b) (v ''depth'') \<rparr>))))"

definition new_plane :: "(mat3 \<Rightarrow> mat3) \<Rightarrow> plane" where
  "new_plane minv = \<lparr> plOrigin = 0, plSize = 0, plSAngle = 0, plNStrips = 0, plSPitch = 0, plSBeg = 0,
     plBox = TSBSBox minv 1 1 0 1 1 0, plCBS = 0, plSBS = 0 \<rparr>"

text \<open>Init of the Podd library calls the plane's ReadDatabase; file gives the database of the
  plane of that name.\<close>

definition InitPlane ::
  "(mat3 \<Rightarrow> mat3) \<Rightarrow> (string \<Rightarrow> database option) \<Rightarrow> string \<Rightarrow> chamber \<Rightarrow> (status + chamber) option" where
  "InitPlane minv file name ch = (case ReadDatabaseP minv (file name) (Some ch) (new_plane minv) of
     None \<Rightarrow> None
   | Some (Inl err) \<Rightarrow> Some (Inl err)
   | Some (Inr pl) \<Rightarrow> Some (Inr (ch \<lparr> chPlanes := chPlanes ch @ [pl] \<rparr>)))"

definition ReadDatabaseC ::
  "(mat3 \<Rightarrow> mat3) \<Rightarrow> int \<Rightarrow> database option \<Rightarrow> (string \<Rightarrow> database option) \<Rightarrow> chamber \<Rightarrow> (status + chamber) option" where
  "ReadDatabaseC minv base_err file pfile ch = (case file of None \<Rightarrow> Some (Inl kFileError)
   | Some db \<Rightarrow> (case ReadGeometryC minv base_err db ch of Inl err \<Rightarrow> Some (Inl err)
     | Inr ch \<Rightarrow> (case InitPlane minv pfile ''x'' (ch \<lparr> chPlanes := [] \<rparr>) of
         None \<Rightarrow> None | Some (Inl err) \<Rightarrow> Some (Inl err)
       | Some (Inr ch) \<Rightarrow> InitPlane minv pfile ''y'' ch)))"

section \<open>The spectrometer\<close>

record spec =
  fChambers :: "chamber list"

definition AddGEM :: "chamber \<Rightarrow> spec \<Rightarrow> int \<times> spec" where
  "AddGEM pdet s = (0, s \<lparr> fChambers := fChambers s @ [pdet] \<rparr>)"

definition GetNChambers :: "spec \<Rightarrow> nat" where
  "GetNChambers s = length (fChambers s)"

definition GetChamber :: "spec \<Rightarrow> int \<Rightarrow> chamber option" where
  "GetChamber s i = rdi (fChambers s) i"

section \<open>Frames of a plane\<close>

definition plane_ok :: "plane \<Rightarrow> bool" where
  "plane_ok pl \<longleftrightarrow> box_ok (plBox pl) \<and> (plCBS pl)\<^sup>2 + (plSBS pl)\<^sup>2 = 1"

lemma rot2_inverse:
  assumes "(c :: real)\<^sup>2 + s\<^sup>2 = 1"
  shows "c * (c * x - s * y) + s * (s * x + c * y) = x" "- s * (c * x - s * y) + c * (s * x + c * y) = y"
    "c * (c * x + s * y) - s * (- s * x + c * y) = x" "s * (c * x + s * y) + c * (- s * x + c * y) = y"
    "(c * x - s * y) * (c * x - s * y) + (s * x + c * y) * (s * x + c * y) = x * x + y * y"
  using assms by algebra+

interpretation plane_strip: frame_pair plane_ok PlaneToStrip StripToPlane
proof
  fix pl v w
  assume "plane_ok pl"
  then have r: "(plCBS pl)\<^sup>2 + (plSBS pl)\<^sup>2 = 1" by (simp add: plane_ok_def)
  show "StripToPlane pl (PlaneToStrip pl v) = v" "PlaneToStrip pl (StripToPlane pl v) = v"
    using rot2_inverse(1-4) [OF r, of "vx v" "vy v"]
    by (auto simp: StripToPlane_def PlaneToStrip_def Let_def intro: vec3_eqI)
  have "PlaneToStrip pl v - PlaneToStrip pl w = PlaneToStrip pl (v - w)"
    by (simp add: PlaneToStrip_def minus_vec3_def algebra_simps)
  then show "vmag2 (PlaneToStrip pl v - PlaneToStrip pl w) = vmag2 (v - w)"
    using rot2_inverse(5) [OF r, of "vx v - vx w" "vy v - vy w"]
    by (simp add: PlaneToStrip_def vmag2_def vdot_def)
qed

interpretation lab_plane: frame_pair plane_ok LabToPlane PlaneToLab
  by unfold_locales (simp_all add: plane_ok_def LabToPlane_def PlaneToLab_def lab_box.bwd_fwd
      lab_box.fwd_bwd lab_box.fwd_dist)

interpretation lab_strip: frame_pair plane_ok LabToStrip StripToLab
proof -
  have "LabToStrip = (\<lambda>p v. PlaneToStrip p (LabToPlane p v))" "StripToLab = (\<lambda>p v. PlaneToLab p (StripToPlane p v))"
    by (simp_all add: fun_eq_iff LabToStrip_def StripToLab_def)
  then show "frame_pair plane_ok LabToStrip StripToLab"
    using frame_pair_comp [OF lab_plane.frame_pair_axioms plane_strip.frame_pair_axioms] by simp
qed

interpretation spec_plane: frame_pair plane_ok SpecToPlane PlaneToSpec
  by unfold_locales (auto simp: SpecToPlane_def PlaneToSpec_def SpecToBox_def BoxToSpec_def vmag2_def vdot_def
      intro: vec3_eqI)

interpretation spec_strip: frame_pair plane_ok SpecToStrip StripToSpec
proof -
  have "SpecToStrip = (\<lambda>p v. PlaneToStrip p (SpecToPlane p v))" "StripToSpec = (\<lambda>p v. PlaneToSpec p (StripToPlane p v))"
    by (simp_all add: fun_eq_iff SpecToStrip_def StripToSpec_def)
  then show "frame_pair plane_ok SpecToStrip StripToSpec"
    using frame_pair_comp [OF spec_plane.frame_pair_axioms plane_strip.frame_pair_axioms] by simp
qed

lemma set_strips_keeps:
  "set_strips pl = Some pl' \<Longrightarrow> plBox pl' = plBox pl \<and> plCBS pl' = plCBS pl \<and> plSBS pl' = plSBS pl
     \<and> plSPitch pl' = plSPitch pl \<and> plSAngle pl' = plSAngle pl"
  by (auto simp: set_strips_def Let_def split: bind_splits prod.splits)

lemma plane_box_ok: "inverts minv \<Longrightarrow> plane_box minv db parent pl = Inr pl' \<Longrightarrow> box_ok (plBox pl')"
  by (auto simp: plane_box_def SetGeometry_ok Let_def split: option.splits prod.splits if_splits)

lemma ReadGeometryP_cases:
  assumes "ReadGeometryP minv db parent pl0 = Some (Inr pl)"
  shows "\<exists>pl1 pl2 v. plane_box minv db parent pl0 = Inr pl1 \<and> set_strips pl2 = Some pl
     \<and> plBox pl2 = plBox pl1 \<and> db strip_keys = (0, v)
     \<and> plSAngle pl2 = v ''stripangle'' * torad \<and> plSPitch pl2 = v ''pitch''
     \<and> plCBS pl2 = cos (- plSAngle pl2) \<and> plSBS pl2 = sin (- plSAngle pl2)"
proof -
  obtain pl1 where p: "plane_box minv db parent pl0 = Inr pl1"
    using assms by (auto simp: ReadGeometryP_def split: sum.splits)
  obtain err v where d: "db strip_keys = (err, v)" by force
  have e: "err = 0" using assms p d by (auto simp: ReadGeometryP_def split: if_splits)
  define pl2 where "pl2 = SetRotationsP (pl1 \<lparr> plSAngle := v ''stripangle'' * torad, plSPitch := v ''pitch'' \<rparr>)"
  define pl3 where "pl3 = pl2 \<lparr> plSize := Vec (vx (plSize pl2)) (vy (plSize pl2)) (v ''depth'') \<rparr>"
  have "set_strips pl3 = Some pl"
    using assms p d e by (auto simp: ReadGeometryP_def pl3_def pl2_def Let_def split: bind_splits)
  then show ?thesis using p d e
    by (intro exI [of _ pl1] exI [of _ pl3] exI [of _ v]) (simp add: pl3_def pl2_def SetRotationsP_def)
qed

lemma ReadGeometryP_ok:
  "inverts minv \<Longrightarrow> ReadGeometryP minv db parent pl0 = Some (Inr pl) \<Longrightarrow> plane_ok pl"
  using ReadGeometryP_cases [of minv db parent pl0 pl] plane_box_ok set_strips_keeps
  by (fastforce simp: plane_ok_def)

text \<open>A plane set up by ReadGeometry converts between lab and strip coordinates, and
  between spectrometer and strip coordinates, without loss and without changing distances.\<close>

lemma plane_frames:
  assumes "inverts minv" "ReadGeometryP minv db parent pl0 = Some (Inr pl)"
  shows "StripToLab pl (LabToStrip pl v) = v \<and> LabToStrip pl (StripToLab pl v) = v
    \<and> StripToSpec pl (SpecToStrip pl v) = v \<and> SpecToStrip pl (StripToSpec pl v) = v
    \<and> vmag2 (LabToStrip pl v - LabToStrip pl w) = vmag2 (v - w)
    \<and> vmag2 (SpecToStrip pl v - SpecToStrip pl w) = vmag2 (v - w)"
proof -
  have ok: "plane_ok pl" using ReadGeometryP_ok [OF assms] .
  show ?thesis
    using lab_strip.bwd_fwd [OF ok] lab_strip.fwd_bwd [OF ok] lab_strip.fwd_dist [OF ok]
      spec_strip.bwd_fwd [OF ok] spec_strip.fwd_bwd [OF ok] spec_strip.fwd_dist [OF ok] by simp
qed

section \<open>Strip numbers\<close>

lemma to_int32_of_intD: "to_int32 (of_int k) = Some s \<Longrightarrow> s = k"
  by (auto simp: to_int32_def Let_def split: if_splits)

lemma corner_strip_cases:
  assumes "corner_strip X p = Some s" "0 < p"
  shows "s = trunc_int (X / p) \<and> \<not> c_round (X / p) - X / p < 1 / 10 ^ 10
    \<or> to_int32 (c_round (X / p)) = Some s"
proof -
  have "to_int32 (X / p) = Some s \<and> \<not> c_round (X / p) - X / p < 1 / 10 ^ 10
    \<or> to_int32 (c_round (X / p)) = Some s"
    using assms unfolding corner_strip_def c_div_def
    by (cases "to_int32 (X / p)"; cases "c_round (X / p) - X / p < 1 / 10 ^ 10") (simp_all only: if_True if_False bind.simps, simp_all)
  then show ?thesis by (auto simp: to_int32_def Let_def split: if_splits)
qed

lemma corner_strip_nonneg:
  assumes "corner_strip X p = Some s" "0 < p" "0 \<le> X"
  shows "\<lfloor>X / p\<rfloor> \<le> s"
proof -
  have u: "0 \<le> X / p" using assms by simp
  then have c: "c_round (X / p) = of_int \<lfloor>X / p + 1/2\<rfloor>" by (simp add: c_round_def)
  have "\<lfloor>X / p\<rfloor> \<le> \<lfloor>X / p + 1/2\<rfloor>" by (rule floor_mono) simp
  then show ?thesis
    using corner_strip_cases [OF assms(1,2)] u unfolding c by (auto dest: to_int32_of_intD)
qed

lemma corner_strip_neg:
  assumes "corner_strip (- X) p = Some s" "0 < p" "0 \<le> X"
  shows "s \<le> - \<lfloor>X / p + 1/2\<rfloor>"
proof -
  define u where "u = X / p"
  have u: "0 \<le> u" using assms by (simp add: u_def)
  have q: "- X / p = - u" by (simp add: u_def)
  have c: "c_round (- u) = of_int (- \<lfloor>u + 1/2\<rfloor>)" using u by (auto simp: c_round_def)
  have t: "trunc_int (- u) = - \<lfloor>u\<rfloor>" using u by (auto simp: trunc_int_def ceiling_minus)
  from corner_strip_cases [OF assms(1,2)] consider
    "s = - \<lfloor>u\<rfloor>" "\<not> c_round (- u) - (- u) < 1 / 10 ^ 10" | "to_int32 (c_round (- u)) = Some s"
    unfolding q t by blast
  then have "s \<le> - \<lfloor>u + 1/2\<rfloor>"
  proof cases
    case 1
    then have "0 < u - of_int \<lfloor>u + 1/2\<rfloor>" unfolding c by simp
    then have "\<lfloor>u + 1/2\<rfloor> \<le> \<lfloor>u\<rfloor>" by (simp add: le_floor_iff)
    then show ?thesis using 1(1) by simp
  qed (simp only: c, drule to_int32_of_intD, simp)
  then show ?thesis by (simp add: u_def)
qed

lemma count_strips_bounds:
  "count_strips pl cs (smin, smax) = Some (smin', smax') \<Longrightarrow> smin' \<le> smin \<and> smax \<le> smax' \<and>
   (\<forall>(x, y) \<in> set cs. \<exists>s. corner_strip (vx (PlaneToStrip pl (Vec x y 0))) (plSPitch pl) = Some s
      \<and> smin' \<le> s \<and> s \<le> smax')"
proof (induction cs arbitrary: smin smax)
  case (Cons c cs)
  obtain x y where c: "c = (x, y)" by force
  obtain s where s: "corner_strip (vx (PlaneToStrip pl (Vec x y 0))) (plSPitch pl) = Some s"
      "count_strips pl cs (if s < smin then s else smin, if smax < s then s else smax) = Some (smin', smax')"
    using Cons.prems c by (auto split: bind_splits)
  show ?case using Cons.IH [OF s(2)] s(1) c by (auto split: if_splits)
qed simp

lemma hermite: "2 * u < of_int (\<lfloor>u\<rfloor> + \<lfloor>u + 1/2\<rfloor> + 1)" for u :: real
proof (cases "of_int \<lfloor>u\<rfloor> + 1/2 \<le> u")
  case True
  then have "\<lfloor>u\<rfloor> + 1 \<le> \<lfloor>u + 1/2\<rfloor>" by (simp add: le_floor_iff)
  then have "(of_int (2 * \<lfloor>u\<rfloor> + 2) :: real) \<le> of_int (\<lfloor>u\<rfloor> + \<lfloor>u + 1/2\<rfloor> + 1)" by (simp only: of_int_le_iff)
  moreover have "u < of_int \<lfloor>u\<rfloor> + 1" by linarith
  ultimately show ?thesis by linarith
next
  case False
  have "\<lfloor>u\<rfloor> \<le> \<lfloor>u + 1/2\<rfloor>" by (rule floor_mono) simp
  then have "(of_int (2 * \<lfloor>u\<rfloor> + 1) :: real) \<le> of_int (\<lfloor>u\<rfloor> + \<lfloor>u + 1/2\<rfloor> + 1)" by (simp only: of_int_le_iff)
  with False show ?thesis by simp
qed

lemma abs_sum_max: "\<bar>a\<bar> + \<bar>b\<bar> = \<bar>a - b\<bar> \<or> \<bar>a\<bar> + \<bar>b\<bar> = \<bar>a + b :: real\<bar>"
  by linarith

lemma set_strips_covers:
  assumes "set_strips pl0 = Some pl" "0 < plSPitch pl"
    and "X = plCBS pl * (bxDX (plBox pl) / 2) + k * (plSBS pl * (bxDY (plBox pl) / 2))" "k = 1 \<or> k = -1"
  shows "2 * (\<bar>X\<bar> / plSPitch pl) < of_int (plNStrips pl)"
proof -
  note kp = set_strips_keeps [OF assms(1)]
  let ?x = "bxDX (plBox pl) / 2" and ?y = "bxDY (plBox pl) / 2"
  obtain smax0 smin smax where c: "count_strips pl0 [(?x, ?y), (?x, - ?y), (- ?x, ?y), (- ?x, - ?y)]
      (1000000000, smax0) = Some (smin, smax)" and n: "plNStrips pl = smax - smin + 1"
    using assms(1) kp
    by (auto simp: set_strips_def Let_def bind_eq_Some_conv simp del: count_strips.simps)
  note b = count_strips_bounds [OF c]
  have P: "vx (PlaneToStrip pl0 (Vec x y 0)) = plCBS pl * x - plSBS pl * y" for x y
    using kp by (simp add: PlaneToStrip_def)
  have both: "\<exists>s. corner_strip Y (plSPitch pl) = Some s \<and> smin \<le> s \<and> s \<le> smax"
    if "Y = X \<or> Y = - X" for Y
  proof -
    let ?cs = "[(?x, ?y), (?x, - ?y), (- ?x, ?y), (- ?x, - ?y)]"
    have m: "(?x, ?y) \<in> set ?cs" "(?x, - ?y) \<in> set ?cs" "(- ?x, ?y) \<in> set ?cs" "(- ?x, - ?y) \<in> set ?cs"
      by simp_all
    have "Y = plCBS pl * ?x - plSBS pl * ?y \<or> Y = plCBS pl * ?x - plSBS pl * - ?y
        \<or> Y = plCBS pl * - ?x - plSBS pl * ?y \<or> Y = plCBS pl * - ?x - plSBS pl * - ?y"
      using that assms(4) unfolding assms(3) by (elim disjE) (simp_all add: algebra_simps)
    with m obtain x y where xy: "(x, y) \<in> set ?cs" "Y = plCBS pl * x - plSBS pl * y" by blast
    from b [THEN conjunct2, THEN conjunct2, rule_format, OF xy(1)] kp show ?thesis
      unfolding P xy(2) by simp
  qed
  have "\<bar>X\<bar> = X \<or> \<bar>X\<bar> = - X" "- \<bar>X\<bar> = X \<or> - \<bar>X\<bar> = - X" by auto
  then obtain s t where s: "corner_strip \<bar>X\<bar> (plSPitch pl) = Some s" "s \<le> smax"
      and t: "corner_strip (- \<bar>X\<bar>) (plSPitch pl) = Some t" "smin \<le> t"
    using both by meson
  have "\<lfloor>\<bar>X\<bar> / plSPitch pl\<rfloor> \<le> smax" using corner_strip_nonneg [OF s(1) assms(2)] s(2) by simp
  moreover have "smin \<le> - \<lfloor>\<bar>X\<bar> / plSPitch pl + 1/2\<rfloor>" using corner_strip_neg [OF t(1) assms(2)] t(2) by simp
  ultimately have "of_int (\<lfloor>\<bar>X\<bar> / plSPitch pl\<rfloor> + \<lfloor>\<bar>X\<bar> / plSPitch pl + 1/2\<rfloor> + 1) \<le> (of_int (plNStrips pl) :: real)"
    unfolding n of_int_le_iff by linarith
  then show ?thesis using hermite [of "\<bar>X\<bar> / plSPitch pl"] by linarith
qed

lemma strip_extent:
  assumes "set_strips pl0 = Some pl" "0 < plSPitch pl"
    and "\<bar>xc\<bar> \<le> bxDX (plBox pl) / 2" "\<bar>yc\<bar> \<le> bxDY (plBox pl) / 2"
  shows "2 * \<bar>plCBS pl * xc - plSBS pl * yc\<bar> < of_int (plNStrips pl) * plSPitch pl"
proof -
  let ?a = "plCBS pl * (bxDX (plBox pl) / 2)" and ?b = "plSBS pl * (bxDY (plBox pl) / 2)"
  have "\<bar>plCBS pl * xc\<bar> \<le> \<bar>?a\<bar>" "\<bar>plSBS pl * yc\<bar> \<le> \<bar>?b\<bar>"
    unfolding abs_mult using order_trans [OF assms(3) abs_ge_self] order_trans [OF assms(4) abs_ge_self]
    by (intro mult_left_mono; simp)+
  then have "\<bar>plCBS pl * xc - plSBS pl * yc\<bar> \<le> \<bar>?a\<bar> + \<bar>?b\<bar>" by linarith
  moreover have "\<bar>?a\<bar> + \<bar>?b\<bar> = \<bar>?a + 1 * ?b\<bar> \<or> \<bar>?a\<bar> + \<bar>?b\<bar> = \<bar>?a + -1 * ?b\<bar>" by linarith
  moreover have "2 * \<bar>?a + k * ?b\<bar> < of_int (plNStrips pl) * plSPitch pl" if "k = 1 \<or> k = -1" for k
    using set_strips_covers [OF assms(1,2) refl that] assms(2) by (simp add: field_simps)
  from this [of 1] this [of "-1"] calculation show ?thesis by auto
qed

lemma set_strips_begin:
  "set_strips pl0 = Some pl \<Longrightarrow> plSBeg pl = - of_int (plNStrips pl) * plSPitch pl * (1/2)"
  by (auto simp: set_strips_def Let_def bind_eq_Some_conv simp del: count_strips.simps)

lemma GetStripUnchecked_floor:
  assumes "0 < plSPitch pl" "0 \<le> (x - plSBeg pl) / plSPitch pl" "(x - plSBeg pl) / plSPitch pl < 2147483648"
  shows "GetStripUnchecked pl x = Some \<lfloor>(x - plSBeg pl) / plSPitch pl\<rfloor>"
  using assms by (simp add: GetStripUnchecked_def c_div_def to_int32_def Let_def floor_le_iff le_floor_iff)

lemma GetStrip_range:
  assumes "inverts minv" "ReadGeometryP minv db parent pl0 = Some (Inr pl)"
    and "0 < plSPitch pl" "plNStrips pl \<le> 2147483647"
  shows "if Contains (plBox pl) (vx (StripToPlane pl (Vec x y 0))) (vy (StripToPlane pl (Vec x y 0)))
    then \<exists>s. GetStrip pl x y = Some s \<and> 0 \<le> s \<and> s < plNStrips pl
           \<and> GetStripLowerEdge pl s \<le> x \<and> x < GetStripUpperEdge pl s
    else GetStrip pl x y = Some (-1)"
proof (cases "Contains (plBox pl) (vx (StripToPlane pl (Vec x y 0))) (vy (StripToPlane pl (Vec x y 0)))")
  case True
  let ?v = "StripToPlane pl (Vec x y 0)" and ?q = "(x - plSBeg pl) / plSPitch pl"
  obtain pl2 where st: "set_strips pl2 = Some pl" using ReadGeometryP_cases [OF assms(2)] by blast
  have ok: "plane_ok pl" using ReadGeometryP_ok [OF assms(1,2)] .
  have in_box: "\<bar>vx ?v\<bar> \<le> bxDX (plBox pl) / 2" "\<bar>vy ?v\<bar> \<le> bxDY (plBox pl) / 2"
    using True by (auto simp: Contains_def split: if_splits)
  have "x = vx (PlaneToStrip pl ?v)" using plane_strip.fwd_bwd [OF ok, of "Vec x y 0"] by simp
  then have x: "x = plCBS pl * vx ?v - plSBS pl * vy ?v" by (simp add: PlaneToStrip_def)
  have b: "2 * \<bar>x\<bar> < of_int (plNStrips pl) * plSPitch pl"
    using strip_extent [OF st assms(3) in_box] unfolding x [symmetric] .
  have beg: "plSBeg pl = - of_int (plNStrips pl) * plSPitch pl * (1/2)" using set_strips_begin [OF st] .
  have lo: "0 \<le> ?q" using b assms(3) unfolding beg by (intro divide_nonneg_pos) linarith+
  have hi: "?q < of_int (plNStrips pl)" using b assms(3) unfolding beg
    by (simp add: divide_less_eq)
  have "(of_int (plNStrips pl) :: real) \<le> 2147483647" using assms(4) by linarith
  with hi have "?q < 2147483648" by linarith
  then have u: "GetStripUnchecked pl x = Some \<lfloor>?q\<rfloor>" using GetStripUnchecked_floor assms(3) lo by blast
  have r: "0 \<le> \<lfloor>?q\<rfloor>" "\<lfloor>?q\<rfloor> < plNStrips pl" using lo hi by (simp_all add: floor_less_iff)
  have "of_int \<lfloor>?q\<rfloor> * plSPitch pl \<le> x - plSBeg pl" "x - plSBeg pl < (of_int \<lfloor>?q\<rfloor> + 1) * plSPitch pl"
    using floor_divide_lower [OF assms(3)] floor_divide_upper [OF assms(3)] by blast+
  then have "GetStripLowerEdge pl \<lfloor>?q\<rfloor> \<le> x" "x < GetStripUpperEdge pl \<lfloor>?q\<rfloor>"
    by (simp_all add: GetStripLowerEdge_def GetStripUpperEdge_def algebra_simps)
  then show ?thesis using True u r by (simp add: GetStrip_def Let_def)
qed (simp add: GetStrip_def)

text \<open>C14. The assert of GetStrip, "by construction in ReadGeometry()", holds for every strip
  angle, pitch and box size: on a plane set up by ReadGeometry GetStrip answers -1 exactly
  for points outside the box, and otherwise a strip of the plane between whose edges the
  point lies.\<close>

theorem GetStrip_in_range:
  assumes "inverts minv" "ReadGeometryP minv db parent pl0 = Some (Inr pl)"
    and "0 < plSPitch pl" "plNStrips pl \<le> 2147483647"
  shows "if Contains (plBox pl) (vx (StripToPlane pl (Vec x y 0))) (vy (StripToPlane pl (Vec x y 0)))
    then \<exists>s. GetStrip pl x y = Some s \<and> 0 \<le> s \<and> s < plNStrips pl
           \<and> GetStripLowerEdge pl s \<le> x \<and> x < GetStripUpperEdge pl s
    else GetStrip pl x y = Some (-1)"
  by (rule GetStrip_range [OF assms])

definition dbEx :: database where
  "dbEx keys = (0, (\<lambda>k. if k = ''dx'' then 1 else if k = ''dy'' then 1/2 else if k = ''pitch'' then 1/10 else 0))"

lemma planeEx:
  "\<exists>pl. ReadGeometryP cofactor_inv dbEx None (new_plane cofactor_inv) = Some (Inr pl)
     \<and> plSPitch pl = 1/10 \<and> plNStrips pl = 11 \<and> bxDX (plBox pl) = 1 \<and> bxDY (plBox pl) = 1/2
     \<and> plCBS pl = 1 \<and> plSBS pl = 0"
  by (simp add: ReadGeometryP_def plane_box_def dbEx_def SetRotationsP_def set_strips_def Let_def
      PlaneToStrip_def corner_strip_def c_div_def c_round_def to_int32_def trunc_int_def new_plane_def)

theorem GetStrip_in_range_witness:
  "\<exists>pl s. ReadGeometryP cofactor_inv dbEx None (new_plane cofactor_inv) = Some (Inr pl)
     \<and> GetStrip pl (1/4) 0 = Some s \<and> 0 \<le> s \<and> s < plNStrips pl"
proof -
  obtain pl where pl: "ReadGeometryP cofactor_inv dbEx None (new_plane cofactor_inv) = Some (Inr pl)"
     "plSPitch pl = 1/10" "plNStrips pl = 11" "bxDX (plBox pl) = 1" "bxDY (plBox pl) = 1/2"
     "plCBS pl = 1" "plSBS pl = 0" using planeEx by blast
  have "0 < plSPitch pl" "plNStrips pl \<le> 2147483647" using pl by simp_all
  from GetStrip_in_range [OF cofactor_inverts pl(1) this, of "1/4" 0] pl
  show ?thesis by (auto simp: Contains_def StripToPlane_def)
qed

lemma plane_frames_example:
  "\<exists>pl. ReadGeometryP cofactor_inv dbEx None (new_plane cofactor_inv) = Some (Inr pl)
     \<and> StripToLab pl (LabToStrip pl (Vec 1 2 3)) = Vec 1 2 3"
  using planeEx plane_frames [OF cofactor_inverts] by blast

text \<open>Every strip of a plane can be named by its centre: the strip number computed from the
  point half a pitch above a strip's lower edge is that strip.\<close>

lemma strip_centre_roundtrip:
  assumes "0 < plSPitch pl" "0 \<le> s" "s < plNStrips pl" "plNStrips pl \<le> 2147483647"
  shows "GetStripUnchecked pl (GetStripLowerEdge pl s + plSPitch pl / 2) = Some s
    \<and> GetStripInRange pl (GetStripLowerEdge pl s + plSPitch pl / 2) = Some s"
proof -
  let ?x = "GetStripLowerEdge pl s + plSPitch pl / 2"
  have q: "(?x - plSBeg pl) / plSPitch pl = of_int s + 1/2"
    using assms(1) by (simp add: GetStripLowerEdge_def field_simps)
  have "of_int s + 1/2 < (2147483648 :: real)" "0 \<le> of_int s + (1/2 :: real)" using assms by linarith+
  then have "GetStripUnchecked pl ?x = Some \<lfloor>of_int s + 1/2 :: real\<rfloor>"
    using GetStripUnchecked_floor [of pl ?x] assms(1) unfolding q by blast
  moreover have "\<lfloor>of_int s + 1/2 :: real\<rfloor> = s" by linarith
  ultimately show ?thesis using assms by (simp add: GetStripInRange_def)
qed

lemma strip_centre_roundtrip_example:
  "\<exists>pl :: plane. plNStrips pl = 11 \<and> GetStripInRange pl (GetStripLowerEdge pl 7 + plSPitch pl / 2) = Some 7"
proof -
  obtain pl :: plane where "plSPitch pl = 1/10" "plNStrips pl = 11" using planeEx by blast
  then show ?thesis using strip_centre_roundtrip [of pl 7] by auto
qed

section \<open>Chambers and the spectrometer\<close>

interpretation chamber_hall: frame_pair "\<lambda>ch. box_ok (chBox ch)" ch_HallCenterToPlane ch_PlaneToHallCenter
  by unfold_locales (simp_all add: ch_HallCenterToPlane_def ch_PlaneToHallCenter_def hall_box.bwd_fwd
      hall_box.fwd_bwd hall_box.fwd_dist)

interpretation chamber_spec: frame_pair "\<lambda>ch. box_ok (chBox ch)" ch_SpecToPlane ch_PlaneToSpec
  by unfold_locales (auto simp: ch_SpecToPlane_def ch_PlaneToSpec_def SpecToBox_def BoxToSpec_def
      vmag2_def vdot_def intro: vec3_eqI)

lemma ReadGeometryC_ok:
  "inverts minv \<Longrightarrow> ReadGeometryC minv be db ch = Inr ch' \<Longrightarrow> box_ok (chBox ch')"
  by (auto simp: ReadGeometryC_def SetGeometry_ok Let_def split: prod.splits if_splits)

lemma InitPlane_result:
  "InitPlane minv file nm ch = Some (Inr ch') \<Longrightarrow> \<exists>db pl. file nm = Some db
     \<and> ReadGeometryP minv db (Some ch) (new_plane minv) = Some (Inr pl)
     \<and> ch' = ch \<lparr> chPlanes := chPlanes ch @ [pl] \<rparr>"
  by (auto simp: InitPlane_def ReadDatabaseP_def split: option.splits sum.splits)

lemma plane_of_parent:
  assumes "ReadGeometryP minv db (Some ch) pl0 = Some (Inr pl)"
  shows "bxD0 (plBox pl) = bxD0 (chBox ch) \<and> bxXOffset (plBox pl) = bxXOffset (chBox ch)
    \<and> bxDX (plBox pl) = bxDX (chBox ch) \<and> bxDY (plBox pl) = bxDY (chBox ch)
    \<and> bxThetaV (plBox pl) = bxThetaV (chBox ch)"
  using ReadGeometryP_cases [OF assms] set_strips_keeps by (auto simp: plane_box_def)

lemma box_ok_LabToBox:
  assumes "box_ok b" "box_ok c" "bxD0 b = bxD0 c" "bxXOffset b = bxXOffset c" "bxThetaV b = bxThetaV c"
  shows "LabToBox b v = LabToBox c v"
  using assms by (simp add: LabToBox_def LabToSpec_def SpecToBox_def box_ok_def Let_def)

text \<open>A chamber read from the database has two planes, x and y, and both use the chamber's
  own frame: a lab point has the same plane coordinates in either of them as in the
  chamber.\<close>

lemma chamber_planes_share_frame:
  assumes "inverts minv" "ReadDatabaseC minv base_err file pfile ch0 = Some (Inr ch)"
  shows "\<exists>px py. chPlanes ch = [px, py]
    \<and> LabToPlane px v = ch_LabToPlane ch v \<and> LabToPlane py v = ch_LabToPlane ch v
    \<and> bxDX (plBox px) = bxDX (chBox ch) \<and> bxDY (plBox px) = bxDY (chBox ch)
    \<and> bxDX (plBox py) = bxDX (chBox ch) \<and> bxDY (plBox py) = bxDY (chBox ch)"
proof -
  obtain db c1 c2 where c: "ReadGeometryC minv base_err db ch0 = Inr c1"
      "InitPlane minv pfile ''x'' (c1 \<lparr> chPlanes := [] \<rparr>) = Some (Inr c2)"
      "InitPlane minv pfile ''y'' c2 = Some (Inr ch)"
    using assms(2) by (auto simp: ReadDatabaseC_def split: option.splits sum.splits)
  have k: "box_ok (chBox c1)" using ReadGeometryC_ok [OF assms(1) c(1)] .
  obtain px where x: "\<exists>dbx. ReadGeometryP minv dbx (Some (c1 \<lparr> chPlanes := [] \<rparr>)) (new_plane minv) = Some (Inr px)"
      "c2 = c1 \<lparr> chPlanes := [px] \<rparr>"
    using InitPlane_result [OF c(2)] by auto
  obtain py where y: "\<exists>dby. ReadGeometryP minv dby (Some c2) (new_plane minv) = Some (Inr py)"
      "ch = c2 \<lparr> chPlanes := chPlanes c2 @ [py] \<rparr>"
    using InitPlane_result [OF c(3)] by auto
  have b: "box_ok (plBox px)" "box_ok (plBox py)"
    using ReadGeometryP_ok [OF assms(1)] x(1) y(1) unfolding plane_ok_def by blast+
  have f: "bxD0 (plBox p) = bxD0 (chBox c1) \<and> bxXOffset (plBox p) = bxXOffset (chBox c1)
    \<and> bxDX (plBox p) = bxDX (chBox c1) \<and> bxDY (plBox p) = bxDY (chBox c1)
    \<and> bxThetaV (plBox p) = bxThetaV (chBox c1)" if "p = px \<or> p = py" for p
    using that x y plane_of_parent by auto
  have s: "LabToPlane p v = ch_LabToPlane ch v" if "p = px \<or> p = py" for p
    unfolding LabToPlane_def ch_LabToPlane_def using f [OF that] b k that x(2) y(2)
    by (intro box_ok_LabToBox) auto
  show ?thesis using s f x(2) y(2) by (intro exI [of _ px] exI [of _ py]) auto
qed

lemma chamber_planes_share_frame_example:
  "\<exists>ch px py. ReadDatabaseC cofactor_inv 0 (Some dbEx) (\<lambda>_. Some dbEx)
       \<lparr> chOrigin = 0, chSize = 0, chBox = TSBSBox cofactor_inv 1 1 0 1 1 0, chPlanes = [] \<rparr> = Some (Inr ch)
     \<and> chPlanes ch = [px, py] \<and> LabToPlane py (Vec 1 2 3) = ch_LabToPlane ch (Vec 1 2 3)"
proof -
  have r: "\<exists>pl. ReadGeometryP cofactor_inv dbEx (Some ch) (new_plane cofactor_inv) = Some (Inr pl)"
    if "bxDX (chBox ch) = 1" "bxDY (chBox ch) = 1/2" for ch
    using that by (simp add: ReadGeometryP_def plane_box_def dbEx_def SetRotationsP_def set_strips_def
        Let_def PlaneToStrip_def corner_strip_def c_div_def c_round_def to_int32_def trunc_int_def
        new_plane_def strip_keys_def)
  let ?c0 = "\<lparr> chOrigin = 0, chSize = 0, chBox = TSBSBox cofactor_inv 1 1 0 1 1 0, chPlanes = [] \<rparr>"
  obtain c1 where c1: "ReadGeometryC cofactor_inv 0 dbEx ?c0 = Inr c1" "bxDX (chBox c1) = 1" "bxDY (chBox c1) = 1/2"
    by (simp add: ReadGeometryC_def dbEx_def Let_def)
  obtain px where px: "ReadGeometryP cofactor_inv dbEx (Some (c1 \<lparr> chPlanes := [] \<rparr>)) (new_plane cofactor_inv) = Some (Inr px)"
    using r [of "c1 \<lparr> chPlanes := [] \<rparr>"] c1 by auto
  obtain py where py: "ReadGeometryP cofactor_inv dbEx (Some (c1 \<lparr> chPlanes := [px] \<rparr>)) (new_plane cofactor_inv) = Some (Inr py)"
    using r [of "c1 \<lparr> chPlanes := [px] \<rparr>"] c1 by auto
  have e: "ReadDatabaseC cofactor_inv 0 (Some dbEx) (\<lambda>_. Some dbEx) ?c0 = Some (Inr (c1 \<lparr> chPlanes := [px, py] \<rparr>))"
    using c1(1) px py by (simp add: ReadDatabaseC_def InitPlane_def ReadDatabaseP_def)
  from chamber_planes_share_frame [OF cofactor_inverts e, of "Vec 1 2 3"] e show ?thesis by blast
qed

end
