(* ===== verification/SimFile.thy ===== *)
theory SimFile
  imports SimEvent
begin

unbundle bit_operations_syntax

text \<open>
  The input file of simulated events, src/src/TSBSSimFile.cxx and .h: opening the ROOT
  file, its tree and its event branch, reading the events one by one, closing.  The disk
  is a parameter that gives for a file name what TFile and TTree make of it; reading an
  entry gives the number of bytes and the event read.
\<close>

section \<open>State\<close>

datatype rootfile = Zombie | NoTree | NoBranch | Tree "(int \<times> simevent) list"

datatype status = READ_OK | READ_EOF | READ_ERROR | READ_FATAL

record simfile =
  sfName :: string
  sfTree :: "(int \<times> simevent) list option"  \<comment> \<open>fTree and its data; None is the null pointer\<close>
  sfEvent :: "simevent option"
  sfNEntries :: nat
  sfEntry :: nat
  sfOpened :: bool

definition TSBSSimFile :: "string \<Rightarrow> simfile" where
  "TSBSSimFile filename =
     \<lparr> sfName = (if filename = [] then ''MCdata.root'' else filename), sfTree = None, sfEvent = None,
       sfNEntries = 0, sfEntry = 0, sfOpened = False \<rparr>"

section \<open>Operations\<close>

definition SetFileName :: "string \<Rightarrow> simfile \<Rightarrow> simfile" where
  "SetFileName name s = s \<lparr> sfName := name \<rparr>"

definition sf_Close :: "simfile \<Rightarrow> status \<times> simfile" where
  "sf_Close s = (READ_OK, s \<lparr> sfTree := None, sfEvent := None, sfOpened := False \<rparr>)"

definition sf_Open :: "(string \<Rightarrow> rootfile) \<Rightarrow> simfile \<Rightarrow> status \<times> simfile" where
  "sf_Open disk s = (case disk (sfName s) of
     Zombie \<Rightarrow> (READ_FATAL, snd (sf_Close s))
   | NoTree \<Rightarrow> (READ_FATAL, snd (sf_Close s))
   | NoBranch \<Rightarrow> (READ_FATAL, snd (sf_Close (s \<lparr> sfEvent := None \<rparr>)))
   | Tree es \<Rightarrow> (READ_OK, s \<lparr> sfTree := Some es, sfEvent := None, sfNEntries := length es,
                               sfEntry := 0, sfOpened := True \<rparr>))"

text \<open>\<open>fTree->GetEntry(i)\<close>: an entry that is not there gives 0 bytes; the event is filled only
  when bytes were read.\<close>

definition tree_GetEntry :: "(int \<times> simevent) list \<Rightarrow> nat \<Rightarrow> simevent option \<Rightarrow> int \<times> simevent option" where
  "tree_GetEntry es i ev = (case rd es i of None \<Rightarrow> (0, ev)
     | Some (bytes, e) \<Rightarrow> (bytes, if 0 < bytes then Some e else ev))"

text \<open>The second half of ReadEvent, on an open file.\<close>

definition sf_read_entry :: "simfile \<Rightarrow> (status \<times> simfile) option" where
  "sf_read_entry s = do {
     let s = s \<lparr> sfEvent := map_option (event_Clear False) (sfEvent s) \<rparr>;
     es \<leftarrow> sfTree s;
     let (bytes, ev) = tree_GetEntry es (sfEntry s) (sfEvent s);
     let s = s \<lparr> sfEvent := ev, sfEntry := sfEntry s + 1 \<rparr>;
     Some (if bytes = 0 then READ_EOF else if bytes < 0 then READ_ERROR else READ_OK, s) }"

definition sf_ReadEvent :: "(string \<Rightarrow> rootfile) \<Rightarrow> simfile \<Rightarrow> (status \<times> simfile) option" where
  "sf_ReadEvent disk s =
     (if sfNEntries s \<le> sfEntry s then Some (READ_EOF, s)
      else (let (ret, s) = (if \<not> sfOpened s then sf_Open disk s else (READ_OK, s)) in
        if ret \<noteq> READ_OK then Some (ret, s) else sf_read_entry s))"

definition GetEvBuffer :: "simfile \<Rightarrow> simevent option" where
  "GetEvBuffer s = (if \<not> sfOpened s then None else sfEvent s)"

text \<open>Assignment: the part of THaRunBase is assigned by the library, which decides whether
  the run counts as open (base\_opened).\<close>

definition sf_assign :: "bool \<Rightarrow> simfile \<Rightarrow> simfile \<Rightarrow> simfile" where
  "sf_assign base_opened rhs s = s \<lparr> sfName := sfName rhs, sfTree := None, sfEvent := None,
     sfNEntries := 0, sfEntry := 0, sfOpened := base_opened \<rparr>"

text \<open>Comparison of two such files: by run number (operator< of THaRunBase), then by name.\<close>

definition sf_Compare :: "int \<times> string \<Rightarrow> int \<times> string \<Rightarrow> (string \<Rightarrow> string \<Rightarrow> bool) \<Rightarrow> int" where
  "sf_Compare a b lt =
     (if fst a < fst b then -1 else if fst b < fst a then 1
      else if lt (snd a) (snd b) then -1 else if lt (snd b) (snd a) then 1 else 0)"

section \<open>The states a file goes through\<close>

inductive sf_step :: "(string \<Rightarrow> rootfile) \<Rightarrow> simfile \<Rightarrow> simfile \<Rightarrow> bool" for disk where
  step_open: "sf_step disk s (snd (sf_Open disk s))"
| step_close: "sf_step disk s (snd (sf_Close s))"
| step_read: "sf_ReadEvent disk s = Some (ret, t) \<Longrightarrow> sf_step disk s t"
| step_name: "sf_step disk s (SetFileName name s)"

inductive_cases sf_stepE: "sf_step disk s t"

definition sf_inv :: "simfile \<Rightarrow> bool" where
  "sf_inv s \<longleftrightarrow> (sfOpened s \<longrightarrow> (\<exists>es. sfTree s = Some es \<and> sfNEntries s = length es))"

lemma sf_inv_new [inv_intros]: "sf_inv (TSBSSimFile name)"
  by (simp add: sf_inv_def TSBSSimFile_def)

lemma sf_inv_open [inv_intros]: "sf_inv s \<Longrightarrow> sf_inv (snd (sf_Open disk s))"
  by (auto simp: sf_inv_def sf_Open_def sf_Close_def split: rootfile.splits)

lemma sf_open_ok: "sf_Open disk s = (READ_OK, t) \<Longrightarrow> \<exists>es. disk (sfName s) = Tree es
   \<and> sfTree t = Some es \<and> sfNEntries t = length es \<and> sfEntry t = 0 \<and> sfOpened t \<and> sfName t = sfName s"
  by (auto simp: sf_Open_def split: rootfile.splits)

lemma sf_read_defined:
  assumes "sf_inv s"
  shows "\<exists>ret t. sf_ReadEvent disk s = Some (ret, t)"
proof -
  obtain ret t where o: "(if \<not> sfOpened s then sf_Open disk s else (READ_OK, s)) = (ret, t)" by force
  have "\<exists>es. sfTree t = Some es" if "ret = READ_OK"
    using o that assms sf_open_ok [of disk s t] by (auto simp: sf_inv_def split: if_splits)
  then show ?thesis using o
    by (auto simp: sf_ReadEvent_def sf_read_entry_def Let_def split: prod.splits)
qed

lemma sf_inv_read [inv_intros]:
  assumes "sf_inv s" "sf_ReadEvent disk s = Some (ret, t)"
  shows "sf_inv t"
proof -
  obtain r u where o: "(if \<not> sfOpened s then sf_Open disk s else (READ_OK, s)) = (r, u)" by force
  have u: "sf_inv u" using o assms(1) sf_inv_open [of s disk] by (auto split: if_splits)
  have "sf_inv t" if e: "sf_read_entry u = Some (ret, t)"
  proof -
    obtain es where "sfTree u = Some es" using e by (auto simp: sf_read_entry_def bind_eq_Some_conv)
    with e u show ?thesis
      by (cases "tree_GetEntry es (sfEntry u) (map_option (event_Clear False) (sfEvent u))")
        (auto simp: sf_read_entry_def sf_inv_def)
  qed
  then show ?thesis using assms u o by (auto simp: sf_ReadEvent_def split: if_split_asm)
qed

lemma sf_reachable_inv: "(sf_step disk)\<^sup>*\<^sup>* (TSBSSimFile name) s \<Longrightarrow> sf_inv s"
proof (induction rule: rtranclp_induct)
  case (step s t)
  from step.hyps(2) show ?case
  proof (rule sf_stepE)
    assume "t = snd (sf_Open disk s)"
    then show ?thesis using sf_inv_open step.IH by blast
  next
    assume "t = snd (sf_Close s)"
    then show ?thesis by (simp add: sf_inv_def sf_Close_def)
  next
    fix ret assume "sf_ReadEvent disk s = Some (ret, t)"
    then show ?thesis using sf_inv_read step.IH by blast
  next
    fix name assume "t = SetFileName name s"
    then show ?thesis using step.IH by (simp add: sf_inv_def SetFileName_def)
  qed
qed (rule sf_inv_new)

text \<open>C38. In every state a file can get into, by any sequence of opening, closing, renaming and
  reading, ReadEvent is defined: it never dereferences a null tree, and a file that counts
  as open has the tree whose entries it counts.\<close>

theorem sf_reads_defined:
  assumes "(sf_step disk)\<^sup>*\<^sup>* (TSBSSimFile name) s"
  shows "sf_ReadEvent disk s \<noteq> None
    \<and> (sfOpened s \<longrightarrow> (\<exists>es. sfTree s = Some es \<and> sfNEntries s = length es))"
  using sf_reachable_inv [OF assms] sf_read_defined [of s disk] by (auto simp: sf_inv_def)

theorem sf_reads_defined_witness:
  "sf_ReadEvent (\<lambda>_. Tree [(1, simevent_new)]) (snd (sf_Open (\<lambda>_. Tree [(1, simevent_new)]) (TSBSSimFile ''f''))) \<noteq> None"
proof -
  let ?d = "\<lambda>_ :: string. Tree [(1, simevent_new)]"
  have "(sf_step ?d)\<^sup>*\<^sup>* (TSBSSimFile ''f'') (snd (sf_Open ?d (TSBSSimFile ''f'')))"
    by (intro r_into_rtranclp step_open)
  then show ?thesis using sf_reads_defined by blast
qed

section \<open>Reading a file from the beginning\<close>

text \<open>n calls of ReadEvent, with the status and the buffer after each.\<close>

fun sf_reads :: "(string \<Rightarrow> rootfile) \<Rightarrow> nat \<Rightarrow> simfile \<Rightarrow> (status \<times> simevent option) list option" where
  "sf_reads disk 0 s = Some []"
| "sf_reads disk (Suc n) s = do {
     (ret, t) \<leftarrow> sf_ReadEvent disk s;
     rs \<leftarrow> sf_reads disk n t;
     Some ((ret, GetEvBuffer t) # rs) }"

lemma sf_read_open:
  assumes "sfOpened s" "sfTree s = Some es" "sfNEntries s = length es" "sfEntry s < length es"
    and "es ! sfEntry s = (bytes, e)" "0 < bytes"
  shows "sf_ReadEvent disk s = Some (READ_OK, s \<lparr> sfEvent := Some e, sfEntry := sfEntry s + 1 \<rparr>)"
  using assms by (simp add: sf_ReadEvent_def sf_read_entry_def tree_GetEntry_def rd_def Let_def)

lemma sf_reads_eof:
  assumes "sfOpened s" "sfTree s = Some es" "sfNEntries s = length es" "sfEntry s = length es"
  shows "sf_reads disk n s = Some (replicate n (READ_EOF, sfEvent s))"
proof (induction n)
  case (Suc n)
  have "sf_ReadEvent disk s = Some (READ_EOF, s)" using assms by (simp add: sf_ReadEvent_def)
  with Suc assms(1,2) show ?case by (simp add: GetEvBuffer_def)
qed simp

lemma sf_reads_all:
  assumes "sfOpened s" "sfTree s = Some es" "sfNEntries s = length es" "sfEntry s \<le> length es"
    and "\<forall>(b, e) \<in> set es. 0 < b"
  shows "sf_reads disk (length es - sfEntry s + n) s =
    Some (List.map (\<lambda>k. (READ_OK, Some (snd (es ! k)))) [sfEntry s..<length es]
      @ replicate n (READ_EOF, if sfEntry s = length es then sfEvent s else Some (snd (last es))))"
  using assms
proof (induction "length es - sfEntry s" arbitrary: s)
  case 0
  then have "sfEntry s = length es" by linarith
  with sf_reads_eof [OF 0(2-4) this] show ?case by simp
next
  case (Suc m)
  have lt: "sfEntry s < length es" and m: "length es - Suc (sfEntry s) = m" using Suc.hyps(2) by simp_all
  obtain b e where be: "es ! sfEntry s = (b, e)" by force
  have "0 < b" using Suc.prems(5) be nth_mem [OF lt] by auto
  let ?t = "s \<lparr> sfEvent := Some e, sfEntry := sfEntry s + 1 \<rparr>"
  have r: "sf_ReadEvent disk s = Some (READ_OK, ?t)"
    using sf_read_open [OF Suc.prems(1-3) lt be \<open>0 < b\<close>] .
  have "m = length es - sfEntry ?t" "sfEntry ?t \<le> length es" using m lt by simp_all
  from Suc.hyps(1) [OF this(1) _ _ _ this(2) Suc.prems(5)] Suc.prems(1-3)
  have ih: "sf_reads disk (m + n) ?t = Some (List.map (\<lambda>k. (READ_OK, Some (snd (es ! k)))) [Suc (sfEntry s)..<length es]
      @ replicate n (READ_EOF, if Suc (sfEntry s) = length es then Some e else Some (snd (last es))))"
    by (simp add: m cong: if_cong split del: if_split)
  have l: "e = snd (last es)" if "Suc (sfEntry s) = length es"
  proof -
    have "es \<noteq> []" using lt by auto
    moreover have "length es - 1 = sfEntry s" using that by simp
    ultimately have "last es = es ! sfEntry s" using last_conv_nth [of es] by simp
    then show ?thesis using be by simp
  qed
  have u: "[sfEntry s..<length es] = sfEntry s # [Suc (sfEntry s)..<length es]" using lt by (simp add: upt_conv_Cons)
  have n: "length es - sfEntry s + n = Suc (m + n)" using lt m by simp
  have ne: "sfEntry s \<noteq> length es" using lt by simp
  have st: "sf_reads disk (Suc (m + n)) s = Some ((READ_OK, Some e) #
      List.map (\<lambda>k. (READ_OK, Some (snd (es ! k)))) [Suc (sfEntry s)..<length es]
      @ replicate n (READ_EOF, Some (snd (last es))))"
    using r ih l Suc.prems(1) by (cases "Suc (sfEntry s) = length es") (simp_all add: GetEvBuffer_def)
  show ?case unfolding n u st by (simp add: be ne)
qed

text \<open>C37. On a file with a tree whose entries are all readable (none of them empty), reading after
  Open delivers the events of the tree one by one, each once and in order; every further
  call of ReadEvent, however many there are, reports the end of the file and leaves the last event (or, of an
  empty tree, none) in the buffer.\<close>

theorem sf_delivers_events:
  assumes "disk (sfName s) = Tree es" "\<forall>(b, e) \<in> set es. 0 < b"
  shows "sf_reads disk (length es + n) (snd (sf_Open disk s)) =
    Some (List.map (\<lambda>(b, e). (READ_OK, Some e)) es
      @ replicate n (READ_EOF, if es = [] then None else Some (snd (last es))))"
proof -
  let ?t = "snd (sf_Open disk s)"
  have t: "sfOpened ?t" "sfTree ?t = Some es" "sfNEntries ?t = length es" "sfEntry ?t = 0" "sfEvent ?t = None"
    using assms(1) by (simp_all add: sf_Open_def)
  have "List.map (\<lambda>k. (READ_OK, Some (snd (es ! k)))) [0..<length es] = List.map (\<lambda>(b, e). (READ_OK, Some e)) es"
    by (rule nth_equalityI) (auto simp: case_prod_beta)
  with sf_reads_all [OF t(1-3) _ assms(2), of disk n] t(4,5) show ?thesis by (cases "es = []") simp_all
qed

theorem sf_delivers_events_witness:
  "sf_reads (\<lambda>_. Tree [(8, simevent_new)]) 3 (snd (sf_Open (\<lambda>_. Tree [(8, simevent_new)]) (TSBSSimFile ''f'')))
    = Some [(READ_OK, Some simevent_new), (READ_EOF, Some simevent_new), (READ_EOF, Some simevent_new)]"
  using sf_delivers_events [of "\<lambda>_. Tree [(8, simevent_new)]" "TSBSSimFile ''f''" "[(8, simevent_new)]" 2]
  by (simp add: numeral_eq_Suc)

text \<open>ReadEvent on a file that was never opened does not open it: the comparison of entry
  and number of entries, both still 0, comes first, and the answer is end of file whatever
  is on the disk.\<close>

lemma sf_unopened_is_eof:
  "sf_ReadEvent disk (TSBSSimFile name) = Some (READ_EOF, TSBSSimFile name)"
  by (simp add: sf_ReadEvent_def TSBSSimFile_def)

section \<open>Initialization\<close>

text \<open>basename of POSIX: the last component of the path, slashes at its end left out; a path of slashes only is
  the root, an empty path the current directory.\<close>

definition basename :: "string \<Rightarrow> string" where
  "basename path = (if path = [] then ''.''
     else (let p = rev (dropWhile (\<lambda>c. c = CHR ''/'') (rev path)) in
       if p = [] then ''/'' else rev (takeWhile (\<lambda>c. c \<noteq> CHR ''/'') (rev p))))"

text \<open>What THaRunBase holds of the run: date, whether it is assumed, the bits of the data set, name and number.\<close>

record runbase =
  rbDate :: "int \<times> int \<times> int"
  rbAssumeDate :: bool
  rbDataSet :: "32 word"
  rbName :: string
  rbNumber :: int

text \<open>Init; the initialization of the framework and its bit kDate are given.\<close>

definition sf_Init :: "32 word \<Rightarrow> (runbase \<Rightarrow> int \<times> runbase) \<Rightarrow> simfile \<Rightarrow> runbase \<Rightarrow> int \<times> runbase" where
  "sf_Init kDate base_Init s b =
     (let b = b \<lparr> rbDate := (2012, 1, 1), rbAssumeDate := True, rbDataSet := rbDataSet b OR kDate \<rparr>;
          (ret, b) = base_Init b
      in if ret = 0 then (ret, b \<lparr> rbName := basename (sfName s), rbNumber := 1 \<rparr>) else (ret, b))"

lemma basename_plain:
  assumes "CHR ''/'' \<notin> set f" "f \<noteq> []"
  shows "basename (dir @ ''/'' @ f) = f" "basename f = f"
proof -
  have hd: "rev f \<noteq> []" "hd (rev f) \<noteq> CHR ''/''" using assms by (auto simp: hd_rev dest: last_in_set)
  have d: "dropWhile (\<lambda>c. c = CHR ''/'') (rev f @ xs) = rev f @ xs" for xs
    using hd by (cases "rev f") auto
  have m: "\<forall>x \<in> set (rev f). x \<noteq> CHR ''/''" using assms(1) by auto
  have t: "takeWhile (\<lambda>c. c \<noteq> CHR ''/'') (rev f @ CHR ''/'' # xs) = rev f" for xs
    using m by (subst takeWhile_append2) simp_all
  have t0: "takeWhile (\<lambda>c. c \<noteq> CHR ''/'') (rev f) = rev f"
    using m by (simp only: takeWhile_eq_all_conv)
  show "basename (dir @ ''/'' @ f) = f" using assms(2) d [of "CHR ''/'' # rev dir"] t by (simp add: basename_def Let_def)
  show "basename f = f" using assms(2) d [of "[]"] by (simp add: basename_def Let_def t0)
qed

text \<open>A successful Init names the run after its file, without the directory, whatever the framework did.\<close>

lemma sf_Init_name:
  assumes "sf_Init kDate base_Init s b = (0, b')" "sfName s = dir @ ''/'' @ f" "CHR ''/'' \<notin> set f" "f \<noteq> []"
  shows "rbName b' = f" "rbNumber b' = 1"
  using assms(1) unfolding sf_Init_def assms(2) basename_plain(1) [OF assms(3,4)]
  by (auto simp: Let_def split: prod.splits if_splits)

end
