(* ===== verification/DigitizedPlane.thy ===== *)
theory DigitizedPlane
  imports HitData
begin

text \<open>
  TSBSDigitizedPlane, src/src/TSBSSimGEMDigitization.h and .cxx: the strips of one readout
  plane, on which the signals of all hits of an event are summed, with the list of strips
  over threshold.  Counters and ADC sums (Int\_t fTotADC, fStripADC) are integers without bound, and so are the cluster
  numbers, whose callers narrow them to Short\_t.  The list of strips over threshold is of natural numbers, in the
  source of Short\_t: the two agree on planes of at most 32767 strips, which the invariant asks for.
\<close>

section \<open>State\<close>

text \<open>fStripClusterADC is an array of exactly six vectors, whatever the number of samples.
  dpOver holds the first fNOT elements of fOverThr.\<close>

record dplane =
  dpNSamples :: nat
  dpNStrips :: nat
  dpThreshold :: int
  dpStripADC :: "int list"
  dpType :: "int list"
  dpTotADC :: "int list"
  dpCharge :: "real list"
  dpTime :: "real list"
  dpOver :: "nat list"
  dpStripClusters :: "int list list"
  dpStripWeight :: "real option list list"
  dpClusterADC :: "int list list list"

definition kInducedStrip :: nat where "kInducedStrip = 2"

definition dp_Clear :: "dplane \<Rightarrow> dplane" where
  "dp_Clear p = p \<lparr> dpStripADC := replicate (dpNSamples p * dpNStrips p) 0,
     dpType := replicate (dpNStrips p) 0, dpTotADC := replicate (dpNStrips p) 0,
     dpCharge := replicate (dpNStrips p) 0, dpTime := replicate (dpNStrips p) 9999,
     dpStripClusters := replicate (dpNStrips p) [], dpStripWeight := replicate (dpNStrips p) [],
     dpClusterADC := replicate 6 (replicate (dpNStrips p) []), dpOver := [] \<rparr>"

text \<open>The loop over the samples resizes \<open>fStripClusterADC[i]\<close>, which must be below 6.\<close>

definition TSBSDigitizedPlane :: "nat \<Rightarrow> nat \<Rightarrow> int \<Rightarrow> dplane option" where
  "TSBSDigitizedPlane nstrip nsample threshold =
     (if 6 < nsample then None
      else Some (dp_Clear \<lparr> dpNSamples = nsample, dpNStrips = nstrip, dpThreshold = threshold,
        dpStripADC = [], dpType = [], dpTotADC = [], dpCharge = [], dpTime = [], dpOver = [],
        dpStripClusters = [], dpStripWeight = [], dpClusterADC = [] \<rparr>))"

section \<open>Cumulating a hit\<close>

text \<open>A strip that just went over threshold is appended to the list.\<close>

definition note_over :: "bool \<Rightarrow> nat \<Rightarrow> dplane \<Rightarrow> dplane option" where
  "note_over was_below idx p = do {
     tot \<leftarrow> rd (dpTotADC p) idx;
     if was_below \<and> dpThreshold p < tot then
       (if length (dpOver p) < dpNStrips p then Some (p \<lparr> dpOver := dpOver p @ [idx] \<rparr>) else None)
     else Some p }"

definition add_adc :: "nat \<Rightarrow> nat \<Rightarrow> int \<Rightarrow> dplane \<Rightarrow> dplane option" where
  "add_adc idx k nnn p = do {
     let iadc = idx * dpNSamples p + k;
     a \<leftarrow> rd (dpStripADC p) iadc;
     t \<leftarrow> rd (dpTotADC p) idx;
     Some (p \<lparr> dpStripADC := (dpStripADC p)[iadc := a + nnn], dpTotADC := (dpTotADC p)[idx := t + nnn] \<rparr>) }"

definition push_at :: "nat \<Rightarrow> 'a \<Rightarrow> 'a list list \<Rightarrow> 'a list list option" where
  "push_at i x xss = do { xs \<leftarrow> rd xss i; Some (xss[i := xs @ [x]]) }"

fun cum_samples :: "gemhit \<Rightarrow> nat \<Rightarrow> nat \<Rightarrow> nat \<Rightarrow> nat \<Rightarrow> dplane \<times> int \<Rightarrow> (dplane \<times> int) option" where
  "cum_samples v j idx k 0 (p, tempSumADC) = Some (p, tempSumADC)"
| "cum_samples v j idx k (Suc n) (p, tempSumADC) = do {
     nnn \<leftarrow> GetADC j k v;
     cl \<leftarrow> rd (dpClusterADC p) k;
     cl \<leftarrow> push_at idx nnn cl;
     let p = p \<lparr> dpClusterADC := (dpClusterADC p)[k := cl] \<rparr>;
     if nnn < 0 then None
     else if nnn = 0 then cum_samples v j idx (k + 1) n (p, tempSumADC)
     else do {
       p \<leftarrow> add_adc idx k nnn p;
       cum_samples v j idx (k + 1) n (p, tempSumADC + nnn) } }"

definition cum_strip :: "gemhit \<Rightarrow> int \<Rightarrow> int \<Rightarrow> nat \<Rightarrow> dplane \<Rightarrow> dplane option" where
  "cum_strip v ty clusterID j p = do {
     i \<leftarrow> GetIdx j v;
     if \<not> (0 \<le> i \<and> i < int (dpNStrips p)) then None
     else do {
       let idx = nat i;
       ch \<leftarrow> GetCharge j v;
       let t = dpTime p ! idx;
       let p = p \<lparr> dpType := (dpType p)[idx := or (dpType p ! idx) ty],
                   dpTime := (dpTime p)[idx := (if t < gh_time v then t else gh_time v)],
                   dpCharge := (dpCharge p)[idx := dpCharge p ! idx + ch] \<rparr>;
       let was_below = (\<not> dpThreshold p < dpTotADC p ! idx);
       (p, tempSumADC) \<leftarrow> cum_samples v j idx 0 (dpNSamples p) (p, 0);
       p \<leftarrow> note_over was_below idx p;
       w \<leftarrow> push_at idx (c_div (of_int tempSumADC) (of_int (gh_total v))) (dpStripWeight p);
       c \<leftarrow> push_at idx clusterID (dpStripClusters p);
       Some (p \<lparr> dpStripWeight := w, dpStripClusters := c \<rparr>) } }"

fun cum_strips :: "gemhit \<Rightarrow> int \<Rightarrow> int \<Rightarrow> nat \<Rightarrow> nat \<Rightarrow> dplane \<Rightarrow> dplane option" where
  "cum_strips v ty clusterID j 0 p = Some p"
| "cum_strips v ty clusterID j (Suc n) p = do {
     p \<leftarrow> cum_strip v ty clusterID j p;
     cum_strips v ty clusterID (j + 1) n p }"

text \<open>Cross talk: every strip of the hit induces, fNCStripApart strips to the left or to the
  right, its samples times the factor, truncated.\<close>

fun xt_samples :: "real \<Rightarrow> gemhit \<Rightarrow> nat \<Rightarrow> nat \<Rightarrow> nat \<Rightarrow> nat \<Rightarrow> dplane \<Rightarrow> dplane option" where
  "xt_samples factor v j idx k 0 p = Some p"
| "xt_samples factor v j idx k (Suc n) p = do {
     nnn \<leftarrow> GetADC j k v;
     if nnn < 0 then None
     else do {
       nnn \<leftarrow> to_int32 (of_int nnn * factor);
       if nnn = 0 then xt_samples factor v j idx (k + 1) n p
       else do { p \<leftarrow> add_adc idx k nnn p; xt_samples factor v j idx (k + 1) n p } } }"

definition xt_strip :: "int \<Rightarrow> int \<Rightarrow> real \<Rightarrow> gemhit \<Rightarrow> nat \<Rightarrow> dplane \<Rightarrow> dplane option" where
  "xt_strip isLeft apart factor v j p = do {
     i \<leftarrow> GetIdx j v;
     if \<not> (0 \<le> i \<and> i < int (dpNStrips p)) then None
     else (let idxInduce = i + isLeft * apart in
       if idxInduce < 0 \<or> int (dpNStrips p) \<le> idxInduce then Some p
       else do {
         let ii = nat idxInduce;
         ch \<leftarrow> GetCharge j v;
         let t = dpTime p ! nat i;
         let p = p \<lparr> dpType := (dpType p)[ii := set_bit kInducedStrip (dpType p ! ii)],
                     dpTime := (dpTime p)[ii := (if t < gh_time v then t else gh_time v)],
                     dpCharge := (dpCharge p)[ii := dpCharge p ! ii + factor * ch] \<rparr>;
         let was_below = (\<not> dpThreshold p < dpTotADC p ! ii);
         p \<leftarrow> xt_samples factor v j ii 0 (dpNSamples p) p;
         note_over was_below ii p }) }"

fun xt_strips :: "int \<Rightarrow> int \<Rightarrow> real \<Rightarrow> gemhit \<Rightarrow> nat \<Rightarrow> nat \<Rightarrow> dplane \<Rightarrow> dplane option" where
  "xt_strips isLeft apart factor v j 0 p = Some p"
| "xt_strips isLeft apart factor v j (Suc n) p = do {
     p \<leftarrow> xt_strip isLeft apart factor v j p;
     xt_strips isLeft apart factor v (j + 1) n p }"

text \<open>The cross-talk settings and the two random numbers of the call: isLeft from
  fRan.Uniform, noise from fRan.Gaus.\<close>

record xtalk =
  xtDo :: bool
  xtApart :: int
  xtFactor :: real
  xtIsLeft :: int
  xtNoise :: real

definition Cumulate :: "xtalk \<Rightarrow> gemhit option \<Rightarrow> int \<Rightarrow> int \<Rightarrow> dplane \<Rightarrow> dplane option" where
  "Cumulate x vv ty clusterID p = (case vv of None \<Rightarrow> Some p
   | Some v \<Rightarrow> do {
       p \<leftarrow> cum_strips v ty clusterID 0 (gh_size v) p;
       if \<not> xtDo x then Some p
       else (let factor = xtFactor x + xtNoise x in
         if factor \<le> 0 then Some p
         else xt_strips (xtIsLeft x) (xtApart x) factor v 0 (gh_size v) p) })"

section \<open>Threshold\<close>

fun scan_threshold :: "int \<Rightarrow> nat \<Rightarrow> int list \<Rightarrow> nat list \<Rightarrow> nat list" where
  "scan_threshold thr j [] acc = acc"
| "scan_threshold thr j (t # ts) acc =
     scan_threshold thr (j + 1) ts (if thr < t then acc @ [j] else acc)"

definition Threshold :: "int \<Rightarrow> dplane \<Rightarrow> nat \<times> dplane" where
  "Threshold thr p =
     (let over = scan_threshold thr 0 (dpTotADC p) [] in
      (length over, p \<lparr> dpThreshold := thr, dpOver := over \<rparr>))"

section \<open>Access\<close>

definition dp_GetADC :: "dplane \<Rightarrow> nat \<Rightarrow> nat \<Rightarrow> int option" where
  "dp_GetADC p n ks = rd (dpStripADC p) (n * dpNSamples p + ks)"
definition dp_GetTotADC :: "dplane \<Rightarrow> nat \<Rightarrow> int option" where
  "dp_GetTotADC p n = rd (dpTotADC p) n"
definition dp_GetType :: "dplane \<Rightarrow> nat \<Rightarrow> int option" where
  "dp_GetType p n = rd (dpType p) n"
definition dp_GetTime :: "dplane \<Rightarrow> nat \<Rightarrow> real option" where
  "dp_GetTime p n = rd (dpTime p) n"
definition dp_GetCharge :: "dplane \<Rightarrow> nat \<Rightarrow> real option" where
  "dp_GetCharge p n = rd (dpCharge p) n"
definition GetNOverThr :: "dplane \<Rightarrow> nat" where
  "GetNOverThr p = length (dpOver p)"
definition GetIdxOverThr :: "dplane \<Rightarrow> nat \<Rightarrow> nat option" where
  "GetIdxOverThr p n = rd (dpOver p) n"

section \<open>Invariant\<close>

definition adc_at :: "dplane \<Rightarrow> nat \<Rightarrow> nat \<Rightarrow> int" where
  "adc_at p i k = dpStripADC p ! (i * dpNSamples p + k)"

text \<open>The shape: every array has its length, and the ADC sum of a strip is the sum of its
  samples.\<close>

definition dp_shape :: "dplane \<Rightarrow> bool" where
  "dp_shape p \<longleftrightarrow> dpNSamples p \<le> 6 \<and> dpNStrips p \<le> 32767 \<and> length (dpStripADC p) = dpNSamples p * dpNStrips p
     \<and> length (dpType p) = dpNStrips p \<and> length (dpTotADC p) = dpNStrips p
     \<and> length (dpCharge p) = dpNStrips p \<and> length (dpTime p) = dpNStrips p
     \<and> length (dpStripClusters p) = dpNStrips p \<and> length (dpStripWeight p) = dpNStrips p
     \<and> length (dpClusterADC p) = 6 \<and> (\<forall>c \<in> set (dpClusterADC p). length c = dpNStrips p)
     \<and> (\<forall>i < dpNStrips p. dpTotADC p ! i = (\<Sum>k < dpNSamples p. adc_at p i k))"

text \<open>The list of strips over threshold is complete and without repetition, apart from the
  strips of the set I, which are being changed.\<close>

definition over_ok :: "nat set \<Rightarrow> dplane \<Rightarrow> bool" where
  "over_ok I p \<longleftrightarrow> distinct (dpOver p) \<and> set (dpOver p) \<subseteq> {..<dpNStrips p}
     \<and> (\<forall>i < dpNStrips p. i \<notin> I \<longrightarrow> (i \<in> set (dpOver p) \<longleftrightarrow> dpThreshold p < dpTotADC p ! i))"

definition dp_inv :: "dplane \<Rightarrow> bool" where
  "dp_inv p \<longleftrightarrow> dp_shape p \<and> over_ok {} p"

text \<open>A hit the plane can take.\<close>

definition hit_fits :: "gemhit \<Rightarrow> dplane \<Rightarrow> bool" where
  "hit_fits v p \<longleftrightarrow> gh_inv v \<and> gh_nsample v = dpNSamples p
     \<and> (\<forall>j < gh_size v. 0 \<le> gh_idx v ! j \<and> gh_idx v ! j < int (dpNStrips p)
          \<and> (\<forall>k < gh_nsample v. 0 \<le> gh_adc v ! (j * gh_nsample v + k)))"

definition hit_adc :: "gemhit \<Rightarrow> nat \<Rightarrow> nat \<Rightarrow> int" where
  "hit_adc v j k = gh_adc v ! (j * gh_nsample v + k)"

lemma hit_fits_same:
  "hit_fits v p \<Longrightarrow> dpNSamples q = dpNSamples p \<Longrightarrow> dpNStrips q = dpNStrips p \<Longrightarrow> hit_fits v q"
  by (auto simp: hit_fits_def)

lemma hit_fits_read:
  assumes "hit_fits v p" "j < gh_size v"
  shows "GetIdx j v = Some (gh_idx v ! j)" "0 \<le> gh_idx v ! j" "gh_idx v ! j < int (dpNStrips p)"
    "GetCharge j v = Some (gh_charge v ! j)"
    "k < dpNSamples p \<Longrightarrow> GetADC j k v = Some (hit_adc v j k)"
    "k < dpNSamples p \<Longrightarrow> 0 \<le> hit_adc v j k"
  using assms sample_index [of j "gh_size v" k "gh_nsample v"]
  by (auto simp: hit_fits_def gh_inv_def GetIdx_def GetCharge_def GetADC_def hit_adc_def rd_def)

section \<open>Adding one sample\<close>

lemma add_adc_ok:
  assumes "dp_shape p" "i < dpNStrips p" "k < dpNSamples p"
  shows "\<exists>A T. add_adc i k x p = Some (p \<lparr> dpStripADC := A, dpTotADC := T \<rparr>)
    \<and> dp_shape (p \<lparr> dpStripADC := A, dpTotADC := T \<rparr>)
    \<and> (\<forall>i' k'. i' < dpNStrips p \<longrightarrow> k' < dpNSamples p \<longrightarrow>
         A ! (i' * dpNSamples p + k') = adc_at p i' k' + (if i' = i \<and> k' = k then x else 0))
    \<and> T = (dpTotADC p)[i := dpTotADC p ! i + x]"
proof -
  let ?S = "dpNSamples p"
  let ?A = "(dpStripADC p)[i * ?S + k := dpStripADC p ! (i * ?S + k) + x]"
  let ?T = "(dpTotADC p)[i := dpTotADC p ! i + x]"
  have len: "length (dpStripADC p) = ?S * dpNStrips p" "length (dpTotADC p) = dpNStrips p"
    using assms(1) by (auto simp: dp_shape_def)
  have idx: "i * ?S + k < ?S * dpNStrips p" using sample_index [OF assms(2,3)] .
  have A: "?A ! (i' * ?S + k') = adc_at p i' k' + (if i' = i \<and> k' = k then x else 0)"
    if "i' < dpNStrips p" "k' < ?S" for i' k'
    using idx len sample_index_inj [OF assms(3) that(2), of i i'] sample_index [OF that]
    by (auto simp: adc_at_def nth_list_update)
  have T: "?T ! i' = (\<Sum>k' < ?S. ?A ! (i' * ?S + k'))" if "i' < dpNStrips p" for i'
  proof -
    have "(\<Sum>k' < ?S. ?A ! (i' * ?S + k')) =
        (\<Sum>k' < ?S. adc_at p i' k' + (if i' = i \<and> k' = k then x else 0))"
      by (intro sum.cong refl A that) simp
    also have "\<dots> = dpTotADC p ! i' + (if i' = i then x else 0)"
      using assms that by (auto simp: dp_shape_def sum.distrib)
    finally show ?thesis using that len by (simp add: nth_list_update)
  qed
  have "add_adc i k x p = Some (p \<lparr> dpStripADC := ?A, dpTotADC := ?T \<rparr>)"
    using idx len assms(2) by (simp add: add_adc_def rd_def Let_def)
  moreover have "dp_shape (p \<lparr> dpStripADC := ?A, dpTotADC := ?T \<rparr>)"
    using assms(1) T by (simp add: dp_shape_def adc_at_def)
  ultimately show ?thesis using A by (intro exI [of _ ?A] exI [of _ ?T]) simp
qed

lemma push_at_ok: "i < length xss \<Longrightarrow> push_at i x xss = Some (xss[i := xss ! i @ [x]])"
  by (simp add: push_at_def rd_def)

lemma dp_shape_cluster:
  assumes "dp_shape p" "k < dpNSamples p" "length c = dpNStrips p"
  shows "dp_shape (p \<lparr> dpClusterADC := (dpClusterADC p)[k := c] \<rparr>)"
  using assms set_update_subset_insert [of "dpClusterADC p" k c]
  by (auto simp: dp_shape_def adc_at_def)

text \<open>What the sample loop does to the plane: samples k to k + n - 1 of strip idx are
  incremented by the values g; nothing but the ADC values changes.\<close>

definition same_but_adc :: "dplane \<Rightarrow> dplane \<Rightarrow> bool" where
  "same_but_adc p q \<longleftrightarrow> p \<lparr> dpStripADC := [], dpTotADC := [], dpClusterADC := [] \<rparr>
     = q \<lparr> dpStripADC := [], dpTotADC := [], dpClusterADC := [] \<rparr>"

lemma same_but_adc_fields:
  assumes "same_but_adc p q"
  shows "dpNStrips q = dpNStrips p" "dpNSamples q = dpNSamples p" "dpThreshold q = dpThreshold p"
    "dpOver q = dpOver p" "dpType q = dpType p" "dpCharge q = dpCharge p" "dpTime q = dpTime p"
    "dpStripClusters q = dpStripClusters p" "dpStripWeight q = dpStripWeight p"
  using assms by (cases p; cases q; simp add: same_but_adc_def)+

definition samples_added ::
  "nat \<Rightarrow> nat \<Rightarrow> nat \<Rightarrow> (nat \<Rightarrow> int) \<Rightarrow> dplane \<Rightarrow> dplane \<Rightarrow> bool" where
  "samples_added idx k n g p q \<longleftrightarrow> same_but_adc p q
     \<and> (\<forall>i' k'. i' < dpNStrips p \<longrightarrow> k' < dpNSamples p \<longrightarrow>
          adc_at q i' k' = adc_at p i' k' + (if i' = idx \<and> k \<le> k' \<and> k' < k + n then g k' else 0))"

lemmas samples_added_fields = same_but_adc_fields [OF conjunct1 [OF samples_added_def [THEN iffD1]]]

lemma samples_added_0: "samples_added idx k 0 g p p"
  by (auto simp: samples_added_def same_but_adc_def)

lemma samples_added_Suc:
  assumes "samples_added idx k 1 g p q" "samples_added idx (k + 1) n g q r"
  shows "samples_added idx k (Suc n) g p r"
proof -
  note n = samples_added_fields [OF assms(1)]
  have "adc_at r i' k' = adc_at p i' k' + (if i' = idx \<and> k \<le> k' \<and> k' < k + Suc n then g k' else 0)"
    if "i' < dpNStrips p" "k' < dpNSamples p" for i' k'
  proof -
    have "adc_at q i' k' = adc_at p i' k' + (if i' = idx \<and> k \<le> k' \<and> k' < k + 1 then g k' else 0)"
      using assms(1) that unfolding samples_added_def by blast
    moreover have "adc_at r i' k' = adc_at q i' k' + (if i' = idx \<and> k + 1 \<le> k' \<and> k' < k + 1 + n then g k' else 0)"
      using assms(2) that n unfolding samples_added_def by simp
    ultimately show ?thesis by (auto split: if_splits)
  qed
  then show ?thesis using assms by (auto simp: samples_added_def same_but_adc_def)
qed

lemma samples_added_tot:
  assumes "samples_added idx 0 (dpNSamples p) g p q" "dp_shape p" "dp_shape q" "i < dpNStrips p"
  shows "dpTotADC q ! i = dpTotADC p ! i + (if i = idx then (\<Sum>k < dpNSamples p. g k) else 0)"
proof -
  note n = samples_added_fields [OF assms(1)]
  have "dpTotADC q ! i = (\<Sum>k < dpNSamples p. adc_at q i k)"
    using assms(3,4) n by (simp add: dp_shape_def)
  also have "\<dots> = (\<Sum>k < dpNSamples p. adc_at p i k + (if i = idx then g k else 0))"
    using assms(1,4) by (intro sum.cong refl) (auto simp: samples_added_def)
  also have "\<dots> = dpTotADC p ! i + (if i = idx then (\<Sum>k < dpNSamples p. g k) else 0)"
    using assms(2,4) by (simp add: dp_shape_def sum.distrib)
  finally show ?thesis .
qed

lemma add_adc_added:
  assumes "dp_shape p" "i < dpNStrips p" "k < dpNSamples p"
  shows "\<exists>q. add_adc i k (g k) p = Some q \<and> dp_shape q \<and> samples_added i k 1 g p q
    \<and> dpClusterADC q = dpClusterADC p"
proof -
  obtain A T where a: "add_adc i k (g k) p = Some (p \<lparr> dpStripADC := A, dpTotADC := T \<rparr>)"
      "dp_shape (p \<lparr> dpStripADC := A, dpTotADC := T \<rparr>)"
      "\<forall>i' k'. i' < dpNStrips p \<longrightarrow> k' < dpNSamples p \<longrightarrow>
         A ! (i' * dpNSamples p + k') = adc_at p i' k' + (if i' = i \<and> k' = k then g k else 0)"
    using add_adc_ok [OF assms, of "g k"] by blast
  have "samples_added i k 1 g p (p \<lparr> dpStripADC := A, dpTotADC := T \<rparr>)"
    using a(3) unfolding samples_added_def by (auto simp: adc_at_def same_but_adc_def)
  then show ?thesis using a by simp
qed

lemma samples_added_none:
  assumes "g k = 0" shows "samples_added i k 1 g p p"
proof -
  have "k \<le> k' \<and> k' < k + 1 \<longleftrightarrow> k' = k" for k' by auto
  then show ?thesis using assms unfolding samples_added_def by (auto simp: same_but_adc_def)
qed

lemma samples_added_cluster:
  "samples_added i k n g (p \<lparr> dpClusterADC := C \<rparr>) q \<Longrightarrow> samples_added i k n g p q"
  by (simp add: samples_added_def adc_at_def same_but_adc_def)

lemma cum_samples_ok:
  assumes "hit_fits v p" "j < gh_size v" "dp_shape p" "idx < dpNStrips p" "k + n = dpNSamples p"
  shows "\<exists>q. cum_samples v j idx k n (p, s) = Some (q, s + (\<Sum>k' \<in> {k..<k + n}. hit_adc v j k'))
    \<and> dp_shape q \<and> samples_added idx k n (hit_adc v j) p q
    \<and> (\<forall>k' i'. k' < dpNSamples p \<longrightarrow> i' < dpNStrips p \<longrightarrow> dpClusterADC q ! k' ! i' =
         dpClusterADC p ! k' ! i' @ (if i' = idx \<and> k \<le> k' then [hit_adc v j k'] else []))"
  using assms
proof (induction n arbitrary: p k s)
  case 0
  then show ?case using samples_added_0 by auto
next
  case (Suc n)
  note read = hit_fits_read [OF Suc.prems(1,2)]
  let ?x = "hit_adc v j k"
  have k: "k < dpNSamples p" "k < 6" using Suc.prems(3,5) by (auto simp: dp_shape_def)
  have len: "length (dpClusterADC p) = 6" "length (dpClusterADC p ! k) = dpNStrips p"
    using Suc.prems(3) k by (auto simp: dp_shape_def)
  let ?c = "(dpClusterADC p ! k)[idx := dpClusterADC p ! k ! idx @ [?x]]"
  let ?p = "p \<lparr> dpClusterADC := (dpClusterADC p)[k := ?c] \<rparr>"
  have sh: "dp_shape ?p" using dp_shape_cluster [OF Suc.prems(3) k(1)] len by simp
  obtain q where q: "(if ?x = 0 then Some ?p else add_adc idx k ?x ?p) = Some q" "dp_shape q"
      "samples_added idx k 1 (hit_adc v j) ?p q" "dpClusterADC q = dpClusterADC ?p"
  proof (cases "?x = 0")
    case True
    then show thesis using that [of ?p] sh samples_added_none [of "hit_adc v j" k idx ?p] by simp
  next
    case False
    then show thesis using that add_adc_added [OF sh, of idx k "hit_adc v j"] Suc.prems(4) k(1) by auto
  qed
  have n: "dpNStrips q = dpNStrips p" "dpNSamples q = dpNSamples p"
    using samples_added_fields(1,2) [OF q(3)] by simp_all
  have "hit_fits v q" using Suc.prems(1) n(2,1) by (rule hit_fits_same)
  moreover have "idx < dpNStrips q" "(k + 1) + n = dpNSamples q" using n Suc.prems(4,5) by simp_all
  ultimately obtain r where r: "cum_samples v j idx (k + 1) n (q, s + ?x)
        = Some (r, s + ?x + (\<Sum>k' \<in> {k + 1..<k + 1 + n}. hit_adc v j k'))" "dp_shape r"
      "samples_added idx (k + 1) n (hit_adc v j) q r"
      "\<forall>k' i'. k' < dpNSamples q \<longrightarrow> i' < dpNStrips q \<longrightarrow> dpClusterADC r ! k' ! i' =
         dpClusterADC q ! k' ! i' @ (if i' = idx \<and> k + 1 \<le> k' then [hit_adc v j k'] else [])"
    using Suc.IH [of q "k + 1" "s + ?x"] Suc.prems(2) q(2) by blast
  have "cum_samples v j idx k (Suc n) (p, s) = cum_samples v j idx (k + 1) n (q, s + ?x)"
    using q(1) read(5,6) [OF k(1)] len k Suc.prems(4)
    by (cases "?x = 0") (simp_all add: rd_def push_at_ok Let_def bind_eq_Some_conv)
  moreover have "?x + (\<Sum>k' \<in> {k + 1..<k + 1 + n}. hit_adc v j k') = (\<Sum>k' \<in> {k..<k + Suc n}. hit_adc v j k')"
    by (simp add: sum.atLeast_Suc_lessThan)
  moreover have "samples_added idx k (Suc n) (hit_adc v j) p r"
    using samples_added_Suc [OF q(3) r(3)] by (rule samples_added_cluster)
  moreover have "dpClusterADC r ! k' ! i' =
      dpClusterADC p ! k' ! i' @ (if i' = idx \<and> k \<le> k' then [hit_adc v j k'] else [])"
    if "k' < dpNSamples p" "i' < dpNStrips p" for k' i'
    using r(4) that n q(4) len k Suc.prems(4) by (auto simp: nth_list_update)
  ultimately show ?case using r(1,2) by (intro exI [of _ r]) (simp add: add.assoc)
qed


section \<open>Cumulating a strip\<close>

lemma note_over_ok:
  assumes "dp_shape q" "over_ok {i} q" "i < dpNStrips q"
    "i \<in> set (dpOver q) \<longleftrightarrow> \<not> below" "\<not> below \<Longrightarrow> dpThreshold q < dpTotADC q ! i"
  shows "\<exists>ov. note_over below i q = Some (q \<lparr> dpOver := ov \<rparr>) \<and> over_ok {} (q \<lparr> dpOver := ov \<rparr>)"
proof -
  have len: "length (dpTotADC q) = dpNStrips q" using assms(1) by (simp add: dp_shape_def)
  show ?thesis
  proof (cases "below \<and> dpThreshold q < dpTotADC q ! i")
    case True
    then have i: "i \<notin> set (dpOver q)" using assms(4) by simp
    have "insert i (set (dpOver q)) \<subseteq> {..<dpNStrips q}" "distinct (dpOver q)"
      using assms(2,3) by (auto simp: over_ok_def)
    then have "card (insert i (set (dpOver q))) \<le> dpNStrips q"
      using card_mono [of "{..<dpNStrips q}"] by fastforce
    then have "length (dpOver q) < dpNStrips q"
      using i \<open>distinct (dpOver q)\<close> by (simp add: distinct_card)
    then show ?thesis using assms(2,3) True i len
      by (intro exI [of _ "dpOver q @ [i]"]) (auto simp: note_over_def rd_def over_ok_def)
  next
    case False
    then show ?thesis using assms len
      by (intro exI [of _ "dpOver q"]) (auto simp: note_over_def rd_def over_ok_def)
  qed
qed

text \<open>The effect of the strips j to j + n - 1 of a hit.\<close>

definition at_strip :: "gemhit \<Rightarrow> nat \<Rightarrow> nat \<Rightarrow> bool" where
  "at_strip v i j \<longleftrightarrow> gh_idx v ! j = int i"

definition hit_weight :: "gemhit \<Rightarrow> nat \<Rightarrow> nat \<Rightarrow> real option" where
  "hit_weight v S j = c_div (of_int (\<Sum>k < S. hit_adc v j k)) (of_int (gh_total v))"

definition strips_added ::
  "gemhit \<Rightarrow> int \<Rightarrow> int \<Rightarrow> nat \<Rightarrow> nat \<Rightarrow> dplane \<Rightarrow> dplane \<Rightarrow> bool" where
  "strips_added v ty cl j n p q \<longleftrightarrow>
     dpNStrips q = dpNStrips p \<and> dpNSamples q = dpNSamples p \<and> dpThreshold q = dpThreshold p
     \<and> (\<forall>i < dpNStrips p. let J = filter (at_strip v i) [j..<j + n] in
          dpCharge q ! i = dpCharge p ! i + sum_list (map (\<lambda>j. gh_charge v ! j) J)
          \<and> dpTime q ! i = (if J = [] then dpTime p ! i else min (dpTime p ! i) (gh_time v))
          \<and> dpType q ! i = (if J = [] then dpType p ! i else or (dpType p ! i) ty)
          \<and> dpStripClusters q ! i = dpStripClusters p ! i @ map (\<lambda>_. cl) J
          \<and> dpStripWeight q ! i = dpStripWeight p ! i @ map (hit_weight v (dpNSamples p)) J
          \<and> (\<forall>k < dpNSamples p.
               adc_at q i k = adc_at p i k + sum_list (map (\<lambda>j. hit_adc v j k) J)
               \<and> dpClusterADC q ! k ! i = dpClusterADC p ! k ! i @ map (\<lambda>j. hit_adc v j k) J))"

lemma strips_added_0: "strips_added v ty cl j 0 p p"
  by (simp add: strips_added_def)

lemma upt_step: "[j..<j + Suc n] = [j..<j + 1] @ [j + 1..<j + 1 + n]"
  by (simp add: upt_conv_Cons)

lemma strips_added_Suc:
  assumes "strips_added v ty cl j 1 p q" "strips_added v ty cl (j + 1) n q r"
  shows "strips_added v ty cl j (Suc n) p r"
  unfolding strips_added_def Let_def
proof (intro conjI allI impI)
  have n: "dpNStrips q = dpNStrips p" "dpNSamples q = dpNSamples p" "dpThreshold q = dpThreshold p"
    using assms(1) by (simp_all add: strips_added_def)
  show "dpNStrips r = dpNStrips p" "dpNSamples r = dpNSamples p" "dpThreshold r = dpThreshold p"
    using assms(2) n by (simp_all add: strips_added_def)
  fix i assume i: "i < dpNStrips p"
  let ?J = "filter (at_strip v i) [j..<j + 1]" and ?K = "filter (at_strip v i) [j + 1..<j + 1 + n]"
  have J: "filter (at_strip v i) [j..<j + Suc n] = ?J @ ?K" by (simp only: upt_step filter_append)
  note a = assms(1) [unfolded strips_added_def Let_def, THEN conjunct2, THEN conjunct2, THEN conjunct2, rule_format, OF i]
  have "i < dpNStrips q" using i n by simp
  note b = assms(2) [unfolded strips_added_def Let_def, THEN conjunct2, THEN conjunct2, THEN conjunct2, rule_format, OF this]
  show "dpCharge r ! i = dpCharge p ! i + sum_list (map (\<lambda>j. gh_charge v ! j) (filter (at_strip v i) [j..<j + Suc n]))"
    using a b unfolding J by simp
  show "dpTime r ! i = (if filter (at_strip v i) [j..<j + Suc n] = [] then dpTime p ! i else min (dpTime p ! i) (gh_time v))"
    using a b unfolding J by (cases "?J = []"; cases "?K = []") simp_all
  show "dpType r ! i = (if filter (at_strip v i) [j..<j + Suc n] = [] then dpType p ! i else or (dpType p ! i) ty)"
    using a b unfolding J by (cases "?J = []"; cases "?K = []") (simp_all add: or.assoc)
  show "dpStripClusters r ! i = dpStripClusters p ! i @ map (\<lambda>_. cl) (filter (at_strip v i) [j..<j + Suc n])"
    using a b unfolding J by simp
  show "dpStripWeight r ! i = dpStripWeight p ! i @ map (hit_weight v (dpNSamples p)) (filter (at_strip v i) [j..<j + Suc n])"
    using a b n unfolding J by simp
  fix k assume k: "k < dpNSamples p"
  show "adc_at r i k = adc_at p i k + sum_list (map (\<lambda>j. hit_adc v j k) (filter (at_strip v i) [j..<j + Suc n]))"
    using a b n k unfolding J by simp
  show "dpClusterADC r ! k ! i = dpClusterADC p ! k ! i @ map (\<lambda>j. hit_adc v j k) (filter (at_strip v i) [j..<j + Suc n])"
    using a b n k unfolding J by simp
qed

lemma dp_shape_strip:
  assumes "dp_shape p"
  shows "dp_shape (p \<lparr> dpType := (dpType p)[i := a], dpTime := (dpTime p)[i := b],
      dpCharge := (dpCharge p)[i := c] \<rparr>)"
    "dp_shape (p \<lparr> dpStripWeight := (dpStripWeight p)[i := w], dpStripClusters := (dpStripClusters p)[i := d] \<rparr>)"
    "dp_shape (p \<lparr> dpOver := ov \<rparr>)"
  using assms by (simp_all add: dp_shape_def adc_at_def)

lemma cum_strip_ok:
  assumes "dp_inv p" "hit_fits v p" "j < gh_size v"
  shows "\<exists>q. cum_strip v ty cl j p = Some q \<and> dp_inv q \<and> strips_added v ty cl j 1 p q"
proof -
  note read = hit_fits_read [OF assms(2,3)]
  define i where "i = nat (gh_idx v ! j)"
  have i: "gh_idx v ! j = int i" "i < dpNStrips p" using read(2,3) by (auto simp: i_def)
  have sh: "dp_shape p" and ov: "over_ok {} p" using assms(1) by (auto simp: dp_inv_def)
  define t where "t = (if dpTime p ! i < gh_time v then dpTime p ! i else gh_time v)"
  define p1 where "p1 = p \<lparr> dpType := (dpType p)[i := or (dpType p ! i) ty], dpTime := (dpTime p)[i := t],
      dpCharge := (dpCharge p)[i := dpCharge p ! i + gh_charge v ! j] \<rparr>"
  have p1: "dpNStrips p1 = dpNStrips p" "dpNSamples p1 = dpNSamples p" "dpThreshold p1 = dpThreshold p"
      "dpOver p1 = dpOver p" "dpTotADC p1 = dpTotADC p" "dpStripADC p1 = dpStripADC p"
      "dpClusterADC p1 = dpClusterADC p" "dpStripWeight p1 = dpStripWeight p"
      "dpStripClusters p1 = dpStripClusters p" "dp_shape p1" "hit_fits v p1"
    using dp_shape_strip(1) [OF sh] hit_fits_same [OF assms(2)] by (simp_all add: p1_def)
  obtain q where q: "cum_samples v j i 0 (dpNSamples p1) (p1, 0)
        = Some (q, \<Sum>k < dpNSamples p. hit_adc v j k)" "dp_shape q"
      "samples_added i 0 (dpNSamples p1) (hit_adc v j) p1 q"
      "\<forall>k' i'. k' < dpNSamples p \<longrightarrow> i' < dpNStrips p \<longrightarrow> dpClusterADC q ! k' ! i' =
         dpClusterADC p ! k' ! i' @ (if i' = i then [hit_adc v j k'] else [])"
    using cum_samples_ok [OF p1(11) assms(3) p1(10), of i 0 "dpNSamples p1" 0] i p1(1,2,7)
    by (auto simp: lessThan_atLeast0)
  note qf = samples_added_fields [OF q(3)]
  have tot: "dpTotADC q ! i' = dpTotADC p ! i' + (if i' = i then \<Sum>k < dpNSamples p. hit_adc v j k else 0)"
    if "i' < dpNStrips p" for i'
    using samples_added_tot [OF q(3) p1(10) q(2)] p1 that by simp
  let ?below = "\<not> dpThreshold p < dpTotADC p ! i"
  have "0 \<le> (\<Sum>k < dpNSamples p. hit_adc v j k)" by (intro sum_nonneg) (use read(6) in simp)
  then have "\<not> ?below \<Longrightarrow> dpThreshold q < dpTotADC q ! i" using tot [OF i(2)] qf p1 by simp
  moreover have "over_ok {i} q" using ov tot qf p1 by (auto simp: over_ok_def)
  moreover have "i \<in> set (dpOver q) \<longleftrightarrow> \<not> ?below" using ov i(2) qf p1 by (auto simp: over_ok_def)
  ultimately obtain ov' where ov': "note_over ?below i q = Some (q \<lparr> dpOver := ov' \<rparr>)"
      "over_ok {} (q \<lparr> dpOver := ov' \<rparr>)"
    using note_over_ok [of q i ?below] q(2) i(2) qf p1 by auto
  define r where "r = q \<lparr> dpOver := ov' \<rparr> \<lparr> dpStripWeight := (dpStripWeight p)[i := dpStripWeight p ! i
        @ [hit_weight v (dpNSamples p) j]], dpStripClusters := (dpStripClusters p)[i := dpStripClusters p ! i @ [cl]] \<rparr>"
  have len: "length (dpStripWeight p) = dpNStrips p" "length (dpStripClusters p) = dpNStrips p"
      "length (dpType p) = dpNStrips p" "length (dpTime p) = dpNStrips p" "length (dpCharge p) = dpNStrips p"
      "length (dpTotADC p) = dpNStrips p"
    using sh by (simp_all add: dp_shape_def)
  have "cum_strip v ty cl j p = Some r"
    using read(1,4) i q(1) ov'(1) p1 qf len
    by (simp add: cum_strip_def Let_def push_at_ok r_def hit_weight_def flip: t_def p1_def)
  moreover have "dp_inv r"
    using q(2) ov'(2) qf p1 len by (simp add: dp_inv_def r_def over_ok_def dp_shape_def adc_at_def)
  moreover have "strips_added v ty cl j 1 p r"
    unfolding strips_added_def Let_def
  proof (intro conjI allI impI)
    fix i' assume i': "i' < dpNStrips p"
    have J: "filter (at_strip v i') [j..<j + 1] = (if i' = i then [j] else [])"
      using i by (auto simp: at_strip_def)
    show "dpCharge r ! i' = dpCharge p ! i' + sum_list (map (\<lambda>j. gh_charge v ! j) (filter (at_strip v i') [j..<j + 1]))"
      using qf len i' unfolding J by (simp add: r_def p1_def nth_list_update)
    show "dpTime r ! i' = (if filter (at_strip v i') [j..<j + 1] = [] then dpTime p ! i' else min (dpTime p ! i') (gh_time v))"
      using qf len i' unfolding J by (simp add: r_def p1_def nth_list_update t_def)
    show "dpType r ! i' = (if filter (at_strip v i') [j..<j + 1] = [] then dpType p ! i' else or (dpType p ! i') ty)"
      using qf len i' unfolding J by (simp add: r_def p1_def nth_list_update)
    show "dpStripClusters r ! i' = dpStripClusters p ! i' @ map (\<lambda>_. cl) (filter (at_strip v i') [j..<j + 1])"
      using len i' unfolding J by (simp add: r_def nth_list_update)
    show "dpStripWeight r ! i' = dpStripWeight p ! i' @ map (hit_weight v (dpNSamples p)) (filter (at_strip v i') [j..<j + 1])"
      using len i' unfolding J by (simp add: r_def nth_list_update)
    fix k assume k: "k < dpNSamples p"
    have "adc_at q i' k = adc_at p1 i' k + (if i' = i then hit_adc v j k else 0)"
      using q(3) i' k p1(1,2) unfolding samples_added_def by auto
    then show "adc_at r i' k = adc_at p i' k + sum_list (map (\<lambda>j. hit_adc v j k) (filter (at_strip v i') [j..<j + 1]))"
      using p1 unfolding J by (simp add: adc_at_def r_def)
    show "dpClusterADC r ! k ! i' = dpClusterADC p ! k ! i' @ map (\<lambda>j. hit_adc v j k) (filter (at_strip v i') [j..<j + 1])"
      using q(4) i' k unfolding J by (simp add: r_def)
  qed (use qf p1 in \<open>simp_all add: r_def\<close>)
  ultimately show ?thesis by blast
qed


lemma hit_fits_added: "hit_fits v p \<Longrightarrow> strips_added v' ty cl j n p q \<Longrightarrow> hit_fits v q"
  by (auto simp: strips_added_def elim: hit_fits_same)

lemma cum_strips_ok:
  assumes "dp_inv p" "hit_fits v p" "j + n \<le> gh_size v"
  shows "\<exists>q. cum_strips v ty cl j n p = Some q \<and> dp_inv q \<and> strips_added v ty cl j n p q"
  using assms
proof (induction n arbitrary: j p)
  case 0
  then show ?case using strips_added_0 by auto
next
  case (Suc n)
  obtain q where q: "cum_strip v ty cl j p = Some q" "dp_inv q" "strips_added v ty cl j 1 p q"
    using cum_strip_ok [OF Suc.prems(1,2), of j] Suc.prems(3) by auto
  obtain r where r: "cum_strips v ty cl (j + 1) n q = Some r" "dp_inv r" "strips_added v ty cl (j + 1) n q r"
    using Suc.IH [OF q(2) hit_fits_added [OF Suc.prems(2) q(3)], of "j + 1"] Suc.prems(3) by auto
  show ?case using q(1) r strips_added_Suc [OF q(3) r(3)] by simp
qed

section \<open>Cross talk\<close>

lemma xt_samples_ok:
  assumes "hit_fits v p" "j < gh_size v" "dp_shape p" "idx < dpNStrips p" "k + n = dpNSamples p"
    "0 < factor" "\<forall>j < gh_size v. \<forall>k < gh_nsample v. of_int (hit_adc v j k) * factor < 2147483648"
  shows "\<exists>q. xt_samples factor v j idx k n p = Some q \<and> dp_shape q
    \<and> samples_added idx k n (\<lambda>k. \<lfloor>of_int (hit_adc v j k) * factor\<rfloor>) p q"
  using assms(1-5)
proof (induction n arbitrary: p k)
  case 0
  then show ?case using samples_added_0 by auto
next
  case (Suc n)
  let ?g = "\<lambda>k. \<lfloor>of_int (hit_adc v j k) * factor\<rfloor>"
  have k: "k < dpNSamples p" using Suc.prems(5) by simp
  note read = hit_fits_read(5,6) [OF Suc.prems(1,2) k]
  have lt: "of_int (hit_adc v j k) * factor < 2147483648"
    using assms(7) k Suc.prems(1,2) by (auto simp: hit_fits_def)
  have nn: "0 \<le> of_int (hit_adc v j k) * factor" using read(2) assms(6) by simp
  then have ti: "to_int32 (of_int (hit_adc v j k) * factor) = Some (?g k)"
    using lt by (simp add: to_int32_def Let_def)
  obtain q where q: "(if ?g k = 0 then Some p else add_adc idx k (?g k) p) = Some q" "dp_shape q"
      "samples_added idx k 1 ?g p q"
  proof (cases "?g k = 0")
    case True
    then show thesis using that [of p] Suc.prems(3) samples_added_none [of ?g k idx p] by simp
  next
    case False
    obtain q where "add_adc idx k (?g k) p = Some q" "dp_shape q" "samples_added idx k 1 ?g p q"
      using add_adc_added [OF Suc.prems(3,4) k, of ?g] by blast
    then show thesis using False that by simp
  qed
  note n = samples_added_fields(1,2) [OF q(3)]
  have "hit_fits v q" using Suc.prems(1) n(2,1) by (rule hit_fits_same)
  moreover have "idx < dpNStrips q" "(k + 1) + n = dpNSamples q" using n Suc.prems(4,5) by simp_all
  ultimately obtain r where r: "xt_samples factor v j idx (k + 1) n q = Some r" "dp_shape r"
      "samples_added idx (k + 1) n ?g q r"
    using Suc.IH [of q "k + 1"] Suc.prems(2) q(2) by blast
  have "xt_samples factor v j idx k (Suc n) p = Some r"
    using q(1) r(1) read ti by (cases "?g k = 0") simp_all
  then show ?case using r(2) samples_added_Suc [OF q(3) r(3)] by blast
qed

definition same_size :: "dplane \<Rightarrow> dplane \<Rightarrow> bool" where
  "same_size p q \<longleftrightarrow> dpNStrips q = dpNStrips p \<and> dpNSamples q = dpNSamples p \<and> dpThreshold q = dpThreshold p"

text \<open>Strip j of the hit induces on strip i; the samples induced by strips j to j + n - 1.\<close>

definition induced_at :: "int \<Rightarrow> gemhit \<Rightarrow> nat \<Rightarrow> nat \<Rightarrow> bool" where
  "induced_at off v i j \<longleftrightarrow> gh_idx v ! j + off = int i"

definition xt_marked :: "int \<Rightarrow> real \<Rightarrow> gemhit \<Rightarrow> nat \<Rightarrow> nat \<Rightarrow> dplane \<Rightarrow> dplane \<Rightarrow> bool" where
  "xt_marked off factor v j n p q \<longleftrightarrow> (\<forall>i < dpNStrips p. let J = filter (induced_at off v i) [j..<j + n] in
     dpCharge q ! i = dpCharge p ! i + sum_list (map (\<lambda>j. factor * gh_charge v ! j) J)
     \<and> dpType q ! i = (if J = [] then dpType p ! i else set_bit kInducedStrip (dpType p ! i))
     \<and> (if J = [] then dpTime q ! i = dpTime p ! i else dpTime q ! i \<le> gh_time v))"

definition xt_added :: "int \<Rightarrow> real \<Rightarrow> gemhit \<Rightarrow> nat \<Rightarrow> nat \<Rightarrow> dplane \<Rightarrow> dplane \<Rightarrow> bool" where
  "xt_added off factor v j n p q \<longleftrightarrow> same_size p q \<and> (\<forall>i < dpNStrips p. \<forall>k < dpNSamples p. adc_at q i k = adc_at p i k
     + sum_list (map (\<lambda>j. \<lfloor>of_int (hit_adc v j k) * factor\<rfloor>) (filter (induced_at off v i) [j..<j + n])))
     \<and> xt_marked off factor v j n p q"

lemma xt_marked_Suc:
  assumes "xt_marked off factor v j 1 p q" "xt_marked off factor v (j + 1) n q r" "dpNStrips q = dpNStrips p"
  shows "xt_marked off factor v j (Suc n) p r"
  unfolding xt_marked_def Let_def
proof (intro conjI allI impI)
  fix i assume i: "i < dpNStrips p"
  let ?J = "filter (induced_at off v i) [j..<j + 1]" and ?K = "filter (induced_at off v i) [j + 1..<j + 1 + n]"
  have J: "filter (induced_at off v i) [j..<j + Suc n] = ?J @ ?K" by (simp only: upt_step filter_append)
  note a = assms(1) [unfolded xt_marked_def Let_def, rule_format, OF i]
  note b = assms(2) [unfolded xt_marked_def Let_def assms(3), rule_format, OF i]
  show "dpCharge r ! i = dpCharge p ! i + sum_list (map (\<lambda>j. factor * gh_charge v ! j) (filter (induced_at off v i) [j..<j + Suc n]))"
    using a b unfolding J by simp
  have twice: "set_bit kInducedStrip (set_bit kInducedStrip t) = set_bit kInducedStrip t" for t :: int
    by (rule bit_eqI) (auto simp: bit_simps)
  show "dpType r ! i = (if filter (induced_at off v i) [j..<j + Suc n] = [] then dpType p ! i else set_bit kInducedStrip (dpType p ! i))"
    using a b twice unfolding J by (cases "?J = []"; cases "?K = []") simp_all
  show "if filter (induced_at off v i) [j..<j + Suc n] = [] then dpTime r ! i = dpTime p ! i else dpTime r ! i \<le> gh_time v"
    using a b unfolding J by (cases "?J = []"; cases "?K = []") simp_all
qed

lemma xt_added_Suc:
  assumes "xt_added off factor v j 1 p q" "xt_added off factor v (j + 1) n q r"
  shows "xt_added off factor v j (Suc n) p r"
proof -
  have "xt_marked off factor v j (Suc n) p r"
    using xt_marked_Suc [of off factor v j p q n r] assms by (simp add: xt_added_def same_size_def)
  then show ?thesis using assms unfolding xt_added_def same_size_def upt_step [of j n] by simp
qed

lemma xt_strip_ok:
  assumes "dp_inv p" "hit_fits v p" "j < gh_size v"
    "0 < factor" "\<forall>j < gh_size v. \<forall>k < gh_nsample v. of_int (hit_adc v j k) * factor < 2147483648"
  shows "\<exists>q. xt_strip isLeft apart factor v j p = Some q \<and> dp_inv q \<and> xt_added (isLeft * apart) factor v j 1 p q"
proof -
  note read = hit_fits_read [OF assms(2,3)]
  define ii where "ii = gh_idx v ! j + isLeft * apart"
  have at: "induced_at (isLeft * apart) v i j \<longleftrightarrow> int i = ii" for i by (auto simp: induced_at_def ii_def)
  show ?thesis
  proof (cases "ii < 0 \<or> int (dpNStrips p) \<le> ii")
    case True
    then have "\<not> induced_at (isLeft * apart) v i j" if "i < dpNStrips p" for i using that unfolding at by auto
    then have "xt_added (isLeft * apart) factor v j 1 p p" by (simp add: xt_added_def xt_marked_def same_size_def)
    then show ?thesis using True read(1-3) assms(1)
      by (intro exI [of _ p]) (auto simp: xt_strip_def ii_def Let_def)
  next
    case False
    define i where "i = nat ii"
    have i: "i < dpNStrips p" using False by (auto simp: i_def)
    have sh: "dp_shape p" and ov: "over_ok {} p" using assms(1) by (auto simp: dp_inv_def)
    define t where "t = (if dpTime p ! nat (gh_idx v ! j) < gh_time v then dpTime p ! nat (gh_idx v ! j) else gh_time v)"
    define p1 where "p1 = p \<lparr> dpType := (dpType p)[i := set_bit kInducedStrip (dpType p ! i)], dpTime := (dpTime p)[i := t],
        dpCharge := (dpCharge p)[i := dpCharge p ! i + factor * gh_charge v ! j] \<rparr>"
    have p1: "dpNStrips p1 = dpNStrips p" "dpNSamples p1 = dpNSamples p" "dpThreshold p1 = dpThreshold p"
        "dpOver p1 = dpOver p" "dpTotADC p1 = dpTotADC p" "dp_shape p1" "hit_fits v p1"
      using dp_shape_strip(1) [OF sh] hit_fits_same [OF assms(2)] by (simp_all add: p1_def)
    let ?g = "\<lambda>k. \<lfloor>of_int (hit_adc v j k) * factor\<rfloor>"
    obtain q where q: "xt_samples factor v j i 0 (dpNSamples p1) p1 = Some q" "dp_shape q"
        "samples_added i 0 (dpNSamples p1) ?g p1 q"
      using xt_samples_ok [OF p1(7) assms(3) p1(6), of i 0 "dpNSamples p1" factor, OF _ _ assms(4,5)]
        i p1(1) by auto
    note qf = samples_added_fields [OF q(3)]
    have tot: "dpTotADC q ! i' = dpTotADC p ! i' + (if i' = i then \<Sum>k < dpNSamples p. ?g k else 0)"
      if "i' < dpNStrips p" for i'
      using samples_added_tot [OF q(3) p1(6) q(2)] p1 that by simp
    let ?below = "\<not> dpThreshold p < dpTotADC p ! i"
    have "0 \<le> (\<Sum>k < dpNSamples p. ?g k)" by (intro sum_nonneg) (use read(6) assms(4) in simp)
    then have "\<not> ?below \<Longrightarrow> dpThreshold q < dpTotADC q ! i" using tot [OF i] qf p1 by simp
    moreover have "over_ok {i} q" using ov tot qf p1 by (auto simp: over_ok_def)
    moreover have "i \<in> set (dpOver q) \<longleftrightarrow> \<not> ?below" using ov i qf p1 by (auto simp: over_ok_def)
    ultimately obtain ov' where ov': "note_over ?below i q = Some (q \<lparr> dpOver := ov' \<rparr>)"
        "over_ok {} (q \<lparr> dpOver := ov' \<rparr>)"
      using note_over_ok [of q i ?below] q(2) i qf p1 by auto
    have run: "xt_strip isLeft apart factor v j p = Some (q \<lparr> dpOver := ov' \<rparr>)"
      using False read(1-4) q(1) ov'(1) p1
      by (simp add: xt_strip_def Let_def flip: t_def ii_def i_def p1_def)
    have adc: "adc_at (q \<lparr> dpOver := ov' \<rparr>) i' k = adc_at p i' k
        + (if induced_at (isLeft * apart) v i' j then \<lfloor>of_int (hit_adc v j k) * factor\<rfloor> else 0)"
      if "i' < dpNStrips p" "k < dpNSamples p" for i' k
    proof -
      have "i' = i \<longleftrightarrow> int i' = ii" using False by (auto simp: i_def)
      moreover have "adc_at q i' k = adc_at p1 i' k + (if i' = i then ?g k else 0)"
        using q(3) that p1(1,2) by (simp add: samples_added_def)
      moreover have "adc_at p1 i' k = adc_at p i' k" by (simp add: adc_at_def p1_def)
      ultimately show ?thesis unfolding at by (simp add: adc_at_def)
    qed
    have "xt_marked (isLeft * apart) factor v j 1 p (q \<lparr> dpOver := ov' \<rparr>)"
      unfolding xt_marked_def
    proof (intro allI impI)
      fix i' assume i': "i' < dpNStrips p"
      have e: "i' = i \<longleftrightarrow> int i' = ii" using False by (auto simp: i_def)
      have J: "filter (induced_at (isLeft * apart) v i') [j..<j + 1] = (if i' = i then [j] else [])" using at e by auto
      have len: "length (dpType p) = dpNStrips p" "length (dpTime p) = dpNStrips p" "length (dpCharge p) = dpNStrips p"
        using sh by (simp_all add: dp_shape_def)
      have t: "t \<le> gh_time v" by (simp add: t_def)
      show "let J = filter (induced_at (isLeft * apart) v i') [j..<j + 1] in
          dpCharge (q \<lparr> dpOver := ov' \<rparr>) ! i' = dpCharge p ! i' + sum_list (map (\<lambda>j. factor * gh_charge v ! j) J)
          \<and> dpType (q \<lparr> dpOver := ov' \<rparr>) ! i' = (if J = [] then dpType p ! i' else set_bit kInducedStrip (dpType p ! i'))
          \<and> (if J = [] then dpTime (q \<lparr> dpOver := ov' \<rparr>) ! i' = dpTime p ! i' else dpTime (q \<lparr> dpOver := ov' \<rparr>) ! i' \<le> gh_time v)"
        unfolding J Let_def using qf len i' t by (simp add: p1_def nth_list_update)
    qed
    then have "xt_added (isLeft * apart) factor v j 1 p (q \<lparr> dpOver := ov' \<rparr>)"
      using adc qf p1 by (simp add: xt_added_def same_size_def)
    then show ?thesis using run ov'(2) dp_shape_strip(3) [OF q(2)] by (auto simp: dp_inv_def)
  qed
qed

lemma xt_strips_ok:
  assumes "dp_inv p" "hit_fits v p" "j + n \<le> gh_size v"
    "0 < factor" "\<forall>j < gh_size v. \<forall>k < gh_nsample v. of_int (hit_adc v j k) * factor < 2147483648"
  shows "\<exists>q. xt_strips isLeft apart factor v j n p = Some q \<and> dp_inv q \<and> xt_added (isLeft * apart) factor v j n p q"
  using assms(1-3)
proof (induction n arbitrary: j p)
  case 0
  then show ?case by (simp add: xt_added_def xt_marked_def same_size_def)
next
  case (Suc n)
  obtain q where q: "xt_strip isLeft apart factor v j p = Some q" "dp_inv q" "xt_added (isLeft * apart) factor v j 1 p q"
    using xt_strip_ok [OF Suc.prems(1,2) _ assms(4,5), of j] Suc.prems(3) by auto
  have "hit_fits v q" using Suc.prems(2) q(3) by (auto simp: xt_added_def same_size_def elim: hit_fits_same)
  then obtain r where r: "xt_strips isLeft apart factor v (j + 1) n q = Some r" "dp_inv r"
      "xt_added (isLeft * apart) factor v (j + 1) n q r"
    using Suc.IH [OF q(2), of "j + 1"] Suc.prems(3) by auto
  then show ?case using q(1) xt_added_Suc [OF q(3) r(3)] by simp
qed

section \<open>Records of the clusters\<close>

text \<open>Cross talk leaves the records of the clusters alone.\<close>

definition records :: "dplane \<Rightarrow> int list list \<times> real option list list \<times> int list list list" where
  "records p = (dpStripClusters p, dpStripWeight p, dpClusterADC p)"

lemma add_adc_records: "add_adc i k x p = Some q \<Longrightarrow> records q = records p"
  by (auto simp: add_adc_def Let_def bind_eq_Some_conv records_def)

lemma note_over_records: "note_over b i p = Some q \<Longrightarrow> records q = records p"
  by (auto simp: note_over_def bind_eq_Some_conv records_def split: if_splits)

lemma xt_samples_records: "xt_samples factor v j idx k n p = Some q \<Longrightarrow> records q = records p"
  by (induction factor v j idx k n p rule: xt_samples.induct)
    (auto simp: bind_eq_Some_conv add_adc_records split: if_splits)

lemma xt_strip_records:
  assumes "xt_strip l a factor v j p = Some q"
  shows "records q = records p"
proof -
  have u: "records (p \<lparr> dpType := x, dpTime := y, dpCharge := z \<rparr>) = records p" for x y z
    by (simp add: records_def)
  show ?thesis using assms
    by (auto simp: xt_strip_def Let_def bind_eq_Some_conv u dest!: note_over_records xt_samples_records split: if_splits)
qed

lemma xt_strips_records: "xt_strips l a factor v j n p = Some q \<Longrightarrow> records q = records p"
  by (induction l a factor v j n p rule: xt_strips.induct) (auto simp: bind_eq_Some_conv intro: trans [OF _ xt_strip_records])

section \<open>Cumulate\<close>

definition xtalk_fits :: "xtalk \<Rightarrow> gemhit \<Rightarrow> bool" where
  "xtalk_fits x v \<longleftrightarrow> (\<forall>j < gh_size v. \<forall>k < gh_nsample v.
     of_int (hit_adc v j k) * (xtFactor x + xtNoise x) < 2147483648)"

text \<open>The samples a hit adds to strip i: its own, and those induced by cross talk.\<close>

definition direct_adc :: "gemhit \<Rightarrow> nat \<Rightarrow> nat \<Rightarrow> int" where
  "direct_adc v i k = sum_list (map (\<lambda>j. hit_adc v j k) (filter (at_strip v i) [0..<gh_size v]))"

definition induced_strips :: "xtalk \<Rightarrow> gemhit \<Rightarrow> nat \<Rightarrow> nat list" where
  "induced_strips x v i = (if xtDo x \<and> 0 < xtFactor x + xtNoise x
     then filter (induced_at (xtIsLeft x * xtApart x) v i) [0..<gh_size v] else [])"

definition induced_adc :: "xtalk \<Rightarrow> gemhit \<Rightarrow> nat \<Rightarrow> nat \<Rightarrow> int" where
  "induced_adc x v i k = sum_list (map (\<lambda>j. \<lfloor>of_int (hit_adc v j k) * (xtFactor x + xtNoise x)\<rfloor>) (induced_strips x v i))"

text \<open>The whole call: the strips of the hit, then the induced ones.\<close>

lemma Cumulate_parts:
  assumes "dp_inv p" "hit_fits v p" "xtalk_fits x v"
  shows "\<exists>q r. Cumulate x (Some v) ty cl p = Some r \<and> dp_inv r \<and> strips_added v ty cl 0 (gh_size v) p q
    \<and> same_size q r \<and> records r = records q
    \<and> (\<forall>i < dpNStrips p. let I = induced_strips x v i in
         dpCharge r ! i = dpCharge q ! i + sum_list (map (\<lambda>j. (xtFactor x + xtNoise x) * gh_charge v ! j) I)
         \<and> dpType r ! i = (if I = [] then dpType q ! i else set_bit kInducedStrip (dpType q ! i))
         \<and> (if I = [] then dpTime r ! i = dpTime q ! i else dpTime r ! i \<le> gh_time v)
         \<and> (\<forall>k < dpNSamples p. adc_at r i k = adc_at q i k + induced_adc x v i k))"
proof -
  obtain q where q: "cum_strips v ty cl 0 (gh_size v) p = Some q" "dp_inv q"
      "strips_added v ty cl 0 (gh_size v) p q"
    using cum_strips_ok [OF assms(1,2), of 0 "gh_size v"] by auto
  have n: "dpNStrips q = dpNStrips p" "dpNSamples q = dpNSamples p" using q(3) by (simp_all add: strips_added_def)
  show ?thesis
  proof (cases "xtDo x \<and> 0 < xtFactor x + xtNoise x")
    case True
    obtain r where r: "xt_strips (xtIsLeft x) (xtApart x) (xtFactor x + xtNoise x) v 0 (gh_size v) q = Some r"
        "dp_inv r" "xt_added (xtIsLeft x * xtApart x) (xtFactor x + xtNoise x) v 0 (gh_size v) q r"
      using xt_strips_ok [OF q(2) hit_fits_added [OF assms(2) q(3)], of 0 "gh_size v" "xtFactor x + xtNoise x",
        OF _ conjunct2 [OF True] assms(3) [unfolded xtalk_fits_def]] by fastforce
    have I: "induced_strips x v i = filter (induced_at (xtIsLeft x * xtApart x) v i) [0..<gh_size v]" for i
      using True by (simp add: induced_strips_def)
    have "Cumulate x (Some v) ty cl p = Some r" using q(1) r(1) True by (simp add: Cumulate_def Let_def)
    then show ?thesis using q(3) r(2,3) xt_strips_records [OF r(1)] n
      by (intro exI [of _ q] exI [of _ r]) (simp add: xt_added_def xt_marked_def Let_def induced_adc_def I)
  next
    case False
    have I: "induced_strips x v i = []" for i unfolding induced_strips_def using False by (rule if_not_P)
    have "Cumulate x (Some v) ty cl p = Some q" using q(1) False by (auto simp: Cumulate_def Let_def)
    then show ?thesis using q(2,3)
      by (intro exI [of _ q]) (simp add: same_size_def induced_adc_def I)
  qed
qed

lemma Cumulate_keeps:
  assumes "dp_inv p" "hit_fits v p" "xtalk_fits x v"
  shows "\<exists>q. Cumulate x (Some v) ty cl p = Some q \<and> dp_inv q \<and> same_size p q
    \<and> (\<forall>i < dpNStrips p. \<forall>k < dpNSamples p. adc_at q i k = adc_at p i k + direct_adc v i k + induced_adc x v i k)"
proof -
  obtain q r where r: "Cumulate x (Some v) ty cl p = Some r" "dp_inv r" "strips_added v ty cl 0 (gh_size v) p q"
      "same_size q r" "\<forall>i < dpNStrips p. \<forall>k < dpNSamples p. adc_at r i k = adc_at q i k + induced_adc x v i k"
    using Cumulate_parts [OF assms] unfolding Let_def by blast
  have "same_size p r" using r(3,4) by (simp add: strips_added_def same_size_def)
  moreover have "adc_at q i k = adc_at p i k + direct_adc v i k" if "i < dpNStrips p" "k < dpNSamples p" for i k
    using r(3) that by (simp add: strips_added_def direct_adc_def Let_def)
  ultimately show ?thesis using r(1,2,5) by (intro exI [of _ r]) simp
qed

lemma Cumulate_plain:
  assumes "dp_inv p" "hit_fits v p" "\<not> xtDo x"
  shows "\<exists>q. Cumulate x (Some v) ty cl p = Some q \<and> dp_inv q \<and> strips_added v ty cl 0 (gh_size v) p q"
  using cum_strips_ok [OF assms(1,2), of 0 "gh_size v"] assms(3) by (auto simp: Cumulate_def)

lemma dp_inv_over: "dp_inv p \<Longrightarrow> set (dpOver p) = {i. i < dpNStrips p \<and> dpThreshold p < dpTotADC p ! i}"
  by (auto simp: dp_inv_def over_ok_def)


section \<open>Life of a plane\<close>

lemma dp_Clear_inv:
  assumes "dpNSamples p \<le> 6" "dpNStrips p \<le> 32767" "0 \<le> dpThreshold p"
  shows "dp_inv (dp_Clear p)"
proof -
  have "adc_at (dp_Clear p) i k = 0" if "i < dpNStrips p" "k < dpNSamples p" for i k
    using sample_index [OF that] by (simp add: adc_at_def dp_Clear_def)
  then show ?thesis using assms by (simp add: dp_inv_def dp_shape_def over_ok_def) (auto simp: dp_Clear_def)
qed

text \<open>C7. Cumulating a hit whose strips lie on the plane (of at most 32767 strips and six samples) and whose samples are not negative
  never fails an assert or leaves an array, with or without cross talk, and keeps the invariant:
  afterwards the list of strips over threshold holds exactly the strips whose ADC sum exceeds the
  threshold, each once, and every sum is the sum of its samples.  Every sample is increased by exactly the samples of
  the hit at the strip and the samples its other strips induce there.\<close>

theorem Cumulate_inv:
  assumes "dp_inv p" "hit_fits v p" "xtalk_fits x v"
  shows "\<exists>q. Cumulate x (Some v) ty cl p = Some q \<and> dp_inv q \<and> distinct (dpOver q)
    \<and> set (dpOver q) = {i. i < dpNStrips p \<and> dpThreshold p < dpTotADC q ! i}
    \<and> (\<forall>i < dpNStrips p. dp_GetTotADC q i = Some (\<Sum>k < dpNSamples p. adc_at q i k)
         \<and> (\<forall>k < dpNSamples p. adc_at q i k = adc_at p i k + direct_adc v i k + induced_adc x v i k))"
proof -
  obtain q where q: "Cumulate x (Some v) ty cl p = Some q" "dp_inv q" "same_size p q"
      "\<forall>i < dpNStrips p. \<forall>k < dpNSamples p. adc_at q i k = adc_at p i k + direct_adc v i k + induced_adc x v i k"
    using Cumulate_keeps [OF assms] by blast
  then show ?thesis using dp_inv_over [OF q(2)]
    by (auto simp: same_size_def dp_inv_def over_ok_def dp_shape_def dp_GetTotADC_def rd_def)
qed

definition plane2 :: dplane where
  "plane2 = dp_Clear \<lparr> dpNSamples = 1, dpNStrips = 2, dpThreshold = 0, dpStripADC = [], dpType = [],
     dpTotADC = [], dpCharge = [], dpTime = [], dpOver = [], dpStripClusters = [], dpStripWeight = [],
     dpClusterADC = [] \<rparr>"

definition hit1 :: "int \<Rightarrow> int \<Rightarrow> gemhit" where
  "hit1 i a = \<lparr> gh_idx = [i], gh_adc = [a], gh_charge = [1], gh_time = 5, gh_nsample = 1,
     gh_hitcharge = 1, gh_total = a, gh_size = 1 \<rparr>"

lemma plane2_inv: "dp_inv plane2" "dpNStrips plane2 = 2" "dpNSamples plane2 = 1"
  by (auto simp: plane2_def intro!: dp_Clear_inv) (simp_all add: dp_Clear_def)

lemma hit1_fits: "0 \<le> i \<Longrightarrow> i < 2 \<Longrightarrow> 0 \<le> a \<Longrightarrow> hit_fits (hit1 i a) plane2"
  by (auto simp: hit_fits_def gh_inv_def hit1_def plane2_inv)

theorem Cumulate_inv_witness:
  "\<exists>q. Cumulate \<lparr> xtDo = True, xtApart = 1, xtFactor = 1 / 2, xtIsLeft = 1, xtNoise = 0 \<rparr>
     (Some (hit1 0 7)) 1 1 plane2 = Some q \<and> dp_inv q"
proof -
  have "xtalk_fits \<lparr> xtDo = True, xtApart = 1, xtFactor = 1 / 2, xtIsLeft = 1, xtNoise = 0 \<rparr> (hit1 0 7)"
    by (simp add: xtalk_fits_def hit1_def hit_adc_def)
  then show ?thesis using Cumulate_inv [OF plane2_inv(1) hit1_fits, of 0 7] by fastforce
qed

text \<open>C16. A hit, with or without cross talk, adds to every sample and charge of every strip exactly its
  own samples and charge at that strip (the strips J of the hit) and, with cross talk, the truncated
  samples and the charge times the factor of the strips I of the hit that lie fNCStripApart to the other
  side.  It appends cluster number, weight and samples of J, and nothing for I, to the record of the strip.
  The type gets the type of the hit for J and the bit of induced strips for I; the time of a strip of J
  is lowered to the time of the hit, the time of a strip with I is overwritten by one not after the hit.\<close>

theorem Cumulate_sums:
  assumes "dp_inv p" "hit_fits v p" "xtalk_fits x v"
  shows "\<exists>q. Cumulate x (Some v) ty cl p = Some q \<and>
    (\<forall>i < dpNStrips p. let J = filter (at_strip v i) [0..<gh_size v]; I = induced_strips x v i; F = xtFactor x + xtNoise x in
       dpCharge q ! i = dpCharge p ! i + sum_list (map (\<lambda>j. gh_charge v ! j) J) + sum_list (map (\<lambda>j. F * gh_charge v ! j) I)
       \<and> (if I \<noteq> [] then dpTime q ! i \<le> gh_time v
          else dpTime q ! i = (if J = [] then dpTime p ! i else min (dpTime p ! i) (gh_time v)))
       \<and> dpType q ! i = (let t = if J = [] then dpType p ! i else or (dpType p ! i) ty
                         in if I = [] then t else set_bit kInducedStrip t)
       \<and> dpStripClusters q ! i = dpStripClusters p ! i @ map (\<lambda>_. cl) J
       \<and> dpStripWeight q ! i = dpStripWeight p ! i @ map (hit_weight v (dpNSamples p)) J
       \<and> (\<forall>k < dpNSamples p.
            adc_at q i k = adc_at p i k + sum_list (map (\<lambda>j. hit_adc v j k) J)
              + sum_list (map (\<lambda>j. \<lfloor>of_int (hit_adc v j k) * F\<rfloor>) I)
            \<and> dpClusterADC q ! k ! i = dpClusterADC p ! k ! i @ map (\<lambda>j. hit_adc v j k) J))"
proof -
  obtain q r where r: "Cumulate x (Some v) ty cl p = Some r" "strips_added v ty cl 0 (gh_size v) p q" "records r = records q"
    "\<forall>i < dpNStrips p. let I = induced_strips x v i in
         dpCharge r ! i = dpCharge q ! i + sum_list (map (\<lambda>j. (xtFactor x + xtNoise x) * gh_charge v ! j) I)
         \<and> dpType r ! i = (if I = [] then dpType q ! i else set_bit kInducedStrip (dpType q ! i))
         \<and> (if I = [] then dpTime r ! i = dpTime q ! i else dpTime r ! i \<le> gh_time v)
         \<and> (\<forall>k < dpNSamples p. adc_at r i k = adc_at q i k + induced_adc x v i k)"
    using Cumulate_parts [OF assms, of ty cl] by blast
  have rec: "dpStripClusters r = dpStripClusters q" "dpStripWeight r = dpStripWeight q" "dpClusterADC r = dpClusterADC q"
    using r(3) by (simp_all add: records_def)
  show ?thesis
  proof (intro exI [of _ r] conjI r(1) allI impI)
    fix i assume i: "i < dpNStrips p"
    note a = r(2) [unfolded strips_added_def add_0 Let_def, THEN conjunct2, THEN conjunct2, THEN conjunct2, rule_format, OF i]
    note b = r(4) [unfolded Let_def, rule_format, OF i]
    show "let J = filter (at_strip v i) [0..<gh_size v]; I = induced_strips x v i; F = xtFactor x + xtNoise x in
       dpCharge r ! i = dpCharge p ! i + sum_list (map (\<lambda>j. gh_charge v ! j) J) + sum_list (map (\<lambda>j. F * gh_charge v ! j) I)
       \<and> (if I \<noteq> [] then dpTime r ! i \<le> gh_time v
          else dpTime r ! i = (if J = [] then dpTime p ! i else min (dpTime p ! i) (gh_time v)))
       \<and> dpType r ! i = (let t = if J = [] then dpType p ! i else or (dpType p ! i) ty
                         in if I = [] then t else set_bit kInducedStrip t)
       \<and> dpStripClusters r ! i = dpStripClusters p ! i @ map (\<lambda>_. cl) J
       \<and> dpStripWeight r ! i = dpStripWeight p ! i @ map (hit_weight v (dpNSamples p)) J
       \<and> (\<forall>k < dpNSamples p.
            adc_at r i k = adc_at p i k + sum_list (map (\<lambda>j. hit_adc v j k) J)
              + sum_list (map (\<lambda>j. \<lfloor>of_int (hit_adc v j k) * F\<rfloor>) I)
            \<and> dpClusterADC r ! k ! i = dpClusterADC p ! k ! i @ map (\<lambda>j. hit_adc v j k) J)"
      using a b unfolding Let_def rec induced_adc_def by simp
  qed
qed

definition no_xtalk :: xtalk where
  "no_xtalk = \<lparr> xtDo = False, xtApart = 0, xtFactor = 0, xtIsLeft = 1, xtNoise = 0 \<rparr>"

lemma no_xtalk [simp]: "\<not> xtDo no_xtalk" "xtDo no_xtalk = False" "xtalk_fits no_xtalk v"
  by (simp_all add: no_xtalk_def xtalk_fits_def)

theorem Cumulate_sums_witness:
  "\<exists>q. Cumulate no_xtalk (Some (hit1 0 7)) 1 4 plane2 = Some q \<and> adc_at q 0 0 = adc_at plane2 0 0 + 7"
proof -
  have J: "filter (at_strip (hit1 0 7) 0) [0..<gh_size (hit1 0 7)] = [0]"
    by (simp add: hit1_def at_strip_def)
  have a: "hit_adc (hit1 0 7) 0 0 = 7" by (simp add: hit_adc_def hit1_def)
  have I: "induced_strips no_xtalk v i = []" for v i by (simp add: induced_strips_def)
  show ?thesis
    using Cumulate_sums [OF plane2_inv(1) hit1_fits [of 0 7] no_xtalk(3), of 1 4]
    by (simp, elim ex_forward conj_forward)
      (assumption, drule spec [of _ 0], simp add: Let_def J I a plane2_inv(2,3))
qed

text \<open>C33. Without cross talk overlaying is independent of the order: two hits cumulated in either order
  give the same samples, sums, charges, times and types, and lists of strips over threshold with the same
  members.  With cross talk (do\_crosstalk is 1 in the shipped db\_ratedig.dat) this does not hold: the
  random factor and side are drawn per hit, and the time of an induced strip is overwritten.\<close>

theorem Cumulate_commute:
  assumes "dp_inv p" "hit_fits v p" "hit_fits w p" "\<not> xtDo x"
  shows "\<exists>q q' r r'. Cumulate x (Some v) ty cl p = Some q \<and> Cumulate x (Some w) ty' cl' q = Some r
    \<and> Cumulate x (Some w) ty' cl' p = Some q' \<and> Cumulate x (Some v) ty cl q' = Some r'
    \<and> set (dpOver r) = set (dpOver r')
    \<and> (\<forall>i < dpNStrips p. dpTotADC r ! i = dpTotADC r' ! i \<and> dpCharge r ! i = dpCharge r' ! i
         \<and> dpTime r ! i = dpTime r' ! i \<and> dpType r ! i = dpType r' ! i
         \<and> (\<forall>k < dpNSamples p. adc_at r i k = adc_at r' i k))"
proof -
  obtain q where q: "Cumulate x (Some v) ty cl p = Some q" "dp_inv q" "strips_added v ty cl 0 (gh_size v) p q"
    using Cumulate_plain [OF assms(1,2,4)] by blast
  obtain r where r: "Cumulate x (Some w) ty' cl' q = Some r" "dp_inv r" "strips_added w ty' cl' 0 (gh_size w) q r"
    using Cumulate_plain [OF q(2) hit_fits_added [OF assms(3) q(3)] assms(4)] by blast
  obtain q' where q': "Cumulate x (Some w) ty' cl' p = Some q'" "dp_inv q'" "strips_added w ty' cl' 0 (gh_size w) p q'"
    using Cumulate_plain [OF assms(1,3,4)] by blast
  obtain r' where r': "Cumulate x (Some v) ty cl q' = Some r'" "dp_inv r'" "strips_added v ty cl 0 (gh_size v) q' r'"
    using Cumulate_plain [OF q'(2) hit_fits_added [OF assms(2) q'(3)] assms(4)] by blast
  have n: "dpNStrips q = dpNStrips p" "dpNSamples q = dpNSamples p" "dpNStrips q' = dpNStrips p"
      "dpNSamples q' = dpNSamples p" "dpNStrips r = dpNStrips p" "dpNSamples r = dpNSamples p"
      "dpNStrips r' = dpNStrips p" "dpNSamples r' = dpNSamples p"
      "dpThreshold r = dpThreshold p" "dpThreshold r' = dpThreshold p"
    using q(3) r(3) q'(3) r'(3) by (simp_all add: strips_added_def)
  have adc: "adc_at r i k = adc_at r' i k" if "i < dpNStrips p" "k < dpNSamples p" for i k
    using q(3) r(3) q'(3) r'(3) n that by (simp add: strips_added_def Let_def)
  have tot: "dpTotADC r ! i = dpTotADC r' ! i" if "i < dpNStrips p" for i
    using r(2) r'(2) n that adc by (simp add: dp_inv_def dp_shape_def)
  have rest: "dpCharge r ! i = dpCharge r' ! i \<and> dpTime r ! i = dpTime r' ! i \<and> dpType r ! i = dpType r' ! i"
    if "i < dpNStrips p" for i
    using q(3) r(3) q'(3) r'(3) n(1,3) that
    by (simp add: strips_added_def Let_def or.assoc or.commute or.left_commute min.assoc min.commute min.left_commute)
  have "set (dpOver r) = set (dpOver r')"
    using dp_inv_over [OF r(2)] dp_inv_over [OF r'(2)] n tot by auto
  then show ?thesis using q(1) r(1) q'(1) r'(1) adc tot rest by blast
qed

theorem Cumulate_commute_witness:
  "\<exists>q q' r r'. Cumulate no_xtalk (Some (hit1 0 7)) 1 4 plane2 = Some q
    \<and> Cumulate no_xtalk (Some (hit1 1 9)) 2 5 q = Some r
    \<and> Cumulate no_xtalk (Some (hit1 1 9)) 2 5 plane2 = Some q'
    \<and> Cumulate no_xtalk (Some (hit1 0 7)) 1 4 q' = Some r' \<and> set (dpOver r) = set (dpOver r')"
  using Cumulate_commute [OF plane2_inv(1) hit1_fits hit1_fits, of 0 7 1 9 no_xtalk 1 4 2 5] by auto

section \<open>Threshold\<close>

lemma scan_threshold_filter:
  "scan_threshold thr j ts acc = acc @ filter (\<lambda>i. thr < ts ! (i - j)) [j..<j + length ts]"
proof (induction ts arbitrary: j acc)
  case (Cons t ts)
  have "filter (\<lambda>i. thr < (t # ts) ! (i - j)) [j..<j + length (t # ts)]
      = (if thr < t then [j] else []) @ filter (\<lambda>i. thr < (t # ts) ! (i - j)) [Suc j..<Suc j + length ts]"
    using upt_conv_Cons [of j "j + length (t # ts)"] by simp
  also have "filter (\<lambda>i. thr < (t # ts) ! (i - j)) [Suc j..<Suc j + length ts]
      = filter (\<lambda>i. thr < ts ! (i - Suc j)) [Suc j..<Suc j + length ts]"
    by (intro filter_cong refl) (auto simp: nth_Cons' Suc_diff_Suc)
  finally show ?case using Cons.IH by simp
qed simp

text \<open>Recomputing the list with Threshold: the result counts exactly the strips above the
  new threshold, the list holds them in increasing order, and the invariant holds again; with the
  old threshold the list is a permutation of the one Cumulate had built up.\<close>

lemma Threshold_over:
  assumes "dp_inv p"
  shows "case Threshold thr p of (n, q) \<Rightarrow>
    dp_inv q \<and> n = card {i. i < dpNStrips p \<and> thr < dpTotADC p ! i}
    \<and> dpOver q = filter (\<lambda>i. thr < dpTotADC p ! i) [0..<dpNStrips p]
    \<and> (thr = dpThreshold p \<longrightarrow> mset (dpOver q) = mset (dpOver p))"
proof -
  let ?f = "filter (\<lambda>i. thr < dpTotADC p ! i) [0..<dpNStrips p]"
  have len: "length (dpTotADC p) = dpNStrips p" using assms by (simp add: dp_inv_def dp_shape_def)
  have sc: "scan_threshold thr 0 (dpTotADC p) [] = ?f" using len by (simp add: scan_threshold_filter)
  have st: "set ?f = {i. i < dpNStrips p \<and> thr < dpTotADC p ! i}" by auto
  have "length ?f = card {i. i < dpNStrips p \<and> thr < dpTotADC p ! i}"
    using distinct_card [of ?f] st by simp
  moreover have "dp_inv (p \<lparr> dpThreshold := thr, dpOver := ?f \<rparr>)"
    using assms unfolding dp_inv_def dp_shape_def over_ok_def adc_at_def by auto
  moreover have "mset ?f = mset (dpOver p)" if "thr = dpThreshold p"
    using dp_inv_over [OF assms] st that assms
    by (intro set_eq_iff_mset_eq_distinct [THEN iffD1]) (auto simp: dp_inv_def over_ok_def)
  ultimately show ?thesis using sc by (simp add: Threshold_def Let_def)
qed

lemma Threshold_over_example:
  "case Threshold 3 plane2 of (n, q) \<Rightarrow> dp_inv q"
  using Threshold_over [OF plane2_inv(1), of 3] by (simp split: prod.splits)

section \<open>Bookkeeping of the clusters\<close>

fun cumulate_all :: "(xtalk \<times> gemhit \<times> int \<times> int) list \<Rightarrow> dplane \<Rightarrow> dplane option" where
  "cumulate_all [] p = Some p"
| "cumulate_all ((x, v, ty, cl) # hs) p = do { q \<leftarrow> Cumulate x (Some v) ty cl p; cumulate_all hs q }"

text \<open>The samples that a list of hits induces on strip i.\<close>

definition all_induced :: "(xtalk \<times> gemhit \<times> int \<times> int) list \<Rightarrow> nat \<Rightarrow> nat \<Rightarrow> int" where
  "all_induced hs i k = sum_list (map (\<lambda>(x, v, ty, cl). induced_adc x v i k) hs)"

text \<open>Every sample is the sum of the recorded contributions and the given induced samples.\<close>

definition books :: "(nat \<Rightarrow> nat \<Rightarrow> int) \<Rightarrow> dplane \<Rightarrow> bool" where
  "books g p \<longleftrightarrow> (\<forall>i < dpNStrips p. length (dpStripWeight p ! i) = length (dpStripClusters p ! i)
     \<and> (\<forall>k < dpNSamples p. length (dpClusterADC p ! k ! i) = length (dpStripClusters p ! i)
          \<and> adc_at p i k = sum_list (dpClusterADC p ! k ! i) + g i k))"

lemma books_added:
  assumes "books g p" "strips_added v ty cl j n p q" "same_size q r" "records r = records q"
    "\<forall>i < dpNStrips p. \<forall>k < dpNSamples p. adc_at r i k = adc_at q i k + h i k"
  shows "books (\<lambda>i k. g i k + h i k) r"
proof -
  have rec: "dpStripClusters r = dpStripClusters q" "dpStripWeight r = dpStripWeight q" "dpClusterADC r = dpClusterADC q"
    using assms(4) by (simp_all add: records_def)
  show ?thesis using assms(1-3,5) unfolding books_def rec by (simp add: strips_added_def same_size_def Let_def)
qed

lemma books_Clear: "dpNSamples p \<le> 6 \<Longrightarrow> books (\<lambda>i k. 0) (dp_Clear p)"
proof -
  assume "dpNSamples p \<le> 6"
  moreover have "adc_at (dp_Clear p) i k = 0" if "i < dpNStrips p" "k < dpNSamples p" for i k
    using sample_index [OF that] by (simp add: adc_at_def dp_Clear_def)
  ultimately show ?thesis by (simp add: books_def) (simp add: dp_Clear_def)
qed

lemma books_all:
  assumes "dp_inv q" "books g q" "\<forall>(x, v, ty, cl) \<in> set hs. hit_fits v q \<and> xtalk_fits x v"
  shows "\<exists>r. cumulate_all hs q = Some r \<and> dp_inv r \<and> books (\<lambda>i k. g i k + all_induced hs i k) r \<and> same_size q r"
  using assms
proof (induction hs arbitrary: q g)
  case (Cons h hs)
  obtain x v ty cl where h: "h = (x, v, ty, cl)" by (cases h) auto
  have fit: "hit_fits v q" "xtalk_fits x v" using Cons.prems(3) h by auto
  obtain q1 r where r: "Cumulate x (Some v) ty cl q = Some r" "dp_inv r" "strips_added v ty cl 0 (gh_size v) q q1"
      "same_size q1 r" "records r = records q1"
      "\<forall>i < dpNStrips q. \<forall>k < dpNSamples q. adc_at r i k = adc_at q1 i k + induced_adc x v i k"
    using Cumulate_parts [OF Cons.prems(1) fit, of ty cl] unfolding Let_def by blast
  have sz: "same_size q r" using r(3,4) by (simp add: strips_added_def same_size_def)
  have "\<forall>(x, v, ty, cl) \<in> set hs. hit_fits v r \<and> xtalk_fits x v"
    using Cons.prems(3) sz by (auto simp: same_size_def elim: hit_fits_same)
  then obtain t where t: "cumulate_all hs r = Some t" "dp_inv t" "same_size r t"
      "books (\<lambda>i k. g i k + induced_adc x v i k + all_induced hs i k) t"
    using Cons.IH [OF r(2) books_added [OF Cons.prems(2) r(3-6)]] by blast
  have "(\<lambda>i k. g i k + induced_adc x v i k + all_induced hs i k) = (\<lambda>i k. g i k + all_induced (h # hs) i k)"
    by (intro ext) (simp add: all_induced_def h)
  then show ?case using t r(1) sz h by (intro exI [of _ t]) (simp add: same_size_def)
qed (simp add: same_size_def all_induced_def)

text \<open>C11. Every count is traced: after any sequence of hits on a cleared plane, each with its own cross-talk
  settings and random numbers, each sample of a strip is the sum of the contributions recorded for it
  and of the samples that cross talk induced there, for which nothing is recorded; and cluster numbers,
  weights and contributions of a strip are lists of the same length.  The plane has at most six samples and 32767 strips, the threshold is not negative, the
  hits fit the plane, and the induced samples an Int\_t.\<close>

theorem contributions_complete:
  assumes "dpNSamples p \<le> 6" "dpNStrips p \<le> 32767" "0 \<le> dpThreshold p" "\<forall>(x, v, ty, cl) \<in> set hs. hit_fits v p \<and> xtalk_fits x v"
  shows "\<exists>q. cumulate_all hs (dp_Clear p) = Some q \<and> dp_inv q \<and>
    (\<forall>i < dpNStrips p. length (dpStripWeight q ! i) = length (dpStripClusters q ! i)
      \<and> (\<forall>k < dpNSamples p. length (dpClusterADC q ! k ! i) = length (dpStripClusters q ! i)
           \<and> dp_GetADC q i k = Some (sum_list (dpClusterADC q ! k ! i) + all_induced hs i k)))"
proof -
  have n: "dpNStrips (dp_Clear p) = dpNStrips p" "dpNSamples (dp_Clear p) = dpNSamples p"
    by (simp_all add: dp_Clear_def)
  have "\<forall>(x, v, ty, cl) \<in> set hs. hit_fits v (dp_Clear p) \<and> xtalk_fits x v"
    using assms(4) n by (auto elim: hit_fits_same)
  then obtain r where r: "cumulate_all hs (dp_Clear p) = Some r" "dp_inv r" "books (\<lambda>i k. 0 + all_induced hs i k) r"
      "same_size (dp_Clear p) r"
    using books_all [OF dp_Clear_inv [OF assms(1-3)] books_Clear [OF assms(1)]] by blast
  have "dp_GetADC r i k = Some (adc_at r i k)" if "i < dpNStrips p" "k < dpNSamples p" for i k
    using r(2,4) sample_index [OF that] n
    by (simp add: dp_GetADC_def rd_def adc_at_def dp_inv_def dp_shape_def same_size_def)
  then show ?thesis using r n by (auto simp: books_def same_size_def)
qed

text \<open>Two hits on strip 0, the second inducing half its samples on strip 1.\<close>

definition xtalk1 :: xtalk where
  "xtalk1 = \<lparr> xtDo = True, xtApart = 1, xtFactor = 1 / 2, xtIsLeft = 1, xtNoise = 0 \<rparr>"

theorem contributions_complete_witness:
  "\<exists>q. cumulate_all [(no_xtalk, hit1 0 7, 1, 1), (xtalk1, hit1 0 4, 1, 2)] (dp_Clear plane2) = Some q \<and> dp_inv q
    \<and> dp_GetADC q 1 0 = Some (sum_list (dpClusterADC q ! 0 ! 1) + 2)"
proof -
  let ?hs = "[(no_xtalk, hit1 0 7, 1, 1), (xtalk1, hit1 0 4, 1, 2)]"
  have x: "xtalk_fits xtalk1 (hit1 0 4)" by (simp add: xtalk_fits_def xtalk1_def hit1_def hit_adc_def)
  have p: "dpNSamples plane2 \<le> 6" "dpNStrips plane2 \<le> 32767" "0 \<le> dpThreshold plane2" by (simp_all add: plane2_def dp_Clear_def)
  have f: "\<forall>(x, v, ty, cl) \<in> set ?hs. hit_fits v plane2 \<and> xtalk_fits x v" using x hit1_fits by simp
  have i: "all_induced ?hs 1 0 = 2"
    by (simp add: all_induced_def induced_adc_def induced_strips_def xtalk1_def induced_at_def hit1_def hit_adc_def)
  obtain q where q: "cumulate_all ?hs (dp_Clear plane2) = Some q" "dp_inv q"
      "\<forall>i < dpNStrips plane2. \<forall>k < dpNSamples plane2.
         dp_GetADC q i k = Some (sum_list (dpClusterADC q ! k ! i) + all_induced ?hs i k)"
    using contributions_complete [OF p f] by blast
  have "dp_GetADC q 1 0 = Some (sum_list (dpClusterADC q ! 0 ! 1) + all_induced ?hs 1 0)"
    using q(3) by (simp only: plane2_inv(2,3))
  then show ?thesis using q(1,2) unfolding i by blast
qed

section \<open>Links to the clusters\<close>

text \<open>All cluster numbers on the plane satisfy C, and every number has its weight and samples.\<close>

definition well_linked :: "(int \<Rightarrow> bool) \<Rightarrow> dplane \<Rightarrow> bool" where
  "well_linked C p \<longleftrightarrow> (\<forall>i < dpNStrips p. (\<forall>c \<in> set (dpStripClusters p ! i). C c)
     \<and> length (dpStripWeight p ! i) = length (dpStripClusters p ! i)
     \<and> (\<forall>k < dpNSamples p. length (dpClusterADC p ! k ! i) = length (dpStripClusters p ! i)))"

lemma well_linked_mono: "well_linked C p \<Longrightarrow> (\<And>c. C c \<Longrightarrow> D c) \<Longrightarrow> well_linked D p"
  by (auto simp: well_linked_def)

lemma well_linked_Clear: "dpNSamples p \<le> 6 \<Longrightarrow> well_linked C (dp_Clear p)"
  by (simp add: well_linked_def dp_Clear_def)

lemma well_linked_records: "well_linked C p \<Longrightarrow> records q = records p \<Longrightarrow> same_size p q \<Longrightarrow> well_linked C q"
  by (auto simp: well_linked_def records_def same_size_def)

lemma well_linked_added: "well_linked C p \<Longrightarrow> strips_added v ty cl j n p q \<Longrightarrow> C cl \<Longrightarrow> well_linked C q"
  by (simp add: well_linked_def strips_added_def Let_def ball_Un)

lemma Cumulate_linked:
  assumes "dp_inv p" "hit_fits v p" "xtalk_fits x v" "well_linked C p" "C cl"
  shows "\<exists>q. Cumulate x (Some v) ty cl p = Some q \<and> dp_inv q \<and> same_size p q \<and> well_linked C q
    \<and> (\<forall>i < dpNStrips p. \<forall>k < dpNSamples p. adc_at q i k = adc_at p i k + direct_adc v i k + induced_adc x v i k)"
proof -
  obtain q where q: "Cumulate x (Some v) ty cl p = Some q" "dp_inv q" "same_size p q"
      "\<forall>i < dpNStrips p. \<forall>k < dpNSamples p. adc_at q i k = adc_at p i k + direct_adc v i k + induced_adc x v i k"
    using Cumulate_keeps [OF assms(1-3)] by blast
  obtain r where r: "cum_strips v ty cl 0 (gh_size v) p = Some r" "strips_added v ty cl 0 (gh_size v) p r"
    using cum_strips_ok [OF assms(1,2), of 0 "gh_size v"] by auto
  have "records q = records r"
    using q(1) r(1) by (auto simp: Cumulate_def Let_def dest: xt_strips_records split: if_splits)
  moreover have "same_size r q" using q(3) r(2) by (simp add: same_size_def strips_added_def)
  ultimately show ?thesis using q well_linked_records [OF well_linked_added [OF assms(4) r(2) assms(5)]] by blast
qed

section \<open>Bounds of the counts\<close>

text \<open>A hit adds at most once to every strip, and at most once by cross talk.\<close>

lemma sum_once:
  fixes f :: "nat \<Rightarrow> int"
  assumes "0 \<le> D" "inj_on g (set xs)" "distinct xs"
  shows "\<forall>j \<in> set xs. 0 \<le> f j \<and> f j \<le> D \<Longrightarrow> 0 \<le> sum_list (map f (filter (\<lambda>j. g j = c) xs))
    \<and> sum_list (map f (filter (\<lambda>j. g j = c) xs)) \<le> D"
  using assms(2,3)
proof (induction xs)
  case (Cons j xs)
  show ?case
  proof (cases "g j = c")
    case True
    have "g i \<noteq> c" if "i \<in> set xs" for i
    proof -
      have "i \<noteq> j" using that Cons.prems(3) by auto
      then show ?thesis using inj_onD [OF Cons.prems(2), of i j] that True by auto
    qed
    then have "filter (\<lambda>j. g j = c) xs = []" by (simp add: filter_empty_conv)
    then show ?thesis using True Cons.prems(1) by simp
  next
    case False
    then show ?thesis using Cons by simp
  qed
qed (use assms(1) in simp)

definition adc_below :: "int \<Rightarrow> dplane \<Rightarrow> bool" where
  "adc_below B p \<longleftrightarrow> (\<forall>i < dpNStrips p. \<forall>k < dpNSamples p. 0 \<le> adc_at p i k \<and> adc_at p i k \<le> B)"

lemma adc_below_mono: "adc_below B p \<Longrightarrow> B \<le> C \<Longrightarrow> adc_below C p"
  unfolding adc_below_def by (meson order_trans)

lemma adc_below_Clear: "adc_below 0 (dp_Clear p)"
  using sample_index by (auto simp: adc_below_def adc_at_def dp_Clear_def)

text \<open>Every sample of the array belongs to a strip.\<close>

lemma adc_below_array:
  assumes "adc_below B p" "dp_shape p" "a \<in> set (dpStripADC p)"
  shows "0 \<le> a \<and> a \<le> B"
proof -
  obtain n where n: "n < dpNSamples p * dpNStrips p" "a = dpStripADC p ! n"
    using assms(2,3) by (auto simp: dp_shape_def in_set_conv_nth)
  have "0 < dpNSamples p" using n(1) by (cases "dpNSamples p") auto
  moreover have "n div dpNSamples p < dpNStrips p" using n(1) by (simp add: less_mult_imp_div_less mult.commute)
  moreover have "a = adc_at p (n div dpNSamples p) (n mod dpNSamples p)" by (simp add: n(2) adc_at_def)
  ultimately show ?thesis using assms(1) by (simp add: adc_below_def)
qed

lemma hit_adds_once:
  assumes "inj_on (\<lambda>j. gh_idx v ! j) {..<gh_size v}" "\<forall>j < gh_size v. 0 \<le> hit_adc v j k \<and> hit_adc v j k \<le> D"
    "0 \<le> D" "of_int D * (1 + max 0 (xtFactor x + xtNoise x)) \<le> (of_int K :: real)"
  shows "0 \<le> direct_adc v i k + induced_adc x v i k" "direct_adc v i k + induced_adc x v i k \<le> K"
proof -
  let ?F = "xtFactor x + xtNoise x"
  have d: "0 \<le> direct_adc v i k \<and> direct_adc v i k \<le> D"
    using sum_once [OF assms(3), of "\<lambda>j. gh_idx v ! j" "[0..<gh_size v]" "\<lambda>j. hit_adc v j k" "int i"] assms(1,2)
    by (simp add: direct_adc_def at_strip_def [abs_def] atLeast0LessThan)
  have n: "0 \<le> induced_adc x v i k \<and> induced_adc x v i k \<le> \<lfloor>of_int D * max 0 ?F\<rfloor>"
  proof (cases "xtDo x \<and> 0 < ?F")
    case True
    have b: "0 \<le> \<lfloor>of_int (hit_adc v j k) * ?F\<rfloor> \<and> \<lfloor>of_int (hit_adc v j k) * ?F\<rfloor> \<le> \<lfloor>of_int D * ?F\<rfloor>"
      if "j < gh_size v" for j
      using assms(2) that True by (auto intro!: floor_mono mult_right_mono)
    have "inj_on (\<lambda>j. gh_idx v ! j + xtIsLeft x * xtApart x) (set [0..<gh_size v])"
      using assms(1) by (auto simp: inj_on_def)
    moreover have "0 \<le> \<lfloor>of_int D * ?F\<rfloor>" using assms(3) True by simp
    ultimately show ?thesis
      using sum_once [of "\<lfloor>of_int D * ?F\<rfloor>" "\<lambda>j. gh_idx v ! j + xtIsLeft x * xtApart x" "[0..<gh_size v]"
          "\<lambda>j. \<lfloor>of_int (hit_adc v j k) * ?F\<rfloor>" "int i"] b True
      by (simp add: induced_adc_def induced_strips_def induced_at_def [abs_def])
  next
    case False
    have "0 \<le> of_int D * max 0 ?F" using assms(3) by simp
    moreover have "induced_strips x v i = []" unfolding induced_strips_def using False by (rule if_not_P)
    ultimately show ?thesis by (simp add: induced_adc_def)
  qed
  show "0 \<le> direct_adc v i k + induced_adc x v i k" using d n by simp
  have "of_int (D + \<lfloor>of_int D * max 0 ?F\<rfloor>) \<le> (of_int K :: real)"
    using assms(4) of_int_floor_le [of "of_int D * max 0 ?F :: real"] unfolding of_int_add distrib_left mult_1_right
    by linarith
  then have "D + \<lfloor>of_int D * max 0 ?F\<rfloor> \<le> K" by (simp only: of_int_le_iff)
  then show "direct_adc v i k + induced_adc x v i k \<le> K" using d n by linarith
qed

end
