(* ===== verification/Avalanche.thy ===== *)
theory Avalanche
  imports Auxi DigitizedPlane Plane
begin

text \<open>
  The ionization and avalanche models of TSBSSimGEMDigitization
  (src/src/TSBSSimGEMDigitization.cxx, IonModel and AvaModel): from the entrance and exit
  points of a particle in a chamber to the strips with signal on its readout planes.

  The random generator is a parameter that gives the n-th draw; every call uses up one
  number.  Lengths are in mm, as in the code, unless a strip geometry function is called,
  which works in m.
\<close>

section \<open>Parameters\<close>

record rng =
  rgGaus :: "nat \<Rightarrow> real \<Rightarrow> real \<Rightarrow> real"
  rgUniform :: "nat \<Rightarrow> real \<Rightarrow> real \<Rightarrow> real"
  rgPoisson :: "nat \<Rightarrow> real \<Rightarrow> nat"
  rgExp :: "nat \<Rightarrow> real \<Rightarrow> real"

record gempar =
  gpGasWion :: real
  gpGasDiffusion :: real
  gpGasDriftVelocity :: real
  gpFiducialBand :: real
  gpChargeStatistics :: int
  gpGainMean :: real
  gpGain0 :: real
  gpMaxNIon :: nat
  gpSNormNsigma :: real
  gpAvaGain :: real
  gpTriggerOffset :: "real list"
  gpTriggerJitter :: real
  gpSamplingPoints :: int
  gpSamplingPeriod :: real
  gpADCoffset :: real
  gpADCgain :: real
  gpADCbits :: int
  gpGateWidth :: real
  gpEntranceRef :: real
  gpLateralUncertainty :: real
  gpPulseNoiseSigma :: real
  gpTau0 :: real
  gpTau1 :: real
  gpRoutZ :: real
  gpYSteps :: nat
  gpXSteps :: nat
  gpDoCrossTalk :: int
  gpNCStripApart :: int
  gpCrossFactor :: real
  gpCrossSigma :: real

text \<open>IonPar\_t, and the members IonModel leaves for AvaModel.  fRSMax, fRTotalCharge and fRTime0
  are not initialized by the constructor: None until IonModel sets them.\<close>

record ionpar =
  ipX :: real
  ipY :: real
  ipCharge :: real
  ipSNorm :: real
  ipR2 :: real
  ipggnorm :: real

record ions =
  ioDraws :: nat
  ioNIon :: nat
  ioRIon :: "ionpar list"
  ioRSMax :: "real option"
  ioTotalCharge :: "real option"
  ioTime0 :: "real option"

text \<open>A square root of a negative number is no number.\<close>

definition c_sqrt :: "real \<Rightarrow> real option" where
  "c_sqrt x = (if x < 0 then None else Some (sqrt x))"

lemma c_sqrt_Some [simp]: "c_sqrt x = Some y \<longleftrightarrow> 0 \<le> x \<and> y = sqrt x"
  by (auto simp: c_sqrt_def)

section \<open>IonModel\<close>

definition ion_charge :: "rng \<Rightarrow> gempar \<Rightarrow> nat \<Rightarrow> real option" where
  "ion_charge R g d =
     (if gpChargeStatistics g = 1 then do {
        s \<leftarrow> c_sqrt (gpGain0 g);
        gnorm \<leftarrow> c_div (gpGainMean g) s;
        Some (rgGaus R d (gpGainMean g) gnorm) }
      else Some (rgExp R d (gpGainMean g)))"

definition ion_step :: "rng \<Rightarrow> gempar \<Rightarrow> vec3 \<Rightarrow> vec3 \<Rightarrow> nat \<Rightarrow> ions \<Rightarrow> ions option" where
  "ion_step R g xi vseg i s = do {
     rsmax \<leftarrow> ioRSMax s; total \<leftarrow> ioTotalCharge s; time0 \<leftarrow> ioTime0 s;
     let d = ioDraws s;
     let lion = rgUniform R d 0 1;
     let X = vx vseg * lion + vx xi + rgGaus R (d + 1) 0 (gpLateralUncertainty g);
     let Y = vy vseg * lion + vy xi + rgGaus R (d + 2) 0 (gpLateralUncertainty g);
     let LD = \<bar>vz xi - gpEntranceRef g\<bar>;
     let LL = \<bar>gpRoutZ g - LD - vz vseg * lion\<bar>;
     ttime \<leftarrow> c_div LL (gpGasDriftVelocity g);
     let time0 = min ttime time0;
     SNorm \<leftarrow> c_sqrt (2 * gpGasDiffusion g * ttime);
     Charge \<leftarrow> ion_charge R g (d + 3);
     let total = (if 0 < Charge then total + Charge else total);
     let Charge = (if 0 < Charge then Charge else 0);
     let rsmax = max SNorm rsmax;
     let SNorm = SNorm * gpSNormNsigma g;
     let R2 = SNorm * SNorm;
     ggnorm \<leftarrow> c_div (Charge * (1 / pi)) R2;
     let ip = \<lparr> ipX = X, ipY = Y, ipCharge = Charge, ipSNorm = SNorm, ipR2 = R2, ipggnorm = ggnorm \<rparr>;
     rion \<leftarrow> wr i ip (ioRIon s);
     Some (s \<lparr> ioDraws := d + 4, ioRIon := rion, ioRSMax := Some rsmax, ioTotalCharge := Some total,
               ioTime0 := Some time0 \<rparr>) }"

fun ion_loop :: "rng \<Rightarrow> gempar \<Rightarrow> vec3 \<Rightarrow> vec3 \<Rightarrow> nat \<Rightarrow> nat \<Rightarrow> ions \<Rightarrow> ions option" where
  "ion_loop R g xi vseg i 0 s = Some s"
| "ion_loop R g xi vseg i (Suc n) s = do {
     s \<leftarrow> ion_step R g xi vseg i s;
     ion_loop R g xi vseg (i + 1) n s }"

definition IonModel :: "rng \<Rightarrow> gempar \<Rightarrow> vec3 \<Rightarrow> vec3 \<Rightarrow> real \<Rightarrow> ions \<Rightarrow> ions option" where
  "IonModel R g xi xo elost s = do {
     let vseg = xo - xi;
     mean \<leftarrow> c_div elost (gpGasWion g);
     let n = rgPoisson R (ioDraws s) mean;
     let s = s \<lparr> ioDraws := ioDraws s + 1, ioNIon := n \<rparr>;
     if n = 0 then Some s
     else (let n = (if gpMaxNIon g < n then gpMaxNIon g else n);
               s = s \<lparr> ioNIon := n, ioRSMax := Some 0, ioTotalCharge := Some 0, ioTime0 := Some 999999 \<rparr>
           in ion_loop R g xi vseg 0 n s) }"

section \<open>AvaModel: the region\<close>

text \<open>Lower and upper end of the diffusion area along one axis.\<close>

definition ava_extent :: "real \<Rightarrow> real \<Rightarrow> real \<Rightarrow> real \<times> real" where
  "ava_extent a b m = (if a < b then (a - m, b + m) else (b - m, a + m))"

definition strip_range :: "plane \<Rightarrow> real \<times> real" where
  "strip_range pl =
     ((GetStripLowerEdge pl 0 + plSPitch pl / 2) * 1000,
      (GetStripUpperEdge pl ((plNStrips pl - 1) mod 4294967296) - plSPitch pl / 2) * 1000)"

text \<open>None: out of the sector's bounding box.\<close>

definition ava_region :: "plane \<Rightarrow> plane \<Rightarrow> vec3 \<Rightarrow> vec3 \<Rightarrow> real \<Rightarrow> (real \<times> real \<times> real \<times> real) option" where
  "ava_region plx ply xi xo m =
     (let (x0, x1) = ava_extent (vx xi) (vx xo) m;
          (y0, y1) = ava_extent (vy xi) (vy xo) m;
          (glx, gux) = strip_range plx;
          (gly, guy) = strip_range ply
      in if x1 < glx \<or> gux < x0 \<or> y1 < gly \<or> guy < y0 then None
         else Some (if x0 < glx then glx else x0, if y0 < gly then gly else y0,
                    if gux < x1 then gux else x1, if guy < y1 then guy else y1))"

text \<open>The strips of a plane the region touches, with the y coordinates of its corners in the
  strip frame.  Inner None: both corners are outside the plane.\<close>

definition corner_in_strips :: "plane \<Rightarrow> real \<Rightarrow> real \<Rightarrow> real \<times> real" where
  "corner_in_strips pl x y =
     (let v = PlaneToStrip pl (Vec (x / 1000) (y / 1000) 0) in (vx v * 1000, vy v * 1000))"

definition ava_strips ::
  "plane \<Rightarrow> real \<times> real \<times> real \<times> real \<Rightarrow> (int \<times> int \<times> real \<times> real) option option" where
  "ava_strips pl region =
     (let (x0, y0, x1, y1) = region;
          (xs0, ys0) = corner_in_strips pl x0 y0;
          (xs1, ys1) = corner_in_strips pl x1 y1
      in do {
        iL \<leftarrow> GetStrip pl (xs0 / 1000) (ys0 / 1000);
        iU \<leftarrow> GetStrip pl (xs1 / 1000) (ys1 / 1000);
        if iL < 0 \<and> iU < 0 then Some None
        else do {
          iL' \<leftarrow> (if iL < 0 then GetStripInRange pl (xs0 / 1000) else Some iL);
          iU' \<leftarrow> (if iL < 0 then Some iU
                 else if iU < 0 then GetStripInRange pl (xs1 / 1000) else Some iU);
          Some (Some (min iL' iU', max iL' iU', ys0, ys1)) } })"

section \<open>AvaModel: the integration grid\<close>

record grid =
  grXl :: real
  grXbw :: real
  grYb :: real
  grYbw :: real
  grNx :: int
  grNy :: int

text \<open>TMath::Nint is applied to a number that is an integer.  A failing assert is None; so is a
  number of bins that does not fit the Short\_t parameter of the TSBSGEMHit constructor, as the
  hit then gets no arrays.\<close>

definition ava_grid :: "gempar \<Rightarrow> plane \<Rightarrow> int \<Rightarrow> int \<Rightarrow> real \<Rightarrow> real \<Rightarrow> grid option" where
  "ava_grid g pl iL iU ys0 ys1 =
     (let xl = GetStripLowerEdge pl iL * 1000; xr = GetStripUpperEdge pl iU * 1000 in do {
        yq \<leftarrow> c_div (plSPitch pl * 1000) (real (gpYSteps g));
        qb \<leftarrow> c_div (min ys0 ys1) yq;
        qt \<leftarrow> c_div (max ys0 ys1) yq;
        let yb = yq * of_int \<lfloor>qb\<rfloor>;
        let yt = yq * of_int \<lceil>qt\<rceil>;
        let nx = (iU - iL + 1) * int (gpXSteps g);
        q \<leftarrow> c_div (yt - yb) yq;
        ny \<leftarrow> to_int32 (c_round q);
        if \<not> (0 < nx \<and> 0 < ny) \<or> 32767 < nx then None
        else Some \<lparr> grXl = xl, grXbw = (xr - xl) / of_int nx, grYb = yb, grYbw = (yt - yb) / of_int ny,
                    grNx = nx, grNy = ny \<rparr> })"

text \<open>One column of bins: the loop over jy, with the bin centre yc.\<close>

fun ava_col :: "real \<Rightarrow> real \<Rightarrow> real \<Rightarrow> real \<Rightarrow> real \<Rightarrow> real \<Rightarrow> int \<Rightarrow> int \<Rightarrow> nat \<Rightarrow> real \<Rightarrow> real list \<Rightarrow> real list option" where
  "ava_col frys xd2 r2 amp eff2 ybw jx_base jy 0 yc fSumA = Some fSumA"
| "ava_col frys xd2 r2 amp eff2 ybw jx_base jy (Suc n) yc fSumA = do {
     let yd2 = (frys - yc) * (frys - yc);
     fSumA \<leftarrow> (if xd2 + yd2 \<le> r2 then do {
         q \<leftarrow> c_div amp (xd2 + yd2 + eff2);
         a \<leftarrow> rdi fSumA (jx_base + jy);
         Some (fSumA[nat (jx_base + jy) := a + q]) }
       else Some fSumA);
     ava_col frys xd2 r2 amp eff2 ybw jx_base (jy + 1) n (yc + ybw) fSumA }"

fun ava_cols :: "grid \<Rightarrow> real \<Rightarrow> real \<Rightarrow> real \<Rightarrow> real \<Rightarrow> real \<Rightarrow> int \<Rightarrow> int \<Rightarrow> int \<Rightarrow> nat \<Rightarrow> real \<Rightarrow> real list \<Rightarrow> real list option" where
  "ava_cols gr frxs frys r2 amp eff2 miny maxy jx 0 xc fSumA = Some fSumA"
| "ava_cols gr frxs frys r2 amp eff2 miny maxy jx (Suc n) xc fSumA = do {
     fSumA \<leftarrow> ava_col frys ((frxs - xc) * (frxs - xc)) r2 amp eff2 (grYbw gr) (jx * grNy gr) miny
       (nat (maxy - miny)) (grYb gr + (of_int miny + 1/2) * grYbw gr) fSumA;
     ava_cols gr frxs frys r2 amp eff2 miny maxy (jx + 1) n (xc + grXbw gr) fSumA }"

definition ava_ion :: "gempar \<Rightarrow> plane \<Rightarrow> grid \<Rightarrow> ionpar \<Rightarrow> real list \<Rightarrow> real list option" where
  "ava_ion g pl gr ip fSumA =
     (let (frxs, frys) = corner_in_strips pl (ipX ip) (ipY ip) in do {
        qx \<leftarrow> c_div (frxs - grXl gr) (grXbw gr); ix \<leftarrow> to_int32 qx;
        qy \<leftarrow> c_div (frys - grYb gr) (grYbw gr); iy \<leftarrow> to_int32 qy;
        qdx \<leftarrow> c_div (ipSNorm ip) (grXbw gr); dx \<leftarrow> to_int32 (qdx + 1);
        qdy \<leftarrow> c_div (ipSNorm ip) (grYbw gr); dy \<leftarrow> to_int32 (qdy + 1);
        eff2 \<leftarrow> c_div (ipR2 ip) (gpSNormNsigma g * gpSNormNsigma g);
        eff \<leftarrow> c_sqrt eff2;
        a \<leftarrow> c_div 1 (pi * eff);
        let amp = gpAvaGain g * ipggnorm ip * a * (eff * eff);
        let minx = max (ix - dx) 0;
        let miny = max (iy - dy) 0;
        let maxx = min (ix + dx + 1) (grNx gr);
        let maxy = min (iy + dy + 1) (grNy gr);
        ava_cols gr frxs frys (ipR2 ip) amp eff2 miny maxy minx (nat (maxx - minx))
          (grXl gr + (of_int minx + 1/2) * grXbw gr) fSumA })"

fun ava_ions :: "gempar \<Rightarrow> plane \<Rightarrow> grid \<Rightarrow> ionpar list \<Rightarrow> real list \<Rightarrow> real list option" where
  "ava_ions g pl gr [] fSumA = Some fSumA"
| "ava_ions g pl gr (ip # ips) fSumA = do {
     fSumA \<leftarrow> ava_ion g pl gr ip fSumA;
     ava_ions g pl gr ips fSumA }"

section \<open>AvaModel: signals of the strips\<close>

fun sum_bins :: "real list \<Rightarrow> int \<Rightarrow> nat \<Rightarrow> real \<Rightarrow> real option" where
  "sum_bins fSumA kx 0 acc = Some acc"
| "sum_bins fSumA kx (Suc n) acc = do { a \<leftarrow> rdi fSumA kx; sum_bins fSumA (kx + 1) n (acc + a) }"

fun strip_charge :: "grid \<Rightarrow> real list \<Rightarrow> int \<Rightarrow> int \<Rightarrow> nat \<Rightarrow> real \<Rightarrow> real option" where
  "strip_charge gr fSumA base k 0 us = Some us"
| "strip_charge gr fSumA base k (Suc n) us = do {
     integralY \<leftarrow> sum_bins fSumA ((base + k) * grNy gr) (nat (grNy gr)) 0;
     strip_charge gr fSumA base (k + 1) n (us + integralY * (grXbw gr * grYbw gr)) }"

text \<open>The ADC samples of a strip, written to fDADC, and their sum.\<close>

fun ava_samples :: "gempar \<Rightarrow> real \<Rightarrow> real \<Rightarrow> nat \<Rightarrow> nat \<Rightarrow> int list \<times> int \<Rightarrow> (int list \<times> int) option" where
  "ava_samples g t0 us b 0 (fDADC, posflag) = Some (fDADC, posflag)"
| "ava_samples g t0 us b (Suc n) (fDADC, posflag) = do {
     let pulse = PulseShape4 (gpSamplingPeriod g * real b - t0) us (gpTau0 g) (gpTau1 g);
     dadc \<leftarrow> ADCConvert pulse (gpADCoffset g) (gpADCgain g) (gpADCbits g);
     fDADC \<leftarrow> wr b dadc fDADC;
     ava_samples g t0 us (b + 1) n (fDADC, posflag + dadc) }"

fun add_samples :: "int list \<Rightarrow> nat \<Rightarrow> nat \<Rightarrow> nat \<Rightarrow> gemhit \<Rightarrow> gemhit option" where
  "add_samples fDADC ai b 0 v = Some v"
| "add_samples fDADC ai b (Suc n) v = do {
     x \<leftarrow> rd fDADC b;
     v \<leftarrow> AddSampleAt x b ai v;
     add_samples fDADC ai (b + 1) n v }"

fun ava_store :: "gempar \<Rightarrow> grid \<Rightarrow> real list \<Rightarrow> real \<Rightarrow> int \<Rightarrow> nat \<Rightarrow> nat
    \<Rightarrow> int list \<times> nat \<times> gemhit \<Rightarrow> (int list \<times> nat \<times> gemhit) option" where
  "ava_store g gr fSumA t0 iL j 0 (fDADC, ai, v) = Some (fDADC, ai, v)"
| "ava_store g gr fSumA t0 iL j (Suc n) (fDADC, ai, v) = do {
     us \<leftarrow> strip_charge gr fSumA (int j * int (gpXSteps g)) 0 (gpXSteps g) 0;
     (fDADC, posflag) \<leftarrow> ava_samples g t0 us 0 (nat (gpSamplingPoints g)) (fDADC, 0);
     (ai, v) \<leftarrow> (if 0 < posflag then do {
         v \<leftarrow> add_samples fDADC ai 0 (nat (gpSamplingPoints g)) v;
         v \<leftarrow> AddStripAt (iL + int j) ai v;
         v \<leftarrow> AddChargeAt us ai v;
         Some (ai + 1, v) }
       else Some (ai, v));
     ava_store g gr fSumA t0 iL (j + 1) n (fDADC, ai, v) }"

section \<open>AvaModel\<close>

text \<open>One readout plane.  Inner None: the avalanche is outside the plane.\<close>

definition ava_plane :: "gempar \<Rightarrow> ions \<Rightarrow> plane \<Rightarrow> real \<times> real \<times> real \<times> real \<Rightarrow> real \<Rightarrow> int list
    \<Rightarrow> (int list \<times> gemhit) option option" where
  "ava_plane g s pl region t0 fDADC = do {
     strips \<leftarrow> ava_strips pl region;
     case strips of None \<Rightarrow> Some None
     | Some (iL, iU, ys0, ys1) \<Rightarrow> do {
         total \<leftarrow> ioTotalCharge s;
         gr \<leftarrow> ava_grid g pl iL iU ys0 ys1;
         fSumA \<leftarrow> ava_ions g pl gr (take (ioNIon s) (ioRIon s)) (replicate (nat (grNx gr * grNy gr)) 0);
         let v = SetHitCharge total (SetTime t0 (gemhit_new (nat (grNx gr)) (nat (gpSamplingPoints g))));
         (fDADC, ai, v) \<leftarrow> ava_store g gr fSumA t0 iL 0 (nat (iU - iL + 1)) (fDADC, 0, v);
         Some (Some (fDADC, SetSize ai v)) } }"

fun ava_planes :: "gempar \<Rightarrow> ions \<Rightarrow> plane list \<Rightarrow> real \<times> real \<times> real \<times> real \<Rightarrow> real \<Rightarrow> int list
    \<Rightarrow> gemhit list \<Rightarrow> (int list \<times> gemhit list option) option" where
  "ava_planes g s [] region t0 fDADC virs = Some (fDADC, Some virs)"
| "ava_planes g s (pl # pls) region t0 fDADC virs = do {
     r \<leftarrow> ava_plane g s pl region t0 fDADC;
     case r of None \<Rightarrow> Some (fDADC, None)
     | Some (fDADC, v) \<Rightarrow> ava_planes g s pls region t0 fDADC (virs @ [v]) }"

text \<open>The result is the new fDADC and the hits, or None for the null pointer.\<close>

definition AvaModel :: "gempar \<Rightarrow> spec \<Rightarrow> ions \<Rightarrow> nat \<Rightarrow> vec3 \<Rightarrow> vec3 \<Rightarrow> real \<Rightarrow> int list
    \<Rightarrow> (int list \<times> gemhit list option) option" where
  "AvaModel g spect s ic xi xo t0 fDADC = do {
     rsmax \<leftarrow> ioRSMax s;
     chamber \<leftarrow> GetChamber spect (int ic);
     plx \<leftarrow> rd (chPlanes chamber) 0;
     ply \<leftarrow> rd (chPlanes chamber) 1;
     case ava_region plx ply xi xo (gpFiducialBand g * rsmax) of
       None \<Rightarrow> Some (fDADC, None)
     | Some region \<Rightarrow> ava_planes g s (chPlanes chamber) region t0 fDADC [] }"

section \<open>The grid is never left\<close>

lemma ava_col_ok:
  assumes "0 \<le> jx_base" "0 \<le> jy" "jx_base + jy + int n \<le> int (length s)" "0 \<le> xd2" "0 < eff2"
  shows "\<exists>t. ava_col frys xd2 r2 amp eff2 ybw jx_base jy n yc s = Some t \<and> length t = length s"
  using assms(2,3)
proof (induction n arbitrary: jy yc s)
  case (Suc n)
  have "0 < xd2 + (frys - yc) * (frys - yc) + eff2" using assms(4,5) zero_le_square [of "frys - yc"] by linarith
  then have "\<exists>u. (if xd2 + (frys - yc) * (frys - yc) \<le> r2 then do {
      q \<leftarrow> c_div amp (xd2 + (frys - yc) * (frys - yc) + eff2);
      a \<leftarrow> rdi s (jx_base + jy);
      Some (s[nat (jx_base + jy) := a + q]) } else Some s) = Some u \<and> length u = length s"
    using Suc.prems assms(1) by (auto simp: c_div_def rdi_def rd_def)
  then obtain u where u: "(if xd2 + (frys - yc) * (frys - yc) \<le> r2 then do {
      q \<leftarrow> c_div amp (xd2 + (frys - yc) * (frys - yc) + eff2);
      a \<leftarrow> rdi s (jx_base + jy);
      Some (s[nat (jx_base + jy) := a + q]) } else Some s) = Some u" "length u = length s" by blast
  show ?case using Suc.IH [of "jy + 1" u "yc + ybw"] Suc.prems u by (simp add: Let_def)
qed simp

lemma ava_cols_ok:
  assumes "0 \<le> jx" "jx + int n \<le> grNx gr" "0 \<le> miny" "maxy \<le> grNy gr" "0 < eff2"
    "length s = nat (grNx gr * grNy gr)" "0 \<le> grNy gr"
  shows "\<exists>t. ava_cols gr frxs frys r2 amp eff2 miny maxy jx n xc s = Some t \<and> length t = length s"
  using assms(1,2,6)
proof (induction n arbitrary: jx xc s)
  case (Suc n)
  have "jx * grNy gr + grNy gr \<le> grNx gr * grNy gr"
    using mult_right_mono [of "jx + 1" "grNx gr" "grNy gr"] Suc.prems assms(7) by (simp add: algebra_simps)
  moreover have "int (length s) = grNx gr * grNy gr" using Suc.prems(1,2,3) assms(7) by simp
  ultimately have le: "jx * grNy gr + miny + int (nat (maxy - miny)) \<le> int (length s)" if "miny \<le> maxy"
    using that assms(4) by linarith
  have pos: "0 \<le> jx * grNy gr" using Suc.prems(1) assms(7) by simp
  obtain u where u: "ava_col frys ((frxs - xc) * (frxs - xc)) r2 amp eff2 (grYbw gr) (jx * grNy gr) miny
       (nat (maxy - miny)) (grYb gr + (of_int miny + 1/2) * grYbw gr) s = Some u" "length u = length s"
  proof (cases "miny \<le> maxy")
    case True
    show thesis using ava_col_ok [OF pos assms(3) le [OF True] zero_le_square assms(5)] that by blast
  next
    case False
    then show thesis using that [of s] by simp
  qed
  show ?case using Suc.IH [of "jx + 1" u "xc + grXbw gr"] Suc.prems u by simp
qed simp

text \<open>The bins of an ion can be numbered in 32 bits.\<close>

definition ion_fits :: "gempar \<Rightarrow> plane \<Rightarrow> grid \<Rightarrow> ionpar \<Rightarrow> bool" where
  "ion_fits g pl gr ip \<longleftrightarrow> 0 < ipR2 ip \<and> 0 \<le> ipSNorm ip
     \<and> (let (frxs, frys) = corner_in_strips pl (ipX ip) (ipY ip) in
          \<bar>frxs - grXl gr\<bar> \<le> 2000000000 * grXbw gr \<and> \<bar>frys - grYb gr\<bar> \<le> 2000000000 * grYbw gr)
     \<and> ipSNorm ip \<le> 2000000000 * grXbw gr \<and> ipSNorm ip \<le> 2000000000 * grYbw gr"

definition grid_ok :: "grid \<Rightarrow> bool" where
  "grid_ok gr \<longleftrightarrow> 0 < grNx gr \<and> 0 < grNy gr \<and> 0 < grXbw gr \<and> 0 < grYbw gr"

lemma to_int32_quot:
  assumes "0 < w" "\<bar>x\<bar> \<le> 2000000000 * w"
  shows "\<exists>k. to_int32 (x / w) = Some k"
proof -
  have "\<bar>x / w\<bar> \<le> 2000000000" using assms by (simp add: divide_le_eq)
  moreover have "\<bar>of_int (trunc_int (x / w))\<bar> \<le> \<bar>x / w\<bar>" by (rule trunc_int_abs_le)
  ultimately have "\<bar>trunc_int (x / w)\<bar> \<le> 2000000000" by linarith
  then have "- 2147483648 \<le> trunc_int (x / w)" "trunc_int (x / w) \<le> 2147483647" by linarith+
  then show ?thesis by (simp add: to_int32_def Let_def)
qed

lemma to_int32_quot1:
  assumes "0 < w" "0 \<le> x" "x \<le> 2000000000 * w"
  shows "\<exists>k. to_int32 (x / w + 1) = Some k"
proof -
  have "x + w \<le> 2147483646 * w" using assms by linarith
  then have "to_int32 ((x + w) / w) \<noteq> None"
  proof -
    have q: "0 \<le> (x + w) / w" "(x + w) / w \<le> 2147483646"
      using assms \<open>x + w \<le> 2147483646 * w\<close> by (simp_all add: divide_le_eq)
    then have "\<lfloor>(x + w) / w\<rfloor> \<le> 2147483647" "0 \<le> \<lfloor>(x + w) / w\<rfloor>" by linarith+
    then show ?thesis using q(1) by (simp add: to_int32_def Let_def)
  qed
  moreover have "(x + w) / w = x / w + 1" using assms(1) by (simp add: field_simps)
  ultimately show ?thesis by auto
qed

lemma ava_ion_ok:
  assumes "ion_fits g pl gr ip" "grid_ok gr" "0 < gpSNormNsigma g" "length s = nat (grNx gr * grNy gr)"
  shows "\<exists>t. ava_ion g pl gr ip s = Some t \<and> length t = length s"
proof -
  obtain frxs frys where fr: "corner_in_strips pl (ipX ip) (ipY ip) = (frxs, frys)" by force
  have gr: "0 < grNx gr" "0 < grNy gr" "0 < grXbw gr" "0 < grYbw gr" using assms(2) by (auto simp: grid_ok_def)
  have f: "0 < ipR2 ip" "0 \<le> ipSNorm ip" "\<bar>frxs - grXl gr\<bar> \<le> 2000000000 * grXbw gr"
      "\<bar>frys - grYb gr\<bar> \<le> 2000000000 * grYbw gr" "ipSNorm ip \<le> 2000000000 * grXbw gr"
      "ipSNorm ip \<le> 2000000000 * grYbw gr"
    using assms(1) fr by (auto simp: ion_fits_def)
  obtain ix where ix: "to_int32 ((frxs - grXl gr) / grXbw gr) = Some ix" using to_int32_quot gr f by blast
  obtain iy where iy: "to_int32 ((frys - grYb gr) / grYbw gr) = Some iy" using to_int32_quot gr f by blast
  obtain dx where dx: "to_int32 (ipSNorm ip / grXbw gr + 1) = Some dx" using to_int32_quot1 gr f by blast
  obtain dy where dy: "to_int32 (ipSNorm ip / grYbw gr + 1) = Some dy" using to_int32_quot1 gr f by blast
  define eff2 where "eff2 = ipR2 ip / (gpSNormNsigma g * gpSNormNsigma g)"
  have eff: "0 < eff2" using f(1) assms(3) by (simp add: eff2_def)
  define minx where "minx = max (ix - dx) 0"
  define maxx where "maxx = min (ix + dx + 1) (grNx gr)"
  let ?amp = "gpAvaGain g * ipggnorm ip * (1 / (pi * sqrt eff2)) * (sqrt eff2 * sqrt eff2)"
  have "\<exists>t. ava_cols gr frxs frys (ipR2 ip) ?amp eff2 (max (iy - dy) 0) (min (iy + dy + 1) (grNy gr)) minx
      (nat (maxx - minx)) (grXl gr + (of_int minx + 1/2) * grXbw gr) s = Some t \<and> length t = length s"
  proof (cases "minx \<le> maxx")
    case True
    then show ?thesis using gr eff assms(4)
      by (intro ava_cols_ok) (auto simp: minx_def maxx_def)
  qed simp
  then show ?thesis using fr ix iy dx dy gr assms(3) eff
    by (simp add: ava_ion_def Let_def minx_def maxx_def c_div_def c_sqrt_def flip: eff2_def)
qed

lemma ava_ions_ok:
  assumes "grid_ok gr" "0 < gpSNormNsigma g"
  shows "\<forall>ip \<in> set ips. ion_fits g pl gr ip \<Longrightarrow> length s = nat (grNx gr * grNy gr) \<Longrightarrow>
    \<exists>t. ava_ions g pl gr ips s = Some t \<and> length t = length s"
proof (induction ips arbitrary: s)
  case (Cons ip ips)
  obtain u where "ava_ion g pl gr ip s = Some u" "length u = length s"
    using ava_ion_ok [OF _ assms, of pl ip s] Cons.prems by auto
  then show ?case using Cons.IH [of u] Cons.prems by auto
qed simp

section \<open>Signals of the strips\<close>

lemma sum_bins_ok:
  "0 \<le> kx \<Longrightarrow> kx + int n \<le> int (length s) \<Longrightarrow> \<exists>x. sum_bins s kx n acc = Some x"
  by (induction n arbitrary: kx acc) (simp_all add: rdi_def rd_def)

lemma strip_charge_ok:
  assumes "0 \<le> base" "0 \<le> k" "base + k + int n \<le> grNx gr" "0 \<le> grNy gr" "length s = nat (grNx gr * grNy gr)"
  shows "\<exists>us. strip_charge gr s base k n us0 = Some us"
  using assms(2,3)
proof (induction n arbitrary: k us0)
  case (Suc n)
  have "(base + k + 1) * grNy gr \<le> grNx gr * grNy gr"
    using Suc.prems assms(4) by (intro mult_right_mono) auto
  moreover have "int (length s) = grNx gr * grNy gr" using Suc.prems assms by simp
  ultimately have "(base + k) * grNy gr + int (nat (grNy gr)) \<le> int (length s)"
    using assms(4) by (simp add: algebra_simps)
  then obtain x where "sum_bins s ((base + k) * grNy gr) (nat (grNy gr)) 0 = Some x"
    using sum_bins_ok Suc.prems assms by fastforce
  then show ?case using Suc.IH [of "k + 1"] Suc.prems by simp
qed simp

text \<open>The ADC never fails for a pulse: the pulse is not negative and the pedestal is in range.\<close>

definition adc_ok :: "gempar \<Rightarrow> bool" where
  "adc_ok g \<longleftrightarrow> 0 \<le> gpADCbits g \<and> gpADCbits g \<le> MAX_ADCBITS \<and> 0 < gpADCgain g
     \<and> gpADCoffset g \<le> 32768 * gpADCgain g"

lemma ADCConvert_ok:
  assumes "adc_ok g"
  shows "\<exists>d. ADCConvert val (gpADCoffset g) (gpADCgain g) (gpADCbits g) = Some d
    \<and> 0 \<le> d \<and> d \<le> 2 ^ nat (gpADCbits g) - 1"
proof -
  have "- 32768 * gpADCgain g \<le> max val 0 - gpADCoffset g"
    using assms max.cobounded2 [of 0 val] unfolding adc_ok_def by linarith
  then have "- 32768 \<le> (max val 0 - gpADCoffset g) / gpADCgain g"
    using assms by (simp add: adc_ok_def pos_le_divide_eq)
  then have low: "- 32768 \<le> \<lfloor>(max val 0 - gpADCoffset g) / gpADCgain g\<rfloor>" by linarith
  have "(0::int) < 2 ^ nat (gpADCbits g)" by simp
  then show ?thesis using ADCConvert_eq [OF _ _ _ low] assms by (simp add: adc_ok_def)
qed

lemma ava_samples_ok:
  assumes "adc_ok g" "b + n \<le> length fDADC"
  shows "\<exists>f pf. ava_samples g t0 us b n (fDADC, pf0) = Some (f, pf) \<and> length f = length fDADC
    \<and> (\<forall>k < b. f ! k = fDADC ! k)
    \<and> (\<forall>k. b \<le> k \<longrightarrow> k < b + n \<longrightarrow> 0 \<le> f ! k \<and> f ! k \<le> 2 ^ nat (gpADCbits g) - 1)
    \<and> pf = pf0 + (\<Sum>k \<in> {b..<b + n}. f ! k)"
  using assms(2)
proof (induction n arbitrary: b fDADC pf0)
  case (Suc n)
  let ?p = "PulseShape4 (gpSamplingPeriod g * real b - t0) us (gpTau0 g) (gpTau1 g)"
  obtain d where d: "ADCConvert ?p (gpADCoffset g) (gpADCgain g) (gpADCbits g) = Some d"
      "0 \<le> d" "d \<le> 2 ^ nat (gpADCbits g) - 1" using ADCConvert_ok [OF assms(1)] by blast
  let ?f1 = "fDADC[b := d]"
  obtain f pf where f: "ava_samples g t0 us (b + 1) n (?f1, pf0 + d) = Some (f, pf)" "length f = length ?f1"
      "\<forall>k < b + 1. f ! k = ?f1 ! k"
      "\<forall>k. b + 1 \<le> k \<longrightarrow> k < b + 1 + n \<longrightarrow> 0 \<le> f ! k \<and> f ! k \<le> 2 ^ nat (gpADCbits g) - 1"
      "pf = pf0 + d + (\<Sum>k \<in> {b + 1..<b + 1 + n}. f ! k)"
    using Suc.IH [of "b + 1" ?f1 "pf0 + d"] Suc.prems by auto
  have fb: "f ! b = d" using f(3) Suc.prems by simp
  have "0 \<le> f ! k \<and> f ! k \<le> 2 ^ nat (gpADCbits g) - 1" if "b \<le> k" "k < b + Suc n" for k
    using f(4) fb d that by (cases "k = b") auto
  moreover have "(\<Sum>k \<in> {b..<b + Suc n}. f ! k) = d + (\<Sum>k \<in> {b + 1..<b + 1 + n}. f ! k)"
    using fb by (simp add: sum.atLeast_Suc_lessThan)
  ultimately show ?case using f d Suc.prems by (simp add: wr_def)
qed simp

lemma add_samples_ok:
  assumes "gh_inv v" "ai < gh_size v" "b + n = gh_nsample v" "gh_nsample v \<le> length f"
  shows "\<exists>v'. add_samples f ai b n v = Some v' \<and> gh_inv v' \<and> gh_size v' = gh_size v
    \<and> gh_nsample v' = gh_nsample v \<and> gh_idx v' = gh_idx v \<and> gh_charge v' = gh_charge v \<and> gh_time v' = gh_time v
    \<and> gh_total v' = gh_total v + (\<Sum>k \<in> {b..<b + n}. f ! k)
    \<and> (\<forall>a < gh_size v. \<forall>k < gh_nsample v.
          hit_adc v' a k = (if a = ai \<and> b \<le> k then f ! k else hit_adc v a k))"
  using assms
proof (induction n arbitrary: b v)
  case (Suc n)
  have b: "b < gh_nsample v" using Suc.prems by simp
  have ix: "ai * gh_nsample v + b < length (gh_adc v)"
    using sample_index [OF Suc.prems(2) b] Suc.prems(1) by (simp add: gh_inv_def)
  define u where "u = v \<lparr> gh_adc := (gh_adc v)[ai * gh_nsample v + b := f ! b], gh_total := gh_total v + f ! b \<rparr>"
  have u: "AddSampleAt (f ! b) b ai v = Some u" "gh_inv u" "gh_size u = gh_size v" "gh_nsample u = gh_nsample v"
      "gh_idx u = gh_idx v" "gh_charge u = gh_charge v" "gh_time u = gh_time v" "gh_total u = gh_total v + f ! b"
    using ix Suc.prems(1) by (auto simp: AddSampleAt_def wr_def u_def gh_inv_def)
  have ua: "hit_adc u a k = (if a = ai \<and> k = b then f ! b else hit_adc v a k)"
    if "a < gh_size v" "k < gh_nsample v" for a k
    using ix sample_index_inj [OF b that(2), of ai a]
    by (auto simp: u_def hit_adc_def nth_list_update)
  have p: "(b + 1) + n = gh_nsample u" "gh_nsample u \<le> length f" "ai < gh_size u" using Suc.prems u by simp_all
  obtain w where w: "add_samples f ai (b + 1) n u = Some w" "gh_inv w" "gh_size w = gh_size u"
      "gh_nsample w = gh_nsample u" "gh_idx w = gh_idx u" "gh_charge w = gh_charge u" "gh_time w = gh_time u"
      "gh_total w = gh_total u + (\<Sum>k \<in> {b + 1..<b + 1 + n}. f ! k)"
      "\<forall>a < gh_size u. \<forall>k < gh_nsample u.
          hit_adc w a k = (if a = ai \<and> b + 1 \<le> k then f ! k else hit_adc u a k)"
    using Suc.IH [OF u(2) p(3,1,2)] by blast
  have "add_samples f ai b (Suc n) v = Some w" using u(1) w(1) Suc.prems(4) b by (simp add: rd_def)
  moreover have "gh_total w = gh_total v + (\<Sum>k \<in> {b..<b + Suc n}. f ! k)"
    using w(8) u(8) by (simp add: sum.atLeast_Suc_lessThan)
  moreover have "hit_adc w a k = (if a = ai \<and> b \<le> k then f ! k else hit_adc v a k)"
    if "a < gh_size v" "k < gh_nsample v" for a k
    using w(9) u(3,4) ua [OF that] that by auto
  ultimately show ?case using w u by auto
qed auto


text \<open>What is stored after the first j strips: ai strips with a positive ADC sum each, in
  increasing order.\<close>

definition stored :: "gempar \<Rightarrow> int \<Rightarrow> nat \<Rightarrow> nat \<Rightarrow> nat \<Rightarrow> gemhit \<Rightarrow> bool" where
  "stored g iL nx j ai v \<longleftrightarrow> gh_inv v \<and> gh_size v = nx \<and> gh_nsample v = nat (gpSamplingPoints g) \<and> ai \<le> j
     \<and> (\<forall>a < ai. iL \<le> gh_idx v ! a \<and> gh_idx v ! a < iL + int j
          \<and> 0 < (\<Sum>k < gh_nsample v. hit_adc v a k)
          \<and> (\<forall>k < gh_nsample v. 0 \<le> hit_adc v a k \<and> hit_adc v a k \<le> 2 ^ nat (gpADCbits g) - 1))
     \<and> (\<forall>a b. a < b \<longrightarrow> b < ai \<longrightarrow> gh_idx v ! a < gh_idx v ! b)
     \<and> gh_total v = (\<Sum>a < ai. \<Sum>k < gh_nsample v. hit_adc v a k)"

lemma stored_none: "stored g iL nx j ai v \<Longrightarrow> stored g iL nx (j + 1) ai v"
  by (fastforce simp: stored_def)

lemma stored_add:
  assumes st: "stored g iL nx j ai v" and ai: "ai < nx" and ij: "0 \<le> iL" "iL + int j < 32768"
    and f: "gh_nsample v \<le> length f" "\<forall>k < gh_nsample v. 0 \<le> f ! k \<and> f ! k \<le> 2 ^ nat (gpADCbits g) - 1"
      "0 < (\<Sum>k < gh_nsample v. f ! k)"
  shows "\<exists>w. do { v \<leftarrow> add_samples f ai 0 (nat (gpSamplingPoints g)) v;
      v \<leftarrow> AddStripAt (iL + int j) ai v; AddChargeAt us ai v } = Some w
    \<and> stored g iL nx (j + 1) (ai + 1) w \<and> gh_time w = gh_time v"
proof -
  have s: "gh_inv v" "gh_size v = nx" "gh_nsample v = nat (gpSamplingPoints g)" "ai \<le> j"
    using st by (auto simp: stored_def)
  obtain u where u: "add_samples f ai 0 (nat (gpSamplingPoints g)) v = Some u" "gh_inv u" "gh_size u = nx"
      "gh_nsample u = gh_nsample v" "gh_idx u = gh_idx v" "gh_charge u = gh_charge v" "gh_time u = gh_time v"
      "gh_total u = gh_total v + (\<Sum>k < gh_nsample v. f ! k)"
      "\<forall>a < nx. \<forall>k < gh_nsample v. hit_adc u a k = (if a = ai then f ! k else hit_adc v a k)"
    using add_samples_ok [OF s(1), of ai 0 "gh_nsample v" f] ai s f(1) by (auto simp: lessThan_atLeast0)
  define w where "w = u \<lparr> gh_idx := (gh_idx v)[ai := iL + int j], gh_charge := (gh_charge v)[ai := us] \<rparr>"
  have len: "ai < length (gh_idx v)" "ai < length (gh_charge v)" using s(1,2) ai by (auto simp: gh_inv_def)
  have run: "do { v \<leftarrow> add_samples f ai 0 (nat (gpSamplingPoints g)) v;
      v \<leftarrow> AddStripAt (iL + int j) ai v; AddChargeAt us ai v } = Some w"
    using u(1,5,6) len ij by (simp add: AddStripAt_def AddChargeAt_def wr_def w_def)
  have adc: "hit_adc w a k = (if a = ai then f ! k else hit_adc v a k)" if "a < nx" "k < gh_nsample v" for a k
    using u(9) that by (simp add: w_def hit_adc_def)
  have row: "(\<Sum>k < gh_nsample v. hit_adc w a k) = (if a = ai then \<Sum>k < gh_nsample v. f ! k
      else \<Sum>k < gh_nsample v. hit_adc v a k)" if "a < nx" for a
    using adc [OF that] by simp
  have ns: "gh_nsample w = gh_nsample v" "gh_size w = nx" "gh_inv w" using u by (auto simp: w_def gh_inv_def)
  have old: "\<forall>a < ai. iL \<le> gh_idx v ! a \<and> gh_idx v ! a < iL + int j
          \<and> 0 < (\<Sum>k < gh_nsample v. hit_adc v a k)
          \<and> (\<forall>k < gh_nsample v. 0 \<le> hit_adc v a k \<and> hit_adc v a k \<le> 2 ^ nat (gpADCbits g) - 1)"
      "\<forall>a b. a < b \<longrightarrow> b < ai \<longrightarrow> gh_idx v ! a < gh_idx v ! b"
      "gh_total v = (\<Sum>a < ai. \<Sum>k < gh_nsample v. hit_adc v a k)"
    using st by (auto simp: stored_def)
  have idx: "gh_idx w ! a = (if a = ai then iL + int j else gh_idx v ! a)" if "a \<le> ai" for a
    using that len by (auto simp: w_def nth_list_update)
  have "iL \<le> gh_idx w ! a \<and> gh_idx w ! a < iL + int (j + 1)
          \<and> 0 < (\<Sum>k < gh_nsample v. hit_adc w a k)
          \<and> (\<forall>k < gh_nsample v. 0 \<le> hit_adc w a k \<and> hit_adc w a k \<le> 2 ^ nat (gpADCbits g) - 1)"
    if "a < ai + 1" for a
  proof (cases "a = ai")
    case True
    then show ?thesis using idx [of ai] row [OF ai] adc [OF ai] f ai by simp
  next
    case False
    then have a: "a < ai" "a < nx" using that ai by simp_all
    then show ?thesis using idx [of a] row [OF a(2)] adc [OF a(2)] old(1) False by fastforce
  qed
  moreover have "gh_idx w ! a < gh_idx w ! b" if "a < b" "b < ai + 1" for a b
    using that idx [of a] idx [of b] old(1,2) by (cases "b = ai") auto
  moreover have "gh_total w = (\<Sum>a < ai + 1. \<Sum>k < gh_nsample v. hit_adc w a k)"
  proof -
    have "(\<Sum>a < ai. \<Sum>k < gh_nsample v. hit_adc w a k) = (\<Sum>a < ai. \<Sum>k < gh_nsample v. hit_adc v a k)"
      by (rule sum.cong [OF refl]) (use row ai in auto)
    then show ?thesis using row [OF ai] u(8) old(3) by (simp add: w_def)
  qed
  ultimately have "stored g iL nx (j + 1) (ai + 1) w" using s ns by (simp add: stored_def)
  then show ?thesis using run u(7) by (intro exI [of _ w]) (simp add: w_def)
qed

lemma ava_store_ok:
  assumes ad: "adc_ok g" and nx: "grNx gr = int m * int (gpXSteps g)" and "0 < gpXSteps g" "0 \<le> grNy gr"
    "length s = nat (grNx gr * grNy gr)" "length f = nat (gpSamplingPoints g)"
    and st: "stored g iL (nat (grNx gr)) j ai v" "j + n = m" and iL: "0 \<le> iL" "iL + int m \<le> 32768"
  shows "\<exists>f' ai' v'. ava_store g gr s t0 iL j n (f, ai, v) = Some (f', ai', v') \<and> length f' = length f
    \<and> stored g iL (nat (grNx gr)) m ai' v' \<and> gh_time v' = gh_time v"
  using assms(6-8)
proof (induction n arbitrary: j f ai v)
  case (Suc n)
  have jm: "j < m" using Suc.prems(3) by simp
  have "int j * int (gpXSteps g) + 0 + int (gpXSteps g) \<le> grNx gr"
  proof -
    have "(int j + 1) * int (gpXSteps g) \<le> int m * int (gpXSteps g)" using jm by (intro mult_right_mono) auto
    then show ?thesis using nx by (simp add: algebra_simps)
  qed
  then obtain us where us: "strip_charge gr s (int j * int (gpXSteps g)) 0 (gpXSteps g) 0 = Some us"
    using strip_charge_ok assms(4,5) by fastforce
  let ?ns = "nat (gpSamplingPoints g)"
  obtain f1 pf where f1: "ava_samples g t0 us 0 ?ns (f, 0) = Some (f1, pf)" "length f1 = length f"
      "\<forall>k < ?ns. 0 \<le> f1 ! k \<and> f1 ! k \<le> 2 ^ nat (gpADCbits g) - 1" "pf = (\<Sum>k < ?ns. f1 ! k)"
    using ava_samples_ok [OF ad, of 0 ?ns f t0 us 0] Suc.prems(1) by (auto simp: lessThan_atLeast0)
  have sv: "gh_nsample v = ?ns" "ai \<le> j" using Suc.prems(2) by (auto simp: stored_def)
  have "m \<le> nat (grNx gr)" unfolding nx using assms(3) by (simp add: nat_mult_distrib)
  then have ai: "ai < nat (grNx gr)" using sv(2) jm by linarith
  show ?case
  proof (cases "0 < pf")
    case True
    obtain w where w: "do { v \<leftarrow> add_samples f1 ai 0 ?ns v;
        v \<leftarrow> AddStripAt (iL + int j) ai v; AddChargeAt us ai v } = Some w"
        "stored g iL (nat (grNx gr)) (j + 1) (ai + 1) w" "gh_time w = gh_time v"
      using stored_add [OF Suc.prems(2) ai iL(1), of f1 us] iL(2) jm f1 True sv(1) Suc.prems(1) by auto
    have "ava_store g gr s t0 iL j (Suc n) (f, ai, v) = ava_store g gr s t0 iL (j + 1) n (f1, ai + 1, w)"
      using us f1(1) w(1) True by (auto simp: bind_eq_Some_conv)
    then show ?thesis using Suc.IH [of f1 "j + 1" "ai + 1" w] w(2,3) f1(2) Suc.prems(1,3) by auto
  next
    case False
    have "ava_store g gr s t0 iL j (Suc n) (f, ai, v) = ava_store g gr s t0 iL (j + 1) n (f1, ai, v)"
      using us f1(1) False by simp
    then show ?thesis using Suc.IH [of f1 "j + 1" ai v] stored_none [OF Suc.prems(2)] f1(2) Suc.prems(1,3) by auto
  qed
qed simp


section \<open>One readout plane\<close>

text \<open>A plane set up from the database, with strips, whose numbers fit a Short\_t.\<close>

definition plane_ready :: "plane \<Rightarrow> bool" where
  "plane_ready pl \<longleftrightarrow> (\<exists>minv db parent pl0. inverts minv \<and> ReadGeometryP minv db parent pl0 = Some (Inr pl))
     \<and> 0 < plSPitch pl \<and> 0 < plNStrips pl \<and> plNStrips pl \<le> 32767"

lemma GetStrip_ready:
  assumes "plane_ready pl"
  shows "GetStrip pl x y = Some (-1) \<or> (\<exists>s. GetStrip pl x y = Some s \<and> 0 \<le> s \<and> s < plNStrips pl)"
proof -
  obtain minv db parent pl0 where r: "inverts minv" "ReadGeometryP minv db parent pl0 = Some (Inr pl)"
    using assms by (auto simp: plane_ready_def)
  show ?thesis using GetStrip_range [OF r, of x y] assms by (auto simp: plane_ready_def split: if_splits)
qed

definition strip_fits :: "plane \<Rightarrow> real \<Rightarrow> bool" where
  "strip_fits pl x \<longleftrightarrow> \<bar>x - plSBeg pl\<bar> \<le> 2000000000 * plSPitch pl"

lemma GetStripInRange_ready:
  assumes "plane_ready pl" "strip_fits pl x"
  shows "\<exists>s. GetStripInRange pl x = Some s \<and> 0 \<le> s \<and> s < plNStrips pl"
proof -
  have p: "0 < plSPitch pl" "0 < plNStrips pl" using assms(1) by (auto simp: plane_ready_def)
  have "\<exists>s. GetStripUnchecked pl x = Some s"
    using p to_int32_quot [OF p(1)] assms(2) by (simp add: GetStripUnchecked_def c_div_def strip_fits_def)
  then show ?thesis using p by (auto simp: GetStripInRange_def Let_def)
qed

text \<open>The corners of the region can be numbered in 32 bits.\<close>

definition region_fits :: "plane \<Rightarrow> real \<times> real \<times> real \<times> real \<Rightarrow> bool" where
  "region_fits pl region = (case region of (x0, y0, x1, y1) \<Rightarrow>
     strip_fits pl (fst (corner_in_strips pl x0 y0) / 1000) \<and> strip_fits pl (fst (corner_in_strips pl x1 y1) / 1000))"

lemma ava_strips_ok:
  assumes "plane_ready pl" "region_fits pl region"
  shows "ava_strips pl region = Some None \<or> (\<exists>iL iU ys0 ys1. ava_strips pl region = Some (Some (iL, iU, ys0, ys1))
    \<and> 0 \<le> iL \<and> iL \<le> iU \<and> iU < plNStrips pl)"
proof -
  obtain x0 y0 x1 y1 where r: "region = (x0, y0, x1, y1)" by (cases region) auto
  obtain xs0 ys0 where c0: "corner_in_strips pl x0 y0 = (xs0, ys0)" by force
  obtain xs1 ys1 where c1: "corner_in_strips pl x1 y1 = (xs1, ys1)" by force
  have f: "strip_fits pl (xs0 / 1000)" "strip_fits pl (xs1 / 1000)"
    using assms(2) r c0 c1 by (simp_all add: region_fits_def)
  obtain r0 where r0: "GetStripInRange pl (xs0 / 1000) = Some r0" "0 \<le> r0" "r0 < plNStrips pl"
    using GetStripInRange_ready [OF assms(1) f(1)] by blast
  obtain r1 where r1: "GetStripInRange pl (xs1 / 1000) = Some r1" "0 \<le> r1" "r1 < plNStrips pl"
    using GetStripInRange_ready [OF assms(1) f(2)] by blast
  obtain s0 where s0: "GetStrip pl (xs0 / 1000) (ys0 / 1000) = Some s0" "s0 = -1 \<or> 0 \<le> s0 \<and> s0 < plNStrips pl"
    using GetStrip_ready [OF assms(1)] by blast
  obtain s1 where s1: "GetStrip pl (xs1 / 1000) (ys1 / 1000) = Some s1" "s1 = -1 \<or> 0 \<le> s1 \<and> s1 < plNStrips pl"
    using GetStrip_ready [OF assms(1)] by blast
  show ?thesis using r c0 c1 r0 r1 s0 s1 by (auto simp: ava_strips_def)
qed

lemma c_round_of_int [simp]: "c_round (of_int k) = of_int k"
  by (simp add: c_round_def)

lemma ava_grid_ok:
  assumes "0 < plSPitch pl" "iL \<le> iU" "0 < gpXSteps g" "0 < gpYSteps g" "ys0 \<noteq> ys1"
    "(iU - iL + 1) * int (gpXSteps g) \<le> 32767"
    "\<bar>ys0 - ys1\<bar> * real (gpYSteps g) \<le> 2000000000 * (plSPitch pl * 1000)"
  shows "\<exists>gr. ava_grid g pl iL iU ys0 ys1 = Some gr \<and> grid_ok gr \<and> grNx gr = (iU - iL + 1) * int (gpXSteps g)"
proof -
  define yq where "yq = plSPitch pl * 1000 / real (gpYSteps g)"
  have yq: "0 < yq" using assms(1,4) by (simp add: yq_def)
  define b where "b = \<lfloor>min ys0 ys1 / yq\<rfloor>"
  define t where "t = \<lceil>max ys0 ys1 / yq\<rceil>"
  have lt: "min ys0 ys1 / yq < max ys0 ys1 / yq" using assms(5) yq by (intro divide_strict_right_mono) auto
  have bt: "b < t" using lt unfolding b_def t_def by linarith
  have "\<bar>ys0 - ys1\<bar> \<le> 2000000000 * yq" using assms(4,7) by (simp add: yq_def pos_le_divide_eq)
  then have "(max ys0 ys1 - min ys0 ys1) / yq \<le> 2000000000"
    using yq by (simp add: divide_le_eq max_def min_def abs_if split: if_splits)
  then have "max ys0 ys1 / yq - min ys0 ys1 / yq \<le> 2000000000" by (simp add: diff_divide_distrib)
  then have tb: "t - b \<le> 2147483647" unfolding b_def t_def by linarith
  have q: "(yq * of_int t - yq * of_int b) / yq = of_int (t - b)" using yq by (simp add: field_simps)
  have nx: "0 < (iU - iL + 1) * int (gpXSteps g)" using assms(2,3) by simp
  have "0 < of_int t - (of_int b :: real)" using bt by simp
  then have pos: "0 < yq * of_int t - yq * of_int b" using yq by (simp add: right_diff_distrib [symmetric])
  have "of_int iL * plSPitch pl \<le> of_int iU * plSPitch pl" using assms(1,2) by (intro mult_right_mono) auto
  then have "GetStripLowerEdge pl iL < GetStripUpperEdge pl iU"
    using assms(1) unfolding GetStripUpperEdge_def GetStripLowerEdge_def by linarith
  then have x: "0 < GetStripUpperEdge pl iU * 1000 - GetStripLowerEdge pl iL * 1000" by simp
  have "0 < (of_int (iU - iL) + 1) * real (gpXSteps g)" using assms(2,3) by (intro mult_pos_pos) auto
  then have xw: "0 < (GetStripUpperEdge pl iU * 1000 - GetStripLowerEdge pl iL * 1000)
      / ((of_int (iU - iL) + 1) * real (gpXSteps g))" using x by (rule divide_pos_pos [rotated])
  have ti: "to_int32 (of_int (t - b)) = Some (t - b)"
    using bt tb by (intro to_int32_of_int) simp_all
  show ?thesis
    using yq nx bt xw pos assms(4,6) ti
    unfolding ava_grid_def Let_def c_div_def yq_def [symmetric] b_def [symmetric] t_def [symmetric]
    by (simp add: q b_def [symmetric] t_def [symmetric] grid_ok_def del: of_int_diff)
qed


text \<open>What the caller relies on: the hit belongs to the plane.\<close>

definition hit_good :: "gempar \<Rightarrow> plane \<Rightarrow> real \<Rightarrow> gemhit \<Rightarrow> bool" where
  "hit_good g pl t0 v \<longleftrightarrow> gh_inv v \<and> gh_nsample v = nat (gpSamplingPoints g) \<and> gh_time v = t0
     \<and> (\<forall>a < gh_size v. 0 \<le> gh_idx v ! a \<and> gh_idx v ! a < plNStrips pl
          \<and> 0 < (\<Sum>k < gh_nsample v. hit_adc v a k)
          \<and> (\<forall>k < gh_nsample v. 0 \<le> hit_adc v a k \<and> hit_adc v a k \<le> 2 ^ nat (gpADCbits g) - 1))
     \<and> (\<forall>a b. a < b \<longrightarrow> b < gh_size v \<longrightarrow> gh_idx v ! a < gh_idx v ! b)
     \<and> gh_total v = (\<Sum>a < gh_size v. \<Sum>k < gh_nsample v. hit_adc v a k)"

definition settings_ok :: "gempar \<Rightarrow> bool" where
  "settings_ok g \<longleftrightarrow> adc_ok g \<and> 0 < gpSNormNsigma g \<and> 0 < gpXSteps g \<and> 0 < gpYSteps g"

text \<open>The numbers of bins and their offsets stay within the integer types, and the region has
  an extent along the strips.\<close>

definition plane_fits :: "gempar \<Rightarrow> ions \<Rightarrow> plane \<Rightarrow> real \<times> real \<times> real \<times> real \<Rightarrow> bool" where
  "plane_fits g s pl region \<longleftrightarrow> region_fits pl region
     \<and> (\<forall>iL iU ys0 ys1. ava_strips pl region = Some (Some (iL, iU, ys0, ys1)) \<longrightarrow>
          ys0 \<noteq> ys1 \<and> \<bar>ys0 - ys1\<bar> * real (gpYSteps g) \<le> 2000000000 * (plSPitch pl * 1000)
          \<and> (iU - iL + 1) * int (gpXSteps g) \<le> 32767
          \<and> (\<forall>gr. ava_grid g pl iL iU ys0 ys1 = Some gr \<longrightarrow>
               (\<forall>ip \<in> set (take (ioNIon s) (ioRIon s)). ion_fits g pl gr ip)))"

lemma stored_good:
  assumes st: "stored g iL nx m ai v" and "0 \<le> iL" "iL + int m \<le> plNStrips pl" "ai \<le> gh_size v"
  shows "hit_good g pl (gh_time v) (SetSize ai v)"
proof -
  let ?w = "SetSize ai v"
  have w: "gh_idx ?w = gh_idx v" "gh_nsample ?w = gh_nsample v" "gh_size ?w = ai" "gh_time ?w = gh_time v"
      "gh_total ?w = gh_total v" "gh_adc ?w = gh_adc v" "gh_charge ?w = gh_charge v"
      "\<And>a k. hit_adc ?w a k = hit_adc v a k"
    by (simp_all add: SetSize_def hit_adc_def)
  have "gh_inv v" using st by (simp add: stored_def)
  then have inv: "gh_inv ?w"
    using assms(4) order_trans [OF mult_le_mono2 [OF assms(4), of "gh_nsample v"]] by (simp add: gh_inv_def w)
  have s: "gh_nsample v = nat (gpSamplingPoints g)"
      "\<forall>a < ai. iL \<le> gh_idx v ! a \<and> gh_idx v ! a < iL + int m
          \<and> 0 < (\<Sum>k < gh_nsample v. hit_adc v a k)
          \<and> (\<forall>k < gh_nsample v. 0 \<le> hit_adc v a k \<and> hit_adc v a k \<le> 2 ^ nat (gpADCbits g) - 1)"
      "\<forall>a b. a < b \<longrightarrow> b < ai \<longrightarrow> gh_idx v ! a < gh_idx v ! b"
      "gh_total v = (\<Sum>a < ai. \<Sum>k < gh_nsample v. hit_adc v a k)"
    using st unfolding stored_def by blast+
  have "0 \<le> gh_idx v ! a \<and> gh_idx v ! a < plNStrips pl
          \<and> 0 < (\<Sum>k < gh_nsample v. hit_adc v a k)
          \<and> (\<forall>k < gh_nsample v. 0 \<le> hit_adc v a k \<and> hit_adc v a k \<le> 2 ^ nat (gpADCbits g) - 1)"
    if "a < ai" for a
  proof -
    note h = s(2) [rule_format, OF that]
    have "0 \<le> gh_idx v ! a" "gh_idx v ! a < plNStrips pl" using h assms(2,3) by linarith+
    then show ?thesis using h by blast
  qed
  then show ?thesis unfolding hit_good_def w using inv s(1,3,4) by blast
qed

lemma ava_plane_ok:
  assumes "plane_ready pl" "settings_ok g" "plane_fits g s pl region" "ioTotalCharge s \<noteq> None"
    "length f = nat (gpSamplingPoints g)"
  shows "ava_plane g s pl region t0 f = Some None
    \<or> (\<exists>f' v. ava_plane g s pl region t0 f = Some (Some (f', v)) \<and> length f' = length f \<and> hit_good g pl t0 v)"
proof -
  have rf: "region_fits pl region" using assms(3) by (simp add: plane_fits_def)
  consider (out) "ava_strips pl region = Some None"
    | (strips) iL iU ys0 ys1 where "ava_strips pl region = Some (Some (iL, iU, ys0, ys1))"
        "0 \<le> iL" "iL \<le> iU" "iU < plNStrips pl"
    using ava_strips_ok [OF assms(1) rf] by blast
  then show ?thesis
  proof cases
    case out
    then show ?thesis by (simp add: ava_plane_def)
  next
    case strips
    have p: "0 < plSPitch pl" using assms(1) by (simp add: plane_ready_def)
    have set: "adc_ok g" "0 < gpSNormNsigma g" "0 < gpXSteps g" "0 < gpYSteps g"
      using assms(2) by (auto simp: settings_ok_def)
    have fits: "ys0 \<noteq> ys1" "\<bar>ys0 - ys1\<bar> * real (gpYSteps g) \<le> 2000000000 * (plSPitch pl * 1000)"
        "(iU - iL + 1) * int (gpXSteps g) \<le> 32767"
        "\<And>gr. ava_grid g pl iL iU ys0 ys1 = Some gr \<Longrightarrow>
           \<forall>ip \<in> set (take (ioNIon s) (ioRIon s)). ion_fits g pl gr ip"
      using assms(3) strips(1) by (auto simp: plane_fits_def)
    obtain gr where gr: "ava_grid g pl iL iU ys0 ys1 = Some gr" "grid_ok gr"
        "grNx gr = (iU - iL + 1) * int (gpXSteps g)"
      using ava_grid_ok [OF p strips(3) set(3,4) fits(1,3,2)] by blast
    have ny: "0 < grNx gr" "0 < grNy gr" using gr(2) by (auto simp: grid_ok_def)
    obtain A where A: "ava_ions g pl gr (take (ioNIon s) (ioRIon s)) (replicate (nat (grNx gr * grNy gr)) 0) = Some A"
        "length A = nat (grNx gr * grNy gr)"
      using ava_ions_ok [OF gr(2) set(2) fits(4) [OF gr(1)], of "replicate (nat (grNx gr * grNy gr)) 0"] by auto
    obtain tot where tot: "ioTotalCharge s = Some tot" using assms(4) by blast
    define v0 where "v0 = SetHitCharge tot (SetTime t0 (gemhit_new (nat (grNx gr)) (nat (gpSamplingPoints g))))"
    have v0: "stored g iL (nat (grNx gr)) 0 0 v0" "gh_time v0 = t0"
      by (simp_all add: stored_def v0_def SetHitCharge_def SetTime_def gh_inv_def gemhit_new_def)
    define m where "m = nat (iU - iL + 1)"
    have m: "grNx gr = int m * int (gpXSteps g)" using gr(3) strips(3) by (simp add: m_def)
    have fit: "iL + int m \<le> 32768" using strips assms(1) by (simp add: m_def plane_ready_def)
    obtain f' ai v where v: "ava_store g gr A t0 iL 0 m (f, 0, v0) = Some (f', ai, v)" "length f' = length f"
        "stored g iL (nat (grNx gr)) m ai v" "gh_time v = gh_time v0"
      using ava_store_ok [OF set(1) m set(3) less_imp_le [OF ny(2)] A(2) assms(5) v0(1) _ strips(2), where ?t0.0 = t0 and n = m] fit
      by auto
    have mx: "m \<le> nat (grNx gr)" unfolding m using set(3) by (simp add: nat_mult_distrib)
    have "iL + int m \<le> plNStrips pl" using strips by (simp add: m_def)
    moreover have "ai \<le> gh_size v" using v(3) mx by (auto simp: stored_def)
    ultimately have good: "hit_good g pl t0 (SetSize ai v)"
      using stored_good [OF v(3) strips(2)] v(4) v0(2) by simp
    have "ava_plane g s pl region t0 f = Some (Some (f', SetSize ai v))"
      using strips(1) tot gr(1) A(1) v(1) by (simp add: ava_plane_def v0_def m_def Let_def bind_eq_Some_conv)
    then show ?thesis using v(2) good by blast
  qed
qed

lemma hit_good_fits:
  "hit_good g pl t0 v \<Longrightarrow> dpNSamples p = nat (gpSamplingPoints g) \<Longrightarrow> int (dpNStrips p) = plNStrips pl \<Longrightarrow> hit_fits v p"
  by (auto simp: hit_good_def hit_fits_def hit_adc_def)


lemma hit_good_facts:
  assumes "hit_good g pl t0 v"
  shows "gh_time v = t0 \<and> gh_total v = (\<Sum>a < gh_size v. \<Sum>k < nat (gpSamplingPoints g). hit_adc v a k)
    \<and> (\<forall>a < gh_size v. 0 \<le> gh_idx v ! a \<and> gh_idx v ! a < plNStrips pl
         \<and> 0 < (\<Sum>k < nat (gpSamplingPoints g). hit_adc v a k)
         \<and> (\<forall>b < a. gh_idx v ! b < gh_idx v ! a)
         \<and> (\<forall>k < nat (gpSamplingPoints g). 0 \<le> hit_adc v a k \<and> hit_adc v a k \<le> 2 ^ nat (gpADCbits g) - 1))"
proof -
  have "gh_nsample v = nat (gpSamplingPoints g)" using assms by (simp add: hit_good_def)
  with assms show ?thesis unfolding hit_good_def by simp
qed

section \<open>The avalanche in a chamber\<close>

lemma ava_planes_ok:
  assumes "\<forall>pl \<in> set pls. plane_ready pl \<and> plane_fits g s pl region" "settings_ok g" "ioTotalCharge s \<noteq> None"
    "length f = nat (gpSamplingPoints g)"
  shows "\<exists>f' r. ava_planes g s pls region t0 f virs = Some (f', r) \<and> length f' = length f
    \<and> (\<forall>ws. r = Some ws \<longrightarrow> (\<exists>vs. ws = virs @ vs \<and> list_all2 (\<lambda>pl v. hit_good g pl t0 v) pls vs))"
  using assms(1,4)
proof (induction pls arbitrary: f virs)
  case (Cons pl pls)
  consider (out) "ava_plane g s pl region t0 f = Some None"
    | (hit) f1 v where "ava_plane g s pl region t0 f = Some (Some (f1, v))" "length f1 = length f" "hit_good g pl t0 v"
    using ava_plane_ok [of pl g s region f t0] Cons.prems assms(2,3) by auto
  then show ?case
  proof cases
    case out
    then show ?thesis by simp
  next
    case hit
    obtain f2 r where r: "ava_planes g s pls region t0 f1 (virs @ [v]) = Some (f2, r)" "length f2 = length f1"
        "\<forall>ws. r = Some ws \<longrightarrow> (\<exists>vs. ws = (virs @ [v]) @ vs \<and> list_all2 (\<lambda>pl v. hit_good g pl t0 v) pls vs)"
      using Cons.IH [of f1 "virs @ [v]"] Cons.prems hit(2) by auto
    have "\<exists>vs. ws = virs @ vs \<and> list_all2 (\<lambda>pl v. hit_good g pl t0 v) (pl # pls) vs" if w: "r = Some ws" for ws
    proof -
      obtain vs where "ws = (virs @ [v]) @ vs" "list_all2 (\<lambda>pl v. hit_good g pl t0 v) pls vs" using r(3) w by blast
      then show ?thesis using hit(3) by (intro exI [of _ "v # vs"]) simp
    qed
    then show ?thesis using hit(1,2) r(1,2) by simp
  qed
qed simp

definition chamber_ready :: "chamber \<Rightarrow> bool" where
  "chamber_ready ch \<longleftrightarrow> length (chPlanes ch) = 2 \<and> (\<forall>pl \<in> set (chPlanes ch). plane_ready pl)"

definition chamber_fits :: "gempar \<Rightarrow> ions \<Rightarrow> chamber \<Rightarrow> vec3 \<Rightarrow> vec3 \<Rightarrow> bool" where
  "chamber_fits g s ch xi xo \<longleftrightarrow> (\<forall>m region. ioRSMax s = Some m \<longrightarrow>
     ava_region (chPlanes ch ! 0) (chPlanes ch ! 1) xi xo (gpFiducialBand g * m) = Some region \<longrightarrow>
     (\<forall>pl \<in> set (chPlanes ch). plane_fits g s pl region))"

lemma AvaModel_ok:
  assumes "settings_ok g" "GetChamber spect (int ic) = Some ch" "chamber_ready ch" "chamber_fits g s ch xi xo"
    "ioRSMax s \<noteq> None" "ioTotalCharge s \<noteq> None" "length f = nat (gpSamplingPoints g)"
  shows "\<exists>f' r. AvaModel g spect s ic xi xo t0 f = Some (f', r) \<and> length f' = length f
    \<and> (\<forall>vs. r = Some vs \<longrightarrow> list_all2 (\<lambda>pl v. hit_good g pl t0 v) (chPlanes ch) vs)"
proof -
  obtain m where m: "ioRSMax s = Some m" using assms(5) by blast
  have pl: "length (chPlanes ch) = 2" "\<forall>pl \<in> set (chPlanes ch). plane_ready pl" "chPlanes ch \<noteq> []"
    using assms(3) by (auto simp: chamber_ready_def)
  show ?thesis
  proof (cases "ava_region (chPlanes ch ! 0) (chPlanes ch ! 1) xi xo (gpFiducialBand g * m)")
    case None
    then show ?thesis using m assms(2) pl(1,3) by (simp add: AvaModel_def rd_def)
  next
    case (Some region)
    have "\<forall>pl \<in> set (chPlanes ch). plane_ready pl \<and> plane_fits g s pl region"
      using assms(4) m Some pl(2) unfolding chamber_fits_def by blast
    then obtain f' r where "ava_planes g s (chPlanes ch) region t0 f [] = Some (f', r)" "length f' = length f"
        "\<forall>ws. r = Some ws \<longrightarrow> (\<exists>vs. ws = [] @ vs \<and> list_all2 (\<lambda>pl v. hit_good g pl t0 v) (chPlanes ch) vs)"
      using ava_planes_ok [OF _ assms(1,6,7)] by blast
    then show ?thesis using m assms(2) pl(1,3) Some by (auto simp: AvaModel_def rd_def)
  qed
qed

text \<open>C8. The avalanche model, on a chamber set up from the database, with planes of at most 32767
  strips and with the numbers of bins within their integer types, always returns: no division by zero, no access outside its arrays,
  no failing assert.  If it returns hits there is one per readout plane, whose strips are strips
  of that plane in increasing order, each with a positive ADC sum and samples between 0 and the
  full scale, and whose total is the sum of all samples.\<close>

theorem AvaModel_hits:
  assumes "settings_ok g" "GetChamber spect (int ic) = Some ch" "chamber_ready ch" "chamber_fits g s ch xi xo"
    "ioRSMax s \<noteq> None" "ioTotalCharge s \<noteq> None" "length f = nat (gpSamplingPoints g)"
  shows "\<exists>f' r. AvaModel g spect s ic xi xo t0 f = Some (f', r)
    \<and> (\<forall>vs. r = Some vs \<longrightarrow> length vs = 2
        \<and> (\<forall>j < 2. let pl = chPlanes ch ! j; v = vs ! j in gh_time v = t0
             \<and> gh_total v = (\<Sum>a < gh_size v. \<Sum>k < nat (gpSamplingPoints g). hit_adc v a k)
             \<and> (\<forall>a < gh_size v. 0 \<le> gh_idx v ! a \<and> gh_idx v ! a < plNStrips pl
                  \<and> 0 < (\<Sum>k < nat (gpSamplingPoints g). hit_adc v a k)
                  \<and> (\<forall>b < a. gh_idx v ! b < gh_idx v ! a)
                  \<and> (\<forall>k < nat (gpSamplingPoints g). 0 \<le> hit_adc v a k \<and> hit_adc v a k \<le> 2 ^ nat (gpADCbits g) - 1))))"
proof -
  obtain f' r where r: "AvaModel g spect s ic xi xo t0 f = Some (f', r)"
      "\<forall>vs. r = Some vs \<longrightarrow> list_all2 (\<lambda>pl v. hit_good g pl t0 v) (chPlanes ch) vs"
    using AvaModel_ok [OF assms] by blast
  have two: "length (chPlanes ch) = 2" using assms(3) by (simp add: chamber_ready_def)
  have "length vs = 2 \<and> (\<forall>j < 2. hit_good g (chPlanes ch ! j) t0 (vs ! j))" if vs: "r = Some vs" for vs
    using r(2) [rule_format, OF vs] two by (auto simp: list_all2_conv_all_nth)
  then show ?thesis using r(1) hit_good_facts unfolding Let_def by (intro exI conjI) (assumption, blast)
qed

definition gparEx :: gempar where
  "gparEx = \<lparr> gpGasWion = 26, gpGasDiffusion = 1 / 15, gpGasDriftVelocity = 1, gpFiducialBand = 10,
     gpChargeStatistics = 0, gpGainMean = 8000, gpGain0 = 20, gpMaxNIon = 100, gpSNormNsigma = 10,
     gpAvaGain = 1, gpTriggerOffset = [0], gpTriggerJitter = 0, gpSamplingPoints = 6, gpSamplingPeriod = 25,
     gpADCoffset = 0, gpADCgain = 1, gpADCbits = 12, gpGateWidth = 400, gpEntranceRef = 0,
     gpLateralUncertainty = 0, gpPulseNoiseSigma = 0, gpTau0 = 50, gpTau1 = -1, gpRoutZ = 9, gpYSteps = 1,
     gpXSteps = 1, gpDoCrossTalk = 0, gpNCStripApart = 0, gpCrossFactor = 0, gpCrossSigma = 0 \<rparr>"

definition ionsEx :: ions where
  "ionsEx = \<lparr> ioDraws = 0, ioNIon = 1, ioRIon = [\<lparr> ipX = 5, ipY = 5, ipCharge = 100, ipSNorm = 10,
     ipR2 = 100, ipggnorm = 1 / pi \<rparr>], ioRSMax = Some 1, ioTotalCharge = Some 100, ioTime0 = Some 1 \<rparr>"

lemma gparEx_ok: "settings_ok gparEx"
  by (simp add: settings_ok_def adc_ok_def gparEx_def MAX_ADCBITS_def)

lemma plane_readyEx:
  "\<exists>pl. plane_ready pl \<and> plSPitch pl = 1/10 \<and> plNStrips pl = 11 \<and> plSBeg pl = - 11 / 20
     \<and> bxDX (plBox pl) = 1 \<and> bxDY (plBox pl) = 1/2 \<and> plCBS pl = 1 \<and> plSBS pl = 0"
proof -
  obtain pl where pl: "ReadGeometryP cofactor_inv dbEx None (new_plane cofactor_inv) = Some (Inr pl)"
     "plSPitch pl = 1/10" "plNStrips pl = 11" "bxDX (plBox pl) = 1" "bxDY (plBox pl) = 1/2"
     "plCBS pl = 1" "plSBS pl = 0" using planeEx by blast
  obtain pl2 where "set_strips pl2 = Some pl" using ReadGeometryP_cases [OF pl(1)] by blast
  from set_strips_begin [OF this] have "plSBeg pl = - 11 / 20" using pl by simp
  moreover have "plane_ready pl" unfolding plane_ready_def
    using pl cofactor_inverts by (intro conjI exI [of _ cofactor_inv] exI) auto
  ultimately show ?thesis using pl by blast
qed


definition specEx :: "plane \<Rightarrow> spec" where
  "specEx pl = \<lparr> fChambers = [\<lparr> chOrigin = 0, chSize = 0, chBox = plBox pl, chPlanes = [pl, pl] \<rparr>] \<rparr>"

lemma chamber_fitsEx:
  assumes "plSPitch pl = 1/10" "plNStrips pl = 11" "plSBeg pl = - 11 / 20"
     "bxDX (plBox pl) = 1" "bxDY (plBox pl) = 1/2" "plCBS pl = 1" "plSBS pl = 0"
  shows "chamber_fits gparEx ionsEx (fChambers (specEx pl) ! 0) 0 (Vec 10 10 3)"
proof -
  have r: "ava_region pl pl 0 (Vec 10 10 3) 10 = Some (-10, -10, 20, 20)"
    by (simp add: assms ava_region_def ava_extent_def strip_range_def GetStripLowerEdge_def
        GetStripUpperEdge_def)
  have c: "corner_in_strips pl x y = (x, y)" for x y
    by (simp add: assms corner_in_strips_def PlaneToStrip_def Let_def)
  have g0: "GetStrip pl (- 1 / 100) (- 1 / 100) = Some 5" "GetStrip pl (1 / 50) (1 / 50) = Some 5"
    by (simp_all add: assms GetStrip_def StripToPlane_def Contains_def GetStripUnchecked_def c_div_def
        to_int32_def Let_def)
  have st: "ava_strips pl (-10, -10, 20, 20) = Some (Some (5, 5, -10, 20))"
    using g0 by (simp add: ava_strips_def c)
  have fl: "\<lceil>1 / 5 :: real\<rceil> = 1" "\<lfloor>5 / 2 :: real\<rfloor> = 2" by linarith+
  have gr: "ava_grid gparEx pl 5 5 (-10) 20 = Some \<lparr> grXl = -50, grXbw = 100, grYb = -100, grYbw = 100,
      grNx = 1, grNy = 2 \<rparr>"
    by (simp add: assms fl ava_grid_def GetStripLowerEdge_def GetStripUpperEdge_def gparEx_def c_div_def
        Let_def c_round_def to_int32_def)
  have "plane_fits gparEx ionsEx pl (-10, -10, 20, 20)"
    unfolding plane_fits_def
    by (auto simp: assms region_fits_def c strip_fits_def st gr gparEx_def [THEN arg_cong, of gpYSteps]
        gparEx_def [THEN arg_cong, of gpXSteps] ion_fits_def ionsEx_def)
  then show ?thesis using r by (simp add: chamber_fits_def specEx_def ionsEx_def gparEx_def)
qed

theorem AvaModel_hits_witness:
  "\<exists>pl f' r. AvaModel gparEx (specEx pl) ionsEx 0 0 (Vec 10 10 3) 0 (replicate 6 0) = Some (f', r)"
proof -
  obtain pl where pl: "plane_ready pl" "plSPitch pl = 1/10" "plNStrips pl = 11" "plSBeg pl = - 11 / 20"
     "bxDX (plBox pl) = 1" "bxDY (plBox pl) = 1/2" "plCBS pl = 1" "plSBS pl = 0" using plane_readyEx by blast
  have "GetChamber (specEx pl) (int 0) = Some (fChambers (specEx pl) ! 0)"
    by (simp add: GetChamber_def specEx_def)
  moreover have "chamber_ready (fChambers (specEx pl) ! 0)" using pl(1) by (simp add: chamber_ready_def specEx_def)
  moreover have "length (replicate 6 (0::int)) = nat (gpSamplingPoints gparEx)" by (simp add: gparEx_def)
  ultimately show ?thesis
    using AvaModel_hits [OF gparEx_ok _ _ chamber_fitsEx [OF pl(2-)], where ic = 0 and f = "replicate 6 0" and ?t0.0 = 0 and spect = "specEx pl"]
    by (auto simp: ionsEx_def)
qed

section \<open>The ions\<close>

text \<open>What is relied on of the random generator: a uniform number lies in its interval.\<close>

definition uniform_ok :: "rng \<Rightarrow> bool" where
  "uniform_ok R \<longleftrightarrow> (\<forall>n. 0 \<le> rgUniform R n 0 1 \<and> rgUniform R n 0 1 \<le> 1)"

definition gas_ok :: "gempar \<Rightarrow> bool" where
  "gas_ok g \<longleftrightarrow> 0 < gpGasWion g \<and> 0 < gpGasDriftVelocity g \<and> 0 < gpGasDiffusion g
     \<and> 0 < gpSNormNsigma g \<and> 0 < gpMaxNIon g \<and> (gpChargeStatistics g = 1 \<longrightarrow> 0 < gpGain0 g)"

text \<open>The particle stays between the entrance and the readout.\<close>

definition track_ok :: "gempar \<Rightarrow> vec3 \<Rightarrow> vec3 \<Rightarrow> bool" where
  "track_ok g xi vseg \<longleftrightarrow> \<bar>vz xi - gpEntranceRef g\<bar> + \<bar>vz vseg\<bar> < gpRoutZ g"

definition ion_made :: "gempar \<Rightarrow> real \<Rightarrow> ionpar \<Rightarrow> bool" where
  "ion_made g rsmax ip \<longleftrightarrow> 0 \<le> ipCharge ip \<and> 0 < ipSNorm ip \<and> ipR2 ip = ipSNorm ip * ipSNorm ip
     \<and> ipggnorm ip * (pi * ipR2 ip) = ipCharge ip \<and> ipSNorm ip \<le> gpSNormNsigma g * rsmax"

text \<open>After n ions.\<close>

definition ions_inv :: "gempar \<Rightarrow> nat \<Rightarrow> ions \<Rightarrow> bool" where
  "ions_inv g n s \<longleftrightarrow> length (ioRIon s) = gpMaxNIon g
     \<and> (\<exists>rs tot tm. ioRSMax s = Some rs \<and> ioTotalCharge s = Some tot \<and> ioTime0 s = Some tm \<and> 0 \<le> rs
          \<and> tot = (\<Sum>a < n. ipCharge (ioRIon s ! a)) \<and> (\<forall>a < n. ion_made g rs (ioRIon s ! a)))"

lemma ion_charge_ok: "gas_ok g \<Longrightarrow> \<exists>c. ion_charge R g d = Some c"
  by (auto simp: ion_charge_def gas_ok_def c_div_def c_sqrt_def)

lemma drift_pos:
  assumes "uniform_ok R" "track_ok g xi vseg"
  shows "0 < \<bar>gpRoutZ g - \<bar>vz xi - gpEntranceRef g\<bar> - vz vseg * rgUniform R d 0 1\<bar>"
proof -
  have u: "0 \<le> rgUniform R d 0 1" "rgUniform R d 0 1 \<le> 1" using assms(1) by (auto simp: uniform_ok_def)
  have "\<bar>vz vseg * rgUniform R d 0 1\<bar> \<le> \<bar>vz vseg\<bar> * 1"
    unfolding abs_mult using u by (intro mult_left_mono) auto
  then show ?thesis using assms(2) unfolding track_ok_def by linarith
qed

lemma ion_made_mono: "ion_made g rs ip \<Longrightarrow> rs \<le> rs' \<Longrightarrow> 0 < gpSNormNsigma g \<Longrightarrow> ion_made g rs' ip"
  by (auto simp: ion_made_def intro: order_trans mult_left_mono)

lemma ion_step_ok:
  assumes "uniform_ok R" "gas_ok g" "track_ok g xi vseg" "ions_inv g i s" "i < gpMaxNIon g"
  shows "\<exists>t. ion_step R g xi vseg i s = Some t \<and> ions_inv g (Suc i) t \<and> ioNIon t = ioNIon s"
proof -
  obtain rs tot tm where s: "ioRSMax s = Some rs" "ioTotalCharge s = Some tot" "ioTime0 s = Some tm" "0 \<le> rs"
      "tot = (\<Sum>a < i. ipCharge (ioRIon s ! a))" "\<forall>a < i. ion_made g rs (ioRIon s ! a)"
    using assms(4) by (auto simp: ions_inv_def)
  have len: "length (ioRIon s) = gpMaxNIon g" using assms(4) by (simp add: ions_inv_def)
  have g: "0 < gpGasDriftVelocity g" "0 < gpGasDiffusion g" "0 < gpSNormNsigma g"
    using assms(2) by (auto simp: gas_ok_def)
  let ?d = "ioDraws s"
  let ?lion = "rgUniform R ?d 0 1"
  define LL where "LL = \<bar>gpRoutZ g - \<bar>vz xi - gpEntranceRef g\<bar> - vz vseg * ?lion\<bar>"
  define tt where "tt = LL / gpGasDriftVelocity g"
  have tt: "0 < tt" using drift_pos [OF assms(1,3)] g(1) by (simp add: tt_def LL_def)
  define sg where "sg = sqrt (2 * gpGasDiffusion g * tt)"
  have "0 < LL" using drift_pos [OF assms(1,3)] by (simp add: LL_def)
  then have nn2: "\<not> LL * gpGasDiffusion g / gpGasDriftVelocity g < 0" using g(1,2) by (simp add: not_less)
  have sg: "0 < sg" and nn: "\<not> 2 * gpGasDiffusion g * tt < 0" using tt g(2) by (simp_all add: sg_def not_less)
  obtain c where c: "ion_charge R g (?d + 3) = Some c" using ion_charge_ok [OF assms(2)] by blast
  define q where "q = (if 0 < c then c else 0)"
  define SN where "SN = sg * gpSNormNsigma g"
  have SN: "0 < SN" using sg g(3) by (simp add: SN_def)
  define ip where "ip = \<lparr> ipX = vx vseg * ?lion + vx xi + rgGaus R (?d + 1) 0 (gpLateralUncertainty g),
     ipY = vy vseg * ?lion + vy xi + rgGaus R (?d + 2) 0 (gpLateralUncertainty g), ipCharge = q, ipSNorm = SN,
     ipR2 = SN * SN, ipggnorm = q * (1 / pi) / (SN * SN) \<rparr>"
  define t where "t = s \<lparr> ioDraws := ?d + 4, ioRIon := (ioRIon s)[i := ip], ioRSMax := Some (max sg rs),
     ioTotalCharge := Some (if 0 < c then tot + c else tot), ioTime0 := Some (min tt tm) \<rparr>"
  have "ion_step R g xi vseg i s = Some t"
    using s(1-3) c SN len assms(5) g(1,3) nn nn2 sg
    by (simp add: ion_step_def Let_def wr_def c_div_def c_sqrt_def t_def ip_def
        flip: LL_def tt_def sg_def SN_def q_def)
  moreover have "ions_inv g (Suc i) t"
  proof -
    have made: "ion_made g (max sg rs) ip"
      using SN g(3) sg by (simp add: ion_made_def ip_def q_def SN_def mult.commute)
    have "ion_made g (max sg rs) (ioRIon t ! a)" if "a < Suc i" for a
    proof (cases "a = i")
      case True
      then show ?thesis using made len assms(5) by (simp add: t_def)
    next
      case False
      then have "ion_made g rs (ioRIon s ! a)" using that s(6) by simp
      then show ?thesis using False ion_made_mono [OF _ _ g(3), of rs] by (simp add: t_def)
    qed
    moreover have "(if 0 < c then tot + c else tot) = (\<Sum>a < Suc i. ipCharge (ioRIon t ! a))"
      using s(5) len assms(5) by (simp add: t_def ip_def q_def)
    moreover have "ioRSMax t = Some (max sg rs)" "ioTotalCharge t = Some (if 0 < c then tot + c else tot)"
        "ioTime0 t = Some (min tt tm)" "length (ioRIon t) = gpMaxNIon g" "0 \<le> max sg rs"
      using len sg by (simp_all add: t_def)
    ultimately show ?thesis unfolding ions_inv_def by blast
  qed
  ultimately show ?thesis by (simp add: t_def)
qed

lemma ion_loop_ok:
  assumes "uniform_ok R" "gas_ok g" "track_ok g xi vseg"
  shows "ions_inv g i s \<Longrightarrow> i + n \<le> gpMaxNIon g \<Longrightarrow>
    \<exists>t. ion_loop R g xi vseg i n s = Some t \<and> ions_inv g (i + n) t \<and> ioNIon t = ioNIon s"
proof (induction n arbitrary: i s)
  case (Suc n)
  obtain u where u: "ion_step R g xi vseg i s = Some u" "ions_inv g (Suc i) u" "ioNIon u = ioNIon s"
    using ion_step_ok [OF assms Suc.prems(1)] Suc.prems(2) by auto
  then show ?case using Suc.IH [OF u(2)] Suc.prems(2) by auto
qed simp

lemma IonModel_ok:
  assumes "uniform_ok R" "gas_ok g" "track_ok g xi (xo - xi)" "length (ioRIon s) = gpMaxNIon g"
  shows "\<exists>t. IonModel R g xi xo elost s = Some t \<and> length (ioRIon t) = gpMaxNIon g \<and> ioNIon t \<le> gpMaxNIon g
    \<and> (if ioNIon t = 0 then t = s \<lparr> ioDraws := ioDraws s + 1, ioNIon := 0 \<rparr> else ions_inv g (ioNIon t) t)"
proof -
  have g: "0 < gpGasWion g" "0 < gpMaxNIon g" using assms(2) by (auto simp: gas_ok_def)
  define n where "n = rgPoisson R (ioDraws s) (elost / gpGasWion g)"
  define m where "m = (if gpMaxNIon g < n then gpMaxNIon g else n)"
  show ?thesis
  proof (cases "n = 0")
    case True
    then show ?thesis using g assms(4) by (simp add: IonModel_def Let_def c_div_def n_def)
  next
    case False
    let ?s0 = "s \<lparr> ioDraws := ioDraws s + 1, ioNIon := m, ioRSMax := Some 0, ioTotalCharge := Some 0, ioTime0 := Some 999999 \<rparr>"
    have "ions_inv g 0 ?s0" using assms(4) by (simp add: ions_inv_def)
    moreover have "0 + m \<le> gpMaxNIon g" "m \<noteq> 0" using False g(2) by (auto simp: m_def)
    ultimately obtain t where t: "ion_loop R g xi (xo - xi) 0 m ?s0 = Some t" "ions_inv g m t" "ioNIon t = m"
      using ion_loop_ok [OF assms(1-3), of 0 ?s0 m] by auto
    have "IonModel R g xi xo elost s = Some t"
      using t(1) g(1) False unfolding m_def by (cases "gpMaxNIon g < n") (simp_all add: IonModel_def Let_def c_div_def flip: n_def)
    then show ?thesis using t(2,3) \<open>m \<noteq> 0\<close> \<open>0 + m \<le> gpMaxNIon g\<close> by (auto simp: ions_inv_def)
  qed
qed

text \<open>Where an ion is, from the random numbers with index d on: at the fraction of the track given by the
  first, moved sideways by the next two; its disc grows with the square root of the drift time.\<close>

definition drift_time :: "rng \<Rightarrow> gempar \<Rightarrow> vec3 \<Rightarrow> vec3 \<Rightarrow> nat \<Rightarrow> real" where
  "drift_time R g xi vseg d =
     \<bar>gpRoutZ g - \<bar>vz xi - gpEntranceRef g\<bar> - vz vseg * rgUniform R d 0 1\<bar> / gpGasDriftVelocity g"

definition ion_at :: "rng \<Rightarrow> gempar \<Rightarrow> vec3 \<Rightarrow> vec3 \<Rightarrow> nat \<Rightarrow> ionpar \<Rightarrow> bool" where
  "ion_at R g xi vseg d ip \<longleftrightarrow>
     ipX ip = vx xi + rgUniform R d 0 1 * vx vseg + rgGaus R (d + 1) 0 (gpLateralUncertainty g)
     \<and> ipY ip = vy xi + rgUniform R d 0 1 * vy vseg + rgGaus R (d + 2) 0 (gpLateralUncertainty g)
     \<and> ipSNorm ip = gpSNormNsigma g * sqrt (2 * gpGasDiffusion g * drift_time R g xi vseg d)"

lemma ion_step_at:
  assumes "ion_step R g xi vseg i s = Some t"
  shows "i < length (ioRIon s) \<and> ioDraws t = ioDraws s + 4
    \<and> (\<exists>ip tm. ioRIon t = (ioRIon s)[i := ip] \<and> ion_at R g xi vseg (ioDraws s) ip
         \<and> ioTime0 s = Some tm \<and> ioTime0 t = Some (min (drift_time R g xi vseg (ioDraws s)) tm))"
  using assms
  by (auto simp: ion_step_def Let_def bind_eq_Some_conv wr_def c_div_def c_sqrt_def ion_at_def drift_time_def split: if_splits)

lemma Min_two: "finite A \<Longrightarrow> Min (insert (min a b) A) = Min (insert b (insert a A))" for a :: real
  by (cases "A = {}") (simp_all add: min.commute min.left_commute min.assoc)

lemma ion_loop_at:
  "ion_loop R g xi vseg i n s = Some t \<Longrightarrow> ioTime0 s = Some tm \<Longrightarrow>
    ioTime0 t = Some (Min (insert tm ((\<lambda>a. drift_time R g xi vseg (ioDraws s + 4 * a)) ` {..<n})))
    \<and> (\<forall>a < n. ion_at R g xi vseg (ioDraws s + 4 * a) (ioRIon t ! (i + a))) \<and> (\<forall>a < i. ioRIon t ! a = ioRIon s ! a)"
proof (induction n arbitrary: i s tm)
  case (Suc n)
  let ?f = "\<lambda>a. drift_time R g xi vseg (ioDraws s + 4 * a)"
  obtain u where u: "ion_step R g xi vseg i s = Some u" "ion_loop R g xi vseg (i + 1) n u = Some t"
    using Suc.prems(1) by (auto simp: bind_eq_Some_conv)
  obtain ip where ip: "i < length (ioRIon s)" "ioDraws u = ioDraws s + 4" "ioRIon u = (ioRIon s)[i := ip]"
      "ion_at R g xi vseg (ioDraws s) ip" "ioTime0 u = Some (min (?f 0) tm)"
    using ion_step_at [OF u(1)] Suc.prems(2) by auto
  note h = Suc.IH [OF u(2) ip(5), unfolded ip(2)]
  have sh: "ioDraws s + 4 + 4 * a = ioDraws s + 4 * Suc a" for a by simp
  have "Min (insert (min (?f 0) tm) ((\<lambda>a. ?f (Suc a)) ` {..<n})) = Min (insert tm (?f ` {..<Suc n}))"
  proof -
    have "?f ` {..<Suc n} = insert (?f 0) ((\<lambda>a. ?f (Suc a)) ` {..<n})"
      unfolding lessThan_Suc_eq_insert_0 by (simp add: image_image)
    then show ?thesis by (simp only: Min_two finite_imageI finite_lessThan)
  qed
  then have "ioTime0 t = Some (Min (insert tm (?f ` {..<Suc n})))" using h by (simp only: sh)
  moreover have "ion_at R g xi vseg (ioDraws s + 4 * a) (ioRIon t ! (i + a))" if "a < Suc n" for a
  proof (cases a)
    case 0
    have "ioRIon t ! i = ip" using h ip(1,3) by simp
    then show ?thesis using 0 ip(4) by simp
  next
    case (Suc b)
    then show ?thesis using h that by (simp only: sh) auto
  qed
  moreover have "ioRIon t ! a = ioRIon s ! a" if "a < i" for a using h ip(3) that by simp
  ultimately show ?case by blast
qed simp

lemma IonModel_at:
  assumes "IonModel R g xi xo elost s = Some t" "ioNIon t \<noteq> 0"
  shows "ioTime0 t = Some (Min (insert 999999 ((\<lambda>a. drift_time R g xi (xo - xi) (ioDraws s + 1 + 4 * a)) ` {..<ioNIon t})))
    \<and> (\<forall>a < ioNIon t. ion_at R g xi (xo - xi) (ioDraws s + 1 + 4 * a) (ioRIon t ! a))"
proof -
  define n where "n = rgPoisson R (ioDraws s) (elost / gpGasWion g)"
  define m where "m = (if gpMaxNIon g < n then gpMaxNIon g else n)"
  let ?s0 = "s \<lparr> ioDraws := ioDraws s + 1, ioNIon := m, ioRSMax := Some 0, ioTotalCharge := Some 0, ioTime0 := Some 999999 \<rparr>"
  have n0: "n \<noteq> 0" using assms by (auto simp: IonModel_def c_div_def Let_def n_def bind_eq_Some_conv split: if_splits)
  have l: "ion_loop R g xi (xo - xi) 0 m ?s0 = Some t"
    using assms(1) n0 unfolding m_def by (auto simp: IonModel_def c_div_def Let_def bind_eq_Some_conv simp flip: n_def split: if_splits)
  have "ioNIon u = ioNIon v" if "ion_loop R g xi (xo - xi) i k v = Some u" for i k u v
    using that
  proof (induction k arbitrary: i v)
    case (Suc k)
    then obtain w where w: "ion_step R g xi (xo - xi) i v = Some w" "ion_loop R g xi (xo - xi) (i + 1) k w = Some u"
      by (auto simp: bind_eq_Some_conv)
    have "ioNIon w = ioNIon v" using w(1) by (auto simp: ion_step_def Let_def bind_eq_Some_conv)
    then show ?case using Suc.IH [OF w(2)] by simp
  qed simp
  then have "ioNIon t = m" using l by fastforce
  then show ?thesis using ion_loop_at [OF l, of 999999] by simp
qed

text \<open>C26. Ionization of a track that stays in the gas gap always returns: at most max\_ion ions.  Each ion
  lies on the track, at the fraction lion between 0 and 1 of the way from the entrance to the exit that the
  random generator gives for it, but for the lateral uncertainty, its own two Gaussian numbers in x and y;
  its charge is not negative and spread over its disc, whose radius is avalanche\_range times the
  diffusion over its drift time; the total charge is the sum of the charges, and the minimum drift time
  the least of those of the ions (and of 999999).  Without an ion nothing but the number of ions changes,
  so that the minimum drift time is still that of an earlier hit, or was never set.\<close>

theorem IonModel_ions:
  assumes "uniform_ok R" "gas_ok g" "track_ok g xi (xo - xi)" "length (ioRIon s) = gpMaxNIon g"
  shows "\<exists>t. IonModel R g xi xo elost s = Some t \<and> ioNIon t \<le> gpMaxNIon g \<and>
    (if ioNIon t = 0 then ioTime0 t = ioTime0 s \<and> ioRIon t = ioRIon s
     else let time = (\<lambda>a. drift_time R g xi (xo - xi) (ioDraws s + 1 + 4 * a)) in
       (\<exists>rs. ioRSMax t = Some rs \<and> (\<forall>a < ioNIon t. ipSNorm (ioRIon t ! a) \<le> gpSNormNsigma g * rs))
       \<and> ioTotalCharge t = Some (\<Sum>a < ioNIon t. ipCharge (ioRIon t ! a))
       \<and> ioTime0 t = Some (Min (insert 999999 (time ` {..<ioNIon t})))
       \<and> (\<forall>a < ioNIon t. let ip = ioRIon t ! a; d = ioDraws s + 1 + 4 * a; lion = rgUniform R d 0 1 in
            0 \<le> lion \<and> lion \<le> 1
            \<and> ipX ip = vx xi + lion * (vx xo - vx xi) + rgGaus R (d + 1) 0 (gpLateralUncertainty g)
            \<and> ipY ip = vy xi + lion * (vy xo - vy xi) + rgGaus R (d + 2) 0 (gpLateralUncertainty g)
            \<and> ipSNorm ip = gpSNormNsigma g * sqrt (2 * gpGasDiffusion g * time a) \<and> 0 < ipSNorm ip
            \<and> 0 \<le> ipCharge ip \<and> ipR2 ip = ipSNorm ip * ipSNorm ip \<and> ipggnorm ip * (pi * ipR2 ip) = ipCharge ip))"
proof -
  obtain t where t: "IonModel R g xi xo elost s = Some t" "ioNIon t \<le> gpMaxNIon g"
      "if ioNIon t = 0 then t = s \<lparr> ioDraws := ioDraws s + 1, ioNIon := 0 \<rparr> else ions_inv g (ioNIon t) t"
    using IonModel_ok [OF assms] by blast
  show ?thesis
  proof (cases "ioNIon t = 0")
    case True
    have "ioTime0 t = ioTime0 s \<and> ioRIon t = ioRIon s" using t(3) True by simp
    then show ?thesis using t True by auto
  next
    case False
    then have "ions_inv g (ioNIon t) t" using t(3) by simp
    then obtain rs where rs: "ioRSMax t = Some rs" "ioTotalCharge t = Some (\<Sum>a < ioNIon t. ipCharge (ioRIon t ! a))"
        "\<forall>a < ioNIon t. ion_made g rs (ioRIon t ! a)" by (auto simp: ions_inv_def)
    have u: "0 \<le> rgUniform R d 0 1 \<and> rgUniform R d 0 1 \<le> 1" for d using assms(1) by (simp add: uniform_ok_def)
    have xy: "vx (xo - xi) = vx xo - vx xi" "vy (xo - xi) = vy xo - vy xi" by simp_all
    note at = IonModel_at [OF t(1) False, unfolded ion_at_def xy]
    show ?thesis
    proof (rule exI [of _ t], unfold Let_def if_not_P [OF False], intro conjI t(1,2) exI [of _ rs] rs(1,2) allI impI)
      show "ioTime0 t = Some (Min (insert 999999 ((\<lambda>a. drift_time R g xi (xo - xi) (ioDraws s + 1 + 4 * a)) ` {..<ioNIon t})))"
        using at by blast
    qed (use at rs(3) u in \<open>unfold ion_made_def, blast+\<close>)
  qed
qed

definition rngEx :: rng where
  "rngEx = \<lparr> rgGaus = (\<lambda>n m s. m), rgUniform = (\<lambda>n a b. (a + b) / 2), rgPoisson = (\<lambda>n m. 1), rgExp = (\<lambda>n m. m) \<rparr>"

lemma rngEx_ok: "uniform_ok rngEx" "gas_ok gparEx" "track_ok gparEx 0 (Vec 0 0 3 - 0)"
  by (simp_all add: uniform_ok_def rngEx_def gas_ok_def gparEx_def track_ok_def)

definition ionsEx0 :: ions where
  "ionsEx0 = \<lparr> ioDraws = 0, ioNIon = 0, ioRIon = replicate 100 \<lparr> ipX = 0, ipY = 0, ipCharge = 0, ipSNorm = 0, ipR2 = 0,
     ipggnorm = 0 \<rparr>, ioRSMax = None, ioTotalCharge = None, ioTime0 = None \<rparr>"

text \<open>The one ion of a track across the gap is in its middle.\<close>

theorem IonModel_ions_witness:
  "\<exists>t. IonModel rngEx gparEx 0 (Vec 2 4 3) 52 ionsEx0 = Some t \<and> ioNIon t \<le> 100
    \<and> (ioNIon t = 0 \<or> ipX (ioRIon t ! 0) = 1 \<and> ipY (ioRIon t ! 0) = 2)"
proof -
  have l: "length (ioRIon ionsEx0) = gpMaxNIon gparEx" by (simp add: ionsEx0_def gparEx_def)
  have tr: "track_ok gparEx 0 (Vec 2 4 3 - 0)" using rngEx_ok(3) by (simp add: track_ok_def)
  obtain t where t: "IonModel rngEx gparEx 0 (Vec 2 4 3) 52 ionsEx0 = Some t" "ioNIon t \<le> gpMaxNIon gparEx"
      "ioNIon t \<noteq> 0 \<longrightarrow> (let ip = ioRIon t ! 0; d = ioDraws ionsEx0 + 1 + 4 * 0; lion = rgUniform rngEx d 0 1 in
         ipX ip = vx 0 + lion * (vx (Vec 2 4 3) - vx 0) + rgGaus rngEx (d + 1) 0 (gpLateralUncertainty gparEx)
         \<and> ipY ip = vy 0 + lion * (vy (Vec 2 4 3) - vy 0) + rgGaus rngEx (d + 2) 0 (gpLateralUncertainty gparEx))"
    using IonModel_ions [OF rngEx_ok(1,2) tr l, of 52] unfolding Let_def by (auto split: if_splits)
  then show ?thesis by (intro exI [of _ t]) (auto simp: rngEx_def gparEx_def Let_def zero_vec3_def)
qed

end
