(* ===== verification/Digitization.thy ===== *)
theory Digitization
  imports Avalanche SimEvent DBManager
begin

text \<open>
  TSBSSimGEMDigitization (src/src/TSBSSimGEMDigitization.h and .cxx) around the avalanche model:
  setting up the digitized planes, digitizing the hits of an event, and filling the event
  structure and the output tree.

  The generators fRan of the planes and fTrnd of the digitizer are one stream of draws here.  A
  Float\_t is an exact real.  A file of the Geant4 input is the part SetTreeEvent reads of it.
\<close>

section \<open>State\<close>

text \<open>fEvent is None for the null pointer; the tree is None without an open output file.  fdh is
  the null pointer between two hits and so not part of the state.\<close>

record digi =
  dgIons :: ions
  dgDP :: "dplane list list"
  dgDADC :: "int list"
  dgEvent :: "simevent option"
  dgFilled :: bool
  dgSignalSector :: int
  dgMapSector :: bool
  dgTree :: "simevent list option"

section \<open>Initialization\<close>

text \<open>The values LoadDB stored, with its result, and the trigger offsets; None: no file.\<close>

definition ReadDatabaseD ::
  "int \<Rightarrow> (int \<times> gempar \<times> real list) option \<Rightarrow> gempar \<Rightarrow> (status \<times> gempar) option" where
  "ReadDatabaseD nchamber file g = (case file of None \<Rightarrow> Some (kFileError, g)
   | Some (err, g, offset) \<Rightarrow>
       if err \<noteq> 0 then Some (kInitError, g)
       else if int (length offset) \<noteq> nchamber then None
       else (let g = g \<lparr> gpTriggerOffset := gpTriggerOffset g @ offset \<rparr>;
                 g = (if gpSamplingPoints g < 0 \<or> 10 < gpSamplingPoints g then g \<lparr> gpSamplingPoints := 10 \<rparr> else g)
             in if gpADCbits g < 1 \<or> MAX_ADCBITS < gpADCbits g then Some (kInitError, g)
                else Some (kOK, g \<lparr> gpFiducialBand := \<bar>gpFiducialBand g\<bar> \<rparr>)))"

fun new_dplanes :: "gempar \<Rightarrow> plane list \<Rightarrow> dplane list option" where
  "new_dplanes g [] = Some []"
| "new_dplanes g (pl # pls) = do {
     p \<leftarrow> TSBSDigitizedPlane (nat (plNStrips pl mod 65536)) (nat (gpSamplingPoints g)) 0;
     ps \<leftarrow> new_dplanes g pls;
     Some (p # ps) }"

fun new_dchambers :: "gempar \<Rightarrow> chamber list \<Rightarrow> dplane list list option" where
  "new_dchambers g [] = Some []"
| "new_dchambers g (ch # chs) = do {
     ps \<leftarrow> new_dplanes g (chPlanes ch);
     pss \<leftarrow> new_dchambers g chs;
     Some (ps # pss) }"

definition DeleteObjects :: "digi \<Rightarrow> digi" where
  "DeleteObjects d = d \<lparr> dgDP := [], dgTree := None, dgEvent := None \<rparr>"

definition Initialize :: "gempar \<Rightarrow> spec \<Rightarrow> digi \<Rightarrow> digi option" where
  "Initialize g spect d = do {
     let d = DeleteObjects d;
     dp \<leftarrow> new_dchambers g (fChambers spect);
     Some (d \<lparr> dgDP := dp, dgDADC := resize (nat (gpSamplingPoints g)) 0 (dgDADC d), dgFilled := True \<rparr>) }"

text \<open>The constructor, after Init has read the parameters g.\<close>

definition ion0 :: ionpar where
  "ion0 = \<lparr> ipX = 0, ipY = 0, ipCharge = 0, ipSNorm = 0, ipR2 = 0, ipggnorm = 0 \<rparr>"

definition TSBSSimGEMDigitization :: "int \<Rightarrow> gempar \<Rightarrow> spec \<Rightarrow> (gempar \<times> digi) option" where
  "TSBSSimGEMDigitization nchamber g spect = do {
     d \<leftarrow> Initialize g spect \<lparr> dgIons = \<lparr> ioDraws = 0, ioNIon = 0, ioRIon = [], ioRSMax = None,
            ioTotalCharge = None, ioTime0 = None \<rparr>, dgDP = [], dgDADC = [], dgEvent = None, dgFilled = False,
            dgSignalSector = 0, dgMapSector = False, dgTree = None \<rparr>;
     Some (g \<lparr> gpTriggerOffset := resize (nat nchamber) 0 (gpTriggerOffset g) \<rparr>,
           d \<lparr> dgIons := (dgIons d) \<lparr> ioRIon := resize (gpMaxNIon g) ion0 (ioRIon (dgIons d)) \<rparr>,
               dgEvent := Some simevent_new \<rparr>) }"

section \<open>Recording a hit\<close>

text \<open>Number of strips and first strip of the hit in readout plane j.\<close>

definition cluster_strips :: "gemhit list option \<Rightarrow> nat \<Rightarrow> (int \<times> int) option" where
  "cluster_strips fdh j = (case fdh of None \<Rightarrow> Some (0, 0)
   | Some vs \<Rightarrow> do {
       v \<leftarrow> rd vs j;
       if 0 < gh_size v then do { i \<leftarrow> GetIdx 0 v; Some (int (gh_size v), i) }
       else Some (int (gh_size v), -1) })"

text \<open>The x component after TVector3::RotateZ by minus the strip angle.\<close>

definition proj_x :: "plane \<Rightarrow> vec3 \<Rightarrow> real" where
  "proj_x pl v = cos (- plSAngle pl) * vx v - sin (- plSAngle pl) * vy v"

definition hit_cluster ::
  "dbm \<Rightarrow> chamber \<Rightarrow> plane \<Rightarrow> plane \<Rightarrow> int \<times> int \<Rightarrow> int \<times> int \<Rightarrow> int \<Rightarrow> gemhitdata \<Rightarrow> real \<Rightarrow> nat \<Rightarrow> gemcluster" where
  "hit_cluster m ch pl0 pl1 strips0 strips1 source h t0 nclust =
     (let igem = int (hdGem h); centre = (1/2) *\<^sub>R (hdXi h + hdXo h); hitpos = (1/1000) *\<^sub>R centre
      in \<lparr> gcID = wrap16 (int nclust + 1), gcSector = 0,
           gcPlane = wrap16 (GetPlaneID m igem), gcModule = wrap16 (GetModuleID m igem), gcRealSector = None,
           gcSource = source, gcType = int (hdType h), gcTRID = int (hdTRID h), gcPID = hdPID h,
           gcP = (1/1000) *\<^sub>R on_vector (ch_SpecToLab ch) (hdMom h), gcPspec = (1/1000) *\<^sub>R hdMom h,
           gcXEntry = (1/1000) *\<^sub>R hdXi h,
           gcMCpos = (1/1000) *\<^sub>R on_vector (ch_PlaneToSpec ch) centre, gcHitpos = hitpos,
           gcCharge = hdEdep h, gcTime = t0, gcSize = [fst strips0, fst strips1],
           gcStart = [snd strips0, snd strips1],
           gcXProj = [proj_x pl0 hitpos, proj_x pl1 hitpos], gcVertex = (1/1000) *\<^sub>R hdVert h \<rparr>)"

definition push_cluster :: "gemcluster \<Rightarrow> simevent \<Rightarrow> simevent" where
  "push_cluster clust e =
     (let e = e \<lparr> evGEMClust := evGEMClust e @ [clust] \<rparr>
      in if gcType clust = 1 \<and> gcSource clust = 0 then e \<lparr> evNSignal := evNSignal e + 1 \<rparr> else e)"

definition SetTreeHit ::
  "dbm \<Rightarrow> spec \<Rightarrow> nat \<Rightarrow> gemhit list option \<Rightarrow> simhitdata \<Rightarrow> real \<Rightarrow> digi \<Rightarrow> (int \<times> digi) option" where
  "SetTreeHit m spect ih fdh tsgd t0 d = do {
     e \<leftarrow> dgEvent d;
     h \<leftarrow> rd (shHits tsgd) ih;
     ch \<leftarrow> GetChamber spect (int (hdGem h));
     pl0 \<leftarrow> rd (chPlanes ch) 0;
     pl1 \<leftarrow> rd (chPlanes ch) 1;
     strips0 \<leftarrow> cluster_strips fdh 0;
     strips1 \<leftarrow> cluster_strips fdh 1;
     let clust = hit_cluster m ch pl0 pl1 strips0 strips1 (shSource tsgd) h t0 (length (evGEMClust e));
     Some (gcID clust, d \<lparr> dgEvent := Some (push_cluster clust e) \<rparr>) }"

section \<open>Digitizing a hit\<close>

text \<open>The random numbers of Cumulate: a uniform one for the side, a Gaussian one for the factor.\<close>

definition draw_xtalk :: "rng \<Rightarrow> gempar \<Rightarrow> nat \<Rightarrow> xtalk \<times> nat" where
  "draw_xtalk R g n = (\<lparr> xtDo = (gpDoCrossTalk g \<noteq> 0), xtApart = gpNCStripApart g, xtFactor = gpCrossFactor g,
       xtIsLeft = (if rgUniform R n 0 1 < 1/2 then -1 else 1), xtNoise = rgGaus R (n + 1) 0 (gpCrossSigma g) \<rparr>,
     if gpDoCrossTalk g \<noteq> 0 then n + 2 else n)"

definition set_draws :: "nat \<Rightarrow> digi \<Rightarrow> digi" where
  "set_draws n d = d \<lparr> dgIons := (dgIons d) \<lparr> ioDraws := n \<rparr> \<rparr>"

definition cum_plane :: "rng \<Rightarrow> gempar \<Rightarrow> nat \<Rightarrow> gemhit list \<Rightarrow> int \<Rightarrow> int \<Rightarrow> nat \<Rightarrow> digi \<Rightarrow> digi option" where
  "cum_plane R g igem vs itype cid j d = do {
     let (x, n) = draw_xtalk R g (ioDraws (dgIons d));
     v \<leftarrow> rd vs j;
     row \<leftarrow> rd (dgDP d) igem;
     p \<leftarrow> rd row j;
     p \<leftarrow> Cumulate x (Some v) itype cid p;
     Some (set_draws n (d \<lparr> dgDP := (dgDP d)[igem := row[j := p]] \<rparr>)) }"

text \<open>The record of the cluster, and the strips of both readout planes.\<close>

definition record_hit ::
  "rng \<Rightarrow> gempar \<Rightarrow> dbm \<Rightarrow> spec \<Rightarrow> simhitdata \<Rightarrow> real \<Rightarrow> nat \<Rightarrow> gemhitdata \<Rightarrow> gemhit list option \<Rightarrow> digi \<Rightarrow> digi option" where
  "record_hit R g m spect gdata time_zero ih h fdh d = do {
     (cid, d) \<leftarrow> SetTreeHit m spect ih fdh gdata time_zero d;
     case fdh of None \<Rightarrow> Some d
     | Some vs \<Rightarrow> do {
         let itype = (if hdType h = 1 then 1 else 2);
         d \<leftarrow> cum_plane R g (hdGem h) vs itype cid 0 d;
         cum_plane R g (hdGem h) vs itype cid 1 d } }"

text \<open>What is done with a hit in an existing chamber that is not too long: ionization, start time,
  avalanche, record of the cluster, and the strips of both readout planes.\<close>

definition digitize_hit ::
  "rng \<Rightarrow> gempar \<Rightarrow> dbm \<Rightarrow> spec \<Rightarrow> simhitdata \<Rightarrow> bool \<Rightarrow> real \<Rightarrow> nat \<Rightarrow> gemhitdata \<Rightarrow> digi \<Rightarrow> digi option" where
  "digitize_hit R g m spect gdata is_background jitter ih h d = do {
     io \<leftarrow> IonModel R g (hdXi h) (hdXo h) (hdEdep h) (dgIons d);
     let (event_time, io) =
       (if is_background
        then (rgUniform R (ioDraws io) (- gpGateWidth g + 2 * gpSamplingPeriod g) (8 * gpSamplingPeriod g),
              io \<lparr> ioDraws := ioDraws io + 1 \<rparr>)
        else (hdTime h, io));
     offset \<leftarrow> rd (gpTriggerOffset g) (hdPlane h);
     drift \<leftarrow> ioTime0 io;
     let time_zero = event_time - offset + drift * 10 ^ 9 - jitter;
     (dadc, fdh) \<leftarrow> (if 0 < ioNIon io
        then AvaModel g spect io (hdGem h) (hdXi h) (hdXo h) time_zero (dgDADC d)
        else Some (dgDADC d, None));
     record_hit R g m spect gdata time_zero ih h fdh (d \<lparr> dgIons := io, dgDADC := dadc \<rparr>) }"

text \<open>Hits in chambers that do not exist and hits longer than 50 mm are skipped.\<close>

definition skipped :: "digi \<Rightarrow> gemhitdata \<Rightarrow> bool" where
  "skipped d h \<longleftrightarrow> length (dgDP d) \<le> hdGem h
     \<or> 50 < \<bar>vx (hdXi h) - vx (hdXo h)\<bar> \<or> 50 < \<bar>vy (hdXi h) - vy (hdXo h)\<bar>"

fun digitize_hits ::
  "rng \<Rightarrow> gempar \<Rightarrow> dbm \<Rightarrow> spec \<Rightarrow> simhitdata \<Rightarrow> bool \<Rightarrow> real \<Rightarrow> nat \<Rightarrow> nat \<Rightarrow> digi \<Rightarrow> digi option" where
  "digitize_hits R g m spect gdata bg jitter ih 0 d = Some d"
| "digitize_hits R g m spect gdata bg jitter ih (Suc n) d = do {
     h \<leftarrow> rd (shHits gdata) ih;
     d \<leftarrow> (if skipped d h then Some d else digitize_hit R g m spect gdata bg jitter ih h d);
     digitize_hits R g m spect gdata bg jitter (ih + 1) n d }"

definition AdditiveDigitize ::
  "rng \<Rightarrow> gempar \<Rightarrow> dbm \<Rightarrow> simhitdata \<Rightarrow> spec \<Rightarrow> digi \<Rightarrow> (int \<times> digi) option" where
  "AdditiveDigitize R g m gdata spect d =
     (let nh = length (shHits gdata); is_background = (shSource gdata \<noteq> 0) in
      if nh = 0 then Some (0, d)
      else do {
        let n = ioDraws (dgIons d);
        let jitter = rgGaus R n 0 (gpTriggerJitter g);
        d \<leftarrow> digitize_hits R g m spect gdata is_background jitter 0 nh (set_draws (n + 1) d);
        Some (0, d \<lparr> dgFilled := False \<rparr>) })"

definition Digitize :: "rng \<Rightarrow> gempar \<Rightarrow> dbm \<Rightarrow> simhitdata \<Rightarrow> spec \<Rightarrow> digi \<Rightarrow> (int \<times> digi) option" where
  "Digitize R g m gdata spect d = do {
     e \<leftarrow> dgEvent d;
     let d = d \<lparr> dgEvent := Some (event_Clear False e), dgSignalSector := 0,
                 dgDP := map (map dp_Clear) (dgDP d), dgFilled := True \<rparr>;
     AdditiveDigitize R g m gdata spect d }"

section \<open>Strips of the event\<close>

text \<open>The samples of a strip with pedestal noise, cut at 4000, and the contributions of the
  clusters to each.\<close>

fun strip_samples :: "rng \<Rightarrow> gempar \<Rightarrow> dplane \<Rightarrow> nat \<Rightarrow> nat \<Rightarrow> nat \<Rightarrow> nat \<Rightarrow> (int list \<times> int list list) option" where
  "strip_samples R g p idx draw ss 0 = Some ([], [])"
| "strip_samples R g p idx draw ss (Suc n) = do {
     adc \<leftarrow> dp_GetADC p idx ss;
     a \<leftarrow> to_int32 (of_int adc + rgGaus R draw 0 (gpPulseNoiseSigma g));
     let a = (if 4000 < a then 4000 else a);
     cl \<leftarrow> rd (dpClusterADC p) ss;
     sclust \<leftarrow> rd cl idx;
     (adcs, ratios) \<leftarrow> strip_samples R g p idx (draw + 1) (ss + 1) n;
     Some (a # adcs, sclust # ratios) }"

definition tree_strip ::
  "rng \<Rightarrow> gempar \<Rightarrow> int \<Rightarrow> int \<Rightarrow> int \<Rightarrow> dplane \<Rightarrow> nat \<Rightarrow> nat \<Rightarrow> (gemstrip \<times> nat) option" where
  "tree_strip R g pln mdl prj p istrip draw = do {
     let idx = wrap16 (int istrip);
     let nsamp = min MC_MAXSAMP (dpNSamples p);
     if idx < 0 then None
     else do {
       (adcs, ratios) \<leftarrow> strip_samples R g p (nat idx) draw 0 nsamp;
       ty \<leftarrow> dp_GetType p (nat idx);
       ch \<leftarrow> dp_GetCharge p (nat idx);
       t \<leftarrow> dp_GetTime p (nat idx);
       sc \<leftarrow> rd (dpStripClusters p) (nat idx);
       swc \<leftarrow> rd (dpStripWeight p) (nat idx);
       Some (\<lparr> gsSector = 0, gsPlane = pln, gsModule = mdl, gsProj = prj, gsChan = idx, gsSigType = ty,
               gsCharge = ch, gsTime1 = t, gsNsamp = nsamp, gsADC = adcs, gsClusters = sc,
               gsClusterRatio = ratios, gsStripWeight = swc \<rparr>, draw + nsamp) } }"

fun tree_strips ::
  "rng \<Rightarrow> gempar \<Rightarrow> int \<Rightarrow> int \<Rightarrow> int \<Rightarrow> dplane \<Rightarrow> nat \<Rightarrow> nat \<Rightarrow> nat \<Rightarrow> (gemstrip list \<times> nat) option" where
  "tree_strips R g pln mdl prj p istrip 0 draw = Some ([], draw)"
| "tree_strips R g pln mdl prj p istrip (Suc n) draw = do {
     (s, draw) \<leftarrow> tree_strip R g pln mdl prj p istrip draw;
     (ss, draw) \<leftarrow> tree_strips R g pln mdl prj p (istrip + 1) n draw;
     Some (s # ss, draw) }"

fun tree_planes ::
  "rng \<Rightarrow> gempar \<Rightarrow> int \<Rightarrow> int \<Rightarrow> int \<Rightarrow> dplane list \<Rightarrow> nat \<Rightarrow> (gemstrip list \<times> nat) option" where
  "tree_planes R g pln mdl ip [] draw = Some ([], draw)"
| "tree_planes R g pln mdl ip (p # ps) draw = do {
     (ss, draw) \<leftarrow> tree_strips R g pln mdl (wrap16 ip) p 0 (dpNStrips p) draw;
     (ss', draw) \<leftarrow> tree_planes R g pln mdl (ip + 1) ps draw;
     Some (ss @ ss', draw) }"

fun tree_chambers ::
  "rng \<Rightarrow> gempar \<Rightarrow> dbm \<Rightarrow> int \<Rightarrow> dplane list list \<Rightarrow> nat \<Rightarrow> (gemstrip list \<times> nat) option" where
  "tree_chambers R g m ich [] draw = Some ([], draw)"
| "tree_chambers R g m ich (ps # pss) draw = do {
     (ss, draw) \<leftarrow> tree_planes R g (wrap16 (GetPlaneID m ich)) (wrap16 (GetModuleID m ich)) 0 ps draw;
     (ss', draw) \<leftarrow> tree_chambers R g m (ich + 1) pss draw;
     Some (ss @ ss', draw) }"

definition SetTreeStrips :: "rng \<Rightarrow> gempar \<Rightarrow> dbm \<Rightarrow> digi \<Rightarrow> digi option" where
  "SetTreeStrips R g m d = do {
     e \<leftarrow> dgEvent d;
     (ss, draw) \<leftarrow> tree_chambers R g m 0 (dgDP d) (ioDraws (dgIons d));
     Some (set_draws draw (d \<lparr> dgEvent := Some (e \<lparr> evGEMStrips := ss \<rparr>), dgFilled := True \<rparr>)) }"

section \<open>The tree\<close>

text \<open>InitTree; opened tells whether the output file could be created.\<close>

definition InitTree :: "bool \<Rightarrow> digi \<Rightarrow> digi" where
  "InitTree opened d = d \<lparr> dgTree := (if opened then Some [] else None) \<rparr>"

definition FillTree :: "rng \<Rightarrow> gempar \<Rightarrow> dbm \<Rightarrow> digi \<Rightarrow> digi option" where
  "FillTree R g m d = do {
     d \<leftarrow> (if dgFilled d then Some d else SetTreeStrips R g m d);
     case dgTree d of None \<Rightarrow> Some d
     | Some t \<Rightarrow> do { e \<leftarrow> dgEvent d; Some (d \<lparr> dgTree := Some (t @ [e]) \<rparr>) } }"

fun nodigitize_hits :: "dbm \<Rightarrow> spec \<Rightarrow> simhitdata \<Rightarrow> nat \<Rightarrow> nat \<Rightarrow> digi \<Rightarrow> digi option" where
  "nodigitize_hits m spect gdata ih 0 d = Some d"
| "nodigitize_hits m spect gdata ih (Suc n) d = do {
     h \<leftarrow> rd (shHits gdata) ih;
     d \<leftarrow> (if length (dgDP d) \<le> hdGem h then Some d
          else do { (cid, d) \<leftarrow> SetTreeHit m spect ih None gdata 0 d; Some d });
     nodigitize_hits m spect gdata (ih + 1) n d }"

definition NoDigitize :: "rng \<Rightarrow> gempar \<Rightarrow> dbm \<Rightarrow> simhitdata \<Rightarrow> spec \<Rightarrow> digi \<Rightarrow> digi option" where
  "NoDigitize R g m gdata spect d = do {
     e \<leftarrow> dgEvent d;
     d \<leftarrow> nodigitize_hits m spect gdata 0 (length (shHits gdata)) (d \<lparr> dgEvent := Some (event_Clear False e) \<rparr>);
     SetTreeStrips R g m d }"

text \<open>What SetTreeEvent reads of the input file: the generated tracks, and pointers to the
  calorimeter and scintillator clusters, None once the object is deleted.\<close>

record ginput =
  giGen :: "hitdata list"
  giECal :: "ecal_cluster option list"
  giScint :: "scint_cluster option list"

fun add_gens :: "hitdata list \<Rightarrow> simevent \<Rightarrow> simevent option" where
  "add_gens [] e = Some e"
| "add_gens (gd # gds) e = do {
     trid \<leftarrow> GetTRID gd; pid \<leftarrow> GetPID gd; v \<leftarrow> GetV gd; p \<leftarrow> GetP gd;
     vt \<leftarrow> GetVertexAtTarget gd; pt \<leftarrow> GetMomentumAtTarget gd;
     add_gens gds (AddTrack trid pid v p vt pt e) }"

definition cluster_time :: "rng \<Rightarrow> gempar \<Rightarrow> int \<Rightarrow> nat \<Rightarrow> real \<times> nat" where
  "cluster_time R g source n =
     (if source = 0 then (rgGaus R n 0 (gpTriggerJitter g), n + 1)
      else (rgUniform R n (-50) 50 + rgGaus R (n + 1) 0 (gpTriggerJitter g), n + 2))"

fun time_clusters ::
  "rng \<Rightarrow> gempar \<Rightarrow> int \<Rightarrow> 'a ecal_cluster_scheme option list \<Rightarrow> nat \<Rightarrow> ('a ecal_cluster_scheme list \<times> nat) option" where
  "time_clusters R g source [] n = Some ([], n)"
| "time_clusters R g source (c # cs) n = do {
     clus \<leftarrow> c;
     let (t, n) = cluster_time R g source n;
     (clusters, n) \<leftarrow> time_clusters R g source cs n;
     Some (clus \<lparr> ecTime := t \<rparr> # clusters, n) }"

definition SetTreeEvent ::
  "rng \<Rightarrow> gempar \<Rightarrow> simhitdata \<Rightarrow> ginput \<Rightarrow> int \<Rightarrow> digi \<Rightarrow> (ginput \<times> digi) option" where
  "SetTreeEvent R g tsgd f evnum d = do {
     e \<leftarrow> dgEvent d;
     let e = (event_Clear True e) \<lparr> evRunID := int (shRunID tsgd),
               evEvtID := (if evnum < 0 then int (shEvtID tsgd) else evnum) \<rparr>;
     e \<leftarrow> add_gens (giGen f) e;
     (cs, n) \<leftarrow> time_clusters R g (shSource tsgd) (giECal f) (ioDraws (dgIons d));
     (ss, n) \<leftarrow> time_clusters R g (shSource tsgd) (giScint f) n;
     let e = e \<lparr> evECalClusters := evECalClusters e @ cs, evScintClusters := evScintClusters e @ ss \<rparr>;
     e \<leftarrow> (case giGen f of [] \<Rightarrow> Some e
          | gd # _ \<Rightarrow> do { w \<leftarrow> GetWeight gd; Some (e \<lparr> evWeight := w \<rparr>) });
     let e = e \<lparr> evSectorsMapped := dgMapSector d, evSignalSector := dgSignalSector d \<rparr>;
     Some (f \<lparr> giECal := map (\<lambda>_. None) (giECal f), giScint := map (\<lambda>_. None) (giScint f) \<rparr>,
           set_draws n (d \<lparr> dgEvent := Some e \<rparr>)) }"

section \<open>The invariant of the digitizer\<close>

text \<open>Cluster number c belongs to a cluster of GEM plane pid.\<close>

definition cluster_of :: "gemcluster list \<Rightarrow> int \<Rightarrow> int \<Rightarrow> bool" where
  "cluster_of cl pid c \<longleftrightarrow> 1 \<le> c \<and> c \<le> int (length cl) \<and> gcPlane (cl ! nat (c - 1)) = pid"

definition numbered :: "gemcluster list \<Rightarrow> bool" where
  "numbered cl \<longleftrightarrow> (\<forall>k < length cl. gcID (cl ! k) = int k + 1 \<and> gcSector (cl ! k) = 0
     \<and> length (gcSize (cl ! k)) = 2 \<and> length (gcStart (cl ! k)) = 2 \<and> length (gcXProj (cl ! k)) = 2)"

definition plane_inv :: "gempar \<Rightarrow> gemcluster list \<Rightarrow> int \<Rightarrow> plane \<Rightarrow> dplane \<Rightarrow> bool" where
  "plane_inv g cl pid pl p \<longleftrightarrow> dp_inv p \<and> 0 \<le> dpThreshold p \<and> dpNSamples p = nat (gpSamplingPoints g)
     \<and> int (dpNStrips p) = plNStrips pl \<and> well_linked (cluster_of cl pid) p"

definition planes_inv :: "gempar \<Rightarrow> dbm \<Rightarrow> spec \<Rightarrow> gemcluster list \<Rightarrow> dplane list list \<Rightarrow> bool" where
  "planes_inv g m spect cl dp \<longleftrightarrow> length dp = length (fChambers spect)
     \<and> (\<forall>ic < length dp. list_all2 (plane_inv g cl (wrap16 (GetPlaneID m (int ic))))
          (chPlanes (fChambers spect ! ic)) (dp ! ic))"

definition digi_inv :: "gempar \<Rightarrow> dbm \<Rightarrow> spec \<Rightarrow> simevent \<Rightarrow> digi \<Rightarrow> bool" where
  "digi_inv g m spect e d \<longleftrightarrow> dgEvent d = Some e \<and> length (ioRIon (dgIons d)) = gpMaxNIon g
     \<and> length (dgDADC d) = nat (gpSamplingPoints g) \<and> numbered (evGEMClust e)
     \<and> planes_inv g m spect (evGEMClust e) (dgDP d)"

text \<open>The set-up of the spectrometer: every chamber read from the database, with a number of
  strips that fits an unsigned short.\<close>

definition spec_ready :: "spec \<Rightarrow> bool" where
  "spec_ready spect \<longleftrightarrow> (\<forall>ch \<in> set (fChambers spect). chamber_ready ch)"

definition xtalk_ok :: "rng \<Rightarrow> gempar \<Rightarrow> bool" where
  "xtalk_ok R g \<longleftrightarrow> (\<forall>n. (2 ^ nat (gpADCbits g) - 1) * (gpCrossFactor g + rgGaus R n 0 (gpCrossSigma g)) < 2147483648)"

lemma cluster_of_append: "cluster_of cl pid c \<Longrightarrow> cluster_of (cl @ cs) pid c"
  by (auto simp: cluster_of_def nth_append)

lemma plane_inv_append: "plane_inv g cl pid pl p \<Longrightarrow> plane_inv g (cl @ cs) pid pl p"
  by (auto simp: plane_inv_def elim: well_linked_mono [OF _ cluster_of_append])

lemma planes_inv_append: "planes_inv g m spect cl dp \<Longrightarrow> planes_inv g m spect (cl @ cs) dp"
  by (auto simp: planes_inv_def list_all2_conv_all_nth plane_inv_append)

lemma numbered_append:
  "numbered cl \<Longrightarrow> gcID c = int (length cl) + 1 \<Longrightarrow> gcSector c = 0 \<Longrightarrow> length (gcSize c) = 2 \<Longrightarrow>
    length (gcStart c) = 2 \<Longrightarrow> length (gcXProj c) = 2 \<Longrightarrow> numbered (cl @ [c])"
  by (auto simp: numbered_def nth_append less_Suc_eq)

lemma planes_inv_update:
  assumes "planes_inv g m spect cl dp" "ic < length dp" "j < length (dp ! ic)"
    "plane_inv g cl (wrap16 (GetPlaneID m (int ic))) (chPlanes (fChambers spect ! ic) ! j) p"
  shows "planes_inv g m spect cl (dp[ic := (dp ! ic)[j := p]])"
  using assms unfolding planes_inv_def by (auto simp: nth_list_update list_all2_conv_all_nth)

section \<open>Cumulating a hit on its plane\<close>

lemma draw_xtalk_fits:
  assumes "xtalk_ok R g" "hit_good g pl t0 v" "0 < gpSamplingPoints g"
  shows "xtalk_fits (fst (draw_xtalk R g n)) v"
proof -
  define F where "F = gpCrossFactor g + rgGaus R (n + 1) 0 (gpCrossSigma g)"
  have "of_int (hit_adc v j k) * F < 2147483648" if "j < gh_size v" "k < gh_nsample v" for j k
  proof (cases "F \<le> 0")
    case True
    have "0 \<le> hit_adc v j k" using that assms(2) by (simp add: hit_good_def)
    then have "of_int (hit_adc v j k) * F \<le> 0" using True by (simp add: mult_nonneg_nonpos)
    then show ?thesis by linarith
  next
    case False
    have "hit_adc v j k \<le> 2 ^ nat (gpADCbits g) - 1" using that assms(2) by (simp add: hit_good_def)
    then have "real_of_int (hit_adc v j k) \<le> real_of_int (2 ^ nat (gpADCbits g) - 1)" by linarith
    then have "of_int (hit_adc v j k) * F \<le> (2 ^ nat (gpADCbits g) - 1) * F"
      using False by (intro mult_right_mono) auto
    moreover have "(2 ^ nat (gpADCbits g) - 1) * F < 2147483648" using assms(1) by (simp add: xtalk_ok_def F_def)
    ultimately show ?thesis by linarith
  qed
  then show ?thesis by (simp add: xtalk_fits_def draw_xtalk_def F_def)
qed

text \<open>The counts on all planes, and the most one hit can add to a strip.\<close>

definition counts_below :: "int \<Rightarrow> digi \<Rightarrow> bool" where
  "counts_below B d \<longleftrightarrow> (\<forall>ps \<in> set (dgDP d). \<forall>p \<in> set ps. adc_below B p)"

definition hit_room :: "rng \<Rightarrow> gempar \<Rightarrow> int \<Rightarrow> bool" where
  "hit_room R g K \<longleftrightarrow> (\<forall>n. (2 ^ nat (gpADCbits g) - 1) * (1 + max 0 (gpCrossFactor g + rgGaus R n 0 (gpCrossSigma g))) \<le> of_int K)"

definition counts_grow :: "rng \<Rightarrow> gempar \<Rightarrow> nat \<Rightarrow> digi \<Rightarrow> digi \<Rightarrow> bool" where
  "counts_grow R g n d d' \<longleftrightarrow> (\<forall>K B. hit_room R g K \<longrightarrow> counts_below B d \<longrightarrow> counts_below (B + int n * K) d')"

lemma hit_room_nonneg: "hit_room R g K \<Longrightarrow> 0 \<le> K"
proof -
  assume "hit_room R g K"
  then have "(2 ^ nat (gpADCbits g) - 1) * (1 + max 0 (gpCrossFactor g + rgGaus R 0 0 (gpCrossSigma g))) \<le> (of_int K :: real)"
    by (simp add: hit_room_def)
  moreover have "0 \<le> (2 ^ nat (gpADCbits g) - 1) * (1 + max 0 (gpCrossFactor g + rgGaus R 0 0 (gpCrossSigma g)))"
    by (intro mult_nonneg_nonneg) simp_all
  ultimately show "0 \<le> K" by linarith
qed

lemma counts_below_mono: "counts_below B d \<Longrightarrow> B \<le> C \<Longrightarrow> counts_below C d"
  unfolding counts_below_def by (blast intro: adc_below_mono)

lemma counts_grow_same: "dgDP d' = dgDP d \<Longrightarrow> counts_grow R g n d d'"
  unfolding counts_grow_def using hit_room_nonneg counts_below_mono [of _ d] by (fastforce simp: counts_below_def)

lemma counts_grow_trans:
  assumes "counts_grow R g n d d1" "counts_grow R g k d1 d2" "n + k \<le> l"
  shows "counts_grow R g l d d2"
  unfolding counts_grow_def
proof (intro allI impI)
  fix K B assume K: "hit_room R g K" and B: "counts_below B d"
  have "counts_below ((B + int n * K) + int k * K) d2" using assms(1,2) K B by (auto simp: counts_grow_def)
  moreover have "int (n + k) * K \<le> int l * K" using assms(3) hit_room_nonneg [OF K] by (intro mult_right_mono) simp_all
  ultimately show "counts_below (B + int l * K) d2" by (elim counts_below_mono) (simp add: distrib_right)
qed

lemma ball_update: "\<forall>x \<in> set xs. P x \<Longrightarrow> P y \<Longrightarrow> \<forall>x \<in> set (xs[i := y]). P x"
  using set_update_subset_insert [of xs i y] by blast

lemma counts_below_update:
  assumes "counts_below B d" "adc_below C q" "B \<le> C" "ic < length (dgDP d)" "j < length (dgDP d ! ic)"
    "dgDP d' = (dgDP d)[ic := (dgDP d ! ic)[j := q]]"
  shows "counts_below C d'"
proof -
  have d: "\<forall>ps \<in> set (dgDP d). \<forall>p \<in> set ps. adc_below C p"
    using assms(1,3) unfolding counts_below_def by (blast intro: adc_below_mono)
  have "\<forall>p \<in> set ((dgDP d ! ic)[j := q]). adc_below C p"
    using bspec [OF d nth_mem [OF assms(4)]] by (rule ball_update) (rule assms(2))
  from ball_update [where P = "\<lambda>ps. \<forall>p \<in> set ps. adc_below C p", OF d this] show ?thesis unfolding counts_below_def assms(6) .
qed

lemma hit_good_room:
  assumes "hit_good g pl t0 v" "hit_room R g K" "k < gh_nsample v"
  shows "0 \<le> direct_adc v i k + induced_adc (fst (draw_xtalk R g n)) v i k"
    "direct_adc v i k + induced_adc (fst (draw_xtalk R g n)) v i k \<le> K"
proof -
  have idx: "gh_idx v ! a < gh_idx v ! b" if "a < b" "b < gh_size v" for a b
    using assms(1) that unfolding hit_good_def by blast
  have "inj_on (\<lambda>j. gh_idx v ! j) {..<gh_size v}"
  proof (rule inj_onI)
    fix a b assume "a \<in> {..<gh_size v}" "b \<in> {..<gh_size v}" "gh_idx v ! a = gh_idx v ! b"
    then show "a = b" using idx [of a b] idx [of b a] by (cases a b rule: linorder_cases) auto
  qed
  moreover have "\<forall>j < gh_size v. 0 \<le> hit_adc v j k \<and> hit_adc v j k \<le> 2 ^ nat (gpADCbits g) - 1"
    using assms(1,3) by (simp add: hit_good_def)
  moreover have "(0::int) \<le> 2 ^ nat (gpADCbits g) - 1" by simp
  moreover have "of_int (2 ^ nat (gpADCbits g) - 1) * (1 + max 0 (xtFactor (fst (draw_xtalk R g n)) + xtNoise (fst (draw_xtalk R g n))))
      \<le> (of_int K :: real)"
    using assms(2) by (simp add: hit_room_def draw_xtalk_def)
  ultimately show "0 \<le> direct_adc v i k + induced_adc (fst (draw_xtalk R g n)) v i k"
    "direct_adc v i k + induced_adc (fst (draw_xtalk R g n)) v i k \<le> K" by (rule hit_adds_once)+
qed

lemma cum_plane_ok:
  assumes "digi_inv g m spect e d" "ic < length (dgDP d)" "j < length vs"
    "list_all2 (\<lambda>pl v. hit_good g pl t0 v) (chPlanes (fChambers spect ! ic)) vs"
    "cluster_of (evGEMClust e) (wrap16 (GetPlaneID m (int ic))) cid" "xtalk_ok R g" "0 < gpSamplingPoints g"
  shows "\<exists>d'. cum_plane R g ic vs ty cid j d = Some d' \<and> digi_inv g m spect e d'
    \<and> ioTime0 (dgIons d') = ioTime0 (dgIons d) \<and> length (dgDP d') = length (dgDP d) \<and> counts_grow R g 1 d d'"
proof -
  let ?pid = "wrap16 (GetPlaneID m (int ic))"
  let ?pls = "chPlanes (fChambers spect ! ic)"
  have pi: "planes_inv g m spect (evGEMClust e) (dgDP d)" using assms(1) by (simp add: digi_inv_def)
  then have row: "list_all2 (plane_inv g (evGEMClust e) ?pid) ?pls (dgDP d ! ic)"
    using assms(2) by (simp add: planes_inv_def)
  have j: "j < length (dgDP d ! ic)" "j < length ?pls"
    using list_all2_lengthD [OF row] list_all2_lengthD [OF assms(4)] assms(3) by simp_all
  define p where "p = dgDP d ! ic ! j"
  have p: "plane_inv g (evGEMClust e) ?pid (?pls ! j) p" using row j by (simp add: list_all2_nthD p_def)
  have v: "hit_good g (?pls ! j) t0 (vs ! j)" using assms(4) j(2) by (rule list_all2_nthD)
  obtain x n where x: "draw_xtalk R g (ioDraws (dgIons d)) = (x, n)" by force
  have xf: "xtalk_fits x (vs ! j)" using draw_xtalk_fits [OF assms(6) v assms(7)] x by (metis fst_conv)
  have fits: "hit_fits (vs ! j) p" using v p by (auto simp: plane_inv_def intro: hit_good_fits)
  obtain q where q: "Cumulate x (Some (vs ! j)) ty cid p = Some q" "dp_inv q" "same_size p q"
      "well_linked (cluster_of (evGEMClust e) ?pid) q"
      "\<forall>i < dpNStrips p. \<forall>k < dpNSamples p. adc_at q i k = adc_at p i k + (direct_adc (vs ! j) i k + induced_adc x (vs ! j) i k)"
    using Cumulate_linked [where C = "cluster_of (evGEMClust e) ?pid", OF _ fits xf _ assms(5), of ty] p
    unfolding plane_inv_def add.assoc by blast
  have ns: "gh_nsample (vs ! j) = dpNSamples p" using v p by (simp add: hit_good_def plane_inv_def)
  have room: "adc_below (B + K) q" if "adc_below B p" "hit_room R g K" for B K
    unfolding adc_below_def
  proof (intro allI impI)
    fix i k assume ik: "i < dpNStrips q" "k < dpNSamples q"
    then have "i < dpNStrips p" "k < dpNSamples p" using q(3) by (simp_all add: same_size_def)
    then have "adc_at q i k = adc_at p i k + (direct_adc (vs ! j) i k + induced_adc x (vs ! j) i k)"
        "0 \<le> adc_at p i k \<and> adc_at p i k \<le> B" "k < gh_nsample (vs ! j)"
      using q(5) that(1) ns by (simp_all add: adc_below_def)
    moreover have "fst (draw_xtalk R g (ioDraws (dgIons d))) = x" by (simp add: x)
    ultimately show "0 \<le> adc_at q i k \<and> adc_at q i k \<le> B + K"
      using hit_good_room [OF v that(2), of k i "ioDraws (dgIons d)"] by simp
  qed
  have "plane_inv g (evGEMClust e) ?pid (?pls ! j) q"
    using p q by (simp add: plane_inv_def same_size_def)
  from planes_inv_update [OF pi assms(2) j(1) this]
  have pi': "planes_inv g m spect (evGEMClust e) ((dgDP d)[ic := (dgDP d ! ic)[j := q]])" .
  define d' where "d' = set_draws n (d \<lparr> dgDP := (dgDP d)[ic := (dgDP d ! ic)[j := q]] \<rparr>)"
  have dp: "dgDP d' = (dgDP d)[ic := (dgDP d ! ic)[j := q]]" by (simp add: d'_def set_draws_def)
  have pin: "p \<in> set (dgDP d ! ic)" "dgDP d ! ic \<in> set (dgDP d)" using assms(2) j(1) by (simp_all add: p_def)
  have "counts_below (B + K) d'" if K: "hit_room R g K" and B: "counts_below B d" for K B
  proof -
    have "adc_below B p" using B pin by (auto simp: counts_below_def)
    from counts_below_update [OF B room [OF this K] _ assms(2) j(1) dp] hit_room_nonneg [OF K] show ?thesis by simp
  qed
  then have "counts_grow R g 1 d d'" by (simp add: counts_grow_def)
  then show ?thesis using x q(1) assms(1-3) j(1) pi'
    by (simp add: cum_plane_def rd_def digi_inv_def p_def d'_def set_draws_def)
qed

section \<open>Recording a hit\<close>

lemma cluster_strips_ok:
  assumes "fdh = None \<or> (\<exists>vs. fdh = Some vs \<and> j < length vs \<and> gh_inv (vs ! j))"
  shows "\<exists>k i. cluster_strips fdh j = Some (k, i)"
  using assms by (auto simp: cluster_strips_def rd_def GetIdx_def gh_inv_def)

text \<open>The cluster c recorded for the hit h is the last one of the new event e'.\<close>

definition made_from :: "dbm \<Rightarrow> int \<Rightarrow> gemhitdata \<Rightarrow> gemcluster \<Rightarrow> bool" where
  "made_from m src h c \<longleftrightarrow> gcPlane c = wrap16 (GetPlaneID m (int (hdGem h)))
     \<and> gcModule c = wrap16 (GetModuleID m (int (hdGem h))) \<and> gcTRID c = int (hdTRID h) \<and> gcPID c = hdPID h
     \<and> gcType c = int (hdType h) \<and> gcSource c = src \<and> gcCharge c = hdEdep h"

definition is_signal :: "gemcluster \<Rightarrow> bool" where
  "is_signal c \<longleftrightarrow> gcType c = 1 \<and> gcSource c = 0"

definition hit_recorded :: "dbm \<Rightarrow> int \<Rightarrow> gemhitdata \<Rightarrow> gemcluster \<Rightarrow> simevent \<Rightarrow> simevent \<Rightarrow> bool" where
  "hit_recorded m src h c e e' \<longleftrightarrow> made_from m src h c \<and> evGEMClust e' = evGEMClust e @ [c]
     \<and> evNSignal e' = evNSignal e + (if is_signal c then 1 else 0) \<and> evMCTracks e' = evMCTracks e"

lemma SetTreeHit_ok:
  assumes "digi_inv g m spect e d" "ih < length (shHits gd)" "hdGem (shHits gd ! ih) < length (fChambers spect)"
    "chamber_ready (fChambers spect ! hdGem (shHits gd ! ih))" "length (evGEMClust e) < 32767"
    "fdh = None \<or> (\<exists>vs. fdh = Some vs \<and> length vs = 2 \<and> (\<forall>j < 2. gh_inv (vs ! j)))"
  shows "\<exists>e' d' c. SetTreeHit m spect ih fdh gd t0 d = Some (gcID c, d') \<and> digi_inv g m spect e' d'
    \<and> hit_recorded m (shSource gd) (shHits gd ! ih) c e e'
    \<and> cluster_of (evGEMClust e') (wrap16 (GetPlaneID m (int (hdGem (shHits gd ! ih))))) (gcID c)
    \<and> dgIons d' = dgIons d \<and> dgDP d' = dgDP d"
proof -
  let ?h = "shHits gd ! ih"
  have e: "dgEvent d = Some e" using assms(1) by (simp add: digi_inv_def)
  have ch: "GetChamber spect (int (hdGem ?h)) = Some (fChambers spect ! hdGem ?h)"
    using assms(3) by (simp add: GetChamber_def)
  have two: "length (chPlanes (fChambers spect ! hdGem ?h)) = 2" using assms(4) by (simp add: chamber_ready_def)
  obtain k0 i0 where k0: "cluster_strips fdh 0 = Some (k0, i0)" using cluster_strips_ok [of fdh 0] assms(6) by fastforce
  obtain k1 i1 where k1: "cluster_strips fdh 1 = Some (k1, i1)" using cluster_strips_ok [of fdh 1] assms(6) by fastforce
  obtain pl0 pl1 where pl: "rd (chPlanes (fChambers spect ! hdGem ?h)) 0 = Some pl0"
      "rd (chPlanes (fChambers spect ! hdGem ?h)) 1 = Some pl1" using two by (simp add: rd_def)
  define c where "c = hit_cluster m (fChambers spect ! hdGem ?h) pl0 pl1 (k0, i0) (k1, i1) (shSource gd) ?h t0
    (length (evGEMClust e))"
  have c: "gcID c = wrap16 (int (length (evGEMClust e)) + 1)" "gcSector c = 0"
      "gcPlane c = wrap16 (GetPlaneID m (int (hdGem ?h)))"
      "length (gcSize c) = 2" "length (gcStart c) = 2" "length (gcXProj c) = 2"
    by (simp_all add: c_def hit_cluster_def Let_def)
  define e' where "e' = push_cluster c e"
  have e': "evGEMClust e' = evGEMClust e @ [c]" by (simp add: e'_def push_cluster_def Let_def)
  have r: "hit_recorded m (shSource gd) ?h c e e'"
    by (simp add: hit_recorded_def made_from_def is_signal_def e'_def push_cluster_def c_def hit_cluster_def Let_def)
  define d' where "d' = d \<lparr> dgEvent := Some e' \<rparr>"
  have h: "rd (shHits gd) ih = Some ?h" using assms(2) by (simp add: rd_def)
  have st: "SetTreeHit m spect ih fdh gd t0 d = Some (gcID c, d')"
    using e h ch pl k0 k1 by (simp add: SetTreeHit_def rd_def Let_def c_def e'_def d'_def)
  have w: "gcID c = int (length (evGEMClust e)) + 1" using c(1) assms(5) by simp
  have "digi_inv g m spect e' d'"
    using assms(1) c(2,4-6) w e' by (simp add: d'_def digi_inv_def numbered_append planes_inv_append)
  moreover have "cluster_of (evGEMClust e') (wrap16 (GetPlaneID m (int (hdGem ?h)))) (gcID c)"
    using c(3) w e' by (simp add: cluster_of_def)
  ultimately show ?thesis using st r by (intro exI [of _ e'] exI [of _ d'] exI [of _ c]) (simp add: d'_def)
qed

section \<open>Digitizing a hit\<close>

text \<open>What the digitizer relies on: the random generator, the parameters and the spectrometer.\<close>

definition setup_ok :: "rng \<Rightarrow> gempar \<Rightarrow> spec \<Rightarrow> bool" where
  "setup_ok R g spect \<longleftrightarrow> settings_ok g \<and> gas_ok g \<and> uniform_ok R \<and> xtalk_ok R g \<and> spec_ready spect
     \<and> 0 < gpSamplingPoints g"

text \<open>A hit that can be digitized: its chamber exists, it has a trigger offset, it stays in the
  gas gap and its avalanche fits the integration grid.\<close>

definition hit_ready :: "rng \<Rightarrow> gempar \<Rightarrow> spec \<Rightarrow> gemhitdata \<Rightarrow> bool" where
  "hit_ready R g spect h \<longleftrightarrow> hdPlane h < length (gpTriggerOffset g) \<and> track_ok g (hdXi h) (hdXo h - hdXi h)
     \<and> (\<forall>s t. length (ioRIon s) = gpMaxNIon g \<longrightarrow> IonModel R g (hdXi h) (hdXo h) (hdEdep h) s = Some t \<longrightarrow>
          ioNIon t \<noteq> 0 \<longrightarrow> chamber_fits g t (fChambers spect ! hdGem h) (hdXi h) (hdXo h))"

text \<open>Every draw gives at least one ion.\<close>

definition ionizes :: "rng \<Rightarrow> gempar \<Rightarrow> gemhitdata \<Rightarrow> bool" where
  "ionizes R g h \<longleftrightarrow> (\<forall>n. rgPoisson R n (hdEdep h / gpGasWion g) \<noteq> 0)"

definition time_known :: "rng \<Rightarrow> gempar \<Rightarrow> gemhitdata \<Rightarrow> digi \<Rightarrow> bool" where
  "time_known R g h d \<longleftrightarrow> ioTime0 (dgIons d) \<noteq> None \<or> ionizes R g h"

lemma ionizes_NIon:
  assumes "ionizes R g h" "gas_ok g" "uniform_ok R" "track_ok g (hdXi h) (hdXo h - hdXi h)"
    "length (ioRIon s) = gpMaxNIon g" "IonModel R g (hdXi h) (hdXo h) (hdEdep h) s = Some t"
  shows "ioNIon t \<noteq> 0"
proof -
  have g: "gpGasWion g \<noteq> 0" "0 < gpMaxNIon g" using assms(2) by (auto simp: gas_ok_def)
  define n where "n = rgPoisson R (ioDraws s) (hdEdep h / gpGasWion g)"
  define m where "m = (if gpMaxNIon g < n then gpMaxNIon g else n)"
  let ?s0 = "s \<lparr> ioDraws := ioDraws s + 1, ioNIon := m, ioRSMax := Some 0, ioTotalCharge := Some 0, ioTime0 := Some 999999 \<rparr>"
  have n: "n \<noteq> 0" using assms(1) by (simp add: ionizes_def n_def)
  have m: "0 + m \<le> gpMaxNIon g" "m \<noteq> 0" using n g(2) by (auto simp: m_def)
  have "ions_inv g 0 ?s0" using assms(5) by (simp add: ions_inv_def)
  then obtain u where u: "ion_loop R g (hdXi h) (hdXo h - hdXi h) 0 m ?s0 = Some u" "ioNIon u = m"
    using ion_loop_ok [OF assms(3,2,4), of 0 ?s0 m] m(1) by auto
  have "IonModel R g (hdXi h) (hdXo h) (hdEdep h) s = Some u"
    using u(1) g(1) n unfolding m_def
    by (cases "gpMaxNIon g < n") (simp_all add: IonModel_def Let_def c_div_def flip: n_def)
  then show ?thesis using assms(6) u(2) m(2) by simp
qed

lemma chamber_fits_draws [simp]: "chamber_fits g (s \<lparr> ioDraws := n \<rparr>) ch xi xo = chamber_fits g s ch xi xo"
  by (simp add: chamber_fits_def plane_fits_def)

text \<open>The ionization and the avalanche of a hit.\<close>

lemma hit_ions:
  assumes "setup_ok R g spect" "hit_ready R g spect h" "length (ioRIon s) = gpMaxNIon g"
    "ioTime0 s \<noteq> None \<or> ionizes R g h"
  shows "\<exists>t time0. IonModel R g (hdXi h) (hdXo h) (hdEdep h) s = Some t \<and> length (ioRIon t) = gpMaxNIon g
    \<and> ioTime0 t = Some time0
    \<and> (0 < ioNIon t \<longrightarrow> chamber_fits g t (fChambers spect ! hdGem h) (hdXi h) (hdXo h)
         \<and> ioRSMax t \<noteq> None \<and> ioTotalCharge t \<noteq> None)"
proof -
  have so: "uniform_ok R" "gas_ok g" and tr: "track_ok g (hdXi h) (hdXo h - hdXi h)"
    using assms(1,2) by (auto simp: setup_ok_def hit_ready_def)
  obtain t where t: "IonModel R g (hdXi h) (hdXo h) (hdEdep h) s = Some t" "length (ioRIon t) = gpMaxNIon g"
      "if ioNIon t = 0 then t = s \<lparr> ioDraws := ioDraws s + 1, ioNIon := 0 \<rparr> else ions_inv g (ioNIon t) t"
    using IonModel_ok [OF so tr assms(3)] by blast
  show ?thesis
  proof (cases "ioNIon t = 0")
    case True
    then have "\<not> ionizes R g h" using ionizes_NIon [OF _ so(2,1) tr assms(3) t(1)] by blast
    then have "ioTime0 s \<noteq> None" using assms(4) by blast
    moreover have "ioTime0 t = ioTime0 s" using t(3) True by simp
    ultimately show ?thesis using t(1,2) True by auto
  next
    case False
    then have "ions_inv g (ioNIon t) t" using t(3) by simp
    moreover have "chamber_fits g t (fChambers spect ! hdGem h) (hdXi h) (hdXo h)"
      using assms(2,3) t(1) False unfolding hit_ready_def by blast
    ultimately show ?thesis using t(1,2) by (auto simp: ions_inv_def)
  qed
qed

lemma digi_inv_ions:
  "digi_inv g m spect e d \<Longrightarrow> length (ioRIon io) = gpMaxNIon g \<Longrightarrow> length dadc = length (dgDADC d) \<Longrightarrow>
    digi_inv g m spect e (d \<lparr> dgIons := io, dgDADC := dadc \<rparr>)"
  by (simp add: digi_inv_def)

text \<open>After the avalanche: the cluster is recorded and its strips are summed up on both planes.\<close>

lemma record_hit_ok:
  assumes "setup_ok R g spect" "digi_inv g m spect e d" "ih < length (shHits gd)" "h = shHits gd ! ih"
    "hdGem h < length (fChambers spect)" "length (evGEMClust e) < 32767"
    "\<forall>vs. fdh = Some vs \<longrightarrow> list_all2 (\<lambda>pl v. hit_good g pl tz v) (chPlanes (fChambers spect ! hdGem h)) vs"
  shows "\<exists>e' d' c. record_hit R g m spect gd tz ih h fdh d = Some d'
    \<and> digi_inv g m spect e' d' \<and> hit_recorded m (shSource gd) h c e e'
    \<and> ioTime0 (dgIons d') = ioTime0 (dgIons d) \<and> length (dgDP d') = length (dgDP d) \<and> counts_grow R g 2 d d'"
proof -
  have ch: "chamber_ready (fChambers spect ! hdGem h)" and xt: "xtalk_ok R g" and sp: "0 < gpSamplingPoints g"
    using assms(1,5) by (auto simp: setup_ok_def spec_ready_def)
  have "fdh = None \<or> (\<exists>vs. fdh = Some vs \<and> length vs = 2 \<and> (\<forall>j < 2. gh_inv (vs ! j)))"
  proof (cases fdh)
    case (Some vs)
    then show ?thesis using assms(7) ch
      by (auto simp: chamber_ready_def list_all2_conv_all_nth hit_good_def)
  qed simp
  then obtain e' d' c where s: "SetTreeHit m spect ih fdh gd tz d = Some (gcID c, d')" "digi_inv g m spect e' d'"
      "hit_recorded m (shSource gd) h c e e'" "cluster_of (evGEMClust e') (wrap16 (GetPlaneID m (int (hdGem h)))) (gcID c)"
      "dgIons d' = dgIons d" "dgDP d' = dgDP d"
    using SetTreeHit_ok [OF assms(2,3), where fdh = fdh and ?t0.0 = tz] assms(4-6) ch by auto
  show ?thesis
  proof (cases fdh)
    case None
    then show ?thesis using s counts_grow_same [OF s(6), of R g 2]
      by (intro exI [of _ e'] exI [of _ d'] exI [of _ c]) (simp add: record_hit_def)
  next
    case (Some vs)
    have good: "list_all2 (\<lambda>pl v. hit_good g pl tz v) (chPlanes (fChambers spect ! hdGem h)) vs"
      using assms(7) Some by blast
    have two: "length vs = 2" using list_all2_lengthD [OF good] ch by (simp add: chamber_ready_def)
    have ic: "hdGem h < length (dgDP d')" using s(2) assms(5) by (simp add: digi_inv_def planes_inv_def)
    let ?ty = "if hdType h = 1 then 1 else 2"
    obtain d1 where d1: "cum_plane R g (hdGem h) vs ?ty (gcID c) 0 d' = Some d1" "digi_inv g m spect e' d1"
        "ioTime0 (dgIons d1) = ioTime0 (dgIons d')" "length (dgDP d1) = length (dgDP d')" "counts_grow R g 1 d' d1"
      using cum_plane_ok [OF s(2) ic _ good s(4) xt sp, of 0 ?ty] two by auto
    have ic1: "hdGem h < length (dgDP d1)" using ic d1(4) by simp
    obtain d2 where d2: "cum_plane R g (hdGem h) vs ?ty (gcID c) 1 d1 = Some d2" "digi_inv g m spect e' d2"
        "ioTime0 (dgIons d2) = ioTime0 (dgIons d1)" "length (dgDP d2) = length (dgDP d1)" "counts_grow R g 1 d1 d2"
      using cum_plane_ok [OF d1(2) ic1 _ good s(4) xt sp, of 1 ?ty] two by auto
    have "counts_grow R g 2 d' d2" using counts_grow_trans [OF d1(5) d2(5)] by simp
    then have "counts_grow R g 2 d d2" using counts_grow_trans [OF counts_grow_same [OF s(6), of R g 0]] by simp
    then show ?thesis using Some s(1,3,5,6) d1(1,3,4) d2(1-4)
      by (intro exI [of _ e'] exI [of _ d2] exI [of _ c]) (simp add: record_hit_def Let_def)
  qed
qed

lemma digitize_hit_ok:
  assumes "setup_ok R g spect" "digi_inv g m spect e d" "ih < length (shHits gd)" "h = shHits gd ! ih"
    "hdGem h < length (fChambers spect)" "length (evGEMClust e) < 32767" "hit_ready R g spect h" "time_known R g h d"
  shows "\<exists>e' d' c. digitize_hit R g m spect gd bg jitter ih h d = Some d' \<and> digi_inv g m spect e' d'
    \<and> hit_recorded m (shSource gd) h c e e' \<and> ioTime0 (dgIons d') \<noteq> None \<and> length (dgDP d') = length (dgDP d)
    \<and> counts_grow R g 2 d d'"
proof -
  have st: "settings_ok g" and ch: "chamber_ready (fChambers spect ! hdGem h)"
    using assms(1,5) by (auto simp: setup_ok_def spec_ready_def)
  have gc: "GetChamber spect (int (hdGem h)) = Some (fChambers spect ! hdGem h)"
    using assms(5) by (simp add: GetChamber_def)
  obtain t0 time0 where t0: "IonModel R g (hdXi h) (hdXo h) (hdEdep h) (dgIons d) = Some t0"
      "length (ioRIon t0) = gpMaxNIon g" "ioTime0 t0 = Some time0"
      "0 < ioNIon t0 \<longrightarrow> chamber_fits g t0 (fChambers spect ! hdGem h) (hdXi h) (hdXo h)
         \<and> ioRSMax t0 \<noteq> None \<and> ioTotalCharge t0 \<noteq> None"
    using hit_ions [OF assms(1,7), of "dgIons d"] assms(2,8) by (auto simp: digi_inv_def time_known_def)
  define et where "et = (if bg then rgUniform R (ioDraws t0) (- gpGateWidth g + 2 * gpSamplingPeriod g) (8 * gpSamplingPeriod g)
     else hdTime h)"
  define io where "io = (if bg then t0 \<lparr> ioDraws := ioDraws t0 + 1 \<rparr> else t0)"
  have io: "length (ioRIon io) = gpMaxNIon g" "ioTime0 io = Some time0" "ioNIon io = ioNIon t0"
      "0 < ioNIon io \<longrightarrow> chamber_fits g io (fChambers spect ! hdGem h) (hdXi h) (hdXo h)
         \<and> ioRSMax io \<noteq> None \<and> ioTotalCharge io \<noteq> None"
    using t0(2-4) by (auto simp: io_def)
  define tz where "tz = et - gpTriggerOffset g ! hdPlane h + time0 * 10 ^ 9 - jitter"
  have off: "hdPlane h < length (gpTriggerOffset g)" using assms(7) by (simp add: hit_ready_def)
  obtain dadc fdh where av: "(if 0 < ioNIon io
        then AvaModel g spect io (hdGem h) (hdXi h) (hdXo h) tz (dgDADC d) else Some (dgDADC d, None)) = Some (dadc, fdh)"
      "length dadc = length (dgDADC d)"
      "\<forall>vs. fdh = Some vs \<longrightarrow> list_all2 (\<lambda>pl v. hit_good g pl tz v) (chPlanes (fChambers spect ! hdGem h)) vs"
  proof (cases "0 < ioNIon io")
    case True
    have "length (dgDADC d) = nat (gpSamplingPoints g)" using assms(2) by (simp add: digi_inv_def)
    then show thesis using AvaModel_ok [OF st gc ch, of io "hdXi h" "hdXo h" "dgDADC d" tz] io(4) True that by auto
  next
    case False
    then show thesis using that [of "dgDADC d" None] by simp
  qed
  let ?d = "d \<lparr> dgIons := io, dgDADC := dadc \<rparr>"
  have inv: "digi_inv g m spect e ?d" using digi_inv_ions [OF assms(2) io(1) av(2)] .
  have eq: "digitize_hit R g m spect gd bg jitter ih h d = record_hit R g m spect gd tz ih h fdh ?d"
  proof -
    have p: "(if bg then (rgUniform R (ioDraws t0) (- gpGateWidth g + 2 * gpSamplingPeriod g) (8 * gpSamplingPeriod g),
         t0 \<lparr> ioDraws := ioDraws t0 + 1 \<rparr>) else (hdTime h, t0)) = (et, io)" by (simp add: et_def io_def)
    have o: "rd (gpTriggerOffset g) (hdPlane h) = Some (gpTriggerOffset g ! hdPlane h)" using off by (simp add: rd_def)
    show ?thesis unfolding digitize_hit_def t0(1) bind.bind_lunit Let_def [of "if bg then _ else _"] p
      by (simp only: o io(2) bind.bind_lunit case_prod_conv Let_def tz_def [symmetric] av(1))
  qed
  obtain e' d' c where r: "record_hit R g m spect gd tz ih h fdh ?d = Some d'" "digi_inv g m spect e' d'"
      "hit_recorded m (shSource gd) h c e e'" "ioTime0 (dgIons d') = ioTime0 (dgIons ?d)" "length (dgDP d') = length (dgDP ?d)"
      "counts_grow R g 2 ?d d'"
    using record_hit_ok [OF assms(1) inv assms(3-6) av(3)] by blast
  have "counts_grow R g 2 d d'" using counts_grow_trans [OF counts_grow_same [of ?d d R g 0] r(6)] by simp
  then show ?thesis using r(1-5) io(2) unfolding eq by (intro exI [of _ e'] exI [of _ d'] exI [of _ c]) simp
qed


text \<open>The hits that are digitized: those in an existing chamber that are not too long.\<close>

definition accepted :: "spec \<Rightarrow> gemhitdata \<Rightarrow> bool" where
  "accepted spect h \<longleftrightarrow> hdGem h < length (fChambers spect)
     \<and> \<bar>vx (hdXi h) - vx (hdXo h)\<bar> \<le> 50 \<and> \<bar>vy (hdXi h) - vy (hdXo h)\<bar> \<le> 50"

text \<open>The events before and after a list of hits.\<close>

definition hits_recorded :: "dbm \<Rightarrow> int \<Rightarrow> gemhitdata list \<Rightarrow> gemcluster list \<Rightarrow> simevent \<Rightarrow> simevent \<Rightarrow> bool" where
  "hits_recorded m src hs cs e e' \<longleftrightarrow> list_all2 (made_from m src) hs cs \<and> evGEMClust e' = evGEMClust e @ cs
     \<and> evNSignal e' = evNSignal e + int (length (filter is_signal cs)) \<and> evMCTracks e' = evMCTracks e"

lemma hits_recorded_Cons:
  "hit_recorded m src h c e e1 \<Longrightarrow> hits_recorded m src hs cs e1 e2 \<Longrightarrow> hits_recorded m src (h # hs) (c # cs) e e2"
  by (auto simp: hit_recorded_def hits_recorded_def)

lemma hits_recorded_Nil [simp]: "hits_recorded m src [] [] e e"
  by (simp add: hits_recorded_def)

lemma skipped_accepted: "digi_inv g m spect e d \<Longrightarrow> skipped d h \<longleftrightarrow> \<not> accepted spect h"
  by (auto simp: skipped_def accepted_def digi_inv_def planes_inv_def)

lemma digitize_hits_ok:
  assumes "setup_ok R g spect" "\<forall>h \<in> set (shHits gd). accepted spect h \<longrightarrow> hit_ready R g spect h"
  shows "digi_inv g m spect e d \<Longrightarrow> ih + n = length (shHits gd) \<Longrightarrow> length (evGEMClust e) + n \<le> 32767 \<Longrightarrow>
    \<forall>h \<in> set (shHits gd). accepted spect h \<longrightarrow> time_known R g h d \<Longrightarrow>
    \<exists>e' d' cs. digitize_hits R g m spect gd bg jitter ih n d = Some d' \<and> digi_inv g m spect e' d'
      \<and> (ioTime0 (dgIons d) \<noteq> None \<longrightarrow> ioTime0 (dgIons d') \<noteq> None)
      \<and> hits_recorded m (shSource gd) (filter (accepted spect) (drop ih (shHits gd))) cs e e'
      \<and> counts_grow R g (2 * n) d d'"
proof (induction n arbitrary: ih d e)
  case 0
  then show ?case by (intro exI [of _ e] exI [of _ d] exI [of _ "[]"]) (simp add: counts_grow_same)
next
  case (Suc n)
  define h where "h = shHits gd ! ih"
  have ih: "ih < length (shHits gd)" using Suc.prems(2) by simp
  have r: "rd (shHits gd) ih = Some h" using ih by (simp add: rd_def h_def)
  have h: "h \<in> set (shHits gd)" using ih by (simp add: h_def)
  have dr: "drop ih (shHits gd) = h # drop (ih + 1) (shHits gd)" using ih by (simp add: Cons_nth_drop_Suc h_def)
  have sk: "skipped d h \<longleftrightarrow> \<not> accepted spect h" using skipped_accepted [OF Suc.prems(1)] .
  show ?case
  proof (cases "accepted spect h")
    case False
    obtain e' d' cs where "digitize_hits R g m spect gd bg jitter (ih + 1) n d = Some d'" "digi_inv g m spect e' d'"
      "ioTime0 (dgIons d) \<noteq> None \<longrightarrow> ioTime0 (dgIons d') \<noteq> None"
      "hits_recorded m (shSource gd) (filter (accepted spect) (drop (ih + 1) (shHits gd))) cs e e'"
      "counts_grow R g (2 * n) d d'"
      using Suc.IH [OF Suc.prems(1), of "ih + 1"] Suc.prems(2-4) by auto
    moreover have "counts_grow R g (2 * Suc n) d d'"
      using counts_grow_trans [OF counts_grow_same [of d d R g 0] calculation(5)] by simp
    ultimately show ?thesis using False sk r dr
      by (intro exI [of _ e'] exI [of _ d'] exI [of _ cs]) (simp add: rd_def)
  next
    case True
    have hr: "hit_ready R g spect h" using assms(2) h True by blast
    have tk: "time_known R g h d" using Suc.prems(4) h True by blast
    have gem: "hdGem h < length (fChambers spect)" using True by (simp add: accepted_def)
    have cl: "length (evGEMClust e) < 32767" using Suc.prems(3) by simp
    obtain e1 d1 c where d1: "digitize_hit R g m spect gd bg jitter ih h d = Some d1" "digi_inv g m spect e1 d1"
        "hit_recorded m (shSource gd) h c e e1" "ioTime0 (dgIons d1) \<noteq> None" "counts_grow R g 2 d d1"
      using digitize_hit_ok [OF assms(1) Suc.prems(1) ih h_def gem cl hr tk] by blast
    have "length (evGEMClust e1) + n \<le> 32767" using d1(3) Suc.prems(3) by (simp add: hit_recorded_def)
    moreover have "\<forall>h \<in> set (shHits gd). accepted spect h \<longrightarrow> time_known R g h d1"
      using d1(4) by (simp add: time_known_def)
    moreover have "(ih + 1) + n = length (shHits gd)" using Suc.prems(2) by simp
    ultimately obtain e' d' cs where d2: "digitize_hits R g m spect gd bg jitter (ih + 1) n d1 = Some d'"
      "digi_inv g m spect e' d'" "ioTime0 (dgIons d1) \<noteq> None \<longrightarrow> ioTime0 (dgIons d') \<noteq> None"
      "hits_recorded m (shSource gd) (filter (accepted spect) (drop (ih + 1) (shHits gd))) cs e1 e'"
      "counts_grow R g (2 * n) d1 d'"
      using Suc.IH [OF d1(2), of "ih + 1"] by blast
    moreover have "counts_grow R g (2 * Suc n) d d'" using counts_grow_trans [OF d1(5) d2(5)] by simp
    ultimately show ?thesis using True sk r dr d1(1,3,4) hits_recorded_Cons
      by (intro exI [of _ e'] exI [of _ d'] exI [of _ "c # cs"]) (simp add: rd_def)
  qed
qed

section \<open>Digitizing an event\<close>

text \<open>A set of hits that can be digitized: all accepted ones are ready, and the drift time is
  known from an earlier hit or every hit makes an ion.\<close>

definition data_ready :: "rng \<Rightarrow> gempar \<Rightarrow> spec \<Rightarrow> simhitdata \<Rightarrow> digi \<Rightarrow> bool" where
  "data_ready R g spect gd d \<longleftrightarrow>
     (\<forall>h \<in> set (shHits gd). accepted spect h \<longrightarrow> hit_ready R g spect h \<and> time_known R g h d)"

lemma digi_inv_draws [simp]: "digi_inv g m spect e (set_draws n d) = digi_inv g m spect e d"
  by (simp add: digi_inv_def set_draws_def)

lemma data_ready_draws [simp]: "data_ready R g spect gd (set_draws n d) = data_ready R g spect gd d"
  by (simp add: data_ready_def time_known_def set_draws_def)

lemma AdditiveDigitize_ok:
  assumes "setup_ok R g spect" "data_ready R g spect gd d" "digi_inv g m spect e d"
    "length (evGEMClust e) + length (shHits gd) \<le> 32767"
  shows "\<exists>e' d' cs. AdditiveDigitize R g m gd spect d = Some (0, d') \<and> digi_inv g m spect e' d'
    \<and> (ioTime0 (dgIons d) \<noteq> None \<longrightarrow> ioTime0 (dgIons d') \<noteq> None)
    \<and> hits_recorded m (shSource gd) (filter (accepted spect) (shHits gd)) cs e e'
    \<and> counts_grow R g (2 * length (shHits gd)) d d'"
proof (cases "shHits gd = []")
  case True
  then show ?thesis using assms(3)
    by (intro exI [of _ e] exI [of _ d] exI [of _ "[]"]) (simp add: AdditiveDigitize_def Let_def counts_grow_same)
next
  case False
  let ?n = "ioDraws (dgIons d)"
  have "digi_inv g m spect e (set_draws (?n + 1) d)" using assms(3) by simp
  moreover have "\<forall>h \<in> set (shHits gd). accepted spect h \<longrightarrow> hit_ready R g spect h"
      "\<forall>h \<in> set (shHits gd). accepted spect h \<longrightarrow> time_known R g h (set_draws (?n + 1) d)"
    using assms(2) by (auto simp: data_ready_def time_known_def set_draws_def)
  ultimately obtain e' d' cs where h: "digitize_hits R g m spect gd (shSource gd \<noteq> 0) (rgGaus R ?n 0 (gpTriggerJitter g)) 0
        (length (shHits gd)) (set_draws (?n + 1) d) = Some d'" "digi_inv g m spect e' d'"
      "ioTime0 (dgIons d) \<noteq> None \<longrightarrow> ioTime0 (dgIons d') \<noteq> None"
      "hits_recorded m (shSource gd) (filter (accepted spect) (shHits gd)) cs e e'"
      "counts_grow R g (2 * length (shHits gd)) (set_draws (?n + 1) d) d'"
    using digitize_hits_ok [OF assms(1), of gd m e "set_draws (?n + 1) d" 0 "length (shHits gd)"] assms(4)
    by (force simp: set_draws_def)
  then have "AdditiveDigitize R g m gd spect d = Some (0, d' \<lparr> dgFilled := False \<rparr>)"
    using False by (simp add: AdditiveDigitize_def Let_def)
  moreover have "digi_inv g m spect e' (d' \<lparr> dgFilled := False \<rparr>)" using h(2) by (simp add: digi_inv_def)
  moreover have "counts_grow R g (2 * length (shHits gd)) d (d' \<lparr> dgFilled := False \<rparr>)"
    using h(5) by (simp add: counts_grow_def counts_below_def set_draws_def)
  ultimately show ?thesis using h(3,4) by (intro exI [of _ e'] exI [of _ "d' \<lparr> dgFilled := False \<rparr>"] exI [of _ cs]) simp
qed

text \<open>Clearing.\<close>

lemma planes_inv_Clear:
  assumes "planes_inv g m spect cl dp" "gpSamplingPoints g \<le> 6"
  shows "planes_inv g m spect [] (map (map dp_Clear) dp)"
proof -
  have "plane_inv g [] pid pl (dp_Clear p)" if "plane_inv g cl pid pl p" for pid pl p
  proof -
    have "dpNSamples p \<le> 6" using that assms(2) by (simp add: plane_inv_def)
    then have "dp_inv (dp_Clear p)" "well_linked (cluster_of [] pid) (dp_Clear p)"
      using that dp_Clear_inv well_linked_Clear by (auto simp: plane_inv_def dp_inv_def dp_shape_def)
    then show ?thesis using that by (simp add: plane_inv_def dp_Clear_def)
  qed
  then show ?thesis using assms(1) by (auto simp: planes_inv_def list_all2_conv_all_nth)
qed

fun add_all :: "rng \<Rightarrow> gempar \<Rightarrow> dbm \<Rightarrow> spec \<Rightarrow> simhitdata list \<Rightarrow> digi \<Rightarrow> digi option" where
  "add_all R g m spect [] d = Some d"
| "add_all R g m spect (gd # gds) d = do { (r, d) \<leftarrow> AdditiveDigitize R g m gd spect d; add_all R g m spect gds d }"

text \<open>The accepted hits of several data sets, each with its source, in the order of digitization.\<close>

definition source_hits :: "spec \<Rightarrow> simhitdata \<Rightarrow> (int \<times> gemhitdata) list" where
  "source_hits spect gd = map (Pair (shSource gd)) (filter (accepted spect) (shHits gd))"

definition overlay :: "dbm \<Rightarrow> (int \<times> gemhitdata) list \<Rightarrow> gemcluster list \<Rightarrow> bool" where
  "overlay m = list_all2 (\<lambda>(src, h). made_from m src h)"

lemma overlay_append: "overlay m hs cs \<Longrightarrow> overlay m hs' cs' \<Longrightarrow> overlay m (hs @ hs') (cs @ cs')"
  by (simp add: overlay_def list_all2_appendI)

lemma hits_recorded_overlay:
  "hits_recorded m (shSource gd) (filter (accepted spect) (shHits gd)) cs e e' \<Longrightarrow> overlay m (source_hits spect gd) cs"
  by (simp add: hits_recorded_def overlay_def source_hits_def list.rel_map)

lemma overlay_length: "overlay m hs cs \<Longrightarrow> length cs = length hs"
  by (simp add: overlay_def list_all2_lengthD)

lemma source_hits_length: "length (source_hits spect gd) \<le> length (shHits gd)"
  by (simp add: source_hits_def)

lemma add_all_ok:
  assumes "setup_ok R g spect"
  shows "digi_inv g m spect e d \<Longrightarrow> \<forall>gd \<in> set gds. data_ready R g spect gd d \<Longrightarrow>
    length (evGEMClust e) + sum_list (map (\<lambda>gd. length (shHits gd)) gds) \<le> 32767 \<Longrightarrow>
    \<exists>e' d' cs. add_all R g m spect gds d = Some d' \<and> digi_inv g m spect e' d'
      \<and> overlay m (concat (map (source_hits spect) gds)) cs \<and> evGEMClust e' = evGEMClust e @ cs
      \<and> evNSignal e' = evNSignal e + int (length (filter is_signal cs)) \<and> evMCTracks e' = evMCTracks e
      \<and> counts_grow R g (2 * sum_list (map (\<lambda>gd. length (shHits gd)) gds)) d d'"
proof (induction gds arbitrary: d e)
  case Nil
  then show ?case by (intro exI [of _ e] exI [of _ d] exI [of _ "[]"]) (simp add: overlay_def counts_grow_same)
next
  case (Cons gd gds)
  obtain e1 d1 cs1 where 1: "AdditiveDigitize R g m gd spect d = Some (0, d1)" "digi_inv g m spect e1 d1"
      "ioTime0 (dgIons d) \<noteq> None \<longrightarrow> ioTime0 (dgIons d1) \<noteq> None"
      "hits_recorded m (shSource gd) (filter (accepted spect) (shHits gd)) cs1 e e1"
      "counts_grow R g (2 * length (shHits gd)) d d1"
    using AdditiveDigitize_ok [OF assms _ Cons.prems(1), of gd] Cons.prems(2,3) by fastforce
  have ov: "overlay m (source_hits spect gd) cs1" using hits_recorded_overlay [OF 1(4)] .
  have "data_ready R g spect x d1" if "x \<in> set gds" for x
    using that Cons.prems(2) 1(3) by (auto simp: data_ready_def time_known_def)
  moreover have "length (evGEMClust e1) + sum_list (map (\<lambda>gd. length (shHits gd)) gds) \<le> 32767"
    using overlay_length [OF ov] source_hits_length [of spect gd] 1(4) Cons.prems(3) by (simp add: hits_recorded_def)
  ultimately obtain e' d' cs where 2: "add_all R g m spect gds d1 = Some d'" "digi_inv g m spect e' d'"
      "overlay m (concat (map (source_hits spect) gds)) cs" "evGEMClust e' = evGEMClust e1 @ cs"
      "evNSignal e' = evNSignal e1 + int (length (filter is_signal cs))" "evMCTracks e' = evMCTracks e1"
      "counts_grow R g (2 * sum_list (map (\<lambda>gd. length (shHits gd)) gds)) d1 d'"
    using Cons.IH [OF 1(2)] by blast
  have "counts_grow R g (2 * sum_list (map (\<lambda>gd. length (shHits gd)) (gd # gds))) d d'"
    using counts_grow_trans [OF 1(5) 2(7)] by simp
  then show ?case using 1(1,4) 2(1-6) overlay_append [OF ov 2(3)]
    by (intro exI [of _ e'] exI [of _ d'] exI [of _ "cs1 @ cs"]) (simp add: hits_recorded_def)
qed

lemma Digitize_clears:
  assumes "setup_ok R g spect" "gpSamplingPoints g \<le> 6" "digi_inv g m spect e d"
  shows "\<exists>d1. Digitize R g m gd spect d = AdditiveDigitize R g m gd spect d1
    \<and> digi_inv g m spect (event_Clear False e) d1 \<and> dgIons d1 = dgIons d \<and> counts_below 0 d1"
proof -
  let ?d = "d \<lparr> dgEvent := Some (event_Clear False e), dgSignalSector := 0,
     dgDP := map (map dp_Clear) (dgDP d), dgFilled := True \<rparr>"
  have "digi_inv g m spect (event_Clear False e) ?d"
    using assms(3) planes_inv_Clear [of g m spect "evGEMClust e" "dgDP d", OF _ assms(2)]
    by (simp add: digi_inv_def event_Clear_def numbered_def Let_def)
  moreover have "Digitize R g m gd spect d = AdditiveDigitize R g m gd spect ?d"
    using assms(3) by (simp add: Digitize_def digi_inv_def Let_def)
  moreover have "counts_below 0 ?d" using adc_below_Clear by (auto simp: counts_below_def)
  ultimately show ?thesis by (intro exI [of _ ?d]) simp
qed

lemma digitize_all_ok:
  assumes "setup_ok R g spect" "gpSamplingPoints g \<le> 6" "digi_inv g m spect e d"
    "\<forall>gd \<in> set (sig # bgs). data_ready R g spect gd d"
    "sum_list (map (\<lambda>gd. length (shHits gd)) (sig # bgs)) \<le> 32767"
  shows "\<exists>e' d'. (do { (r, d1) \<leftarrow> Digitize R g m sig spect d; add_all R g m spect bgs d1 }) = Some d'
    \<and> digi_inv g m spect e' d' \<and> overlay m (concat (map (source_hits spect) (sig # bgs))) (evGEMClust e')
    \<and> evNSignal e' = int (length (filter is_signal (evGEMClust e'))) \<and> evMCTracks e' = evMCTracks e
    \<and> (\<forall>K. hit_room R g K \<longrightarrow> counts_below (2 * int (sum_list (map (\<lambda>gd. length (shHits gd)) (sig # bgs))) * K) d')"
proof -
  obtain d1 where d1: "Digitize R g m sig spect d = AdditiveDigitize R g m sig spect d1"
      "digi_inv g m spect (event_Clear False e) d1" "dgIons d1 = dgIons d" "counts_below 0 d1"
    using Digitize_clears [OF assms(1-3)] by blast
  have "\<forall>gd \<in> set (sig # bgs). data_ready R g spect gd d1"
    using assms(4) d1(3) by (simp add: data_ready_def time_known_def)
  then obtain e' d' cs where a: "add_all R g m spect (sig # bgs) d1 = Some d'" "digi_inv g m spect e' d'"
      "overlay m (concat (map (source_hits spect) (sig # bgs))) cs"
      "evGEMClust e' = evGEMClust (event_Clear False e) @ cs"
      "evNSignal e' = evNSignal (event_Clear False e) + int (length (filter is_signal cs))"
      "evMCTracks e' = evMCTracks (event_Clear False e)"
      "counts_grow R g (2 * sum_list (map (\<lambda>gd. length (shHits gd)) (sig # bgs))) d1 d'"
    using add_all_ok [OF assms(1) d1(2), of "sig # bgs"] assms(5) by (auto simp: event_Clear_def Let_def)
  have cs: "evGEMClust e' = cs" "evNSignal e' = int (length (filter is_signal cs))" "evMCTracks e' = evMCTracks e"
    using a(4-6) by (simp_all add: event_Clear_def Let_def)
  have run: "(do { (r, d1) \<leftarrow> Digitize R g m sig spect d; add_all R g m spect bgs d1 }) = Some d'"
    using a(1) by (simp add: d1(1))
  have "counts_below (2 * int (sum_list (map (\<lambda>gd. length (shHits gd)) (sig # bgs))) * K) d'" if "hit_room R g K" for K
    using a(7) [unfolded counts_grow_def, rule_format, OF that d1(4)] by simp
  then show ?thesis using run a(2,3) cs by (intro exI [of _ e'] exI [of _ d']) blast
qed

text \<open>C3. Digitizing a signal event and adding any number of background events never fails: no
  assert, no access outside an array, no division by zero.  The event then holds one cluster for
  every accepted hit, signal first, in the order of the hits, with the data of its hit and of its
  source, numbered from 1; the number of signal clusters is counted; and on every plane each
  strip refers only to existing clusters of its own GEM plane, with one weight and one ADC value
  per sample for each of them.\<close>

theorem Digitize_overlay:
  assumes "setup_ok R g spect" "gpSamplingPoints g \<le> 6" "digi_inv g m spect e d"
    "\<forall>gd \<in> set (sig # bgs). data_ready R g spect gd d"
    "sum_list (map (\<lambda>gd. length (shHits gd)) (sig # bgs)) \<le> 32767"
  shows "\<exists>e' d'. (do { (r, d1) \<leftarrow> Digitize R g m sig spect d; add_all R g m spect bgs d1 }) = Some d'
    \<and> digi_inv g m spect e' d'
    \<and> list_all2 (\<lambda>(src, h). made_from m src h) (concat (map (source_hits spect) (sig # bgs))) (evGEMClust e')
    \<and> evNSignal e' = int (length (filter is_signal (evGEMClust e')))
    \<and> (\<forall>k < length (evGEMClust e'). gcID (evGEMClust e' ! k) = int k + 1)
    \<and> (\<forall>ic j. ic < length (dgDP d') \<longrightarrow> j < length (dgDP d' ! ic) \<longrightarrow> dp_inv (dgDP d' ! ic ! j)
         \<and> well_linked (\<lambda>c. 1 \<le> c \<and> c \<le> GetNclust e'
             \<and> gcPlane (evGEMClust e' ! nat (c - 1)) = wrap16 (GetPlaneID m (int ic))) (dgDP d' ! ic ! j))"
proof -
  obtain e' d' where run: "(do { (r, d1) \<leftarrow> Digitize R g m sig spect d; add_all R g m spect bgs d1 }) = Some d'"
      and a: "digi_inv g m spect e' d'" "overlay m (concat (map (source_hits spect) (sig # bgs))) (evGEMClust e')"
        "evNSignal e' = int (length (filter is_signal (evGEMClust e')))"
    using digitize_all_ok [OF assms] by blast
  have "plane_inv g (evGEMClust e') (wrap16 (GetPlaneID m (int ic))) (chPlanes (fChambers spect ! ic) ! j) (dgDP d' ! ic ! j)"
    if "ic < length (dgDP d')" "j < length (dgDP d' ! ic)" for ic j
    using a(1) that by (auto simp: digi_inv_def planes_inv_def list_all2_conv_all_nth)
  then have "dp_inv (dgDP d' ! ic ! j) \<and> well_linked (\<lambda>c. 1 \<le> c \<and> c \<le> GetNclust e'
       \<and> gcPlane (evGEMClust e' ! nat (c - 1)) = wrap16 (GetPlaneID m (int ic))) (dgDP d' ! ic ! j)"
    if "ic < length (dgDP d')" "j < length (dgDP d' ! ic)" for ic j
    using that unfolding plane_inv_def cluster_of_def GetNclust_def by blast
  moreover have "\<forall>k < length (evGEMClust e'). gcID (evGEMClust e' ! k) = int k + 1"
    using a(1) by (simp add: digi_inv_def numbered_def)
  ultimately show ?thesis using run a unfolding overlay_def by blast
qed

section \<open>Setting up\<close>

lemma new_dplanes_ok:
  assumes "gpSamplingPoints g \<le> 6"
  shows "\<forall>pl \<in> set pls. 0 < plNStrips pl \<and> plNStrips pl \<le> 32767 \<Longrightarrow>
    \<exists>ps. new_dplanes g pls = Some ps \<and> list_all2 (plane_inv g [] pid) pls ps"
proof (induction pls)
  case (Cons pl pls)
  then obtain ps where ps: "new_dplanes g pls = Some ps" "list_all2 (plane_inv g [] pid) pls ps" by auto
  define p0 where "p0 = \<lparr> dpNSamples = nat (gpSamplingPoints g), dpNStrips = nat (plNStrips pl mod 65536),
     dpThreshold = 0, dpStripADC = [], dpType = [], dpTotADC = [], dpCharge = [], dpTime = [], dpOver = [],
     dpStripClusters = [], dpStripWeight = [], dpClusterADC = [] \<rparr>"
  have "nat (gpSamplingPoints g) \<le> 6" using assms by linarith
  then have "TSBSDigitizedPlane (nat (plNStrips pl mod 65536)) (nat (gpSamplingPoints g)) 0 = Some (dp_Clear p0)"
    by (simp add: TSBSDigitizedPlane_def p0_def)
  moreover have "dpNSamples p0 = nat (gpSamplingPoints g)" "dpNStrips p0 = nat (plNStrips pl)" "dpThreshold p0 = 0"
    using Cons.prems by (simp_all add: p0_def)
  ultimately have p0: "TSBSDigitizedPlane (nat (plNStrips pl mod 65536)) (nat (gpSamplingPoints g)) 0 = Some (dp_Clear p0)"
      "dpNSamples p0 = nat (gpSamplingPoints g)" "dpNStrips p0 = nat (plNStrips pl)" "dpThreshold p0 = 0" by blast+
  have "dp_inv (dp_Clear p0)" "well_linked (cluster_of [] pid) (dp_Clear p0)"
    using assms p0 Cons.prems dp_Clear_inv well_linked_Clear by auto
  then have "plane_inv g [] pid pl (dp_Clear p0)"
    using p0 Cons.prems by (simp add: plane_inv_def dp_Clear_def)
  then show ?case using ps p0(1) by simp
qed simp

lemma new_dchambers_ok:
  assumes "gpSamplingPoints g \<le> 6"
  shows "\<forall>ch \<in> set chs. \<forall>pl \<in> set (chPlanes ch). 0 < plNStrips pl \<and> plNStrips pl \<le> 32767 \<Longrightarrow>
    \<exists>dp. new_dchambers g chs = Some dp \<and> length dp = length chs
      \<and> (\<forall>ic < length chs. list_all2 (plane_inv g [] (pid ic)) (chPlanes (chs ! ic)) (dp ! ic))"
proof (induction chs arbitrary: pid)
  case (Cons ch chs)
  obtain ps where ps: "new_dplanes g (chPlanes ch) = Some ps" "list_all2 (plane_inv g [] (pid 0)) (chPlanes ch) ps"
    using new_dplanes_ok [OF assms, of "chPlanes ch" "pid 0"] Cons.prems by (meson list.set_intros(1))
  obtain dp where dp: "new_dchambers g chs = Some dp" "length dp = length chs"
      "\<forall>ic < length chs. list_all2 (plane_inv g [] (pid (Suc ic))) (chPlanes (chs ! ic)) (dp ! ic)"
    using Cons.IH [of "\<lambda>i. pid (Suc i)"] Cons.prems by (meson list.set_intros(2))
  have "list_all2 (plane_inv g [] (pid ic)) (chPlanes ((ch # chs) ! ic)) ((ps # dp) ! ic)" if "ic < Suc (length chs)" for ic
    using that ps(2) dp(3) by (cases ic) auto
  then show ?case using ps(1) dp(1,2) by auto
qed simp

lemma spec_ready_strips:
  "spec_ready spect \<Longrightarrow> ch \<in> set (fChambers spect) \<Longrightarrow> pl \<in> set (chPlanes ch) \<Longrightarrow>
    0 < plNStrips pl \<and> plNStrips pl \<le> 32767"
  by (auto simp: spec_ready_def chamber_ready_def plane_ready_def)

lemma digi_inv_offset [simp]: "digi_inv (g \<lparr> gpTriggerOffset := x \<rparr>) m spect e d = digi_inv g m spect e d"
  unfolding digi_inv_def planes_inv_def plane_inv_def by simp

lemma digitizer_ok:
  assumes "spec_ready spect" "0 \<le> gpSamplingPoints g" "gpSamplingPoints g \<le> 6"
  shows "\<exists>d. TSBSSimGEMDigitization nchamber g spect
      = Some (g \<lparr> gpTriggerOffset := resize (nat nchamber) 0 (gpTriggerOffset g) \<rparr>, d)
    \<and> digi_inv g m spect simevent_new d"
proof -
  obtain dp where dp: "new_dchambers g (fChambers spect) = Some dp" "length dp = length (fChambers spect)"
      "\<forall>ic < length (fChambers spect). list_all2 (plane_inv g [] (wrap16 (GetPlaneID m (int ic))))
         (chPlanes (fChambers spect ! ic)) (dp ! ic)"
    using new_dchambers_ok [OF assms(3), of "fChambers spect" "\<lambda>ic. wrap16 (GetPlaneID m (int ic))"]
      spec_ready_strips [OF assms(1)] by auto
  show ?thesis using dp assms(2)
    by (simp add: TSBSSimGEMDigitization_def Initialize_def DeleteObjects_def digi_inv_def planes_inv_def
        numbered_def simevent_new_def resize_def Let_def)
qed

text \<open>C34. Setting up the digitizer.  With at most six samples the constructor gives a digitizer
  that satisfies the invariant, with an empty event.  With more, and ReadDatabase accepts and even
  defaults to ten, the constructor of the first plane writes beyond its array of six vectors.
  Initialize, called again later, leaves the digitizer without an event, and Digitize, which
  follows it, dereferences the null pointer.\<close>

theorem digitizer_new:
  assumes "spec_ready spect" "fChambers spect \<noteq> []"
  shows "(if gpSamplingPoints g \<le> 6 then 0 \<le> gpSamplingPoints g \<longrightarrow>
            (\<exists>g' d. TSBSSimGEMDigitization nchamber g spect = Some (g', d) \<and> digi_inv g m spect simevent_new d)
          else TSBSSimGEMDigitization nchamber g spect = None)
    \<and> (\<forall>d d'. Initialize g spect d = Some d' \<longrightarrow> dgEvent d' = None \<and> Digitize R g m gd spect d' = None)"
proof (intro conjI allI impI)
  fix d d' assume "Initialize g spect d = Some d'"
  then show e: "dgEvent d' = None" by (auto simp: Initialize_def DeleteObjects_def bind_eq_Some_conv Let_def)
  show "Digitize R g m gd spect d' = None" by (simp add: Digitize_def e)
next
  obtain ch chs where ch: "fChambers spect = ch # chs" using assms(2) by (cases "fChambers spect") auto
  have "length (chPlanes ch) = 2" using assms(1) ch by (simp add: spec_ready_def chamber_ready_def)
  then obtain pl pls where pl: "chPlanes ch = pl # pls" by (cases "chPlanes ch") auto
  show "if gpSamplingPoints g \<le> 6 then 0 \<le> gpSamplingPoints g \<longrightarrow>
            (\<exists>g' d. TSBSSimGEMDigitization nchamber g spect = Some (g', d) \<and> digi_inv g m spect simevent_new d)
          else TSBSSimGEMDigitization nchamber g spect = None"
  proof (cases "gpSamplingPoints g \<le> 6")
    case True
    then show ?thesis using digitizer_ok [OF assms(1) _ True, of nchamber m] by (simp add: True) blast
  next
    case False
    then have "6 < nat (gpSamplingPoints g)" by linarith
    with False show ?thesis
      by (simp add: TSBSSimGEMDigitization_def Initialize_def ch pl TSBSDigitizedPlane_def)
  qed
qed

section \<open>An example\<close>

lemma chamber_fits_cong:
  assumes "ioRSMax s = ioRSMax t" "take (ioNIon s) (ioRIon s) = [ip]" "take (ioNIon t) (ioRIon t) = [ip']"
    "ipX ip = ipX ip'" "ipY ip = ipY ip'" "ipSNorm ip = ipSNorm ip'" "ipR2 ip = ipR2 ip'"
    "chamber_fits g t ch xi xo"
  shows "chamber_fits g s ch xi xo"
proof -
  have i: "ion_fits g pl gr ip = ion_fits g pl gr ip'" for pl gr by (simp add: ion_fits_def assms(4-7))
  have "plane_fits g s pl region = plane_fits g t pl region" for pl region
    unfolding plane_fits_def assms(2,3) list.set(1,2) by (simp only: i ball_simps)
  then show ?thesis using assms(8) unfolding chamber_fits_def assms(1) by blast
qed

definition hitEx :: gemhitdata where
  "hitEx = hit0 \<lparr> hdXo := Vec 10 10 3, hdEdep := 52, hdType := 1 \<rparr>"

definition dataEx :: simhitdata where
  "dataEx = simhitdata_new \<lparr> shHits := [hitEx] \<rparr>"

lemma ionEx:
  assumes "length (ioRIon s) = 100" "IonModel rngEx gparEx 0 (Vec 10 10 3) 52 s = Some t"
  shows "ioRSMax t = Some 1 \<and> (\<exists>ip. take (ioNIon t) (ioRIon t) = [ip] \<and> ipX ip = 5 \<and> ipY ip = 5
    \<and> ipSNorm ip = 10 \<and> ipR2 ip = 100)"
proof -
  obtain r rs where r: "ioRIon s = r # rs" using assms(1) by (cases "ioRIon s") auto
  have R: "rgUniform rngEx n 0 1 = 1 / 2" "rgGaus rngEx n 0 x = 0" "rgPoisson rngEx n x = 1" "rgExp rngEx n x = x" for n x
    by (simp_all add: rngEx_def)
  have G: "gpGasWion gparEx = 26" "gpGasDiffusion gparEx = 1 / 15" "gpGasDriftVelocity gparEx = 1"
      "gpChargeStatistics gparEx = 0" "gpGainMean gparEx = 8000" "gpMaxNIon gparEx = 100" "gpSNormNsigma gparEx = 10"
      "gpEntranceRef gparEx = 0" "gpRoutZ gparEx = 9" by (simp_all add: gparEx_def)
  show ?thesis using assms(2) unfolding IonModel_def
    by (simp add: R G c_div_def Let_def ion_step_def ion_charge_def c_sqrt_def wr_def r) auto
qed

lemma readyEx:
  "\<exists>pl. setup_ok rngEx gparEx (specEx pl) \<and> hit_ready rngEx gparEx (specEx pl) hitEx
    \<and> accepted (specEx pl) hitEx \<and> ionizes rngEx gparEx hitEx \<and> plNStrips pl = 11"
proof -
  obtain pl where pl: "plane_ready pl" "plSPitch pl = 1/10" "plNStrips pl = 11" "plSBeg pl = - 11 / 20"
     "bxDX (plBox pl) = 1" "bxDY (plBox pl) = 1/2" "plCBS pl = 1" "plSBS pl = 0" using plane_readyEx by blast
  have "spec_ready (specEx pl)" using pl(1,3) by (simp add: spec_ready_def specEx_def chamber_ready_def)
  moreover have "xtalk_ok rngEx gparEx" by (simp add: xtalk_ok_def rngEx_def gparEx_def)
  ultimately have "setup_ok rngEx gparEx (specEx pl)"
    using gparEx_ok rngEx_ok(1,2) by (simp add: setup_ok_def) (simp add: gparEx_def)
  moreover have "hit_ready rngEx gparEx (specEx pl) hitEx"
  proof -
    have "chamber_fits gparEx t (fChambers (specEx pl) ! 0) 0 (Vec 10 10 3)"
      if l: "length (ioRIon s) = 100" and r: "IonModel rngEx gparEx 0 (Vec 10 10 3) 52 s = Some t" for s t
    proof -
      obtain ip where ip: "ioRSMax t = Some 1" "take (ioNIon t) (ioRIon t) = [ip]" "ipX ip = 5" "ipY ip = 5"
          "ipSNorm ip = 10" "ipR2 ip = 100" using ionEx [OF l r] by blast
      show ?thesis using ip 
        by (intro chamber_fits_cong [OF _ ip(2), of ionsEx "ioRIon ionsEx ! 0"] chamber_fitsEx [OF pl(2-)])
          (simp_all add: ionsEx_def)
    qed
    then show ?thesis by (simp add: hit_ready_def hitEx_def hit0_def track_ok_def gparEx_def)
  qed
  moreover have "accepted (specEx pl) hitEx" by (simp add: accepted_def specEx_def hitEx_def hit0_def)
  moreover have "ionizes rngEx gparEx hitEx" by (simp add: ionizes_def rngEx_def)
  ultimately show ?thesis using pl(3) by blast
qed

theorem digitizer_new_witness:
  "\<exists>pl g' d. TSBSSimGEMDigitization 1 gparEx (specEx pl) = Some (g', d)
    \<and> TSBSSimGEMDigitization 1 (gparEx \<lparr> gpSamplingPoints := 10 \<rparr>) (specEx pl) = None"
proof -
  obtain pl where "setup_ok rngEx gparEx (specEx pl)" using readyEx by blast
  then have s: "spec_ready (specEx pl)" "fChambers (specEx pl) \<noteq> []" by (simp_all add: setup_ok_def specEx_def)
  have sp: "gpSamplingPoints gparEx = 6" by (simp add: gparEx_def)
  have "\<exists>g' d. TSBSSimGEMDigitization 1 gparEx (specEx pl) = Some (g', d)"
    using digitizer_new [OF s, where g = gparEx and nchamber = 1] by (simp add: sp) blast
  moreover have "TSBSSimGEMDigitization 1 (gparEx \<lparr> gpSamplingPoints := 10 \<rparr>) (specEx pl) = None"
    using digitizer_new [OF s, where g = "gparEx \<lparr> gpSamplingPoints := 10 \<rparr>" and nchamber = 1] by auto
  ultimately show ?thesis by blast
qed

lemma readyEx2:
  "\<exists>pl d. setup_ok rngEx gparEx (specEx pl) \<and> gpSamplingPoints gparEx = 6 \<and> accepted (specEx pl) hitEx
    \<and> digi_inv gparEx m (specEx pl) simevent_new d
    \<and> (\<forall>gd. set (shHits gd) \<subseteq> {hitEx} \<longrightarrow> data_ready rngEx gparEx (specEx pl) gd d)"
proof -
  obtain pl where pl: "setup_ok rngEx gparEx (specEx pl)" "hit_ready rngEx gparEx (specEx pl) hitEx"
    "accepted (specEx pl) hitEx" "ionizes rngEx gparEx hitEx" using readyEx by blast
  have sp: "gpSamplingPoints gparEx = 6" by (simp add: gparEx_def)
  obtain d where "digi_inv gparEx m (specEx pl) simevent_new d"
    using digitizer_ok [of "specEx pl" gparEx 1 m] pl(1) sp by (auto simp: setup_ok_def)
  then show ?thesis using pl sp by (auto simp: data_ready_def time_known_def)
qed

theorem Digitize_overlay_witness:
  "\<exists>m pl d e' d'. (do { (r, d1) \<leftarrow> Digitize rngEx gparEx m dataEx (specEx pl) d;
       add_all rngEx gparEx m (specEx pl) [dataEx \<lparr> shSource := 1 \<rparr>] d1 }) = Some d'
    \<and> digi_inv gparEx m (specEx pl) e' d' \<and> map gcSource (evGEMClust e') = [0, 1] \<and> evNSignal e' = 1"
proof -
  fix m :: dbm
  obtain pl d where p: "setup_ok rngEx gparEx (specEx pl)" "gpSamplingPoints gparEx = 6" "accepted (specEx pl) hitEx"
      "digi_inv gparEx m (specEx pl) simevent_new d"
      "\<forall>gd. set (shHits gd) \<subseteq> {hitEx} \<longrightarrow> data_ready rngEx gparEx (specEx pl) gd d"
    using readyEx2 by blast
  let ?bg = "dataEx \<lparr> shSource := 1 \<rparr>"
  have r: "\<forall>gd \<in> set [dataEx, ?bg]. data_ready rngEx gparEx (specEx pl) gd d" using p(5) by (simp add: dataEx_def)
  have n: "sum_list (map (\<lambda>gd. length (shHits gd)) [dataEx, ?bg]) \<le> 32767" by (simp add: dataEx_def)
  have sp: "gpSamplingPoints gparEx \<le> 6" using p(2) by simp
  obtain e' d' where e: "(do { (r, d1) \<leftarrow> Digitize rngEx gparEx m dataEx (specEx pl) d;
       add_all rngEx gparEx m (specEx pl) [?bg] d1 }) = Some d'" "digi_inv gparEx m (specEx pl) e' d'"
      "list_all2 (\<lambda>(src, h). made_from m src h) (concat (map (source_hits (specEx pl)) [dataEx, ?bg])) (evGEMClust e')"
      "evNSignal e' = int (length (filter is_signal (evGEMClust e')))"
    using Digitize_overlay [OF p(1) sp p(4) r n] by blast
  have "concat (map (source_hits (specEx pl)) [dataEx, ?bg]) = [(0, hitEx), (1, hitEx)]"
    using p(3) by (simp add: source_hits_def dataEx_def simhitdata_new_def)
  then obtain c0 c1 where c: "evGEMClust e' = [c0, c1]" "made_from m 0 hitEx c0" "made_from m 1 hitEx c1"
    using e(3) by (auto simp: list_all2_Cons1)
  then have "map gcSource (evGEMClust e') = [0, 1]" "evNSignal e' = 1"
    using e(4) by (simp_all add: made_from_def is_signal_def hitEx_def)
  then show ?thesis using e(1,2) by (intro exI conjI)
qed

section \<open>The strips of the event\<close>

text \<open>What is relied on: the noise and the counts are far below the range of Int\_t, and the
  strips of a plane can be numbered by a Short\_t.\<close>

definition noise_ok :: "rng \<Rightarrow> gempar \<Rightarrow> bool" where
  "noise_ok R g \<longleftrightarrow> (\<forall>n. \<bar>rgGaus R n 0 (gpPulseNoiseSigma g)\<bar> \<le> 1000000000)"

definition plane_storable :: "dplane \<Rightarrow> bool" where
  "plane_storable p \<longleftrightarrow> dp_shape p \<and> dpNStrips p \<le> 32767 \<and> (\<forall>a \<in> set (dpStripADC p). \<bar>a\<bar> \<le> 1000000000)"

text \<open>All strips, with chamber, readout and plane, in the order of the event.\<close>

definition plane_strips :: "nat \<Rightarrow> nat \<times> dplane \<Rightarrow> (nat \<times> nat \<times> dplane \<times> nat) list" where
  "plane_strips ich ipp = map (\<lambda>i. (ich, fst ipp, snd ipp, i)) [0..<dpNStrips (snd ipp)]"

definition all_strips :: "nat \<Rightarrow> dplane list list \<Rightarrow> (nat \<times> nat \<times> dplane \<times> nat) list" where
  "all_strips n dp = concat (map (\<lambda>(ich, ps). concat (map (plane_strips ich) (enumerate 0 ps))) (enumerate n dp))"

definition strip_record :: "dbm \<Rightarrow> nat \<times> nat \<times> dplane \<times> nat \<Rightarrow> gemstrip \<Rightarrow> bool" where
  "strip_record m x s \<longleftrightarrow> (case x of (ich, ip, p, i) \<Rightarrow> gsSector s = 0
     \<and> gsPlane s = wrap16 (GetPlaneID m (int ich)) \<and> gsModule s = wrap16 (GetModuleID m (int ich))
     \<and> gsProj s = wrap16 (int ip) \<and> gsChan s = int i \<and> gsSigType s = dpType p ! i \<and> gsCharge s = dpCharge p ! i
     \<and> gsTime1 s = dpTime p ! i \<and> gsClusters s = dpStripClusters p ! i \<and> gsStripWeight s = dpStripWeight p ! i
     \<and> gsNsamp s = dpNSamples p \<and> length (gsADC s) = dpNSamples p \<and> (\<forall>a \<in> set (gsADC s). a \<le> 4000)
     \<and> gsClusterRatio s = map (\<lambda>k. dpClusterADC p ! k ! i) [0..<dpNSamples p])"

lemma to_int32_small: "\<bar>x\<bar> \<le> 2000000000 \<Longrightarrow> \<exists>k. to_int32 x = Some k"
  by (auto simp: to_int32_def trunc_int_def Let_def)

lemma strip_samples_ok:
  assumes "noise_ok R g" "plane_storable p" "i < dpNStrips p"
  shows "ss + n \<le> dpNSamples p \<Longrightarrow> \<exists>adcs. strip_samples R g p i draw ss n
      = Some (adcs, map (\<lambda>k. dpClusterADC p ! k ! i) [ss..<ss + n]) \<and> length adcs = n \<and> (\<forall>a \<in> set adcs. a \<le> 4000)"
proof (induction n arbitrary: ss draw)
  case (Suc n)
  have sh: "dp_shape p" using assms(2) by (simp add: plane_storable_def)
  have ss: "ss < dpNSamples p" using Suc.prems by simp
  have idx: "i * dpNSamples p + ss < length (dpStripADC p)"
    using sample_index [OF assms(3) ss] sh by (simp add: dp_shape_def)
  define adc where "adc = dpStripADC p ! (i * dpNSamples p + ss)"
  have ga: "dp_GetADC p i ss = Some adc" using idx by (simp add: dp_GetADC_def rd_def adc_def)
  have "\<bar>adc\<bar> \<le> 1000000000" using assms(2) idx by (simp add: plane_storable_def adc_def)
  then have "\<bar>of_int adc + rgGaus R draw 0 (gpPulseNoiseSigma g)\<bar> \<le> 2000000000"
    using assms(1) [unfolded noise_ok_def, rule_format, of draw] by linarith
  then obtain a where a: "to_int32 (of_int adc + rgGaus R draw 0 (gpPulseNoiseSigma g)) = Some a"
    using to_int32_small by blast
  have cl: "ss < length (dpClusterADC p)" "i < length (dpClusterADC p ! ss)"
    using sh ss assms(3) by (auto simp: dp_shape_def)
  obtain adcs where r: "strip_samples R g p i (draw + 1) (ss + 1) n
      = Some (adcs, map (\<lambda>k. dpClusterADC p ! k ! i) [ss + 1..<ss + 1 + n])" "length adcs = n" "\<forall>a \<in> set adcs. a \<le> 4000"
    using Suc.IH [of "ss + 1" "draw + 1"] Suc.prems by auto
  have "[ss..<ss + Suc n] = ss # [ss + 1..<ss + 1 + n]" by (simp add: upt_rec)
  then show ?case using ga a cl r by (simp add: rd_def Let_def)
qed simp

lemma tree_strip_ok:
  assumes "noise_ok R g" "plane_storable p" "i < dpNStrips p"
  shows "\<exists>s draw'. tree_strip R g (wrap16 (GetPlaneID m (int ich))) (wrap16 (GetModuleID m (int ich))) (wrap16 (int ip)) p i draw
      = Some (s, draw') \<and> strip_record m (ich, ip, p, i) s"
proof -
  have sh: "dp_shape p" and i: "i < 32768" using assms(2,3) by (auto simp: plane_storable_def)
  have w: "wrap16 (int i) = int i" using i by simp
  have n: "min MC_MAXSAMP (dpNSamples p) = dpNSamples p" using sh by (simp add: dp_shape_def MC_MAXSAMP_def)
  obtain adcs where r: "strip_samples R g p i draw 0 (dpNSamples p)
      = Some (adcs, map (\<lambda>k. dpClusterADC p ! k ! i) [0..<dpNSamples p])" "length adcs = dpNSamples p" "\<forall>a \<in> set adcs. a \<le> 4000"
    using strip_samples_ok [OF assms, of 0 "dpNSamples p" draw] by auto
  show ?thesis using sh assms(3) r
    by (simp add: tree_strip_def Let_def w n dp_GetType_def dp_GetCharge_def dp_GetTime_def rd_def dp_shape_def strip_record_def)
qed

lemma tree_strips_ok:
  assumes "noise_ok R g" "plane_storable p"
  shows "i + n \<le> dpNStrips p \<Longrightarrow> \<exists>ss draw'. tree_strips R g (wrap16 (GetPlaneID m (int ich)))
      (wrap16 (GetModuleID m (int ich))) (wrap16 (int ip)) p i n draw = Some (ss, draw')
    \<and> list_all2 (strip_record m) (map (\<lambda>i. (ich, ip, p, i)) [i..<i + n]) ss"
proof (induction n arbitrary: i draw)
  case (Suc n)
  obtain s draw1 where s: "tree_strip R g (wrap16 (GetPlaneID m (int ich))) (wrap16 (GetModuleID m (int ich)))
      (wrap16 (int ip)) p i draw = Some (s, draw1)" "strip_record m (ich, ip, p, i) s"
    using tree_strip_ok [OF assms, of i m ich ip draw] Suc.prems by auto
  obtain ss draw2 where t: "tree_strips R g (wrap16 (GetPlaneID m (int ich))) (wrap16 (GetModuleID m (int ich)))
      (wrap16 (int ip)) p (i + 1) n draw1 = Some (ss, draw2)"
      "list_all2 (strip_record m) (map (\<lambda>i. (ich, ip, p, i)) [i + 1..<i + 1 + n]) ss"
    using Suc.IH [of "i + 1" draw1] Suc.prems by auto
  have "[i..<i + Suc n] = i # [i + 1..<i + 1 + n]" by (simp add: upt_rec)
  then show ?case using s t by simp
qed simp

lemma tree_planes_ok:
  assumes "noise_ok R g"
  shows "\<forall>p \<in> set ps. plane_storable p \<Longrightarrow> \<exists>ss draw'. tree_planes R g (wrap16 (GetPlaneID m (int ich)))
      (wrap16 (GetModuleID m (int ich))) (int ip) ps draw = Some (ss, draw')
    \<and> list_all2 (strip_record m) (concat (map (plane_strips ich) (enumerate ip ps))) ss"
proof (induction ps arbitrary: ip draw)
  case (Cons p ps)
  obtain ss draw1 where s: "tree_strips R g (wrap16 (GetPlaneID m (int ich)))
      (wrap16 (GetModuleID m (int ich))) (wrap16 (int ip)) p 0 (dpNStrips p) draw = Some (ss, draw1)"
      "list_all2 (strip_record m) (plane_strips ich (ip, p)) ss"
    using tree_strips_ok [OF assms, of p 0 "dpNStrips p" m ich ip draw] Cons.prems by (auto simp: plane_strips_def)
  obtain ss' draw2 where t: "tree_planes R g (wrap16 (GetPlaneID m (int ich)))
      (wrap16 (GetModuleID m (int ich))) (int (Suc ip)) ps draw1 = Some (ss', draw2)"
      "list_all2 (strip_record m) (concat (map (plane_strips ich) (enumerate (Suc ip) ps))) ss'"
    using Cons.IH [of "Suc ip" draw1] Cons.prems by auto
  have i1: "int ip + 1 = int (Suc ip)" by simp
  then show ?case using s t by (simp add: i1 list_all2_appendI del: of_nat_Suc)
qed simp

lemma tree_chambers_ok:
  assumes "noise_ok R g"
  shows "\<forall>ps \<in> set dp. \<forall>p \<in> set ps. plane_storable p \<Longrightarrow> \<exists>ss draw'. tree_chambers R g m (int ich) dp draw = Some (ss, draw')
    \<and> list_all2 (strip_record m) (all_strips ich dp) ss"
proof (induction dp arbitrary: ich draw)
  case Nil
  then show ?case by (simp add: all_strips_def)
next
  case (Cons ps dp)
  obtain ss draw1 where s: "tree_planes R g (wrap16 (GetPlaneID m (int ich))) (wrap16 (GetModuleID m (int ich))) 0 ps draw
      = Some (ss, draw1)" "list_all2 (strip_record m) (concat (map (plane_strips ich) (enumerate 0 ps))) ss"
    using tree_planes_ok [OF assms, of ps m ich 0 draw] Cons.prems by auto
  obtain ss' draw2 where t: "tree_chambers R g m (int (Suc ich)) dp draw1 = Some (ss', draw2)"
      "list_all2 (strip_record m) (all_strips (Suc ich) dp) ss'"
    using Cons.IH [of "Suc ich" draw1] Cons.prems by auto
  have i1: "int ich + 1 = int (Suc ich)" by simp
  then show ?case using s t by (simp add: i1 all_strips_def list_all2_appendI del: of_nat_Suc)
qed

lemma SetTreeStrips_ok:
  assumes "noise_ok R g" "\<forall>ps \<in> set (dgDP d). \<forall>p \<in> set ps. plane_storable p" "dgEvent d = Some e"
  shows "\<exists>ss draw. SetTreeStrips R g m d
      = Some (set_draws draw (d \<lparr> dgEvent := Some (e \<lparr> evGEMStrips := ss \<rparr>), dgFilled := True \<rparr>))
    \<and> list_all2 (strip_record m) (all_strips 0 (dgDP d)) ss"
proof -
  obtain ss draw where "tree_chambers R g m (int 0) (dgDP d) (ioDraws (dgIons d)) = Some (ss, draw)"
      "list_all2 (strip_record m) (all_strips 0 (dgDP d)) ss"
    using tree_chambers_ok [OF assms(1,2), of m 0 "ioDraws (dgIons d)"] by blast
  then show ?thesis using assms(3) by (intro exI [of _ ss] exI [of _ draw]) (simp add: SetTreeStrips_def)
qed

text \<open>C18. FillTree after a digitization writes one event with one strip record per channel, in
  the order of chambers, readout planes and strips, whether the strip was hit or not: its place,
  its type, charge and time, its clusters with their weights and ADC values, and its samples with
  noise, cut at 4000.  Called again before the next digitization it writes the same event, without
  new noise.\<close>

theorem FillTree_strips:
  assumes "noise_ok R g" "\<forall>ps \<in> set (dgDP d). \<forall>p \<in> set ps. plane_storable p"
    "dgEvent d = Some e" "dgTree d = Some t" "\<not> dgFilled d"
  shows "\<exists>ss e' d' d''. FillTree R g m d = Some d' \<and> FillTree R g m d' = Some d''
    \<and> e' = e \<lparr> evGEMStrips := ss \<rparr> \<and> list_all2 (strip_record m) (all_strips 0 (dgDP d)) ss
    \<and> dgTree d' = Some (t @ [e']) \<and> dgTree d'' = Some (t @ [e', e'])"
proof -
  obtain ss draw where s: "SetTreeStrips R g m d
      = Some (set_draws draw (d \<lparr> dgEvent := Some (e \<lparr> evGEMStrips := ss \<rparr>), dgFilled := True \<rparr>))"
      "list_all2 (strip_record m) (all_strips 0 (dgDP d)) ss"
    using SetTreeStrips_ok [OF assms(1-3)] by blast
  let ?d = "set_draws draw (d \<lparr> dgEvent := Some (e \<lparr> evGEMStrips := ss \<rparr>), dgFilled := True \<rparr>)"
  let ?e = "e \<lparr> evGEMStrips := ss \<rparr>"
  have f: "dgTree ?d = Some t" "dgEvent ?d = Some ?e" "dgFilled ?d" using assms(4) by (simp_all add: set_draws_def)
  let ?d' = "?d \<lparr> dgTree := Some (t @ [?e]) \<rparr>"
  have 1: "FillTree R g m d = Some ?d'" using s(1) assms(5) f by (simp add: FillTree_def)
  have "FillTree R g m ?d' = Some (?d' \<lparr> dgTree := Some (t @ [?e, ?e]) \<rparr>)" using f by (simp add: FillTree_def)
  then show ?thesis using 1 s(2)
    by (intro exI [of _ ss] exI [of _ ?e] exI [of _ ?d'] exI [of _ "?d' \<lparr> dgTree := Some (t @ [?e, ?e]) \<rparr>"]) simp
qed

definition digiEx :: digi where
  "digiEx = \<lparr> dgIons = \<lparr> ioDraws = 0, ioNIon = 0, ioRIon = [], ioRSMax = None, ioTotalCharge = None, ioTime0 = None \<rparr>,
     dgDP = [[plane2, plane2]], dgDADC = [0], dgEvent = Some simevent_new, dgFilled = False, dgSignalSector = 0,
     dgMapSector = False, dgTree = Some [] \<rparr>"

theorem FillTree_strips_witness:
  "\<exists>m ss d'. FillTree rngEx gparEx m digiEx = Some d' \<and> length ss = 4
    \<and> dgTree d' = Some [simevent_new \<lparr> evGEMStrips := ss \<rparr>]"
proof -
  fix m :: dbm
  have n: "noise_ok rngEx gparEx" by (simp add: noise_ok_def rngEx_def)
  have "plane_storable plane2"
    using plane2_inv by (simp add: plane_storable_def dp_inv_def) (simp add: plane2_def dp_Clear_def)
  then have p: "\<forall>ps \<in> set (dgDP digiEx). \<forall>p \<in> set ps. plane_storable p" by (simp add: digiEx_def)
  have "dgEvent digiEx = Some simevent_new" "dgTree digiEx = Some []" "\<not> dgFilled digiEx" by (simp_all add: digiEx_def)
  from FillTree_strips [OF n p this, of m] obtain ss d' where f: "FillTree rngEx gparEx m digiEx = Some d'"
      "list_all2 (strip_record m) (all_strips 0 (dgDP digiEx)) ss"
      "dgTree d' = Some [simevent_new \<lparr> evGEMStrips := ss \<rparr>]" by auto
  have "length (all_strips 0 (dgDP digiEx)) = 4"
    by (simp add: digiEx_def all_strips_def plane_strips_def plane2_inv)
  then have "length ss = 4" using list_all2_lengthD [OF f(2)] by simp
  then show ?thesis using f by (intro exI conjI)
qed

section \<open>The event data\<close>

lemma add_gens_ok: "add_gens gds e = Some e' \<Longrightarrow> evGEMClust e' = evGEMClust e \<and> evGEMStrips e' = evGEMStrips e
    \<and> evRunID e' = evRunID e \<and> evEvtID e' = evEvtID e \<and> evECalClusters e' = evECalClusters e
    \<and> evScintClusters e' = evScintClusters e
    \<and> length (evMCTracks e') = length (evMCTracks e) + length gds"
  by (induction gds arbitrary: e) (auto simp: AddTrack_def bind_eq_Some_conv Let_def)

lemma time_clusters_ok:
  "time_clusters R g src cs n = Some (ds, n') \<Longrightarrow> list_all2 (\<lambda>c d. \<exists>x t. c = Some x \<and> d = x \<lparr> ecTime := t \<rparr>) cs ds"
proof (induction cs arbitrary: n ds)
  case (Cons c cs)
  obtain t k where "cluster_time R g src n = (t, k)" by force
  then show ?case using Cons by (fastforce simp: bind_eq_Some_conv)
qed simp

text \<open>C35. SetTreeEvent sets the event numbers, one track per generated particle and the
  calorimeter and scintillator clusters of the input, but it clears the GEM clusters of the event,
  while the digitized strips that refer to them stay: called after Digitize (which the header
  allows) it leaves strips without clusters.  It also deletes the calorimeter clusters of the
  input, so that a second call for the same input event dereferences deleted objects.\<close>

theorem SetTreeEvent_effect:
  assumes "SetTreeEvent R g tsgd f evnum d = Some (f', d')"
  shows "\<exists>e'. dgEvent d' = Some e' \<and> evGEMClust e' = [] \<and> evGEMStrips e' = [] \<and> dgDP d' = dgDP d
    \<and> dgFilled d' = dgFilled d
    \<and> evRunID e' = int (shRunID tsgd) \<and> evEvtID e' = (if evnum < 0 then int (shEvtID tsgd) else evnum)
    \<and> length (evMCTracks e') = length (giGen f) \<and> length (evScintClusters e') = length (giScint f)
    \<and> list_all2 (\<lambda>c d. \<exists>x t. c = Some x \<and> d = x \<lparr> ecTime := t \<rparr>) (giECal f) (evECalClusters e')
    \<and> (giECal f \<noteq> [] \<or> giScint f \<noteq> [] \<longrightarrow> SetTreeEvent R g tsgd f' evnum d' = None)"
proof -
  obtain e where e: "dgEvent d = Some e" using assms by (auto simp: SetTreeEvent_def bind_eq_Some_conv Let_def)
  define e0 where "e0 = (event_Clear True e) \<lparr> evRunID := int (shRunID tsgd),
      evEvtID := (if evnum < 0 then int (shEvtID tsgd) else evnum) \<rparr>"
  have c0: "evGEMClust e0 = []" "evGEMStrips e0 = []" "evMCTracks e0 = []" "evECalClusters e0 = []"
      "evScintClusters e0 = []" "evRunID e0 = int (shRunID tsgd)"
      "evEvtID e0 = (if evnum < 0 then int (shEvtID tsgd) else evnum)"
    by (simp_all add: e0_def event_Clear_def Let_def)
  have st: "SetTreeEvent R g tsgd f evnum d = do {
      e1 \<leftarrow> add_gens (giGen f) e0;
      (cs, n) \<leftarrow> time_clusters R g (shSource tsgd) (giECal f) (ioDraws (dgIons d));
      (ss, n) \<leftarrow> time_clusters R g (shSource tsgd) (giScint f) n;
      let e = e1 \<lparr> evECalClusters := evECalClusters e1 @ cs, evScintClusters := evScintClusters e1 @ ss \<rparr>;
      e \<leftarrow> (case giGen f of [] \<Rightarrow> Some e
          | gd # _ \<Rightarrow> do { w \<leftarrow> GetWeight gd; Some (e \<lparr> evWeight := w \<rparr>) });
      let e = e \<lparr> evSectorsMapped := dgMapSector d, evSignalSector := dgSignalSector d \<rparr>;
      Some (f \<lparr> giECal := map (\<lambda>_. None) (giECal f), giScint := map (\<lambda>_. None) (giScint f) \<rparr>,
           set_draws n (d \<lparr> dgEvent := Some e \<rparr>)) }"
    unfolding SetTreeEvent_def e bind.bind_lunit Let_def e0_def ..
  obtain e1 where e1: "add_gens (giGen f) e0 = Some e1" using assms unfolding st by (auto simp: bind_eq_Some_conv)
  obtain cs n1 where cs: "time_clusters R g (shSource tsgd) (giECal f) (ioDraws (dgIons d)) = Some (cs, n1)"
    using assms unfolding st by (auto simp: bind_eq_Some_conv)
  obtain ss n2 where ss: "time_clusters R g (shSource tsgd) (giScint f) n1 = Some (ss, n2)"
    using assms cs unfolding st by (auto simp: bind_eq_Some_conv)
  obtain e2 where e2: "dgEvent d' = Some e2" "evGEMClust e2 = evGEMClust e1" "evGEMStrips e2 = evGEMStrips e1"
      "evRunID e2 = evRunID e1" "evEvtID e2 = evEvtID e1" "evMCTracks e2 = evMCTracks e1"
      "evECalClusters e2 = evECalClusters e1 @ cs" "evScintClusters e2 = evScintClusters e1 @ ss"
      "dgDP d' = dgDP d" "dgFilled d' = dgFilled d"
      "f' = f \<lparr> giECal := map (\<lambda>_. None) (giECal f), giScint := map (\<lambda>_. None) (giScint f) \<rparr>"
    using assms unfolding st by (auto simp: e1 cs ss Let_def set_draws_def bind_eq_Some_conv split: list.splits)
  have "SetTreeEvent R g tsgd f' evnum d' = None" if "giECal f \<noteq> [] \<or> giScint f \<noteq> []"
  proof -
    have t: "time_clusters R g s (map (\<lambda>_. None) xs) n = None" if "xs \<noteq> []" for s n and xs :: "'b ecal_cluster_scheme option list"
      using that by (cases xs) auto
    show ?thesis
    proof (cases "giECal f = []")
      case True
      then have "giScint f \<noteq> []" using that by blast
      then show ?thesis using e2(1,11) True t by (auto simp: SetTreeEvent_def Let_def bind_eq_None_conv)
    next
      case False
      then show ?thesis using e2(1,11) t by (auto simp: SetTreeEvent_def Let_def bind_eq_None_conv)
    qed
  qed
  then show ?thesis
    using e2 c0 add_gens_ok [OF e1] time_clusters_ok [OF cs] list_all2_lengthD [OF time_clusters_ok [OF ss]]
    by (intro exI [of _ e2]) simp
qed

theorem SetTreeEvent_effect_witness:
  "\<exists>f' d' e'. SetTreeEvent rngEx gparEx dataEx \<lparr> giGen = [], giECal = [Some (TSBSECalCluster 1 None None 0 0 0 0)],
       giScint = [] \<rparr> 7 (digiEx \<lparr> dgEvent := Some (simevent_new \<lparr> evNSignal := 1 \<rparr>) \<rparr>) = Some (f', d')
    \<and> dgEvent d' = Some e' \<and> evEvtID e' = 7
    \<and> SetTreeEvent rngEx gparEx dataEx f' 7 d' = None"
proof -
  let ?f = "\<lparr> giGen = [], giECal = [Some (TSBSECalCluster 1 None None 0 0 0 0)], giScint = [] \<rparr>"
  let ?d = "digiEx \<lparr> dgEvent := Some (simevent_new \<lparr> evNSignal := 1 \<rparr>) \<rparr>"
  have "\<exists>f' d'. SetTreeEvent rngEx gparEx dataEx ?f 7 ?d = Some (f', d')"
    by (simp add: SetTreeEvent_def Let_def cluster_time_def dataEx_def simhitdata_new_def)
  then obtain f' d' where s: "SetTreeEvent rngEx gparEx dataEx ?f 7 ?d = Some (f', d')" by blast
  from SetTreeEvent_effect [OF s] show ?thesis using s by auto
qed

end
