(* ===== verification/RocMap.thy ===== *)
theory RocMap
  imports DBManager SimEvent "HOL-Library.Signed_Division"
begin

text \<open>
  The hardware addresses of TSBSSimDecoder, src/src/TSBSSimDecoder.cxx: StripToROC, StripToROCD,
  MakeROCKey, StripFromROC, and the map fStripMap from addresses to strips.

  Decoder::MAXSLOT of the analyzer is the parameter maxslot.  Addresses are integers without bound.
\<close>

section \<open>Addresses\<close>

text \<open>div() of <cstdlib> truncates towards zero; a divisor of zero is undefined.\<close>

definition c_idiv :: "int \<Rightarrow> int \<Rightarrow> (int \<times> int) option" where
  "c_idiv a b = (if b = 0 then None else Some (a sdiv b, a smod b))"

definition SIM_MAXSLOT :: "int \<Rightarrow> int" where
  "SIM_MAXSLOT maxslot = min maxslot 30"

definition GetChanPerSlot :: "dbm \<Rightarrow> int option" where
  "GetChanPerSlot m = var_int (dbVars m ''chan_per_slot'')"

definition GetModulesPerReadOut :: "dbm \<Rightarrow> int option" where
  "GetModulesPerReadOut m = var_int (dbVars m ''modules_per_readout'')"

text \<open>fModulesPerChamber and fChambersPerCrate keep the value 1 of the constructor.\<close>

definition GetModulesPerChamber :: int where "GetModulesPerChamber = 1"
definition GetChambersPerCrate :: int where "GetChambersPerCrate = 1"

text \<open>Crate, slot and channel.\<close>

definition StripToROC :: "dbm \<Rightarrow> int \<Rightarrow> int \<Rightarrow> int \<Rightarrow> int \<Rightarrow> (int \<times> int \<times> int) option" where
  "StripToROC m s_plane s_sector s_proj s_chan = do {
     n \<leftarrow> GetChanPerSlot m;
     (md, chan) \<leftarrow> c_idiv s_chan n;
     mpr \<leftarrow> GetModulesPerReadOut m;
     let ix = md + mpr * (s_proj + dbNReadOut m * (s_plane + dbNChamber m * s_sector));
     (crate, slot) \<leftarrow> c_idiv ix (GetChambersPerCrate * GetModulesPerChamber);
     Some (crate, slot, chan) }"

definition StripToROCD :: "int \<Rightarrow> dbm \<Rightarrow> int \<Rightarrow> int \<Rightarrow> int \<Rightarrow> int \<Rightarrow> (int \<times> int \<times> int) option" where
  "StripToROCD maxslot m s_plane s_module s_proj s_chan = do {
     n \<leftarrow> GetChanPerSlot m;
     (md, chan) \<leftarrow> c_idiv s_chan n;
     nm \<leftarrow> GetNModule m (s_plane - 1);
     let ix = s_proj + 2 * (s_module + nm * s_plane);
     (crate, slot) \<leftarrow> c_idiv ix (SIM_MAXSLOT maxslot);
     Some (crate, slot, chan) }"

definition MakeROCKey :: "int \<Rightarrow> dbm \<Rightarrow> int \<Rightarrow> int \<Rightarrow> int \<Rightarrow> int option" where
  "MakeROCKey maxslot m crate slot chan = do {
     n \<leftarrow> GetChanPerSlot m;
     Some (chan + n * (slot + SIM_MAXSLOT maxslot * crate)) }"

type_synonym stripmap = "int \<Rightarrow> nat option"

definition StripFromROC :: "int \<Rightarrow> dbm \<Rightarrow> stripmap \<Rightarrow> int \<Rightarrow> int \<Rightarrow> int \<Rightarrow> int option" where
  "StripFromROC maxslot m fStripMap crate slot chan =
     (if fStripMap = Map.empty then Some (-1)
      else do {
        key \<leftarrow> MakeROCKey maxslot m crate slot chan;
        case fStripMap key of None \<Rightarrow> Some (-1) | Some i \<Rightarrow> Some (int i) })"

section \<open>Keys\<close>

text \<open>Where a strip is: plane, module, readout, channel.\<close>

record channel =
  cnPlane :: int
  cnModule :: int
  cnProj :: int
  cnChan :: int

definition channel_of :: "gemstrip \<Rightarrow> channel" where
  "channel_of s = \<lparr> cnPlane = gsPlane s, cnModule = gsModule s, cnProj = gsProj s, cnChan = gsChan s \<rparr>"

text \<open>The module counts of the planes, and the first slot pair of a plane.\<close>

definition slot_base :: "int list \<Rightarrow> int \<Rightarrow> int" where
  "slot_base ns p = (if p \<le> 0 then 0 else ns ! nat (p - 1) * p)"

definition roc_key :: "int \<Rightarrow> int list \<Rightarrow> channel \<Rightarrow> int" where
  "roc_key n ns c = cnChan c + n * (cnProj c + 2 * (cnModule c + slot_base ns (cnPlane c)))"

definition channel_ok :: "int \<Rightarrow> int list \<Rightarrow> channel \<Rightarrow> bool" where
  "channel_ok n ns c \<longleftrightarrow> 0 \<le> cnPlane c \<and> cnPlane c < int (length ns) \<and> 0 \<le> cnModule c
     \<and> cnModule c < ns ! nat (cnPlane c) \<and> (cnProj c = 0 \<or> cnProj c = 1) \<and> 0 \<le> cnChan c \<and> cnChan c < n"

lemma c_idiv_nonneg: "0 \<le> a \<Longrightarrow> 0 < b \<Longrightarrow> c_idiv a b = Some (a div b, a mod b)"
  by (cases "a = 0") (auto simp: c_idiv_def signed_divide_int_eq_divide_int signed_modulo_int_eq_modulo_int)

lemma slot_base_cases:
  assumes "0 \<le> p" "p < int (length ns)"
  shows "p = 0 \<and> slot_base ns p = 0 \<or> 0 < p \<and> slot_base ns p = ns ! (nat p - 1) * p"
  using assms by (auto simp: slot_base_def nat_diff_distrib)

text \<open>No plane has fewer modules than the one before it.\<close>

definition counts_ok :: "int list \<Rightarrow> bool" where
  "counts_ok ns \<longleftrightarrow> sorted ns \<and> (\<forall>n \<in> set ns. 0 \<le> n)"

lemma counts_mono:
  assumes "counts_ok ns" "p \<le> q" "q < int (length ns)" "0 \<le> p"
  shows "ns ! nat p \<le> ns ! nat q"
  using assms by (intro sorted_nth_mono) (auto simp: counts_ok_def)

text \<open>The slot pairs of a plane end before those of the next planes begin.\<close>

lemma slot_base_order:
  assumes "counts_ok ns" "0 \<le> p" "p < q" "q < int (length ns)"
  shows "slot_base ns p + ns ! nat p \<le> slot_base ns q"
proof -
  have q: "slot_base ns q = ns ! nat (q - 1) * q" using assms by (simp add: slot_base_def)
  have pq: "ns ! nat p \<le> ns ! nat (q - 1)" using assms by (intro counts_mono) auto
  have p0: "0 \<le> ns ! nat p" using assms by (auto simp: counts_ok_def)
  have "slot_base ns p \<le> ns ! nat p * p"
  proof (cases "p = 0")
    case False
    then have "ns ! nat (p - 1) \<le> ns ! nat p" using assms by (intro counts_mono) auto
    then show ?thesis using False assms(2) by (simp add: slot_base_def mult_right_mono)
  qed (simp add: slot_base_def)
  then have "slot_base ns p + ns ! nat p \<le> ns ! nat p * (p + 1)" by (simp add: algebra_simps)
  also have "\<dots> \<le> ns ! nat p * q" using assms(3) p0 by (intro mult_left_mono) auto
  also have "\<dots> \<le> ns ! nat (q - 1) * q" using pq assms(2,3) by (intro mult_right_mono) auto
  finally show ?thesis using q by simp
qed

lemma digit_inj:
  fixes n :: int
  assumes "0 \<le> c" "c < n" "0 \<le> c'" "c' < n" "c + n * A = c' + n * A'"
  shows "c = c' \<and> A = A'"
proof -
  have "(c + n * A) mod n = (c' + n * A') mod n" "(c + n * A) div n = (c' + n * A') div n" using assms(5) by simp_all
  then show ?thesis using assms(1-4) by simp
qed

lemma plane_less:
  assumes "counts_ok ns" "channel_ok n ns c" "channel_ok n ns d"
    "cnModule c + slot_base ns (cnPlane c) = cnModule d + slot_base ns (cnPlane d)"
  shows "\<not> cnPlane c < cnPlane d"
proof
  assume "cnPlane c < cnPlane d"
  then have "slot_base ns (cnPlane c) + ns ! nat (cnPlane c) \<le> slot_base ns (cnPlane d)"
    using assms(2,3) by (intro slot_base_order [OF assms(1)]) (auto simp: channel_ok_def)
  then show False using assms(2-4) by (auto simp: channel_ok_def)
qed

lemma roc_key_inj:
  assumes "counts_ok ns" "channel_ok n ns c" "channel_ok n ns d" "roc_key n ns c = roc_key n ns d"
  shows "c = d"
proof -
  have k: "cnChan c = cnChan d"
      "cnProj c + 2 * (cnModule c + slot_base ns (cnPlane c)) = cnProj d + 2 * (cnModule d + slot_base ns (cnPlane d))"
    using digit_inj [of "cnChan c" n "cnChan d"] assms(2-4) by (auto simp: roc_key_def channel_ok_def)
  have p: "cnProj c = cnProj d" using k(2) assms(2,3) unfolding channel_ok_def by presburger
  then have b: "cnModule c + slot_base ns (cnPlane c) = cnModule d + slot_base ns (cnPlane d)" using k(2) by simp
  have "cnPlane c = cnPlane d"
    using plane_less [OF assms(1-3) b] plane_less [OF assms(1,3,2) b [symmetric]] by simp
  then show ?thesis using k(1) p b by (cases c; cases d) simp
qed

text \<open>The keys of the code are these.\<close>

lemma roc_address:
  assumes "GetChanPerSlot m = Some n" "channel_ok n (dbNModule m) c" "0 < maxslot" "counts_ok (dbNModule m)"
  shows "\<exists>crate slot. StripToROCD maxslot m (cnPlane c) (cnModule c) (cnProj c) (cnChan c) = Some (crate, slot, cnChan c)
    \<and> MakeROCKey maxslot m crate slot (cnChan c) = Some (roc_key n (dbNModule m) c)
    \<and> 0 \<le> slot \<and> slot < SIM_MAXSLOT maxslot \<and> 0 \<le> crate"
proof -
  let ?ns = "dbNModule m"
  have S: "0 < SIM_MAXSLOT maxslot" using assms(3) by (simp add: SIM_MAXSLOT_def)
  have c: "0 \<le> cnPlane c" "cnPlane c < int (length ?ns)" "0 \<le> cnChan c" "cnChan c < n" "0 \<le> cnModule c" "0 \<le> cnProj c"
    using assms(2) by (auto simp: channel_ok_def)
  have nn: "0 \<le> ?ns ! nat (cnPlane c - 1)" if "cnPlane c \<noteq> 0"
  proof -
    have "nat (cnPlane c - 1) < length ?ns" using c by linarith
    then show ?thesis using assms(4) by (auto simp: counts_ok_def)
  qed
  have base: "\<exists>nm. GetNModule m (cnPlane c - 1) = Some nm \<and> nm * cnPlane c = slot_base ?ns (cnPlane c)
      \<and> 0 \<le> slot_base ?ns (cnPlane c)"
  proof (cases "cnPlane c = 0")
    case False
    then have "GetNModule m (cnPlane c - 1) = Some (?ns ! nat (cnPlane c - 1))"
      using c by (simp add: GetNModule_def rdi_def rd_def)
    then show ?thesis using False c nn by (simp add: slot_base_def)
  qed (simp add: GetNModule_def slot_base_def)
  then obtain nm where nm: "GetNModule m (cnPlane c - 1) = Some nm" "nm * cnPlane c = slot_base ?ns (cnPlane c)"
      "0 \<le> slot_base ?ns (cnPlane c)" by blast
  define ix where "ix = cnProj c + 2 * (cnModule c + slot_base ?ns (cnPlane c))"
  have ix: "0 \<le> ix" using c nm(3) by (simp add: ix_def)
  have d: "c_idiv (cnChan c) n = Some (0, cnChan c)" using c_idiv_nonneg [OF c(3), of n] c by simp
  have "StripToROCD maxslot m (cnPlane c) (cnModule c) (cnProj c) (cnChan c)
      = Some (ix div SIM_MAXSLOT maxslot, ix mod SIM_MAXSLOT maxslot, cnChan c)"
    using assms(1) d nm(1) c_idiv_nonneg [OF ix S] by (simp add: StripToROCD_def ix_def nm(2) Let_def)
  moreover have "MakeROCKey maxslot m (ix div SIM_MAXSLOT maxslot) (ix mod SIM_MAXSLOT maxslot) (cnChan c)
      = Some (roc_key n ?ns c)"
    using assms(1) by (simp add: MakeROCKey_def roc_key_def ix_def)
  ultimately show ?thesis using S ix by (auto simp: pos_imp_zdiv_nonneg_iff)
qed

section \<open>The map from addresses to strips\<close>

text \<open>What the decoder relies on: different channels have different keys.\<close>

locale addressing =
  fixes key :: "'a \<Rightarrow> 'k" and valid :: "'a \<Rightarrow> bool"
  assumes key_inj: "valid a \<Longrightarrow> valid b \<Longrightarrow> key a = key b \<Longrightarrow> a = b"
begin

lemma key_new: "valid a \<Longrightarrow> \<forall>b \<in> B. valid b \<Longrightarrow> a \<notin> B \<Longrightarrow> key a \<notin> key ` B"
  using key_inj by blast

lemma key_image: "valid a \<Longrightarrow> \<forall>b \<in> B. valid b \<Longrightarrow> key a \<in> key ` B \<longleftrightarrow> a \<in> B"
  using key_inj by blast

lemma inj_key: "inj_on key {a. valid a}"
  using key_inj by (auto intro: inj_onI)

end

interpretation roc: addressing "roc_key n ns" "\<lambda>c. counts_ok ns \<and> channel_ok n ns c" for n ns
  by unfold_locales (blast intro: roc_key_inj)

text \<open>C21. As long as no plane has fewer modules than the plane before it, two strips have the same
  hardware address only if they are the same channel: the keys under which the decoder files them
  never collide.  (The condition is needed: lemma ROC\_keys\_collide shows that with 3, 1 and 1
  modules the third module of plane 0 and the module of plane 2 share all their addresses.)\<close>

theorem ROC_keys_distinct:
  assumes "GetChanPerSlot m = Some n" "0 < maxslot" "counts_ok (dbNModule m)"
    "channel_ok n (dbNModule m) c" "channel_ok n (dbNModule m) d"
    "StripToROCD maxslot m (cnPlane c) (cnModule c) (cnProj c) (cnChan c) = Some (crate, slot, chan)"
    "StripToROCD maxslot m (cnPlane d) (cnModule d) (cnProj d) (cnChan d) = Some (crate', slot', chan')"
  shows "MakeROCKey maxslot m crate slot chan = MakeROCKey maxslot m crate' slot' chan' \<longleftrightarrow> c = d"
proof -
  have "MakeROCKey maxslot m crate slot chan = Some (roc_key n (dbNModule m) c)"
      "MakeROCKey maxslot m crate' slot' chan' = Some (roc_key n (dbNModule m) d)"
    using roc_address [OF assms(1,4,2,3)] roc_address [OF assms(1,5,2,3)] assms(6,7) by auto
  then show ?thesis using roc_key_inj [OF assms(3-5)] by auto
qed

definition dbmR :: "int list \<Rightarrow> dbm" where
  "dbmR ns = dbm0 \<lparr> dbVars := [''chan_per_slot'' \<mapsto> DInt 2048], dbNModule := ns \<rparr>"

lemma dbmR_chan: "GetChanPerSlot (dbmR ns) = Some 2048" "dbNModule (dbmR ns) = ns"
  by (simp_all add: GetChanPerSlot_def dbmR_def var_int_def)

theorem ROC_keys_distinct_witness:
  "\<exists>a b. StripToROCD 32 (dbmR [3, 3, 4]) 2 3 1 7 = Some a \<and> StripToROCD 32 (dbmR [3, 3, 4]) 1 2 1 7 = Some b
    \<and> (case a of (crate, slot, chan) \<Rightarrow> MakeROCKey 32 (dbmR [3, 3, 4]) crate slot chan)
       \<noteq> (case b of (crate, slot, chan) \<Rightarrow> MakeROCKey 32 (dbmR [3, 3, 4]) crate slot chan)"
proof -
  let ?c = "\<lparr> cnPlane = 2, cnModule = 3, cnProj = 1, cnChan = 7 \<rparr>"
  let ?d = "\<lparr> cnPlane = 1, cnModule = 2, cnProj = 1, cnChan = 7 \<rparr>"
  have ns: "counts_ok (dbNModule (dbmR [3, 3, 4]))" by (simp add: dbmR_def counts_ok_def)
  have ok: "channel_ok 2048 (dbNModule (dbmR [3, 3, 4])) ?c" "channel_ok 2048 (dbNModule (dbmR [3, 3, 4])) ?d"
    by (simp_all add: dbmR_def channel_ok_def)
  have a: "StripToROCD 32 (dbmR [3, 3, 4]) 2 3 1 7 = Some (0, 19, 7)" "StripToROCD 32 (dbmR [3, 3, 4]) 1 2 1 7 = Some (0, 11, 7)"
    by (simp_all add: StripToROCD_def dbmR_chan GetNModule_def rdi_def rd_def c_idiv_def SIM_MAXSLOT_def
        signed_divide_int_def signed_modulo_int_def)
  show ?thesis using ROC_keys_distinct [OF dbmR_chan(1) _ ns ok, of 32 0 19 7 0 11 7] a by simp
qed

lemma ROC_keys_collide:
  "StripToROCD 32 (dbmR [3, 1, 1]) 0 2 j ch = StripToROCD 32 (dbmR [3, 1, 1]) 2 0 j ch"
  by (simp add: StripToROCD_def dbmR_chan GetNModule_def rdi_def rd_def)

end
