(* ===== verification/BitCount.thy ===== *)
theory BitCount
  imports Prelude
begin

text \<open>
  NumberOfSetBits of src/src/TSBSSimDecoder.cxx, which counts the bits of a 32-bit word by adding
  neighbouring fields, and its equivalence with the count of the set bits.
\<close>

unbundle bit_operations_syntax

definition NumberOfSetBits :: "32 word \<Rightarrow> int" where
  "NumberOfSetBits v =
     (let v = v - (drop_bit 1 v AND 0x55555555);
          v = (v AND 0x33333333) + (drop_bit 2 v AND 0x33333333)
      in uint (drop_bit 24 (((v + drop_bit 4 v) AND 0x0F0F0F0F) * 0x01010101)))"

section \<open>Numbers by their digits\<close>

definition digits :: "nat \<Rightarrow> nat list \<Rightarrow> nat" where
  "digits B ds = foldr (\<lambda>d x. d + B * x) ds 0"

lemma digits_simps [simp]: "digits B [] = 0" "digits B (d # ds) = d + B * digits B ds"
  by (simp_all add: digits_def)

lemma digits_exist:
  assumes "0 < B"
  shows "n < B ^ k \<Longrightarrow> \<exists>ds. length ds = k \<and> (\<forall>d \<in> set ds. d < B) \<and> digits B ds = n"
proof (induction k arbitrary: n)
  case (Suc k)
  have "n div B < B ^ k" using Suc.prems assms by (simp add: div_less_iff_less_mult mult.commute)
  then obtain ds where "length ds = k" "\<forall>d \<in> set ds. d < B" "digits B ds = n div B" using Suc.IH by blast
  then show ?case using assms by (intro exI [of _ "n mod B # ds"]) simp
qed simp

lemma and_digit:
  fixes a b :: nat
  assumes "a < 2 ^ k" "b < 2 ^ k"
  shows "(a + 2 ^ k * x) AND (b + 2 ^ k * y) = (a AND b) + 2 ^ k * (x AND y)"
proof -
  let ?n = "(a + 2 ^ k * x) AND (b + 2 ^ k * y)"
  have t: "take_bit k (a + 2 ^ k * x) = a" "take_bit k (b + 2 ^ k * y) = b"
    using assms by (simp_all add: take_bit_eq_mod)
  have d: "drop_bit k (a + 2 ^ k * x) = x" "drop_bit k (b + 2 ^ k * y) = y"
    using assms by (simp_all add: drop_bit_eq_div)
  have "?n = take_bit k ?n + 2 ^ k * drop_bit k ?n" by (simp add: take_bit_eq_mod drop_bit_eq_div)
  then show ?thesis by (simp add: t d)
qed

lemma and_low: "(a + 2 ^ s * x) AND (2 ^ s - 1) = a" if "a < 2 ^ s" for a x :: nat
proof -
  have "(a + 2 ^ s * x) AND mask s = take_bit s (a + 2 ^ s * x)" by (simp add: take_bit_eq_mask)
  then show ?thesis using that by (simp add: mask_eq_exp_minus_1 take_bit_eq_mod)
qed

text \<open>Shifting every digit by half its width and masking the upper halves.\<close>

lemma shift_digits:
  assumes "\<forall>d \<in> set ds. d < 2 ^ s * 2 ^ s"
  shows "drop_bit s (digits (2 ^ s * 2 ^ s) ds) AND digits (2 ^ s * 2 ^ s) (replicate (length ds) (2 ^ s - 1))
    = digits (2 ^ s * 2 ^ s) (map (\<lambda>d. d div 2 ^ s) ds)"
  using assms
proof (induction ds)
  case (Cons d ds)
  let ?X = "digits (2 ^ s * 2 ^ s) ds"
  let ?Y = "digits (2 ^ s * 2 ^ s) (replicate (length ds) (2 ^ s - 1 :: nat))"
  have k: "2 ^ s * 2 ^ s = (2 :: nat) ^ (s + s)" by (simp add: power_add)
  have d: "d div 2 ^ s < 2 ^ s" using Cons.prems by (simp add: div_less_iff_less_mult)
  have m: "(2 :: nat) ^ s - 1 < 2 ^ (s + s)"
    using power_increasing [of s "s + s" "2 :: nat"] zero_less_power [of "2 :: nat" s] by linarith
  have l: "d div 2 ^ s + 2 ^ s * (?X mod 2 ^ s) < 2 ^ (s + s)"
  proof -
    have "?X mod 2 ^ s < 2 ^ s" by simp
    then have "?X mod 2 ^ s \<le> 2 ^ s - 1" by linarith
    then have "2 ^ s * (?X mod 2 ^ s) \<le> 2 ^ s * (2 ^ s - 1)" by (intro mult_left_mono) auto
    then have "d div 2 ^ s + 2 ^ s * (?X mod 2 ^ s) < 2 ^ s + 2 ^ s * (2 ^ s - 1)" using d by linarith
    then show ?thesis by (simp add: power_add diff_mult_distrib2)
  qed
  have "drop_bit s (d + 2 ^ s * 2 ^ s * ?X) = d div 2 ^ s + 2 ^ s * ?X"
    by (simp add: drop_bit_eq_div mult.assoc)
  also have "\<dots> = (d div 2 ^ s + 2 ^ s * (?X mod 2 ^ s)) + 2 ^ (s + s) * drop_bit s ?X"
    using mult_div_mod_eq [of "2 ^ s" ?X] by (simp add: drop_bit_eq_div power_add algebra_simps flip: distrib_left)
  finally have "drop_bit s (d + 2 ^ s * 2 ^ s * ?X) AND (2 ^ s - 1 + 2 ^ (s + s) * ?Y)
      = ((d div 2 ^ s + 2 ^ s * (?X mod 2 ^ s)) AND (2 ^ s - 1)) + 2 ^ (s + s) * (drop_bit s ?X AND ?Y)"
    using and_digit [OF l m] by simp
  then show ?case using and_low [OF d] Cons.IH Cons.prems by (simp add: k)
qed simp

section \<open>The count\<close>

definition bit_count :: "nat \<Rightarrow> nat \<Rightarrow> nat" where
  "bit_count n x = (\<Sum>i < n. of_bool (bit x i))"

lemma bit_count_Suc: "bit_count (Suc n) x = of_bool (odd x) + bit_count n (x div 2)"
  by (simp add: bit_count_def sum.lessThan_Suc_shift bit_Suc bit_0 del: sum.lessThan_Suc)

lemma bit_count_digits:
  "\<forall>d \<in> set ds. d < 4 \<Longrightarrow> bit_count (2 * length ds) (digits 4 ds) = sum_list (map (\<lambda>d. d - d div 2) ds)"
proof (induction ds)
  case (Cons d ds)
  let ?x = "digits 4 ds"
  have x: "(d + 4 * ?x) div 2 = d div 2 + 2 * ?x" "(d div 2 + 2 * ?x) div 2 = d div 2 div 2 + ?x"
    by simp_all
  have "d < 4" using Cons.prems by simp
  then have "d \<in> {0, 1, 2, 3}" by auto
  then have "of_bool (odd d) + of_bool (odd (d div 2)) = d - d div 2" "d div 2 div 2 = 0" by auto
  then show ?case using Cons by (simp add: bit_count_Suc x)
qed (simp add: bit_count_def)

lemma mask_digits:
  assumes "\<forall>d \<in> set ds. d < 2 ^ s * 2 ^ s"
  shows "digits (2 ^ s * 2 ^ s) ds AND digits (2 ^ s * 2 ^ s) (replicate (length ds) (2 ^ s - 1))
    = digits (2 ^ s * 2 ^ s) (map (\<lambda>d. d mod 2 ^ s) ds)"
  using assms
proof (induction ds)
  case (Cons d ds)
  have k: "2 ^ s * 2 ^ s = (2 :: nat) ^ (s + s)" by (simp add: power_add)
  have m: "(2 :: nat) ^ s - 1 < 2 ^ (s + s)"
    using power_increasing [of s "s + s" "2 :: nat"] zero_less_power [of "2 :: nat" s] by linarith
  have d: "d < 2 ^ (s + s)" using Cons.prems by (simp add: k)
  have "d AND mask s = take_bit s d" by (simp add: take_bit_eq_mask)
  then have l: "d AND (2 ^ s - 1) = d mod 2 ^ s" by (simp add: mask_eq_exp_minus_1 take_bit_eq_mod)
  have "digits (2 ^ s * 2 ^ s) (d # ds) AND digits (2 ^ s * 2 ^ s) (replicate (length (d # ds)) (2 ^ s - 1))
      = (d AND (2 ^ s - 1)) + 2 ^ (s + s) * (digits (2 ^ s * 2 ^ s) ds
          AND digits (2 ^ s * 2 ^ s) (replicate (length ds) (2 ^ s - 1)))"
    using and_digit [OF d m] by (simp add: k)
  then show ?case using Cons l by (simp add: k)
qed simp

lemma digits_diff: "\<forall>d \<in> set ds. f d \<le> d \<Longrightarrow> digits B ds - digits B (map f ds) = digits B (map (\<lambda>d. d - f d) ds)
  \<and> digits B (map f ds) \<le> digits B ds"
proof (induction ds)
  case (Cons d ds)
  then have "digits B (map f ds) \<le> digits B ds" "f d \<le> d" by auto
  then have le: "B * digits B (map f ds) \<le> B * digits B ds" by (intro mult_left_mono) auto
  have "B * digits B ds - B * digits B (map f ds) = B * digits B (map (\<lambda>d. d - f d) ds)"
    using Cons by (simp flip: diff_mult_distrib2)
  then have "d + B * digits B ds - (f d + B * digits B (map f ds))
      = (d - f d) + B * digits B (map (\<lambda>d. d - f d) ds)" using le \<open>f d \<le> d\<close> by linarith
  moreover have "f d + B * digits B (map f ds) \<le> d + B * digits B ds" using le \<open>f d \<le> d\<close> by linarith
  ultimately show ?case by simp
qed simp

lemma digits_less: "\<forall>d \<in> set ds. d < B \<Longrightarrow> digits B ds < B ^ length ds"
proof (induction ds)
  case (Cons d ds)
  then have "digits B ds \<le> B ^ length ds - 1" "d < B" by auto
  then have "d + B * digits B ds < B + B * (B ^ length ds - 1)" by (simp add: add_less_le_mono mult_le_mono2)
  then show ?case using \<open>d < B\<close> by (cases "B ^ length ds") (auto simp: algebra_simps)
qed simp

lemma unat_drop_bit: "unat (drop_bit n v) = drop_bit n (unat v)" for v :: "32 word"
proof -
  have "take_bit 32 (unat v) = unat v" using unsigned_less [of v, where 'a = nat] by (simp add: take_bit_nat_eq_self)
  then show ?thesis by (simp add: unsigned_drop_bit_eq)
qed

lemma replicate_8: "replicate 8 x = [x, x, x, x, x, x, x, x]"
  by (simp add: numeral_eq_Suc)

lemma replicate_16: "replicate 16 x = [x, x, x, x, x, x, x, x, x, x, x, x, x, x, x, x]"
  by (simp add: numeral_eq_Suc)

text \<open>The three summing steps, on the digits.\<close>

lemma sum_pairs:
  assumes "unat v = digits 4 ds" "length ds = 16" "\<forall>d \<in> set ds. d < 4"
  shows "unat (v - (drop_bit 1 v AND 0x55555555) :: 32 word) = digits 4 (map (\<lambda>d. d - d div 2) ds)"
proof -
  have m: "(0x55555555 :: nat) = digits (2 ^ 1 * 2 ^ 1) (replicate (length ds) (2 ^ 1 - 1))"
    unfolding assms(2) replicate_16 by simp
  have "unat (drop_bit 1 v AND 0x55555555) = drop_bit 1 (unat v) AND 0x55555555"
    by (simp add: unsigned_and_eq unat_drop_bit)
  also have "\<dots> = digits (2 ^ 1 * 2 ^ 1) (map (\<lambda>d. d div 2 ^ 1) ds)"
    unfolding m using shift_digits [of ds 1] assms by simp
  finally have t: "unat (drop_bit 1 v AND 0x55555555) = digits 4 (map (\<lambda>d. d div 2) ds)" by simp
  have d: "digits 4 ds - digits 4 (map (\<lambda>d. d div 2) ds) = digits 4 (map (\<lambda>d. d - d div 2) ds)"
      "digits 4 (map (\<lambda>d. d div 2) ds) \<le> digits 4 ds"
    using digits_diff [of ds "\<lambda>d. d div 2" 4] by simp_all
  have "(drop_bit 1 v AND 0x55555555) \<le> v" using t d(2) assms(1) by (simp add: word_le_nat_alt)
  then show ?thesis using t d(1) assms(1) by (simp add: unat_sub)
qed

lemma sum_nibbles:
  assumes "unat v = digits 16 es" "length es = 8" "\<forall>d \<in> set es. d < 16" "\<forall>d \<in> set es. d mod 4 + d div 4 < 16"
  shows "unat ((v AND 0x33333333) + (drop_bit 2 v AND 0x33333333) :: 32 word) = digits 16 (map (\<lambda>d. d mod 4 + d div 4) es)"
proof -
  have m: "(0x33333333 :: nat) = digits (2 ^ 2 * 2 ^ 2) (replicate (length es) (2 ^ 2 - 1))"
    unfolding assms(2) replicate_8 by simp
  have "unat (drop_bit 2 v AND 0x33333333) = drop_bit 2 (unat v) AND 0x33333333"
    by (simp add: unsigned_and_eq unat_drop_bit)
  also have "\<dots> = digits (2 ^ 2 * 2 ^ 2) (map (\<lambda>d. d div 2 ^ 2) es)"
    unfolding m using shift_digits [of es 2] assms by simp
  finally have h: "unat (drop_bit 2 v AND 0x33333333) = digits 16 (map (\<lambda>d. d div 4) es)" by simp
  have "unat (v AND 0x33333333) = unat v AND 0x33333333" by (simp add: unsigned_and_eq)
  also have "\<dots> = digits (2 ^ 2 * 2 ^ 2) (map (\<lambda>d. d mod 2 ^ 2) es)"
    unfolding m using mask_digits [of es 2] assms by simp
  finally have l: "unat (v AND 0x33333333) = digits 16 (map (\<lambda>d. d mod 4) es)" by simp
  have s: "digits 16 (map f es) + digits 16 (map g es) = digits 16 (map (\<lambda>d. f d + g d) es)" for f g
    by (induction es) (simp_all add: algebra_simps)
  have "digits 16 (map (\<lambda>d. d mod 4 + d div 4) es) < 16 ^ 8"
    using digits_less [of "map (\<lambda>d. d mod 4 + d div 4) es" 16] assms(2,4) by simp
  then show ?thesis using h l s [of "\<lambda>d. d mod 4" "\<lambda>d. d div 4"] by (simp add: unat_add_lem [THEN iffD1])
qed

lemma sum_bytes:
  assumes "unat v = digits 16 [d0, d1, d2, d3, d4, d5, d6, d7]" "\<forall>d \<in> {d0, d1, d2, d3, d4, d5, d6, d7}. d \<le> 4"
  shows "unat ((v + drop_bit 4 v) AND 0x0F0F0F0F :: 32 word) = digits 16 [d0 + d1, 0, d2 + d3, 0, d4 + d5, 0, d6 + d7, 0]"
proof -
  have le: "d0 \<le> 4" "d1 \<le> 4" "d2 \<le> 4" "d3 \<le> 4" "d4 \<le> 4" "d5 \<le> 4" "d6 \<le> 4" "d7 \<le> 4" using assms(2) by auto
  have "unat (drop_bit 4 v) = drop_bit 4 (unat v)" by (simp add: unat_drop_bit)
  also have "\<dots> = digits 16 [d1, d2, d3, d4, d5, d6, d7]" using le by (simp add: assms(1) drop_bit_eq_div)
  finally have h: "unat (drop_bit 4 v) = digits 16 [d1, d2, d3, d4, d5, d6, d7]" .
  have "unat v + unat (drop_bit 4 v) = digits 16 [d0 + d1, d1 + d2, d2 + d3, d3 + d4, d4 + d5, d5 + d6, d6 + d7, d7]"
    unfolding assms(1) h by simp
  moreover have "digits 16 [d0 + d1, d1 + d2, d2 + d3, d3 + d4, d4 + d5, d5 + d6, d6 + d7, d7] < 16 ^ 8"
    using digits_less [of "[d0 + d1, d1 + d2, d2 + d3, d3 + d4, d4 + d5, d5 + d6, d6 + d7, d7]" 16] le by simp
  ultimately have a: "unat (v + drop_bit 4 v) = digits 16 [d0 + d1, d1 + d2, d2 + d3, d3 + d4, d4 + d5, d5 + d6, d6 + d7, d7]"
    by (simp add: unat_add_lem [THEN iffD1] del: digits_simps)
  have m: "(0x0F0F0F0F :: nat) = digits 16 [15, 0, 15, 0, 15, 0, 15, 0]" by simp
  have s: "digits 16 (x # xs) AND digits 16 (15 # ys) = x + 16 * (digits 16 xs AND digits 16 ys)"
      "digits 16 (x # xs) AND digits 16 (0 # ys) = 16 * (digits 16 xs AND digits 16 ys)" if "x \<le> 8" for x xs ys
  proof -
    have "x AND 15 = x" using and_low [of x 4 0] that by simp
    then show "digits 16 (x # xs) AND digits 16 (15 # ys) = x + 16 * (digits 16 xs AND digits 16 ys)"
      using and_digit [of x 4 15 "digits 16 xs" "digits 16 ys"] that by simp
    show "digits 16 (x # xs) AND digits 16 (0 # ys) = 16 * (digits 16 xs AND digits 16 ys)"
      using and_digit [of x 4 0 "digits 16 xs" "digits 16 ys"] that by simp
  qed
  have "unat ((v + drop_bit 4 v) AND 0x0F0F0F0F) = unat (v + drop_bit 4 v) AND 0x0F0F0F0F"
    by (simp add: unsigned_and_eq)
  also have "\<dots> = digits 16 [d0 + d1, 0, d2 + d3, 0, d4 + d5, 0, d6 + d7, 0]"
    unfolding a m using le by (simp add: s del: digits_simps(2)) simp
  finally show ?thesis .
qed

lemma sum_all:
  assumes "unat w = digits 256 [y0, y1, y2, y3]" "y0 \<le> 8" "y1 \<le> 8" "y2 \<le> 8" "y3 \<le> 8"
  shows "unat (drop_bit 24 (w * 0x01010101) :: 32 word) = y0 + y1 + y2 + y3"
proof -
  define lo where "lo = y0 + 256 * (y0 + y1) + 65536 * (y0 + y1 + y2)"
  define S where "S = y0 + y1 + y2 + y3"
  define H where "H = (y1 + y2 + y3) + 256 * (y2 + y3) + 65536 * y3"
  have lo: "lo < 2 ^ 24" and S: "S \<le> 32" using assms by (simp_all add: lo_def S_def)
  have e: "unat w * 0x01010101 = (lo + 2 ^ 24 * S) + 2 ^ 32 * H" by (simp add: assms(1) lo_def S_def H_def)
  have "unat (w * 0x01010101) = (unat w * 0x01010101) mod 2 ^ 32" by (simp add: unat_word_ariths)
  also have "\<dots> = (lo + 2 ^ 24 * S) mod 2 ^ 32" unfolding e by simp
  also have "\<dots> = lo + 2 ^ 24 * S" using lo S by simp
  finally have "unat (drop_bit 24 (w * 0x01010101)) = (lo + 2 ^ 24 * S) div 2 ^ 24"
    by (simp only: unat_drop_bit drop_bit_nat_def)
  then show ?thesis using lo by (simp add: S_def)
qed

lemma NumberOfSetBits_bits: "NumberOfSetBits v = int (bit_count 32 (unat v))"
proof -
  have "unat v < 4 ^ 16" using unsigned_less [of v] by simp
  then obtain ds where ds: "length ds = 16" "\<forall>d \<in> set ds. d < 4" "digits 4 ds = unat v"
    using digits_exist [of 4 "unat v" 16] by auto
  define cs where "cs = map (\<lambda>d. d - d div 2) ds"
  have cs: "length cs = 16" "\<forall>c \<in> set cs. c \<le> 2" using ds by (auto simp: cs_def)
  define v1 where "v1 = v - (drop_bit 1 v AND 0x55555555)"
  have v1: "unat v1 = digits 4 cs" using sum_pairs [of v ds] ds by (simp add: v1_def cs_def)
  obtain c0 c1 c2 c3 c4 c5 c6 c7 c8 c9 c10 c11 c12 c13 c14 c15 where
    c: "cs = [c0, c1, c2, c3, c4, c5, c6, c7, c8, c9, c10, c11, c12, c13, c14, c15]"
    using cs(1) by (auto simp: length_Suc_conv numeral_eq_Suc)
  let ?es = "[c0 + 4 * c1, c2 + 4 * c3, c4 + 4 * c5, c6 + 4 * c7, c8 + 4 * c9, c10 + 4 * c11, c12 + 4 * c13, c14 + 4 * c15]"
  have le: "c0 \<le> 2" "c1 \<le> 2" "c2 \<le> 2" "c3 \<le> 2" "c4 \<le> 2" "c5 \<le> 2" "c6 \<le> 2" "c7 \<le> 2" "c8 \<le> 2" "c9 \<le> 2"
     "c10 \<le> 2" "c11 \<le> 2" "c12 \<le> 2" "c13 \<le> 2" "c14 \<le> 2" "c15 \<le> 2" using cs(2) c by auto
  have md: "(a + 4 * b) mod 4 = a" "(a + 4 * b) div 4 = b" if "a \<le> 2" for a b :: nat using that by auto
  define v2 where "v2 = (v1 AND 0x33333333) + (drop_bit 2 v1 AND 0x33333333)"
  have "unat v1 = digits 16 ?es" using v1 c by simp
  then have "unat v2 = digits 16 (map (\<lambda>d. d mod 4 + d div 4) ?es)"
    unfolding v2_def using le md by (intro sum_nibbles) auto
  then have v2: "unat v2 = digits 16 [c0 + c1, c2 + c3, c4 + c5, c6 + c7, c8 + c9, c10 + c11, c12 + c13, c14 + c15]"
    using le md by (simp del: digits_simps)
  have "unat ((v2 + drop_bit 4 v2) AND 0x0F0F0F0F) = digits 16 [(c0 + c1) + (c2 + c3), 0, (c4 + c5) + (c6 + c7), 0,
      (c8 + c9) + (c10 + c11), 0, (c12 + c13) + (c14 + c15), 0]"
    using le by (intro sum_bytes [OF v2]) auto
  also have "\<dots> = digits 256 [(c0 + c1) + (c2 + c3), (c4 + c5) + (c6 + c7), (c8 + c9) + (c10 + c11), (c12 + c13) + (c14 + c15)]"
    by simp
  finally have "unat (drop_bit 24 (((v2 + drop_bit 4 v2) AND 0x0F0F0F0F) * 0x01010101))
      = (c0 + c1) + (c2 + c3) + ((c4 + c5) + (c6 + c7)) + ((c8 + c9) + (c10 + c11)) + ((c12 + c13) + (c14 + c15))"
    using le by (intro sum_all) auto
  also have "\<dots> = sum_list cs" by (simp add: c)
  also have "\<dots> = bit_count 32 (unat v)" using bit_count_digits [OF ds(2)] ds(1,3) by (simp add: cs_def)
  finally show ?thesis unfolding NumberOfSetBits_def Let_def v1_def [symmetric] v2_def [symmetric]
    by (simp add: uint_nat del: of_nat_add)
qed

lemma bit_count_card: "bit_count 32 (unat v) = card {i. i < 32 \<and> bit v i}" for v :: "32 word"
proof -
  have "bit_count 32 (unat v) = (\<Sum>i \<in> {..<32}. of_bool (bit v i))"
    by (simp add: bit_count_def bit_unsigned_iff)
  also have "\<dots> = card ({..<32} \<inter> {i. bit v i})" by (simp add: of_bool_def sum.If_cases)
  also have "{..<32} \<inter> {i. bit v i} = {i. i < 32 \<and> bit v i}" by auto
  finally show ?thesis .
qed

text \<open>C25. The parallel count of NumberOfSetBits is the number of set bits, for every 32-bit word.\<close>

theorem NumberOfSetBits_card: "NumberOfSetBits v = int (card {i. i < 32 \<and> bit v i})"
  by (simp add: NumberOfSetBits_bits bit_count_card)

end
