(* ===== verification/ECalArm.thy ===== *)
theory ECalArm
  imports DBManager SimEvent
begin

text \<open>
  The electron arm of TSBSSimDecoder, src/src/TSBSSimDecoder.cxx: the shower coordinates from the
  profile tables, the straight-line fit, the vertex bin, and the prediction of the proton track at
  the focal plane that DoLoadEvent stores as calorimeter data.

  The inverse of a 4x4 matrix (TMatrixD::Invert) is a parameter.  A value that is no number is
  None.  The kinematic cross-check values of DoLoadEvent, which nothing uses, are left out.
\<close>

section \<open>Constants\<close>

definition ECAL_max_cell_size :: real where "ECAL_max_cell_size = 0.042"
definition X0_ECAL :: real where "X0_ECAL = 0.0274"
definition Ec_ECAL :: real where "Ec_ECAL = 0.015"
definition yoff_ECAL :: real where "yoff_ECAL = 0.0077"
definition sigx_ECAL :: real where "sigx_ECAL = 0.008"
definition sigy_ECAL :: real where "sigy_ECAL = 0.006"
definition sigy_CDET :: real where "sigy_CDET = 0.003"
definition Lx_scint_CDET :: real where "Lx_scint_CDET = 0.51"
definition Mp :: real where "Mp = 0.938272"
definition Ltgt :: real where "Ltgt = 0.4"
definition vz_bin_width :: real where "vz_bin_width = 3 * 0.0064"

section \<open>Shower coordinates\<close>

record shower_profile_t =
  spNbinsMom :: int
  spXmin :: real
  spXmax :: real
  spFrac :: "real list"

record shower_profiles =
  prDefaultX :: shower_profile_t
  prDefaultY :: shower_profile_t
  prXNbins :: int
  prYNbins :: int
  prXMin :: real
  prXMax :: real
  prYMin :: real
  prYMax :: real
  prX :: "shower_profile_t list"
  prY :: "shower_profile_t list"

definition choose_profile ::
  "shower_profile_t \<Rightarrow> int \<Rightarrow> real \<Rightarrow> real \<Rightarrow> shower_profile_t list \<Rightarrow> real \<Rightarrow> shower_profile_t option" where
  "choose_profile dflt nbins lo hi profs mx = do {
     q \<leftarrow> c_div (100 * mx - lo) (hi - lo);
     bin \<leftarrow> to_int32 (q * of_int nbins);
     if 0 \<le> bin \<and> bin < nbins then rdi profs bin else Some dflt }"

text \<open>One coordinate: the position in the cell of largest energy, interpolated between the bins of
  the profile.\<close>

definition shower_axis :: "shower_profile_t \<Rightarrow> real \<Rightarrow> real \<Rightarrow> real option" where
  "shower_axis p mom mx = do {
     q \<leftarrow> c_div (mom - spXmin p) (spXmax p - spXmin p);
     b \<leftarrow> to_int32 (q * of_int (spNbinsMom p));
     if b < 0 then Some (mx - 1/2 * ECAL_max_cell_size)
     else if b < spNbinsMom p then do {
       binwidth \<leftarrow> c_div (spXmax p - spXmin p) (of_int (spNbinsMom p));
       flo \<leftarrow> rdi (spFrac p) b;
       fhi \<leftarrow> rdi (spFrac p) (b + 1);
       let xlo = spXmin p + of_int b * binwidth;
       r \<leftarrow> c_div ((fhi - flo) * (mom - xlo)) binwidth;
       let f = flo + r;
       Some (mx + (f - 1/2) * ECAL_max_cell_size) }
     else Some (mx + 1/2 * ECAL_max_cell_size) }"

definition Calc_Shower_Coordinates ::
  "shower_profiles \<Rightarrow> real \<Rightarrow> real \<Rightarrow> real \<Rightarrow> real \<Rightarrow> real \<Rightarrow> real \<Rightarrow> (real \<times> real) option" where
  "Calc_Shower_Coordinates pr xmom ymom xmax ymax Eclust Rcal =
     (if Eclust \<le> 0 then None
      else do {
        let tmax = max 0 (X0_ECAL * (ln (Eclust / Ec_ECAL) - 1/2));
        px \<leftarrow> choose_profile (prDefaultX pr) (prXNbins pr) (prXMin pr) (prXMax pr) (prX pr) xmax;
        xclust \<leftarrow> shower_axis px xmom xmax;
        py \<leftarrow> choose_profile (prDefaultY pr) (prYNbins pr) (prYMin pr) (prYMax pr) (prY pr) ymax;
        yclust \<leftarrow> shower_axis py ymom ymax;
        xptemp \<leftarrow> c_div xclust Rcal;
        yptemp \<leftarrow> c_div yclust Rcal;
        dz \<leftarrow> c_div tmax (sqrt (1 + xptemp\<^sup>2 + yptemp\<^sup>2));
        Some (xclust - dz * xptemp, yclust - dz * yptemp) })"

section \<open>The straight-line fit\<close>

type_synonym fitpoint = "real \<times> real \<times> real \<times> real \<times> real"  \<comment> \<open>x, y, z, weight of x, weight of y\<close>

text \<open>A 4x4 matrix by its rows, a vector by its components.\<close>

type_synonym mat4 = "real list list"

definition mat4_vec :: "mat4 \<Rightarrow> real list \<Rightarrow> real list" where
  "mat4_vec A v = map (\<lambda>row. sum_list (map2 (*) row v)) A"

text \<open>The sums over the points of the normal equations.\<close>

definition point_sum :: "(fitpoint \<Rightarrow> real) \<Rightarrow> fitpoint list \<Rightarrow> real" where
  "point_sum f pts = foldl (\<lambda>s p. s + f p) 0 pts"

definition fit_matrix :: "fitpoint list \<Rightarrow> mat4" where
  "fit_matrix pts =
     (let sx = point_sum (\<lambda>(x, y, z, wx, wy). wx) pts; sxz = point_sum (\<lambda>(x, y, z, wx, wy). wx * z) pts;
          sxzz = point_sum (\<lambda>(x, y, z, wx, wy). wx * z\<^sup>2) pts;
          sy = point_sum (\<lambda>(x, y, z, wx, wy). wy) pts; syz = point_sum (\<lambda>(x, y, z, wx, wy). wy * z) pts;
          syzz = point_sum (\<lambda>(x, y, z, wx, wy). wy * z\<^sup>2) pts
      in [[sx, 0, sxz, 0], [0, sy, 0, syz], [sxz, 0, sxzz, 0], [0, syz, 0, syzz]])"

definition fit_vector :: "fitpoint list \<Rightarrow> real list" where
  "fit_vector pts = [point_sum (\<lambda>(x, y, z, wx, wy). wx * x) pts, point_sum (\<lambda>(x, y, z, wx, wy). wy * y) pts,
     point_sum (\<lambda>(x, y, z, wx, wy). wx * x * z) pts, point_sum (\<lambda>(x, y, z, wx, wy). wy * y * z) pts]"

text \<open>The results are left unset for fewer than two points.\<close>

definition Fit_3D_Track :: "(mat4 \<Rightarrow> mat4) \<Rightarrow> fitpoint list \<Rightarrow> (real \<times> real \<times> real \<times> real) option" where
  "Fit_3D_Track invert pts =
     (if length pts < 2 then None
      else (case mat4_vec (invert (fit_matrix pts)) (fit_vector pts) of
          [X, Y, Xp, Yp] \<Rightarrow> Some (X, Y, Xp, Yp) | _ \<Rightarrow> None))"

section \<open>The vertex bin\<close>

definition CeilNint :: "real \<Rightarrow> int" where
  "CeilNint x = \<lceil>x\<rceil>"

fun find_bin :: "real \<Rightarrow> real \<Rightarrow> nat \<Rightarrow> nat \<Rightarrow> real" where
  "find_bin z minbin i 0 = z"
| "find_bin z minbin i (Suc n) =
     (if minbin + real i * vz_bin_width \<le> z \<and> z \<le> minbin + (real i + 1) * vz_bin_width
      then minbin + (real i + 1/2) * vz_bin_width else find_bin z minbin (i + 1) n)"

definition find_vertex_bin :: "real \<Rightarrow> real" where
  "find_vertex_bin vz_true =
     (let Ntgtbins = CeilNint (Ltgt / vz_bin_width);
          minbin = - vz_bin_width * of_int Ntgtbins / 2
      in find_bin vz_true minbin 0 (nat Ntgtbins))"

section \<open>Prediction at the focal plane\<close>

text \<open>TVector3::Cross and Unit.\<close>

definition vcross :: "vec3 \<Rightarrow> vec3 \<Rightarrow> vec3" where
  "vcross a b = Vec (vy a * vz b - vz a * vy b) (vz a * vx b - vx a * vz b) (vx a * vy b - vy a * vx b)"

definition vunit :: "vec3 \<Rightarrow> vec3" where
  "vunit a = (if 0 < vmag2 a then (1 / sqrt (vmag2 a)) *\<^sub>R a else a)"

text \<open>pow() of <cmath>, where its result is a number.\<close>

definition c_pow :: "real \<Rightarrow> real \<Rightarrow> real option" where
  "c_pow x y = (if y = of_int \<lfloor>y\<rfloor> \<and> 0 \<le> y then Some (x ^ nat \<lfloor>y\<rfloor>)
     else if 0 < x then Some (x powr y)
     else if y = of_int \<lfloor>y\<rfloor> then c_div 1 (x ^ nat (- \<lfloor>y\<rfloor>))
     else if x = 0 \<and> 0 < y then Some 0 else None)"

definition c_asin :: "real \<Rightarrow> real option" where
  "c_asin x = (if -1 \<le> x \<and> x \<le> 1 then Some (arcsin x) else None)"

definition c_acos :: "real \<Rightarrow> real option" where
  "c_acos x = (if -1 \<le> x \<and> x \<le> 1 then Some (arccos x) else None)"

definition c_root :: "real \<Rightarrow> real option" where
  "c_root x = (if x < 0 then None else Some (sqrt x))"

definition atan2 :: "real \<Rightarrow> real \<Rightarrow> real" where
  "atan2 y x = (if 0 < x then arctan (y / x)
     else if x < 0 then (if 0 \<le> y then arctan (y / x) + pi else arctan (y / x) - pi)
     else if 0 < y then pi / 2 else if y < 0 then - pi / 2 else 0)"

definition th_earm :: real where "th_earm = 29 * pi / 180"
definition z_earm :: "real list" where "z_earm = [4.5, 4.08, 4.13]"
definition th_sbs :: real where "th_sbs = 16.9 * pi / 180"
definition k0 :: real where "k0 = 11"

definition ECAL_zaxis :: vec3 where "ECAL_zaxis = Vec (sin th_earm) 0 (cos th_earm)"
definition ECAL_yaxis :: vec3 where "ECAL_yaxis = Vec 0 1 0"
definition ECAL_xaxis :: vec3 where "ECAL_xaxis = vunit (vcross ECAL_yaxis ECAL_zaxis)"
definition SBS_zaxis :: vec3 where "SBS_zaxis = Vec (- sin th_sbs) 0 (cos th_sbs)"
definition SBS_xaxis :: vec3 where "SBS_xaxis = Vec 0 (-1) 0"
definition SBS_yaxis :: vec3 where "SBS_yaxis = vunit (vcross SBS_zaxis SBS_xaxis)"

text \<open>The points of the fit: vertex, one point per CDet plane, shower.  A CDet cluster that is not
  properly reconstructed ends the event: the result is then False.\<close>

fun cdet_points :: "scint_cluster list \<Rightarrow> fitpoint list \<Rightarrow> (bool \<times> fitpoint list) option" where
  "cdet_points [] pts = Some (True, pts)"
| "cdet_points (c # cs) pts =
     (if ecDetFlag c \<noteq> 31 \<or> ecEnergy c \<le> 0 then Some (False, pts)
      else do {
        x \<leftarrow> ecXPos c; y \<leftarrow> ecYPos c; z \<leftarrow> rdi z_earm (scPlane c);
        cdet_points cs (pts @ [(x, y - yoff_ECAL, z, 1 / Lx_scint_CDET\<^sup>2, 1 / sigy_CDET\<^sup>2)]) })"

definition vertex_point :: "vec3 \<Rightarrow> fitpoint" where
  "vertex_point vertex = (vdot vertex ECAL_xaxis, vdot vertex ECAL_yaxis, vdot vertex ECAL_zaxis,
     1 / 0.001\<^sup>2, 1 / 0.001\<^sup>2)"

definition shower_point :: "real \<Rightarrow> real \<Rightarrow> real \<Rightarrow> fitpoint" where
  "shower_point xECal yECal z = (xECal, yECal - yoff_ECAL, z, 1 / sigx_ECAL\<^sup>2, 1 / sigy_ECAL\<^sup>2)"

text \<open>Proton momentum and polar angle from the polar angle of the electron.\<close>

definition proton :: "real \<Rightarrow> (real \<times> real) option" where
  "proton thetak = do {
     kp \<leftarrow> c_div (k0 * Mp) (k0 * (1 - cos thetak) + Mp);
     pp \<leftarrow> c_root ((k0 - kp + Mp)\<^sup>2 - Mp\<^sup>2);
     s \<leftarrow> c_div (kp * sin thetak) pp;
     thetap \<leftarrow> c_asin s;
     Some (pp, thetap) }"

text \<open>Slopes and offset of the proton at the target: xptar, yptar, ytar and the momentum.\<close>

definition proton_at_target :: "vec3 \<Rightarrow> real \<Rightarrow> real \<Rightarrow> (real \<times> real \<times> real \<times> real) option" where
  "proton_at_target vertex eXp eYp = do {
     let ehat = vunit (Vec eXp eYp 1);
     let eglob = vx ehat *\<^sub>R ECAL_xaxis + vy ehat *\<^sub>R ECAL_yaxis + vz ehat *\<^sub>R ECAL_zaxis;
     thetak \<leftarrow> c_acos (vz eglob);
     let phik = atan2 (vy eglob) (vx eglob);
     let phip = phik + pi;
     (pp, thetap) \<leftarrow> proton thetak;
     let pvect = Vec (pp * sin thetap * cos phip) (pp * sin thetap * sin phip) (pp * cos thetap);
     let psbs = Vec (vdot pvect SBS_xaxis) (vdot pvect SBS_yaxis) (vdot pvect SBS_zaxis);
     xptar \<leftarrow> c_div (vx psbs) (vz psbs);
     yptar \<leftarrow> c_div (vy psbs) (vz psbs);
     let ytar = vdot vertex SBS_yaxis - yptar * vdot vertex SBS_zaxis;
     Some (xptar, yptar, ytar, pp) }"

text \<open>The forward optics, term by term; xtar is 0.\<close>

fun optics_terms ::
  "dbm \<Rightarrow> real \<Rightarrow> real \<Rightarrow> real \<Rightarrow> real \<Rightarrow> int \<Rightarrow> nat \<Rightarrow> real \<times> real \<times> real \<times> real \<Rightarrow> (real \<times> real \<times> real \<times> real) option" where
  "optics_terms m xptar yptar ytar pp i 0 fp = Some fp"
| "optics_terms m xptar yptar ytar pp i (Suc n) fp = do {
     r \<leftarrow> c_div 1 pp;
     p8 \<leftarrow> c_pow xptar (GetOpticsCoeff m 8 i);
     p7 \<leftarrow> c_pow yptar (GetOpticsCoeff m 7 i);
     p6 \<leftarrow> c_pow ytar (GetOpticsCoeff m 6 i);
     p5 \<leftarrow> c_pow r (GetOpticsCoeff m 5 i);
     p4 \<leftarrow> c_pow 0 (GetOpticsCoeff m 4 i);
     let fterm = p8 * p7 * p6 * p5 * p4;
     let (xfp, yfp, xpfp, ypfp) = fp;
     optics_terms m xptar yptar ytar pp (i + 1) n
       (xfp + fterm * GetOpticsCoeff m 0 i, yfp + fterm * GetOpticsCoeff m 1 i,
        xpfp + fterm * GetOpticsCoeff m 2 i, ypfp + fterm * GetOpticsCoeff m 3 i) }"

text \<open>A calorimeter cluster of the electron arm: the points of the fit and the predicted positions of
  the proton at two planes, or None inside if the event ends.  The vectors of points are declared
  before the loop over the clusters and never cleared: pts holds the points of the clusters before.\<close>

definition predict_proton ::
  "(mat4 \<Rightarrow> mat4) \<Rightarrow> shower_profiles \<Rightarrow> dbm \<Rightarrow> simtrack \<Rightarrow> scint_cluster list \<Rightarrow> ecal_cluster
    \<Rightarrow> fitpoint list \<Rightarrow> (fitpoint list \<times> (real \<times> real) \<times> (real \<times> real)) option option" where
  "predict_proton invert pr m trk scint c pts = do {
     x \<leftarrow> ecXPos c; y \<leftarrow> ecYPos c;
     let xmom = (x - ecXMax c) / ECAL_max_cell_size;
     let ymom = (y - ecYMax c) / ECAL_max_cell_size;
     z \<leftarrow> rd z_earm 0;
     (xECal, yECal) \<leftarrow> Calc_Shower_Coordinates pr xmom ymom (ecXMax c) (ecYMax c) (ecEnergy c) z;
     let vertex = Vec 0 0 (find_vertex_bin (vz (tkOriginAtTarget trk)));
     (good, pts) \<leftarrow> cdet_points scint (pts @ [vertex_point vertex]);
     if \<not> good then Some None
     else do {
       let pts = pts @ [shower_point xECal yECal z];
       (eX, eY, eXp, eYp) \<leftarrow> Fit_3D_Track invert pts;
       (xptar, yptar, ytar, pp) \<leftarrow> proton_at_target vertex eXp eYp;
       (xfp, yfp, xpfp, ypfp) \<leftarrow> optics_terms m xptar yptar ytar pp 0 (nat (dbNOpticsTerms m)) (0, 0, 0, 0);
       Some (Some (pts, (xfp, yfp), (xfp + 0.48191 * xpfp, yfp + 0.48191 * ypfp))) } }"

section \<open>The fit minimises the distance\<close>

type_synonym fitline = "real \<times> real \<times> real \<times> real"  \<comment> \<open>X, Y, Xp, Yp\<close>

definition chi2 :: "fitpoint list \<Rightarrow> fitline \<Rightarrow> real" where
  "chi2 pts l = (case l of (X, Y, Xp, Yp) \<Rightarrow>
     (\<Sum>(x, y, z, wx, wy) \<leftarrow> pts. wx * (x - (X + Xp * z))\<^sup>2 + wy * (y - (Y + Yp * z))\<^sup>2))"

lemma foldl_sum: "foldl (\<lambda>s p. s + f p) a ps = a + sum_list (map f ps)" for f :: "'a \<Rightarrow> real"
  by (induction ps arbitrary: a) auto

lemma point_sum_list: "point_sum f ps = sum_list (map f ps)"
  by (simp add: point_sum_def foldl_sum)

text \<open>One coordinate: v with weight w against z.\<close>

definition sq_dev :: "('a \<Rightarrow> real) \<Rightarrow> ('a \<Rightarrow> real) \<Rightarrow> ('a \<Rightarrow> real) \<Rightarrow> 'a list \<Rightarrow> real \<Rightarrow> real \<Rightarrow> real" where
  "sq_dev v z w ps a b = (\<Sum>p \<leftarrow> ps. w p * (v p - (a + b * z p))\<^sup>2)"

lemma sq_dev_expand:
  "sq_dev v z w ps a b = (\<Sum>p \<leftarrow> ps. w p * (v p)\<^sup>2) - 2 * a * (\<Sum>p \<leftarrow> ps. w p * v p) - 2 * b * (\<Sum>p \<leftarrow> ps. w p * v p * z p)
    + a\<^sup>2 * (\<Sum>p \<leftarrow> ps. w p) + 2 * a * b * (\<Sum>p \<leftarrow> ps. w p * z p) + b\<^sup>2 * (\<Sum>p \<leftarrow> ps. w p * (z p)\<^sup>2)"
  unfolding sq_dev_def by (induction ps) (simp_all add: power2_eq_square algebra_simps)

lemma sq_dev_normal:
  assumes "(\<Sum>p \<leftarrow> ps. w p * v p) = a * (\<Sum>p \<leftarrow> ps. w p) + b * (\<Sum>p \<leftarrow> ps. w p * z p)"
    "(\<Sum>p \<leftarrow> ps. w p * v p * z p) = a * (\<Sum>p \<leftarrow> ps. w p * z p) + b * (\<Sum>p \<leftarrow> ps. w p * (z p)\<^sup>2)"
  shows "sq_dev v z w ps a' b' = sq_dev v z w ps a b + sq_dev (\<lambda>_. 0) z w ps (a' - a) (b' - b)"
  unfolding sq_dev_expand assms by (simp add: power2_eq_square algebra_simps)

lemma sq_dev_nonneg: "\<forall>p \<in> set ps. 0 < w p \<Longrightarrow> 0 \<le> sq_dev v z w ps a b"
  unfolding sq_dev_def by (intro sum_list_nonneg) (auto simp: less_imp_le)

lemma sq_dev_zero:
  assumes "\<forall>p \<in> set ps. 0 < w p" "sq_dev v z w ps a b = 0"
  shows "\<forall>p \<in> set ps. v p = a + b * z p"
proof -
  have "\<forall>x \<in> set (map (\<lambda>p. w p * (v p - (a + b * z p))\<^sup>2) ps). x = 0"
    using assms by (subst sum_list_nonneg_eq_0_iff [symmetric]) (auto simp: sq_dev_def less_imp_le)
  then show ?thesis using assms(1) by force
qed

lemma two_points:
  fixes a b :: real
  assumes "\<forall>p \<in> set ps. 0 = a + b * z p" "p \<in> set ps" "q \<in> set ps" "z p \<noteq> z q"
  shows "a = 0 \<and> b = 0"
proof -
  have "a + b * z p = 0" "a + b * z q = 0" using assms by auto
  moreover have "b * (z p - z q) = (a + b * z p) - (a + b * z q)" by (simp add: algebra_simps)
  ultimately have "b * (z p - z q) = 0" by simp
  then show ?thesis using assms(4) \<open>a + b * z p = 0\<close> by simp
qed

text \<open>The points as the fit needs them: at least two, with positive weights, at two different z.\<close>

definition ptX :: "fitpoint \<Rightarrow> real" where "ptX p = fst p"
definition ptY :: "fitpoint \<Rightarrow> real" where "ptY p = fst (snd p)"
definition ptZ :: "fitpoint \<Rightarrow> real" where "ptZ p = fst (snd (snd p))"
definition ptWx :: "fitpoint \<Rightarrow> real" where "ptWx p = fst (snd (snd (snd p)))"
definition ptWy :: "fitpoint \<Rightarrow> real" where "ptWy p = snd (snd (snd (snd p)))"

definition fittable :: "fitpoint list \<Rightarrow> bool" where
  "fittable pts \<longleftrightarrow> (\<forall>p \<in> set pts. 0 < ptWx p \<and> 0 < ptWy p) \<and> (\<exists>p \<in> set pts. \<exists>q \<in> set pts. ptZ p \<noteq> ptZ q)"

lemma chi2_split:
  "chi2 pts (X, Y, Xp, Yp) = sq_dev ptX ptZ ptWx pts X Xp + sq_dev ptY ptZ ptWy pts Y Yp"
  unfolding chi2_def sq_dev_def
  by (induction pts) (auto simp: ptX_def ptY_def ptZ_def ptWx_def ptWy_def)

lemma fit_sums:
  "fit_matrix pts = [[\<Sum>p \<leftarrow> pts. ptWx p, 0, \<Sum>p \<leftarrow> pts. ptWx p * ptZ p, 0], [0, \<Sum>p \<leftarrow> pts. ptWy p, 0, \<Sum>p \<leftarrow> pts. ptWy p * ptZ p],
     [\<Sum>p \<leftarrow> pts. ptWx p * ptZ p, 0, \<Sum>p \<leftarrow> pts. ptWx p * (ptZ p)\<^sup>2, 0], [0, \<Sum>p \<leftarrow> pts. ptWy p * ptZ p, 0, \<Sum>p \<leftarrow> pts. ptWy p * (ptZ p)\<^sup>2]]"
  "fit_vector pts = [\<Sum>p \<leftarrow> pts. ptWx p * ptX p, \<Sum>p \<leftarrow> pts. ptWy p * ptY p,
     \<Sum>p \<leftarrow> pts. ptWx p * ptX p * ptZ p, \<Sum>p \<leftarrow> pts. ptWy p * ptY p * ptZ p]"
  by (simp_all add: fit_matrix_def fit_vector_def point_sum_list ptX_def ptY_def ptZ_def ptWx_def ptWy_def Let_def
      case_prod_unfold)

text \<open>A matrix is regular if it maps no vector but 0 to 0.  What TMatrixD::Invert promises: the product
  of a regular matrix and its inverse is the identity.\<close>

definition regular :: "mat4 \<Rightarrow> bool" where
  "regular A \<longleftrightarrow> (\<forall>a b c d. mat4_vec A [a, b, c, d] = [0, 0, 0, 0] \<longrightarrow> a = 0 \<and> b = 0 \<and> c = 0 \<and> d = 0)"

definition inverts :: "(mat4 \<Rightarrow> mat4) \<Rightarrow> mat4 \<Rightarrow> bool" where
  "inverts invert A \<longleftrightarrow> (regular A \<longrightarrow> (\<forall>v. length v = 4 \<longrightarrow> length (mat4_vec (invert A) v) = 4 \<and> mat4_vec A (mat4_vec (invert A) v) = v))"

lemma fit_regular:
  assumes "fittable pts" shows "regular (fit_matrix pts)"
  unfolding regular_def
proof (intro allI impI)
  fix a b c d :: real
  assume z: "mat4_vec (fit_matrix pts) [a, b, c, d] = [0, 0, 0, 0]"
  have x: "0 = a * (\<Sum>p \<leftarrow> pts. ptWx p) + c * (\<Sum>p \<leftarrow> pts. ptWx p * ptZ p)"
      "0 = a * (\<Sum>p \<leftarrow> pts. ptWx p * ptZ p) + c * (\<Sum>p \<leftarrow> pts. ptWx p * (ptZ p)\<^sup>2)"
      "0 = b * (\<Sum>p \<leftarrow> pts. ptWy p) + d * (\<Sum>p \<leftarrow> pts. ptWy p * ptZ p)"
      "0 = b * (\<Sum>p \<leftarrow> pts. ptWy p * ptZ p) + d * (\<Sum>p \<leftarrow> pts. ptWy p * (ptZ p)\<^sup>2)"
    using z by (simp_all add: fit_sums mat4_vec_def mult.commute add.commute)
  have "sq_dev (\<lambda>_. 0) ptZ ptWx pts 0 0 = 0" "sq_dev (\<lambda>_. 0) ptZ ptWy pts 0 0 = 0" by (simp_all add: sq_dev_def)
  then have s: "sq_dev (\<lambda>_. 0) ptZ ptWx pts (0 - a) (0 - c) = - sq_dev (\<lambda>_. 0) ptZ ptWx pts a c"
     "sq_dev (\<lambda>_. 0) ptZ ptWy pts (0 - b) (0 - d) = - sq_dev (\<lambda>_. 0) ptZ ptWy pts b d"
    using sq_dev_normal [of ptWx "\<lambda>_. 0" pts a c ptZ 0 0] sq_dev_normal [of ptWy "\<lambda>_. 0" pts b d ptZ 0 0] x by simp_all
  have w: "\<forall>p \<in> set pts. 0 < ptWx p" "\<forall>p \<in> set pts. 0 < ptWy p" using assms by (auto simp: fittable_def)
  have "sq_dev (\<lambda>_. 0) ptZ ptWx pts a c = 0" "sq_dev (\<lambda>_. 0) ptZ ptWy pts b d = 0"
    using s sq_dev_nonneg [OF w(1), of "\<lambda>_. 0" ptZ] sq_dev_nonneg [OF w(2), of "\<lambda>_. 0" ptZ] by (smt (verit))+
  then have "\<forall>p \<in> set pts. 0 = a + c * ptZ p" "\<forall>p \<in> set pts. 0 = b + d * ptZ p"
    using sq_dev_zero [OF w(1)] sq_dev_zero [OF w(2)] by blast+
  then show "a = 0 \<and> b = 0 \<and> c = 0 \<and> d = 0" using two_points [of pts _ _ ptZ] assms unfolding fittable_def by blast
qed

text \<open>C19. The straight-line fit of the electron arm is the least-squares fit: for points with positive
  weights at two or more different z the matrix of the normal equations is regular, a line is returned,
  and every other line has a larger weighted sum of squared distances.\<close>

theorem Fit_3D_least_squares:
  assumes "fittable pts" "inverts invert (fit_matrix pts)"
  shows "\<exists>l. Fit_3D_Track invert pts = Some l \<and> (\<forall>l'. l' \<noteq> l \<longrightarrow> chi2 pts l < chi2 pts l')"
proof -
  let ?v = "mat4_vec (invert (fit_matrix pts)) (fit_vector pts)"
  have "length (fit_vector pts) = 4" by (simp add: fit_vector_def)
  then have i: "length ?v = 4" "mat4_vec (fit_matrix pts) ?v = fit_vector pts"
    using assms(2) fit_regular [OF assms(1)] by (auto simp: inverts_def)
  then obtain X Y Xp Yp where v: "?v = [X, Y, Xp, Yp]" by (auto simp: numeral_eq_Suc length_Suc_conv)
  have n: "(\<Sum>p \<leftarrow> pts. ptWx p * ptX p) = X * (\<Sum>p \<leftarrow> pts. ptWx p) + Xp * (\<Sum>p \<leftarrow> pts. ptWx p * ptZ p)"
      "(\<Sum>p \<leftarrow> pts. ptWx p * ptX p * ptZ p) = X * (\<Sum>p \<leftarrow> pts. ptWx p * ptZ p) + Xp * (\<Sum>p \<leftarrow> pts. ptWx p * (ptZ p)\<^sup>2)"
      "(\<Sum>p \<leftarrow> pts. ptWy p * ptY p) = Y * (\<Sum>p \<leftarrow> pts. ptWy p) + Yp * (\<Sum>p \<leftarrow> pts. ptWy p * ptZ p)"
      "(\<Sum>p \<leftarrow> pts. ptWy p * ptY p * ptZ p) = Y * (\<Sum>p \<leftarrow> pts. ptWy p * ptZ p) + Yp * (\<Sum>p \<leftarrow> pts. ptWy p * (ptZ p)\<^sup>2)"
    using i(2) unfolding v by (simp_all add: fit_sums mat4_vec_def mult.commute)
  have "\<not> length pts < 2"
  proof
    assume "length pts < 2"
    then have "\<forall>p \<in> set pts. \<forall>q \<in> set pts. p = q" by (cases pts) auto
    then show False using assms(1) unfolding fittable_def by metis
  qed
  then have f: "Fit_3D_Track invert pts = Some (X, Y, Xp, Yp)" by (simp add: Fit_3D_Track_def v)
  have w: "\<forall>p \<in> set pts. 0 < ptWx p" "\<forall>p \<in> set pts. 0 < ptWy p" using assms(1) by (auto simp: fittable_def)
  have "chi2 pts (X, Y, Xp, Yp) < chi2 pts (X', Y', Xp', Yp')" if ne: "(X', Y', Xp', Yp') \<noteq> (X, Y, Xp, Yp)" for X' Y' Xp' Yp'
  proof -
    let ?dx = "sq_dev (\<lambda>_. 0) ptZ ptWx pts (X' - X) (Xp' - Xp)" and ?dy = "sq_dev (\<lambda>_. 0) ptZ ptWy pts (Y' - Y) (Yp' - Yp)"
    have e: "chi2 pts (X', Y', Xp', Yp') = chi2 pts (X, Y, Xp, Yp) + (?dx + ?dy)"
      unfolding chi2_split using sq_dev_normal [OF n(1,2), of X' Xp'] sq_dev_normal [OF n(3,4), of Y' Yp'] by simp
    have d: "0 \<le> ?dx" "0 \<le> ?dy" using sq_dev_nonneg w by blast+
    have "?dx + ?dy \<noteq> 0"
    proof
      assume "?dx + ?dy = 0"
      then have "?dx = 0" "?dy = 0" using d by linarith+
      then have "\<forall>p \<in> set pts. 0 = (X' - X) + (Xp' - Xp) * ptZ p" "\<forall>p \<in> set pts. 0 = (Y' - Y) + (Yp' - Yp) * ptZ p"
        using sq_dev_zero [OF w(1)] sq_dev_zero [OF w(2)] by blast+
      then have "X' - X = 0 \<and> Xp' - Xp = 0" "Y' - Y = 0 \<and> Yp' - Yp = 0"
        using two_points [of pts _ _ ptZ] assms(1) unfolding fittable_def by blast+
      then show False using ne by simp
    qed
    then show ?thesis using e d by linarith
  qed
  then show ?thesis using f by (intro exI [of _ "(X, Y, Xp, Yp)"]) auto
qed

theorem Fit_3D_least_squares_witness:
  "\<exists>l. Fit_3D_Track (\<lambda>_. [[1, 0, -1, 0], [0, 1, 0, -1], [-1, 0, 2, 0], [0, -1, 0, 2]]) [(1, 2, 0, 1, 1), (3, 1, 1, 1, 1)] = Some l
    \<and> (\<forall>l'. l' \<noteq> l \<longrightarrow> chi2 [(1, 2, 0, 1, 1), (3, 1, 1, 1, 1)] l < chi2 [(1, 2, 0, 1, 1), (3, 1, 1, 1, 1)] l')"
proof -
  let ?pts = "[(1, 2, 0, 1, 1), (3, 1, 1, 1, 1)] :: fitpoint list"
  let ?inv = "\<lambda>_ :: mat4. [[1, 0, -1, 0], [0, 1, 0, -1], [-1, 0, 2, 0], [0, -1, 0, 2]] :: mat4"
  have "ptZ (1, 2, 0, 1, 1) \<noteq> ptZ (3, 1, 1, 1, 1)" by (simp add: ptZ_def)
  moreover have "(1, 2, 0, 1, 1) \<in> set ?pts" "(3, 1, 1, 1, 1) \<in> set ?pts" by simp_all
  ultimately have "\<exists>p \<in> set ?pts. \<exists>q \<in> set ?pts. ptZ p \<noteq> ptZ q" by blast
  moreover have "\<forall>p \<in> set ?pts. 0 < ptWx p \<and> 0 < ptWy p" by (simp add: ptWx_def ptWy_def)
  ultimately have "fittable ?pts" unfolding fittable_def by blast
  moreover have "inverts ?inv (fit_matrix ?pts)"
    by (auto simp: inverts_def fit_sums mat4_vec_def ptWx_def ptWy_def ptZ_def numeral_eq_Suc length_Suc_conv)
  ultimately obtain l where "Fit_3D_Track ?inv ?pts = Some l" "\<forall>l'. l' \<noteq> l \<longrightarrow> chi2 ?pts l < chi2 ?pts l'"
    using Fit_3D_least_squares by blast
  then show ?thesis by blast
qed

section \<open>The shower stays in its cell\<close>

text \<open>A profile as the file gives it: a fraction between 0 and 1 at every edge of a bin.\<close>

definition profile_ok :: "shower_profile_t \<Rightarrow> bool" where
  "profile_ok p \<longleftrightarrow> 0 < spNbinsMom p \<and> spXmin p < spXmax p \<and> int (length (spFrac p)) = spNbinsMom p + 1
     \<and> (\<forall>f \<in> set (spFrac p). 0 \<le> f \<and> f \<le> 1)"

lemma between:
  fixes a b t :: real
  assumes "0 \<le> a" "a \<le> 1" "0 \<le> b" "b \<le> 1" "0 \<le> t" "t \<le> 1"
  shows "0 \<le> a + (b - a) * t \<and> a + (b - a) * t \<le> 1"
proof -
  have e: "a + (b - a) * t = a * (1 - t) + b * t" by (simp add: algebra_simps)
  have "a * (1 - t) \<le> 1 * (1 - t)" "b * t \<le> 1 * t" using assms by (intro mult_right_mono; simp)+
  then have "a * (1 - t) + b * t \<le> 1 * (1 - t) + 1 * t" by (rule add_mono)
  then have "a * (1 - t) + b * t \<le> 1" by simp
  moreover have "0 \<le> a * (1 - t)" "0 \<le> b * t" using assms by simp_all
  ultimately show ?thesis unfolding e by simp
qed

text \<open>C39. For a moment not below the range of its profile the shower coordinate is defined and lies
  within half a cell of the centre of the cell with the largest energy.\<close>

theorem shower_axis_in_cell:
  assumes "profile_ok p" "spXmin p \<le> mom"
    "(mom - spXmin p) / (spXmax p - spXmin p) * of_int (spNbinsMom p) < 2147483648"
  shows "\<exists>x. shower_axis p mom mx = Some x \<and> \<bar>x - mx\<bar> \<le> ECAL_max_cell_size / 2"
proof -
  let ?n = "spNbinsMom p" and ?d = "spXmax p - spXmin p"
  let ?q = "(mom - spXmin p) / ?d * of_int ?n"
  have p: "0 < ?n" "0 < ?d" using assms(1) by (simp_all add: profile_ok_def)
  have q: "0 \<le> ?q" using assms(2) p by simp
  then have b: "to_int32 ?q = Some \<lfloor>?q\<rfloor>" "0 \<le> \<lfloor>?q\<rfloor>"
    using assms(3) by (simp_all add: to_int32_def trunc_int_def Let_def)
  have C: "0 < ECAL_max_cell_size" by (simp add: ECAL_max_cell_size_def)
  show ?thesis
  proof (cases "\<lfloor>?q\<rfloor> < ?n")
    case False
    then have "shower_axis p mom mx = Some (mx + 1/2 * ECAL_max_cell_size)"
      using p b by (simp add: shower_axis_def c_div_def)
    then show ?thesis using C by simp
  next
    case True
    let ?k = "nat \<lfloor>?q\<rfloor>" and ?w = "?d / of_int ?n"
    have k: "?k + 1 < length (spFrac p)" using True b(2) assms(1) by (simp add: profile_ok_def) linarith
    define flo where "flo = spFrac p ! ?k"
    define fhi where "fhi = spFrac p ! (?k + 1)"
    have fr: "0 \<le> flo" "flo \<le> 1" "0 \<le> fhi" "fhi \<le> 1"
      using assms(1) k by (auto simp: flo_def fhi_def profile_ok_def)
    have r: "rdi (spFrac p) \<lfloor>?q\<rfloor> = Some flo" "rdi (spFrac p) (\<lfloor>?q\<rfloor> + 1) = Some fhi"
      using k b(2) by (simp_all add: flo_def fhi_def nat_add_distrib)
    define xlo where "xlo = spXmin p + of_int \<lfloor>?q\<rfloor> * ?w"
    have w: "0 < ?w" using p by simp
    have t: "(mom - xlo) / ?w = ?q - of_int \<lfloor>?q\<rfloor>" using p by (simp add: xlo_def field_simps)
    then have tt: "0 \<le> (mom - xlo) / ?w" "(mom - xlo) / ?w \<le> 1" by linarith+
    define f where "f = flo + (fhi - flo) * ((mom - xlo) / ?w)"
    have f: "0 \<le> f" "f \<le> 1" using between [OF fr tt] by (simp_all add: f_def)
    have "shower_axis p mom mx = Some (mx + (f - 1/2) * ECAL_max_cell_size)"
      using p b True r w order.strict_implies_not_eq [OF p(1)] by (simp del: rdi_Some add: shower_axis_def c_div_def Let_def f_def xlo_def)
    moreover have "\<bar>(f - 1/2) * ECAL_max_cell_size\<bar> \<le> 1/2 * ECAL_max_cell_size"
      unfolding abs_mult using f C by (intro mult_mono) (auto simp: abs_if)
    ultimately show ?thesis by simp
  qed
qed

definition profileEx :: shower_profile_t where
  "profileEx = \<lparr> spNbinsMom = 2, spXmin = 0, spXmax = 1, spFrac = [0, 1/4, 1] \<rparr>"

theorem shower_axis_in_cell_witness:
  "\<exists>x. shower_axis profileEx (3/4) 5 = Some x \<and> \<bar>x - 5\<bar> \<le> ECAL_max_cell_size / 2"
  by (rule shower_axis_in_cell) (simp_all add: profileEx_def profile_ok_def)

text \<open>Just below the range the conversion to int gives bin 0, not a negative bin: the coordinate is
  extrapolated and leaves the cell.\<close>

lemma shower_axis_below: "shower_axis profileEx (- 1/4) 5 = Some (5 + (- 1/8 - 1/2) * ECAL_max_cell_size)"
proof -
  have "to_int32 (- 1/2) = Some 0" by (simp add: to_int32_def trunc_int_def Let_def ceiling_unique)
  then show ?thesis by (simp add: shower_axis_def profileEx_def c_div_def rdi_def rd_def Let_def)
qed

section \<open>The vertex bin is near the vertex\<close>

lemma find_bin_near:
  assumes "minbin + real i * vz_bin_width \<le> z" "z \<le> minbin + real (i + n) * vz_bin_width"
  shows "\<bar>find_bin z minbin i n - z\<bar> \<le> vz_bin_width / 2"
  using assms
proof (induction n arbitrary: i)
  case (Suc n)
  show ?case
  proof (cases "z \<le> minbin + (real i + 1) * vz_bin_width")
    case True
    then have "find_bin z minbin i (Suc n) = minbin + (real i + 1/2) * vz_bin_width" using Suc.prems(1) by simp
    then show ?thesis using True Suc.prems(1) unfolding abs_le_iff by (simp add: algebra_simps)
  next
    case False
    then have "\<bar>find_bin z minbin (i + 1) n - z\<bar> \<le> vz_bin_width / 2"
      using Suc.prems by (intro Suc.IH) (simp_all add: algebra_simps)
    then show ?thesis using False by simp
  qed
qed (auto simp: vz_bin_width_def)

end
