(* ===== verification/Decoder.thy ===== *)
theory Decoder
  imports RocMap BitCount DigitizedPlane ECalArm
begin

text \<open>
  TSBSSimDecoder, src/src/TSBSSimDecoder.h and .cxx: unpacking an event into the crate and slot
  data, the truth information of a strip, and the record of the primary particle.

  The analyzer (Podd) is not part of the repository.  Its crate and slot data are an abstract
  state with loadData, clearEvent and the initialization of the crate map as parameters; so are the
  sorting of the track points, the particle masses, TVector3::Angle and the integer with the bits
  of a Float\_t.  Benchmark counters and the names of the global variables are not modelled.
\<close>

section \<open>Hits, points and tracks\<close>

record simgemhit =
  sgID :: int
  sgSector :: int
  sgPlane :: int
  sgModule :: int
  sgRealSector :: "int option"
  sgSource :: int
  sgType :: int
  sgPID :: int
  sgP :: vec3
  sgXEntry :: vec3
  sgMCpos :: vec3
  sgHitpos :: vec3
  sgCharge :: real
  sgTime :: real
  sgUSize :: int
  sgUStart :: int
  sgUPos :: real
  sgVSize :: int
  sgVStart :: int
  sgVPos :: real

text \<open>The arrays of a cluster have two elements.  fRealSector is not set from the cluster: None.\<close>

definition TSBSSimGEMHit :: "gemcluster \<Rightarrow> simgemhit option" where
  "TSBSSimGEMHit c = do {
     us \<leftarrow> rd (gcSize c) 0; vs \<leftarrow> rd (gcSize c) 1;
     ust \<leftarrow> rd (gcStart c) 0; vst \<leftarrow> rd (gcStart c) 1;
     up \<leftarrow> rd (gcXProj c) 0; vp \<leftarrow> rd (gcXProj c) 1;
     Some \<lparr> sgID = gcID c, sgSector = gcSector c, sgPlane = gcPlane c, sgModule = gcModule c, sgRealSector = None,
            sgSource = gcSource c, sgType = gcType c, sgPID = gcPID c, sgP = gcP c, sgXEntry = gcXEntry c,
            sgMCpos = gcMCpos c, sgHitpos = gcHitpos c, sgCharge = gcCharge c, sgTime = gcTime c,
            sgUSize = us, sgUStart = ust, sgUPos = up, sgVSize = vs, sgVStart = vst, sgVPos = vp \<rparr> }"

text \<open>The members of MCTrackPoint that are used; a difference that was not computed is None.\<close>

record mcpoint =
  ptMCTrack :: int
  ptPlane :: int
  ptType :: int
  ptMCPoint :: vec3
  ptMCP :: vec3
  ptMCTime :: real
  ptDigitized :: bool
  ptDeltaE :: "real option"
  ptDeflect :: "real option"
  ptToF :: "real option"

definition MCTrackPoint :: "int \<Rightarrow> int \<Rightarrow> int \<Rightarrow> vec3 \<Rightarrow> vec3 \<Rightarrow> mcpoint" where
  "MCTrackPoint mctrk plane ty point momentum =
     \<lparr> ptMCTrack = mctrk, ptPlane = plane, ptType = ty, ptMCPoint = point, ptMCP = momentum, ptMCTime = 0,
       ptDigitized = False, ptDeltaE = None, ptDeflect = None, ptToF = None \<rparr>"

record backtrack =
  btType :: int
  btPID :: int
  btSector :: int
  btSource :: int
  btOrigin :: vec3
  btHitpos :: vec3
  btMomentum :: vec3
  btHitBits :: "32 word"
  btUfailBits :: "32 word"
  btVfailBits :: "32 word"

definition kPrimaryType :: int where "kPrimaryType = 1"
definition kPrimarySource :: int where "kPrimarySource = 0"
definition kXPlane :: int where "kXPlane = 2"
definition kYPlane :: int where "kYPlane = 3"

text \<open>SETBIT of a 32-bit word; bits above the word are lost.\<close>

definition SETBIT :: "32 word \<Rightarrow> int \<Rightarrow> 32 word" where
  "SETBIT w i = set_bit (nat i) w"

text \<open>Update leaves the position at the origin when the point is not behind the first plane.\<close>

definition bt_Update :: "dbm \<Rightarrow> gemcluster \<Rightarrow> backtrack \<Rightarrow> (int \<times> backtrack) option" where
  "bt_Update m c b =
     (if 0 < gcPlane c then do {
        z0 \<leftarrow> var_double (dbVars m ''z0'');
        let dz = vz (gcMCpos c) - z0;
        if dz \<le> 0 then Some (-2, b)
        else Some (0, b \<lparr> btOrigin := gcMCpos c - dz *\<^sub>R vunit (gcP c), btHitpos := gcHitpos c,
                         btMomentum := gcP c \<rparr>) }
      else Some (0, b \<lparr> btOrigin := gcMCpos c, btHitpos := gcHitpos c, btMomentum := gcP c \<rparr>))"

definition TSBSSimBackTrack :: "dbm \<Rightarrow> gemcluster \<Rightarrow> backtrack option" where
  "TSBSSimBackTrack m c = do {
     (r, b) \<leftarrow> bt_Update m c \<lparr> btType = gcType c, btPID = gcPID c, btSector = gcSector c, btSource = gcSource c,
        btOrigin = 0, btHitpos = 0, btMomentum = 0, btHitBits = 0, btUfailBits = 0, btVfailBits = 0 \<rparr>;
     Some (b \<lparr> btHitBits := SETBIT (btHitBits b) (gcPlane c) \<rparr>) }"

section \<open>The decoder\<close>

datatype hed = HED_OK | HED_ERR | HED_FATAL

text \<open>The analyzer: initialization of crate map and slots, clearing the slots, loading raw value
  and data into a channel (None: SD\_ERR), and the functions named in the introduction.\<close>

record 's podd =
  pdInit :: "'s \<Rightarrow> hed \<times> 's"
  pdClearSlots :: "'s \<Rightarrow> 's"
  pdLoadData :: "int \<Rightarrow> int \<Rightarrow> int \<Rightarrow> int \<Rightarrow> int \<Rightarrow> 's \<Rightarrow> 's option"
  pdSort :: "mcpoint list \<Rightarrow> mcpoint list"
  pdMass :: "int \<Rightarrow> real option"
  pdAngle :: "vec3 \<Rightarrow> vec3 \<Rightarrow> real"
  pdFloatBits :: "real \<Rightarrow> int"
  pdInvert4 :: "mat4 \<Rightarrow> mat4"
  pdMaxSlot :: int

text \<open>fNHits and fHitBits are those of the first track.  fNeedInit covers first\_decode.\<close>

record 's decoder =
  dcNeedInit :: bool
  dcSlots :: 's
  dcStripMap :: stripmap
  dcMCHits :: "simgemhit list"
  dcMCTracks :: "simtrack list"
  dcMCPoints :: "mcpoint list"
  dcBackTracks :: "backtrack list"
  dcNHits :: int
  dcHitBits :: "32 word"
  dcWeight :: real
  dcEventNum :: int
  dcSignalInfo :: "(int \<times> int) list"
  dcProfiles :: shower_profiles

definition dc_Clear :: "'s decoder \<Rightarrow> 's decoder" where
  "dc_Clear d = d \<lparr> dcMCHits := [], dcMCTracks := [], dcMCPoints := [], dcBackTracks := [], dcStripMap := Map.empty \<rparr>"

section \<open>Loading the strips\<close>

fun load_samples :: "'s podd \<Rightarrow> int \<Rightarrow> int \<Rightarrow> int \<Rightarrow> int list \<Rightarrow> 's \<Rightarrow> bool \<times> 's" where
  "load_samples P crate slot chan [] s = (True, s)"
| "load_samples P crate slot chan (adc # adcs) s =
     (case pdLoadData P crate slot chan adc adc s of None \<Rightarrow> (False, s)
      | Some s \<Rightarrow> load_samples P crate slot chan adcs s)"

text \<open>The strip with number i and those after it.  A key that is already taken fails an assert.\<close>

fun load_strips :: "'s podd \<Rightarrow> dbm \<Rightarrow> nat \<Rightarrow> gemstrip list \<Rightarrow> stripmap \<times> 's \<Rightarrow> (hed \<times> stripmap \<times> 's) option" where
  "load_strips P m i [] (fStripMap, s) = Some (HED_OK, fStripMap, s)"
| "load_strips P m i (st # sts) (fStripMap, s) = do {
     (crate, slot, chan) \<leftarrow> StripToROCD (pdMaxSlot P) m (gsPlane st) (gsModule st) (gsProj st) (gsChan st);
     let (good, s) = load_samples P crate slot chan (take (gsNsamp st) (gsADC st)) s;
     if \<not> good then Some (HED_ERR, fStripMap, s)
     else do {
       key \<leftarrow> MakeROCKey (pdMaxSlot P) m crate slot chan;
       if fStripMap key \<noteq> None then None
       else load_strips P m (i + 1) sts (fStripMap(key \<mapsto> i), s) } }"

section \<open>Loading the clusters\<close>

record clusterstate =
  csHits :: "simgemhit list"
  csPoints :: "mcpoint list"
  csBest :: int
  csBestPlane :: int
  csHitbits :: "32 word"
  csUfail :: "32 word"
  csVfail :: "32 word"

definition is_primary :: "gemcluster \<Rightarrow> bool" where
  "is_primary c \<longleftrightarrow> gcType c = kPrimaryType \<and> gcSource c = kPrimarySource"

definition load_cluster :: "int \<Rightarrow> int \<Rightarrow> gemcluster \<Rightarrow> clusterstate \<Rightarrow> clusterstate option" where
  "load_cluster itrack i c s = do {
     h \<leftarrow> TSBSSimGEMHit c;
     let s = s \<lparr> csHits := csHits s @ [h] \<rparr>;
     if \<not> is_primary c then Some s
     else do {
       u \<leftarrow> rd (gcSize c) 0; v \<leftarrow> rd (gcSize c) 1;
       let upt = (MCTrackPoint itrack (gcPlane c) kXPlane (gcMCpos c) (gcP c))
             \<lparr> ptMCTime := gcTime c, ptDigitized := (u \<noteq> 0) \<rparr>;
       let vpt = (MCTrackPoint itrack (gcPlane c) kYPlane (gcMCpos c) (gcP c))
             \<lparr> ptMCTime := gcTime c, ptDigitized := (v \<noteq> 0) \<rparr>;
       let s = s \<lparr> csPoints := csPoints s @ [upt, vpt], csHitbits := SETBIT (csHitbits s) (gcPlane c) \<rparr>;
       let s = (if gcPlane c < csBestPlane s then s \<lparr> csBest := i, csBestPlane := gcPlane c \<rparr> else s);
       let s = (if u = 0 then s \<lparr> csUfail := SETBIT (csUfail s) (gcPlane c) \<rparr> else s);
       let s = (if v = 0 then s \<lparr> csVfail := SETBIT (csVfail s) (gcPlane c) \<rparr> else s);
       Some s } }"

fun load_clusters :: "dbm \<Rightarrow> int \<Rightarrow> int \<Rightarrow> gemcluster list \<Rightarrow> clusterstate \<Rightarrow> (hed \<times> clusterstate) option" where
  "load_clusters m itrack i [] s = Some (HED_OK, s)"
| "load_clusters m itrack i (c # cs) s =
     (if gcPlane c < 0 \<or> dbNChamber m \<le> gcPlane c then Some (HED_FATAL, s)
      else do { s \<leftarrow> load_cluster itrack i c s; load_clusters m itrack (i + 1) cs s })"

text \<open>Energy loss, deflection and time of flight from plane to plane, for the sorted points.\<close>

definition point_step :: "'s podd \<Rightarrow> real \<Rightarrow> mcpoint option \<Rightarrow> mcpoint \<Rightarrow> mcpoint option" where
  "point_step P mass prev pt =
     (case prev of None \<Rightarrow> Some pt
      | Some pv \<Rightarrow>
          if ptType pv = ptType pt then
            (if ptMCTrack pt \<noteq> ptMCTrack pv then None
             else if ptPlane pv + 1 = ptPlane pt then
               Some (pt \<lparr> ptDeltaE := Some (sqrt (vmag2 (ptMCP pv) + mass * mass) - sqrt (vmag2 (ptMCP pt) + mass * mass)),
                        ptDeflect := Some (pdAngle P (ptMCP pv) (ptMCP pt)),
                        ptToF := Some (ptMCTime pt - ptMCTime pv) \<rparr>)
             else Some pt)
          else Some pt)"

fun point_steps :: "'s podd \<Rightarrow> real \<Rightarrow> mcpoint option \<Rightarrow> mcpoint list \<Rightarrow> mcpoint list option" where
  "point_steps P mass prev [] = Some []"
| "point_steps P mass prev (pt # pts) = do {
     pt \<leftarrow> point_step P mass prev pt;
     pts \<leftarrow> point_steps P mass (Some pt) pts;
     Some (pt # pts) }"

section \<open>Calorimeter data\<close>

text \<open>A list of channels is loaded in order up to the first error.\<close>

fun load_list :: "'s podd \<Rightarrow> (int \<times> int \<times> int) list \<Rightarrow> int \<Rightarrow> int \<Rightarrow> 's \<Rightarrow> hed \<times> 's" where
  "load_list P [] x y s = (HED_OK, s)"
| "load_list P ((crate, slot, chan) # cs) x y s =
     (case pdLoadData P crate slot chan x y s of None \<Rightarrow> (HED_ERR, s) | Some s \<Rightarrow> load_list P cs x y s)"

text \<open>Flag 10: a BigBite or HCal cluster, stored with its position.  Flag 12: an ECal cluster of the
  electron arm, stored with the predicted positions of the proton.\<close>

definition load_calo_cluster ::
  "'s podd \<Rightarrow> shower_profiles \<Rightarrow> dbm \<Rightarrow> simtrack \<Rightarrow> scint_cluster list \<Rightarrow> ecal_cluster \<Rightarrow> fitpoint list \<Rightarrow> 's
    \<Rightarrow> (hed \<times> fitpoint list \<times> 's) option" where
  "load_calo_cluster P pr m trk scint c pts s = do {
     thr \<leftarrow> var_double (dbVars m ''calo_thr'');
     if ecDetFlag c = 10 \<and> thr \<le> ecEnergy c then do {
       x \<leftarrow> ecXPos c; y \<leftarrow> ecYPos c;
       let (ret, s) = load_list P [(2, 0, 0), (2, 1, 0)] (pdFloatBits P x) (pdFloatBits P y) s;
       Some (ret, pts, s) }
     else if ecDetFlag c = 12 \<and> thr \<le> ecEnergy c then do {
       r \<leftarrow> predict_proton (pdInvert4 P) pr m trk scint c pts;
       case r of None \<Rightarrow> Some (HED_ERR, pts, s)
       | Some (pts, (x, y), (x2, y2)) \<Rightarrow>
           (let (ret, s) = load_list P [(4, 0, 0), (4, 0, 1)] (pdFloatBits P x) (pdFloatBits P y) s in
            if ret \<noteq> HED_OK then Some (ret, pts, s)
            else (let (ret, s) = load_list P [(4, 0, 2), (4, 0, 3)] (pdFloatBits P x2) (pdFloatBits P y2) s in
              Some (ret, pts, s))) }
     else Some (HED_OK, pts, s) }"

fun load_calo ::
  "'s podd \<Rightarrow> shower_profiles \<Rightarrow> dbm \<Rightarrow> simtrack \<Rightarrow> scint_cluster list \<Rightarrow> ecal_cluster list \<Rightarrow> fitpoint list \<Rightarrow> 's
    \<Rightarrow> (hed \<times> fitpoint list \<times> 's) option" where
  "load_calo P pr m trk scint [] pts s = Some (HED_OK, pts, s)"
| "load_calo P pr m trk scint (c # cs) pts s = do {
     (ret, pts, s) \<leftarrow> load_calo_cluster P pr m trk scint c pts s;
     if ret \<noteq> HED_OK then Some (ret, pts, s) else load_calo P pr m trk scint cs pts s }"

section \<open>Loading an event\<close>

text \<open>True if the energy of the first calorimeter cluster is too small.\<close>

definition below_threshold :: "dbm \<Rightarrow> simevent \<Rightarrow> bool option" where
  "below_threshold m e = do {
     let E_evt = (case evECalClusters e of [] \<Rightarrow> 0 | c # _ \<Rightarrow> ecEnergy c);
     calo \<leftarrow> DoCalo m;
     if calo = 0 then Some False
     else do { thr \<leftarrow> var_double (dbVars m ''calo_thr''); Some (\<bar>E_evt\<bar> < thr) } }"

text \<open>The back track of the primary particle and the calorimeter data.\<close>

definition load_backtrack :: "'s podd \<Rightarrow> dbm \<Rightarrow> simevent \<Rightarrow> clusterstate \<Rightarrow> simtrack \<Rightarrow> 's decoder \<Rightarrow> (hed \<times> 's decoder) option" where
  "load_backtrack P m e s trk d =
     (if csBest s < 0 then Some (HED_OK, d)
      else if dcBackTracks d \<noteq> [] then None
      else do {
        c \<leftarrow> rdi (evGEMClust e) (csBest s);
        b \<leftarrow> TSBSSimBackTrack m c;
        let b = b \<lparr> btHitBits := csHitbits s, btUfailBits := csUfail s, btVfailBits := csVfail s \<rparr>;
        let d = d \<lparr> dcBackTracks := [b] \<rparr>;
        calo \<leftarrow> DoCalo m;
        if calo = 0 then Some (HED_OK, d)
        else do {
          (ret, pts, slots) \<leftarrow> load_calo P (dcProfiles d) m trk (evScintClusters e) (evECalClusters e) [] (dcSlots d);
          Some (ret, d \<lparr> dcSlots := slots \<rparr>) } })"

text \<open>From the tracks on.\<close>

definition load_truth :: "'s podd \<Rightarrow> dbm \<Rightarrow> simevent \<Rightarrow> 's decoder \<Rightarrow> (hed \<times> 's decoder) option" where
  "load_truth P m e d =
     (case evMCTracks e of [] \<Rightarrow> None
      | trk # _ \<Rightarrow> do {
          let d = d \<lparr> dcMCTracks := evMCTracks e \<rparr>;
          (ret, s) \<leftarrow> load_clusters m (tkNumber trk) 0 (evGEMClust e) \<lparr> csHits = [], csPoints = [], csBest = -1,
             csBestPlane = dbNChamber m, csHitbits = 0, csUfail = 0, csVfail = 0 \<rparr>;
          let d = d \<lparr> dcMCHits := csHits s, dcMCPoints := csPoints s \<rparr>;
          if ret \<noteq> HED_OK then Some (ret, d)
          else do {
            let mass = (case pdMass P (tkPID trk) of None \<Rightarrow> 0 | Some w \<Rightarrow> w);
            pts \<leftarrow> point_steps P mass None (pdSort P (csPoints s));
            load_backtrack P m e s trk (d \<lparr> dcMCPoints := pts, dcNHits := 2 * NumberOfSetBits (csHitbits s),
               dcHitBits := csHitbits s \<rparr>) } })"

definition DoLoadEvent :: "'s podd \<Rightarrow> dbm \<Rightarrow> simevent \<Rightarrow> 's decoder \<Rightarrow> (hed \<times> 's decoder) option" where
  "DoLoadEvent P m e d =
     (let (ret, slots) = (if dcNeedInit d then pdInit P (dcSlots d) else (HED_OK, dcSlots d)) in
      if ret \<noteq> HED_OK then Some (ret, d \<lparr> dcSlots := slots \<rparr>)
      else do {
        let d = (dc_Clear d) \<lparr> dcNeedInit := False, dcSlots := pdClearSlots P slots, dcEventNum := evEvtID e,
                  dcWeight := evWeight e \<rparr>;
        (ret, fStripMap, slots) \<leftarrow> load_strips P m 0 (evGEMStrips e) (dcStripMap d, dcSlots d);
        let d = d \<lparr> dcStripMap := fStripMap, dcSlots := slots \<rparr>;
        if ret \<noteq> HED_OK then Some (ret, d)
        else do {
          low \<leftarrow> below_threshold m e;
          if low then Some (HED_ERR, d) else load_truth P m e d } })"

section \<open>Truth information of a strip\<close>

record mchitinfo =
  mcTrack :: int
  mcPos :: real
  mcTime :: real
  mcContam :: int
  mcCharge :: real
  mcSigType :: int
  mcClusterID :: "int list"
  mcClusterType :: "int list"
  mcClusterPeakTime :: "real list"
  mcClusterPos :: "vec3 list"
  mcClusterCharge :: "real list"
  mcClusterStripWeight :: "real option list"
  mcClusterADC :: "int list list"

definition TSBSMCHitInfo :: mchitinfo where
  "TSBSMCHitInfo = \<lparr> mcTrack = 0, mcPos = 0, mcTime = 0, mcContam = 0, mcCharge = 0, mcSigType = 0,
     mcClusterID = [], mcClusterType = [], mcClusterPeakTime = [], mcClusterPos = [], mcClusterCharge = [],
     mcClusterStripWeight = [], mcClusterADC = replicate 6 [] \<rparr>"

text \<open>Sample its of cluster number i of the strip, for its from 0 to 5.\<close>

fun ratio_samples :: "int list list \<Rightarrow> nat \<Rightarrow> nat \<Rightarrow> nat \<Rightarrow> int list option" where
  "ratio_samples ratios i its 0 = Some []"
| "ratio_samples ratios i its (Suc n) = do {
     r \<leftarrow> rd ratios its; a \<leftarrow> rd r i; as \<leftarrow> ratio_samples ratios i (its + 1) n; Some (a # as) }"

text \<open>The last entry of the signal list with the PID of a primary cluster.\<close>

fun find_signal :: "(int \<times> int) list \<Rightarrow> gemcluster \<Rightarrow> int \<Rightarrow> int \<Rightarrow> int" where
  "find_signal [] c ii signalID = signalID"
| "find_signal ((pid, tid) # sigs) c ii signalID =
     find_signal sigs c (ii + 1) (if gcType c = 1 \<and> gcPID c = pid then ii else signalID)"

definition cluster_pos :: "dbm \<Rightarrow> int \<Rightarrow> gemcluster \<Rightarrow> real option" where
  "cluster_pos m proj c = do {
     x \<leftarrow> rdi (gcXProj c) proj;
     xo \<leftarrow> GetXOffset m (gcPlane c) (gcModule c);
     Some (x + (1 - of_int proj) * xo) }"

definition info_cluster ::
  "dbm \<Rightarrow> (int \<times> int) list \<Rightarrow> simevent \<Rightarrow> gemstrip \<Rightarrow> nat \<Rightarrow> int \<Rightarrow> mchitinfo \<times> real \<Rightarrow> (mchitinfo \<times> real) option" where
  "info_cluster m fSignalInfo e strip i cid st = do {
     let (mc, nOverlapSignal) = st;
     let iclust = cid - 1;
     c \<leftarrow> rdi (evGEMClust e) iclust;
     w \<leftarrow> rd (gsStripWeight strip) i;
     as \<leftarrow> ratio_samples (gsClusterRatio strip) i 0 6;
     let mc = mc \<lparr> mcClusterID := mcClusterID mc @ [iclust], mcClusterType := mcClusterType mc @ [gcSource c],
           mcClusterPeakTime := mcClusterPeakTime mc @ [gcTime c], mcClusterPos := mcClusterPos mc @ [gcHitpos c],
           mcClusterCharge := mcClusterCharge mc @ [gcCharge c], mcClusterStripWeight := mcClusterStripWeight mc @ [w],
           mcClusterADC := map2 (\<lambda>v a. v @ [a]) (mcClusterADC mc) as \<rparr>;
     if \<not> (gcID c = iclust + 1) then None
     else if \<not> (gsPlane strip = gcPlane c \<and> gsSector strip = gcSector c) then None
     else (let signalID = find_signal fSignalInfo c 0 (-1) in
       if 0 \<le> signalID \<and> gcSource c = kPrimarySource then do {
         x \<leftarrow> cluster_pos m (gsProj strip) c;
         if 0 < mcTrack mc then
           Some (mc \<lparr> mcPos := mcPos mc + x, mcTime := mcTime mc + gcTime c \<rparr>, nOverlapSignal + 1)
         else do {
           (pid, tid) \<leftarrow> rdi fSignalInfo signalID;
           Some (mc \<lparr> mcTrack := tid, mcPos := x, mcTime := gcTime c \<rparr>, nOverlapSignal + 1) } }
       else (let mc = mc \<lparr> mcContam := mcContam mc + 1 \<rparr> in
         if mcTrack mc = 0 then do {
           x \<leftarrow> cluster_pos m (gsProj strip) c;
           Some (mc \<lparr> mcPos := mcPos mc + x \<rparr>, nOverlapSignal) }
         else Some (mc, nOverlapSignal))) }"

fun info_clusters ::
  "dbm \<Rightarrow> (int \<times> int) list \<Rightarrow> simevent \<Rightarrow> gemstrip \<Rightarrow> nat \<Rightarrow> int list \<Rightarrow> mchitinfo \<times> real \<Rightarrow> (mchitinfo \<times> real) option" where
  "info_clusters m sig e strip i [] st = Some st"
| "info_clusters m sig e strip i (cid # cids) st = do {
     st \<leftarrow> info_cluster m sig e strip i cid st; info_clusters m sig e strip (i + 1) cids st }"

definition strip_info :: "dbm \<Rightarrow> (int \<times> int) list \<Rightarrow> simevent \<Rightarrow> gemstrip \<Rightarrow> mchitinfo option" where
  "strip_info m fSignalInfo e strip =
     (if \<not> (0 \<le> gsProj strip \<and> gsProj strip < dbNReadOut m) then None
      else (let mc = TSBSMCHitInfo \<lparr> mcSigType := gsSigType strip \<rparr> in
        if bit (gsSigType strip) kInducedStrip \<and> \<not> bit (gsSigType strip) 0 \<and> \<not> bit (gsSigType strip) 1 then do {
          x \<leftarrow> GetPosFromModuleStrip m (gsProj strip) (gsPlane strip) (gsModule strip) (gsChan strip);
          Some (mc \<lparr> mcTrack := 0, mcPos := x, mcTime := gsTime1 strip \<rparr>) }
        else do {
          (mc, nOverlapSignal) \<leftarrow> info_clusters m fSignalInfo e strip 0 (gsClusters strip)
            (mc \<lparr> mcCharge := gsCharge strip \<rparr>, 0);
          if \<not> (gsClusters strip = [] \<or> 0 < mcTrack mc \<or> 0 < mcContam mc) then None
          else if mcTrack mc = 0 then
            Some (mc \<lparr> mcPos := (if 1 < mcContam mc then mcPos mc / of_int (mcContam mc) else mcPos mc),
                     mcTime := gsTime1 strip \<rparr>)
          else do {
            pos \<leftarrow> c_div (mcPos mc) nOverlapSignal; t \<leftarrow> c_div (mcTime mc) nOverlapSignal;
            Some (mc \<lparr> mcPos := pos, mcTime := t \<rparr>) } }))"

definition GetSBSMCHitInfo :: "int \<Rightarrow> dbm \<Rightarrow> 's decoder \<Rightarrow> simevent \<Rightarrow> int \<Rightarrow> int \<Rightarrow> int \<Rightarrow> mchitinfo option" where
  "GetSBSMCHitInfo maxslot m d e crate slot chan = do {
     istrip \<leftarrow> StripFromROC maxslot m (dcStripMap d) crate slot chan;
     strip \<leftarrow> rdi (evGEMStrips e) istrip;
     strip_info m (dcSignalInfo d) e strip }"

text \<open>Position, charge, plane, module and time of every signal cluster.\<close>

definition GetAllMCHits :: "simevent \<Rightarrow> real list list" where
  "GetAllMCHits e = map (\<lambda>c. [vx (gcMCpos c), vy (gcMCpos c), gcCharge c, of_int (gcPlane c), of_int (gcModule c), gcTime c])
     (filter (\<lambda>c. gcSource c = 0) (evGEMClust e))"

section \<open>The strip map\<close>

text \<open>The configuration the addresses rely on.\<close>

definition roc_setup :: "'s podd \<Rightarrow> dbm \<Rightarrow> int \<Rightarrow> bool" where
  "roc_setup P m n \<longleftrightarrow> GetChanPerSlot m = Some n \<and> 0 < pdMaxSlot P \<and> counts_ok (dbNModule m)"

definition strip_key :: "int \<Rightarrow> dbm \<Rightarrow> gemstrip \<Rightarrow> int" where
  "strip_key n m s = roc_key n (dbNModule m) (channel_of s)"

definition strip_ok :: "int \<Rightarrow> dbm \<Rightarrow> gemstrip \<Rightarrow> bool" where
  "strip_ok n m s \<longleftrightarrow> channel_ok n (dbNModule m) (channel_of s)"

lemma strip_address:
  assumes "roc_setup P m n" "strip_ok n m s"
  shows "\<exists>crate slot. StripToROCD (pdMaxSlot P) m (gsPlane s) (gsModule s) (gsProj s) (gsChan s) = Some (crate, slot, gsChan s)
    \<and> MakeROCKey (pdMaxSlot P) m crate slot (gsChan s) = Some (strip_key n m s)"
  using roc_address [of m n "channel_of s" "pdMaxSlot P"] assms
  by (auto simp: roc_setup_def strip_ok_def strip_key_def channel_of_def)

text \<open>The analyzer refuses a sample of the strip: loadData gives SD\_ERR.\<close>

definition refuses :: "'s podd \<Rightarrow> dbm \<Rightarrow> gemstrip \<Rightarrow> bool" where
  "refuses P m st \<longleftrightarrow> (\<exists>crate slot chan adc s.
     StripToROCD (pdMaxSlot P) m (gsPlane st) (gsModule st) (gsProj st) (gsChan st) = Some (crate, slot, chan)
     \<and> adc \<in> set (take (gsNsamp st) (gsADC st)) \<and> pdLoadData P crate slot chan adc adc s = None)"

lemma load_samples_refused:
  "load_samples P crate slot chan adcs s = (False, t) \<Longrightarrow> \<exists>adc \<in> set adcs. \<exists>s. pdLoadData P crate slot chan adc adc s = None"
  by (induction adcs arbitrary: s) (auto split: option.splits)

text \<open>The strips in front of the first that is refused are in the map, and nothing else is new.\<close>

definition filed :: "'s podd \<Rightarrow> int \<Rightarrow> dbm \<Rightarrow> gemstrip list \<Rightarrow> nat \<Rightarrow> stripmap \<Rightarrow> stripmap \<Rightarrow> hed \<Rightarrow> nat \<Rightarrow> bool" where
  "filed P n m sts i M M' ret k \<longleftrightarrow> k \<le> length sts \<and> (if k = length sts then ret = HED_OK else ret = HED_ERR \<and> refuses P m (sts ! k))
     \<and> (\<forall>j < k. M' (strip_key n m (sts ! j)) = Some (i + j))
     \<and> (\<forall>key. key \<notin> strip_key n m ` set (take k sts) \<longrightarrow> M' key = M key)"

lemma load_strips_ok:
  assumes "roc_setup P m n"
  shows "\<forall>s \<in> set sts. strip_ok n m s \<Longrightarrow> distinct (map channel_of sts) \<Longrightarrow>
    \<forall>s \<in> set sts. M (strip_key n m s) = None \<Longrightarrow>
    \<exists>ret M' t' k. load_strips P m i sts (M, t) = Some (ret, M', t') \<and> filed P n m sts i M M' ret k"
proof (induction sts arbitrary: i M t)
  case Nil
  then show ?case by (simp add: filed_def)
next
  case (Cons s sts)
  obtain crate slot where a: "StripToROCD (pdMaxSlot P) m (gsPlane s) (gsModule s) (gsProj s) (gsChan s) = Some (crate, slot, gsChan s)"
      "MakeROCKey (pdMaxSlot P) m crate slot (gsChan s) = Some (strip_key n m s)"
    using strip_address [OF assms, of s] Cons.prems(1) by auto
  obtain good t1 where l: "load_samples P crate slot (gsChan s) (take (gsNsamp s) (gsADC s)) t = (good, t1)" by force
  have new: "strip_key n m s' \<noteq> strip_key n m s" if "s' \<in> set sts" for s'
  proof -
    have "channel_of s \<noteq> channel_of s'" using Cons.prems(2) that by auto
    then show ?thesis using roc.key_inj [of "dbNModule m" n "channel_of s'" "channel_of s"] assms Cons.prems(1) that
      by (auto simp: roc_setup_def strip_ok_def strip_key_def)
  qed
  show ?case
  proof (cases good)
    case False
    then have "refuses P m s" using a(1) load_samples_refused l unfolding refuses_def by metis
    then have "filed P n m (s # sts) i M M HED_ERR 0" by (simp add: filed_def)
    moreover have "load_strips P m i (s # sts) (M, t) = Some (HED_ERR, M, t1)" using False a(1) l by simp
    ultimately show ?thesis by blast
  next
    case True
    let ?M = "M(strip_key n m s \<mapsto> i)"
    have h1: "\<forall>s' \<in> set sts. strip_ok n m s'" and h2: "distinct (map channel_of sts)"
      using Cons.prems(1,2) by auto
    have h3: "\<forall>s' \<in> set sts. ?M (strip_key n m s') = None" using Cons.prems(3) new by auto
    obtain ret M' t' k where r: "load_strips P m (i + 1) sts (?M, t1) = Some (ret, M', t')" "filed P n m sts (i + 1) ?M M' ret k"
      using Cons.IH [OF h1 h2 h3, of "i + 1" t1] by blast
    have f: "k \<le> length sts" "if k = length sts then ret = HED_OK else ret = HED_ERR \<and> refuses P m (sts ! k)"
        "\<forall>j < k. M' (strip_key n m (sts ! j)) = Some (i + 1 + j)"
        "\<forall>key. key \<notin> strip_key n m ` set (take k sts) \<longrightarrow> M' key = ?M key"
      using r(2) by (simp_all add: filed_def)
    have "M' (strip_key n m ((s # sts) ! j)) = Some (i + j)" if "j < Suc k" for j
    proof (cases j)
      case 0
      have "strip_key n m s \<notin> strip_key n m ` set (take k sts)" using new by (metis imageE in_set_takeD)
      then have "M' (strip_key n m s) = ?M (strip_key n m s)" using f(4) by blast
      then show ?thesis using 0 by simp
    next
      case (Suc j')
      then show ?thesis using f(3) that by simp
    qed
    moreover have "M' key = M key" if "key \<notin> strip_key n m ` set (take (Suc k) (s # sts))" for key
      using f(4) that by auto
    ultimately have "filed P n m (s # sts) i M M' ret (Suc k)" using f(1,2) unfolding filed_def by simp
    moreover have "load_strips P m i (s # sts) (M, t) = Some (ret, M', t')"
      using a l True r(1) Cons.prems(3) by simp
    ultimately show ?thesis by blast
  qed
qed

text \<open>What is found under an address.\<close>

definition lookup :: "'s podd \<Rightarrow> dbm \<Rightarrow> stripmap \<Rightarrow> channel \<Rightarrow> int option" where
  "lookup P m M c = do {
     (crate, slot, chan) \<leftarrow> StripToROCD (pdMaxSlot P) m (cnPlane c) (cnModule c) (cnProj c) (cnChan c);
     StripFromROC (pdMaxSlot P) m M crate slot chan }"

lemma lookup_key:
  assumes "roc_setup P m n" "channel_ok n (dbNModule m) c"
  shows "lookup P m M c = Some (case M (roc_key n (dbNModule m) c) of None \<Rightarrow> -1 | Some i \<Rightarrow> int i)"
proof -
  obtain crate slot where a: "StripToROCD (pdMaxSlot P) m (cnPlane c) (cnModule c) (cnProj c) (cnChan c) = Some (crate, slot, cnChan c)"
      "MakeROCKey (pdMaxSlot P) m crate slot (cnChan c) = Some (roc_key n (dbNModule m) c)"
    using roc_address [of m n c "pdMaxSlot P"] assms by (auto simp: roc_setup_def)
  then show ?thesis by (auto simp: lookup_def StripFromROC_def split: option.splits)
qed

section \<open>Loading the clusters\<close>

definition cluster_wf :: "dbm \<Rightarrow> gemcluster \<Rightarrow> bool" where
  "cluster_wf m c \<longleftrightarrow> 0 \<le> gcPlane c \<and> gcPlane c < dbNChamber m \<and> length (gcSize c) = 2
     \<and> length (gcStart c) = 2 \<and> length (gcXProj c) = 2"

text \<open>The two track points of a primary cluster.\<close>

definition points_of :: "int \<Rightarrow> gemcluster \<Rightarrow> mcpoint list" where
  "points_of itrack c =
     [(MCTrackPoint itrack (gcPlane c) kXPlane (gcMCpos c) (gcP c)) \<lparr> ptMCTime := gcTime c, ptDigitized := (gcSize c ! 0 \<noteq> 0) \<rparr>,
      (MCTrackPoint itrack (gcPlane c) kYPlane (gcMCpos c) (gcP c)) \<lparr> ptMCTime := gcTime c, ptDigitized := (gcSize c ! 1 \<noteq> 0) \<rparr>]"

text \<open>Bit patterns of planes.\<close>

definition plane_bits :: "32 word \<Rightarrow> (int \<Rightarrow> bool) \<Rightarrow> bool" where
  "plane_bits w A \<longleftrightarrow> (\<forall>p. bit w p \<longleftrightarrow> p < 32 \<and> A (int p))"

lemma plane_bits_SETBIT:
  assumes "plane_bits w A" "0 \<le> i"
  shows "plane_bits (SETBIT w i) (\<lambda>p. A p \<or> p = i)"
  unfolding plane_bits_def
proof
  fix p
  have s: "bit (SETBIT w i) p \<longleftrightarrow> bit w p \<or> (p < 32 \<and> p = nat i)"
    by (auto simp: SETBIT_def bit_set_bit_iff)
  have n: "p = nat i \<longleftrightarrow> int p = i" using assms(2) by linarith
  have w: "bit w p \<longleftrightarrow> p < 32 \<and> A (int p)" using assms(1) by (simp only: plane_bits_def)
  show "bit (SETBIT w i) p \<longleftrightarrow> p < 32 \<and> (A (int p) \<or> int p = i)" unfolding s n w by blast
qed

lemma plane_bits_cong: "plane_bits w A \<Longrightarrow> (\<And>p. A p \<longleftrightarrow> B p) \<Longrightarrow> plane_bits w B"
  by (simp add: plane_bits_def)

text \<open>What has been collected from the clusters cs, of which the first has number 0.\<close>

definition collected :: "dbm \<Rightarrow> int \<Rightarrow> gemcluster list \<Rightarrow> clusterstate \<Rightarrow> bool" where
  "collected m itrack cs s \<longleftrightarrow> list_all2 (\<lambda>c h. TSBSSimGEMHit c = Some h) cs (csHits s)
     \<and> csPoints s = concat (map (points_of itrack) (filter is_primary cs))
     \<and> plane_bits (csHitbits s) (\<lambda>p. \<exists>c \<in> set cs. is_primary c \<and> gcPlane c = p)
     \<and> plane_bits (csUfail s) (\<lambda>p. \<exists>c \<in> set cs. is_primary c \<and> gcPlane c = p \<and> gcSize c ! 0 = 0)
     \<and> plane_bits (csVfail s) (\<lambda>p. \<exists>c \<in> set cs. is_primary c \<and> gcPlane c = p \<and> gcSize c ! 1 = 0)
     \<and> (\<forall>c \<in> set cs. is_primary c \<longrightarrow> csBestPlane s \<le> gcPlane c)
     \<and> (if \<exists>c \<in> set cs. is_primary c
        then 0 \<le> csBest s \<and> nat (csBest s) < length cs \<and> is_primary (cs ! nat (csBest s))
          \<and> gcPlane (cs ! nat (csBest s)) = csBestPlane s
        else csBest s = -1 \<and> csBestPlane s = dbNChamber m)"

lemma TSBSSimGEMHit_ok: "cluster_wf m c \<Longrightarrow> \<exists>h. TSBSSimGEMHit c = Some h"
  by (simp add: TSBSSimGEMHit_def cluster_wf_def rd_def)

lemma load_cluster_ok:
  assumes "cluster_wf m c" "collected m itrack cs s"
  shows "\<exists>t. load_cluster itrack (int (length cs)) c s = Some t \<and> collected m itrack (cs @ [c]) t"
proof -
  obtain h where h: "TSBSSimGEMHit c = Some h" using TSBSSimGEMHit_ok [OF assms(1)] by blast
  show ?thesis
  proof (cases "is_primary c")
    case False
    have l: "load_cluster itrack (int (length cs)) c s = Some (s \<lparr> csHits := csHits s @ [h] \<rparr>)"
      using False h by (simp add: load_cluster_def)
    show ?thesis unfolding l using assms(2) False h
      by (auto simp: collected_def nth_append list_all2_appendI Let_def less_Suc_eq split: if_splits)
  next
    case True
    have two: "0 < length (gcSize c)" "1 < length (gcSize c)" using assms(1) by (simp_all add: cluster_wf_def)
    obtain u where u: "rd (gcSize c) 0 = Some u" "gcSize c ! 0 = u"
      using two by simp
    obtain v where v: "rd (gcSize c) 1 = Some v" "gcSize c ! 1 = v"
      using two by simp
    have p: "0 \<le> gcPlane c" "gcPlane c < dbNChamber m" using assms(1) by (auto simp: cluster_wf_def)
    obtain t where t: "load_cluster itrack (int (length cs)) c s = Some t" using True h u v two by (simp add: load_cluster_def Let_def rd_def)
    have f: "csHits t = csHits s @ [h]" "csPoints t = csPoints s @ points_of itrack c"
        "csHitbits t = SETBIT (csHitbits s) (gcPlane c)"
        "csUfail t = (if gcSize c ! 0 = 0 then SETBIT (csUfail s) (gcPlane c) else csUfail s)"
        "csVfail t = (if gcSize c ! 1 = 0 then SETBIT (csVfail s) (gcPlane c) else csVfail s)"
        "csBest t = (if gcPlane c < csBestPlane s then int (length cs) else csBest s)"
        "csBestPlane t = (if gcPlane c < csBestPlane s then gcPlane c else csBestPlane s)"
      using t True h u v two by (auto simp: load_cluster_def Let_def points_of_def rd_def)
    have b: "plane_bits (csHitbits t) (\<lambda>p. \<exists>c' \<in> set (cs @ [c]). is_primary c' \<and> gcPlane c' = p)"
      unfolding f(3) by (rule plane_bits_cong [OF plane_bits_SETBIT [OF _ p(1)]])
        (use assms(2) True in \<open>auto simp: collected_def\<close>)
    have bu: "plane_bits (csUfail t) (\<lambda>p. \<exists>c' \<in> set (cs @ [c]). is_primary c' \<and> gcPlane c' = p \<and> gcSize c' ! 0 = 0)"
    proof (cases "gcSize c ! 0 = 0")
      case z: True
      show ?thesis unfolding f(4) if_P [OF z] by (rule plane_bits_cong [OF plane_bits_SETBIT [OF _ p(1)]])
        (use assms(2) True z in \<open>auto simp: collected_def\<close>)
    qed (use assms(2) f(4) in \<open>simp add: collected_def\<close>)
    have bv: "plane_bits (csVfail t) (\<lambda>p. \<exists>c' \<in> set (cs @ [c]). is_primary c' \<and> gcPlane c' = p \<and> gcSize c' ! 1 = 0)"
    proof (cases "gcSize c ! 1 = 0")
      case z: True
      show ?thesis unfolding f(5) if_P [OF z] by (rule plane_bits_cong [OF plane_bits_SETBIT [OF _ p(1)]])
        (use assms(2) True z in \<open>auto simp: collected_def\<close>)
    qed (use assms(2) f(5) in \<open>simp add: collected_def\<close>)
    have best: "\<forall>c' \<in> set (cs @ [c]). is_primary c' \<longrightarrow> csBestPlane t \<le> gcPlane c'"
      using assms(2) f(7) by (auto simp: collected_def)
    have at: "0 \<le> csBest t \<and> nat (csBest t) < length (cs @ [c]) \<and> is_primary ((cs @ [c]) ! nat (csBest t))
          \<and> gcPlane ((cs @ [c]) ! nat (csBest t)) = csBestPlane t"
    proof (cases "gcPlane c < csBestPlane s")
      case True
      then show ?thesis using f(6,7) \<open>is_primary c\<close> by simp
    next
      case False
      then have "\<exists>c \<in> set cs. is_primary c" using assms(2) p(2) by (auto simp: collected_def split: if_splits)
      then show ?thesis using False assms(2) f(6,7) by (auto simp: collected_def nth_append)
    qed
    have "collected m itrack (cs @ [c]) t"
      unfolding collected_def
      using b bu bv best at True assms(2) f(1,2) h by (simp add: collected_def list_all2_appendI)
    then show ?thesis using t by blast
  qed
qed

lemma load_clusters_ok:
  "\<forall>c \<in> set cs'. cluster_wf m c \<Longrightarrow> collected m itrack cs s \<Longrightarrow>
    \<exists>t. load_clusters m itrack (int (length cs)) cs' s = Some (HED_OK, t) \<and> collected m itrack (cs @ cs') t"
proof (induction cs' arbitrary: cs s)
  case (Cons c cs')
  obtain u where u: "load_cluster itrack (int (length cs)) c s = Some u" "collected m itrack (cs @ [c]) u"
    using load_cluster_ok [OF _ Cons.prems(2)] Cons.prems(1) by auto
  obtain t where t: "load_clusters m itrack (int (length (cs @ [c]))) cs' u = Some (HED_OK, t)"
      "collected m itrack ((cs @ [c]) @ cs') t"
    using Cons.IH [OF _ u(2)] Cons.prems(1) by auto
  then show ?case using u(1) Cons.prems(1) by (auto simp: cluster_wf_def add.commute)
qed simp

lemma collected_Nil: "collected m itrack [] \<lparr> csHits = [], csPoints = [], csBest = -1,
     csBestPlane = dbNChamber m, csHitbits = 0, csUfail = 0, csVfail = 0 \<rparr>"
  by (simp add: collected_def plane_bits_def)

section \<open>Loading an event\<close>

text \<open>What is relied on of the analyzer: its initialization succeeds and the sorting only reorders.  A
  call of loadData may fail.\<close>

definition podd_ok :: "'s podd \<Rightarrow> bool" where
  "podd_ok P \<longleftrightarrow> (\<forall>s. fst (pdInit P s) = HED_OK) \<and> (\<forall>pts. mset (pdSort P pts) = mset pts)"

text \<open>An event as the digitization writes it.\<close>

definition event_ok :: "dbm \<Rightarrow> simevent \<Rightarrow> bool" where
  "event_ok m e \<longleftrightarrow> evMCTracks e \<noteq> [] \<and> (\<forall>c \<in> set (evGEMClust e). cluster_wf m c)"

text \<open>The values the loading needs exist: z0 and docalo in the database and, if docalo is not 0, the
  threshold, the position of every cluster that is loaded as a BigBite or HCal cluster, and the
  proton that belongs to every one loaded as an ECal cluster.\<close>

definition calo_ready :: "'s podd \<Rightarrow> shower_profiles \<Rightarrow> dbm \<Rightarrow> simevent \<Rightarrow> bool" where
  "calo_ready P pr m e \<longleftrightarrow> var_double (dbVars m ''z0'') \<noteq> None \<and> (\<exists>calo. DoCalo m = Some calo \<and>
     (calo \<noteq> 0 \<longrightarrow> (\<exists>thr. var_double (dbVars m ''calo_thr'') = Some thr \<and>
       (\<forall>c \<in> set (evECalClusters e). thr \<le> ecEnergy c \<longrightarrow>
         (ecDetFlag c = 10 \<longrightarrow> ecXPos c \<noteq> None \<and> ecYPos c \<noteq> None) \<and>
         (ecDetFlag c = 12 \<longrightarrow> (\<forall>pts. predict_proton (pdInvert4 P) pr m (hd (evMCTracks e)) (evScintClusters e) c pts \<noteq> None))))))"

lemma calo_ready_off:
  assumes "DoCalo m = Some 0" "var_double (dbVars m ''z0'') \<noteq> None" shows "calo_ready P pr m e"
  using assms by (simp add: calo_ready_def)

text \<open>What can make the loading of the calorimeter clusters fail: the analyzer refuses data in crate 2 or
  4, or a scintillator cluster is not a good one of the coordinate detector.\<close>

definition calo_refuses :: "'s podd \<Rightarrow> simevent \<Rightarrow> bool" where
  "calo_refuses P e \<longleftrightarrow> (\<exists>crate \<in> {2, 4}. \<exists>slot chan x y s. pdLoadData P crate slot chan x y s = None)
     \<or> (\<exists>h \<in> set (evScintClusters e). ecDetFlag h \<noteq> 31 \<or> ecEnergy h \<le> 0)"

text \<open>A point without its differences.\<close>

definition bare_point :: "mcpoint \<Rightarrow> mcpoint" where
  "bare_point p = p \<lparr> ptDeltaE := None, ptDeflect := None, ptToF := None \<rparr>"

lemma point_step_ok:
  assumes "\<And>pv. prev = Some pv \<Longrightarrow> ptMCTrack pv = ptMCTrack p"
  shows "\<exists>q. point_step P mass prev p = Some q \<and> bare_point q = bare_point p \<and> ptMCTrack q = ptMCTrack p"
proof (cases prev)
  case (Some pv)
  then show ?thesis using assms by (simp add: point_step_def bare_point_def)
qed (simp add: point_step_def)

lemma point_steps_ok:
  "\<forall>p \<in> set pts. ptMCTrack p = t \<Longrightarrow> (\<forall>p. prev = Some p \<longrightarrow> ptMCTrack p = t) \<Longrightarrow>
    \<exists>qs. point_steps P mass prev pts = Some qs \<and> map bare_point qs = map bare_point pts"
proof (induction pts arbitrary: prev)
  case (Cons p pts)
  obtain q where q: "point_step P mass prev p = Some q" "bare_point q = bare_point p" "ptMCTrack q = t"
    using point_step_ok [of prev p P mass] Cons.prems by auto
  obtain qs where "point_steps P mass (Some q) pts = Some qs" "map bare_point qs = map bare_point pts"
    using Cons.IH [of "Some q"] Cons.prems(1) q(3) by auto
  then show ?case using q(1,2) by simp
qed simp

lemma points_of_track: "p \<in> set (points_of t c) \<Longrightarrow> ptMCTrack p = t \<and> bare_point p = p"
  by (auto simp: points_of_def MCTrackPoint_def bare_point_def)

lemma load_list_ret:
  assumes "load_list P cs x y s = (ret, s')" "\<forall>(crate, slot, chan) \<in> set cs. crate \<in> {2, 4}" "ret \<noteq> HED_OK"
  shows "ret = HED_ERR \<and> (\<exists>crate \<in> {2, 4}. \<exists>slot chan x y s. pdLoadData P crate slot chan x y s = None)"
  using assms
proof (induction cs arbitrary: s)
  case (Cons c cs)
  obtain crate slot chan where c: "c = (crate, slot, chan)" by (cases c)
  show ?case
  proof (cases "pdLoadData P crate slot chan x y s")
    case None
    moreover have "crate \<in> {2, 4}" "ret = HED_ERR" using Cons.prems c None by auto
    ultimately show ?thesis by blast
  next
    case (Some s1)
    then show ?thesis using Cons.IH [of s1] Cons.prems c by simp
  qed
qed simp

lemma cdet_points_bad: "cdet_points hs pts = Some (False, qs) \<Longrightarrow> \<exists>h \<in> set hs. ecDetFlag h \<noteq> 31 \<or> ecEnergy h \<le> 0"
  by (induction hs arbitrary: pts) (auto simp: bind_eq_Some_conv split: if_splits)

lemma predict_proton_bad:
  assumes "predict_proton inv4 pr m trk hs c pts = Some None"
  shows "\<exists>h \<in> set hs. ecDetFlag h \<noteq> 31 \<or> ecEnergy h \<le> 0"
proof -
  obtain qs ps where "cdet_points hs qs = Some (False, ps)"
    using assms by (auto simp: predict_proton_def Let_def bind_eq_Some_conv split: if_splits)
  then show ?thesis by (rule cdet_points_bad)
qed

text \<open>Loading a cluster, and all clusters, returns; an error has one of the known reasons.\<close>

definition calo_result :: "'s podd \<Rightarrow> simevent \<Rightarrow> (hed \<times> fitpoint list \<times> 's) option \<Rightarrow> bool" where
  "calo_result P e r \<longleftrightarrow> (\<exists>ret pts s. r = Some (ret, pts, s) \<and> (ret = HED_OK \<or> ret = HED_ERR \<and> calo_refuses P e))"

lemma load_calo_cluster_ok:
  assumes "var_double (dbVars m ''calo_thr'') = Some thr"
    "thr \<le> ecEnergy c \<longrightarrow> (ecDetFlag c = 10 \<longrightarrow> ecXPos c \<noteq> None \<and> ecYPos c \<noteq> None)
       \<and> (ecDetFlag c = 12 \<longrightarrow> (\<forall>pts. predict_proton (pdInvert4 P) pr m trk (evScintClusters e) c pts \<noteq> None))"
  shows "calo_result P e (load_calo_cluster P pr m trk (evScintClusters e) c pts s)"
proof -
  consider (bb) x y where "ecDetFlag c = 10" "thr \<le> ecEnergy c" "ecXPos c = Some x" "ecYPos c = Some y"
    | (kill) "ecDetFlag c = 12" "thr \<le> ecEnergy c" "predict_proton (pdInvert4 P) pr m trk (evScintClusters e) c pts = Some None"
    | (arm) qs x y x2 y2 where "ecDetFlag c = 12" "thr \<le> ecEnergy c"
        "predict_proton (pdInvert4 P) pr m trk (evScintClusters e) c pts = Some (Some (qs, (x, y), (x2, y2)))"
    | (no) "\<not> (ecDetFlag c = 10 \<and> thr \<le> ecEnergy c)" "\<not> (ecDetFlag c = 12 \<and> thr \<le> ecEnergy c)"
    using assms(2) by (metis option.exhaust prod_cases3 surj_pair)
  then show ?thesis
  proof cases
    case bb
    obtain ret t where l: "load_list P [(2, 0, 0), (2, 1, 0)] (pdFloatBits P x) (pdFloatBits P y) s = (ret, t)" by force
    have "load_calo_cluster P pr m trk (evScintClusters e) c pts s = Some (ret, pts, t)"
      using bb assms(1) l by (simp del: load_list.simps add: load_calo_cluster_def)
    then show ?thesis using load_list_ret [OF l] by (auto simp: calo_result_def calo_refuses_def)
  next
    case kill
    have "load_calo_cluster P pr m trk (evScintClusters e) c pts s = Some (HED_ERR, pts, s)"
      using kill assms(1) by (simp add: load_calo_cluster_def)
    then show ?thesis using predict_proton_bad [OF kill(3)] by (auto simp: calo_result_def calo_refuses_def)
  next
    case arm
    obtain ret t where l: "load_list P [(4, 0, 0), (4, 0, 1)] (pdFloatBits P x) (pdFloatBits P y) s = (ret, t)" by force
    obtain ret' t' where l': "load_list P [(4, 0, 2), (4, 0, 3)] (pdFloatBits P x2) (pdFloatBits P y2) t = (ret', t')" by force
    have "load_calo_cluster P pr m trk (evScintClusters e) c pts s = Some (if ret \<noteq> HED_OK then (ret, qs, t) else (ret', qs, t'))"
      using arm assms(1) l l' by (simp del: load_list.simps add: load_calo_cluster_def)
    then show ?thesis using load_list_ret [OF l] load_list_ret [OF l'] by (auto simp: calo_result_def calo_refuses_def)
  next
    case no
    have "load_calo_cluster P pr m trk (evScintClusters e) c pts s = Some (HED_OK, pts, s)"
      using no unfolding load_calo_cluster_def assms(1) by (auto simp del: load_list.simps)
    then show ?thesis by (simp add: calo_result_def)
  qed
qed

lemma load_calo_ok:
  assumes "var_double (dbVars m ''calo_thr'') = Some thr"
  shows "\<forall>c \<in> set cs. thr \<le> ecEnergy c \<longrightarrow> (ecDetFlag c = 10 \<longrightarrow> ecXPos c \<noteq> None \<and> ecYPos c \<noteq> None)
       \<and> (ecDetFlag c = 12 \<longrightarrow> (\<forall>pts. predict_proton (pdInvert4 P) pr m trk (evScintClusters e) c pts \<noteq> None)) \<Longrightarrow>
    calo_result P e (load_calo P pr m trk (evScintClusters e) cs pts s)"
proof (induction cs arbitrary: pts s)
  case Nil
  then show ?case by (simp add: calo_result_def)
next
  case (Cons c cs)
  have one: "calo_result P e (load_calo_cluster P pr m trk (evScintClusters e) c pts s)"
    by (rule load_calo_cluster_ok [OF assms]) (use Cons.prems in simp)
  obtain ret qs t where r: "load_calo_cluster P pr m trk (evScintClusters e) c pts s = Some (ret, qs, t)"
      "ret = HED_OK \<or> ret = HED_ERR \<and> calo_refuses P e"
    using one by (auto simp: calo_result_def)
  show ?case
  proof (cases "ret = HED_OK")
    case True
    then show ?thesis using Cons.IH [of qs t] Cons.prems r(1) by simp
  next
    case False
    then show ?thesis using r by (simp add: calo_result_def)
  qed
qed

lemma TSBSSimBackTrack_ok:
  assumes "var_double (dbVars m ''z0'') \<noteq> None" shows "\<exists>b. TSBSSimBackTrack m c = Some b"
  using assms by (auto simp: TSBSSimBackTrack_def bt_Update_def Let_def)

definition trackback :: "dbm \<Rightarrow> simevent \<Rightarrow> clusterstate \<Rightarrow> backtrack list \<Rightarrow> bool" where
  "trackback m e s bs \<longleftrightarrow> (if csBest s < 0 then bs = []
     else \<exists>b. TSBSSimBackTrack m (evGEMClust e ! nat (csBest s)) = Some b \<and>
       bs = [b \<lparr> btHitBits := csHitbits s, btUfailBits := csUfail s, btVfailBits := csVfail s \<rparr>])"

text \<open>How loading the truth may end: an error only from the calorimeter, when it is read.\<close>

definition truth_result :: "'s podd \<Rightarrow> dbm \<Rightarrow> simevent \<Rightarrow> hed \<Rightarrow> bool" where
  "truth_result P m e ret \<longleftrightarrow> ret = HED_OK \<or> ret = HED_ERR \<and> DoCalo m \<noteq> Some 0 \<and> calo_refuses P e"

lemma load_backtrack_ok:
  assumes "calo_ready P (dcProfiles d) m e" "csBest s < int (length (evGEMClust e))" "dcBackTracks d = []"
  shows "\<exists>ret bs t. load_backtrack P m e s (hd (evMCTracks e)) d = Some (ret, d \<lparr> dcBackTracks := bs, dcSlots := t \<rparr>)
    \<and> truth_result P m e ret \<and> trackback m e s bs"
proof (cases "csBest s < 0")
  case True
  have "d \<lparr> dcBackTracks := [], dcSlots := dcSlots d \<rparr> = d" using assms(3) by (cases d) simp
  then show ?thesis using True by (intro exI [of _ HED_OK] exI [of _ "[]"] exI [of _ "dcSlots d"])
    (simp add: load_backtrack_def trackback_def truth_result_def)
next
  case False
  have z: "var_double (dbVars m ''z0'') \<noteq> None" using assms(1) by (simp add: calo_ready_def)
  obtain b where b: "TSBSSimBackTrack m (evGEMClust e ! nat (csBest s)) = Some b" using TSBSSimBackTrack_ok [OF z] by blast
  let ?b = "b \<lparr> btHitBits := csHitbits s, btUfailBits := csUfail s, btVfailBits := csVfail s \<rparr>"
  have r: "rdi (evGEMClust e) (csBest s) = Some (evGEMClust e ! nat (csBest s))"
    using False assms(2) by (simp add: rdi_def rd_def)
  obtain calo where calo: "DoCalo m = Some calo" using assms(1) by (auto simp: calo_ready_def)
  have tb: "trackback m e s [?b]" using False b by (simp add: trackback_def)
  show ?thesis
  proof (cases "calo = 0")
    case True
    have "load_backtrack P m e s (hd (evMCTracks e)) d = Some (HED_OK, d \<lparr> dcBackTracks := [?b], dcSlots := dcSlots d \<rparr>)"
      using False b assms(3) calo True r by (simp del: rd_Some rdi_Some add: load_backtrack_def Let_def)
    moreover have "truth_result P m e HED_OK" by (simp add: truth_result_def)
    ultimately show ?thesis using tb by blast
  next
    case on: False
    obtain thr where thr: "var_double (dbVars m ''calo_thr'') = Some thr"
      "\<forall>c \<in> set (evECalClusters e). thr \<le> ecEnergy c \<longrightarrow>
         (ecDetFlag c = 10 \<longrightarrow> ecXPos c \<noteq> None \<and> ecYPos c \<noteq> None) \<and>
         (ecDetFlag c = 12 \<longrightarrow> (\<forall>pts. predict_proton (pdInvert4 P) (dcProfiles d) m (hd (evMCTracks e)) (evScintClusters e) c pts \<noteq> None))"
      using assms(1) calo on by (auto simp: calo_ready_def)
    obtain ret pts t where l: "load_calo P (dcProfiles d) m (hd (evMCTracks e)) (evScintClusters e) (evECalClusters e) [] (dcSlots d) = Some (ret, pts, t)"
        "ret = HED_OK \<or> ret = HED_ERR \<and> calo_refuses P e"
      using load_calo_ok [OF thr, of "[]" "dcSlots d"] by (auto simp: calo_result_def)
    have "load_backtrack P m e s (hd (evMCTracks e)) d = Some (ret, d \<lparr> dcBackTracks := [?b], dcSlots := t \<rparr>)"
      using False b assms(3) calo on r l(1) by (simp del: rd_Some rdi_Some add: load_backtrack_def Let_def)
    moreover have "truth_result P m e ret" using l(2) calo on by (auto simp: truth_result_def)
    ultimately show ?thesis using tb by blast
  qed
qed

text \<open>The truth of the event is kept, as collected from its clusters.\<close>

definition truth_kept :: "'s podd \<Rightarrow> dbm \<Rightarrow> simevent \<Rightarrow> 's decoder \<Rightarrow> bool" where
  "truth_kept P m e d' \<longleftrightarrow> (\<exists>s. collected m (tkNumber (hd (evMCTracks e))) (evGEMClust e) s \<and> dcMCTracks d' = evMCTracks e
     \<and> dcMCHits d' = csHits s \<and> map bare_point (dcMCPoints d') = pdSort P (csPoints s) \<and> dcHitBits d' = csHitbits s
     \<and> dcNHits d' = 2 * NumberOfSetBits (csHitbits s) \<and> trackback m e s (dcBackTracks d'))"

lemma load_truth_ok:
  assumes "podd_ok P" "event_ok m e" "calo_ready P (dcProfiles d) m e" "dcBackTracks d = []"
  shows "\<exists>ret d'. load_truth P m e d = Some (ret, d') \<and> truth_result P m e ret \<and> dcStripMap d' = dcStripMap d
    \<and> dcSignalInfo d' = dcSignalInfo d \<and> truth_kept P m e d'"
proof -
  obtain trk trks where t: "evMCTracks e = trk # trks" using assms(2) by (cases "evMCTracks e") (auto simp: event_ok_def)
  let ?s0 = "\<lparr> csHits = [], csPoints = [], csBest = -1, csBestPlane = dbNChamber m, csHitbits = 0, csUfail = 0, csVfail = 0 \<rparr>"
  obtain s where s: "load_clusters m (tkNumber trk) 0 (evGEMClust e) ?s0 = Some (HED_OK, s)"
      "collected m (tkNumber trk) (evGEMClust e) s"
    using load_clusters_ok [OF _ collected_Nil, of "evGEMClust e" m "tkNumber trk"] assms(2) by (auto simp: event_ok_def)
  have same: "\<forall>p \<in> set (pdSort P (csPoints s)). ptMCTrack p = tkNumber trk \<and> bare_point p = p"
  proof -
    have "mset (pdSort P (csPoints s)) = mset (csPoints s)" using assms(1) by (simp add: podd_ok_def)
    then have "set (pdSort P (csPoints s)) = set (csPoints s)" by (rule mset_eq_setD)
    moreover have "set (csPoints s) \<subseteq> (\<Union>c. set (points_of (tkNumber trk) c))" using s(2) by (auto simp: collected_def)
    ultimately show ?thesis using points_of_track by blast
  qed
  define mass where "mass = (case pdMass P (tkPID trk) of None \<Rightarrow> 0 | Some w \<Rightarrow> w)"
  obtain pts where p: "point_steps P mass None (pdSort P (csPoints s)) = Some pts"
      "map bare_point pts = map bare_point (pdSort P (csPoints s))"
    using point_steps_ok [of "pdSort P (csPoints s)" "tkNumber trk" None P mass] same by auto
  have pp: "map bare_point pts = pdSort P (csPoints s)" using p(2) same by (simp add: map_idI)
  have best: "csBest s < int (length (evGEMClust e))" using s(2) by (auto simp: collected_def split: if_splits)
  define u where "u = d \<lparr> dcMCTracks := evMCTracks e, dcMCHits := csHits s, dcMCPoints := pts,
      dcNHits := 2 * NumberOfSetBits (csHitbits s), dcHitBits := csHitbits s \<rparr>"
  have "dcBackTracks u = []" "calo_ready P (dcProfiles u) m e" using assms(3,4) by (simp_all add: u_def)
  then obtain ret bs q where b: "load_backtrack P m e s (hd (evMCTracks e)) u = Some (ret, u \<lparr> dcBackTracks := bs, dcSlots := q \<rparr>)"
      "truth_result P m e ret" "trackback m e s bs"
    using load_backtrack_ok [OF _ best, of P u] by blast
  have "load_truth P m e d = Some (ret, u \<lparr> dcBackTracks := bs, dcSlots := q \<rparr>)"
    using t s(1) p(1) b(1) by (simp add: load_truth_def Let_def mass_def u_def)
  moreover have "truth_kept P m e (u \<lparr> dcBackTracks := bs, dcSlots := q \<rparr>)"
    unfolding truth_kept_def using t s(2) pp b(3) by (intro exI [of _ s]) (simp add: u_def)
  ultimately show ?thesis using b(2) by (intro exI [of _ ret] exI [of _ "u \<lparr> dcBackTracks := bs, dcSlots := q \<rparr>"]) (simp add: u_def)
qed

text \<open>Loading an event returns.  The strips are filed; a refused strip and too small an energy end it with
  an error before any truth is kept, otherwise the truth is kept.\<close>

definition truth_empty :: "'s decoder \<Rightarrow> bool" where
  "truth_empty d \<longleftrightarrow> dcMCHits d = [] \<and> dcMCTracks d = [] \<and> dcMCPoints d = [] \<and> dcBackTracks d = []"

definition loaded :: "'s podd \<Rightarrow> int \<Rightarrow> dbm \<Rightarrow> simevent \<Rightarrow> hed \<Rightarrow> 's decoder \<Rightarrow> nat \<Rightarrow> bool" where
  "loaded P n m e ret d' k \<longleftrightarrow> (\<exists>r. filed P n m (evGEMStrips e) 0 Map.empty (dcStripMap d') r k)
     \<and> (if k < length (evGEMStrips e) \<or> below_threshold m e = Some True then ret = HED_ERR \<and> truth_empty d'
        else truth_result P m e ret \<and> truth_kept P m e d')"

lemma below_threshold_total: "calo_ready P pr m e \<Longrightarrow> \<exists>b. below_threshold m e = Some b"
  by (auto simp: calo_ready_def below_threshold_def Let_def)

lemma DoLoadEvent_ok:
  assumes "podd_ok P" "roc_setup P m n" "\<forall>s \<in> set (evGEMStrips e). strip_ok n m s"
    "distinct (map channel_of (evGEMStrips e))" "event_ok m e" "calo_ready P (dcProfiles d) m e"
  shows "\<exists>ret d' k. DoLoadEvent P m e d = Some (ret, d') \<and> dcSignalInfo d' = dcSignalInfo d \<and> loaded P n m e ret d' k"
proof -
  obtain slots where i: "(if dcNeedInit d then pdInit P (dcSlots d) else (HED_OK, dcSlots d)) = (HED_OK, slots)"
  proof (cases "dcNeedInit d")
    case True
    have "fst (pdInit P (dcSlots d)) = HED_OK" using assms(1) by (simp add: podd_ok_def)
    then show thesis using that [of "snd (pdInit P (dcSlots d))"] True by (cases "pdInit P (dcSlots d)") simp
  qed (simp add: that)
  define u where "u = (dc_Clear d) \<lparr> dcNeedInit := False, dcSlots := pdClearSlots P slots, dcEventNum := evEvtID e,
                  dcWeight := evWeight e \<rparr>"
  obtain ret M t k where l: "load_strips P m 0 (evGEMStrips e) (Map.empty, dcSlots u) = Some (ret, M, t)"
      "filed P n m (evGEMStrips e) 0 Map.empty M ret k"
    using load_strips_ok [OF assms(2,3,4), of Map.empty 0 "dcSlots u"] by auto
  define v where "v = u \<lparr> dcStripMap := M, dcSlots := t \<rparr>"
  have v: "dcBackTracks v = []" "dcStripMap v = M" "dcSignalInfo v = dcSignalInfo d" "truth_empty v" "dcProfiles v = dcProfiles d"
    by (simp_all add: v_def u_def dc_Clear_def truth_empty_def)
  have k: "k \<le> length (evGEMStrips e)" "if k = length (evGEMStrips e) then ret = HED_OK else ret = HED_ERR"
    using l(2) by (auto simp: filed_def)
  have D: "DoLoadEvent P m e d = (if ret \<noteq> HED_OK then Some (ret, v)
      else do { low \<leftarrow> below_threshold m e; if low then Some (HED_ERR, v) else load_truth P m e v })"
    unfolding DoLoadEvent_def i using l(1) by (simp add: u_def v_def dc_Clear_def Let_def cong: if_cong)
  obtain low where low: "below_threshold m e = Some low" using below_threshold_total [OF assms(6)] by blast
  show ?thesis
  proof (cases "k < length (evGEMStrips e) \<or> low")
    case True
    then have "DoLoadEvent P m e d = Some (HED_ERR, v)" using D low k by (auto split: if_splits)
    moreover have "loaded P n m e HED_ERR v k" using True low l(2) v(2,4) by (auto simp: loaded_def)
    ultimately show ?thesis using v(3) by blast
  next
    case False
    then have r: "DoLoadEvent P m e d = load_truth P m e v" using D low k by (auto split: if_splits)
    obtain ret' d' where t: "load_truth P m e v = Some (ret', d')" "truth_result P m e ret'" "dcStripMap d' = M"
        "dcSignalInfo d' = dcSignalInfo d" "truth_kept P m e d'"
      using load_truth_ok [OF assms(1,5) _ v(1)] assms(6) v(2,3,5) by auto
    have "loaded P n m e ret' d' k" using False low l(2) t(2,3,5) by (auto simp: loaded_def)
    then show ?thesis using r t(1,4) by auto
  qed
qed

text \<open>The back track that belongs to the clusters: made from a primary cluster of the lowest plane, with
  the bits of all planes with a primary cluster, and of those where a readout has no strip.\<close>

definition back_track_of :: "dbm \<Rightarrow> gemcluster list \<Rightarrow> backtrack \<Rightarrow> bool" where
  "back_track_of m cs b \<longleftrightarrow> (\<exists>c b0. c \<in> set cs \<and> is_primary c \<and> (\<forall>c' \<in> set cs. is_primary c' \<longrightarrow> gcPlane c \<le> gcPlane c')
     \<and> TSBSSimBackTrack m c = Some b0
     \<and> b = b0 \<lparr> btHitBits := btHitBits b, btUfailBits := btUfailBits b, btVfailBits := btVfailBits b \<rparr>)
     \<and> plane_bits (btHitBits b) (\<lambda>p. \<exists>c \<in> set cs. is_primary c \<and> gcPlane c = p)
     \<and> plane_bits (btUfailBits b) (\<lambda>p. \<exists>c \<in> set cs. is_primary c \<and> gcPlane c = p \<and> gcSize c ! 0 = 0)
     \<and> plane_bits (btVfailBits b) (\<lambda>p. \<exists>c \<in> set cs. is_primary c \<and> gcPlane c = p \<and> gcSize c ! 1 = 0)"

lemma trackback_of:
  assumes "collected m t (evGEMClust e) s" "trackback m e s bs"
  shows "(if \<exists>c \<in> set (evGEMClust e). is_primary c then \<exists>b. bs = [b] \<and> back_track_of m (evGEMClust e) b else bs = [])"
proof (cases "\<exists>c \<in> set (evGEMClust e). is_primary c")
  case True
  let ?c = "evGEMClust e ! nat (csBest s)"
  have s: "0 \<le> csBest s" "nat (csBest s) < length (evGEMClust e)" "is_primary ?c" "gcPlane ?c = csBestPlane s"
      "\<forall>c \<in> set (evGEMClust e). is_primary c \<longrightarrow> csBestPlane s \<le> gcPlane c"
    using assms(1) True by (auto simp: collected_def)
  obtain b0 where b0: "TSBSSimBackTrack m ?c = Some b0"
      "bs = [b0 \<lparr> btHitBits := csHitbits s, btUfailBits := csUfail s, btVfailBits := csVfail s \<rparr>]"
    using assms(2) s(1) by (auto simp: trackback_def)
  have "back_track_of m (evGEMClust e) (b0 \<lparr> btHitBits := csHitbits s, btUfailBits := csUfail s, btVfailBits := csVfail s \<rparr>)"
    unfolding back_track_of_def
  proof (intro conjI exI [of _ ?c] exI [of _ b0])
    show "?c \<in> set (evGEMClust e)" using s(2) by simp
  qed (use assms(1) s b0(1) in \<open>simp_all add: collected_def\<close>)
  then show ?thesis using True b0(2) by simp
next
  case False
  then show ?thesis using assms by (auto simp: collected_def trackback_def)
qed

text \<open>The trajectory is followed back by the distance in z along the unit vector of the momentum, so the
  origin has the z of the first plane only if the momentum has no transverse part.\<close>

lemma back_track_origin:
  assumes "0 < gcPlane c" "var_double (dbVars m ''z0'') = Some z0" "z0 < vz (gcMCpos c)" "TSBSSimBackTrack m c = Some b"
  shows "vz (btOrigin b) = z0 \<longleftrightarrow> vz (vunit (gcP c)) = 1"
proof -
  have o: "btOrigin b = gcMCpos c - (vz (gcMCpos c) - z0) *\<^sub>R vunit (gcP c)"
    using assms by (auto simp: TSBSSimBackTrack_def bt_Update_def Let_def)
  have "vz (btOrigin b) = vz (gcMCpos c) - (vz (gcMCpos c) - z0) * vz (vunit (gcP c))" by (simp add: o)
  also have "\<dots> = z0 \<longleftrightarrow> (vz (gcMCpos c) - z0) * (vz (vunit (gcP c)) - 1) = 0" by (auto simp: algebra_simps)
  finally show ?thesis using assms(3) by simp
qed

lemma filed_lookup:
  assumes "roc_setup P m n" "\<forall>s \<in> set sts. strip_ok n m s" "filed P n m sts 0 Map.empty M r k"
  shows "j < k \<Longrightarrow> lookup P m M (channel_of (sts ! j)) = Some (int j)"
    "channel_ok n (dbNModule m) c \<Longrightarrow> c \<notin> channel_of ` set (take k sts) \<Longrightarrow> lookup P m M c = Some (-1)"
proof -
  have k: "k \<le> length sts" "\<forall>j < k. M (strip_key n m (sts ! j)) = Some j"
      "\<forall>key. key \<notin> strip_key n m ` set (take k sts) \<longrightarrow> M key = None"
    using assms(3) by (simp_all add: filed_def)
  show "lookup P m M (channel_of (sts ! j)) = Some (int j)" if "j < k"
    using lookup_key [OF assms(1)] assms(2) k(1,2) that by (simp add: strip_ok_def strip_key_def)
  show "lookup P m M c = Some (-1)" if c: "channel_ok n (dbNModule m) c" "c \<notin> channel_of ` set (take k sts)"
  proof -
    have "roc_key n (dbNModule m) c \<notin> roc_key n (dbNModule m) ` channel_of ` set (take k sts)"
      using assms(1,2) c by (intro roc.key_new) (auto simp: roc_setup_def strip_ok_def dest: in_set_takeD)
    then have "roc_key n (dbNModule m) c \<notin> strip_key n m ` set (take k sts)"
      by (simp add: image_image strip_key_def)
    then show ?thesis using lookup_key [OF assms(1) c(1)] k(3) by simp
  qed
qed



section \<open>An example\<close>

definition poddEx :: "(int \<times> int \<times> int \<times> int) list podd" where
  "poddEx = \<lparr> pdInit = (\<lambda>s. (HED_OK, s)), pdClearSlots = (\<lambda>s. []),
     pdLoadData = (\<lambda>crate slot chan x y s. Some (s @ [(crate, slot, chan, y)])), pdSort = (\<lambda>pts. pts),
     pdMass = (\<lambda>p. None), pdAngle = (\<lambda>a b. 0), pdFloatBits = (\<lambda>x. 0), pdInvert4 = (\<lambda>x. x), pdMaxSlot = 32 \<rparr>"

definition dbmE :: dbm where
  "dbmE = dbm0 \<lparr> dbVars := [''chan_per_slot'' \<mapsto> DInt 2048, ''docalo'' \<mapsto> DInt 0, ''z0'' \<mapsto> DDouble 1],
     dbNModule := [1, 1], dbNChamber := 2 \<rparr>"

definition stripEx :: "int \<Rightarrow> int \<Rightarrow> gemstrip" where
  "stripEx plane chan = \<lparr> gsSector = 0, gsPlane = plane, gsModule = 0, gsProj = 0, gsChan = chan, gsSigType = 1, gsCharge = 1, gsTime1 = 0,
     gsNsamp = 1, gsADC = [5], gsClusters = [], gsClusterRatio = [], gsStripWeight = [] \<rparr>"

definition clusterEx :: "int \<Rightarrow> int \<Rightarrow> gemcluster" where
  "clusterEx plane ty = \<lparr> gcID = 1, gcSector = 0, gcPlane = plane, gcModule = 0, gcRealSector = None, gcSource = 0, gcType = ty,
     gcTRID = 1, gcPID = 11, gcP = Vec 0 0 1, gcPspec = 0, gcXEntry = 0, gcMCpos = Vec 0 0 2, gcHitpos = 0, gcCharge = 1,
     gcTime = 0, gcSize = [1, 0], gcStart = [0, 0], gcXProj = [0, 0], gcVertex = 0 \<rparr>"

definition eventEx :: simevent where
  "eventEx = (AddTrack 1 11 0 (Vec 0 0 1) 0 (Vec 0 0 1) simevent_new)
     \<lparr> evGEMClust := [clusterEx 1 1, clusterEx 0 2], evGEMStrips := [stripEx 0 7, stripEx 1 7] \<rparr>"

lemma eventEx_simps: "evGEMClust eventEx = [clusterEx 1 1, clusterEx 0 2]" "evGEMStrips eventEx = [stripEx 0 7, stripEx 1 7]"
  "map tkNumber (evMCTracks eventEx) = [1]"
  by (simp_all add: eventEx_def AddTrack_def simevent_new_def)

lemma dbmE_simps: "dbNModule dbmE = [1, 1]" "dbNChamber dbmE = 2" "dbVars dbmE ''chan_per_slot'' = Some (DInt 2048)"
  "dbVars dbmE ''docalo'' = Some (DInt 0)" "dbVars dbmE ''z0'' = Some (DDouble 1)"
  by (simp_all add: dbmE_def)

lemma exampleEx:
  "podd_ok poddEx" "roc_setup poddEx dbmE 2048" "\<forall>s \<in> set (evGEMStrips eventEx). strip_ok 2048 dbmE s"
  "distinct (map channel_of (evGEMStrips eventEx))" "event_ok dbmE eventEx" "calo_ready poddEx pr dbmE eventEx"
  "\<not> refuses poddEx m s"
proof -
  show "podd_ok poddEx" by (simp add: podd_ok_def poddEx_def)
  show "roc_setup poddEx dbmE 2048"
    by (simp add: roc_setup_def GetChanPerSlot_def dbmE_simps var_int_def counts_ok_def poddEx_def)
  show "\<forall>s \<in> set (evGEMStrips eventEx). strip_ok 2048 dbmE s"
    by (simp add: eventEx_simps strip_ok_def channel_ok_def channel_of_def stripEx_def dbmE_simps)
  show "distinct (map channel_of (evGEMStrips eventEx))" by (simp add: eventEx_simps channel_of_def stripEx_def)
  show "event_ok dbmE eventEx" using eventEx_simps(3)
    by (auto simp: event_ok_def eventEx_simps(1) cluster_wf_def clusterEx_def dbmE_simps)
  show "calo_ready poddEx pr dbmE eventEx"
    by (rule calo_ready_off) (simp_all add: DoCalo_def dbmE_simps var_int_def var_double_def)
  show "\<not> refuses poddEx m s" by (auto simp: refuses_def poddEx_def)
qed


text \<open>The same event with a BigBite cluster of 3 GeV, in a run that reads the calorimeter with a threshold
  of 2 GeV; and with one of 1 GeV.\<close>

definition dbmC :: dbm where
  "dbmC = dbmE \<lparr> dbVars := (dbVars dbmE)(''docalo'' \<mapsto> DInt 1, ''calo_thr'' \<mapsto> DDouble 2) \<rparr>"

definition eventC :: "real \<Rightarrow> simevent" where
  "eventC E = eventEx \<lparr> evECalClusters := [TSBSECalCluster E (Some 0) (Some 0) 0 10 0 0] \<rparr>"

lemma exampleC:
  "roc_setup poddEx dbmC 2048" "\<forall>s \<in> set (evGEMStrips (eventC E)). strip_ok 2048 dbmC s"
  "distinct (map channel_of (evGEMStrips (eventC E)))" "event_ok dbmC (eventC E)" "calo_ready poddEx pr dbmC (eventC E)"
  "below_threshold dbmC (eventC E) = Some (\<bar>E\<bar> < 2)" "\<not> calo_refuses poddEx (eventC E)" "evGEMClust (eventC E) = evGEMClust eventEx"
proof -
  have v: "dbVars dbmC ''docalo'' = Some (DInt 1)" "dbVars dbmC ''calo_thr'' = Some (DDouble 2)"
    "dbVars dbmC ''z0'' = Some (DDouble 1)" "dbVars dbmC ''chan_per_slot'' = Some (DInt 2048)" "dbNModule dbmC = [1, 1]" "dbNChamber dbmC = 2"
    by (simp_all add: dbmC_def dbmE_simps)
  have calo: "DoCalo dbmC = Some 1" "var_double (dbVars dbmC ''calo_thr'') = Some 2" "var_double (dbVars dbmC ''z0'') = Some 1"
    by (simp_all add: DoCalo_def v var_int_def var_double_def)
  show "roc_setup poddEx dbmC 2048"
    by (simp add: roc_setup_def GetChanPerSlot_def v var_int_def counts_ok_def poddEx_def)
  show "\<forall>s \<in> set (evGEMStrips (eventC E)). strip_ok 2048 dbmC s"
    by (simp add: eventC_def eventEx_simps strip_ok_def channel_ok_def channel_of_def stripEx_def v)
  show "distinct (map channel_of (evGEMStrips (eventC E)))" using exampleEx(4) by (simp add: eventC_def)
  show "event_ok dbmC (eventC E)" using exampleEx(5) by (simp add: event_ok_def eventC_def cluster_wf_def v dbmE_simps)
  show "calo_ready poddEx pr dbmC (eventC E)" by (simp add: calo_ready_def calo eventC_def TSBSECalCluster_def)
  show "below_threshold dbmC (eventC E) = Some (\<bar>E\<bar> < 2)" by (simp add: below_threshold_def calo eventC_def TSBSECalCluster_def)
  have "evScintClusters (eventC E) = []" by (simp add: eventC_def eventEx_def AddTrack_def simevent_new_def)
  then show "\<not> calo_refuses poddEx (eventC E)" by (simp add: calo_refuses_def) (simp add: poddEx_def)
  show "evGEMClust (eventC E) = evGEMClust eventEx" by (simp add: eventC_def)
qed


section \<open>The truth information\<close>

definition cluster_at :: "simevent \<Rightarrow> int \<Rightarrow> gemcluster" where
  "cluster_at e cid = evGEMClust e ! nat (cid - 1)"

text \<open>A cluster of the signal: from the signal file, primary, and of a particle of the signal list.\<close>

definition from_signal :: "(int \<times> int) list \<Rightarrow> gemcluster \<Rightarrow> bool" where
  "from_signal sig c \<longleftrightarrow> gcSource c = kPrimarySource \<and> gcType c = 1 \<and> (\<exists>s \<in> set sig. fst s = gcPID c)"

text \<open>Reference i of a strip is sound: the cluster is there, on the plane of the strip, and the strip has
  its weight and samples.\<close>

definition ref_ok :: "dbm \<Rightarrow> simevent \<Rightarrow> gemstrip \<Rightarrow> nat \<Rightarrow> int \<Rightarrow> bool" where
  "ref_ok m e strip i cid \<longleftrightarrow> 1 \<le> cid \<and> cid \<le> int (length (evGEMClust e)) \<and> gcID (cluster_at e cid) = cid
     \<and> gcPlane (cluster_at e cid) = gsPlane strip \<and> gcSector (cluster_at e cid) = gsSector strip
     \<and> i < length (gsStripWeight strip) \<and> 6 \<le> length (gsClusterRatio strip)
     \<and> (\<forall>its < 6. i < length (gsClusterRatio strip ! its))
     \<and> cluster_pos m (gsProj strip) (cluster_at e cid) \<noteq> None"

definition strip_linked :: "dbm \<Rightarrow> simevent \<Rightarrow> gemstrip \<Rightarrow> bool" where
  "strip_linked m e strip \<longleftrightarrow> 0 \<le> gsProj strip \<and> gsProj strip < dbNReadOut m
     \<and> (\<forall>i < length (gsClusters strip). ref_ok m e strip i (gsClusters strip ! i))"

definition cpos :: "dbm \<Rightarrow> gemstrip \<Rightarrow> gemcluster \<Rightarrow> real" where
  "cpos m strip c = the (cluster_pos m (gsProj strip) c)"

definition mean :: "real list \<Rightarrow> real" where
  "mean xs = sum_list xs / of_nat (length xs)"

lemma ratio_samples_ok:
  "(\<And>k. k < n \<Longrightarrow> its + k < length r \<and> i < length (r ! (its + k))) \<Longrightarrow>
    ratio_samples r i its n = Some (map (\<lambda>k. r ! (its + k) ! i) [0..<n])"
proof (induction n arbitrary: its)
  case (Suc n)
  have "ratio_samples r i (its + 1) n = Some (map (\<lambda>k. r ! (its + 1 + k) ! i) [0..<n])"
    using Suc.prems by (intro Suc.IH) (metis Suc_less_eq add.assoc plus_1_eq_Suc)
  moreover have "rd r its = Some (r ! its)" "rd (r ! its) i = Some (r ! its ! i)" using Suc.prems [of 0] by simp_all
  moreover have "map (\<lambda>k. r ! (its + k) ! i) [0..<Suc n] = r ! its ! i # map (\<lambda>k. r ! (its + 1 + k) ! i) [0..<n]"
    by (subst map_upt_Suc) simp
  ultimately show ?case by (simp del: rd_Some upt_Suc)
qed simp

lemma find_signal_none:
  "\<not> (gcType c = 1 \<and> (\<exists>s \<in> set sig. fst s = gcPID c)) \<Longrightarrow> find_signal sig c ii r = r"
  by (induction sig arbitrary: ii) auto

lemma find_signal_some:
  "gcType c = 1 \<Longrightarrow> \<exists>s \<in> set sig. fst s = gcPID c \<Longrightarrow>
    \<exists>k < length sig. find_signal sig c ii r = ii + int k \<and> fst (sig ! k) = gcPID c"
proof (induction sig arbitrary: ii r)
  case (Cons s sig)
  show ?case
  proof (cases "\<exists>s \<in> set sig. fst s = gcPID c")
    case True
    obtain k where "k < length sig" "find_signal sig c (ii + 1) (if gcType c = 1 \<and> gcPID c = fst s then ii else r) = ii + 1 + int k"
        "fst (sig ! k) = gcPID c" using Cons.IH [OF Cons.prems(1) True] by blast
    then show ?thesis by (intro exI [of _ "Suc k"]) (cases s, simp)
  next
    case False
    then have "find_signal sig c (ii + 1) ii = ii" by (intro find_signal_none) blast
    then show ?thesis using False Cons.prems by (intro exI [of _ 0]) (cases s, auto)
  qed
qed simp

text \<open>What is known after the clusters cs.\<close>

definition info_ok :: "dbm \<Rightarrow> (int \<times> int) list \<Rightarrow> gemstrip \<Rightarrow> gemcluster list \<Rightarrow> mchitinfo \<Rightarrow> real \<Rightarrow> bool" where
  "info_ok m sig strip cs mc nov \<longleftrightarrow>
     (let S = filter (from_signal sig) cs; B = filter (\<lambda>c. \<not> from_signal sig c) cs in
      nov = of_nat (length S) \<and> mcContam mc = int (length B)
      \<and> mcClusterID mc = map (\<lambda>c. gcID c - 1) cs \<and> mcClusterType mc = map gcSource cs
      \<and> mcClusterPeakTime mc = map gcTime cs \<and> mcClusterPos mc = map gcHitpos cs \<and> mcClusterCharge mc = map gcCharge cs
      \<and> mcClusterStripWeight mc = take (length cs) (gsStripWeight strip)
      \<and> mcClusterADC mc = map (\<lambda>its. take (length cs) (gsClusterRatio strip ! its)) [0..<6]
      \<and> (if S = [] then mcTrack mc = 0 \<and> mcPos mc = sum_list (map (cpos m strip) B)
         else (\<exists>s \<in> set sig. fst s = gcPID (hd S) \<and> mcTrack mc = snd s)
           \<and> mcPos mc = sum_list (map (cpos m strip) S) \<and> mcTime mc = sum_list (map gcTime S)))"

definition signals_ok :: "(int \<times> int) list \<Rightarrow> bool" where
  "signals_ok sig \<longleftrightarrow> (\<forall>s \<in> set sig. 0 < snd s)"

lemma info_cluster_ok:
  assumes "ref_ok m e strip (length cs) cid" "info_ok m sig strip cs mc nov" "signals_ok sig"
  shows "\<exists>mc' nov'. info_cluster m sig e strip (length cs) cid (mc, nov) = Some (mc', nov')
    \<and> info_ok m sig strip (cs @ [cluster_at e cid]) mc' nov' \<and> mcSigType mc' = mcSigType mc \<and> mcCharge mc' = mcCharge mc"
proof -
  let ?c = "cluster_at e cid" and ?i = "length cs"
  have r: "rdi (evGEMClust e) (cid - 1) = Some ?c" using assms(1) by (simp add: ref_ok_def rdi_def cluster_at_def rd_def nat_less_iff)
  have w: "rd (gsStripWeight strip) ?i = Some (gsStripWeight strip ! ?i)" using assms(1) by (simp add: ref_ok_def)
  have a: "ratio_samples (gsClusterRatio strip) ?i 0 6 = Some (map (\<lambda>k. gsClusterRatio strip ! k ! ?i) [0..<6])"
    using ratio_samples_ok [of 6 0 "gsClusterRatio strip" ?i] assms(1) by (simp add: ref_ok_def)
  obtain x where x: "cluster_pos m (gsProj strip) ?c = Some x" "cpos m strip ?c = x" using assms(1) by (auto simp: ref_ok_def cpos_def)
  have k: "gcID ?c = cid" "gsPlane strip = gcPlane ?c" "gsSector strip = gcSector ?c" using assms(1) by (auto simp: ref_ok_def)
  define u where "u = mc \<lparr> mcClusterID := mcClusterID mc @ [cid - 1], mcClusterType := mcClusterType mc @ [gcSource ?c],
           mcClusterPeakTime := mcClusterPeakTime mc @ [gcTime ?c], mcClusterPos := mcClusterPos mc @ [gcHitpos ?c],
           mcClusterCharge := mcClusterCharge mc @ [gcCharge ?c],
           mcClusterStripWeight := mcClusterStripWeight mc @ [gsStripWeight strip ! ?i],
           mcClusterADC := map2 (\<lambda>v a. v @ [a]) (mcClusterADC mc) (map (\<lambda>k. gsClusterRatio strip ! k ! ?i) [0..<6]) \<rparr>"
  have keep: "mcTrack u = mcTrack mc" "mcPos u = mcPos mc" "mcTime u = mcTime mc" "mcContam u = mcContam mc"
      "mcSigType u = mcSigType mc" "mcCharge u = mcCharge mc"
    by (simp_all add: u_def)
  have more: "mcClusterID u = map (\<lambda>c. gcID c - 1) (cs @ [?c])" "mcClusterType u = map gcSource (cs @ [?c])"
      "mcClusterPeakTime u = map gcTime (cs @ [?c])" "mcClusterPos u = map gcHitpos (cs @ [?c])"
      "mcClusterCharge u = map gcCharge (cs @ [?c])"
      "mcClusterStripWeight u = take (length (cs @ [?c])) (gsStripWeight strip)"
    using assms(1,2) k(1) by (simp_all add: u_def info_ok_def Let_def ref_ok_def take_Suc_conv_app_nth)
  have adc: "mcClusterADC u = map (\<lambda>its. take (length (cs @ [?c])) (gsClusterRatio strip ! its)) [0..<6]"
  proof -
    have "mcClusterADC mc = map (\<lambda>its. take ?i (gsClusterRatio strip ! its)) [0..<6]"
      using assms(2) by (simp only: info_ok_def Let_def)
    then have "mcClusterADC u = map (\<lambda>its. take ?i (gsClusterRatio strip ! its) @ [gsClusterRatio strip ! its ! ?i]) [0..<6]"
      by (simp add: u_def map2_map_map)
    also have "\<dots> = map (\<lambda>its. take (length (cs @ [?c])) (gsClusterRatio strip ! its)) [0..<6]"
      using assms(1) by (intro map_cong refl) (simp add: ref_ok_def take_Suc_conv_app_nth)
    finally show ?thesis .
  qed
  let ?sid = "find_signal sig ?c 0 (-1)"
  have step: "info_cluster m sig e strip ?i cid (mc, nov) =
      (if 0 \<le> ?sid \<and> gcSource ?c = kPrimarySource then
         (if 0 < mcTrack u then Some (u \<lparr> mcPos := mcPos u + x, mcTime := mcTime u + gcTime ?c \<rparr>, nov + 1)
          else do { (pid, tid) \<leftarrow> rdi sig ?sid; Some (u \<lparr> mcTrack := tid, mcPos := x, mcTime := gcTime ?c \<rparr>, nov + 1) })
       else if mcTrack u = 0 then Some (u \<lparr> mcContam := mcContam u + 1, mcPos := mcPos u + x \<rparr>, nov)
       else Some (u \<lparr> mcContam := mcContam u + 1 \<rparr>, nov))"
    unfolding info_cluster_def
    by (simp only: Let_def prod.case r w a x(1) bind.bind_lunit u_def [symmetric] k simp_thms if_False) simp
  show ?thesis
  proof (cases "from_signal sig ?c")
    case True
    obtain j where j: "j < length sig" "?sid = int j" "fst (sig ! j) = gcPID ?c"
      using find_signal_some [of ?c sig 0 "-1"] True by (auto simp: from_signal_def)
    have tid: "rdi sig ?sid = Some (sig ! j)" using j by (simp add: rdi_def)
    have src: "gcSource ?c = kPrimarySource" using True by (simp add: from_signal_def)
    show ?thesis
    proof (cases "filter (from_signal sig) cs = []")
      case none: True
      have t0: "mcTrack u = 0" using assms(2) none keep(1) by (simp add: info_ok_def Let_def)
      have s: "info_cluster m sig e strip ?i cid (mc, nov) = Some (u \<lparr> mcTrack := snd (sig ! j), mcPos := x, mcTime := gcTime ?c \<rparr>, nov + 1)"
        unfolding step using j(2) src t0 tid by (simp del: rd_Some add: case_prod_unfold rdi_def)
      have "sig ! j \<in> set sig" using j(1) by simp
      then have "info_ok m sig strip (cs @ [?c]) (u \<lparr> mcTrack := snd (sig ! j), mcPos := x, mcTime := gcTime ?c \<rparr>) (nov + 1)"
        using more adc assms(2) True none keep x(2) j(3) unfolding info_ok_def Let_def by auto
      then show ?thesis using s keep by simp
    next
      case some: False
      have t0: "0 < mcTrack u" using assms(2,3) some keep(1) by (auto simp: info_ok_def Let_def signals_ok_def)
      have s: "info_cluster m sig e strip ?i cid (mc, nov) = Some (u \<lparr> mcPos := mcPos u + x, mcTime := mcTime u + gcTime ?c \<rparr>, nov + 1)"
        unfolding step using j(2) src t0 by simp
      have "info_ok m sig strip (cs @ [?c]) (u \<lparr> mcPos := mcPos u + x, mcTime := mcTime u + gcTime ?c \<rparr>) (nov + 1)"
        using more adc assms(2) True some keep x(2) unfolding info_ok_def Let_def by simp
      then show ?thesis using s keep by simp
    qed
  next
    case False
    have no: "\<not> (0 \<le> ?sid \<and> gcSource ?c = kPrimarySource)"
    proof (cases "gcSource ?c = kPrimarySource")
      case True
      then have "\<not> (gcType ?c = 1 \<and> (\<exists>s \<in> set sig. fst s = gcPID ?c))" using False by (simp add: from_signal_def)
      then show ?thesis by (simp add: find_signal_none)
    qed simp
    have t: "mcTrack u = 0 \<longleftrightarrow> filter (from_signal sig) cs = []"
      using assms(2,3) keep(1) by (auto simp: info_ok_def Let_def signals_ok_def split: if_splits)
    show ?thesis
    proof (cases "filter (from_signal sig) cs = []")
      case none: True
      have s: "info_cluster m sig e strip ?i cid (mc, nov) = Some (u \<lparr> mcContam := mcContam u + 1, mcPos := mcPos u + x \<rparr>, nov)"
        unfolding step if_not_P [OF no] using t none by simp
      have "info_ok m sig strip (cs @ [?c]) (u \<lparr> mcContam := mcContam u + 1, mcPos := mcPos u + x \<rparr>) nov"
        using more adc assms(2) False none keep x(2) unfolding info_ok_def Let_def by simp
      then show ?thesis using s keep by simp
    next
      case some: False
      have s: "info_cluster m sig e strip ?i cid (mc, nov) = Some (u \<lparr> mcContam := mcContam u + 1 \<rparr>, nov)"
        unfolding step if_not_P [OF no] using t some by simp
      have "info_ok m sig strip (cs @ [?c]) (u \<lparr> mcContam := mcContam u + 1 \<rparr>) nov"
        using more adc assms(2) False some keep x(2) unfolding info_ok_def Let_def by simp
      then show ?thesis using s keep by simp
    qed
  qed
qed


lemma info_clusters_ok:
  "\<forall>i < length cids. ref_ok m e strip (length cs + i) (cids ! i) \<Longrightarrow> info_ok m sig strip cs mc nov \<Longrightarrow> signals_ok sig \<Longrightarrow>
    \<exists>mc' nov'. info_clusters m sig e strip (length cs) cids (mc, nov) = Some (mc', nov')
    \<and> info_ok m sig strip (cs @ map (cluster_at e) cids) mc' nov' \<and> mcSigType mc' = mcSigType mc \<and> mcCharge mc' = mcCharge mc"
proof (induction cids arbitrary: cs mc nov)
  case (Cons cid cids)
  have "ref_ok m e strip (length cs) cid" using Cons.prems(1) [rule_format, of 0] by simp
  then obtain mc1 nov1 where a: "info_cluster m sig e strip (length cs) cid (mc, nov) = Some (mc1, nov1)"
      "info_ok m sig strip (cs @ [cluster_at e cid]) mc1 nov1" "mcSigType mc1 = mcSigType mc" "mcCharge mc1 = mcCharge mc"
    using info_cluster_ok [OF _ Cons.prems(2,3)] by blast
  have "\<forall>i < length cids. ref_ok m e strip (length (cs @ [cluster_at e cid]) + i) (cids ! i)"
    using Cons.prems(1) by fastforce
  then obtain mc2 nov2 where b: "info_clusters m sig e strip (length (cs @ [cluster_at e cid])) cids (mc1, nov1) = Some (mc2, nov2)"
      "info_ok m sig strip ((cs @ [cluster_at e cid]) @ map (cluster_at e) cids) mc2 nov2"
      "mcSigType mc2 = mcSigType mc1" "mcCharge mc2 = mcCharge mc1"
    using Cons.IH [OF _ a(2) Cons.prems(3)] by blast
  show ?case using a b by simp
qed simp

lemma strip_refs:
  "strip_linked m e strip \<Longrightarrow> map (\<lambda>c. gcID c - 1) (map (cluster_at e) (gsClusters strip)) = map (\<lambda>cid. cid - 1) (gsClusters strip)"
  by (auto simp: strip_linked_def ref_ok_def in_set_conv_nth)

lemma strip_info_ok:
  assumes "strip_linked m e strip" "signals_ok sig"
    "\<not> (bit (gsSigType strip) kInducedStrip \<and> \<not> bit (gsSigType strip) 0 \<and> \<not> bit (gsSigType strip) 1)"
    "cs = map (cluster_at e) (gsClusters strip)" "S = filter (from_signal sig) cs"
  shows "\<exists>mc. strip_info m sig e strip = Some mc \<and> mcSigType mc = gsSigType strip \<and> mcCharge mc = gsCharge strip
    \<and> mcClusterID mc = map (\<lambda>cid. cid - 1) (gsClusters strip)
    \<and> mcClusterStripWeight mc = take (length cs) (gsStripWeight strip)
    \<and> mcClusterADC mc = map (\<lambda>its. take (length cs) (gsClusterRatio strip ! its)) [0..<6]
    \<and> mcContam mc = int (length cs) - int (length S)
    \<and> (if S = [] then mcTrack mc = 0 \<and> mcPos mc = mean (map (cpos m strip) cs) \<and> mcTime mc = gsTime1 strip
       else mcTrack mc \<in> snd ` {s \<in> set sig. fst s = gcPID (hd S)} \<and> mcPos mc = mean (map (cpos m strip) S)
         \<and> mcTime mc = mean (map gcTime S))"
proof -
  let ?mc0 = "TSBSMCHitInfo \<lparr> mcSigType := gsSigType strip, mcCharge := gsCharge strip \<rparr>"
  have i0: "info_ok m sig strip [] ?mc0 0"
    by (simp add: info_ok_def TSBSMCHitInfo_def Let_def numeral_eq_Suc)
  have refs: "\<forall>i < length (gsClusters strip). ref_ok m e strip (length ([] :: gemcluster list) + i) (gsClusters strip ! i)"
    using assms(1) by (simp add: strip_linked_def)
  obtain mc nov where l: "info_clusters m sig e strip 0 (gsClusters strip) (?mc0, 0) = Some (mc, nov)"
      "info_ok m sig strip cs mc nov" "mcSigType mc = gsSigType strip" "mcCharge mc = gsCharge strip"
    using info_clusters_ok [OF refs i0 assms(2)] assms(4) by auto
  have n: "length (filter (\<lambda>c. \<not> from_signal sig c) cs) = length cs - length S" "length S \<le> length cs"
    using sum_length_filter_compl [of "from_signal sig" cs] by (auto simp: assms(5))
  have ids: "mcClusterID mc = map (\<lambda>cid. cid - 1) (gsClusters strip)" "mcClusterStripWeight mc = take (length cs) (gsStripWeight strip)"
      "mcClusterADC mc = map (\<lambda>its. take (length cs) (gsClusterRatio strip ! its)) [0..<6]"
      "mcContam mc = int (length cs) - int (length S)"
    using l(2) strip_refs [OF assms(1)] n by (auto simp: info_ok_def Let_def assms(4) of_nat_diff)
  have proj: "0 \<le> gsProj strip" "gsProj strip < dbNReadOut m" using assms(1) by (auto simp: strip_linked_def)
  have run: "strip_info m sig e strip = do {
       (mc, nov) \<leftarrow> info_clusters m sig e strip 0 (gsClusters strip) (?mc0, 0);
       if \<not> (gsClusters strip = [] \<or> 0 < mcTrack mc \<or> 0 < mcContam mc) then None
       else if mcTrack mc = 0 then
         Some (mc \<lparr> mcPos := (if 1 < mcContam mc then mcPos mc / of_int (mcContam mc) else mcPos mc),
                  mcTime := gsTime1 strip \<rparr>)
       else do {
         pos \<leftarrow> c_div (mcPos mc) nov; t \<leftarrow> c_div (mcTime mc) nov;
         Some (mc \<lparr> mcPos := pos, mcTime := t \<rparr>) } }"
    using proj unfolding strip_info_def Let_def if_not_P [OF assms(3)] by simp
  show ?thesis
  proof (cases "S = []")
    case True
    have B: "filter (\<lambda>c. \<not> from_signal sig c) cs = cs" using True by (simp add: assms(5) filter_empty_conv)
    have t: "mcTrack mc = 0" "mcPos mc = sum_list (map (cpos m strip) cs)"
      using l(2) True B by (simp_all add: info_ok_def Let_def assms(5))
    let ?r = "mc \<lparr> mcPos := (if 1 < mcContam mc then mcPos mc / of_int (mcContam mc) else mcPos mc), mcTime := gsTime1 strip \<rparr>"
    have some: "gsClusters strip = [] \<or> 0 < mcTrack mc \<or> 0 < mcContam mc"
      using ids(4) True by (cases "gsClusters strip = []") (simp_all add: assms(4))
    have r: "strip_info m sig e strip = Some ?r"
      unfolding run l(1) using some t(1) by simp
    have "mcPos ?r = mean (map (cpos m strip) cs)"
    proof (cases "1 < mcContam mc")
      case False
      then have "length cs \<le> 1" using ids(4) True by simp
      then show ?thesis using False t(2) by (cases cs) (simp_all add: mean_def)
    qed (use ids(4) True t(2) in \<open>simp add: mean_def\<close>)
    then show ?thesis using True r l(3,4) ids t(1) by (intro exI [of _ ?r]) simp
  next
    case False
    have t: "\<exists>s \<in> set sig. fst s = gcPID (hd S) \<and> mcTrack mc = snd s" "mcPos mc = sum_list (map (cpos m strip) S)"
        "mcTime mc = sum_list (map gcTime S)" "nov = of_nat (length S)"
      using l(2) False by (simp_all add: info_ok_def Let_def assms(5))
    have pos: "0 < mcTrack mc" using t(1) assms(2) by (auto simp: signals_ok_def)
    let ?r = "mc \<lparr> mcPos := mcPos mc / nov, mcTime := mcTime mc / nov \<rparr>"
    have r: "strip_info m sig e strip = Some ?r"
      unfolding run l(1) using pos t(4) False by (simp add: c_div_def)
    have "mcPos ?r = mean (map (cpos m strip) S)" "mcTime ?r = mean (map gcTime S)" using t by (simp_all add: mean_def)
    moreover have "mcTrack mc \<in> snd ` {s \<in> set sig. fst s = gcPID (hd S)}" using t(1) by auto
    ultimately show ?thesis using False r l(3,4) ids by (intro exI [of _ ?r]) simp
  qed
qed

text \<open>C5. The truth information of a strip whose references are sound is always found, none of the
  assertions on the way fails.  Every cluster of the strip is listed with its weight and its samples.
  A strip with signal has the track of the signal and, as position and time, the mean over exactly its
  signal clusters; a strip with background only has track 0, the mean position of all its clusters and
  its own time.  The contamination counts the other clusters.\<close>

theorem MCHitInfo_truth:
  assumes "strip_linked m e strip" "signals_ok sig"
    "\<not> (bit (gsSigType strip) kInducedStrip \<and> \<not> bit (gsSigType strip) 0 \<and> \<not> bit (gsSigType strip) 1)"
    "cs = map (cluster_at e) (gsClusters strip)" "S = filter (from_signal sig) cs"
  shows "\<exists>mc. strip_info m sig e strip = Some mc \<and> mcSigType mc = gsSigType strip \<and> mcCharge mc = gsCharge strip
    \<and> mcClusterID mc = map (\<lambda>cid. cid - 1) (gsClusters strip)
    \<and> mcClusterStripWeight mc = take (length cs) (gsStripWeight strip)
    \<and> mcClusterADC mc = map (\<lambda>its. take (length cs) (gsClusterRatio strip ! its)) [0..<6]
    \<and> mcContam mc = int (length cs) - int (length S)
    \<and> (if S = [] then mcTrack mc = 0 \<and> mcPos mc = mean (map (cpos m strip) cs) \<and> mcTime mc = gsTime1 strip
       else mcTrack mc \<in> snd ` {s \<in> set sig. fst s = gcPID (hd S)} \<and> mcPos mc = mean (map (cpos m strip) S)
         \<and> mcTime mc = mean (map gcTime S))"
  using strip_info_ok [OF assms] .

lemma geometry_total:
  assumes "geometry_ok m"
  shows "GetXOffset m i j \<noteq> None" "GetPosFromModuleStrip m proj i j strip \<noteq> None"
  using geo_query_total [OF assms, of g_xoffset i j 0] CheckIndex_total [OF assms, of i j 0]
  by (auto simp: GetXOffset_def GetPosFromModuleStrip_def geo_at_def rdi_def rd_def)

lemma cluster_pos_total:
  assumes "geometry_ok m" "0 \<le> proj" "proj < int (length (gcXProj c))"
  shows "cluster_pos m proj c \<noteq> None"
proof -
  obtain x where "GetXOffset m (gcPlane c) (gcModule c) = Some x" using geometry_total(1) [OF assms(1)] by blast
  then show ?thesis using assms(2,3) by (simp add: cluster_pos_def rdi_def rd_def)
qed

definition stripTr :: gemstrip where
  "stripTr = (stripEx 0 7) \<lparr> gsClusters := [1, 2], gsClusterRatio := replicate 6 [3, 4], gsStripWeight := [None, None] \<rparr>"

definition eventTr :: simevent where
  "eventTr = eventEx \<lparr> evGEMClust := [(clusterEx 0 1) \<lparr> gcSource := 1, gcXProj := [7, 0] \<rparr>,
     (clusterEx 0 1) \<lparr> gcID := 2, gcTime := 5, gcXProj := [3, 0] \<rparr>] \<rparr>"

definition dbmTr :: dbm where
  "dbmTr = dbmE \<lparr> dbNReadOut := 2, dbNChamber := 0 \<rparr>"

text \<open>A strip with a background cluster at 7 and a signal cluster at 3; the plane is none of the
  database, so the offset is the error value.\<close>

theorem MCHitInfo_truth_witness:
  "\<exists>mc. strip_info dbmTr [(11, 1)] eventTr stripTr = Some mc \<and> mcTrack mc = 1 \<and> mcContam mc = 1
    \<and> mcPos mc = 3 + fErrVal \<and> mcTime mc = 5 \<and> mcClusterID mc = [0, 1]"
proof -
  let ?c1 = "(clusterEx 0 1) \<lparr> gcSource := 1, gcXProj := [7, 0] \<rparr>"
  let ?c2 = "(clusterEx 0 1) \<lparr> gcID := 2, gcTime := 5, gcXProj := [3, 0] \<rparr>"
  have cl: "gsClusters stripTr = [1, 2]" by (simp add: stripTr_def)
  have at: "cluster_at eventTr 1 = ?c1" "cluster_at eventTr 2 = ?c2" by (simp_all add: cluster_at_def eventTr_def)
  have f: "gsProj stripTr = 0" "gsPlane stripTr = 0" "gsSector stripTr = 0" "gsSigType stripTr = 1"
    by (simp_all add: stripTr_def stripEx_def)
  have cf: "gcID ?c1 = 1" "gcID ?c2 = 2" "gcPlane ?c1 = 0" "gcPlane ?c2 = 0" "gcSector ?c1 = 0" "gcSector ?c2 = 0"
    "gcXProj ?c1 = [7, 0]" "gcXProj ?c2 = [3, 0]" "gcTime ?c2 = 5" "gcSource ?c1 = 1" "gcSource ?c2 = 0" "gcType ?c2 = 1" "gcPID ?c2 = 11"
    by (simp_all add: clusterEx_def)
  have n: "dbNChamber dbmTr = 0" "dbNReadOut dbmTr = 2" by (simp_all add: dbmTr_def)
  have "CheckIndex dbmTr i j 0 = Some False" for i j by (auto simp: CheckIndex_False n)
  then have xo: "GetXOffset dbmTr i j = Some fErrVal" for i j by (simp add: GetXOffset_def geo_query_def)
  have pos: "cluster_pos dbmTr 0 ?c1 = Some (7 + fErrVal)" "cluster_pos dbmTr 0 ?c2 = Some (3 + fErrVal)"
    by (simp_all add: cluster_pos_def rdi_def rd_def xo cf)
  have "ref_ok dbmTr eventTr stripTr 0 1" "ref_ok dbmTr eventTr stripTr 1 2"
    unfolding ref_ok_def at f cf pos by (simp_all add: stripTr_def eventTr_def)
  then have linked: "strip_linked dbmTr eventTr stripTr" by (simp add: strip_linked_def cl f n less_Suc_eq)
  have sig: "\<not> from_signal [(11, 1)] ?c1" "from_signal [(11, 1)] ?c2"
    unfolding from_signal_def cf kPrimarySource_def by simp_all
  have cs: "map (cluster_at eventTr) (gsClusters stripTr) = [?c1, ?c2]" by (simp add: cl at)
  have S: "filter (from_signal [(11, 1)]) (map (cluster_at eventTr) (gsClusters stripTr)) = [?c2]"
    unfolding cs filter.simps using sig by simp
  have ind: "\<not> (bit (gsSigType stripTr) kInducedStrip \<and> \<not> bit (gsSigType stripTr) 0 \<and> \<not> bit (gsSigType stripTr) 1)"
    by (simp add: f)
  have so: "signals_ok [(11, 1)]" by (simp add: signals_ok_def)
  obtain mc where mc: "strip_info dbmTr [(11, 1)] eventTr stripTr = Some mc" "mcClusterID mc = map (\<lambda>cid. cid - 1) (gsClusters stripTr)"
      "mcContam mc = int (length [?c1, ?c2]) - int (length [?c2])" "mcTrack mc \<in> snd ` {s \<in> set [(11, 1)]. fst s = gcPID ?c2}"
      "mcPos mc = mean (map (cpos dbmTr stripTr) [?c2])" "mcTime mc = mean (map gcTime [?c2])"
    using MCHitInfo_truth [OF linked so ind refl refl, unfolded S, unfolded cs] by auto
  have "mcPos mc = 3 + fErrVal" using mc(5) by (simp add: mean_def cpos_def f pos)
  moreover have "mcTime mc = 5" using mc(6) cf by (simp add: mean_def)
  moreover have "mcTrack mc = 1" using mc(4) by auto
  ultimately show ?thesis using mc(1-3) cl by (intro exI [of _ mc]) simp
qed

end
