(* ===== verification/DecoderSetup.thy ===== *)
theory DecoderSetup
  imports Decoder "HOL-Library.Sublist"
begin

text \<open>
  Setting up the decoder, src/src/TSBSSimDecoder.cxx: the constructor and the reader of the shower
  profiles (load\_shower\_profiles).  The operations of TString are parameters, used through their
  documented behaviour (tstring\_ok); streams and their extraction operators are those of DBManager.
\<close>

section \<open>The reader\<close>

text \<open>TString: ReadFile (the content of the file, None if it could not be opened), Index with its start,
  the substring of given start and length, ReplaceAll, Form with one integer.\<close>

record tstring =
  tsReadFile :: "string option \<Rightarrow> string"
  tsIndex :: "string \<Rightarrow> string \<Rightarrow> int \<Rightarrow> int"
  tsSub :: "string \<Rightarrow> int \<Rightarrow> int \<Rightarrow> string"
  tsReplaceAll :: "string \<Rightarrow> string \<Rightarrow> string \<Rightarrow> string"
  tsForm :: "string \<Rightarrow> int \<Rightarrow> string"

text \<open>The stream over Data(), which ends at the first NUL.\<close>

definition data_stream :: "string \<Rightarrow> stream" where
  "data_stream s = open_stream (takeWhile (\<lambda>c. c \<noteq> CHR 0x00) s)"

text \<open>Extraction into a variable that has a value.\<close>

definition get_int :: "stream \<Rightarrow> int \<Rightarrow> stream \<times> int" where
  "get_int sv old = map_prod id the (read_int sv (Some old))"

definition get_double :: "stream \<Rightarrow> real \<Rightarrow> stream \<times> real" where
  "get_double sv old = map_prod id the (read_double sv (Some old))"

text \<open>The end of the line of a header, and what follows the header in its line.\<close>

definition header_line :: "tstring \<Rightarrow> string \<Rightarrow> string \<Rightarrow> int \<times> stream" where
  "header_line T file stemp =
     (let istart = tsIndex T file stemp 0;
          istop = tsIndex T file [CHR 0x0A] istart;
          istop = (if istop < 0 then int (length file) - 1 else istop)
      in (istop, data_stream (tsReplaceAll T (tsSub T file istart (istop - istart)) stemp [])))"

definition read_header :: "stream \<Rightarrow> int \<Rightarrow> real \<Rightarrow> real \<Rightarrow> int \<times> real \<times> real" where
  "read_header s n lo hi =
     (let (s, n) = get_int s n; (s, lo) = get_double s lo; (s, hi) = get_double s hi in (n, lo, hi))"

text \<open>What lies between the end of the header line and the next header.\<close>

definition profile_data :: "tstring \<Rightarrow> string \<Rightarrow> string \<Rightarrow> int \<Rightarrow> stream" where
  "profile_data T file next_header istop =
     (let istart = istop;
          istop = tsIndex T file next_header istart;
          istop = (if istop < 0 then int (length file) - 1 else istop)
      in data_stream (tsSub T file (istart + 1) (istop - istart - 1)))"

fun read_fracs :: "stream \<Rightarrow> real list \<Rightarrow> real list" where
  "read_fracs s [] = []"
| "read_fracs s (x # xs) = (let (s, y) = get_double s x in y # read_fracs s xs)"

text \<open>One profile: a vector cannot get a negative size (resize throws), and the largest number of
  bins overflows.\<close>

definition read_profile :: "tstring \<Rightarrow> string \<Rightarrow> string \<Rightarrow> string \<Rightarrow> shower_profile_t \<Rightarrow> shower_profile_t option" where
  "read_profile T file stemp next_header p =
     (let (istop, s) = header_line T file stemp;
          (n, lo, hi) = read_header s (spNbinsMom p) (spXmin p) (spXmax p)
      in if n + 1 < 0 \<or> n = 2147483647 then None
         else Some \<lparr> spNbinsMom = n, spXmin = lo, spXmax = hi,
           spFrac = read_fracs (profile_data T file next_header istop) (resize (nat (n + 1)) 0 (spFrac p)) \<rparr>)"

text \<open>The profiles of the bins, from number k on.\<close>

fun read_bins :: "tstring \<Rightarrow> string \<Rightarrow> string \<Rightarrow> int \<Rightarrow> shower_profile_t list \<Rightarrow> shower_profile_t list option" where
  "read_bins T file fmt k [] = Some []"
| "read_bins T file fmt k (p # ps) = do {
     q \<leftarrow> read_profile T file (tsForm T fmt (k + 1)) ''ECAL'' p;
     qs \<leftarrow> read_bins T file fmt (k + 1) ps;
     Some (q # qs) }"

text \<open>The number of bins and the range of one coordinate, and its profiles.\<close>

definition profile0 :: shower_profile_t where
  "profile0 = \<lparr> spNbinsMom = 0, spXmin = 0, spXmax = 0, spFrac = [] \<rparr>"

definition read_axis ::
  "tstring \<Rightarrow> string \<Rightarrow> string \<Rightarrow> string \<Rightarrow> int \<Rightarrow> real \<Rightarrow> real \<Rightarrow> shower_profile_t list \<Rightarrow> (int \<times> real \<times> real \<times> shower_profile_t list) option" where
  "read_axis T file stemp fmt n lo hi ps =
     (let (istop, s) = header_line T file stemp; (n, lo, hi) = read_header s n lo hi
      in if n < 0 then None
         else do { qs \<leftarrow> read_bins T file fmt 0 (resize (nat n) profile0 ps); Some (n, lo, hi, qs) })"

definition load_shower_profiles :: "tstring \<Rightarrow> string option \<Rightarrow> shower_profiles \<Rightarrow> (bool \<times> shower_profiles) option" where
  "load_shower_profiles T f pr = do {
     let file = tsReadFile T f;
     dx \<leftarrow> read_profile T file ''ECAL_shower_profile_x_default'' ''ECAL_shower_profile'' (prDefaultX pr);
     dy \<leftarrow> read_profile T file ''ECAL_shower_profile_y_default'' ''ECAL_shower_profile'' (prDefaultY pr);
     (nx, xmin, xmax, xs) \<leftarrow> read_axis T file ''ECAL_shower_profiles_x'' ''ECAL_shower_profile_x_bin %d''
       (prXNbins pr) (prXMin pr) (prXMax pr) (prX pr);
     (ny, ymin, ymax, ys) \<leftarrow> read_axis T file ''ECAL_shower_profiles_y'' ''ECAL_shower_profile_y_bin %d''
       (prYNbins pr) (prYMin pr) (prYMax pr) (prY pr);
     Some (True, \<lparr> prDefaultX = dx, prDefaultY = dy, prXNbins = nx, prYNbins = ny, prXMin = xmin, prXMax = xmax,
       prYMin = ymin, prYMax = ymax, prX = xs, prY = ys \<rparr>) }"

section \<open>The constructor\<close>

text \<open>The list of signal particles: PDG code and track number.\<close>

fun push_signals :: "dbm \<Rightarrow> nat \<Rightarrow> nat \<Rightarrow> (int \<times> int) list \<Rightarrow> (int \<times> int) list option" where
  "push_signals m i 0 sig = Some sig"
| "push_signals m i (Suc n) sig = do {
     pid \<leftarrow> GetSigPID m i; tid \<leftarrow> GetSigTID m i;
     push_signals m (i + 1) n (sig @ [(pid, tid)]) }"

text \<open>d is what the constructor of the base class leaves; the file system is a parameter.\<close>

definition TSBSSimDecoder :: "tstring \<Rightarrow> (string \<Rightarrow> string option) \<Rightarrow> dbm \<Rightarrow> 's decoder \<Rightarrow> 's decoder option" where
  "TSBSSimDecoder T files m d = do {
     let d = d \<lparr> dcMCHits := [], dcMCTracks := [], dcBackTracks := [], dcStripMap := Map.empty \<rparr>;
     sig \<leftarrow> push_signals m 0 (nat (dbNSigParticle m)) [];
     let d = d \<lparr> dcSignalInfo := sig \<rparr>;
     ty \<leftarrow> Getg4sbsDetectorType m;
     calo \<leftarrow> (if ty = 3 then DoCalo m else Some 0);
     if ty = 3 \<and> calo \<noteq> 0
     then do {
       (ok, pr) \<leftarrow> load_shower_profiles T (files ''ECAL_shower_profiles.txt'') (dcProfiles d);
       Some (d \<lparr> dcProfiles := pr \<rparr>) }
     else Some d }"

text \<open>The reader never reports a failure: it returns true also when the file could not be opened.\<close>

lemma load_always_true: "load_shower_profiles T f pr = Some (b, pr') \<Longrightarrow> b"
  by (auto simp: load_shower_profiles_def Let_def bind_eq_Some_conv split: prod.splits)

lemma push_signals_ok:
  "i + n \<le> length (dbSigPID m) \<Longrightarrow> length (dbSigTID m) = length (dbSigPID m) \<Longrightarrow>
    push_signals m i n sig = Some (sig @ take n (drop i (zip (dbSigPID m) (dbSigTID m))))"
proof (induction n arbitrary: i sig)
  case (Suc n)
  have "take (Suc n) (drop i (zip (dbSigPID m) (dbSigTID m)))
      = (dbSigPID m ! i, dbSigTID m ! i) # take n (drop (i + 1) (zip (dbSigPID m) (dbSigTID m)))"
    using Suc.prems by (simp add: Cons_nth_drop_Suc [symmetric])
  moreover have "GetSigPID m i = Some (dbSigPID m ! i)" "GetSigTID m i = Some (dbSigTID m ! i)"
    using Suc.prems by (simp_all add: GetSigPID_def GetSigTID_def)
  ultimately show ?case using Suc.IH [of "i + 1" "sig @ [(dbSigPID m ! i, dbSigTID m ! i)]"] Suc.prems by simp
qed simp

section \<open>Numbers in a text\<close>

lemma dropWhile_word: "t \<noteq> [] \<Longrightarrow> \<not> isspace (hd t) \<Longrightarrow> length (dropWhile (\<lambda>c. \<not> isspace c) t) < length t"
  by (cases t) (simp_all add: le_imp_less_Suc length_dropWhile_le)

text \<open>The words of a text.\<close>

function fields :: "string \<Rightarrow> string list" where
  "fields s = (let t = dropWhile isspace s in
     if t = [] then [] else takeWhile (\<lambda>c. \<not> isspace c) t # fields (dropWhile (\<lambda>c. \<not> isspace c) t))"
  by pat_completeness auto

termination
proof (relation "measure length")
  fix s :: string and t
  assume "t = dropWhile isspace s" "t \<noteq> []"
  then show "(dropWhile (\<lambda>c. \<not> isspace c) t, s) \<in> measure length"
    using dropWhile_word [of t] hd_dropWhile [of isspace s] length_dropWhile_le [of isspace s] by simp
qed simp

declare fields.simps [simp del]

lemma fields_Cons:
  "fields s = w # ws \<longleftrightarrow> dropWhile isspace s \<noteq> [] \<and> w = takeWhile (\<lambda>c. \<not> isspace c) (dropWhile isspace s)
     \<and> ws = fields (dropWhile (\<lambda>c. \<not> isspace c) (dropWhile isspace s))"
  by (subst fields.simps) (auto simp: Let_def)

lemma fields_space: "\<forall>c \<in> set s. isspace c \<Longrightarrow> fields s = []"
  by (subst fields.simps) (simp add: Let_def)

lemma fields_snoc_space: "isspace c \<Longrightarrow> fields (s @ [c]) = fields s"
proof (induction s rule: fields.induct)
  case (1 s)
  let ?t = "dropWhile isspace s"
  show ?case
  proof (cases "?t = []")
    case True
    then have "\<forall>c \<in> set s. isspace c" by (simp add: dropWhile_eq_Nil_conv)
    then show ?thesis using 1(2) by (simp add: fields_space)
  next
    case False
    have d: "dropWhile isspace (s @ [c]) = ?t @ [c]" using False by (auto simp: dropWhile_append dropWhile_eq_Nil_conv)
    have w: "takeWhile (\<lambda>c. \<not> isspace c) (?t @ [c]) = takeWhile (\<lambda>c. \<not> isspace c) ?t" using 1(2)
      by (auto simp: takeWhile_append takeWhile_eq_all_conv [THEN iffD2])
    have r: "fields (dropWhile (\<lambda>c. \<not> isspace c) (?t @ [c])) = fields (dropWhile (\<lambda>c. \<not> isspace c) ?t)"
    proof (cases "dropWhile (\<lambda>c. \<not> isspace c) ?t = []")
      case True
      have "fields (dropWhile (\<lambda>c. \<not> isspace c) ?t) = []" unfolding True by (simp add: fields_space)
      moreover have "dropWhile (\<lambda>c. \<not> isspace c) (?t @ [c]) = [c]"
        using True 1(2) by (auto simp: dropWhile_append dropWhile_eq_Nil_conv)
      ultimately show ?thesis using 1(2) by (simp add: fields_space)
    next
      case ne: False
      then have "dropWhile (\<lambda>c. \<not> isspace c) (?t @ [c]) = dropWhile (\<lambda>c. \<not> isspace c) ?t @ [c]"
        by (auto simp: dropWhile_append dropWhile_eq_Nil_conv)
      then show ?thesis using 1(1) [OF refl False] 1(2) by simp
    qed
    show ?thesis unfolding fields.simps [of "s @ [c]"] fields.simps [of s] d Let_def w r using False by simp
  qed
qed

text \<open>A word that is a number: extracted completely.\<close>

definition int_text :: "string \<Rightarrow> int \<Rightarrow> bool" where
  "int_text t n \<longleftrightarrow> read_int (open_stream t) None = (\<lparr> st_rest = [], st_fail = False, st_eof = True \<rparr>, Some n)"

definition num_text :: "string \<Rightarrow> real \<Rightarrow> bool" where
  "num_text t x \<longleftrightarrow> read_double (open_stream t) None = (\<lparr> st_rest = [], st_fail = False, st_eof = True \<rparr>, Some x)"

text \<open>Extraction stops at a blank: what follows a number does not change it.\<close>

definition ends :: "string \<Rightarrow> bool" where
  "ends r \<longleftrightarrow> r = [] \<or> isspace (hd r)"

lemma ends_digits:
  assumes "ends r"
  shows "takeWhile isdigit (u @ r) = takeWhile isdigit u" "dropWhile isdigit (u @ r) = dropWhile isdigit u @ r"
  using assms digit_not_special [of "hd r"]
  by (induction u) (cases r; auto simp: ends_def)+

lemma ends_sign: "ends r \<Longrightarrow> split_sign (u @ r) = (fst (split_sign u), snd (split_sign u) @ r)"
  by (cases u; cases r) (auto simp: split_sign_def ends_def isspace_def)

lemma ends_head: "ends r \<Longrightarrow> \<not> isspace c \<Longrightarrow> (case u @ r of [] \<Rightarrow> False | d # _ \<Rightarrow> d = c) = (case u of [] \<Rightarrow> False | d # _ \<Rightarrow> d = c)"
  by (cases u; cases r) (auto simp: ends_def)

lemma drop_blanks:
  assumes "\<forall>c \<in> set w. isspace c" "t \<noteq> []" "\<not> isspace (hd t)"
  shows "dropWhile isspace (w @ t @ r) = t @ r" "dropWhile isspace t = t"
  using assms by (induction w) (cases t; simp)+

lemma read_int_ends:
  assumes "int_text t n" "t \<noteq> []" "\<not> isspace (hd t)" "ends r" "\<forall>c \<in> set w. isspace c"
  shows "read_int (open_stream (w @ t @ r)) old = (\<lparr> st_rest = r, st_fail = False, st_eof = (r = []) \<rparr>, Some n)"
proof -
  note b = drop_blanks [OF assms(5,2,3)]
  obtain sg u where u: "split_sign t = (sg, u)" by force
  have sp: "split_sign (t @ r) = (sg, u @ r)" using ends_sign [OF assms(4), of t] u by simp
  show ?thesis using assms(1,2)
    by (simp add: int_text_def read_int_def open_stream_def good_def b u sp ends_digits [OF assms(4)] Let_def split: if_splits)
qed

lemma read_double_ends:
  assumes "num_text t x" "t \<noteq> []" "\<not> isspace (hd t)" "ends r" "\<forall>c \<in> set w. isspace c"
  shows "read_double (open_stream (w @ t @ r)) old = (\<lparr> st_rest = r, st_fail = False, st_eof = (r = []) \<rparr>, Some x)"
proof -
  note b = drop_blanks [OF assms(5,2,3)] and d = ends_digits [OF assms(4)] and s = ends_sign [OF assms(4)]
  obtain sg u where u: "split_sign t = (sg, u)" by force
  have sp: "split_sign (t @ r) = (sg, u @ r)" using s [of t] u by simp
  define r0 where "r0 = dropWhile isdigit u"
  define point where "point \<longleftrightarrow> (case r0 of [] \<Rightarrow> False | c # _ \<Rightarrow> c = CHR 0x2E)"
  define r1 where "r1 = (if point then dropWhile isdigit (tl r0) else r0)"
  define fs where "fs = (if point then takeWhile isdigit (tl r0) else [])"
  have nsp: "\<not> isspace CHR 0x2E" "\<not> isspace CHR 0x65" "\<not> isspace CHR 0x45" by (simp_all add: isspace_def)
  have p': "(case r0 @ r of [] \<Rightarrow> False | c # _ \<Rightarrow> c = CHR 0x2E) = point" unfolding point_def by (rule ends_head [OF assms(4) nsp(1)])
  have t0: "point \<Longrightarrow> tl (r0 @ r) = tl r0 @ r" by (cases r0) (simp_all add: point_def)
  have r1': "(if point then dropWhile isdigit (tl (r0 @ r)) else r0 @ r) = r1 @ r"
    and fs': "(if point then takeWhile isdigit (tl (r0 @ r)) else []) = fs"
    using t0 d by (simp_all add: r1_def fs_def)
  define expo where "expo \<longleftrightarrow> takeWhile isdigit u @ fs \<noteq> [] \<and> (case r1 of [] \<Rightarrow> False | c # _ \<Rightarrow> c = CHR 0x65 \<or> c = CHR 0x45)"
  have e': "(case r1 @ r of [] \<Rightarrow> False | c # _ \<Rightarrow> c = CHR 0x65 \<or> c = CHR 0x45) = (case r1 of [] \<Rightarrow> False | c # _ \<Rightarrow> c = CHR 0x65 \<or> c = CHR 0x45)"
    using assms(4) nsp by (cases r1; cases r) (auto simp: ends_def)
  have t1: "expo \<Longrightarrow> tl (r1 @ r) = tl r1 @ r" by (cases r1) (simp_all add: expo_def)
  obtain esg r2 where r2: "(if expo then split_sign (tl r1) else (1, r1)) = (esg, r2)" by force
  have r2': "(if expo then split_sign (tl (r1 @ r)) else (1, r1 @ r)) = (esg, r2 @ r)"
    using r2 t1 s [of "tl r1"] by (auto split: if_splits)
  define es where "es = (if expo then takeWhile isdigit r2 else [])"
  define r3 where "r3 = (if expo then dropWhile isdigit r2 else r2)"
  have ne: "(t @ r = []) = False" using assms(2) by simp
  have "read_double (open_stream t) None =
      (if takeWhile isdigit u @ fs = [] \<or> (expo \<and> es = []) then (\<lparr> st_rest = r3, st_fail = True, st_eof = (r3 = []) \<rparr>, Some 0)
       else (\<lparr> st_rest = r3, st_fail = False, st_eof = (r3 = []) \<rparr>,
         Some (scale10 (sg * digits_val (takeWhile isdigit u @ fs)) (esg * digits_val es - int (length fs)))))"
    using assms(2) unfolding read_double_def open_stream_def good_def
    by (simp only: stream.simps b u Let_def prod.case r0_def [symmetric] point_def [symmetric] fs_def [symmetric] r1_def [symmetric]
        expo_def [symmetric] r2 es_def [symmetric] r3_def [symmetric] simp_thms if_False)
  moreover have "read_double (open_stream (w @ t @ r)) old =
      (if takeWhile isdigit u @ fs = [] \<or> (expo \<and> es = []) then (\<lparr> st_rest = r3 @ r, st_fail = True, st_eof = (r3 @ r = []) \<rparr>, Some 0)
       else (\<lparr> st_rest = r3 @ r, st_fail = False, st_eof = (r3 @ r = []) \<rparr>,
         Some (scale10 (sg * digits_val (takeWhile isdigit u @ fs)) (esg * digits_val es - int (length fs)))))"
    using assms(2) unfolding read_double_def open_stream_def good_def
    by (simp only: stream.simps b sp Let_def prod.case d r0_def [symmetric] p' fs' r1' e'
        expo_def [symmetric] r2' simp_thms if_False ne) (simp add: es_def r3_def)
  ultimately show ?thesis using assms(1) unfolding num_text_def by (auto split: if_splits)
qed

text \<open>Extraction takes the next word.\<close>

lemma fields_split:
  assumes "fields s = t # ts"
  shows "\<exists>w r. s = w @ t @ r \<and> (\<forall>c \<in> set w. isspace c) \<and> t \<noteq> [] \<and> \<not> isspace (hd t) \<and> ends r \<and> fields r = ts"
proof -
  let ?u = "dropWhile isspace s"
  note f = assms [unfolded fields_Cons]
  have hd: "\<not> isspace (hd ?u)" using hd_dropWhile [of isspace s] f by blast
  then have "t \<noteq> []" "hd t = hd ?u" using f by (cases ?u; simp)+
  moreover have "ends (dropWhile (\<lambda>c. \<not> isspace c) ?u)"
    using hd_dropWhile [of "\<lambda>c. \<not> isspace c" ?u] by (auto simp: ends_def)
  moreover have "s = takeWhile isspace s @ t @ dropWhile (\<lambda>c. \<not> isspace c) ?u" using f by simp
  moreover have "\<forall>c \<in> set (takeWhile isspace s). isspace c" by (auto dest: set_takeWhileD)
  ultimately show ?thesis using f hd by metis
qed

definition stream_at :: "string \<Rightarrow> stream" where
  "stream_at s = \<lparr> st_rest = s, st_fail = False, st_eof = (s = []) \<rparr>"

lemma stream_at_open: "fields s \<noteq> [] \<Longrightarrow> stream_at s = open_stream s"
  by (cases "s = []") (simp_all add: stream_at_def open_stream_def fields_space)

lemma get_int_word: "fields s = t # ts \<Longrightarrow> int_text t n \<Longrightarrow> \<exists>r. get_int (stream_at s) old = (stream_at r, n) \<and> fields r = ts"
proof -
  assume f: "fields s = t # ts" and t: "int_text t n"
  obtain w r where r: "s = w @ t @ r" "\<forall>c \<in> set w. isspace c" "t \<noteq> []" "\<not> isspace (hd t)" "ends r" "fields r = ts"
    using fields_split [OF f] by blast
  have "get_int (stream_at s) old = (stream_at r, n)"
    using stream_at_open [of s] f read_int_ends [OF t r(3-5,2)] by (simp add: get_int_def r(1) stream_at_def)
  then show ?thesis using r(6) by blast
qed

lemma get_double_word: "fields s = t # ts \<Longrightarrow> num_text t x \<Longrightarrow> \<exists>r. get_double (stream_at s) old = (stream_at r, x) \<and> fields r = ts"
proof -
  assume f: "fields s = t # ts" and t: "num_text t x"
  obtain w r where r: "s = w @ t @ r" "\<forall>c \<in> set w. isspace c" "t \<noteq> []" "\<not> isspace (hd t)" "ends r" "fields r = ts"
    using fields_split [OF f] by blast
  have "get_double (stream_at s) old = (stream_at r, x)"
    using stream_at_open [of s] f read_double_ends [OF t r(3-5,2)] by (simp add: get_double_def r(1) stream_at_def)
  then show ?thesis using r(6) by blast
qed

lemma read_fracs_words: "list_all2 num_text (fields s) xs \<Longrightarrow> length ys = length xs \<Longrightarrow> read_fracs (stream_at s) ys = xs"
proof (induction xs arbitrary: s ys)
  case (Cons x xs)
  obtain t ts where t: "fields s = t # ts" "num_text t x" "list_all2 num_text ts xs"
    using Cons.prems(1) by (auto simp: list_all2_Cons2)
  obtain y ys' where ys: "ys = y # ys'" using Cons.prems(2) by (cases ys) auto
  obtain r where r: "get_double (stream_at s) y = (stream_at r, x)" "fields r = ts" using get_double_word [OF t(1,2)] by blast
  then show ?case using Cons.IH [of r ys'] t(3) Cons.prems(2) by (simp add: ys)
qed simp

text \<open>The values of a header.\<close>

definition header_text :: "string \<Rightarrow> int \<Rightarrow> real \<Rightarrow> real \<Rightarrow> bool" where
  "header_text s n lo hi \<longleftrightarrow> (\<exists>t1 t2 t3. fields s = [t1, t2, t3] \<and> int_text t1 n \<and> num_text t2 lo \<and> num_text t3 hi)"

lemma read_header_words: "header_text s n lo hi \<Longrightarrow> read_header (open_stream s) n' lo' hi' = (n, lo, hi)"
proof -
  assume "header_text s n lo hi"
  then obtain t1 t2 t3 where t: "fields s = [t1, t2, t3]" "int_text t1 n" "num_text t2 lo" "num_text t3 hi"
    by (auto simp: header_text_def)
  obtain r1 where r1: "get_int (stream_at s) n' = (stream_at r1, n)" "fields r1 = [t2, t3]" using get_int_word [OF t(1,2)] by blast
  obtain r2 where r2: "get_double (stream_at r1) lo' = (stream_at r2, lo)" "fields r2 = [t3]" using get_double_word [OF r1(2) t(3)] by blast
  obtain r3 where r3: "get_double (stream_at r2) hi' = (stream_at r3, hi)" using get_double_word [OF r2(2) t(4)] by blast
  have "open_stream s = stream_at s" using stream_at_open [of s] t(1) by simp
  then show ?thesis using r1(1) r2(1) r3 by (simp add: read_header_def)
qed

section \<open>The operations of TString\<close>

definition first_at :: "string \<Rightarrow> string \<Rightarrow> nat \<Rightarrow> bool" where
  "first_at p s k \<longleftrightarrow> prefix p (drop k s) \<and> (\<forall>j < k. \<not> prefix p (drop j s))"

text \<open>Their documented behaviour, as far as the reader relies on it.\<close>

definition tstring_ok :: "tstring \<Rightarrow> bool" where
  "tstring_ok T \<longleftrightarrow> (\<forall>t. tsReadFile T (Some t) = t)
     \<and> (\<forall>s p i k. p \<noteq> [] \<and> first_at p (drop i s) k \<longrightarrow> tsIndex T s p (int i) = int (i + k))
     \<and> (\<forall>s p i. i \<le> length s \<and> p \<noteq> [] \<and> (\<forall>k. \<not> prefix p (drop k (drop i s))) \<longrightarrow> tsIndex T s p (int i) = -1)
     \<and> (\<forall>s i n. i + n \<le> length s \<longrightarrow> tsSub T s (int i) (int n) = take n (drop i s))
     \<and> (\<forall>p s. p \<noteq> [] \<and> (\<forall>k. \<not> prefix p (drop k s)) \<longrightarrow> tsReplaceAll T (p @ s) p [] = s)
     \<and> (\<forall>u n. CHR 0x25 \<notin> set u \<longrightarrow> tsForm T (u @ ''%d'') (int n) = u @ digits_of n)"

lemma tstring_ops:
  assumes "tstring_ok T"
  shows "tsReadFile T (Some t) = t"
    "p \<noteq> [] \<Longrightarrow> first_at p (drop i s) k \<Longrightarrow> tsIndex T s p (int i) = int (i + k)"
    "i \<le> length s \<Longrightarrow> p \<noteq> [] \<Longrightarrow> \<forall>k. \<not> prefix p (drop k (drop i s)) \<Longrightarrow> tsIndex T s p (int i) = -1"
    "i + n \<le> length s \<Longrightarrow> tsSub T s (int i) (int n) = take n (drop i s)"
    "p \<noteq> [] \<Longrightarrow> \<forall>k. \<not> prefix p (drop k s) \<Longrightarrow> tsReplaceAll T (p @ s) p [] = s"
    "CHR 0x25 \<notin> set u \<Longrightarrow> tsForm T (u @ ''%d'') (int n) = u @ digits_of n"
  using assms by (simp_all add: tstring_ok_def)

section \<open>The text of the file\<close>

text \<open>A block: header, rest of the line, and the data up to the next header.  The letter E occurs only at
  the start of the headers.\<close>

type_synonym block = "string \<times> string \<times> string"

definition block_text :: "block \<Rightarrow> string" where
  "block_text b = fst b @ fst (snd b) @ [CHR 0x0A] @ snd (snd b)"

definition text_of :: "block list \<Rightarrow> string" where
  "text_of bs = concat (map block_text bs)"

definition plain :: "string \<Rightarrow> bool" where
  "plain s \<longleftrightarrow> CHR ''E'' \<notin> set s \<and> CHR 0x00 \<notin> set s"

definition block_ok :: "block \<Rightarrow> bool" where
  "block_ok b \<longleftrightarrow> prefix ''ECAL_shower_profile'' (fst b) \<and> plain (tl (fst b)) \<and> CHR 0x0A \<notin> set (fst b)
     \<and> fst (snd b) \<noteq> [] \<and> isspace (hd (fst (snd b))) \<and> plain (fst (snd b)) \<and> CHR 0x0A \<notin> set (fst (snd b)) \<and> plain (snd (snd b))"

text \<open>A search pattern: E at its start only.\<close>

definition pattern :: "string \<Rightarrow> bool" where
  "pattern p \<longleftrightarrow> p \<noteq> [] \<and> hd p = CHR ''E'' \<and> CHR ''E'' \<notin> set (tl p)"

lemma text_of_simps [simp]: "text_of [] = []" "text_of (b # bs) = block_text b @ text_of bs" "text_of (as @ bs) = text_of as @ text_of bs"
  by (simp_all add: text_of_def)

lemma block_head: "block_ok b \<Longrightarrow> \<exists>q. block_text b = CHR ''E'' # q \<and> CHR ''E'' \<notin> set q"
  by (cases "fst b") (auto simp: block_ok_def block_text_def plain_def)

lemma text_head: "\<forall>b \<in> set bs. block_ok b \<Longrightarrow> text_of bs = [] \<or> hd (text_of bs) = CHR ''E''"
  using block_head by (cases bs) fastforce+

lemma no_E_prefix: "CHR ''E'' \<notin> set s \<Longrightarrow> pattern p \<Longrightarrow> \<not> prefix p (drop k s)"
  by (cases p) (auto simp: pattern_def prefix_def dest!: arg_cong [where f = set] in_set_dropD [of _ k s, rotated])

lemma prefix_block:
  assumes "block_ok b" "pattern p" "rest = [] \<or> hd rest = CHR ''E''" "prefix p (block_text b @ rest)"
  shows "prefix p (block_text b)"
proof (rule ccontr)
  assume n: "\<not> prefix p (block_text b)"
  then obtain us where us: "p = block_text b @ us" "prefix us rest" using assms(4) by (auto simp: prefix_append)
  obtain q where q: "block_text b = CHR ''E'' # q" using block_head [OF assms(1)] by blast
  have "CHR ''E'' \<notin> set us" using assms(2) us(1) by (simp add: pattern_def q)
  moreover have "us \<noteq> []" using n us(1) by auto
  ultimately show False using us(2) assms(3) by (cases us; cases rest) auto
qed

lemma prefix_inside:
  assumes "block_ok b" "pattern p" "0 < j" "j < length (block_text b)"
  shows "\<not> prefix p (drop j (block_text b @ rest))"
proof
  assume a: "prefix p (drop j (block_text b @ rest))"
  obtain q where q: "block_text b = CHR ''E'' # q" "CHR ''E'' \<notin> set q" using block_head [OF assms(1)] by blast
  have "hd p = block_text b ! j"
    using a assms(2,4) by (cases p) (auto simp: pattern_def prefix_def hd_drop_conv_nth nth_append dest!: arg_cong [where f = hd])
  then have "q ! (j - 1) = CHR ''E''" using assms(2,3) q(1) by (simp add: pattern_def nth_Cons')
  moreover have "q ! (j - 1) \<in> set q" using assms(3,4) q(1) by (intro nth_mem) auto
  ultimately show False using q(2) by simp
qed

lemma first_block:
  assumes "pattern p" "\<forall>a \<in> set (as @ b # cs). block_ok a" "\<forall>a \<in> set as. \<not> prefix p (block_text a)" "prefix p (block_text b)"
  shows "first_at p (text_of (as @ b # cs)) (length (text_of as))"
  using assms(2,3)
proof (induction as)
  case Nil
  then show ?case using assms(4) by (simp add: first_at_def prefix_prefix)
next
  case (Cons a as)
  let ?r = "text_of (as @ b # cs)"
  have ih: "first_at p ?r (length (text_of as))" using Cons by simp
  have a: "block_ok a" "\<not> prefix p (block_text a)" using Cons.prems by simp_all
  have h: "?r = [] \<or> hd ?r = CHR ''E''" using text_head [of "as @ b # cs"] Cons.prems(1) by simp
  have "\<not> prefix p (drop j (block_text a @ ?r))" if "j < length (block_text a) + length (text_of as)" for j
  proof -
    consider "j = 0" | "0 < j" "j < length (block_text a)" | "length (block_text a) \<le> j" by linarith
    then show ?thesis
    proof cases
      case 1
      then show ?thesis using prefix_block [OF a(1) assms(1) h] a(2) by auto
    next
      case 2
      then show ?thesis using prefix_inside [OF a(1) assms(1)] by blast
    next
      case 3
      then have "j - length (block_text a) < length (text_of as)" using that by linarith
      then show ?thesis using ih 3 by (simp add: first_at_def)
    qed
  qed
  moreover have "prefix p (drop (length (block_text a @ text_of as)) (block_text a @ ?r))" using ih by (simp add: first_at_def)
  ultimately show ?case by (simp add: first_at_def)
qed

section \<open>Reading a block\<close>

lemma data_stream_plain: "plain s \<Longrightarrow> data_stream s = open_stream s"
proof -
  assume "plain s"
  then have "takeWhile (\<lambda>c. c \<noteq> CHR 0x00) s = s" by (auto simp: plain_def takeWhile_eq_all_conv)
  then show ?thesis unfolding data_stream_def by (simp only:)
qed

lemma first_char: "c \<notin> set u \<Longrightarrow> first_at [c] (u @ c # v) (length u)"
  unfolding first_at_def
proof (intro conjI allI impI)
  fix j assume "c \<notin> set u" "j < length u"
  then have "drop j (u @ c # v) = u ! j # (drop (Suc j) u @ c # v)" "u ! j \<noteq> c"
    by (auto simp: Cons_nth_drop_Suc [symmetric])
  then show "\<not> prefix [c] (drop j (u @ c # v))" by simp
qed simp

lemma block_pattern: "block_ok b \<Longrightarrow> pattern (fst b)"
  by (auto simp: block_ok_def plain_def pattern_def prefix_def)

text \<open>b is the first block that begins with the header.\<close>

lemma header_line_block:
  assumes T: "tstring_ok T" and ok: "\<forall>a \<in> set (as @ b # cs). block_ok a" and new: "\<forall>a \<in> set as. \<not> prefix (fst b) (block_text a)"
  shows "header_line T (text_of (as @ b # cs)) (fst b)
    = (int (length (text_of as) + length (fst b) + length (fst (snd b))), open_stream (fst (snd b)))"
proof -
  let ?file = "text_of (as @ b # cs)" and ?i = "length (text_of as)" and ?h = "fst (snd b)"
  have b: "block_ok b" and pat: "pattern (fst b)" using ok block_pattern by simp_all
  have ne: "fst b \<noteq> []" using pat by (simp add: pattern_def)
  have i: "tsIndex T ?file (fst b) 0 = int ?i"
    using tstring_ops(2) [OF T ne, of 0 ?file ?i] first_block [OF pat ok new] by (simp add: block_text_def)
  have d: "drop ?i ?file = (fst b @ ?h) @ CHR 0x0A # (snd (snd b) @ text_of cs)" by (simp add: block_text_def)
  have nl: "CHR 0x0A \<notin> set (fst b @ ?h)" using b by (simp add: block_ok_def)
  have e: "tsIndex T ?file [CHR 0x0A] (int ?i) = int (?i + length (fst b @ ?h))"
    using tstring_ops(2) [OF T, of "[CHR 0x0A]" ?i ?file] first_char [OF nl] unfolding d by blast
  have sub: "tsSub T ?file (int ?i) (int (length (fst b @ ?h))) = fst b @ ?h"
    using tstring_ops(4) [OF T, of ?i "length (fst b @ ?h)" ?file] unfolding d by (simp add: block_text_def)
  have "\<forall>k. \<not> prefix (fst b) (drop k ?h)" using no_E_prefix [OF _ pat] b by (simp add: block_ok_def plain_def)
  then have r: "tsReplaceAll T (fst b @ ?h) (fst b) [] = ?h" by (rule tstring_ops(5) [OF T ne])
  have p: "plain ?h" using b by (simp add: block_ok_def)
  have "int (?i + length (fst b @ ?h)) - int ?i = int (length (fst b @ ?h))" by simp
  then show ?thesis unfolding header_line_def Let_def i e using sub r data_stream_plain [OF p] by simp
qed

text \<open>The next header follows the data of the block; after the last block the last character is dropped.\<close>

lemma profile_data_last:
  assumes T: "tstring_ok T" and ok: "block_ok b" and nx: "pattern nx" and dn: "snd (snd b) \<noteq> []"
  shows "profile_data T (text_of (as @ [b])) nx (int (length (text_of as) + length (fst b) + length (fst (snd b))))
    = data_stream (butlast (snd (snd b)))"
proof -
  let ?file = "text_of (as @ [b])" and ?i = "length (text_of as) + length (fst b) + length (fst (snd b))" and ?d = "snd (snd b)"
  have dr: "drop ?i ?file = CHR 0x0A # ?d" "drop (?i + 1) ?file = ?d" by (simp_all add: block_text_def)
  have len: "length ?file = ?i + 1 + length ?d" by (simp add: block_text_def)
  have "\<forall>k. \<not> prefix nx (drop k (drop ?i ?file))"
    using no_E_prefix [OF _ nx, of "CHR 0x0A # ?d"] ok unfolding dr by (simp add: block_ok_def plain_def)
  then have i: "tsIndex T ?file nx (int ?i) = -1" using tstring_ops(3) [OF T, of ?i ?file nx] nx len by (simp add: pattern_def)
  have "tsSub T ?file (int (?i + 1)) (int (length ?d - 1)) = take (length ?d - 1) ?d"
    using tstring_ops(4) [OF T, of "?i + 1" "length ?d - 1" ?file] len unfolding dr by simp
  moreover have "int (length ?file) - 1 - int ?i - 1 = int (length ?d - 1)" using len dn by (cases ?d) simp_all
  ultimately show ?thesis unfolding profile_data_def Let_def i by (simp add: butlast_conv_take add.commute)
qed

lemma profile_data_block:
  assumes T: "tstring_ok T" and ok: "\<forall>a \<in> set (as @ b # cs). block_ok a" and nx: "prefix nx ''ECAL_shower_profile''" "nx \<noteq> []"
    and last: "fields (snd (snd b)) \<noteq> []" "isspace (last (text_of (as @ b # cs)))"
  shows "\<exists>s. profile_data T (text_of (as @ b # cs)) nx (int (length (text_of as) + length (fst b) + length (fst (snd b))))
      = open_stream s \<and> fields s = fields (snd (snd b))"
proof -
  let ?file = "text_of (as @ b # cs)" and ?i = "length (text_of as) + length (fst b) + length (fst (snd b))" and ?d = "snd (snd b)"
  have b: "block_ok b" using ok by simp
  have pat: "pattern nx" using nx by (auto simp: pattern_def prefix_Cons)
  have dr: "drop ?i ?file = CHR 0x0A # ?d @ text_of cs" "drop (?i + 1) ?file = ?d @ text_of cs"
    by (simp_all add: block_text_def)
  have len: "length ?file = ?i + 1 + length ?d + length (text_of cs)" by (simp add: block_text_def)
  have p: "plain ?d" using b by (simp add: block_ok_def)
  have dn: "?d \<noteq> []" using last(1) by (auto simp: fields_space)
  show ?thesis
  proof (cases cs)
    case Nil
    have s: "profile_data T ?file nx (int ?i) = data_stream (butlast ?d)"
      using profile_data_last [OF T b pat dn, of as] by (simp only: Nil)
    have ld: "last ?file = last ?d" using dn by (simp add: Nil block_text_def)
    have "fields ?d = fields (butlast ?d @ [last ?d])" using dn by simp
    also have "\<dots> = fields (butlast ?d)" using last(2) ld by (intro fields_snoc_space) simp
    finally have f: "fields (butlast ?d) = fields ?d" by simp
    have "plain (butlast ?d)" using p by (auto simp: plain_def dest: in_set_butlastD)
    then show ?thesis using s f data_stream_plain by metis
  next
    case (Cons c cs')
    have c: "block_ok c" using ok Cons by simp
    have "prefix nx (fst c)" using nx(1) c unfolding block_ok_def by (blast intro: prefix_order.trans)
    then have nc: "prefix nx (text_of cs)" by (simp add: Cons block_text_def prefix_prefix)
    have "first_at nx (drop ?i ?file) (Suc (length ?d))" unfolding first_at_def dr
    proof (intro conjI allI impI)
      show "prefix nx (drop (Suc (length ?d)) (CHR 0x0A # ?d @ text_of cs))" using nc by simp
      fix j assume j: "j < Suc (length ?d)"
      let ?u = "CHR 0x0A # ?d"
      have "drop j (?u @ text_of cs) = ?u ! j # (drop (Suc j) ?u @ text_of cs)"
        using j Cons_nth_drop_Suc [of j ?u] by (simp only: drop_append) (cases j; simp)
      moreover have "?u ! j \<noteq> CHR ''E''" using p j nth_mem [of j ?u] by (auto simp: plain_def)
      ultimately show "\<not> prefix nx (drop j (CHR 0x0A # ?d @ text_of cs))"
        using pat by (cases nx) (auto simp: pattern_def)
    qed
    then have i: "tsIndex T ?file nx (int ?i) = int (?i + Suc (length ?d))" by (rule tstring_ops(2) [OF T nx(2)])
    have "tsSub T ?file (int (?i + 1)) (int (length ?d)) = ?d"
      using tstring_ops(4) [OF T, of "?i + 1" "length ?d" ?file] len unfolding dr by simp
    then have "profile_data T ?file nx (int ?i) = data_stream ?d"
      unfolding profile_data_def Let_def i by (simp add: add.commute)
    then show ?thesis using data_stream_plain [OF p] by metis
  qed
qed

text \<open>The block of a profile.\<close>

definition profile_block :: "shower_profile_t \<Rightarrow> block \<Rightarrow> bool" where
  "profile_block p b \<longleftrightarrow> block_ok b \<and> header_text (fst (snd b)) (spNbinsMom p) (spXmin p) (spXmax p)
     \<and> list_all2 num_text (fields (snd (snd b))) (spFrac p) \<and> int (length (spFrac p)) = spNbinsMom p + 1
     \<and> 0 \<le> spNbinsMom p \<and> spNbinsMom p < 2147483647"

lemma read_profile_block:
  assumes T: "tstring_ok T" and ok: "\<forall>a \<in> set (as @ b # cs). block_ok a" and new: "\<forall>a \<in> set as. \<not> prefix (fst b) (block_text a)"
    and nx: "prefix nx ''ECAL_shower_profile''" "nx \<noteq> []" and p: "profile_block p b" and last: "isspace (last (text_of (as @ b # cs)))"
  shows "read_profile T (text_of (as @ b # cs)) (fst b) nx q = Some p"
proof -
  have n: "list_all2 num_text (fields (snd (snd b))) (spFrac p)" "nat (spNbinsMom p + 1) = length (spFrac p)" "spFrac p \<noteq> []"
      "0 \<le> spNbinsMom p" "spNbinsMom p < 2147483647"
    using p by (auto simp: profile_block_def)
  have fne: "fields (snd (snd b)) \<noteq> []" using n(1,3) by auto
  obtain s where s: "profile_data T (text_of (as @ b # cs)) nx (int (length (text_of as) + length (fst b) + length (fst (snd b))))
      = open_stream s" "fields s = fields (snd (snd b))"
    using profile_data_block [OF T ok nx fne last] by blast
  have "read_fracs (open_stream s) (resize (nat (spNbinsMom p + 1)) 0 (spFrac q)) = spFrac p"
    using read_fracs_words [of s "spFrac p" "resize (nat (spNbinsMom p + 1)) 0 (spFrac q)"] stream_at_open [of s] s(2) n(1,2) fne
    by (simp add: resize_def)
  moreover have "read_header (open_stream (fst (snd b))) (spNbinsMom q) (spXmin q) (spXmax q) = (spNbinsMom p, spXmin p, spXmax p)"
    using p by (intro read_header_words) (simp add: profile_block_def)
  ultimately show ?thesis using n(4,5) unfolding read_profile_def header_line_block [OF T ok new] Let_def prod.case s(1) by simp
qed

section \<open>The profiles of the bins\<close>

lemma digits_val_nonneg: "\<forall>c \<in> set ds. isdigit c \<Longrightarrow> 0 \<le> digits_val ds"
proof (induction ds rule: rev_induct)
  case (snoc c ds)
  then have "0 \<le> digits_val ds" "48 \<le> (of_char c :: nat)" by (simp_all add: isdigit_def)
  moreover have "(of_char c :: int) = int (of_char c :: nat)" by (simp only: of_nat_of_char)
  ultimately show ?case unfolding digits_val_app by linarith
qed (simp add: digits_val_def)

lemma digits_val_prefix: "\<forall>c \<in> set (xs @ ys). isdigit c \<Longrightarrow> digits_val xs \<le> digits_val (xs @ ys)"
proof (induction ys rule: rev_induct)
  case (snoc c ys)
  have ih: "digits_val xs \<le> digits_val (xs @ ys)" using snoc by simp
  have "0 \<le> digits_val (xs @ ys)" using snoc.prems by (intro digits_val_nonneg) simp
  moreover have "48 \<le> (of_char c :: nat)" using snoc.prems by (simp add: isdigit_def)
  moreover have "(of_char c :: int) = int (of_char c :: nat)" by (simp only: of_nat_of_char)
  moreover have "digits_val (xs @ ys @ [c]) = 10 * digits_val (xs @ ys) + (of_char c - 48)"
    using digits_val_app [of "xs @ ys" c] by simp
  ultimately show ?case using ih by linarith
qed simp

text \<open>The number of a bin is the beginning of a text only if the text begins with a number not below it.\<close>

lemma digits_prefix:
  assumes "prefix (digits_of k) (digits_of j @ r)" "r = [] \<or> \<not> isdigit (hd r)"
  shows "k \<le> j"
proof -
  have "prefix (digits_of k) (digits_of j)"
  proof (rule ccontr)
    assume "\<not> ?thesis"
    then obtain us where us: "digits_of k = digits_of j @ us" "prefix us r" "us \<noteq> []" using assms(1) by (auto simp: prefix_append)
    then have "isdigit (hd us)" using digits_of_digits [of k] by simp
    then show False using us(2,3) assms(2) by (cases us; cases r) auto
  qed
  then obtain us where us: "digits_of j = digits_of k @ us" by (auto simp: prefix_def)
  then have "digits_val (digits_of k) \<le> digits_val (digits_of j)"
    using digits_val_prefix [of "digits_of k" us] digits_of_digits [of j] by simp
  then show ?thesis by (simp add: digits_val_of)
qed

text \<open>The blocks of the bins: u and the number of the bin.\<close>

fun bin_blocks :: "string \<Rightarrow> nat \<Rightarrow> shower_profile_t list \<Rightarrow> block list \<Rightarrow> bool" where
  "bin_blocks u k [] bs = (bs = [])"
| "bin_blocks u k (p # ps) bs = (case bs of [] \<Rightarrow> False
     | b # bs \<Rightarrow> fst b = u @ digits_of (k + 1) \<and> profile_block p b \<and> bin_blocks u (k + 1) ps bs)"

lemma bin_blocks_Cons: "bin_blocks u k (p # ps) bs \<longleftrightarrow> (\<exists>b bs'. bs = b # bs' \<and> fst b = u @ digits_of (k + 1)
    \<and> profile_block p b \<and> bin_blocks u (k + 1) ps bs')"
  by (cases bs) auto

lemma not_before: "block_ok b \<Longrightarrow> fst b = u @ digits_of (k + 1) \<Longrightarrow> k < n \<Longrightarrow> \<not> prefix (u @ digits_of (n + 1)) (block_text b)"
proof
  assume b: "block_ok b" "fst b = u @ digits_of (k + 1)" "k < n" and "prefix (u @ digits_of (n + 1)) (block_text b)"
  then have "prefix (digits_of (n + 1)) (digits_of (k + 1) @ fst (snd b) @ CHR 0x0A # snd (snd b))" by (simp add: block_text_def)
  moreover have "hd (fst (snd b) @ CHR 0x0A # snd (snd b)) = hd (fst (snd b))" using b(1) by (simp add: block_ok_def)
  moreover have "\<not> isdigit (hd (fst (snd b)))" using b(1) digit_not_special by (auto simp: block_ok_def)
  ultimately have "n + 1 \<le> k + 1" by (intro digits_prefix) auto
  then show False using b(3) by simp
qed

lemma read_bins_blocks:
  assumes T: "tstring_ok T" and u: "CHR 0x25 \<notin> set u"
  shows "\<forall>a \<in> set (as @ bs @ cs). block_ok a \<Longrightarrow> \<forall>a \<in> set as. \<forall>n \<ge> k. \<not> prefix (u @ digits_of (n + 1)) (block_text a) \<Longrightarrow>
    bin_blocks u k ps bs \<Longrightarrow> isspace (last (text_of (as @ bs @ cs))) \<Longrightarrow> length qs = length ps \<Longrightarrow>
    read_bins T (text_of (as @ bs @ cs)) (u @ ''%d'') (int k) qs = Some ps"
proof (induction ps arbitrary: as bs k qs)
  case Nil
  then show ?case by simp
next
  case (Cons p ps)
  obtain b bs' where b: "bs = b # bs'" "fst b = u @ digits_of (k + 1)" "profile_block p b" "bin_blocks u (k + 1) ps bs'"
    using Cons.prems(3) unfolding bin_blocks_Cons by blast
  obtain q qs' where q: "qs = q # qs'" using Cons.prems(5) by (cases qs) auto
  have tx: "text_of (as @ bs @ cs) = text_of (as @ b # bs' @ cs)" "text_of (as @ bs @ cs) = text_of ((as @ [b]) @ bs' @ cs)"
    by (simp_all add: b(1))
  have ok: "\<forall>a \<in> set (as @ b # bs' @ cs). block_ok a" using Cons.prems(1) by (auto simp: b(1))
  have new: "\<forall>a \<in> set as. \<not> prefix (fst b) (block_text a)" using Cons.prems(2) unfolding b(2) by blast
  have l: "isspace (last (text_of (as @ b # bs' @ cs)))" using Cons.prems(4) unfolding tx(1) .
  have f: "tsForm T (u @ ''%d'') (int k + 1) = fst b" using tstring_ops(6) [OF T u, of "k + 1"] b(2) by (simp add: add.commute)
  have r: "read_profile T (text_of (as @ bs @ cs)) (fst b) ''ECAL'' q = Some p"
    unfolding tx(1) by (rule read_profile_block [OF T ok new _ _ b(3) l]) simp_all
  have "\<forall>a \<in> set (as @ [b]). \<forall>n \<ge> k + 1. \<not> prefix (u @ digits_of (n + 1)) (block_text a)"
    using Cons.prems(2) not_before [OF _ b(2)] ok by auto
  then have "read_bins T (text_of (as @ bs @ cs)) (u @ ''%d'') (int (k + 1)) qs' = Some ps"
    unfolding tx(2) using Cons.prems(4,5) b(4) ok
    by (intro Cons.IH) (simp_all add: b(1) q)
  then show ?case using r f by (simp add: q add.commute)
qed

lemma bin_blocks_ok: "bin_blocks u k ps bs \<Longrightarrow> \<forall>b \<in> set bs. block_ok b \<and> (\<exists>n. fst b = u @ digits_of n)"
  by (induction ps arbitrary: k bs) (auto simp: profile_block_def split: list.splits)

lemma read_axis_blocks:
  assumes T: "tstring_ok T" and u: "CHR 0x25 \<notin> set u" and ok: "\<forall>a \<in> set (as @ b # bs @ cs). block_ok a"
    and new: "\<forall>a \<in> set as. \<not> prefix (fst b) (block_text a)" "\<forall>a \<in> set (as @ [b]). \<forall>n. \<not> prefix (u @ digits_of n) (block_text a)"
    and h: "header_text (fst (snd b)) (int (length ps)) lo hi" and ps: "bin_blocks u 0 ps bs"
    and last: "isspace (last (text_of (as @ b # bs @ cs)))"
  shows "read_axis T (text_of (as @ b # bs @ cs)) (fst b) (u @ ''%d'') n' lo' hi' qs = Some (int (length ps), lo, hi, ps)"
proof -
  have tx: "text_of (as @ b # bs @ cs) = text_of ((as @ [b]) @ bs @ cs)" by simp
  have "read_bins T (text_of (as @ b # bs @ cs)) (u @ ''%d'') (int 0) (resize (length ps) profile0 qs) = Some ps"
    unfolding tx using ok new(2) ps last
    by (intro read_bins_blocks [OF T u]) (simp_all add: resize_def)
  moreover have "read_header (open_stream (fst (snd b))) n' lo' hi' = (int (length ps), lo, hi)" by (rule read_header_words [OF h])
  ultimately show ?thesis using header_line_block [OF T ok new(1)] by (simp add: read_axis_def Let_def)
qed

text \<open>A text of the shower profiles pr: the default profiles, then the ranges and the profiles of both
  coordinates; numbers separated by any blanks, a blank (the new line) at the end.\<close>

definition profiles_text :: "shower_profiles \<Rightarrow> string \<Rightarrow> bool" where
  "profiles_text pr s \<longleftrightarrow> isspace (last s) \<and> (\<exists>b1 b2 b3 bs b4 cs. s = text_of (b1 # b2 # b3 # bs @ b4 # cs)
     \<and> fst b1 = ''ECAL_shower_profile_x_default'' \<and> profile_block (prDefaultX pr) b1
     \<and> fst b2 = ''ECAL_shower_profile_y_default'' \<and> profile_block (prDefaultY pr) b2
     \<and> fst b3 = ''ECAL_shower_profiles_x'' \<and> block_ok b3 \<and> header_text (fst (snd b3)) (prXNbins pr) (prXMin pr) (prXMax pr)
     \<and> prXNbins pr = int (length (prX pr)) \<and> bin_blocks ''ECAL_shower_profile_x_bin '' 0 (prX pr) bs
     \<and> fst b4 = ''ECAL_shower_profiles_y'' \<and> block_ok b4 \<and> header_text (fst (snd b4)) (prYNbins pr) (prYMin pr) (prYMax pr)
     \<and> prYNbins pr = int (length (prY pr)) \<and> bin_blocks ''ECAL_shower_profile_y_bin '' 0 (prY pr) cs)"

lemma load_shower_profiles_file:
  assumes "tstring_ok T" "profiles_text pr s"
  shows "load_shower_profiles T (Some s) before = Some (True, pr)"
proof -
  obtain b1 b2 b3 bs b4 cs where s: "s = text_of (b1 # b2 # b3 # bs @ b4 # cs)"
    and b1: "fst b1 = ''ECAL_shower_profile_x_default''" "profile_block (prDefaultX pr) b1"
    and b2: "fst b2 = ''ECAL_shower_profile_y_default''" "profile_block (prDefaultY pr) b2"
    and b3: "fst b3 = ''ECAL_shower_profiles_x''" "block_ok b3" "header_text (fst (snd b3)) (prXNbins pr) (prXMin pr) (prXMax pr)"
      "prXNbins pr = int (length (prX pr))" "bin_blocks ''ECAL_shower_profile_x_bin '' 0 (prX pr) bs"
    and b4: "fst b4 = ''ECAL_shower_profiles_y''" "block_ok b4" "header_text (fst (snd b4)) (prYNbins pr) (prYMin pr) (prYMax pr)"
      "prYNbins pr = int (length (prY pr))" "bin_blocks ''ECAL_shower_profile_y_bin '' 0 (prY pr) cs"
    and last: "isspace (last s)"
    using assms(2) unfolding profiles_text_def by blast
  note bins = bin_blocks_ok [OF b3(5)] bin_blocks_ok [OF b4(5)]
  have ok: "\<forall>a \<in> set (b1 # b2 # b3 # bs @ b4 # cs). block_ok a"
    using b1(2) b2(2) b3(2) b4(2) bins by (auto simp: profile_block_def)
  have 1: "read_profile T s ''ECAL_shower_profile_x_default'' ''ECAL_shower_profile'' q = Some (prDefaultX pr)" for q
    using read_profile_block [where as = "[]", OF assms(1), of b1 "b2 # b3 # bs @ b4 # cs" "''ECAL_shower_profile''"] ok b1 last
    by (simp add: s)
  have 2: "read_profile T s ''ECAL_shower_profile_y_default'' ''ECAL_shower_profile'' q = Some (prDefaultY pr)" for q
    using read_profile_block [where as = "[b1]", OF assms(1), of b2 "b3 # bs @ b4 # cs" "''ECAL_shower_profile''"] ok b1(1) b2 last
    by (simp add: s block_text_def)
  have 3: "read_axis T s ''ECAL_shower_profiles_x'' ''ECAL_shower_profile_x_bin %d'' n lo hi qs
      = Some (prXNbins pr, prXMin pr, prXMax pr, prX pr)" for n lo hi qs
    using read_axis_blocks [where as = "[b1, b2]" and u = "''ECAL_shower_profile_x_bin ''", OF assms(1), of b3 bs "b4 # cs" "prX pr"]
      ok b1(1) b2(1) b3 last by (simp add: s block_text_def)
  have old: "\<not> prefix ''ECAL_shower_profiles_y'' (block_text a) \<and> \<not> prefix (''ECAL_shower_profile_y_bin '' @ digits_of n) (block_text a)"
    if "a \<in> set (b1 # b2 # b3 # bs)" for a n
    using that b1(1) b2(1) b3(1) bins(1) by (auto simp: block_text_def)
  have 4: "read_axis T s ''ECAL_shower_profiles_y'' ''ECAL_shower_profile_y_bin %d'' n lo hi qs
      = Some (prYNbins pr, prYMin pr, prYMax pr, prY pr)" for n lo hi qs
    using read_axis_blocks [where as = "b1 # b2 # b3 # bs" and u = "''ECAL_shower_profile_y_bin ''" and cs = "[]",
        OF assms(1), of b4 cs "prY pr"] ok old b4 last by (simp add: s block_text_def)
  show ?thesis by (simp add: load_shower_profiles_def tstring_ops(1) [OF assms(1)] 1 2 3 4)
qed

text \<open>C20. Whatever the members of the decoder held before, load\_shower\_profiles reads a text of shower
  profiles back as exactly those profiles: no header is taken for another (bin 1 for bin 10), every number
  goes to its place, and no vector gets a bad size.\<close>

theorem load_shower_profiles_text:
  assumes "tstring_ok T" "profiles_text pr s"
  shows "load_shower_profiles T (Some s) before = Some (True, pr)"
  using assms by (rule load_shower_profiles_file)

text \<open>The constructor: the signal particles of the data base, and for the forward tracker with calorimeter the
  profiles of the file.\<close>

lemma decoder_constructed:
  assumes "tstring_ok T" "files ''ECAL_shower_profiles.txt'' = Some s" "profiles_text pr s"
    "Getg4sbsDetectorType m = Some ty" "DoCalo m = Some calo"
    "dbNSigParticle m = int (length (dbSigPID m))" "length (dbSigTID m) = length (dbSigPID m)"
  shows "\<exists>d. TSBSSimDecoder T files m d0 = Some d \<and> dcSignalInfo d = zip (dbSigPID m) (dbSigTID m) \<and> dcStripMap d = Map.empty
    \<and> dcProfiles d = (if ty = 3 \<and> calo \<noteq> 0 then pr else dcProfiles d0)"
  using push_signals_ok [of 0 "length (dbSigPID m)" m "[]"] load_shower_profiles_file [OF assms(1,3)] assms(2,4-7)
  by (simp add: TSBSSimDecoder_def Let_def)

section \<open>An example\<close>

function replace_all :: "string \<Rightarrow> string \<Rightarrow> string \<Rightarrow> string" where
  "replace_all p r s = (if p = [] then s else case s of [] \<Rightarrow> []
     | c # cs \<Rightarrow> if prefix p s then r @ replace_all p r (drop (length p) s) else c # replace_all p r cs)"
  by pat_completeness auto
termination by (relation "measure (\<lambda>(p, r, s). length s)") auto

declare replace_all.simps [simp del]

definition find_from :: "string \<Rightarrow> string \<Rightarrow> int \<Rightarrow> int" where
  "find_from s p i = (case find (\<lambda>k. prefix p (drop k s)) [nat i..<Suc (length s)] of None \<Rightarrow> -1 | Some k \<Rightarrow> int k)"

definition tstringEx :: tstring where
  "tstringEx = \<lparr> tsReadFile = (\<lambda>f. case f of None \<Rightarrow> [] | Some t \<Rightarrow> t), tsIndex = find_from,
     tsSub = (\<lambda>s i n. take (nat n) (drop (nat i) s)), tsReplaceAll = (\<lambda>s p r. replace_all p r s),
     tsForm = (\<lambda>fmt n. takeWhile (\<lambda>c. c \<noteq> CHR 0x25) fmt @ digits_of (nat n) @ drop 2 (dropWhile (\<lambda>c. c \<noteq> CHR 0x25) fmt)) \<rparr>"

lemma replace_none: "\<forall>k. \<not> prefix p (drop k s) \<Longrightarrow> replace_all p r s = s"
proof (induction s)
  case Nil
  then show ?case by (simp add: replace_all.simps)
next
  case (Cons c s)
  have "\<not> prefix p (c # s)" using Cons.prems [rule_format, of 0] by simp
  moreover have "\<forall>k. \<not> prefix p (drop k s)" using Cons.prems [rule_format, of "Suc k" for k] by simp
  ultimately show ?case using Cons.IH by (subst replace_all.simps) simp
qed

lemma find_from_first: "p \<noteq> [] \<Longrightarrow> first_at p (drop i s) k \<Longrightarrow> find_from s p (int i) = int (i + k)"
proof -
  assume p: "p \<noteq> []" "first_at p (drop i s) k"
  then have pr: "prefix p (drop (i + k) s)" "\<forall>j < k. \<not> prefix p (drop (i + j) s)" by (simp_all add: first_at_def add.commute)
  have l: "i + k < Suc (length s)" using pr(1) p(1) prefix_length_le [OF pr(1)] by (cases p) auto
  have "find (\<lambda>k. prefix p (drop k s)) [i..<Suc (length s)] = Some (i + k)"
    unfolding find_Some_iff using pr l by (intro exI [of _ k]) (auto simp del: upt_Suc)
  then show ?thesis by (simp add: find_from_def)
qed

lemma find_from_none: "\<forall>k. \<not> prefix p (drop k (drop i s)) \<Longrightarrow> find_from s p (int i) = -1"
proof -
  assume n: "\<forall>k. \<not> prefix p (drop k (drop i s))"
  have "\<not> prefix p (drop k s)" if "i \<le> k" for k using n [rule_format, of "k - i"] that by simp
  then have "find (\<lambda>k. prefix p (drop k s)) [i..<Suc (length s)] = None" unfolding find_None_iff by auto
  then show ?thesis by (simp add: find_from_def)
qed

lemma tstringEx_ok: "tstring_ok tstringEx"
proof -
  have f: "takeWhile (\<lambda>c. c \<noteq> CHR 0x25) (u @ ''%d'') = u" "dropWhile (\<lambda>c. c \<noteq> CHR 0x25) (u @ ''%d'') = ''%d''"
    if "CHR 0x25 \<notin> set u" for u using that by (induction u) auto
  have r: "replace_all p r (p @ s) = r @ replace_all p r s" if "p \<noteq> []" for p r s
    using that by (cases p; subst replace_all.simps) auto
  show ?thesis unfolding tstring_ok_def tstringEx_def
    using find_from_first find_from_none replace_none r f by auto
qed

definition blockEx :: "string \<Rightarrow> block" where
  "blockEx stem = (stem, '' 1 -0.5 5e-1'', '' 0'' @ [CHR 0x0A] @ '' 0.25 '' @ [CHR 0x0A])"

definition axisEx :: "string \<Rightarrow> block" where
  "axisEx stem = (stem, '' 1 -70 70'', [])"

definition blocksEx :: "block list" where
  "blocksEx = [blockEx ''ECAL_shower_profile_x_default'', blockEx ''ECAL_shower_profile_y_default'',
     axisEx ''ECAL_shower_profiles_x'', blockEx ''ECAL_shower_profile_x_bin 1'',
     axisEx ''ECAL_shower_profiles_y'', blockEx ''ECAL_shower_profile_y_bin 1'']"

definition profEx :: shower_profile_t where
  "profEx = \<lparr> spNbinsMom = 1, spXmin = -1/2, spXmax = 1/2, spFrac = [0, 1/4] \<rparr>"

definition profilesEx :: shower_profiles where
  "profilesEx = \<lparr> prDefaultX = profEx, prDefaultY = profEx, prXNbins = 1, prYNbins = 1, prXMin = -70, prXMax = 70,
     prYMin = -70, prYMax = 70, prX = [profEx], prY = [profEx] \<rparr>"

lemmas text_defs = read_int_def read_double_def open_stream_def good_def isspace_def isdigit_def split_sign_def digits_val_def
  scale10_def Let_def

lemma numbersEx:
  "int_text ''1'' 1" "num_text ''-0.5'' (-1/2)" "num_text ''5e-1'' (1/2)" "num_text ''-70'' (-70)" "num_text ''70'' 70"
  "num_text ''0'' 0" "num_text ''0.25'' (1/4)"
  by (simp_all add: int_text_def num_text_def text_defs)

lemma fieldsEx: "fields '' 1 -0.5 5e-1'' = [''1'', ''-0.5'', ''5e-1'']" "fields '' 1 -70 70'' = [''1'', ''-70'', ''70'']"
  "fields ('' 0'' @ [CHR 0x0A] @ '' 0.25 '' @ [CHR 0x0A]) = [''0'', ''0.25'']"
  by (simp_all add: fields.simps isspace_def)

lemma blockEx_ok:
  assumes "prefix ''ECAL_shower_profile'' stem" "plain (tl stem)" "CHR 0x0A \<notin> set stem"
  shows "profile_block profEx (blockEx stem)" "block_ok (axisEx stem)" "header_text (fst (snd (axisEx stem))) 1 (-70) 70"
proof -
  show "profile_block profEx (blockEx stem)" using assms numbersEx
    by (simp add: profile_block_def blockEx_def block_ok_def plain_def header_text_def fieldsEx [simplified] profEx_def isspace_def)
  show "block_ok (axisEx stem)" using assms by (simp add: axisEx_def block_ok_def plain_def isspace_def)
  show "header_text (fst (snd (axisEx stem))) 1 (-70) 70" using numbersEx
    by (simp add: axisEx_def header_text_def fieldsEx [simplified])
qed

theorem load_shower_profiles_text_witness:
  "\<forall>before. load_shower_profiles tstringEx (Some (text_of blocksEx)) before = Some (True, profilesEx)"
proof
  fix before
  have d: "digits_of (Suc 0) = ''1''" by (simp add: digits_of.simps char_digits)
  have st: "prefix ''ECAL_shower_profile'' u \<and> plain (tl u) \<and> CHR 0x0A \<notin> set u"
    if "u \<in> {''ECAL_shower_profile_x_default'', ''ECAL_shower_profile_y_default'', ''ECAL_shower_profiles_x'',
      ''ECAL_shower_profile_x_bin 1'', ''ECAL_shower_profiles_y'', ''ECAL_shower_profile_y_bin 1''}" for u
    using that by (auto simp: plain_def)
  have l: "isspace (last (text_of blocksEx))" by (simp add: blocksEx_def block_text_def blockEx_def isspace_def)
  have tx: "text_of blocksEx = text_of (blockEx ''ECAL_shower_profile_x_default'' # blockEx ''ECAL_shower_profile_y_default''
      # axisEx ''ECAL_shower_profiles_x'' # [blockEx ''ECAL_shower_profile_x_bin 1''] @ axisEx ''ECAL_shower_profiles_y''
      # [blockEx ''ECAL_shower_profile_y_bin 1''])"
    by (simp only: blocksEx_def append_Cons append_Nil)
  have pb: "profile_block profEx (blockEx u) \<and> block_ok (axisEx u) \<and> header_text (fst (snd (axisEx u))) 1 (-70) 70"
    if "u \<in> {''ECAL_shower_profile_x_default'', ''ECAL_shower_profile_y_default'', ''ECAL_shower_profiles_x'',
      ''ECAL_shower_profile_x_bin 1'', ''ECAL_shower_profiles_y'', ''ECAL_shower_profile_y_bin 1''}" for u
    using st [OF that] blockEx_ok [of u] by blast
  have fs: "fst (blockEx u) = u" "fst (axisEx u) = u" for u by (simp_all add: blockEx_def axisEx_def)
  have bb: "bin_blocks v 0 [profEx] [blockEx (v @ ''1'')]" if "profile_block profEx (blockEx (v @ ''1''))" for v
    using that by (simp add: d blockEx_def)
  have "profiles_text profilesEx (text_of blocksEx)" unfolding profiles_text_def
    by (rule conjI [OF l], rule exI [of _ "blockEx ''ECAL_shower_profile_x_default''"], rule exI [of _ "blockEx ''ECAL_shower_profile_y_default''"],
        rule exI [of _ "axisEx ''ECAL_shower_profiles_x''"], rule exI [of _ "[blockEx ''ECAL_shower_profile_x_bin 1'']"],
        rule exI [of _ "axisEx ''ECAL_shower_profiles_y''"], rule exI [of _ "[blockEx ''ECAL_shower_profile_y_bin 1'']"])
      (use bb [of "''ECAL_shower_profile_x_bin ''"] bb [of "''ECAL_shower_profile_y_bin ''"] in
        \<open>simp add: tx pb fs profilesEx_def d\<close>)
  then show "load_shower_profiles tstringEx (Some (text_of blocksEx)) before = Some (True, profilesEx)"
    by (rule load_shower_profiles_text [OF tstringEx_ok])
qed

end
