(* ===== verification/Variables.thy ===== *)
theory Variables
  imports Decoder
begin

text \<open>
  The data of the decoder as seen by the analyzer: the accessors of TSBSSimGEMHit and TSBSSimBackTrack
  (TSBSSimDecoder.h) and the global variables registered by DefineVariables (TSBSSimDecoder.cxx).  The
  registry of the analyzer is a parameter.  The names of the variables are checked against the members of
  the classes they refer to, and the variables of hits and back tracks have their values.
\<close>

section \<open>Accessors\<close>

definition gh_P :: "simgemhit \<Rightarrow> real" where "gh_P h = sqrt (vmag2 (sgP h))"
definition gh_X :: "simgemhit \<Rightarrow> real" where "gh_X h = vx (sgMCpos h)"
definition gh_Y :: "simgemhit \<Rightarrow> real" where "gh_Y h = vy (sgMCpos h)"
definition gh_Z :: "simgemhit \<Rightarrow> real" where "gh_Z h = vz (sgMCpos h)"

definition bt_X :: "backtrack \<Rightarrow> real" where "bt_X b = vx (btOrigin b)"
definition bt_Y :: "backtrack \<Rightarrow> real" where "bt_Y b = vy (btOrigin b)"
definition bt_P :: "backtrack \<Rightarrow> real" where "bt_P b = sqrt (vmag2 (btMomentum b))"

text \<open>Slopes of the momentum; no number for a momentum without z component.\<close>

definition bt_ThetaT :: "backtrack \<Rightarrow> real option" where
  "bt_ThetaT b = (if vz (btMomentum b) = 0 then None else Some (vx (btMomentum b) / vz (btMomentum b)))"

definition bt_PhiT :: "backtrack \<Rightarrow> real option" where
  "bt_PhiT b = (if vz (btMomentum b) = 0 then None else Some (vy (btMomentum b) / vz (btMomentum b)))"

definition bt_HX :: "backtrack \<Rightarrow> real" where "bt_HX b = vx (btHitpos b)"
definition bt_HY :: "backtrack \<Rightarrow> real" where "bt_HY b = vy (btHitpos b)"

definition TESTBIT :: "32 word \<Rightarrow> int \<Rightarrow> bool" where
  "TESTBIT w i = bit w (nat i)"

definition TestHitBit :: "backtrack \<Rightarrow> int \<Rightarrow> bool" where
  "TestHitBit b i = TESTBIT (btHitBits b) i"

definition GetNBackTracks :: "'s decoder \<Rightarrow> int" where
  "GetNBackTracks d = int (length (dcBackTracks d))"

definition GetBackTrack :: "'s decoder \<Rightarrow> int \<Rightarrow> backtrack option" where
  "GetBackTrack d i = rdi (dcBackTracks d) i"

definition GetGEMHit :: "'s decoder \<Rightarrow> int \<Rightarrow> simgemhit option" where
  "GetGEMHit d i = rdi (dcMCHits d) i"

text \<open>A bit set in a word of 32 bits is the only change that TestHitBit sees.\<close>

lemma TestHitBit_SETBIT:
  assumes "0 \<le> i" "i < 32" "0 \<le> k"
  shows "TestHitBit (b \<lparr> btHitBits := SETBIT (btHitBits b) i \<rparr>) k \<longleftrightarrow> k = i \<or> TestHitBit b k"
proof -
  have "nat i < 32" "nat k = nat i \<longleftrightarrow> k = i" using assms by auto
  then show ?thesis by (auto simp: TestHitBit_def TESTBIT_def SETBIT_def bit_set_bit_iff possible_bit_word)
qed

text \<open>A new back track has the bit of the plane of its cluster and no other.\<close>

lemma new_track_bits:
  assumes "TSBSSimBackTrack m c = Some b" "0 \<le> gcPlane c" "gcPlane c < 32" "0 \<le> k"
  shows "TestHitBit b k \<longleftrightarrow> k = gcPlane c"
proof -
  obtain r b0 where b: "bt_Update m c \<lparr> btType = gcType c, btPID = gcPID c, btSector = gcSector c, btSource = gcSource c,
        btOrigin = 0, btHitpos = 0, btMomentum = 0, btHitBits = 0, btUfailBits = 0, btVfailBits = 0 \<rparr> = Some (r, b0)"
      "b = b0 \<lparr> btHitBits := SETBIT (btHitBits b0) (gcPlane c) \<rparr>"
    using assms(1) by (auto simp: TSBSSimBackTrack_def bind_eq_Some_conv)
  have "btHitBits b0 = 0" using b(1) by (auto simp: bt_Update_def Let_def bind_eq_Some_conv split: if_splits)
  then have "\<not> TestHitBit b0 k" by (simp add: TestHitBit_def TESTBIT_def)
  then show ?thesis using TestHitBit_SETBIT [OF assms(2-4), of b0] b(2) by simp
qed

section \<open>The global variables\<close>

text \<open>Name, description and definition of each variable.\<close>

type_synonym vardef = "string \<times> string \<times> string"

definition mc_vars :: "vardef list" where
  "mc_vars = [
     (''tr.vx'', ''Track origin x (m)'', ''fMCTracks.TSBSSimTrack.targetX()''),
     (''tr.vy'', ''Track origin y (m)'', ''fMCTracks.TSBSSimTrack.targetY()''),
     (''tr.vz'', ''Track origin z (m)'', ''fMCTracks.TSBSSimTrack.targetZ()''),
     (''tr.p'', ''Track momentum (GeV)'', ''fMCTracks.TSBSSimTrack.targetP() ''),
     (''tr.theta'', ''Track theta_p (rad)'', ''fMCTracks.TSBSSimTrack.targetPTheta()''),
     (''tr.phi'', ''Track phi_p (rad)'', ''fMCTracks.TSBSSimTrack.targetPPhi()''),
     (''tr.ptarx'', ''Track px(GeV)'', ''fMCTracks.TSBSSimTrack.targetPX()''),
     (''tr.ptary'', ''Track py(GeV)'', ''fMCTracks.TSBSSimTrack.targetPY()''),
     (''tr.ptarz'', ''Track pz(GeV)'', ''fMCTracks.TSBSSimTrack.targetPZ()''),
     (''tr.x'', ''Track x in Transport'', ''fMCTracks.TSBSSimTrack.VX()''),
     (''tr.y'', ''Track y in Transport'', ''fMCTracks.TSBSSimTrack.VY()''),
     (''tr.p_transport'', ''Track momentum in Transport'', ''fMCTracks.TSBSSimTrack.P()''),
     (''tr.px'', ''Track x_momentum in Transport'', ''fMCTracks.TSBSSimTrack.PX()''),
     (''tr.py'', ''Track y_momentum in Transport'', ''fMCTracks.TSBSSimTrack.PY()''),
     (''tr.pz'', ''Track z_momentum in Transport'', ''fMCTracks.TSBSSimTrack.PZ()''),
     (''tr.pid'', ''Track PID (PDG)'', ''fMCTracks.TSBSSimTrack.fPID''),
     (''tr.num'', ''GEANT track number'', ''fMCTracks.TSBSSimTrack.fNumber''),
     (''tr.planes'', ''Bitpattern of planes hit'', ''fMCTracks.TSBSSimTrack.fHitBits''),
     (''tr.nhits'', ''Number of tracker hits'', ''fMCTracks.TSBSSimTrack.fNHits''),
     (''tr.nfound'', ''Number of hits found'', ''fMCTracks.TSBSSimTrack.fNHitsFound''),
     (''tr.flags'', ''Reconstruction status'', ''fMCTracks.TSBSSimTrack.fReconFlags''),
     (''tr.mcfit.x'', ''Track x from MC fit [m]'', ''fMCTracks.TSBSSimTrack.fMCFitPar[0]''),
     (''tr.mcfit.xdir'', ''Track dir x from MC fit [rad]'', ''fMCTracks.TSBSSimTrack.fMCFitPar[1]''),
     (''tr.mcfit.y'', ''Track y from MC fit [rad]'', ''fMCTracks.TSBSSimTrack.fMCFitPar[2]''),
     (''tr.mcfit.ydir'', ''Track dir y from MC fit [rad]'', ''fMCTracks.TSBSSimTrack.fMCFitPar[3]''),
     (''tr.mcfit.chi2'', ''Chi2 of MC fit'', ''fMCTracks.TSBSSimTrack.fMCFitPar[4]''),
     (''tr.mcfit.ndof'', ''NDoF of MC fit'', ''fMCTracks.TSBSSimTrack.fMCFitPar[5]''),
     (''tr.mcfit.vx'', ''Vertex x from MC fit [m]'', ''fMCTracks.TSBSSimTrack.fMCFitPar[6]''),
     (''tr.mcfit.vy'', ''Vertex y from MC fit [m]'', ''fMCTracks.TSBSSimTrack.fMCFitPar[7]''),
     (''tr.mcfit.vz'', ''Vertex z from MC fit [m]'', ''fMCTracks.TSBSSimTrack.fMCFitPar[8]''),
     (''tr.fit.x'', ''Track x from rec hit fit [m]'', ''fMCTracks.TSBSSimTrack.fRcFitPar[0]''),
     (''tr.fit.xdir'', ''Track dir x from rec hit fit [rad]'', ''fMCTracks.TSBSSimTrack.fRcFitPar[1]''),
     (''tr.fit.y'', ''Track y from rec hit fit [rad]'', ''fMCTracks.TSBSSimTrack.fRcFitPar[2]''),
     (''tr.fit.ydir'', ''Track dir y from rec hit fit [rad]'', ''fMCTracks.TSBSSimTrack.fRcFitPar[3]''),
     (''tr.fit.chi2'', ''Chi2 of rec hit fit'', ''fMCTracks.TSBSSimTrack.fRcFitPar[4]''),
     (''tr.fit.ndof'', ''NDoF of rec hit fit'', ''fMCTracks.TSBSSimTrack.fRcFitPar[5]''),
     (''tr.fit.vx'', ''Vertex x from rec hit fit [m]'', ''fMCTracks.TSBSSimTrack.fRcFitPar[6]''),
     (''tr.fit.vy'', ''Vertex y from rec hit fit [m]'', ''fMCTracks.TSBSSimTrack.fRcFitPar[7]''),
     (''tr.fit.vz'', ''Vertex z from rec hit fit [m]'', ''fMCTracks.TSBSSimTrack.fRcFitPar[8]''),
     (''btr.n'', ''Number of back tracks'', ''GetNBackTracks()''),
     (''btr.pid'', ''Track PID (PDG)'', ''fBackTracks.TSBSSimBackTrack.fPID''),
     (''btr.num'', ''GEANT particle number'', ''fBackTracks.TSBSSimBackTrack.fType''),
     (''btr.planes'', ''Bitpattern of planes hit'', ''fBackTracks.TSBSSimBackTrack.fHitBits''),
     (''btr.ufail'', ''Undigitized u planes'', ''fBackTracks.TSBSSimBackTrack.fUfailBits''),
     (''btr.vfail'', ''Undigitized v planes'', ''fBackTracks.TSBSSimBackTrack.fVfailBits''),
     (''btr.sect'', ''Sector number'', ''fBackTracks.TSBSSimBackTrack.fSector''),
     (''btr.p'', ''Track momentum (GeV)'', ''fBackTracks.TSBSSimBackTrack.P() ''),
     (''btr.x'', ''Track pos lab x [m]'', ''fBackTracks.TSBSSimBackTrack.X()''),
     (''btr.y'', ''Track pos lab y [m]'', ''fBackTracks.TSBSSimBackTrack.Y()''),
     (''btr.th'', ''Track dir tan(theta)'', ''fBackTracks.TSBSSimBackTrack.ThetaT()''),
     (''btr.ph'', ''Track dir tan(phi)'', ''fBackTracks.TSBSSimBackTrack.PhiT()''),
     (''btr.hx'', ''Track pos plane x [m]'', ''fBackTracks.TSBSSimBackTrack.HX()''),
     (''btr.hy'', ''Track pos plane y [m]'', ''fBackTracks.TSBSSimBackTrack.HY()''),
     (''hit.id'', ''MC hit number'', ''fMCHits.TSBSSimGEMHit.fID''),
     (''hit.sect'', ''MC hit sector'', ''fMCHits.TSBSSimGEMHit.fSector''),
     (''hit.rsect'', ''MC hit non-mapped sector'', ''fMCHits.TSBSSimGEMHit.fRealSector''),
     (''hit.plane'', ''MC hit plane'', ''fMCHits.TSBSSimGEMHit.fPlane''),
     (''hit.module'', ''MC hit module'', ''fMCHits.TSBSSimGEMHit.fModule''),
     (''hit.src'', ''MC data set source'', ''fMCHits.TSBSSimGEMHit.fSource''),
     (''hit.type'', ''MC hit GEANT counter'', ''fMCHits.TSBSSimGEMHit.fType''),
     (''hit.pid'', ''MC hit PID (PDG)'', ''fMCHits.TSBSSimGEMHit.fPID''),
     (''hit.p'', ''MC hit particle mom [GeV]'', ''fMCHits.TSBSSimGEMHit.P()''),
     (''hit.x'', ''MC hit lab x position [m]'', ''fMCHits.TSBSSimGEMHit.X()''),
     (''hit.y'', ''MC hit lab y position [m]'', ''fMCHits.TSBSSimGEMHit.Y()''),
     (''hit.z'', ''MC hit lab z position [m]'', ''fMCHits.TSBSSimGEMHit.Z()''),
     (''hit.charge'', ''MC hit cluster charge'', ''fMCHits.TSBSSimGEMHit.fCharge''),
     (''hit.time'', ''MC hit time offset [s]'', ''fMCHits.TSBSSimGEMHit.fTime''),
     (''hit.usz'', ''MC hit u cluster size'', ''fMCHits.TSBSSimGEMHit.fUSize''),
     (''hit.ustart'', ''MC hit u cluster 1st strip'', ''fMCHits.TSBSSimGEMHit.fUStart''),
     (''hit.upos'', ''MC hit u cluster center [m]'', ''fMCHits.TSBSSimGEMHit.fUPos''),
     (''hit.vsz'', ''MC hit v cluster size'', ''fMCHits.TSBSSimGEMHit.fVSize''),
     (''hit.vstart'', ''MC hit v cluster 1st strip'', ''fMCHits.TSBSSimGEMHit.fVStart''),
     (''hit.vpos'', ''MC hit v cluster center [m]'', ''fMCHits.TSBSSimGEMHit.fVPos''),
     (''pt.fmctrk'', ''MC point track number'', ''fMCPoints.Podd::MCTrackPoint.fMCTrack'')]"

datatype defmode = kDefine | kDelete

text \<open>The registry of the analyzer with what the decoder uses of it: whether the decoder is set up (fIsSetup),
  DefineVariables of the base class, DefineVarsFromList.\<close>

record 'r registry =
  rgIsSetup :: "'r \<Rightarrow> bool"
  rgBase :: "defmode \<Rightarrow> 'r \<Rightarrow> 'r"
  rgFromList :: "vardef list \<Rightarrow> defmode \<Rightarrow> 'r \<Rightarrow> int \<times> 'r"

definition DefineVariables :: "'r registry \<Rightarrow> defmode \<Rightarrow> 'r \<Rightarrow> int \<times> 'r" where
  "DefineVariables G mode r = (if mode = kDefine \<and> rgIsSetup G r then (0, r)
     else rgFromList G mc_vars mode (rgBase G mode r))"

section \<open>What the variables refer to\<close>

text \<open>A definition is read as container, class and member, or as a method of the decoder.\<close>

fun split_dot :: "string \<Rightarrow> string \<Rightarrow> string list" where
  "split_dot acc [] = [rev acc]"
| "split_dot acc (c # cs) = (if c = CHR ''.'' then rev acc # split_dot [] cs
     else if c = CHR '' '' then split_dot acc cs else split_dot (c # acc) cs)"

text \<open>The value of a member; Unset if the code never gives it one, NotFinite for a quotient by 0.\<close>

datatype memval = IntV int | RealV real | Unset | NotFinite

definition int_val :: "int option \<Rightarrow> memval" where
  "int_val v = (case v of None \<Rightarrow> Unset | Some i \<Rightarrow> IntV i)"

definition real_val :: "real option \<Rightarrow> memval" where
  "real_val v = (case v of None \<Rightarrow> NotFinite | Some x \<Rightarrow> RealV x)"

definition hit_members :: "(string \<times> (simgemhit \<Rightarrow> memval)) list" where
  "hit_members = [(''fID'', \<lambda>h. IntV (sgID h)), (''fSector'', \<lambda>h. IntV (sgSector h)), (''fPlane'', \<lambda>h. IntV (sgPlane h)),
     (''fRealSector'', \<lambda>h. int_val (sgRealSector h)), (''fModule'', \<lambda>h. IntV (sgModule h)), (''fSource'', \<lambda>h. IntV (sgSource h)),
     (''fType'', \<lambda>h. IntV (sgType h)), (''fPID'', \<lambda>h. IntV (sgPID h)), (''P()'', \<lambda>h. RealV (gh_P h)), (''X()'', \<lambda>h. RealV (gh_X h)),
     (''Y()'', \<lambda>h. RealV (gh_Y h)), (''Z()'', \<lambda>h. RealV (gh_Z h)), (''fCharge'', \<lambda>h. RealV (sgCharge h)),
     (''fTime'', \<lambda>h. RealV (sgTime h)), (''fUSize'', \<lambda>h. IntV (sgUSize h)), (''fUStart'', \<lambda>h. IntV (sgUStart h)),
     (''fUPos'', \<lambda>h. RealV (sgUPos h)), (''fVSize'', \<lambda>h. IntV (sgVSize h)), (''fVStart'', \<lambda>h. IntV (sgVStart h)),
     (''fVPos'', \<lambda>h. RealV (sgVPos h))]"

definition track_members :: "(string \<times> (backtrack \<Rightarrow> memval)) list" where
  "track_members = [(''fType'', \<lambda>b. IntV (btType b)), (''fPID'', \<lambda>b. IntV (btPID b)), (''fSector'', \<lambda>b. IntV (btSector b)),
     (''fSource'', \<lambda>b. IntV (btSource b)), (''fHitBits'', \<lambda>b. IntV (sint (btHitBits b))), (''fUfailBits'', \<lambda>b. IntV (sint (btUfailBits b))),
     (''fVfailBits'', \<lambda>b. IntV (sint (btVfailBits b))), (''X()'', \<lambda>b. RealV (bt_X b)), (''Y()'', \<lambda>b. RealV (bt_Y b)), (''P()'', \<lambda>b. RealV (bt_P b)),
     (''ThetaT()'', \<lambda>b. real_val (bt_ThetaT b)), (''PhiT()'', \<lambda>b. real_val (bt_PhiT b)), (''HX()'', \<lambda>b. RealV (bt_HX b)),
     (''HY()'', \<lambda>b. RealV (bt_HY b))]"

text \<open>The values of a variable of the hits or the back tracks, one for each object; the variables of the tracks
  and points, classes of the analyzer, are not looked into.\<close>

definition var_values :: "'s decoder \<Rightarrow> string \<Rightarrow> memval list option" where
  "var_values d def = (case split_dot [] def of
     [m] \<Rightarrow> if m = ''GetNBackTracks()'' then Some [IntV (GetNBackTracks d)] else None
   | [a, c, m] \<Rightarrow>
       if a = ''fMCHits'' \<and> c = ''TSBSSimGEMHit'' then map_option (\<lambda>g. map g (dcMCHits d)) (map_of hit_members m)
       else if a = ''fBackTracks'' \<and> c = ''TSBSSimBackTrack'' then map_option (\<lambda>g. map g (dcBackTracks d)) (map_of track_members m)
       else None
   | _ \<Rightarrow> None)"

definition value_of :: "'s decoder \<Rightarrow> string \<Rightarrow> memval list option" where
  "value_of d name = (case map_of mc_vars name of None \<Rightarrow> None | Some (text, def) \<Rightarrow> var_values d def)"

text \<open>No name is registered twice.\<close>

lemma names_distinct: "distinct (map fst mc_vars)"
  by code_simp

lemma DefineVariables_once:
  assumes "rgIsSetup G (snd (DefineVariables G kDefine r))"
  shows "DefineVariables G kDefine (snd (DefineVariables G kDefine r)) = (0, snd (DefineVariables G kDefine r))"
  using assms by (simp add: DefineVariables_def)

lemma member_names:
  "map fst hit_members = [''fID'', ''fSector'', ''fPlane'', ''fRealSector'', ''fModule'', ''fSource'', ''fType'',
     ''fPID'', ''P()'', ''X()'', ''Y()'', ''Z()'', ''fCharge'', ''fTime'', ''fUSize'',
      ''fUStart'', ''fUPos'', ''fVSize'', ''fVStart'', ''fVPos'']"
  "map fst track_members = [''fType'', ''fPID'', ''fSector'', ''fSource'', ''fHitBits'', ''fUfailBits'', ''fVfailBits'', 
     ''X()'', ''Y()'', ''P()'', ''ThetaT()'', ''PhiT()'', ''HX()'', ''HY()'']"
  by (simp_all add: hit_members_def track_members_def)

text \<open>Every variable of a hit or a back track names a member that the class has.\<close>

lemma variables_resolved:
  "list_all (\<lambda>(n, t, d). case split_dot [] d of
      [m] \<Rightarrow> m = ''GetNBackTracks()''
    | [a, c, m] \<Rightarrow> (a = ''fMCHits'' \<longrightarrow> c = ''TSBSSimGEMHit'' \<and> m \<in> set (map fst hit_members))
        \<and> (a = ''fBackTracks'' \<longrightarrow> c = ''TSBSSimBackTrack'' \<and> m \<in> set (map fst track_members))
        \<and> a \<in> {''fMCHits'', ''fBackTracks'', ''fMCTracks'', ''fMCPoints''}
    | _ \<Rightarrow> False) mc_vars"
  unfolding member_names by code_simp

lemma hit_variables:
  "value_of d ''hit.id'' = Some (map (\<lambda>h. IntV (sgID h)) (dcMCHits d))"
  "value_of d ''hit.vpos'' = Some (map (\<lambda>h. RealV (sgVPos h)) (dcMCHits d))"
  "value_of d ''hit.rsect'' = Some (map (\<lambda>h. int_val (sgRealSector h)) (dcMCHits d))"
  "value_of d ''btr.n'' = Some [IntV (int (length (dcBackTracks d)))]"
  "value_of d ''btr.hx'' = Some (map (\<lambda>b. RealV (vx (btHitpos b))) (dcBackTracks d))"
  by (simp_all add: value_of_def var_values_def mc_vars_def hit_members_def track_members_def GetNBackTracks_def bt_HX_def)

text \<open>The variable of the real sector has no value: the constructor of a hit does not set it.\<close>

lemma real_sector_unset:
  assumes "\<forall>h \<in> set (dcMCHits d). \<exists>c. TSBSSimGEMHit c = Some h"
  shows "value_of d ''hit.rsect'' = Some (replicate (length (dcMCHits d)) Unset)"
proof -
  have "int_val (sgRealSector h) = Unset" if "TSBSSimGEMHit c = Some h" for c h
    using that by (auto simp: TSBSSimGEMHit_def bind_eq_Some_conv int_val_def)
  then have "map (\<lambda>h. int_val (sgRealSector h)) (dcMCHits d) = map (\<lambda>_. Unset) (dcMCHits d)"
    using assms by (intro map_cong) auto
  then show ?thesis by (simp add: hit_variables(3) map_replicate_const)
qed
end
