(* ===== verification/Geant4File.thy ===== *)
theory Geant4File
  imports HitData DBManager Calorimeter
begin

text \<open>
  The reader of Geant4 events, TSBSGeant4File (src/src/TSBSGeant4File.cxx and .h): opening and
  closing the ROOT file, reading one event of the tree into hit and track records for each of the
  detectors, and packing the hits for the digitization.  A ROOT file is its list of entries, each
  the number of bytes read and the values of the branches; the branches of one hit collection are
  the rows of a list (their number is a branch of its own).  The random numbers of the calorimeters
  are parameters.  Debug output (d\_flag) is not modelled.
\<close>

section \<open>The tree\<close>

text \<open>One hit of a GEM collection and one reconstructed track of it, as g4sbs stores them.\<close>

record g4row =
  rwPlane :: int
  rwTrid :: int
  rwMid :: int
  rwPid :: int
  rwEdep :: real
  rwTmin :: real
  rwTmax :: real
  rwTx :: real
  rwTxp :: real
  rwTyp :: real
  rwIn :: vec3
  rwOut :: vec3
  rwVtx :: vec3
  rwP :: real

record g4track =
  gtTID :: int
  gtPID :: int
  gtMID :: int
  gtX :: real
  gtY :: real
  gtXp :: real
  gtYp :: real
  gtP :: real

type_synonym gembank = "int \<times> g4row list"
type_synonym trackbank = "int \<times> g4track list"

record g4event =
  geSolang :: real
  geSigma :: real
  geV :: vec3
  geEp :: vec3
  geNp :: vec3
  geBBGEM :: gembank
  geBBTrack :: trackbank
  geSBSGEM :: gembank
  geFT :: gembank
  geFTTrack :: trackbank
  geFPP1 :: gembank
  geFPP1Track :: trackbank
  geFPP2 :: gembank
  geFPP2Track :: trackbank
  gePS :: "calhit list"
  geSH :: "calhit list"
  geECal :: "calhit list"
  geCDet :: "calhit list"
  geHCal :: "calhit list"

datatype g4disk = NotOpen | NoTreeT | TreeT "(int \<times> g4event) list"

text \<open>The constructor of g4sbs\_tree without a tree tries a file of a fixed name; a tree that is
  not found has no entries.\<close>

definition fallback_file :: string where
  "fallback_file = ''gep_spin_transport_Sx.root''"

definition g4sbs_tree :: "(string \<Rightarrow> g4disk) \<Rightarrow> g4disk \<Rightarrow> (int \<times> g4event) list" where
  "g4sbs_tree disk C1 = (case C1 of TreeT es \<Rightarrow> es
     | _ \<Rightarrow> (case disk fallback_file of TreeT es \<Rightarrow> es | _ \<Rightarrow> []))"

text \<open>TTree::GetEntry: nothing is read beyond the last entry; the variables keep their values
  when no bytes are read.\<close>

definition g4_GetEntry :: "(int \<times> g4event) list \<Rightarrow> nat \<Rightarrow> g4event option \<Rightarrow> int \<times> g4event option" where
  "g4_GetEntry es i cur = (case rd es i of None \<Rightarrow> (0, cur)
     | Some (bytes, e) \<Rightarrow> (bytes, if 0 < bytes then Some e else cur))"

section \<open>The reader\<close>

text \<open>gfFile: the pointer to the file (None is null) and whether it is open.  gfTree: the tree and
  its variables; None where there is no valid tree.  gfEvNum: None where it is not initialized.\<close>

record g4file =
  gfName :: string
  gfFile :: "bool option"
  gfTree :: "((int \<times> g4event) list \<times> g4event option) option"
  gfSource :: int
  gfEvNum :: "32 word option"
  gfManager :: bool
  gfHits :: "hitdata list"
  gfGens :: "hitdata list"
  gfECal :: "ecal_cluster list"
  gfScint :: "scint_cluster list"

text \<open>strcpy into an array of 255 characters.\<close>

definition g4_SetFilename :: "string \<Rightarrow> g4file \<Rightarrow> g4file option" where
  "g4_SetFilename name f = (if length name < 255 then Some (f \<lparr> gfName := name \<rparr>) else None)"

definition TSBSGeant4File0 :: g4file where
  "TSBSGeant4File0 = \<lparr> gfName = [], gfFile = None, gfTree = None, gfSource = 0, gfEvNum = Some 0, gfManager = False,
     gfHits = [], gfGens = [], gfECal = [], gfScint = [] \<rparr>"

definition TSBSGeant4File :: "string \<Rightarrow> g4file option" where
  "TSBSGeant4File name = g4_SetFilename name
     \<lparr> gfName = [], gfFile = None, gfTree = None, gfSource = 0, gfEvNum = None, gfManager = True,
       gfHits = [], gfGens = [], gfECal = [], gfScint = [] \<rparr>"

definition g4_SetSource :: "int \<Rightarrow> g4file \<Rightarrow> g4file" where
  "g4_SetSource i f = f \<lparr> gfSource := i \<rparr>"

definition SetFirstEvNum :: "32 word \<Rightarrow> g4file \<Rightarrow> g4file" where
  "SetFirstEvNum evnum f = f \<lparr> gfEvNum := Some (evnum - 1) \<rparr>"

definition g4_GetEntries :: "g4file \<Rightarrow> nat option" where
  "g4_GetEntries f = do { (es, cur) \<leftarrow> gfTree f; Some (length es) }"

text \<open>The lists of clusters; \<open>at\<close> throws for an index out of range.\<close>

definition AddCluster :: "ecal_cluster \<Rightarrow> g4file \<Rightarrow> g4file" where
  "AddCluster clus f = f \<lparr> gfECal := gfECal f @ [clus] \<rparr>"

definition AddSciCluster :: "scint_cluster \<Rightarrow> g4file \<Rightarrow> g4file" where
  "AddSciCluster clus f = f \<lparr> gfScint := gfScint f @ [clus] \<rparr>"

definition GetCluster :: "int \<Rightarrow> g4file \<Rightarrow> ecal_cluster option" where
  "GetCluster i f = rdi (gfECal f) i"

definition GetSciCluster :: "int \<Rightarrow> g4file \<Rightarrow> scint_cluster option" where
  "GetSciCluster i f = rdi (gfScint f) i"

definition g4_Clear :: "g4file \<Rightarrow> g4file" where
  "g4_Clear f = f \<lparr> gfHits := [], gfGens := [], gfECal := [], gfScint := [] \<rparr>"

text \<open>The detector type is tested with "less than 1 and greater than 4".\<close>

definition g4_Open :: "(string \<Rightarrow> g4disk) \<Rightarrow> dbm \<Rightarrow> g4file \<Rightarrow> (int \<times> g4file) option" where
  "g4_Open disk m f =
     (if gfName f = [] then Some (0, f)
      else (case disk (gfName f) of
          NotOpen \<Rightarrow> Some (0, f \<lparr> gfFile := Some False \<rparr>)
        | C1 \<Rightarrow> do {
            let f = f \<lparr> gfFile := Some True \<rparr>;
            ty \<leftarrow> (if gfManager f then Getg4sbsDetectorType m else None);
            if ty < 1 \<and> 4 < ty then Some (0, f)
            else Some (1, f \<lparr> gfTree := Some (g4sbs_tree disk C1, None), gfEvNum := Some (-1) \<rparr>) }))"

definition g4_Close :: "g4file \<Rightarrow> (int \<times> g4file) option" where
  "g4_Close f = do {
     is_open \<leftarrow> gfFile f;
     if \<not> is_open then Some (0, f)
     else Some (1, (g4_Clear f) \<lparr> gfTree := None, gfFile := None \<rparr>) }"

section \<open>Filling the records\<close>

text \<open>The local variables of ReadNextEvent that live through the event, and the records made so
  far: hit\_data\_temp, gen\_data\_temp and gen\_data\_temp\_max start uninitialized.\<close>

record rdst =
  rsModule :: int
  rsSector :: int
  rsHitTemp :: "real option list"
  rsGenTemp :: "real option list"
  rsGenMax :: "real option list"
  rsPmax :: real
  rsTrid :: "int list"
  rsMID :: int
  rsHits :: "hitdata list"
  rsGens :: "hitdata list"

definition rdst0 :: rdst where
  "rdst0 = \<lparr> rsModule = 0, rsSector = 0, rsHitTemp = replicate 24 None, rsGenTemp = replicate 15 None,
     rsGenMax = replicate 9 None, rsPmax = 0, rsTrid = [], rsMID = 0, rsHits = [], rsGens = [] \<rparr>"

text \<open>Assignments to elements of a temporary array, and the loop that copies its first n elements
  to a record.\<close>

definition set_temp :: "(nat \<times> real) list \<Rightarrow> real option list \<Rightarrow> real option list" where
  "set_temp kvs t = fold (\<lambda>(i, x) t. t[i := Some x]) kvs t"

definition copy_temp :: "nat \<Rightarrow> real option list \<Rightarrow> hitdata \<Rightarrow> hitdata option" where
  "copy_temp n t h = do { xs \<leftarrow> those (take n t); put_all SetData (zip [0..<n] xs) h }"

definition vec_slots :: "nat \<Rightarrow> vec3 \<Rightarrow> (nat \<times> real) list" where
  "vec_slots k v = [(k, vx v), (k + 1, vy v), (k + 2, vz v)]"

text \<open>The values of one hit.\<close>

record g4hit =
  khPlane :: int
  khEdep :: real
  khTmin :: real
  khTmax :: real
  khType :: int
  khTrid :: int
  khPid :: int
  khModule :: int
  khRO :: vec3
  khIn :: vec3
  khOut :: vec3
  khVtx :: vec3
  khMom :: vec3

definition hit_slots :: "g4hit \<Rightarrow> (nat \<times> real) list" where
  "hit_slots h = [(0, of_int (khPlane h)), (1, khEdep h), (8, khTmin h), (12, khTmax h), (13, of_int (khType h)),
       (17, of_int (khTrid h)), (18, of_int (khPid h)), (19, of_int (khModule h))]
     @ vec_slots 2 (khRO h) @ vec_slots 5 (khIn h) @ vec_slots 9 (khOut h) @ vec_slots 14 (khVtx h) @ vec_slots 20 (khMom h)"

definition store_hit :: "int \<Rightarrow> nat \<Rightarrow> (nat \<times> real) list \<Rightarrow> rdst \<Rightarrow> rdst option" where
  "store_hit det_id n kvs s = do {
     let t = set_temp kvs (rsHitTemp s);
     h \<leftarrow> hitdata_new det_id n;
     h \<leftarrow> copy_temp n t h;
     Some (s \<lparr> rsHitTemp := t, rsHits := rsHits s @ [h] \<rparr>) }"

definition store_gen :: "nat \<Rightarrow> rdst \<Rightarrow> rdst option" where
  "store_gen n s = do {
     g \<leftarrow> gendata_new;
     g \<leftarrow> copy_temp n (rsGenTemp s) g;
     Some (s \<lparr> rsGens := rsGens s @ [g] \<rparr>) }"

section \<open>The geometry of a hit\<close>

text \<open>Momentum in MeV from its magnitude and slopes.\<close>

definition hit_mom :: "g4row \<Rightarrow> vec3" where
  "hit_mom r = (let pz = sqrt ((rwP r)\<^sup>2 / ((rwTxp r)\<^sup>2 + (rwTyp r)\<^sup>2 + 1)) in
     Vec (rwTxp r * pz * 1000) (rwTyp r * pz * 1000) (pz * 1000))"

text \<open>A point relative to a module, in mm.\<close>

definition hit_local :: "dbm \<Rightarrow> int \<Rightarrow> int \<Rightarrow> vec3 \<Rightarrow> vec3 option" where
  "hit_local m plane md x = do {
     xoff \<leftarrow> GetXOffset m plane md; zoff \<leftarrow> Getg4sbsZSpecOffset m; d0 \<leftarrow> GetD0 m plane md;
     Some (Vec ((vx x - xoff) * 1000) (vy x * 1000) ((vz x + zoff - d0) * 1000)) }"

text \<open>The readout point, extrapolated from the track in the drift gas.\<close>

definition hit_readout :: "g4row \<Rightarrow> vec3 \<Rightarrow> vec3" where
  "hit_readout r X_in = Vec (vx X_in + (vx (rwOut r) - vx (rwIn r)) * (9185 / 1000) / 3)
     (vy X_in + (vy (rwOut r) - vy (rwIn r)) * (9185 / 1000) / 3) (7685 / 1000)"

text \<open>An exit point outside the module is moved to its edge, and the readout point with it.\<close>

definition clamp_x :: "dbm \<Rightarrow> int \<Rightarrow> int \<Rightarrow> vec3 \<times> vec3 \<Rightarrow> (vec3 \<times> vec3) option" where
  "clamp_x m plane s X = (case X of (X_out, X_RO) \<Rightarrow> do {
     dx \<leftarrow> GetDX m plane s;
     if dx * 500 \<le> \<bar>vx X_out\<bar> then do {
       q \<leftarrow> c_div (dx * 500) \<bar>vx X_out\<bar>;
       let x = vx X_out * q;
       Some (Vec x (vy X_out) (vz X_out), Vec x (vy X_RO) (vz X_RO)) }
     else Some (X_out, X_RO) })"

definition clamp_y :: "dbm \<Rightarrow> int \<Rightarrow> int \<Rightarrow> vec3 \<times> vec3 \<Rightarrow> (vec3 \<times> vec3) option" where
  "clamp_y m plane s X = (case X of (X_out, X_RO) \<Rightarrow> do {
     dy \<leftarrow> GetDY m plane s;
     if dy * 500 \<le> \<bar>vy X_out\<bar> then do {
       q \<leftarrow> c_div (dy * 500) \<bar>vy X_out\<bar>;
       let y = vy X_out * q;
       Some (Vec (vx X_out) y (vz X_out), Vec (vx X_RO) y (vz X_RO)) }
     else Some (X_out, X_RO) })"

definition clamp_hit :: "dbm \<Rightarrow> int \<Rightarrow> int \<Rightarrow> vec3 \<times> vec3 \<Rightarrow> (vec3 \<times> vec3) option" where
  "clamp_hit m plane s X = do { X \<leftarrow> clamp_x m plane s X; clamp_y m plane s X }"

text \<open>Positions and momentum of a hit: module md gives the frame, module s the size.\<close>

definition hit_vectors :: "dbm \<Rightarrow> int \<Rightarrow> int \<Rightarrow> int \<Rightarrow> g4row \<Rightarrow> g4hit \<Rightarrow> g4hit option" where
  "hit_vectors m plane md s r h = do {
     X_in \<leftarrow> hit_local m plane md (rwIn r);
     X_out \<leftarrow> hit_local m plane md (rwOut r);
     (X_out, X_RO) \<leftarrow> clamp_hit m plane s (X_out, hit_readout r X_in);
     Some (h \<lparr> khRO := X_RO, khIn := X_in, khOut := X_out, khVtx := 1000 *\<^sub>R rwVtx r, khMom := hit_mom r \<rparr>) }"

text \<open>The scalars of a hit.\<close>

definition hit_scalars :: "int \<Rightarrow> int \<Rightarrow> g4row \<Rightarrow> g4hit" where
  "hit_scalars type md r = \<lparr> khPlane = rwPlane r - 1, khEdep = rwEdep r * 1000, khTmin = rwTmin r, khTmax = rwTmax r,
     khType = type, khTrid = rwTrid r, khPid = rwPid r, khModule = md, khRO = 0, khIn = 0, khOut = 0, khVtx = 0, khMom = 0 \<rparr>"

section \<open>One hit of each detector\<close>

definition BBGEM_hit :: "dbm \<Rightarrow> g4row \<Rightarrow> rdst \<Rightarrow> rdst option" where
  "BBGEM_hit m r s = do {
     let plane = rwPlane r - 1;
     let s = s \<lparr> rsTrid := rsTrid s @ [rwTrid r] \<rparr>;
     md \<leftarrow> GetModuleIDFromPos m plane (rwTx r);
     let s = s \<lparr> rsModule := md \<rparr>;
     if md = -1 then Some s
     else do {
       h \<leftarrow> hit_vectors m plane md md r (hit_scalars (rwMid r + 1) md r);
       store_hit 1 24 (hit_slots h @ [(23, of_int (rsSector s))]) s } }"

text \<open>For SIDIS the module number goes to sector, while module keeps its value; energy and times
  are converted to integers.\<close>

definition int_scalars :: "g4row \<Rightarrow> g4hit \<Rightarrow> g4hit option" where
  "int_scalars r h = do {
     e \<leftarrow> to_int32 (rwEdep r * 1000); t0 \<leftarrow> to_int32 (rwTmin r); t1 \<leftarrow> to_int32 (rwTmax r);
     Some (h \<lparr> khEdep := of_int e, khTmin := of_int t0, khTmax := of_int t1 \<rparr>) }"

definition hit_gen_slots :: "g4hit \<Rightarrow> real \<Rightarrow> (nat \<times> real) list" where
  "hit_gen_slots h weight = [(0, of_int (khTrid h)), (1, of_int (khPid h))] @ vec_slots 2 (khMom h)
     @ vec_slots 5 (khVtx h) @ [(8, weight)]"

definition SBSGEM_hit :: "dbm \<Rightarrow> int \<Rightarrow> real \<Rightarrow> g4row \<Rightarrow> rdst \<Rightarrow> rdst option" where
  "SBSGEM_hit m fSource weight r s = do {
     let type = rwMid r + fSource + 1;
     let plane = rwPlane r - 1;
     h \<leftarrow> int_scalars r (hit_scalars type 0 r);
     sector \<leftarrow> GetModuleIDFromPos m plane (rwTx r);
     let s = s \<lparr> rsSector := sector, rsTrid := rsTrid s @ [rwTrid r] \<rparr>;
     h \<leftarrow> hit_vectors m plane (rsModule s) sector r (h \<lparr> khModule := sector \<rparr>);
     s \<leftarrow> store_hit 2 (nat (data_size GEM_TAG)) (hit_slots h) s;
     let s = s \<lparr> rsGenTemp := set_temp (hit_gen_slots h weight) (rsGenTemp s) \<rparr>;
     s \<leftarrow> (if rsPmax s < rwP r then do {
              sig \<leftarrow> GetSigPID m 0;
              Some (if rwPid r = sig then s \<lparr> rsPmax := rwP r, rsGenMax := take 9 (rsGenTemp s) \<rparr> else s) }
            else Some s);
     if fSource = 0 \<and> rsGens s = [] \<and> type = 1 then store_gen 9 s else Some s }"

text \<open>If no primary was found and there are enough hits, the track of largest momentum is to be
  rescued; the values stored are those of the last hit.\<close>

definition SBSGEM_rescue :: "int \<Rightarrow> rdst \<Rightarrow> rdst option" where
  "SBSGEM_rescue fSource s =
     (if fSource = 0 \<and> rsGens s = [] \<and> 3 \<le> length (rsHits s) then do {
        t0 \<leftarrow> rsGenMax s ! 0;
        if 3 \<le> length (filter (\<lambda>trid. t0 = of_int trid) (rsTrid s)) then store_gen 9 s else Some s }
      else Some s)"

text \<open>In the forward tracker and the polarimeter the module gives the frame, sector (0) the size.\<close>

definition FT_hit :: "dbm \<Rightarrow> int \<Rightarrow> g4row \<Rightarrow> rdst \<Rightarrow> rdst option" where
  "FT_hit m fSource r s = do {
     let plane = rwPlane r - 1;
     md \<leftarrow> GetModuleIDFromPos m plane (rwTx r);
     let s = s \<lparr> rsModule := md, rsTrid := rsTrid s @ [rwTrid r] \<rparr>;
     h \<leftarrow> hit_vectors m plane md (rsSector s) r (hit_scalars (rwMid r + fSource + 1) md r);
     store_hit 3 24 (hit_slots h @ [(23, of_int (rsSector s))]) s }"

definition FPP_type :: "int \<Rightarrow> g4row \<Rightarrow> rdst \<Rightarrow> int option" where
  "FPP_type fSource r s =
     (if rwMid r = rsMID s then do {
        t0 \<leftarrow> rsGenTemp s ! 0;
        Some (if of_int (rwTrid r) = t0 then fSource + 1 else rwMid r + fSource + 1) }
      else Some (rwMid r + fSource + 1))"

definition FPP1_hit :: "dbm \<Rightarrow> int \<Rightarrow> g4row \<Rightarrow> rdst \<Rightarrow> rdst option" where
  "FPP1_hit m fSource r s = do {
     type \<leftarrow> FPP_type fSource r s;
     let plane = rwPlane r - 1;
     md \<leftarrow> GetModuleIDFromPos m plane (rwTx r);
     let s = s \<lparr> rsModule := md, rsTrid := rsTrid s @ [rwTrid r] \<rparr>;
     h \<leftarrow> hit_vectors m plane md (rsSector s) r (hit_scalars type md r);
     store_hit 4 24 (hit_slots h @ [(23, of_int (rsSector s))]) s }"

definition FPP2_hit :: "dbm \<Rightarrow> int \<Rightarrow> g4row \<Rightarrow> rdst \<Rightarrow> rdst option" where
  "FPP2_hit m fSource r s = do {
     type \<leftarrow> FPP_type fSource r s;
     let plane = rwPlane r - 1;
     md \<leftarrow> GetModuleIDFromPos m plane (rwTx r);
     let s = s \<lparr> rsModule := md, rsTrid := rsTrid s @ [rwTrid r] \<rparr>;
     h \<leftarrow> hit_vectors m plane md (rsSector s) r (hit_scalars type md r);
     store_hit 4 24 (hit_slots h @ [(23, of_int (rsSector s))]) s }"

fun loop_hits :: "(g4row \<Rightarrow> rdst \<Rightarrow> rdst option) \<Rightarrow> g4row list \<Rightarrow> nat \<Rightarrow> nat \<Rightarrow> rdst \<Rightarrow> rdst option" where
  "loop_hits f rows i 0 s = Some s"
| "loop_hits f rows i (Suc n) s = do { r \<leftarrow> rd rows i; s \<leftarrow> f r s; loop_hits f rows (i + 1) n s }"

section \<open>The generated track of an event\<close>

definition track_slots :: "g4track \<Rightarrow> vec3 \<Rightarrow> vec3 \<Rightarrow> real \<Rightarrow> (nat \<times> real) list" where
  "track_slots t vertexMom vertex weight =
     (let trackOrigin = Vec (gtX t * 1000) (gtY t * 1000) 0;
          pz = gtP t / sqrt (1 + (gtXp t)\<^sup>2 + (gtYp t)\<^sup>2);
          Mom = Vec (pz * gtXp t) (pz * gtYp t) pz
      in [(0, of_int (gtTID t)), (1, of_int (gtPID t))] @ vec_slots 2 Mom @ vec_slots 5 trackOrigin
           @ vec_slots 9 vertexMom @ vec_slots 12 vertex @ [(8, weight)])"

definition track_gen :: "g4track \<Rightarrow> vec3 \<Rightarrow> vec3 \<Rightarrow> real \<Rightarrow> rdst \<Rightarrow> rdst option" where
  "track_gen t vertexMom vertex weight s =
     store_gen 15 (s \<lparr> rsGenTemp := set_temp (track_slots t vertexMom vertex weight) (rsGenTemp s) \<rparr>)"

definition BB_gen :: "int \<Rightarrow> real \<Rightarrow> g4event \<Rightarrow> rdst \<Rightarrow> rdst option" where
  "BB_gen fSource weight e s =
     (if fSource = 0 \<and> rsGens s = [] \<and> 0 < fst (geBBTrack e) then do {
        t \<leftarrow> rd (snd (geBBTrack e)) 0;
        if gtMID t = 0 then track_gen t (geEp e) (geV e) weight s else Some s }
      else Some s)"

definition FT_gen :: "int \<Rightarrow> real \<Rightarrow> g4event \<Rightarrow> rdst \<Rightarrow> rdst option" where
  "FT_gen fSource weight e s =
     (if fSource = 0 \<and> rsGens s = [] \<and> 0 < fst (geFTTrack e) then do {
        t \<leftarrow> rd (snd (geFTTrack e)) 0;
        if gtMID t = 0 then track_gen t (geNp e) (geV e) weight s else Some s }
      else Some s)"

definition FPP1_gen :: "int \<Rightarrow> real \<Rightarrow> g4event \<Rightarrow> rdst \<Rightarrow> rdst option" where
  "FPP1_gen fSource weight e s =
     (if fSource = 0 \<and> rsGens s = [] \<and> 0 < fst (geFPP1Track e) then do {
        t \<leftarrow> rd (snd (geFPP1Track e)) 0;
        if gtPID t = 2212 then track_gen t (geNp e) (geV e) weight (s \<lparr> rsMID := gtMID t \<rparr>) else Some s }
      else Some s)"

text \<open>For the second polarimeter the mother of the track is read from the first.\<close>

definition FPP2_gen :: "int \<Rightarrow> real \<Rightarrow> g4event \<Rightarrow> rdst \<Rightarrow> rdst option" where
  "FPP2_gen fSource weight e s =
     (if fSource = 0 \<and> rsGens s = [] \<and> 0 < fst (geFPP2Track e) then do {
        t \<leftarrow> rd (snd (geFPP2Track e)) 0;
        if gtPID t = 2212 then do {
          t1 \<leftarrow> rd (snd (geFPP1Track e)) 0;
          track_gen t (geNp e) (geV e) weight (s \<lparr> rsMID := gtMID t1 \<rparr>) }
        else Some s }
      else Some s)"

section \<open>Reading an event\<close>

record calrng =
  cgPois :: "nat \<Rightarrow> real \<Rightarrow> nat"
  cgGaus :: "nat \<Rightarrow> real \<Rightarrow> real \<Rightarrow> real"

text \<open>The switch over the detector type.\<close>

definition read_BBGEM :: "calrng \<Rightarrow> dbm \<Rightarrow> int \<Rightarrow> g4event \<Rightarrow> (rdst \<times> calclusters) option" where
  "read_BBGEM R m fSource e = do {
     let weight = geSolang e * geSigma e;
     s \<leftarrow> loop_hits (BBGEM_hit m) (snd (geBBGEM e)) 0 (nat (fst (geBBGEM e))) rdst0;
     s \<leftarrow> BB_gen fSource weight e s;
     calo \<leftarrow> DoCalo m;
     if calo \<noteq> 0 then do {
       thr \<leftarrow> GetCaloThreshold m;
       Some (s, GetBBECalCluster (cgGaus R) thr (gePS e) (geSH e) [], []) }
     else Some (s, [], []) }"

definition read_SBSGEM :: "dbm \<Rightarrow> int \<Rightarrow> g4event \<Rightarrow> (rdst \<times> calclusters) option" where
  "read_SBSGEM m fSource e = do {
     let weight = geSolang e * geSigma e;
     s \<leftarrow> loop_hits (SBSGEM_hit m fSource weight) (snd (geSBSGEM e)) 0 (nat (fst (geSBSGEM e))) rdst0;
     s \<leftarrow> SBSGEM_rescue fSource s;
     Some (s, [], []) }"

definition read_FT :: "calrng \<Rightarrow> dbm \<Rightarrow> int \<Rightarrow> g4event \<Rightarrow> (rdst \<times> calclusters) option" where
  "read_FT R m fSource e = do {
     let weight = geSolang e * geSigma e;
     s \<leftarrow> loop_hits (FT_hit m fSource) (snd (geFT e)) 0 (nat (fst (geFT e))) rdst0;
     s \<leftarrow> FT_gen fSource weight e s;
     calo \<leftarrow> DoCalo m;
     if calo \<noteq> 0 then do {
       thr \<leftarrow> GetCaloThreshold m;
       cl \<leftarrow> GetGEpECalCluster (cgPois R) thr (geECal e) (geCDet e) ([], []);
       Some (s, cl) }
     else Some (s, [], []) }"

definition read_FPP1 :: "dbm \<Rightarrow> int \<Rightarrow> g4event \<Rightarrow> (rdst \<times> calclusters) option" where
  "read_FPP1 m fSource e = do {
     let weight = geSolang e * geSigma e;
     s \<leftarrow> FPP1_gen fSource weight e rdst0;
     s \<leftarrow> loop_hits (FPP1_hit m fSource) (snd (geFPP1 e)) 0 (nat (fst (geFPP1 e))) s;
     Some (s, [], []) }"

definition read_FPP2 :: "calrng \<Rightarrow> dbm \<Rightarrow> int \<Rightarrow> g4event \<Rightarrow> (rdst \<times> calclusters) option" where
  "read_FPP2 R m fSource e = do {
     let weight = geSolang e * geSigma e;
     s \<leftarrow> FPP2_gen fSource weight e rdst0;
     s \<leftarrow> loop_hits (FPP2_hit m fSource) (snd (geFPP2 e)) 0 (nat (fst (geFPP2 e))) s;
     calo \<leftarrow> DoCalo m;
     if calo \<noteq> 0 then do {
       es \<leftarrow> GetHCalCluster (cgPois R) (geHCal e) [];
       Some (s, es, []) }
     else Some (s, [], []) }"

definition read_event :: "calrng \<Rightarrow> dbm \<Rightarrow> int \<Rightarrow> g4event \<Rightarrow> (rdst \<times> calclusters) option" where
  "read_event R m fSource e = do {
     ty \<leftarrow> Getg4sbsDetectorType m;
     if ty = 1 then read_BBGEM R m fSource e
     else if ty = 2 then read_SBSGEM m fSource e
     else if ty = 3 then read_FT R m fSource e
     else if ty = 4 then read_FPP1 m fSource e
     else if ty = 5 then read_FPP2 R m fSource e
     else Some (rdst0, [], []) }"

definition ReadNextEvent :: "calrng \<Rightarrow> dbm \<Rightarrow> g4file \<Rightarrow> (int \<times> g4file) option" where
  "ReadNextEvent R m f = do {
     is_open \<leftarrow> gfFile f;
     if \<not> is_open then Some (0, f)
     else do {
       let f = g4_Clear f;
       n \<leftarrow> gfEvNum f;
       let f = f \<lparr> gfEvNum := Some (n + 1) \<rparr>;
       (es, cur) \<leftarrow> gfTree f;
       let (res, cur) = g4_GetEntry es (unat (n + 1)) cur;
       let f = f \<lparr> gfTree := Some (es, cur) \<rparr>;
       if res = 0 then Some (0, f)
       else do {
         e \<leftarrow> cur;
         (s, ecal, scint) \<leftarrow> read_event R m (gfSource f) e;
         Some (1, f \<lparr> gfHits := rsHits s, gfGens := rsGens s, gfECal := ecal, gfScint := scint \<rparr>) } } }"

section \<open>Packing the hits\<close>

definition get_vec :: "nat \<Rightarrow> hitdata \<Rightarrow> vec3 option" where
  "get_vec k h = do { x \<leftarrow> GetData k h; y \<leftarrow> GetData (k + 1) h; z \<leftarrow> GetData (k + 2) h; Some (Vec x y z) }"

text \<open>The int of GetGEMID becomes an unsigned number.\<close>

definition hit_chamber :: "dbm \<Rightarrow> hitdata \<Rightarrow> nat option" where
  "hit_chamber m h = do {
     p \<leftarrow> GetData 0 h; p \<leftarrow> to_int32 p; md \<leftarrow> GetData 19 h; md \<leftarrow> to_int32 md;
     Some (nat (GetGEMID m p md mod 4294967296)) }"

definition pack_hit :: "dbm \<Rightarrow> hitdata \<Rightarrow> nat \<Rightarrow> simhitdata \<Rightarrow> simhitdata option" where
  "pack_hit m h k gd = do {
     p \<leftarrow> get_vec 20 h; gd \<leftarrow> SetMomentum k p gd;
     li \<leftarrow> get_vec 5 h; gd \<leftarrow> SetHitEntrance k li gd;
     lo \<leftarrow> get_vec 9 h; gd \<leftarrow> SetHitExit k lo gd;
     t0 \<leftarrow> GetData 8 h; t1 \<leftarrow> GetData 12 h; gd \<leftarrow> SetHitTime k ((t0 + t1) / 2) gd;
     vert \<leftarrow> get_vec 14 h; gd \<leftarrow> SetVertex k vert gd;
     lr \<leftarrow> get_vec 2 h; gd \<leftarrow> SetHitReadout k lr gd;
     e \<leftarrow> GetData 1 h; gd \<leftarrow> SetHitEnergy k (e * 1000000) gd;
     ty \<leftarrow> GetData 13 h; ty \<leftarrow> to_uint32 ty; gd \<leftarrow> SetParticleType k ty gd;
     tid \<leftarrow> GetData 17 h; tid \<leftarrow> to_uint32 tid; gd \<leftarrow> SetTrackID k tid gd;
     pid \<leftarrow> GetData 18 h; pid \<leftarrow> to_int32 pid; gd \<leftarrow> SetParticleID k pid gd;
     ch \<leftarrow> hit_chamber m h; gd \<leftarrow> SetHitChamber k ch gd;
     pl \<leftarrow> GetData 0 h; pl \<leftarrow> to_uint32 pl; gd \<leftarrow> SetHitPlane k pl gd;
     md \<leftarrow> GetData 19 h; md \<leftarrow> to_uint32 md; SetHitModule k md gd }"

fun pack_hits :: "dbm \<Rightarrow> hitdata list \<Rightarrow> nat \<Rightarrow> simhitdata \<Rightarrow> (nat \<times> simhitdata) option" where
  "pack_hits m [] k gd = Some (k, gd)"
| "pack_hits m (h # hs) k gd = do {
     e \<leftarrow> GetData 1 h;
     if 0 < e then do { gd \<leftarrow> pack_hit m h k gd; pack_hits m hs (k + 1) gd }
     else pack_hits m hs k gd }"

definition GetGEMData_into :: "dbm \<Rightarrow> g4file \<Rightarrow> simhitdata \<Rightarrow> simhitdata option" where
  "GetGEMData_into m f gd = do {
     n \<leftarrow> gfEvNum f;
     let gd = (ClearEvent gd) \<lparr> shSource := gfSource f, shEvtID := unat n \<rparr>;
     if gfHits f = [] then Some gd
     else do {
       (k, gd) \<leftarrow> pack_hits m (gfHits f) 0 (InitEvent (length (gfHits f)) gd);
       Some (SetNHit k gd) } }"

definition GetGEMData :: "dbm \<Rightarrow> g4file \<Rightarrow> simhitdata option" where
  "GetGEMData m f = GetGEMData_into m f simhitdata_new"

section \<open>Temporary arrays and records\<close>

lemma length_set_temp [simp]: "length (set_temp kvs t) = length t"
  unfolding set_temp_def by (induction kvs arbitrary: t) auto

lemma set_temp_nth:
  "distinct (map fst kvs) \<Longrightarrow> i < length t \<Longrightarrow>
   set_temp kvs t ! i = (case map_of kvs i of None \<Rightarrow> t ! i | Some x \<Rightarrow> Some x)"
proof (induction kvs arbitrary: t)
  case (Cons kv kvs)
  obtain k x where kv: "kv = (k, x)" by force
  have "map_of kvs k = None" using Cons.prems(1) kv by (auto simp: map_of_eq_None_iff)
  then show ?case using Cons.IH [of "t[k := Some x]"] Cons.prems kv
    by (auto simp: set_temp_def nth_list_update split: option.splits)
qed (simp add: set_temp_def)

lemma put_all_detid: "put_all SetData kvs h = Some t \<Longrightarrow> hd_detid t = hd_detid h"
proof (induction kvs arbitrary: h)
  case (Cons kv kvs)
  obtain k x where kv: "kv = (k, x)" by force
  obtain h' where h': "SetData k x h = Some h'" "put_all SetData kvs h' = Some t"
    using Cons.prems kv by (auto simp: bind_eq_Some_conv)
  have "hd_detid h' = hd_detid h"
    using h'(1) by (auto simp: SetData_def bind_eq_Some_conv split: if_splits)
  then show ?case using Cons.IH [OF h'(2)] by simp
qed simp

lemma those_map_Some: "those (map Some xs) = Some xs"
  by (induction xs) auto

text \<open>A record whose n slots are the given ones.\<close>

definition record_is :: "nat \<Rightarrow> (nat \<times> real) list \<Rightarrow> hitdata \<Rightarrow> bool" where
  "record_is n kvs h \<longleftrightarrow> hd_inv h \<and> hd_size h = n \<and> (\<forall>i < n. hd_slots h i = map_of kvs i \<and> map_of kvs i \<noteq> None)"

lemma copy_temp_partial:
  assumes "hd_inv h" "n \<le> hd_size h" "n \<le> length t" "\<forall>i < n. t ! i \<noteq> None"
  shows "\<exists>g. copy_temp n t h = Some g \<and> hd_inv g \<and> hd_size g = hd_size h \<and> hd_detid g = hd_detid h
    \<and> hd_slots g = hd_slots h ++ (\<lambda>i. if i < n then t ! i else None)"
proof -
  define xs where "xs = map the (take n t)"
  have l: "length xs = n" using assms(3) by (simp add: xs_def)
  have x: "t ! i = Some (xs ! i)" if "i < n" for i
    using that assms(3,4) by (simp add: xs_def)
  have "take n t = map Some xs"
    by (rule nth_equalityI) (use assms(3) l x in auto)
  then have c: "copy_temp n t h = put_all SetData (zip [0..<n] xs) h"
    by (simp add: copy_temp_def those_map_Some)
  have "\<forall>(i, x) \<in> set (zip [0..<n] xs). i < hd_size h" using assms(2) by (auto dest: set_zip_leftD)
  then obtain g where g: "put_all SetData (zip [0..<n] xs) h = Some g" "hd_inv g" "hd_size g = hd_size h"
      "hd_slots g = hd_slots h ++ map_of (rev (zip [0..<n] xs))"
    using hd.put_all_slots [OF assms(1)] by blast
  have "map_of (rev (zip [0..<n] xs)) i = (if i < n then t ! i else None)" for i
  proof (cases "i < n")
    case True
    then have "(i, xs ! i) \<in> set (rev (zip [0..<n] xs))" using l by (auto simp: set_zip intro!: exI [of _ i])
    moreover have "distinct (map fst (rev (zip [0..<n] xs)))" using l by (simp add: rev_map [symmetric])
    ultimately have "map_of (rev (zip [0..<n] xs)) i = Some (xs ! i)" by (rule map_of_is_SomeI [rotated])
    then show ?thesis using x [OF True] True by simp
  next
    case False
    then show ?thesis using l by (auto simp: map_of_eq_None_iff dest: set_zip_leftD)
  qed
  then show ?thesis using c g put_all_detid [OF g(1)] by (intro exI [of _ g]) (simp add: fun_eq_iff map_add_def)
qed

lemma copy_temp_ok:
  assumes "hd_inv h" "hd_size h = n" "distinct (map fst kvs)" "fst ` set kvs = {..<n}" "n \<le> length t"
  shows "\<exists>g. copy_temp n (set_temp kvs t) h = Some g \<and> record_is n kvs g \<and> hd_detid g = hd_detid h"
proof -
  have some: "set_temp kvs t ! i = map_of kvs i" "map_of kvs i \<noteq> None" if "i < n" for i
  proof -
    show "map_of kvs i \<noteq> None" using that assms(4) by (metis lessThan_iff map_of_eq_None_iff)
    then show "set_temp kvs t ! i = map_of kvs i"
      using set_temp_nth [OF assms(3), of i t] that assms(5) by (auto split: option.splits)
  qed
  obtain g where g: "copy_temp n (set_temp kvs t) h = Some g" "hd_inv g" "hd_size g = hd_size h" "hd_detid g = hd_detid h"
      "hd_slots g = hd_slots h ++ (\<lambda>i. if i < n then set_temp kvs t ! i else None)"
    using copy_temp_partial [OF assms(1), of n "set_temp kvs t"] assms(2,5) some by auto
  have "hd_slots g i = map_of kvs i" if "i < n" for i
    using that some [OF that] unfolding g(5) by (auto simp: map_add_def split: option.splits)
  then show ?thesis using g some assms(2) by (simp add: record_is_def)
qed

lemma record_GetData:
  assumes "record_is n kvs h" "map_of kvs i = Some x" "i < n"
  shows "GetData i h = Some x"
  using assms GetData_slot [of h i] by (auto simp: record_is_def)

lemma record_filled: "record_is n kvs h \<Longrightarrow> IsFilled h = Some True"
  using IsFilled_slots [of h] by (auto simp: record_is_def)

lemma hit_slots_keys:
  "map fst (hit_slots h @ [(23, x)]) = [0, 1, 8, 12, 13, 17, 18, 19, 2, 3, 4, 5, 6, 7, 9, 10, 11, 14, 15, 16, 20, 21, 22, 23]"
  "map fst (hit_slots h) = [0, 1, 8, 12, 13, 17, 18, 19, 2, 3, 4, 5, 6, 7, 9, 10, 11, 14, 15, 16, 20, 21, 22]"
  by (simp_all add: hit_slots_def vec_slots_def)

lemma hit_keys_all:
  "{..<24} = set [0, 1, 8, 12, 13, 17, 18, 19, 2, 3, 4, 5, 6, 7, 9, 10, 11, 14, 15, 16, 20, 21, 22, 23 :: nat]"
  "{..<23} = set [0, 1, 8, 12, 13, 17, 18, 19, 2, 3, 4, 5, 6, 7, 9, 10, 11, 14, 15, 16, 20, 21, 22 :: nat]"
  by (auto simp: numeral_eq_Suc less_Suc_eq)

lemma store_hit_ok:
  assumes "0 < n" "n \<le> 24" "distinct (map fst kvs)" "fst ` set kvs = {..<n}" "length (rsHitTemp s) = 24"
  shows "\<exists>h t. store_hit det n kvs s = Some (s \<lparr> rsHitTemp := t, rsHits := rsHits s @ [h] \<rparr>) \<and> length t = 24
    \<and> record_is n kvs h \<and> hd_detid h = det"
proof -
  have n: "n < 31" using assms(2) by simp
  obtain g where g: "hitdata_new det n = Some g" "hd_inv g" "hd_size g = n"
    using hitdata_new_inv [OF assms(1) n, of det] by blast
  have d: "hd_detid g = det" using g(1) by (auto simp: hitdata_new_def split: if_splits)
  obtain h where h: "copy_temp n (set_temp kvs (rsHitTemp s)) g = Some h" "record_is n kvs h" "hd_detid h = hd_detid g"
    using copy_temp_ok [OF g(2,3) assms(3,4), of "rsHitTemp s"] assms(2,5) by auto
  then show ?thesis using g(1) d assms(5)
    by (intro exI [of _ h] exI [of _ "set_temp kvs (rsHitTemp s)"]) (simp add: store_hit_def)
qed

lemma store_hit24:
  assumes "length (rsHitTemp s) = 24"
  shows "\<exists>r t. store_hit det 24 (hit_slots h @ [(23, x)]) s = Some (s \<lparr> rsHitTemp := t, rsHits := rsHits s @ [r] \<rparr>)
    \<and> length t = 24 \<and> record_is 24 (hit_slots h @ [(23, x)]) r \<and> hd_detid r = det"
proof (rule store_hit_ok)
  show "distinct (map fst (hit_slots h @ [(23, x)]))" unfolding hit_slots_keys by simp
  show "fst ` set (hit_slots h @ [(23, x)]) = {..<24}"
    unfolding set_map [symmetric] hit_slots_keys hit_keys_all ..
qed (simp_all add: assms)

lemma store_hit23:
  assumes "length (rsHitTemp s) = 24"
  shows "\<exists>r t. store_hit det 23 (hit_slots h) s = Some (s \<lparr> rsHitTemp := t, rsHits := rsHits s @ [r] \<rparr>)
    \<and> length t = 24 \<and> record_is 23 (hit_slots h) r \<and> hd_detid r = det"
proof (rule store_hit_ok)
  show "distinct (map fst (hit_slots h))" unfolding hit_slots_keys by simp
  show "fst ` set (hit_slots h) = {..<23}"
    unfolding set_map [symmetric] hit_slots_keys hit_keys_all ..
qed (simp_all add: assms)

text \<open>Reading back the slots of a hit.\<close>

definition slots_of :: "g4hit \<Rightarrow> hitdata \<Rightarrow> bool" where
  "slots_of k h \<longleftrightarrow> IsFilled h = Some True \<and> GetData 0 h = Some (of_int (khPlane k)) \<and> GetData 1 h = Some (khEdep k)
     \<and> GetData 8 h = Some (khTmin k) \<and> GetData 12 h = Some (khTmax k) \<and> GetData 13 h = Some (of_int (khType k))
     \<and> GetData 17 h = Some (of_int (khTrid k)) \<and> GetData 18 h = Some (of_int (khPid k))
     \<and> GetData 19 h = Some (of_int (khModule k)) \<and> get_vec 2 h = Some (khRO k) \<and> get_vec 5 h = Some (khIn k)
     \<and> get_vec 9 h = Some (khOut k) \<and> get_vec 14 h = Some (khVtx k) \<and> get_vec 20 h = Some (khMom k)"

lemma slots_of_record:
  assumes "record_is n (hit_slots k @ kvs) h" "23 \<le> n"
  shows "slots_of k h"
proof -
  have g: "GetData i h = Some x" if "map_of (hit_slots k) i = Some x" "i < 23" for i x
    using record_GetData [OF assms(1), of i x] that assms(2) by (simp add: map_add_def)
  show ?thesis unfolding slots_of_def get_vec_def
    by (simp add: g hit_slots_def vec_slots_def record_filled [OF assms(1)])
qed


section \<open>The vectors of a hit\<close>

text \<open>Moving a coordinate to the edge is clipping.\<close>

definition clip :: "real \<Rightarrow> real \<Rightarrow> real" where
  "clip L x = max (- L) (min L x)"

lemma clip_bound: "0 \<le> L \<Longrightarrow> \<bar>clip L x\<bar> \<le> L"
  by (auto simp: clip_def)

lemma clip_inside: "\<bar>x\<bar> < L \<Longrightarrow> clip L x = x"
  by (auto simp: clip_def)

lemma clip_quot: "0 < L \<Longrightarrow> L \<le> \<bar>x\<bar> \<Longrightarrow> x * (L / \<bar>x\<bar>) = clip L x"
  by (cases "0 \<le> x") (auto simp: clip_def abs_if)

lemma clamp_x_ok:
  assumes "GetDX m plane s = Some dx" "0 < dx"
  shows "\<exists>r. clamp_x m plane s (X, Y) = Some (Vec (clip (dx * 500) (vx X)) (vy X) (vz X), r) \<and> vz r = vz Y"
proof (cases "dx * 500 \<le> \<bar>vx X\<bar>")
  case True
  then have "\<bar>vx X\<bar> \<noteq> 0" using assms(2) by auto
  then show ?thesis using True assms clip_quot [of "dx * 500" "vx X"] by (simp add: clamp_x_def c_div_def Let_def)
next
  case False
  then show ?thesis using assms clip_inside [of "vx X" "dx * 500"] by (cases X) (simp add: clamp_x_def)
qed

lemma clamp_y_ok:
  assumes "GetDY m plane s = Some dy" "0 < dy"
  shows "\<exists>r. clamp_y m plane s (X, Y) = Some (Vec (vx X) (clip (dy * 500) (vy X)) (vz X), r) \<and> vz r = vz Y"
proof (cases "dy * 500 \<le> \<bar>vy X\<bar>")
  case True
  then have "\<bar>vy X\<bar> \<noteq> 0" using assms(2) by auto
  then show ?thesis using True assms clip_quot [of "dy * 500" "vy X"] by (simp add: clamp_y_def c_div_def Let_def)
next
  case False
  then show ?thesis using assms clip_inside [of "vy X" "dy * 500"] by (cases X) (simp add: clamp_y_def)
qed

lemma clamp_hit_ok:
  assumes "GetDX m plane s = Some dx" "0 < dx" "GetDY m plane s = Some dy" "0 < dy"
  shows "\<exists>r. clamp_hit m plane s (X, Y) = Some (Vec (clip (dx * 500) (vx X)) (clip (dy * 500) (vy X)) (vz X), r)"
proof -
  obtain r where "clamp_x m plane s (X, Y) = Some (Vec (clip (dx * 500) (vx X)) (vy X) (vz X), r)"
    using clamp_x_ok [OF assms(1,2)] by blast
  then show ?thesis
    using clamp_y_ok [OF assms(3,4), where X = "Vec (clip (dx * 500) (vx X)) (vy X) (vz X)" and Y = r]
    by (auto simp: clamp_hit_def)
qed

text \<open>The momentum has the given magnitude and slopes.\<close>

lemma hit_mom_spec:
  "vmag2 (hit_mom r) = (1000 * rwP r)\<^sup>2" "vx (hit_mom r) = rwTxp r * vz (hit_mom r)"
  "vy (hit_mom r) = rwTyp r * vz (hit_mom r)" "0 \<le> vz (hit_mom r)"
proof -
  define q where "q = (rwTxp r)\<^sup>2 + (rwTyp r)\<^sup>2 + 1"
  define pz where "pz = sqrt ((rwP r)\<^sup>2 / q)"
  have q: "0 < q" unfolding q_def by (rule add_nonneg_pos) simp_all
  have pz: "pz\<^sup>2 * q = (rwP r)\<^sup>2" using q by (simp add: pz_def)
  have m: "hit_mom r = Vec (rwTxp r * pz * 1000) (rwTyp r * pz * 1000) (pz * 1000)"
    by (simp add: hit_mom_def pz_def q_def Let_def)
  have "vmag2 (hit_mom r) = 1000000 * (pz\<^sup>2 * q)" unfolding m q_def vmag2_def vdot_def
    by (simp add: power2_eq_square algebra_simps)
  then show "vmag2 (hit_mom r) = (1000 * rwP r)\<^sup>2" unfolding pz by (simp add: power2_eq_square)
  show "0 \<le> vz (hit_mom r)" unfolding m using q by (simp add: pz_def)
qed (simp_all add: hit_mom_def Let_def)

text \<open>A database for reading: complete, with positive module sizes and the offset of the detector.\<close>

definition reader_db :: "dbm \<Rightarrow> bool" where
  "reader_db m \<longleftrightarrow> geometry_ok m \<and> Getg4sbsZSpecOffset m \<noteq> None
     \<and> (\<forall>i. \<forall>g \<in> set (geos m i). 0 < g_dx g \<and> 0 < g_dy g)"

lemma module_sizes:
  assumes "reader_db m" "CheckIndex m plane s 0 = Some True"
  shows "\<exists>dx dy. GetDX m plane s = Some dx \<and> GetDY m plane s = Some dy \<and> 0 < dx \<and> 0 < dy"
proof -
  have g: "0 \<le> s" "nat s < length (geos m plane)"
    using CheckIndex_total [of m plane s 0] assms by (auto simp: reader_db_def)
  then have "0 < g_dx (geos m plane ! nat s)" "0 < g_dy (geos m plane ! nat s)"
    using assms(1) nth_mem by (auto simp: reader_db_def)
  then show ?thesis using assms(2) g by (auto simp: GetDX_def GetDY_def geo_query_def geo_at_def rdi_def rd_def)
qed

definition frame_of :: "dbm \<Rightarrow> int \<Rightarrow> int \<Rightarrow> vec3 \<Rightarrow> vec3" where
  "frame_of m plane md x = Vec ((vx x - the (GetXOffset m plane md)) * 1000) (vy x * 1000)
     ((vz x + the (Getg4sbsZSpecOffset m) - the (GetD0 m plane md)) * 1000)"

lemma hit_local_ok:
  assumes "reader_db m"
  shows "hit_local m plane md x = Some (frame_of m plane md x)"
proof -
  have "GetXOffset m plane md \<noteq> None" "GetD0 m plane md \<noteq> None" "Getg4sbsZSpecOffset m \<noteq> None"
    using assms geo_query_total [of m] by (simp_all add: reader_db_def GetXOffset_def GetD0_def)
  then show ?thesis by (auto simp: hit_local_def frame_of_def)
qed

definition clip_vec :: "dbm \<Rightarrow> int \<Rightarrow> int \<Rightarrow> vec3 \<Rightarrow> vec3" where
  "clip_vec m plane s x = Vec (clip (the (GetDX m plane s) * 500) (vx x)) (clip (the (GetDY m plane s) * 500) (vy x)) (vz x)"

lemma hit_vectors_ok:
  assumes "reader_db m" "CheckIndex m plane s 0 = Some True"
  shows "\<exists>ro. hit_vectors m plane md s r h = Some (h \<lparr> khRO := ro, khIn := frame_of m plane md (rwIn r),
    khOut := clip_vec m plane s (frame_of m plane md (rwOut r)), khVtx := 1000 *\<^sub>R rwVtx r, khMom := hit_mom r \<rparr>)"
proof -
  obtain dx dy where d: "GetDX m plane s = Some dx" "GetDY m plane s = Some dy" "0 < dx" "0 < dy"
    using module_sizes [OF assms] by blast
  obtain ro where "clamp_hit m plane s (frame_of m plane md (rwOut r), hit_readout r (frame_of m plane md (rwIn r)))
      = Some (clip_vec m plane s (frame_of m plane md (rwOut r)), ro)"
    using clamp_hit_ok [OF d(1,3,2,4)] d(1,2) by (fastforce simp: clip_vec_def)
  then show ?thesis by (intro exI [of _ ro]) (simp add: hit_vectors_def hit_local_ok [OF assms(1)])
qed


section \<open>Modules and rows\<close>

definition plane_of :: "g4row \<Rightarrow> int" where "plane_of r = rwPlane r - 1"

text \<open>A row in a plane of the database that has modules.\<close>

definition row_ok :: "dbm \<Rightarrow> g4row \<Rightarrow> bool" where
  "row_ok m r \<longleftrightarrow> CheckIndex m (plane_of r) 0 0 = Some True"

definition module_of :: "dbm \<Rightarrow> g4row \<Rightarrow> int" where
  "module_of m r = find_module 0 (geos m (plane_of r)) (rwTx r) (-1)"

lemma row_module:
  assumes "row_ok m r"
  shows "GetModuleIDFromPos m (plane_of r) (rwTx r) = Some (module_of m r)"
  using assms by (simp add: GetModuleIDFromPos_def module_of_def row_ok_def)

lemma row_module_in:
  assumes "row_ok m r" "geometry_ok m" "module_of m r \<noteq> -1"
  shows "CheckIndex m (plane_of r) (module_of m r) 0 = Some True"
proof -
  have c: "0 \<le> plane_of r" "plane_of r < dbNChamber m" "nat (plane_of r) < length (dbNModule m)"
    using assms(1) by (auto simp: row_ok_def CheckIndex_True)
  then have l: "int (length (geos m (plane_of r))) = max 0 (dbNModule m ! nat (plane_of r))"
    using assms(2) by (simp add: geometry_ok_def)
  obtain q where "q < length (geos m (plane_of r))" "module_of m r = int q"
    using find_module_spec [of 0 "geos m (plane_of r)" "rwTx r" "-1"] assms(3) by (auto simp: module_of_def)
  then show ?thesis using c l by (auto simp: CheckIndex_True)
qed

text \<open>What is stored for a row: md is the module of the frame, s the module of the size.\<close>

definition hit_of :: "dbm \<Rightarrow> int \<Rightarrow> int \<Rightarrow> int \<Rightarrow> g4row \<Rightarrow> vec3 \<Rightarrow> g4hit" where
  "hit_of m type md s r ro = (hit_scalars type md r) \<lparr> khRO := ro, khIn := frame_of m (plane_of r) md (rwIn r),
     khOut := clip_vec m (plane_of r) s (frame_of m (plane_of r) md (rwOut r)), khVtx := 1000 *\<^sub>R rwVtx r, khMom := hit_mom r \<rparr>"

definition stored :: "dbm \<Rightarrow> int \<Rightarrow> int \<Rightarrow> int \<Rightarrow> g4row \<Rightarrow> hitdata \<Rightarrow> bool" where
  "stored m type md s r h \<longleftrightarrow> (\<exists>ro. slots_of (hit_of m type md s r ro) h)"

lemma stored24:
  assumes "reader_db m" "CheckIndex m (plane_of r) sz 0 = Some True" "length (rsHitTemp s) = 24"
  shows "\<exists>k h t. hit_vectors m (rwPlane r - 1) md sz r (hit_scalars type md r) = Some k
    \<and> store_hit det 24 (hit_slots k @ [(23, x)]) s = Some (s \<lparr> rsHitTemp := t, rsHits := rsHits s @ [h] \<rparr>)
    \<and> length t = 24 \<and> stored m type md sz r h"
proof -
  obtain ro where v: "hit_vectors m (rwPlane r - 1) md sz r (hit_scalars type md r) = Some (hit_of m type md sz r ro)"
    using hit_vectors_ok [OF assms(1,2), of md r "hit_scalars type md r"] by (auto simp: hit_of_def plane_of_def)
  obtain h t where "store_hit det 24 (hit_slots (hit_of m type md sz r ro) @ [(23, x)]) s
      = Some (s \<lparr> rsHitTemp := t, rsHits := rsHits s @ [h] \<rparr>)" "length t = 24"
      "record_is 24 (hit_slots (hit_of m type md sz r ro) @ [(23, x)]) h"
    using store_hit24 [OF assms(3)] by blast
  moreover have "stored m type md sz r h"
    using slots_of_record [OF calculation(3)] unfolding stored_def by (intro exI [of _ ro]) simp
  ultimately show ?thesis using v by blast
qed

section \<open>The loop over the hits\<close>

text \<open>A reader of hits handles every good row, and stores a record for each row it keeps.\<close>

locale hit_reader =
  fixes readh :: "g4row \<Rightarrow> rdst \<Rightarrow> rdst option"
    and inv :: "rdst \<Rightarrow> bool"
    and good :: "g4row \<Rightarrow> bool"
    and keep :: "g4row \<Rightarrow> bool"
    and made :: "g4row \<Rightarrow> hitdata \<Rightarrow> bool"
  assumes skip: "inv s \<Longrightarrow> good r \<Longrightarrow> \<not> keep r \<Longrightarrow>
      \<exists>t. readh r s = Some t \<and> inv t \<and> rsHits t = rsHits s"
    and store: "inv s \<Longrightarrow> good r \<Longrightarrow> keep r \<Longrightarrow>
      \<exists>t h. readh r s = Some t \<and> inv t \<and> rsHits t = rsHits s @ [h] \<and> made r h"
begin

lemma loop_from:
  "inv s \<Longrightarrow> \<forall>r \<in> set rows. good r \<Longrightarrow> i + n = length rows \<Longrightarrow>
   \<exists>t hs. loop_hits readh rows i n s = Some t \<and> inv t \<and> rsHits t = rsHits s @ hs
     \<and> list_all2 made (filter keep (drop i rows)) hs"
proof (induction n arbitrary: i s)
  case 0
  then show ?case by simp
next
  case (Suc n)
  then have i: "i < length rows" "drop i rows = rows ! i # drop (i + 1) rows" "rd rows i = Some (rows ! i)" "good (rows ! i)"
    by (simp_all add: Cons_nth_drop_Suc rd_def)
  show ?case
  proof (cases "keep (rows ! i)")
    case True
    obtain t h where t: "readh (rows ! i) s = Some t" "inv t" "rsHits t = rsHits s @ [h]" "made (rows ! i) h"
      using store [OF Suc.prems(1) i(4) True] by blast
    obtain u hs where "loop_hits readh rows (i + 1) n t = Some u" "inv u" "rsHits u = rsHits t @ hs"
        "list_all2 made (filter keep (drop (i + 1) rows)) hs"
      using Suc.IH [OF t(2) Suc.prems(2), of "i + 1"] Suc.prems(3) by auto
    then show ?thesis using t i True by (intro exI [of _ u] exI [of _ "h # hs"]) (simp add: rd_def)
  next
    case False
    obtain t where t: "readh (rows ! i) s = Some t" "inv t" "rsHits t = rsHits s"
      using skip [OF Suc.prems(1) i(4) False] by blast
    obtain u hs where "loop_hits readh rows (i + 1) n t = Some u" "inv u" "rsHits u = rsHits t @ hs"
        "list_all2 made (filter keep (drop (i + 1) rows)) hs"
      using Suc.IH [OF t(2) Suc.prems(2), of "i + 1"] Suc.prems(3) by auto
    then show ?thesis using t i False by (intro exI [of _ u] exI [of _ hs]) (simp add: rd_def)
  qed
qed

lemma loop_all:
  assumes "inv s" "\<forall>r \<in> set rows. good r" "rsHits s = []"
  shows "\<exists>t. loop_hits readh rows 0 (length rows) s = Some t \<and> inv t \<and> list_all2 made (filter keep rows) (rsHits t)"
  using loop_from [OF assms(1,2), of 0 "length rows"] assms(3) by auto

end

text \<open>The state between two hits: the records of tracks, the mother and the track of the polarimeter.\<close>

definition between :: "rdst \<Rightarrow> rdst \<Rightarrow> bool" where
  "between s0 s \<longleftrightarrow> length (rsHitTemp s) = 24 \<and> rsSector s = 0 \<and> rsGens s = rsGens s0 \<and> rsMID s = rsMID s0
     \<and> rsGenTemp s = rsGenTemp s0"

definition good_row :: "dbm \<Rightarrow> g4row \<Rightarrow> bool" where
  "good_row m r \<longleftrightarrow> reader_db m \<and> row_ok m r"

interpretation bb: hit_reader "BBGEM_hit m" "between s0" "good_row m" "\<lambda>r. module_of m r \<noteq> -1"
  "\<lambda>r. stored m (rwMid r + 1) (module_of m r) (module_of m r) r" for m s0
proof
  fix s r
  assume a: "between s0 s" "good_row m r"
  have md: "GetModuleIDFromPos m (rwPlane r - 1) (rwTx r) = Some (module_of m r)"
    using row_module [of m r] a(2) by (simp add: good_row_def plane_of_def)
  show "\<exists>t. BBGEM_hit m r s = Some t \<and> between s0 t \<and> rsHits t = rsHits s" if "\<not> module_of m r \<noteq> -1"
    using that a(1) by (simp add: BBGEM_hit_def md between_def)
  show "\<exists>t h. BBGEM_hit m r s = Some t \<and> between s0 t \<and> rsHits t = rsHits s @ [h]
      \<and> stored m (rwMid r + 1) (module_of m r) (module_of m r) r h" if "module_of m r \<noteq> -1"
  proof -
    define s1 where "s1 = s \<lparr> rsTrid := rsTrid s @ [rwTrid r], rsModule := module_of m r \<rparr>"
    have c: "CheckIndex m (plane_of r) (module_of m r) 0 = Some True"
      using row_module_in a(2) that by (simp add: good_row_def reader_db_def)
    have l: "length (rsHitTemp s1) = 24" using a(1) by (simp add: between_def s1_def)
    have db: "reader_db m" using a(2) by (simp add: good_row_def)
    obtain k h t where "hit_vectors m (rwPlane r - 1) (module_of m r) (module_of m r) r (hit_scalars (rwMid r + 1) (module_of m r) r) = Some k"
      "store_hit 1 24 (hit_slots k @ [(23, of_int (rsSector s1))]) s1 = Some (s1 \<lparr> rsHitTemp := t, rsHits := rsHits s1 @ [h] \<rparr>)"
      "length t = 24" "stored m (rwMid r + 1) (module_of m r) (module_of m r) r h"
      using stored24 [OF db c l] by blast
    then show ?thesis using that a(1) md
      by (intro exI [of _ "s1 \<lparr> rsHitTemp := t, rsHits := rsHits s1 @ [h] \<rparr>"] exI [of _ h])
        (simp add: BBGEM_hit_def s1_def between_def)
  qed
qed


text \<open>The bodies of the forward tracker and of the polarimeters differ in the type of a hit only.\<close>

lemma FT_like:
  assumes "between s0 s" "good_row m r"
  shows "\<exists>t h. (do {
      let plane = rwPlane r - 1;
      md \<leftarrow> GetModuleIDFromPos m plane (rwTx r);
      let s = s \<lparr> rsModule := md, rsTrid := rsTrid s @ [rwTrid r] \<rparr>;
      h \<leftarrow> hit_vectors m plane md (rsSector s) r (hit_scalars type md r);
      store_hit det 24 (hit_slots h @ [(23, of_int (rsSector s))]) s }) = Some t
    \<and> between s0 t \<and> rsHits t = rsHits s @ [h] \<and> stored m type (module_of m r) 0 r h"
proof -
  have md: "GetModuleIDFromPos m (rwPlane r - 1) (rwTx r) = Some (module_of m r)"
    using row_module [of m r] assms(2) by (simp add: good_row_def plane_of_def)
  define s1 where "s1 = s \<lparr> rsModule := module_of m r, rsTrid := rsTrid s @ [rwTrid r] \<rparr>"
  have l: "length (rsHitTemp s1) = 24" and sec: "rsSector s = 0" using assms(1) by (simp_all add: between_def s1_def)
  have db: "reader_db m" and c: "CheckIndex m (plane_of r) 0 0 = Some True"
    using assms(2) by (simp_all add: good_row_def row_ok_def)
  obtain k h t where "hit_vectors m (rwPlane r - 1) (module_of m r) 0 r (hit_scalars type (module_of m r) r) = Some k"
      "store_hit det 24 (hit_slots k @ [(23, 0)]) s1 = Some (s1 \<lparr> rsHitTemp := t, rsHits := rsHits s1 @ [h] \<rparr>)"
      "length t = 24" "stored m type (module_of m r) 0 r h"
    using stored24 [OF db c l] by blast
  then show ?thesis using assms(1) md sec
    by (intro exI [of _ "s1 \<lparr> rsHitTemp := t, rsHits := rsHits s1 @ [h] \<rparr>"] exI [of _ h])
      (simp add: s1_def between_def)
qed

interpretation ft: hit_reader "FT_hit m src" "between s0" "good_row m" "\<lambda>_. True"
  "\<lambda>r. stored m (rwMid r + src + 1) (module_of m r) 0 r" for m src s0
  by unfold_locales (use FT_like in \<open>simp_all add: FT_hit_def\<close>)

text \<open>A hit of the polarimeter whose mother is the one of the track asks for the number of the track.\<close>

definition fpp_row :: "dbm \<Rightarrow> rdst \<Rightarrow> g4row \<Rightarrow> bool" where
  "fpp_row m s0 r \<longleftrightarrow> good_row m r \<and> (rwMid r = rsMID s0 \<longrightarrow> rsGenTemp s0 ! 0 \<noteq> None)"

lemma FPP_type_between:
  assumes "between s0 s" "fpp_row m s0 r"
  shows "FPP_type src r s = Some (the (FPP_type src r s0))"
  using assms by (auto simp: FPP_type_def between_def fpp_row_def)

interpretation fpp1: hit_reader "FPP1_hit m src" "between s0" "fpp_row m s0" "\<lambda>_. True"
  "\<lambda>r. stored m (the (FPP_type src r s0)) (module_of m r) 0 r" for m src s0
proof
  show "\<exists>t h. FPP1_hit m src r s = Some t \<and> between s0 t \<and> rsHits t = rsHits s @ [h]
      \<and> stored m (the (FPP_type src r s0)) (module_of m r) 0 r h"
    if "between s0 s" "fpp_row m s0 r" for s r
    using FT_like [OF that(1), of m r "the (FPP_type src r s0)" 4] that(2) FPP_type_between [OF that]
    by (simp add: FPP1_hit_def fpp_row_def)
qed simp_all

interpretation fpp2: hit_reader "FPP2_hit m src" "between s0" "fpp_row m s0" "\<lambda>_. True"
  "\<lambda>r. stored m (the (FPP_type src r s0)) (module_of m r) 0 r" for m src s0
proof
  show "\<exists>t h. FPP2_hit m src r s = Some t \<and> between s0 t \<and> rsHits t = rsHits s @ [h]
      \<and> stored m (the (FPP_type src r s0)) (module_of m r) 0 r h"
    if "between s0 s" "fpp_row m s0 r" for s r
    using FT_like [OF that(1), of m r "the (FPP_type src r s0)" 4] that(2) FPP_type_between [OF that]
    by (simp add: FPP2_hit_def fpp_row_def)
qed simp_all

end
