(* ===== verification/TreeBranches.thy ===== *)
theory TreeBranches
  imports Geant4File
begin

text \<open>
  The tree class of the Geant4 files, src/src/g4sbs\_tree.cxx and .h: the members with their types, Init, which
  sets the pointers to null and gives each branch the member it is read into, and GetEntry, which fills them.
  A member such as Earm\_BBGEM\_hit\_plane and the branch Earm.BBGEM.hit.plane it belongs to have the same name,
  the pair of their collection Earm.BBGEM.hit and their field plane.  The members of the branch ev are the fields
  of the collection ev.

  The theory connects the event of the reader (g4event of Geant4File), whose collections are lists of rows, with
  the branches, which are columns.
\<close>

section \<open>The members\<close>

text \<open>Int\_t, Double\_t, pointer to a vector of int or of double.\<close>

datatype leaf = IntL | DblL | IntV | DblV

type_synonym fields = "(string \<times> leaf) list"

text \<open>The fields of the hits of GEM planes (the trackers and polarimeters have one more, t), of the tracks, of
  calorimeters with photomultipliers, of scintillators, of the generated particles, and of the event.\<close>

definition gem_fields :: fields where
  "gem_fields = [
     (''nhits'', IntL), (''plane'', IntV), (''strip'', IntV), (''x'', DblV), (''y'', DblV), (''z'', DblV),
     (''polx'', DblV), (''poly'', DblV), (''polz'', DblV), (''trms'', DblV), (''tmin'', DblV), (''tmax'', DblV),
     (''tx'', DblV), (''ty'', DblV), (''txp'', DblV), (''typ'', DblV), (''xin'', DblV), (''yin'', DblV),
     (''zin'', DblV), (''xout'', DblV), (''yout'', DblV), (''zout'', DblV), (''xg'', DblV), (''yg'', DblV),
     (''zg'', DblV), (''trid'', IntV), (''mid'', IntV), (''pid'', IntV), (''vx'', DblV), (''vy'', DblV),
     (''vz'', DblV), (''p'', DblV), (''edep'', DblV), (''beta'', DblV)]"

definition gemt_fields :: fields where
  "gemt_fields = [
     (''nhits'', IntL), (''plane'', IntV), (''strip'', IntV), (''x'', DblV), (''y'', DblV), (''z'', DblV),
     (''polx'', DblV), (''poly'', DblV), (''polz'', DblV), (''t'', DblV), (''trms'', DblV), (''tmin'', DblV),
     (''tmax'', DblV), (''tx'', DblV), (''ty'', DblV), (''txp'', DblV), (''typ'', DblV), (''xin'', DblV),
     (''yin'', DblV), (''zin'', DblV), (''xout'', DblV), (''yout'', DblV), (''zout'', DblV), (''xg'', DblV),
     (''yg'', DblV), (''zg'', DblV), (''trid'', IntV), (''mid'', IntV), (''pid'', IntV), (''vx'', DblV),
     (''vy'', DblV), (''vz'', DblV), (''p'', DblV), (''edep'', DblV), (''beta'', DblV)]"

definition track_fields :: fields where
  "track_fields = [
     (''ntracks'', IntL), (''TID'', IntV), (''PID'', IntV), (''MID'', IntV), (''NumHits'', IntV),
     (''NumPlanes'', IntV), (''NDF'', IntV), (''Chi2fit'', DblV), (''Chi2true'', DblV), (''X'', DblV), (''Y'', DblV),
     (''Xp'', DblV), (''Yp'', DblV), (''T'', DblV), (''P'', DblV), (''Sx'', DblV), (''Sy'', DblV), (''Sz'', DblV),
     (''Xfit'', DblV), (''Yfit'', DblV), (''Xpfit'', DblV), (''Ypfit'', DblV)]"

definition sidis_track_fields :: fields where
  "sidis_track_fields = [
     (''ntracks'', IntL), (''TID'', IntV), (''PID'', IntV), (''MID'', IntV), (''NumHits'', IntV),
     (''NumPlanes'', IntV), (''NDF'', IntV), (''Chi2fit'', DblV), (''Chi2true'', DblV), (''X'', DblV), (''Y'', DblV),
     (''Xp'', DblV), (''Yp'', DblV), (''Sx'', DblV), (''Sy'', DblV), (''Sz'', DblV), (''Xfit'', DblV),
     (''Yfit'', DblV), (''Xpfit'', DblV), (''Ypfit'', DblV)]"

definition pmt_fields :: fields where
  "pmt_fields = [
     (''nhits'', IntL), (''PMT'', IntV), (''row'', IntV), (''col'', IntV), (''plane'', IntV), (''xcell'', DblV),
     (''ycell'', DblV), (''zcell'', DblV), (''xgcell'', DblV), (''ygcell'', DblV), (''zgcell'', DblV),
     (''NumPhotoelectrons'', IntV), (''Time_avg'', DblV), (''Time_rms'', DblV), (''Time_min'', DblV),
     (''Time_max'', DblV)]"

definition scint_fields :: fields where
  "scint_fields = [
     (''nhits'', IntL), (''row'', IntV), (''col'', IntV), (''cell'', IntV), (''plane'', IntV), (''xcell'', DblV),
     (''ycell'', DblV), (''zcell'', DblV), (''xcellg'', DblV), (''ycellg'', DblV), (''zcellg'', DblV),
     (''xhit'', DblV), (''yhit'', DblV), (''zhit'', DblV), (''sumedep'', DblV), (''tavg'', DblV), (''trms'', DblV),
     (''tmin'', DblV), (''tmax'', DblV)]"

definition electron_fields :: fields where
  "electron_fields = [
     (''Sigma'', DblL), (''Ebeam'', DblL), (''Eprime'', DblL), (''theta_e'', DblL), (''phi_e'', DblL),
     (''px_e'', DblL), (''py_e'', DblL), (''pz_e'', DblL), (''vx_e'', DblL), (''vy_e'', DblL), (''vz_e'', DblL),
     (''Egamma'', DblL), (''theta_gamma'', DblL), (''phi_gamma'', DblL), (''px_gamma'', DblL), (''py_gamma'', DblL),
     (''pz_gamma'', DblL), (''vx_gamma'', DblL), (''vy_gamma'', DblL), (''vz_gamma'', DblL)]"

definition primary_fields :: fields where
  "primary_fields = [
     (''Nprimaries'', IntL), (''PID'', IntV), (''genflag'', IntV), (''Px'', DblV), (''Py'', DblV), (''Pz'', DblV),
     (''vx'', DblV), (''vy'', DblV), (''vz'', DblV), (''M'', DblV), (''E'', DblV), (''P'', DblV), (''t'', DblV),
     (''theta'', DblV), (''phi'', DblV)]"

definition event_fields :: fields where
  "event_fields = [
     (''count'', DblL), (''rate'', DblL), (''solang'', DblL), (''sigma'', DblL), (''W2'', DblL), (''xbj'', DblL),
     (''Q2'', DblL), (''th'', DblL), (''ph'', DblL), (''Aperp'', DblL), (''Apar'', DblL), (''Pt'', DblL),
     (''Pl'', DblL), (''vx'', DblL), (''vy'', DblL), (''vz'', DblL), (''ep'', DblL), (''np'', DblL), (''epx'', DblL),
     (''epy'', DblL), (''epz'', DblL), (''npx'', DblL), (''npy'', DblL), (''npz'', DblL), (''nth'', DblL),
     (''nph'', DblL), (''pmperp'', DblL), (''pmpar'', DblL), (''pmparsm'', DblL), (''z'', DblL), (''phperp'', DblL),
     (''phih'', DblL), (''MX2'', DblL), (''Sx'', DblL), (''Sy'', DblL), (''Sz'', DblL), (''nucl'', IntL),
     (''fnucl'', IntL), (''hadr'', IntL), (''earmaccept'', IntL), (''harmaccept'', IntL)]"

definition pointer :: "leaf \<Rightarrow> bool" where
  "pointer l \<longleftrightarrow> l = IntV \<or> l = DblV"

definition pointers :: "fields \<Rightarrow> string list" where
  "pointers fs = map fst (filter (\<lambda>f. pointer (snd f)) fs)"

text \<open>The declared members.\<close>

definition declared_bb :: "(string \<times> fields) list" where
  "declared_bb = [
     (''Earm.BBGEM.hit'', gem_fields), (''Earm.BBGEM.Track'', track_fields), (''Earm.BBPS.hit'', pmt_fields),
     (''Earm.BBPSTF1.hit'', scint_fields), (''Earm.BBSH.hit'', pmt_fields), (''Earm.BBSHTF1.hit'', scint_fields)]"

definition declared_ecal :: "(string \<times> fields) list" where
  "declared_ecal = [
     (''Earm.CDET.hit'', pmt_fields), (''Earm.CDET_Scint.hit'', scint_fields), (''Earm.ECAL_box.hit'', scint_fields),
     (''Earm.ECAL.hit'', pmt_fields), (''Earm.ECalTF1.hit'', scint_fields)]"

definition declared_fpp :: "(string \<times> fields) list" where
  "declared_fpp = [
     (''Harm.FPP1.hit'', gemt_fields), (''Harm.FPP1.Track'', track_fields), (''Harm.FPP2.hit'', gemt_fields),
     (''Harm.FPP2.Track'', track_fields)]"

definition declared_ft :: "(string \<times> fields) list" where
  "declared_ft = [
     (''Harm.FT.hit'', gemt_fields), (''Harm.FT.Track'', track_fields), (''Harm.HCAL_box.hit'', scint_fields),
     (''Harm.HCal.hit'', pmt_fields), (''Harm.HCalScint.hit'', scint_fields)]"

definition declared_sidis :: "(string \<times> fields) list" where
  "declared_sidis = [
     (''Harm.SBSGEM.hit'', gem_fields), (''Harm.SBSGEM.Track'', sidis_track_fields),
     (''primaries'', electron_fields), (''Primaries'', primary_fields)]"

definition leaf_type :: "string \<times> string \<Rightarrow> leaf option" where
  "leaf_type b = (case map_of (declared_bb @ declared_ecal @ declared_fpp @ declared_ft @ declared_sidis) (fst b) of
     None \<Rightarrow> None | Some fs \<Rightarrow> map_of fs (snd b))"

section \<open>Init\<close>

text \<open>The members set to null.\<close>

definition null_bb :: "(string \<times> string list) list" where
  "null_bb = [
     (''Earm.BBGEM.hit'', pointers gem_fields), (''Earm.BBGEM.Track'', pointers track_fields),
     (''Earm.BBPS.hit'', pointers pmt_fields), (''Earm.BBPSTF1.hit'', pointers scint_fields),
     (''Earm.BBSH.hit'', pointers pmt_fields), (''Earm.BBSHTF1.hit'', pointers scint_fields)]"

definition null_ecal :: "(string \<times> string list) list" where
  "null_ecal = [
     (''Earm.CDET.hit'', pointers pmt_fields), (''Earm.CDET_Scint.hit'', pointers scint_fields),
     (''Earm.ECAL_box.hit'', pointers scint_fields), (''Earm.ECAL.hit'', pointers pmt_fields),
     (''Earm.ECalTF1.hit'', pointers scint_fields)]"

definition null_fpp :: "(string \<times> string list) list" where
  "null_fpp = [
     (''Harm.FPP1.hit'', pointers gemt_fields), (''Harm.FPP1.Track'', pointers track_fields),
     (''Harm.FPP2.hit'', pointers gemt_fields), (''Harm.FPP2.Track'', pointers track_fields)]"

definition null_ft :: "(string \<times> string list) list" where
  "null_ft = [
     (''Harm.FT.hit'', pointers gemt_fields), (''Harm.FT.Track'', pointers track_fields),
     (''Harm.HCAL_box.hit'', pointers scint_fields), (''Harm.HCal.hit'', pointers pmt_fields),
     (''Harm.HCalScint.hit'', pointers scint_fields)]"

definition null_sidis :: "(string \<times> string list) list" where
  "null_sidis = [
     (''Harm.SBSGEM.hit'', pointers gem_fields), (''Harm.SBSGEM.Track'', pointers sidis_track_fields),
     (''Primaries'', pointers primary_fields)]"

definition set_null :: "string \<times> string \<Rightarrow> bool" where
  "set_null b = (case map_of (null_bb @ null_ecal @ null_fpp @ null_ft @ null_sidis) (fst b) of
     None \<Rightarrow> False | Some fs \<Rightarrow> snd b \<in> set fs)"

text \<open>The branches that are given an address, for each block of Init.\<close>

definition branches_bb_gem :: "(string \<times> string list) list" where
  "branches_bb_gem = [
     (''Earm.BBGEM.hit'', map fst gem_fields), (''Earm.BBGEM.Track'', map fst track_fields)]"

definition branches_bb_box :: "(string \<times> string list) list" where
  "branches_bb_box = [
     (''Earm.ECAL_box.hit'', map fst scint_fields)]"

definition branches_bb_calo :: "(string \<times> string list) list" where
  "branches_bb_calo = [
     (''Earm.BBPS.hit'', map fst pmt_fields), (''Earm.BBPSTF1.hit'', map fst scint_fields),
     (''Earm.BBSH.hit'', map fst pmt_fields), (''Earm.BBSHTF1.hit'', map fst scint_fields)]"

definition branches_cdet :: "(string \<times> string list) list" where
  "branches_cdet = [
     (''Earm.CDET.hit'', map fst pmt_fields), (''Earm.CDET_Scint.hit'', map fst scint_fields)]"

definition branches_ecal_box :: "(string \<times> string list) list" where
  "branches_ecal_box = [
     (''Earm.ECAL_box.hit'', map fst scint_fields)]"

definition branches_ecal :: "(string \<times> string list) list" where
  "branches_ecal = [
     (''Earm.ECAL.hit'', map fst pmt_fields), (''Earm.ECalTF1.hit'', map fst scint_fields)]"

definition branches_fpp :: "(string \<times> string list) list" where
  "branches_fpp = [
     (''Harm.FPP1.hit'', [''nhits'', ''plane'', ''strip'', ''x'', ''y'', ''z'', ''polx'', ''poly'', ''polz'',
       ''t'', ''trms'', ''tmin'', ''tmax'', ''tmax'', ''tx'', ''ty'', ''txp'', ''typ'', ''xin'', ''yin'', ''zin'',
       ''xout'', ''yout'', ''zout'', ''xg'', ''yg'', ''zg'', ''trid'', ''mid'', ''pid'', ''vx'', ''vy'', ''vz'', ''p'',
       ''edep'', ''beta'']),
     (''Harm.FPP1.Track'', map fst track_fields),
     (''Harm.FPP2.hit'', [''nhits'', ''plane'', ''strip'', ''x'', ''y'', ''z'', ''polx'', ''poly'', ''polz'',
       ''t'', ''trms'', ''tmin'', ''tmax'', ''tx'', ''ty'', ''txp'', ''typ'', ''trid'', ''xin'', ''yin'', ''zin'',
       ''xout'', ''yout'', ''zout'', ''xg'', ''yg'', ''zg'', ''mid'', ''pid'', ''vx'', ''vy'', ''vz'', ''p'', ''edep'',
       ''beta'']),
     (''Harm.FPP2.Track'', map fst track_fields)]"

definition branches_ft :: "(string \<times> string list) list" where
  "branches_ft = [
     (''Harm.FT.hit'', map fst gemt_fields), (''Harm.FT.Track'', map fst track_fields)]"

definition branches_hcal_box :: "(string \<times> string list) list" where
  "branches_hcal_box = [
     (''Harm.HCAL_box.hit'', map fst scint_fields)]"

definition branches_hcal :: "(string \<times> string list) list" where
  "branches_hcal = [
     (''Harm.HCal.hit'', map fst pmt_fields), (''Harm.HCalScint.hit'', map fst scint_fields)]"

definition branches_sidis :: "(string \<times> string list) list" where
  "branches_sidis = [
     (''Harm.SBSGEM.hit'', [''nhits'', ''plane'', ''strip'', ''x'', ''y'', ''z'', ''polx'', ''poly'', ''polz'',
       ''trms'', ''tmin'', ''tmax'', ''tx'', ''ty'', ''txp'', ''typ'', ''trid'', ''xin'', ''yin'', ''zin'', ''xout'',
       ''yout'', ''zout'', ''xg'', ''yg'', ''zg'', ''mid'', ''pid'', ''vx'', ''vy'', ''vz'', ''p'', ''edep'',
       ''beta'']),
     (''Harm.SBSGEM.Track'', map fst sidis_track_fields)]"

definition branches_pythia :: "(string \<times> string list) list" where
  "branches_pythia = [
     (''primaries'', map fst electron_fields), (''Primaries'', map fst primary_fields)]"

text \<open>The value of a branch or a member; the branch ev has many leaves.\<close>

datatype leafval = IntC int | DblC real | IntsC "int list" | DblsC "real list" | StructC "leafval list"

text \<open>A member is not initialized (None), null (Some None) or has a value.\<close>

type_synonym leafmem = "string \<times> string \<Rightarrow> leafval option option"

record treeobj =
  trOption :: int
  trPythia :: bool
  trEcalBox :: bool
  trHcalBox :: bool
  trBranches :: "(string \<times> string) list option"
  trMem :: leafmem

definition bound_collections :: "treeobj \<Rightarrow> (string \<times> string list) list" where
  "bound_collections t =
     (if trOption t = 1 then branches_bb_gem @ (if trEcalBox t then branches_bb_box else []) @ branches_bb_calo else [])
     @ (if 3 \<le> trOption t then branches_cdet @ (if trEcalBox t then branches_ecal_box else []) @ branches_ecal
          @ branches_fpp @ branches_ft else [])
     @ (if 2 \<le> trOption t then (if trHcalBox t then branches_hcal_box else []) @ branches_hcal else [])
     @ (if trOption t = 2 then branches_sidis else [])
     @ (if trPythia t then branches_pythia else [])"

definition bound_branches :: "treeobj \<Rightarrow> (string \<times> string) list" where
  "bound_branches t = (''ev'', []) # concat (map (\<lambda>(c, fs). map (\<lambda>f. (c, f)) fs) (bound_collections t))"

text \<open>Init stops after the pointers when there is no tree.\<close>

definition Init :: "bool \<Rightarrow> treeobj \<Rightarrow> treeobj" where
  "Init tree t =
     (let t = t \<lparr> trMem := (\<lambda>b. if set_null b then Some None else trMem t b) \<rparr>
      in if \<not> tree then t else t \<lparr> trBranches := Some (bound_branches t) \<rparr>)"

definition new_tree :: "bool \<Rightarrow> int \<Rightarrow> bool \<Rightarrow> bool \<Rightarrow> bool \<Rightarrow> treeobj" where
  "new_tree tree det_opt pythia ecalbox hcalbox = Init tree
     \<lparr> trOption = det_opt, trPythia = pythia, trEcalBox = ecalbox, trHcalBox = hcalbox, trBranches = None, trMem = (\<lambda>_. None) \<rparr>"

section \<open>Reading an entry\<close>

text \<open>ROOT is a parameter: TTree::GetEntry for the entry that is read, with the branches that were given an
  address and the members; None if it is not defined.  GetEntry of the class calls it; nothing is read without
  a tree.\<close>

type_synonym root_get = "(string \<times> string) list \<Rightarrow> leafmem \<Rightarrow> leafmem option"

definition leaves_GetEntry :: "root_get \<Rightarrow> treeobj \<Rightarrow> treeobj option" where
  "leaves_GetEntry G t = (case trBranches t of None \<Rightarrow> Some t
     | Some bs \<Rightarrow> do { mem \<leftarrow> G bs (trMem t); Some (t \<lparr> trMem := mem \<rparr>) })"

text \<open>A value has the type of a member.\<close>

definition fits :: "leaf \<Rightarrow> leafval \<Rightarrow> bool" where
  "fits l v = (case v of IntC _ \<Rightarrow> l = IntL | DblC _ \<Rightarrow> l = DblL | IntsC _ \<Rightarrow> l = IntV | DblsC _ \<Rightarrow> l = DblV | StructC _ \<Rightarrow> False)"

text \<open>The branch ev has many leaves, but Init gives it one address, that of ev\_count: a leaf goes to the
  bytes that lie as far behind ev\_count as the leaf lies behind the first leaf.  The members of ev follow
  ev\_count in the order of their declaration, the numbers of 8 bytes before those of 4, so that there is no gap.\<close>

definition leaf_size :: "leafval \<Rightarrow> nat" where
  "leaf_size v = (case v of IntC _ \<Rightarrow> 4 | _ \<Rightarrow> 8)"

definition leaf_offset :: "leafval list \<Rightarrow> nat \<Rightarrow> nat" where
  "leaf_offset vs i = sum_list (map leaf_size (take i vs))"

fun offset_of :: "fields \<Rightarrow> string \<Rightarrow> nat \<Rightarrow> nat option" where
  "offset_of [] f n = None"
| "offset_of ((g, l) # fs) f n = (if f = g then Some n else offset_of fs f (n + (if l = IntL then 4 else 8)))"

text \<open>What is relied on of ROOT, for an entry with these values of its branches.  If every pointer that was given to a
  branch has been initialized, the call is defined, and then: a branch of the file that was given an address and has
  the type of the member there leaves its value in the member (a null pointer is replaced by a new vector); and so
  does every leaf of ev, in the member at the same distance, if that is of its type.  Nothing is said about
  branches that the file does not have or that are of another type, and about all other members.\<close>

definition root_reads :: "(string \<times> string \<Rightarrow> leafval option) \<Rightarrow> root_get \<Rightarrow> bool" where
  "root_reads entry G \<longleftrightarrow> (\<forall>bs mem. (\<forall>b \<in> set bs. \<forall>l. leaf_type b = Some l \<and> pointer l \<longrightarrow> mem b \<noteq> None) \<longrightarrow>
     (\<exists>mem'. G bs mem = Some mem'
        \<and> (\<forall>b \<in> set bs. \<forall>l v. leaf_type b = Some l \<and> entry b = Some v \<and> fits l v \<longrightarrow> mem' b = Some (Some v))
        \<and> ((''ev'', []) \<in> set bs \<longrightarrow> (\<forall>vs i f l. entry (''ev'', []) = Some (StructC vs) \<and> i < length vs
             \<and> map_of event_fields f = Some l \<and> offset_of event_fields f 0 = Some (leaf_offset vs i) \<and> fits l (vs ! i)
             \<longrightarrow> mem' (''ev'', f) = Some (Some (vs ! i))))))"

section \<open>The event of the reader\<close>

text \<open>Access to the members as the reader makes it: None for a null pointer, for a member that was not read, and
  for an index that is out of range (at throws).\<close>

definition scal_of :: "leafmem \<Rightarrow> string \<Rightarrow> string \<Rightarrow> int option" where
  "scal_of mem c f = (case mem (c, f) of Some (Some (IntC n)) \<Rightarrow> Some n | _ \<Rightarrow> None)"

definition dbl_of :: "leafmem \<Rightarrow> string \<Rightarrow> string \<Rightarrow> real option" where
  "dbl_of mem c f = (case mem (c, f) of Some (Some (DblC x)) \<Rightarrow> Some x | _ \<Rightarrow> None)"

definition ints_of :: "leafmem \<Rightarrow> string \<Rightarrow> string \<Rightarrow> int list option" where
  "ints_of mem c f = (case mem (c, f) of Some (Some (IntsC xs)) \<Rightarrow> Some xs | _ \<Rightarrow> None)"

definition dbls_of :: "leafmem \<Rightarrow> string \<Rightarrow> string \<Rightarrow> real list option" where
  "dbls_of mem c f = (case mem (c, f) of Some (Some (DblsC xs)) \<Rightarrow> Some xs | _ \<Rightarrow> None)"

definition int_at :: "leafmem \<Rightarrow> string \<Rightarrow> string \<Rightarrow> nat \<Rightarrow> int option" where
  "int_at mem c f i = do { xs \<leftarrow> ints_of mem c f; rd xs i }"

definition dbl_at :: "leafmem \<Rightarrow> string \<Rightarrow> string \<Rightarrow> nat \<Rightarrow> real option" where
  "dbl_at mem c f i = do { xs \<leftarrow> dbls_of mem c f; rd xs i }"

definition vec_at :: "leafmem \<Rightarrow> string \<Rightarrow> string \<Rightarrow> string \<Rightarrow> string \<Rightarrow> nat \<Rightarrow> vec3 option" where
  "vec_at mem c fx fy fz i = do { x \<leftarrow> dbl_at mem c fx i; y \<leftarrow> dbl_at mem c fy i; z \<leftarrow> dbl_at mem c fz i; Some (Vec x y z) }"

text \<open>Hit i of a GEM collection, with the fields that the reader uses.\<close>

definition gem_row :: "leafmem \<Rightarrow> string \<Rightarrow> nat \<Rightarrow> g4row option" where
  "gem_row mem c i = do {
     plane \<leftarrow> int_at mem c ''plane'' i; trid \<leftarrow> int_at mem c ''trid'' i; mid \<leftarrow> int_at mem c ''mid'' i; pid \<leftarrow> int_at mem c ''pid'' i;
     edep \<leftarrow> dbl_at mem c ''edep'' i; tmin \<leftarrow> dbl_at mem c ''tmin'' i; tmax \<leftarrow> dbl_at mem c ''tmax'' i;
     tx \<leftarrow> dbl_at mem c ''tx'' i; txp \<leftarrow> dbl_at mem c ''txp'' i; typ \<leftarrow> dbl_at mem c ''typ'' i;
     hin \<leftarrow> vec_at mem c ''xin'' ''yin'' ''zin'' i; hout \<leftarrow> vec_at mem c ''xout'' ''yout'' ''zout'' i;
     vtx \<leftarrow> vec_at mem c ''vx'' ''vy'' ''vz'' i; p \<leftarrow> dbl_at mem c ''p'' i;
     Some \<lparr> rwPlane = plane, rwTrid = trid, rwMid = mid, rwPid = pid, rwEdep = edep, rwTmin = tmin, rwTmax = tmax, rwTx = tx,
       rwTxp = txp, rwTyp = typ, rwIn = hin, rwOut = hout, rwVtx = vtx, rwP = p \<rparr> }"

definition track_row :: "leafmem \<Rightarrow> string \<Rightarrow> nat \<Rightarrow> g4track option" where
  "track_row mem c i = do {
     tid \<leftarrow> int_at mem c ''TID'' i; pid \<leftarrow> int_at mem c ''PID'' i; mid \<leftarrow> int_at mem c ''MID'' i;
     x \<leftarrow> dbl_at mem c ''X'' i; y \<leftarrow> dbl_at mem c ''Y'' i; xp \<leftarrow> dbl_at mem c ''Xp'' i; yp \<leftarrow> dbl_at mem c ''Yp'' i;
     p \<leftarrow> dbl_at mem c ''P'' i;
     Some \<lparr> gtTID = tid, gtPID = pid, gtMID = mid, gtX = x, gtY = y, gtXp = xp, gtYp = yp, gtP = p \<rparr> }"

definition cal_row :: "leafmem \<Rightarrow> string \<Rightarrow> nat \<Rightarrow> calhit option" where
  "cal_row mem c i = do {
     e \<leftarrow> dbl_at mem c ''sumedep'' i; x \<leftarrow> dbl_at mem c ''xcell'' i; y \<leftarrow> dbl_at mem c ''ycell'' i;
     col \<leftarrow> int_at mem c ''col'' i; plane \<leftarrow> int_at mem c ''plane'' i;
     Some \<lparr> chSumedep = e, chXcell = x, chYcell = y, chCol = col, chPlane = plane \<rparr> }"

text \<open>The collections: their number of hits and their rows, as many as the vectors have elements.\<close>

definition gem_bank :: "leafmem \<Rightarrow> string \<Rightarrow> gembank option" where
  "gem_bank mem c = do { n \<leftarrow> scal_of mem c ''nhits''; ps \<leftarrow> ints_of mem c ''plane'';
     rows \<leftarrow> those (map (gem_row mem c) [0..<length ps]); Some (n, rows) }"

definition track_bank :: "leafmem \<Rightarrow> string \<Rightarrow> trackbank option" where
  "track_bank mem c = do { n \<leftarrow> scal_of mem c ''ntracks''; ps \<leftarrow> ints_of mem c ''TID'';
     rows \<leftarrow> those (map (track_row mem c) [0..<length ps]); Some (n, rows) }"

definition cal_bank :: "leafmem \<Rightarrow> string \<Rightarrow> calhit list option" where
  "cal_bank mem c = do { n \<leftarrow> scal_of mem c ''nhits''; those (map (cal_row mem c) [0..<nat n]) }"

definition vec_of :: "leafmem \<Rightarrow> string \<Rightarrow> string \<Rightarrow> string \<Rightarrow> vec3 option" where
  "vec_of mem fx fy fz = do { x \<leftarrow> dbl_of mem ''ev'' fx; y \<leftarrow> dbl_of mem ''ev'' fy; z \<leftarrow> dbl_of mem ''ev'' fz; Some (Vec x y z) }"

definition event_head :: "leafmem \<Rightarrow> g4event option" where
  "event_head mem = do {
     solang \<leftarrow> dbl_of mem ''ev'' ''solang''; sigma \<leftarrow> dbl_of mem ''ev'' ''sigma''; v \<leftarrow> vec_of mem ''vx'' ''vy'' ''vz'';
     ep \<leftarrow> vec_of mem ''epx'' ''epy'' ''epz''; np \<leftarrow> vec_of mem ''npx'' ''npy'' ''npz'';
     Some \<lparr> geSolang = solang, geSigma = sigma, geV = v, geEp = ep, geNp = np, geBBGEM = (0, []), geBBTrack = (0, []),
       geSBSGEM = (0, []), geFT = (0, []), geFTTrack = (0, []), geFPP1 = (0, []), geFPP1Track = (0, []), geFPP2 = (0, []),
       geFPP2Track = (0, []), gePS = [], geSH = [], geECal = [], geCDet = [], geHCal = [] \<rparr> }"

text \<open>What ReadNextEvent and the clustering take from the members for each detector type.\<close>

definition event_of_leaves :: "int \<Rightarrow> leafmem \<Rightarrow> g4event option" where
  "event_of_leaves ty mem = do {
     e \<leftarrow> event_head mem;
     if ty = 1 then do {
       h \<leftarrow> gem_bank mem ''Earm.BBGEM.hit''; t \<leftarrow> track_bank mem ''Earm.BBGEM.Track'';
       ps \<leftarrow> cal_bank mem ''Earm.BBPSTF1.hit''; sh \<leftarrow> cal_bank mem ''Earm.BBSHTF1.hit'';
       Some (e \<lparr> geBBGEM := h, geBBTrack := t, gePS := ps, geSH := sh \<rparr>) }
     else if ty = 2 then do { h \<leftarrow> gem_bank mem ''Harm.SBSGEM.hit''; Some (e \<lparr> geSBSGEM := h \<rparr>) }
     else if ty = 3 then do {
       h \<leftarrow> gem_bank mem ''Harm.FT.hit''; t \<leftarrow> track_bank mem ''Harm.FT.Track'';
       ec \<leftarrow> cal_bank mem ''Earm.ECalTF1.hit''; cd \<leftarrow> cal_bank mem ''Earm.CDET_Scint.hit'';
       Some (e \<lparr> geFT := h, geFTTrack := t, geECal := ec, geCDet := cd \<rparr>) }
     else if ty = 4 then do {
       t \<leftarrow> track_bank mem ''Harm.FPP1.Track''; h \<leftarrow> gem_bank mem ''Harm.FPP1.hit'';
       Some (e \<lparr> geFPP1Track := t, geFPP1 := h \<rparr>) }
     else if ty = 5 then do {
       t1 \<leftarrow> track_bank mem ''Harm.FPP1.Track''; t \<leftarrow> track_bank mem ''Harm.FPP2.Track''; h \<leftarrow> gem_bank mem ''Harm.FPP2.hit'';
       hc \<leftarrow> cal_bank mem ''Harm.HCalScint.hit'';
       Some (e \<lparr> geFPP1Track := t1, geFPP2Track := t, geFPP2 := h, geHCal := hc \<rparr>) }
     else Some e }"

section \<open>Every branch has its member\<close>

text \<open>Fields that a collection needs, with their types, against the fields that are bound and those declared.\<close>

definition has_fields :: "string list \<Rightarrow> fields \<Rightarrow> fields \<Rightarrow> bool" where
  "has_fields bound decl needed \<longleftrightarrow> list_all (\<lambda>(f, l). f \<in> set bound \<and> map_of decl f = Some l) needed"

text \<open>No pointer is used before Init has set it to null.\<close>

definition nulled :: "string \<times> string list \<Rightarrow> bool" where
  "nulled c \<longleftrightarrow> list_all (\<lambda>f. case leaf_type (fst c, f) of None \<Rightarrow> False | Some l \<Rightarrow> pointer l \<longrightarrow> set_null (fst c, f)) (snd c)"

lemma bound_in: "(c, fs) \<in> set (bound_collections t) \<Longrightarrow> f \<in> set fs \<Longrightarrow> (c, f) \<in> set (bound_branches t)"
  by (force simp: bound_branches_def)

lemmas table_defs = branches_bb_gem_def branches_bb_box_def branches_bb_calo_def branches_cdet_def branches_ecal_box_def
  branches_ecal_def branches_fpp_def branches_ft_def branches_hcal_box_def branches_hcal_def branches_sidis_def branches_pythia_def

lemmas declared_defs = declared_bb_def declared_ecal_def declared_fpp_def declared_ft_def declared_sidis_def

lemmas null_defs = null_bb_def null_ecal_def null_fpp_def null_ft_def null_sidis_def

text \<open>A collection has the fields d, and its pointers are set to null.\<close>

definition has_decl :: "string \<Rightarrow> fields \<Rightarrow> bool" where
  "has_decl c d \<longleftrightarrow> (\<forall>f. leaf_type (c, f) = map_of d f \<and> (set_null (c, f) \<longleftrightarrow> f \<in> set (pointers d)))"

lemma has_declI:
  assumes "map_of (declared_bb @ declared_ecal @ declared_fpp @ declared_ft @ declared_sidis) c = Some d"
    "map_of (null_bb @ null_ecal @ null_fpp @ null_ft @ null_sidis) c = (if pointers d = [] then None else Some (pointers d))"
  shows "has_decl c d"
  using assms by (simp add: has_decl_def leaf_type_def set_null_def split: if_splits)

lemma some_pointers:
  "pointers gem_fields \<noteq> []" "pointers gemt_fields \<noteq> []" "pointers track_fields \<noteq> []" "pointers sidis_track_fields \<noteq> []"
  "pointers pmt_fields \<noteq> []" "pointers scint_fields \<noteq> []" "pointers primary_fields \<noteq> []" "pointers electron_fields = []"
  by (simp_all add: pointers_def pointer_def gem_fields_def gemt_fields_def track_fields_def sidis_track_fields_def pmt_fields_def
      scint_fields_def primary_fields_def electron_fields_def)

lemma decls:
  "has_decl ''Earm.BBGEM.hit'' gem_fields"
  "has_decl ''Earm.BBGEM.Track'' track_fields"
  "has_decl ''Earm.BBPS.hit'' pmt_fields"
  "has_decl ''Earm.BBPSTF1.hit'' scint_fields"
  "has_decl ''Earm.BBSH.hit'' pmt_fields"
  "has_decl ''Earm.BBSHTF1.hit'' scint_fields"
  "has_decl ''Earm.CDET.hit'' pmt_fields"
  "has_decl ''Earm.CDET_Scint.hit'' scint_fields"
  "has_decl ''Earm.ECAL_box.hit'' scint_fields"
  "has_decl ''Earm.ECAL.hit'' pmt_fields"
  "has_decl ''Earm.ECalTF1.hit'' scint_fields"
  "has_decl ''Harm.FPP1.hit'' gemt_fields"
  "has_decl ''Harm.FPP1.Track'' track_fields"
  "has_decl ''Harm.FPP2.hit'' gemt_fields"
  "has_decl ''Harm.FPP2.Track'' track_fields"
  "has_decl ''Harm.FT.hit'' gemt_fields"
  "has_decl ''Harm.FT.Track'' track_fields"
  "has_decl ''Harm.HCAL_box.hit'' scint_fields"
  "has_decl ''Harm.HCal.hit'' pmt_fields"
  "has_decl ''Harm.HCalScint.hit'' scint_fields"
  "has_decl ''Harm.SBSGEM.hit'' gem_fields"
  "has_decl ''Harm.SBSGEM.Track'' sidis_track_fields"
  "has_decl ''primaries'' electron_fields"
  "has_decl ''Primaries'' primary_fields"
  by (rule has_declI; simp add: declared_defs null_defs some_pointers)+

lemma nulled_of:
  assumes "has_decl c d" "list_all (\<lambda>f. map_of d f \<noteq> None) fs"
  shows "nulled (c, fs)"
proof -
  have "f \<in> set (pointers d)" if "map_of d f = Some l" "pointer l" for f l
    using map_of_SomeD [OF that(1)] that(2) by (force simp: pointers_def)
  then show ?thesis using assms by (auto simp: nulled_def has_decl_def list_all_iff split: option.splits)
qed

lemma map_of_fst: "list_all (\<lambda>f. map_of d f \<noteq> None) (map fst d)"
  by (auto simp: list_all_iff map_of_eq_None_iff)

lemmas nulled_all_fields = decls [THEN nulled_of, OF map_of_fst]

text \<open>Three collections are bound in an order of their own.\<close>

lemma nulled_ordered:
  "nulled (branches_fpp ! 0)" "nulled (branches_fpp ! 2)" "nulled (branches_sidis ! 0)"
  by (simp_all add: branches_fpp_def branches_sidis_def nulled_of [OF decls(12)] nulled_of [OF decls(14)] nulled_of [OF decls(21)]
      gemt_fields_def gem_fields_def)

lemma all_nulled: "c \<in> set (branches_bb_gem @ branches_bb_box @ branches_bb_calo @ branches_cdet @ branches_ecal_box
   @ branches_ecal @ branches_fpp @ branches_ft @ branches_hcal_box @ branches_hcal @ branches_sidis @ branches_pythia) \<Longrightarrow> nulled c"
  using nulled_ordered by (auto simp: table_defs nulled_all_fields)

lemma bound_collections_all:
  "set (bound_collections t) \<subseteq> set (branches_bb_gem @ branches_bb_box @ branches_bb_calo @ branches_cdet @ branches_ecal_box
   @ branches_ecal @ branches_fpp @ branches_ft @ branches_hcal_box @ branches_hcal @ branches_sidis @ branches_pythia)"
  by (auto simp: bound_collections_def)

lemma bound_nulled: "c \<in> set (bound_collections t) \<Longrightarrow> nulled c"
  using all_nulled bound_collections_all [of t] by blast

lemma no_ev: "c \<in> set (bound_collections t) \<Longrightarrow> fst c \<noteq> ''ev''"
  using bound_collections_all [of t] by (auto simp: table_defs)

section \<open>The rows of a collection\<close>

text \<open>The columns of a collection of rows: which field shows which part of a row.\<close>

definition gem_ints :: "(string \<times> (g4row \<Rightarrow> int)) list" where
  "gem_ints = [(''plane'', rwPlane), (''trid'', rwTrid), (''mid'', rwMid), (''pid'', rwPid)]"

definition gem_dbls :: "(string \<times> (g4row \<Rightarrow> real)) list" where
  "gem_dbls = [(''edep'', rwEdep), (''tmin'', rwTmin), (''tmax'', rwTmax), (''tx'', rwTx), (''txp'', rwTxp), (''typ'', rwTyp),
     (''xin'', \<lambda>r. vx (rwIn r)), (''yin'', \<lambda>r. vy (rwIn r)), (''zin'', \<lambda>r. vz (rwIn r)),
     (''xout'', \<lambda>r. vx (rwOut r)), (''yout'', \<lambda>r. vy (rwOut r)), (''zout'', \<lambda>r. vz (rwOut r)),
     (''vx'', \<lambda>r. vx (rwVtx r)), (''vy'', \<lambda>r. vy (rwVtx r)), (''vz'', \<lambda>r. vz (rwVtx r)), (''p'', rwP)]"

definition track_ints :: "(string \<times> (g4track \<Rightarrow> int)) list" where
  "track_ints = [(''TID'', gtTID), (''PID'', gtPID), (''MID'', gtMID)]"

definition track_dbls :: "(string \<times> (g4track \<Rightarrow> real)) list" where
  "track_dbls = [(''X'', gtX), (''Y'', gtY), (''Xp'', gtXp), (''Yp'', gtYp), (''P'', gtP)]"

definition cal_ints :: "(string \<times> (calhit \<Rightarrow> int)) list" where
  "cal_ints = [(''col'', chCol), (''plane'', chPlane)]"

definition cal_dbls :: "(string \<times> (calhit \<Rightarrow> real)) list" where
  "cal_dbls = [(''sumedep'', chSumedep), (''xcell'', chXcell), (''ycell'', chYcell)]"

definition has_columns :: "(string \<times> string \<Rightarrow> leafval option) \<Rightarrow> string \<Rightarrow> (string \<times> ('r \<Rightarrow> int)) list \<Rightarrow> (string \<times> ('r \<Rightarrow> real)) list
    \<Rightarrow> 'r list \<Rightarrow> bool" where
  "has_columns val c ints dbls rows \<longleftrightarrow> (\<forall>(f, g) \<in> set ints. val (c, f) = Some (IntsC (map g rows)))
     \<and> (\<forall>(f, g) \<in> set dbls. val (c, f) = Some (DblsC (map g rows)))"

text \<open>The values of the members.\<close>

definition mem_val :: "leafmem \<Rightarrow> string \<times> string \<Rightarrow> leafval option" where
  "mem_val mem b = (case mem b of Some (Some v) \<Rightarrow> Some v | _ \<Rightarrow> None)"

lemma mem_val_Some: "mem_val mem b = Some v \<longleftrightarrow> mem b = Some (Some v)"
  by (auto simp: mem_val_def split: option.splits)

lemma int_at_column: "mem_val mem (c, f) = Some (IntsC (map g rows)) \<Longrightarrow> i < length rows \<Longrightarrow> int_at mem c f i = Some (g (rows ! i))"
  by (simp add: int_at_def ints_of_def mem_val_Some rd_def)

lemma dbl_at_column: "mem_val mem (c, f) = Some (DblsC (map g rows)) \<Longrightarrow> i < length rows \<Longrightarrow> dbl_at mem c f i = Some (g (rows ! i))"
  by (simp add: dbl_at_def dbls_of_def mem_val_Some rd_def)

lemma those_rows: "(\<And>i. i < length rows \<Longrightarrow> g i = Some (rows ! i)) \<Longrightarrow> those (map g [0..<length rows]) = Some rows"
proof (induction rows rule: rev_induct)
  case (snoc x xs)
  have a: "those (ys @ [Some z]) = map_option (\<lambda>zs. zs @ [z]) (those ys)" for ys :: "'a option list" and z
    by (induction ys) (auto simp: option.map_comp comp_def split: option.splits)
  have "g i = Some (xs ! i)" if "i < length xs" for i using snoc.prems [of i] that by (simp add: nth_append)
  then have "those (map g [0..<length xs]) = Some xs" by (rule snoc.IH)
  moreover have "g (length xs) = Some x" using snoc.prems [of "length xs"] by simp
  ultimately show ?case using a by simp
qed simp

lemma gem_bank_columns:
  assumes "has_columns (mem_val mem) c gem_ints gem_dbls rows" "mem_val mem (c, ''nhits'') = Some (IntC n)"
  shows "gem_bank mem c = Some (n, rows)"
proof -
  note cols = assms(1) [unfolded has_columns_def gem_ints_def gem_dbls_def, simplified]
  have "gem_row mem c i = Some (rows ! i)" if "i < length rows" for i
    using that cols by (simp add: gem_row_def vec_at_def int_at_column dbl_at_column)
  then have "those (map (gem_row mem c) [0..<length rows]) = Some rows" by (rule those_rows)
  then show ?thesis using cols assms(2) by (simp add: gem_bank_def scal_of_def ints_of_def mem_val_Some)
qed

lemma track_bank_columns:
  assumes "has_columns (mem_val mem) c track_ints track_dbls rows" "mem_val mem (c, ''ntracks'') = Some (IntC n)"
  shows "track_bank mem c = Some (n, rows)"
proof -
  note cols = assms(1) [unfolded has_columns_def track_ints_def track_dbls_def, simplified]
  have "track_row mem c i = Some (rows ! i)" if "i < length rows" for i
    using that cols by (simp add: track_row_def int_at_column dbl_at_column)
  then have "those (map (track_row mem c) [0..<length rows]) = Some rows" by (rule those_rows)
  then show ?thesis using cols assms(2) by (simp add: track_bank_def scal_of_def ints_of_def mem_val_Some)
qed

lemma cal_bank_columns:
  assumes "has_columns (mem_val mem) c cal_ints cal_dbls rows" "mem_val mem (c, ''nhits'') = Some (IntC (int (length rows)))"
  shows "cal_bank mem c = Some rows"
proof -
  note cols = assms(1) [unfolded has_columns_def cal_ints_def cal_dbls_def, simplified]
  have "cal_row mem c i = Some (rows ! i)" if "i < length rows" for i
    using that cols by (simp add: cal_row_def int_at_column dbl_at_column)
  then have "those (map (cal_row mem c) [0..<length rows]) = Some rows" by (rule those_rows)
  then show ?thesis using assms(2) by (simp add: cal_bank_def scal_of_def mem_val_Some)
qed

section \<open>An entry of the file\<close>

text \<open>The branches of an entry that holds the event e, as far as detector type ty needs them; all other
  branches may have any value or be missing.\<close>

definition holds_gem :: "(string \<times> string \<Rightarrow> leafval option) \<Rightarrow> string \<Rightarrow> gembank \<Rightarrow> bool" where
  "holds_gem entry c b \<longleftrightarrow> entry (c, ''nhits'') = Some (IntC (fst b)) \<and> has_columns entry c gem_ints gem_dbls (snd b)"

definition holds_track :: "(string \<times> string \<Rightarrow> leafval option) \<Rightarrow> string \<Rightarrow> trackbank \<Rightarrow> bool" where
  "holds_track entry c b \<longleftrightarrow> entry (c, ''ntracks'') = Some (IntC (fst b)) \<and> has_columns entry c track_ints track_dbls (snd b)"

definition holds_cal :: "(string \<times> string \<Rightarrow> leafval option) \<Rightarrow> string \<Rightarrow> calhit list \<Rightarrow> bool" where
  "holds_cal entry c hs \<longleftrightarrow> entry (c, ''nhits'') = Some (IntC (int (length hs))) \<and> has_columns entry c cal_ints cal_dbls hs"

definition ev_dbls :: "g4event \<Rightarrow> (string \<times> real) list" where
  "ev_dbls e = [(''solang'', geSolang e), (''sigma'', geSigma e), (''vx'', vx (geV e)), (''vy'', vy (geV e)), (''vz'', vz (geV e)),
     (''epx'', vx (geEp e)), (''epy'', vy (geEp e)), (''epz'', vz (geEp e)),
     (''npx'', vx (geNp e)), (''npy'', vy (geNp e)), (''npz'', vz (geNp e))]"

text \<open>The leaves of ev have the values of the event at the distances of the members.\<close>

definition holds_ev :: "(string \<times> string \<Rightarrow> leafval option) \<Rightarrow> g4event \<Rightarrow> bool" where
  "holds_ev entry e \<longleftrightarrow> (\<exists>vs. entry (''ev'', []) = Some (StructC vs)
     \<and> (\<forall>(f, x) \<in> set (ev_dbls e). \<exists>i < length vs. vs ! i = DblC x \<and> offset_of event_fields f 0 = Some (leaf_offset vs i)))"

definition holds :: "int \<Rightarrow> (string \<times> string \<Rightarrow> leafval option) \<Rightarrow> g4event \<Rightarrow> bool" where
  "holds ty entry e \<longleftrightarrow> holds_ev entry e
     \<and> (ty = 1 \<longrightarrow> holds_gem entry ''Earm.BBGEM.hit'' (geBBGEM e) \<and> holds_track entry ''Earm.BBGEM.Track'' (geBBTrack e)
          \<and> holds_cal entry ''Earm.BBPSTF1.hit'' (gePS e) \<and> holds_cal entry ''Earm.BBSHTF1.hit'' (geSH e))
     \<and> (ty = 2 \<longrightarrow> holds_gem entry ''Harm.SBSGEM.hit'' (geSBSGEM e))
     \<and> (ty = 3 \<longrightarrow> holds_gem entry ''Harm.FT.hit'' (geFT e) \<and> holds_track entry ''Harm.FT.Track'' (geFTTrack e)
          \<and> holds_cal entry ''Earm.ECalTF1.hit'' (geECal e) \<and> holds_cal entry ''Earm.CDET_Scint.hit'' (geCDet e))
     \<and> (ty = 4 \<longrightarrow> holds_gem entry ''Harm.FPP1.hit'' (geFPP1 e) \<and> holds_track entry ''Harm.FPP1.Track'' (geFPP1Track e))
     \<and> (ty = 5 \<longrightarrow> holds_gem entry ''Harm.FPP2.hit'' (geFPP2 e) \<and> holds_track entry ''Harm.FPP1.Track'' (geFPP1Track e)
          \<and> holds_track entry ''Harm.FPP2.Track'' (geFPP2Track e) \<and> holds_cal entry ''Harm.HCalScint.hit'' (geHCal e))"

text \<open>The part of an event that is read for a detector type.\<close>

definition for_type :: "int \<Rightarrow> g4event \<Rightarrow> g4event" where
  "for_type ty e = (let h = \<lparr> geSolang = geSolang e, geSigma = geSigma e, geV = geV e, geEp = geEp e, geNp = geNp e,
       geBBGEM = (0, []), geBBTrack = (0, []), geSBSGEM = (0, []), geFT = (0, []), geFTTrack = (0, []), geFPP1 = (0, []),
       geFPP1Track = (0, []), geFPP2 = (0, []), geFPP2Track = (0, []), gePS = [], geSH = [], geECal = [], geCDet = [], geHCal = [] \<rparr> in
     if ty = 1 then h \<lparr> geBBGEM := geBBGEM e, geBBTrack := geBBTrack e, gePS := gePS e, geSH := geSH e \<rparr>
     else if ty = 2 then h \<lparr> geSBSGEM := geSBSGEM e \<rparr>
     else if ty = 3 then h \<lparr> geFT := geFT e, geFTTrack := geFTTrack e, geECal := geECal e, geCDet := geCDet e \<rparr>
     else if ty = 4 then h \<lparr> geFPP1Track := geFPP1Track e, geFPP1 := geFPP1 e \<rparr>
     else if ty = 5 then h \<lparr> geFPP1Track := geFPP1Track e, geFPP2Track := geFPP2Track e, geFPP2 := geFPP2 e, geHCal := geHCal e \<rparr>
     else h)"

text \<open>The reader uses no other part.\<close>

lemma read_for_type:
  assumes "Getg4sbsDetectorType m = Some ty"
  shows "read_event R m src (for_type ty e) = read_event R m src e"
  using assms by (simp add: read_event_def read_BBGEM_def read_SBSGEM_def read_FT_def read_FPP1_def read_FPP2_def
      BB_gen_def FT_gen_def FPP1_gen_def FPP2_gen_def for_type_def Let_def cong: if_cong)

section \<open>Reading an entry through the branches\<close>

text \<open>What is bound for collection c is read into its members.\<close>

definition reads :: "(string \<times> string \<Rightarrow> leafval option) \<Rightarrow> leafmem \<Rightarrow> string \<times> string list \<Rightarrow> fields \<Rightarrow> bool" where
  "reads entry mem c d \<longleftrightarrow> (\<forall>f v l. f \<in> set (snd c) \<and> map_of d f = Some l \<and> entry (fst c, f) = Some v \<and> fits l v
     \<longrightarrow> mem_val mem (fst c, f) = Some v)"

lemma columns_read:
  assumes "reads entry mem (c, fs) d" "has_columns entry c ints dbls rows"
    "has_fields fs d (map (\<lambda>x. (fst x, IntV)) ints)" "has_fields fs d (map (\<lambda>x. (fst x, DblV)) dbls)"
  shows "has_columns (mem_val mem) c ints dbls rows"
proof -
  have "mem_val mem (c, f) = Some (IntsC (map g rows))" if "(f, g) \<in> set ints" for f g
    using that assms by (fastforce simp: reads_def has_columns_def has_fields_def list_all_iff fits_def)
  moreover have "mem_val mem (c, f) = Some (DblsC (map g rows))" if "(f, g) \<in> set dbls" for f g
    using that assms by (fastforce simp: reads_def has_columns_def has_fields_def list_all_iff fits_def)
  ultimately show ?thesis by (auto simp: has_columns_def)
qed

lemma count_read:
  "reads entry mem (c, fs) d \<Longrightarrow> entry (c, f) = Some (IntC n) \<Longrightarrow> has_fields fs d [(f, IntL)] \<Longrightarrow> mem_val mem (c, f) = Some (IntC n)"
  by (simp add: reads_def has_fields_def fits_def)

text \<open>What the reader needs of the hits and the tracks of GEM planes and of the calorimeters.\<close>

definition gem_complete :: "string list \<Rightarrow> fields \<Rightarrow> bool" where
  "gem_complete fs d \<longleftrightarrow> has_fields fs d [(''nhits'', IntL)] \<and> has_fields fs d (map (\<lambda>x. (fst x, IntV)) gem_ints)
     \<and> has_fields fs d (map (\<lambda>x. (fst x, DblV)) gem_dbls)"

definition track_complete :: "string list \<Rightarrow> fields \<Rightarrow> bool" where
  "track_complete fs d \<longleftrightarrow> has_fields fs d [(''ntracks'', IntL)] \<and> has_fields fs d (map (\<lambda>x. (fst x, IntV)) track_ints)
     \<and> has_fields fs d (map (\<lambda>x. (fst x, DblV)) track_dbls)"

definition cal_complete :: "string list \<Rightarrow> fields \<Rightarrow> bool" where
  "cal_complete fs d \<longleftrightarrow> has_fields fs d [(''nhits'', IntL)] \<and> has_fields fs d (map (\<lambda>x. (fst x, IntV)) cal_ints)
     \<and> has_fields fs d (map (\<lambda>x. (fst x, DblV)) cal_dbls)"

lemma gem_read: "reads entry mem (c, fs) d \<Longrightarrow> gem_complete fs d \<Longrightarrow> holds_gem entry c b \<Longrightarrow> gem_bank mem c = Some b"
  using gem_bank_columns [OF columns_read count_read] by (cases b) (simp add: gem_complete_def holds_gem_def)

lemma track_read: "reads entry mem (c, fs) d \<Longrightarrow> track_complete fs d \<Longrightarrow> holds_track entry c b \<Longrightarrow> track_bank mem c = Some b"
  using track_bank_columns [OF columns_read count_read] by (cases b) (simp add: track_complete_def holds_track_def)

lemma cal_read: "reads entry mem (c, fs) d \<Longrightarrow> cal_complete fs d \<Longrightarrow> holds_cal entry c hs \<Longrightarrow> cal_bank mem c = Some hs"
  using cal_bank_columns [OF columns_read count_read] by (simp add: cal_complete_def holds_cal_def)

lemma complete_fields:
  "gem_complete (map fst gem_fields) gem_fields" "gem_complete (map fst gemt_fields) gemt_fields"
  "gem_complete (snd (branches_fpp ! 0)) gemt_fields" "gem_complete (snd (branches_fpp ! 2)) gemt_fields"
  "gem_complete (snd (branches_sidis ! 0)) gem_fields" "track_complete (map fst track_fields) track_fields"
  "cal_complete (map fst scint_fields) scint_fields"
  by (simp_all add: gem_complete_def track_complete_def cal_complete_def has_fields_def gem_ints_def gem_dbls_def track_ints_def
      track_dbls_def cal_ints_def cal_dbls_def gem_fields_def gemt_fields_def track_fields_def scint_fields_def branches_fpp_def
      branches_sidis_def)

text \<open>GetEntry on a new tree always succeeds and reads what is bound.\<close>

lemma GetEntry_new:
  fixes ty py eb hb
  assumes "root_reads entry G"
  defines "t0 \<equiv> \<lparr> trOption = ty, trPythia = py, trEcalBox = eb, trHcalBox = hb, trBranches = None, trMem = (\<lambda>_. None) \<rparr>"
  shows "\<exists>t. leaves_GetEntry G (new_tree True ty py eb hb) = Some t
    \<and> (\<forall>c d. c \<in> set (bound_collections t0) \<and> has_decl (fst c) d \<longrightarrow> reads entry (trMem t) c d)
    \<and> (\<forall>vs i f l. entry (''ev'', []) = Some (StructC vs) \<and> i < length vs \<and> map_of event_fields f = Some l
         \<and> offset_of event_fields f 0 = Some (leaf_offset vs i) \<and> fits l (vs ! i) \<longrightarrow> mem_val (trMem t) (''ev'', f) = Some (vs ! i))"
proof -
  let ?m0 = "\<lambda>b. if set_null b then Some None else None" and ?bs = "concat (map (\<lambda>(c, fs). map (\<lambda>f. (c, f)) fs) (bound_collections t0))"
  have nt: "trBranches (new_tree True ty py eb hb) = Some ((''ev'', []) # ?bs)" "trMem (new_tree True ty py eb hb) = ?m0"
    by (simp_all add: new_tree_def Init_def bound_branches_def bound_collections_def t0_def Let_def cong: if_cong)
  have ev: "leaf_type (''ev'', f) = None" for f by (simp add: leaf_type_def declared_defs)
  have init: "?m0 b \<noteq> None" if "b \<in> set ((''ev'', []) # ?bs)" "leaf_type b = Some l" "pointer l" for b l
  proof -
    have "b \<in> set ?bs" using that ev by auto
    then obtain c fs f where c: "(c, fs) \<in> set (bound_collections t0)" "f \<in> set fs" "b = (c, f)" by auto
    then have "set_null b" using bound_nulled [OF c(1)] that by (auto simp: nulled_def list_all_iff)
    then show ?thesis by simp
  qed
  have pre: "\<forall>b \<in> set ((''ev'', []) # ?bs). \<forall>l. leaf_type b = Some l \<and> pointer l \<longrightarrow> ?m0 b \<noteq> None"
    using init by blast
  note get = assms(1) [unfolded root_reads_def, THEN spec, THEN spec, THEN mp, OF pre]
  obtain mem where mem: "G ((''ev'', []) # ?bs) ?m0 = Some mem"
      "\<forall>b \<in> set ((''ev'', []) # ?bs). \<forall>l v. leaf_type b = Some l \<and> entry b = Some v \<and> fits l v \<longrightarrow> mem b = Some (Some v)"
      "\<forall>vs i f l. entry (''ev'', []) = Some (StructC vs) \<and> i < length vs \<and> map_of event_fields f = Some l
         \<and> offset_of event_fields f 0 = Some (leaf_offset vs i) \<and> fits l (vs ! i) \<longrightarrow> mem (''ev'', f) = Some (Some (vs ! i))"
    using get by (elim exE conjE) (rule that, assumption, assumption, simp)
  have "reads entry mem c d" if "c \<in> set (bound_collections t0)" "has_decl (fst c) d" for c d
  proof -
    have "mem_val mem (fst c, f) = Some v" if f: "f \<in> set (snd c)" "map_of d f = Some l" "entry (fst c, f) = Some v" "fits l v" for f v l
    proof -
      have "(fst c, f) \<in> set ((''ev'', []) # ?bs)" using \<open>c \<in> set (bound_collections t0)\<close> f(1) by force
      moreover have "leaf_type (fst c, f) = Some l" using \<open>has_decl (fst c) d\<close> f(2) by (simp add: has_decl_def)
      ultimately show ?thesis using mem(2) f(3,4) unfolding mem_val_Some by blast
    qed
    then show ?thesis by (auto simp: reads_def)
  qed
  moreover have "leaves_GetEntry G (new_tree True ty py eb hb) = Some (new_tree True ty py eb hb \<lparr> trMem := mem \<rparr>)"
    using mem(1) nt by (simp add: leaves_GetEntry_def)
  ultimately show ?thesis using mem(3)
    by (intro exI [of _ "new_tree True ty py eb hb \<lparr> trMem := mem \<rparr>"]) (simp add: mem_val_Some)
qed

lemma ev_members: "\<forall>(f, x) \<in> set (ev_dbls e). map_of event_fields f = Some DblL"
  by (simp add: ev_dbls_def event_fields_def)

lemma head_read:
  assumes "holds_ev entry e" "\<forall>vs i f l. entry (''ev'', []) = Some (StructC vs) \<and> i < length vs \<and> map_of event_fields f = Some l
    \<and> offset_of event_fields f 0 = Some (leaf_offset vs i) \<and> fits l (vs ! i) \<longrightarrow> mem_val mem (''ev'', f) = Some (vs ! i)"
  shows "event_head mem = Some (for_type 0 e)"
proof -
  have "mem_val mem (''ev'', f) = Some (DblC x)" if f: "(f, x) \<in> set (ev_dbls e)" for f x
  proof -
    obtain vs i where v: "entry (''ev'', []) = Some (StructC vs)" "i < length vs" "vs ! i = DblC x"
        "offset_of event_fields f 0 = Some (leaf_offset vs i)"
      using assms(1) f unfolding holds_ev_def by fast
    moreover have "map_of event_fields f = Some DblL" using ev_members f by fast
    moreover have "fits DblL (vs ! i)" using v(3) by (simp add: fits_def)
    ultimately have "mem_val mem (''ev'', f) = Some (vs ! i)" using assms(2) by blast
    then show ?thesis using v(3) by simp
  qed
  then have "dbl_of mem ''ev'' f = Some x" if "(f, x) \<in> set (ev_dbls e)" for f x
    using that by (simp add: dbl_of_def mem_val_Some)
  then show ?thesis by (simp add: event_head_def vec_of_def ev_dbls_def for_type_def)
qed

section \<open>The branches of each detector type\<close>

lemma ordered_in:
  "(''Harm.FPP1.hit'', snd (branches_fpp ! 0)) \<in> set branches_fpp" "(''Harm.FPP2.hit'', snd (branches_fpp ! 2)) \<in> set branches_fpp"
  "(''Harm.FPP1.Track'', map fst track_fields) \<in> set branches_fpp" "(''Harm.FPP2.Track'', map fst track_fields) \<in> set branches_fpp"
  "(''Harm.SBSGEM.hit'', snd (branches_sidis ! 0)) \<in> set branches_sidis"
  by (simp_all add: branches_fpp_def branches_sidis_def)

lemma bound_for:
  "trOption t = 1 \<Longrightarrow> set (branches_bb_gem @ branches_bb_calo) \<subseteq> set (bound_collections t)"
  "trOption t = 2 \<Longrightarrow> set branches_sidis \<subseteq> set (bound_collections t)"
  "3 \<le> trOption t \<Longrightarrow> set (branches_cdet @ branches_ecal @ branches_fpp @ branches_ft @ branches_hcal) \<subseteq> set (bound_collections t)"
  by (auto simp: bound_collections_def)

lemma read_types:
  assumes rd: "\<And>c d. c \<in> set (bound_collections t0) \<Longrightarrow> has_decl (fst c) d \<Longrightarrow> reads entry mem c d"
    and h: "holds (trOption t0) entry e" "event_head mem = Some (for_type 0 e)"
  shows "trOption t0 = 1 \<Longrightarrow> event_of_leaves 1 mem = Some (for_type 1 e)"
    "trOption t0 = 2 \<Longrightarrow> event_of_leaves 2 mem = Some (for_type 2 e)"
    "trOption t0 = 3 \<Longrightarrow> event_of_leaves 3 mem = Some (for_type 3 e)"
    "trOption t0 = 4 \<Longrightarrow> event_of_leaves 4 mem = Some (for_type 4 e)"
    "trOption t0 = 5 \<Longrightarrow> event_of_leaves 5 mem = Some (for_type 5 e)"
proof -
  have r: "reads entry mem (c, fs) d" if "(c, fs) \<in> S" "S \<subseteq> set (bound_collections t0)" "has_decl c d" for c fs d S
    using rd [of "(c, fs)" d] that by auto
  note g = gem_read [OF r] and tr = track_read [OF r] and ca = cal_read [OF r]
  show "event_of_leaves 1 mem = Some (for_type 1 e)" if o: "trOption t0 = 1"
  proof -
    note b = bound_for(1) [OF o] and hs = h(1) [unfolded o holds_def]
    have "gem_bank mem ''Earm.BBGEM.hit'' = Some (geBBGEM e)"
      by (rule g [OF _ b decls(1) complete_fields(1)]) (use hs in \<open>simp_all add: branches_bb_gem_def\<close>)
    moreover have "track_bank mem ''Earm.BBGEM.Track'' = Some (geBBTrack e)"
      by (rule tr [OF _ b decls(2) complete_fields(6)]) (use hs in \<open>simp_all add: branches_bb_gem_def\<close>)
    moreover have "cal_bank mem ''Earm.BBPSTF1.hit'' = Some (gePS e)"
      by (rule ca [OF _ b decls(4) complete_fields(7)]) (use hs in \<open>simp_all add: branches_bb_calo_def\<close>)
    moreover have "cal_bank mem ''Earm.BBSHTF1.hit'' = Some (geSH e)"
      by (rule ca [OF _ b decls(6) complete_fields(7)]) (use hs in \<open>simp_all add: branches_bb_calo_def\<close>)
    ultimately show ?thesis using h(2) by (simp add: event_of_leaves_def for_type_def)
  qed
  show "event_of_leaves 2 mem = Some (for_type 2 e)" if o: "trOption t0 = 2"
  proof -
    note b = bound_for(2) [OF o] and hs = h(1) [unfolded o holds_def]
    have "gem_bank mem ''Harm.SBSGEM.hit'' = Some (geSBSGEM e)"
      by (rule g [OF ordered_in(5) b decls(21) complete_fields(5)]) (use hs in simp)
    then show ?thesis using h(2) by (simp add: event_of_leaves_def for_type_def)
  qed
  have three: "set (branches_cdet @ branches_ecal @ branches_fpp @ branches_ft @ branches_hcal) \<subseteq> set (bound_collections t0)"
    if "3 \<le> trOption t0" using bound_for(3) [OF that] .
  show "event_of_leaves 3 mem = Some (for_type 3 e)" if o: "trOption t0 = 3"
  proof -
    note hs = h(1) [unfolded o holds_def]
    have "gem_bank mem ''Harm.FT.hit'' = Some (geFT e)"
      by (rule g [OF _ three decls(16) complete_fields(2)]) (use hs o in \<open>simp_all add: branches_ft_def\<close>)
    moreover have "track_bank mem ''Harm.FT.Track'' = Some (geFTTrack e)"
      by (rule tr [OF _ three decls(17) complete_fields(6)]) (use hs o in \<open>simp_all add: branches_ft_def\<close>)
    moreover have "cal_bank mem ''Earm.ECalTF1.hit'' = Some (geECal e)"
      by (rule ca [OF _ three decls(11) complete_fields(7)]) (use hs o in \<open>simp_all add: branches_ecal_def\<close>)
    moreover have "cal_bank mem ''Earm.CDET_Scint.hit'' = Some (geCDet e)"
      by (rule ca [OF _ three decls(8) complete_fields(7)]) (use hs o in \<open>simp_all add: branches_cdet_def\<close>)
    ultimately show ?thesis using h(2) by (simp add: event_of_leaves_def for_type_def)
  qed
  show "event_of_leaves 4 mem = Some (for_type 4 e)" if o: "trOption t0 = 4"
  proof -
    note hs = h(1) [unfolded o holds_def]
    have "gem_bank mem ''Harm.FPP1.hit'' = Some (geFPP1 e)"
      by (rule g [OF _ three decls(12) complete_fields(3)]) (use hs o ordered_in(1) in simp_all)
    moreover have "track_bank mem ''Harm.FPP1.Track'' = Some (geFPP1Track e)"
      by (rule tr [OF _ three decls(13) complete_fields(6)]) (use hs o ordered_in(3) in simp_all)
    ultimately show ?thesis using h(2) by (simp add: event_of_leaves_def for_type_def)
  qed
  show "event_of_leaves 5 mem = Some (for_type 5 e)" if o: "trOption t0 = 5"
  proof -
    note hs = h(1) [unfolded o holds_def]
    have "gem_bank mem ''Harm.FPP2.hit'' = Some (geFPP2 e)"
      by (rule g [OF _ three decls(14) complete_fields(4)]) (use hs o ordered_in(2) in simp_all)
    moreover have "track_bank mem ''Harm.FPP1.Track'' = Some (geFPP1Track e)"
      by (rule tr [OF _ three decls(13) complete_fields(6)]) (use hs o ordered_in(3) in simp_all)
    moreover have "track_bank mem ''Harm.FPP2.Track'' = Some (geFPP2Track e)"
      by (rule tr [OF _ three decls(15) complete_fields(6)]) (use hs o ordered_in(4) in simp_all)
    moreover have "cal_bank mem ''Harm.HCalScint.hit'' = Some (geHCal e)"
      by (rule ca [OF _ three decls(20) complete_fields(7)]) (use hs o in \<open>simp_all add: branches_hcal_def\<close>)
    ultimately show ?thesis using h(2) by (simp add: event_of_leaves_def for_type_def)
  qed
qed

section \<open>The property\<close>

text \<open>C12. The branches of a file deliver the event to the reader.  For each of the five detector types, every pointer
  is null before it is used, every branch that the reader needs has an address, with the type of its member, and
  after GetEntry the members hold the event of the entry: all that ReadNextEvent takes for this type, whatever
  other branches the file has.  The reader takes nothing else: it makes the same of the event read this way and
  of the whole event.  ROOT's GetEntry is any function with the documented behaviour root\_reads: defined when
  the bound pointers are initialized, it leaves the value of a bound branch in its member, if the types agree, and
  each leaf of ev in the member at its distance from ev\_count.\<close>

theorem branches_deliver_event:
  assumes "root_reads entry G" "holds ty entry e" "ty \<in> {1, 2, 3, 4, 5}"
  shows "\<exists>t. leaves_GetEntry G (new_tree True ty py eb hb) = Some t
    \<and> event_of_leaves ty (trMem t) = Some (for_type ty e)
    \<and> (\<forall>R m src. Getg4sbsDetectorType m = Some ty \<longrightarrow> read_event R m src (for_type ty e) = read_event R m src e)"
proof -
  let ?t0 = "\<lparr> trOption = ty, trPythia = py, trEcalBox = eb, trHcalBox = hb, trBranches = None, trMem = (\<lambda>_. None) \<rparr>"
  obtain t where t: "leaves_GetEntry G (new_tree True ty py eb hb) = Some t"
      "\<And>c d. c \<in> set (bound_collections ?t0) \<Longrightarrow> has_decl (fst c) d \<Longrightarrow> reads entry (trMem t) c d"
      "\<forall>vs i f l. entry (''ev'', []) = Some (StructC vs) \<and> i < length vs \<and> map_of event_fields f = Some l
         \<and> offset_of event_fields f 0 = Some (leaf_offset vs i) \<and> fits l (vs ! i) \<longrightarrow> mem_val (trMem t) (''ev'', f) = Some (vs ! i)"
    using GetEntry_new [OF assms(1), where ty = ty and py = py and eb = eb and hb = hb] by blast
  have h: "event_head (trMem t) = Some (for_type 0 e)"
    using assms(2) by (intro head_read [where entry = entry] t(3)) (simp add: holds_def)
  note ev = read_types [where ?t0.0 = ?t0 and entry = entry and mem = "trMem t" and e = e, OF t(2) _ h, simplified]
  have "event_of_leaves ty (trMem t) = Some (for_type ty e)"
    using assms(3) ev assms(2) by (elim insertE emptyE) simp_all
  then show ?thesis using t(1) read_for_type by blast
qed

section \<open>An example\<close>

text \<open>A function with the behaviour that is relied on: the branches are read one after the other.\<close>

definition ev_leaf :: "leafval list \<Rightarrow> string \<Rightarrow> leafval option" where
  "ev_leaf vs f = do { l \<leftarrow> map_of event_fields f; n \<leftarrow> offset_of event_fields f 0;
     i \<leftarrow> List.find (\<lambda>i. leaf_offset vs i = n) [0..<length vs]; if fits l (vs ! i) then Some (vs ! i) else None }"

definition ev_mem :: "leafval list \<Rightarrow> leafmem \<Rightarrow> leafmem" where
  "ev_mem vs mem x = (case if fst x = ''ev'' then ev_leaf vs (snd x) else None of Some v \<Rightarrow> Some (Some v) | None \<Rightarrow> mem x)"

definition read_branch :: "(string \<times> string \<Rightarrow> leafval option) \<Rightarrow> string \<times> string \<Rightarrow> leafmem \<Rightarrow> leafmem option" where
  "read_branch entry b mem = (case leaf_type b of
     Some l \<Rightarrow> if pointer l \<and> mem b = None then None
       else (case entry b of Some v \<Rightarrow> Some (if fits l v then mem(b \<mapsto> Some v) else mem) | None \<Rightarrow> Some mem)
   | None \<Rightarrow> (case entry b of Some (StructC vs) \<Rightarrow> Some (if b = (''ev'', []) then ev_mem vs mem else mem) | _ \<Rightarrow> Some mem))"

fun read_branches :: "(string \<times> string \<Rightarrow> leafval option) \<Rightarrow> root_get" where
  "read_branches entry [] mem = Some mem"
| "read_branches entry (b # bs) mem = do { mem \<leftarrow> read_branch entry b mem; read_branches entry bs mem }"

lemma ev_no_leaf: "leaf_type (''ev'', f) = None"
  by (simp add: leaf_type_def declared_defs)

lemma read_branch_keeps:
  assumes "read_branch entry b mem = Some mem'"
  shows "mem x \<noteq> None \<Longrightarrow> mem' x \<noteq> None"
    "x \<noteq> b \<Longrightarrow> fst x \<noteq> ''ev'' \<or> b \<noteq> (''ev'', []) \<Longrightarrow> mem' x = mem x"
    "leaf_type b = Some l \<Longrightarrow> entry b = Some v \<Longrightarrow> fits l v \<Longrightarrow> mem' b = Some (Some v)"
    "b = (''ev'', []) \<Longrightarrow> entry b = Some (StructC vs) \<Longrightarrow> ev_leaf vs f = Some v \<Longrightarrow> mem' (''ev'', f) = Some (Some v)"
  using assms ev_no_leaf [of "[]"]
  by (auto simp: read_branch_def ev_mem_def split: option.splits leafval.splits if_splits)

text \<open>What a member has is what the last branch that belongs to it has left there.\<close>

lemma read_branches_get:
  assumes "\<And>b mem mem'. b \<in> B \<Longrightarrow> read_branch entry b mem = Some mem' \<Longrightarrow> mem' x = Some (Some v)"
    "\<And>b mem mem'. b \<notin> B \<Longrightarrow> read_branch entry b mem = Some mem' \<Longrightarrow> mem' x = mem x"
  shows "read_branches entry bs mem = Some mem' \<Longrightarrow>
    mem' x = (if set bs \<inter> B \<noteq> {} then Some (Some v) else mem x)"
proof (induction bs arbitrary: mem)
  case (Cons b bs)
  obtain m1 where m1: "read_branch entry b mem = Some m1" "read_branches entry bs m1 = Some mem'"
    using Cons.prems by (auto simp: bind_eq_Some_conv)
  show ?case using Cons.IH [OF m1(2)] assms(1) [OF _ m1(1)] assms(2) [OF _ m1(1)] by (cases "b \<in> B") auto
qed simp

lemma read_branches_total:
  "(\<And>b l. b \<in> set bs \<Longrightarrow> leaf_type b = Some l \<Longrightarrow> pointer l \<Longrightarrow> mem b \<noteq> None) \<Longrightarrow> \<exists>mem'. read_branches entry bs mem = Some mem'"
proof (induction bs arbitrary: mem)
  case (Cons b bs)
  have "read_branch entry b mem \<noteq> None"
    using Cons.prems [of b] by (auto simp: read_branch_def split: option.splits leafval.splits)
  then obtain m1 where m1: "read_branch entry b mem = Some m1" by blast
  have "\<exists>mem'. read_branches entry bs m1 = Some mem'"
  proof (rule Cons.IH)
    fix b' l assume "b' \<in> set bs" "leaf_type b' = Some l" "pointer l"
    then show "m1 b' \<noteq> None" using read_branch_keeps(1) [OF m1] Cons.prems [of b' l] by simp
  qed
  then show ?case using m1 by simp
qed simp

text \<open>No two leaves are at the same distance.\<close>

lemma leaf_offset_less: "i < j \<Longrightarrow> j \<le> length vs \<Longrightarrow> leaf_offset vs i < leaf_offset vs j"
proof (induction vs arbitrary: i j)
  case (Cons v vs)
  have "0 < leaf_size v" by (simp add: leaf_size_def split: leafval.splits)
  then show ?case using Cons by (cases i; cases j) (auto simp: leaf_offset_def)
qed simp

lemma ev_leaf_at:
  assumes "i < length vs" "map_of event_fields f = Some l" "offset_of event_fields f 0 = Some (leaf_offset vs i)" "fits l (vs ! i)"
  shows "ev_leaf vs f = Some (vs ! i)"
proof -
  have eq: "leaf_offset vs j = leaf_offset vs i \<longleftrightarrow> j = i" if "j < length vs" for j
    using that assms(1) leaf_offset_less [of i j vs] leaf_offset_less [of j i vs] by (cases i j rule: linorder_cases) auto
  have "List.find (\<lambda>j. leaf_offset vs j = leaf_offset vs i) [0..<length vs] = Some i"
    using assms(1) eq by (auto simp: find_Some_iff)
  then show ?thesis using assms by (simp add: ev_leaf_def)
qed

lemma read_branches_root: "root_reads entry (read_branches entry)"
  unfolding root_reads_def
proof (intro allI impI)
  fix bs and mem :: leafmem assume "\<forall>b \<in> set bs. \<forall>l. leaf_type b = Some l \<and> pointer l \<longrightarrow> mem b \<noteq> None"
  then obtain mem' where m: "read_branches entry bs mem = Some mem'" using read_branches_total [of bs mem entry] by blast
  have "mem' b = Some (Some v)" if b: "b \<in> set bs" "leaf_type b = Some l" "entry b = Some v" "fits l v" for b l v
  proof -
    have "fst b \<noteq> ''ev''" using b(2) ev_no_leaf by (metis option.distinct(1) prod.collapse)
    then show ?thesis using read_branches_get [where B = "{b}", OF _ _ m, of b v] read_branch_keeps(2,3) b by auto
  qed
  moreover have "mem' (''ev'', f) = Some (Some (vs ! i))"
    if v: "(''ev'', []) \<in> set bs" "entry (''ev'', []) = Some (StructC vs)" "ev_leaf vs f = Some (vs ! i)" for vs i f
  proof -
    have other: "m2 (''ev'', f) = m1 (''ev'', f)" if "b \<noteq> (''ev'', [])" "read_branch entry b m1 = Some m2" for b m1 m2
    proof (cases "b = (''ev'', f)")
      case True
      then show ?thesis using that ev_no_leaf [of f] by (auto simp: read_branch_def split: option.splits leafval.splits)
    next
      case False
      then show ?thesis using read_branch_keeps(2) [OF that(2), of "(''ev'', f)"] that(1) by auto
    qed
    have own: "m2 (''ev'', f) = Some (Some (vs ! i))" if "read_branch entry (''ev'', []) m1 = Some m2" for m1 m2
      using read_branch_keeps(4) [OF that refl] v(2,3) by blast
    show ?thesis using read_branches_get [where B = "{(''ev'', [])}", OF _ _ m, of "(''ev'', f)" "vs ! i"] own other v(1) by auto
  qed
  ultimately show "\<exists>mem'. read_branches entry bs mem = Some mem'
        \<and> (\<forall>b \<in> set bs. \<forall>l v. leaf_type b = Some l \<and> entry b = Some v \<and> fits l v \<longrightarrow> mem' b = Some (Some v))
        \<and> ((''ev'', []) \<in> set bs \<longrightarrow> (\<forall>vs i f l. entry (''ev'', []) = Some (StructC vs) \<and> i < length vs
             \<and> map_of event_fields f = Some l \<and> offset_of event_fields f 0 = Some (leaf_offset vs i) \<and> fits l (vs ! i)
             \<longrightarrow> mem' (''ev'', f) = Some (Some (vs ! i))))"
    using m ev_leaf_at by (intro exI [of _ mem']) blast
qed

text \<open>An entry with one hit of the SIDIS tracker.\<close>

definition rowB :: g4row where
  "rowB = \<lparr> rwPlane = 1, rwTrid = 2, rwMid = 0, rwPid = 211, rwEdep = 3, rwTmin = 10, rwTmax = 12, rwTx = 1, rwTxp = 0, rwTyp = 0,
     rwIn = Vec 1 2 3, rwOut = Vec 1 2 4, rwVtx = Vec 0 0 1, rwP = 5 \<rparr>"

definition entryB :: "string \<times> string \<Rightarrow> leafval option" where
  "entryB = map_of ([((''ev'', []), StructC (map (\<lambda>_. DblC 1) event_fields)), ((''Harm.SBSGEM.hit'', ''nhits''), IntC 1)]
     @ map (\<lambda>(f, g). ((''Harm.SBSGEM.hit'', f), IntsC [g rowB])) gem_ints
     @ map (\<lambda>(f, g). ((''Harm.SBSGEM.hit'', f), DblsC [g rowB])) gem_dbls)"

definition eventB :: g4event where
  "eventB = \<lparr> geSolang = 1, geSigma = 1, geV = Vec 1 1 1, geEp = Vec 1 1 1, geNp = Vec 1 1 1, geBBGEM = (0, []),
     geBBTrack = (0, []), geSBSGEM = (1, [rowB]), geFT = (0, []), geFTTrack = (0, []), geFPP1 = (0, []), geFPP1Track = (0, []),
     geFPP2 = (0, []), geFPP2Track = (0, []), gePS = [], geSH = [], geECal = [], geCDet = [], geHCal = [] \<rparr>"

lemma ev_places: "\<forall>fx \<in> set (ev_dbls eventB). snd fx = 1 \<and> (\<exists>i < 36. offset_of event_fields (fst fx) 0 = Some (8 * i))"
proof -
  have p: "offset_of event_fields ''solang'' 0 = Some (8 * 2)" "offset_of event_fields ''sigma'' 0 = Some (8 * 3)"
    "offset_of event_fields ''vx'' 0 = Some (8 * 13)" "offset_of event_fields ''vy'' 0 = Some (8 * 14)"
    "offset_of event_fields ''vz'' 0 = Some (8 * 15)" "offset_of event_fields ''epx'' 0 = Some (8 * 18)"
    "offset_of event_fields ''epy'' 0 = Some (8 * 19)" "offset_of event_fields ''epz'' 0 = Some (8 * 20)"
    "offset_of event_fields ''npx'' 0 = Some (8 * 21)" "offset_of event_fields ''npy'' 0 = Some (8 * 22)"
    "offset_of event_fields ''npz'' 0 = Some (8 * 23)"
    by (simp_all add: event_fields_def)
  have e: "\<exists>i < 36. offset_of event_fields f 0 = Some (8 * i)" if "offset_of event_fields f 0 = Some (8 * k)" "k < 36" for f k
    using that by blast
  show ?thesis by (simp add: ev_dbls_def eventB_def p [THEN e])
qed

lemma entryB_holds: "holds 2 entryB eventB"
proof -
  have "holds_ev entryB eventB"
    unfolding holds_ev_def
  proof (rule exI [of _ "map (\<lambda>_. DblC 1) event_fields"], intro conjI ballI)
    show "entryB (''ev'', []) = Some (StructC (map (\<lambda>_. DblC 1) event_fields))" by (simp add: entryB_def)
    have len: "length event_fields = 41" by (simp add: event_fields_def)
    have sz: "leaf_offset (map (\<lambda>_. DblC 1) event_fields) i = 8 * i" if "i \<le> 41" for i
      using that len by (simp add: leaf_offset_def leaf_size_def take_map comp_def sum_list_triv)
    have at: "\<exists>i < length (map (\<lambda>_. DblC 1) event_fields). map (\<lambda>_. DblC 1) event_fields ! i = DblC 1
        \<and> offset_of event_fields f 0 = Some (leaf_offset (map (\<lambda>_. DblC 1) event_fields) i)"
      if "i < 36" "offset_of event_fields f 0 = Some (8 * i)" for f i
      using that sz [of i] len by (intro exI [of _ i]) simp
    fix fx assume "fx \<in> set (ev_dbls eventB)"
    then have "snd fx = 1 \<and> (\<exists>i < 36. offset_of event_fields (fst fx) 0 = Some (8 * i))"
      by (elim ev_places [THEN bspec])
    then show "case fx of (f, x) \<Rightarrow> \<exists>i < length (map (\<lambda>_. DblC 1) event_fields). map (\<lambda>_. DblC 1) event_fields ! i = DblC x
        \<and> offset_of event_fields f 0 = Some (leaf_offset (map (\<lambda>_. DblC 1) event_fields) i)"
      using at by (cases fx) auto
  qed
  moreover have "has_columns entryB ''Harm.SBSGEM.hit'' gem_ints gem_dbls [rowB]"
    by (simp add: has_columns_def entryB_def gem_ints_def gem_dbls_def)
  moreover have "entryB (''Harm.SBSGEM.hit'', ''nhits'') = Some (IntC 1)" by (simp add: entryB_def)
  ultimately show ?thesis by (simp add: holds_def holds_gem_def eventB_def)
qed

theorem branches_deliver_event_witness:
  "\<exists>t. leaves_GetEntry (read_branches entryB) (new_tree True 2 False False False) = Some t
    \<and> event_of_leaves 2 (trMem t) = Some eventB"
proof -
  have "for_type 2 eventB = eventB" by (simp add: for_type_def eventB_def Let_def)
  then show ?thesis using branches_deliver_event [OF read_branches_root entryB_holds, of False False False] by auto
qed

text \<open>One branch is given its address twice, and the boxes of the calorimeters are only bound on request.\<close>

lemma tmax_twice: "count_list (snd (branches_fpp ! 0)) ''tmax'' = 2"
  by (simp add: branches_fpp_def)

text \<open>Without a tree nothing is read: all members of the new object stay null.\<close>

lemma no_tree_null:
  assumes "leaves_GetEntry G (new_tree False ty py eb hb) = Some t" "set_null (c, f)"
  shows "int_at (trMem t) c f i = None" "dbl_at (trMem t) c f i = None"
  using assms by (auto simp: leaves_GetEntry_def new_tree_def Init_def Let_def int_at_def ints_of_def dbl_at_def dbls_of_def)

end
