(* ===== verification/Geant4Reader.thy ===== *)
theory Geant4Reader
  imports Geant4File
begin

text \<open>
  What TSBSGeant4File (theory Geant4File) delivers: the generated track, the hits of an event of
  each detector, the packed hits of GetGEMData, and the loop that reads a file to its end.
\<close>

section \<open>Generated tracks\<close>

lemma gen_keys:
  "map fst (track_slots t pm v w) = [0, 1, 2, 3, 4, 5, 6, 7, 9, 10, 11, 12, 13, 14, 8]"
  "{..<15} = set [0, 1, 2, 3, 4, 5, 6, 7, 9, 10, 11, 12, 13, 14, 8 :: nat]"
  by (simp add: track_slots_def vec_slots_def Let_def) (auto simp: numeral_eq_Suc less_Suc_eq)

text \<open>The record of a track: its numbers, momentum and position, and the data of the event.\<close>

definition gen_of :: "g4track \<Rightarrow> vec3 \<Rightarrow> vec3 \<Rightarrow> real \<Rightarrow> hitdata \<Rightarrow> bool" where
  "gen_of t pm v w g \<longleftrightarrow> GetTRID g = Some (gtTID t) \<and> GetPID g = Some (gtPID t) \<and> GetWeight g = Some w
     \<and> GetV g = Some (Vec (gtX t * 1000) (gtY t * 1000) 0) \<and> GetMomentumAtTarget g = Some pm \<and> GetVertexAtTarget g = Some v
     \<and> (\<exists>p. GetP g = Some p \<and> vmag2 p = (gtP t)\<^sup>2 \<and> vx p = gtXp t * vz p \<and> vy p = gtYp t * vz p \<and> 0 \<le> vz p * gtP t)"

definition track_ok :: "g4track \<Rightarrow> bool" where
  "track_ok t \<longleftrightarrow> -2147483648 \<le> gtTID t \<and> gtTID t \<le> 2147483647 \<and> -2147483648 \<le> gtPID t \<and> gtPID t \<le> 2147483647"

lemma track_mom:
  fixes a b p :: real
  defines "pz \<equiv> p / sqrt (1 + a\<^sup>2 + b\<^sup>2)"
  shows "vmag2 (Vec (pz * a) (pz * b) pz) = p\<^sup>2" "0 \<le> pz * p"
proof -
  have q: "0 < 1 + a\<^sup>2 + b\<^sup>2" by (simp add: add_pos_nonneg)
  then have "pz\<^sup>2 * (1 + a\<^sup>2 + b\<^sup>2) = p\<^sup>2" by (simp add: pz_def power_divide)
  moreover have "vmag2 (Vec (pz * a) (pz * b) pz) = pz\<^sup>2 * (1 + a\<^sup>2 + b\<^sup>2)"
    by (simp add: vmag2_def vdot_def power2_eq_square algebra_simps)
  ultimately show "vmag2 (Vec (pz * a) (pz * b) pz) = p\<^sup>2" by simp
  have "pz * p = p\<^sup>2 / sqrt (1 + a\<^sup>2 + b\<^sup>2)" by (simp add: pz_def power2_eq_square)
  then show "0 \<le> pz * p" using q by simp
qed

lemma track_gen_ok:
  assumes "length (rsGenTemp s) = 15" "track_ok t"
  shows "\<exists>g T. track_gen t pm v w s = Some (s \<lparr> rsGenTemp := T, rsGens := rsGens s @ [g] \<rparr>) \<and> gen_of t pm v w g
    \<and> T ! 0 = Some (of_int (gtTID t))"
proof -
  let ?kvs = "track_slots t pm v w"
  have d: "distinct (map fst ?kvs)" unfolding gen_keys by simp
  have k: "fst ` set ?kvs = {..<15}" unfolding set_map [symmetric] gen_keys ..
  obtain h where h: "gendata_new = Some h" "hd_inv h" "hd_size h = 15" using gendata_new_inv by blast
  obtain g where g: "copy_temp 15 (set_temp ?kvs (rsGenTemp s)) h = Some g" "record_is 15 ?kvs g"
    using copy_temp_ok [OF h(2,3) d k, of "rsGenTemp s"] assms(1) by auto
  have inv: "hd_inv g" using g(2) by (simp add: record_is_def)
  note f = record_filled [OF g(2)]
  have r: "raw i g = Some x" if "map_of ?kvs i = Some x" "i < 15" for i x
    using raw_slot [OF inv, of i x] g(2) that by (auto simp: record_is_def)
  have "gen_of t pm v w g" unfolding gen_of_def
    using assms(2) track_mom [of "gtP t" "gtXp t" "gtYp t"]
    by (simp add: GetTRID_def GetPID_def GetWeight_def GetV_def GetP_def GetMomentumAtTarget_def GetVertexAtTarget_def
        if_filled_def f raw3_def r track_slots_def vec_slots_def Let_def track_ok_def to_int32_of_int)
  moreover have "set_temp ?kvs (rsGenTemp s) ! 0 = Some (of_int (gtTID t))"
    using set_temp_nth [OF d, of 0 "rsGenTemp s"] assms(1) by (simp add: track_slots_def Let_def)
  moreover have "track_gen t pm v w s = Some (s \<lparr> rsGenTemp := set_temp ?kvs (rsGenTemp s), rsGens := rsGens s @ [g] \<rparr>)"
    unfolding track_gen_def store_gen_def using g(1) by (simp add: h(1))
  ultimately show ?thesis by blast
qed


section \<open>Reading an event: the specification\<close>

definition bank_ok :: "dbm \<Rightarrow> gembank \<Rightarrow> bool" where
  "bank_ok m b \<longleftrightarrow> fst b = int (length (snd b)) \<and> (\<forall>r \<in> set (snd b). row_ok m r)"

definition tracks_ok :: "trackbank \<Rightarrow> bool" where
  "tracks_ok b \<longleftrightarrow> fst b = int (length (snd b)) \<and> (\<forall>t \<in> set (snd b). track_ok t)"

definition calo_ok :: "dbm \<Rightarrow> bool" where
  "calo_ok m \<longleftrightarrow> DoCalo m \<noteq> None \<and> GetCaloThreshold m \<noteq> None"

text \<open>The banks of a detector: 1 BigBite, 3 forward tracker, 4 and 5 the polarimeters.\<close>

definition det_bank :: "int \<Rightarrow> g4event \<Rightarrow> gembank" where
  "det_bank ty e = (if ty = 1 then geBBGEM e else if ty = 3 then geFT e else if ty = 4 then geFPP1 e else geFPP2 e)"

definition det_tracks :: "int \<Rightarrow> g4event \<Rightarrow> trackbank" where
  "det_tracks ty e = (if ty = 1 then geBBTrack e else if ty = 3 then geFTTrack e else if ty = 4 then geFPP1Track e else geFPP2Track e)"

text \<open>The track that becomes the generated track of the event: the first one, if it is a primary, or
  for the polarimeters a proton.\<close>

definition signal_track :: "int \<Rightarrow> int \<Rightarrow> g4event \<Rightarrow> g4track option" where
  "signal_track ty src e = (case snd (det_tracks ty e) of [] \<Rightarrow> None
     | t # _ \<Rightarrow> if src = 0 \<and> (if ty \<le> 3 then gtMID t = 0 else gtPID t = 2212) then Some t else None)"

text \<open>The type of a hit: one more than its mother and the source, with the signal proton a primary.\<close>

definition hit_type :: "int \<Rightarrow> int \<Rightarrow> g4event \<Rightarrow> g4row \<Rightarrow> int" where
  "hit_type ty src e r = (if ty = 1 then rwMid r + 1
     else if ty = 3 then rwMid r + src + 1
     else case signal_track ty src e of None \<Rightarrow> rwMid r + src + 1
        | Some t \<Rightarrow> if rwMid r = gtMID (hd (snd (geFPP1Track e))) \<and> rwTrid r = gtTID t then src + 1 else rwMid r + src + 1)"

text \<open>BigBite skips the hits outside all modules.  The exit point is limited by the size of the hit's own
  module for BigBite only: the source passes its variable sector, which is 0 there, for the trackers and
  polarimeters (TSBSGeant4File.cxx:753), so their exit points are limited by the size of module 0 of
  the plane.  The specification of a hit has to follow this, it does not say that the exit lies in the
  module of the hit.\<close>

definition kept :: "int \<Rightarrow> dbm \<Rightarrow> g4row \<Rightarrow> bool" where
  "kept ty m r \<longleftrightarrow> (ty = 1 \<longrightarrow> module_of m r \<noteq> -1)"

definition size_module :: "int \<Rightarrow> dbm \<Rightarrow> g4row \<Rightarrow> int" where
  "size_module ty m r = (if ty = 1 then module_of m r else 0)"

definition event_good :: "int \<Rightarrow> dbm \<Rightarrow> int \<Rightarrow> g4event \<Rightarrow> bool" where
  "event_good ty m src e \<longleftrightarrow> ty \<in> {1, 3, 4, 5} \<and> reader_db m \<and> calo_ok m \<and> bank_ok m (det_bank ty e) \<and> tracks_ok (det_tracks ty e)
     \<and> (3 < ty \<longrightarrow> (if signal_track ty src e = None then \<forall>r \<in> set (snd (det_bank ty e)). rwMid r \<noteq> 0
                   else snd (geFPP1Track e) \<noteq> []))"

definition hits_as :: "int \<Rightarrow> dbm \<Rightarrow> int \<Rightarrow> g4event \<Rightarrow> hitdata list \<Rightarrow> bool" where
  "hits_as ty m src e = list_all2 (\<lambda>r. stored m (hit_type ty src e r) (module_of m r) (size_module ty m r) r)
     (filter (kept ty m) (snd (det_bank ty e)))"

definition gens_as :: "int \<Rightarrow> int \<Rightarrow> g4event \<Rightarrow> hitdata list \<Rightarrow> bool" where
  "gens_as ty src e gs \<longleftrightarrow> (case signal_track ty src e of None \<Rightarrow> gs = []
     | Some t \<Rightarrow> \<exists>g. gs = [g] \<and> gen_of t (if ty = 1 then geEp e else geNp e) (geV e) (geSolang e * geSigma e) g)"

section \<open>Reading an event: the proof\<close>

lemma GEp_total: "\<exists>cl'. GetGEpECalCluster pois thr ecal cdet cl = Some cl'"
proof -
  let ?st = "scan_hits pois Npe_Edep_ECAL 0 ecal seed0"
  obtain rest clus where g: "grow near_ecal (sdBlocks ?st) (sdClus ?st) = Some (rest, clus)"
    using grow_spec [of near_ecal "sdBlocks ?st" "sdClus ?st"] by blast
  obtain st1 st2 where "cdet_hits pois (length ecal) cdet (seed0, seed0) = (st1, st2)" by force
  moreover obtain c1 c2 where "cdet_cluster 1 st1 = Some c1" "cdet_cluster 2 st2 = Some c2"
    using cdet_cluster_total by blast
  moreover obtain es ss where "cl = (es, ss)" by force
  moreover obtain E X Y where "ecal_sums clus = (E, X, Y)" by (cases "ecal_sums clus") auto
  ultimately show ?thesis using g by (simp add: GetGEpECalCluster_def Let_def split: prod.split)
qed

lemma HCal_total: "\<exists>es'. GetHCalCluster pois hits es = Some es'"
proof -
  have i: "\<exists>b' c'. hcal_inner near k b c = Some (b', c')" for near k b c
  proof (induction near k b c rule: hcal_inner.induct)
    case (1 near k b c)
    obtain b' c' where "grow near b c = Some (b', c')" using grow_spec [of near b c] by blast
    then show ?case using 1 by (subst hcal_inner.simps) auto
  qed
  have "\<exists>b' c'. hcal_outer near n b c = Some (b', c')" for near n b c
  proof (induction n arbitrary: b c)
    case (Suc n)
    then show ?case using i [of near 0 b c] by fastforce
  qed simp
  then obtain b c where "hcal_outer near_hcal (length (sdBlocks (scan_hits pois Npe_Edep_HCAL 0 hits seed0)))
      (sdBlocks (scan_hits pois Npe_Edep_HCAL 0 hits seed0)) (sdClus (scan_hits pois Npe_Edep_HCAL 0 hits seed0)) = Some (b, c)"
    by blast
  then show ?thesis by (simp add: GetHCalCluster_def Let_def split: prod.split)
qed

lemma between_rdst0: "between rdst0 rdst0"
  by (simp add: between_def rdst0_def)

lemma rdst0_simps: "rsHits rdst0 = []" "rsGens rdst0 = []" "length (rsGenTemp rdst0) = 15" "rsMID rdst0 = 0"
  "rsGenTemp rdst0 ! 0 = None"
  by (simp_all add: rdst0_def)

text \<open>The track stored after the hits.\<close>

lemma first_gen_ok:
  assumes "tracks_ok b" "rsGens s = []" "length (rsGenTemp s) = 15"
  shows "\<exists>t. (if src = 0 \<and> rsGens s = [] \<and> 0 < fst b then do {
        t \<leftarrow> rd (snd b) 0;
        if gtMID t = 0 then track_gen t pm v w s else Some s }
      else Some s) = Some t \<and> rsHits t = rsHits s
    \<and> (case snd b of [] \<Rightarrow> rsGens t = [] | x # _ \<Rightarrow> if src = 0 \<and> gtMID x = 0 then \<exists>g. rsGens t = [g] \<and> gen_of x pm v w g else rsGens t = [])"
proof (cases "snd b")
  case Nil
  then show ?thesis using assms by (simp add: tracks_ok_def)
next
  case (Cons x xs)
  then have x: "rd (snd b) 0 = Some x" "0 < fst b" "track_ok x" using assms(1) by (simp_all add: tracks_ok_def rd_def)
  obtain g T where "track_gen x pm v w s = Some (s \<lparr> rsGenTemp := T, rsGens := rsGens s @ [g] \<rparr>)" "gen_of x pm v w g"
    using track_gen_ok [OF assms(3) x(3)] by blast
  then show ?thesis using Cons x assms(2) by (simp del: rd_Some)
qed


text \<open>The proton stored before the hits of a polarimeter.\<close>

lemma proton_gen_ok:
  assumes "tracks_ok b" "snd b \<noteq> [] \<and> src = 0 \<and> gtPID (hd (snd b)) = 2212 \<longrightarrow> mother = Some mid"
  shows "\<exists>t. (if src = 0 \<and> rsGens rdst0 = [] \<and> 0 < fst b then do {
        t \<leftarrow> rd (snd b) 0;
        if gtPID t = 2212 then do { mid \<leftarrow> mother; track_gen t pm v w (rdst0 \<lparr> rsMID := mid \<rparr>) } else Some rdst0 }
      else Some rdst0) = Some t \<and> between t t \<and> rsHits t = []
    \<and> (case snd b of [] \<Rightarrow> t = rdst0
       | x # _ \<Rightarrow> if src = 0 \<and> gtPID x = 2212
           then rsMID t = mid \<and> rsGenTemp t ! 0 = Some (of_int (gtTID x)) \<and> (\<exists>g. rsGens t = [g] \<and> gen_of x pm v w g)
           else t = rdst0)"
proof (cases "snd b")
  case Nil
  then show ?thesis using assms(1) by (simp add: tracks_ok_def between_rdst0 rdst0_simps)
next
  case (Cons x xs)
  then have x: "rd (snd b) 0 = Some x" "0 < fst b" "track_ok x" using assms(1) by (simp_all add: tracks_ok_def rd_def)
  show ?thesis
  proof (cases "src = 0 \<and> gtPID x = 2212")
    case True
    have l: "length (rsGenTemp (rdst0 \<lparr> rsMID := mid \<rparr>)) = 15" by (simp add: rdst0_def)
    obtain g T where "track_gen x pm v w (rdst0 \<lparr> rsMID := mid \<rparr>)
        = Some (rdst0 \<lparr> rsMID := mid, rsGenTemp := T, rsGens := rsGens (rdst0 \<lparr> rsMID := mid \<rparr>) @ [g] \<rparr>)"
        "gen_of x pm v w g" "T ! 0 = Some (of_int (gtTID x))"
      using track_gen_ok [OF l x(3)] by blast
    then show ?thesis using Cons x True assms(2)
      by (simp add: rdst0_simps between_def rdst0_def del: rd_Some)
  next
    case False
    then show ?thesis using Cons x by (simp add: rdst0_simps between_rdst0 del: rd_Some)
  qed
qed

lemma calo_cases:
  assumes "calo_ok m"
  obtains c thr where "DoCalo m = Some c" "GetCaloThreshold m = Some thr"
  using assms by (auto simp: calo_ok_def)

lemma read_BBGEM_ok:
  assumes "event_good 1 m src e"
  shows "\<exists>s cl. read_BBGEM R m src e = Some (s, cl) \<and> hits_as 1 m src e (rsHits s) \<and> gens_as 1 src e (rsGens s)"
proof -
  have b: "fst (geBBGEM e) = int (length (snd (geBBGEM e)))" "\<forall>r \<in> set (snd (geBBGEM e)). good_row m r"
    and tr: "tracks_ok (geBBTrack e)" and c: "calo_ok m"
    using assms by (simp_all add: event_good_def det_bank_def det_tracks_def bank_ok_def good_row_def)
  obtain s where s: "loop_hits (BBGEM_hit m) (snd (geBBGEM e)) 0 (length (snd (geBBGEM e))) rdst0 = Some s" "between rdst0 s"
      "list_all2 (\<lambda>r. stored m (rwMid r + 1) (module_of m r) (module_of m r) r)
         (filter (\<lambda>r. module_of m r \<noteq> -1) (snd (geBBGEM e))) (rsHits s)"
    using bb.loop_all [OF between_rdst0 b(2) rdst0_simps(1)] by blast
  have g: "rsGens s = []" "length (rsGenTemp s) = 15" using s(2) by (simp_all add: between_def rdst0_simps)
  obtain t where t: "BB_gen src (geSolang e * geSigma e) e s = Some t" "rsHits t = rsHits s"
      "case snd (geBBTrack e) of [] \<Rightarrow> rsGens t = []
       | x # _ \<Rightarrow> if src = 0 \<and> gtMID x = 0 then \<exists>g. rsGens t = [g] \<and> gen_of x (geEp e) (geV e) (geSolang e * geSigma e) g
                 else rsGens t = []"
    using first_gen_ok [OF tr g, where src = src and pm = "geEp e" and v = "geV e" and w = "geSolang e * geSigma e"]
    unfolding BB_gen_def by blast
  have "gens_as 1 src e (rsGens t)" using t(3)
    by (auto simp: gens_as_def signal_track_def det_tracks_def split: list.splits)
  moreover have "kept 1 m = (\<lambda>r. module_of m r \<noteq> -1)" by (simp add: kept_def fun_eq_iff)
  then have "hits_as 1 m src e (rsHits t)" using s(3) t(2)
    by (simp add: hits_as_def hit_type_def size_module_def det_bank_def)
  moreover obtain d thr where "DoCalo m = Some d" "GetCaloThreshold m = Some thr" using calo_cases [OF c] .
  ultimately show ?thesis using s(1) t(1) b(1) by (simp add: read_BBGEM_def Let_def)
qed

lemma read_FT_ok:
  assumes "event_good 3 m src e"
  shows "\<exists>s cl. read_FT R m src e = Some (s, cl) \<and> hits_as 3 m src e (rsHits s) \<and> gens_as 3 src e (rsGens s)"
proof -
  have b: "fst (geFT e) = int (length (snd (geFT e)))" "\<forall>r \<in> set (snd (geFT e)). good_row m r"
    and tr: "tracks_ok (geFTTrack e)" and c: "calo_ok m"
    using assms by (simp_all add: event_good_def det_bank_def det_tracks_def bank_ok_def good_row_def)
  obtain s where s: "loop_hits (FT_hit m src) (snd (geFT e)) 0 (length (snd (geFT e))) rdst0 = Some s" "between rdst0 s"
      "list_all2 (\<lambda>r. stored m (rwMid r + src + 1) (module_of m r) 0 r) (filter (\<lambda>_. True) (snd (geFT e))) (rsHits s)"
    using ft.loop_all [OF between_rdst0 b(2) rdst0_simps(1)] by blast
  have g: "rsGens s = []" "length (rsGenTemp s) = 15" using s(2) by (simp_all add: between_def rdst0_simps)
  obtain t where t: "FT_gen src (geSolang e * geSigma e) e s = Some t" "rsHits t = rsHits s"
      "case snd (geFTTrack e) of [] \<Rightarrow> rsGens t = []
       | x # _ \<Rightarrow> if src = 0 \<and> gtMID x = 0 then \<exists>g. rsGens t = [g] \<and> gen_of x (geNp e) (geV e) (geSolang e * geSigma e) g
                 else rsGens t = []"
    using first_gen_ok [OF tr g, where src = src and pm = "geNp e" and v = "geV e" and w = "geSolang e * geSigma e"]
    unfolding FT_gen_def by blast
  have "gens_as 3 src e (rsGens t)" using t(3)
    by (auto simp: gens_as_def signal_track_def det_tracks_def split: list.splits)
  moreover have "hits_as 3 m src e (rsHits t)" using s(3) t(2)
    by (simp add: hits_as_def kept_def hit_type_def size_module_def det_bank_def)
  moreover obtain d thr where "DoCalo m = Some d" "GetCaloThreshold m = Some thr" using calo_cases [OF c] .
  moreover obtain cl where "GetGEpECalCluster (cgPois R) thr (geECal e) (geCDet e) ([], []) = Some cl"
    using GEp_total by blast
  ultimately show ?thesis using s(1) t(1) b(1) by (simp add: read_FT_def Let_def)
qed


text \<open>The type of a polarimeter hit after the proton was stored.\<close>

lemma fpp_setup:
  assumes "case snd (det_tracks ty e) of [] \<Rightarrow> t = rdst0
       | x # _ \<Rightarrow> if src = 0 \<and> gtPID x = 2212
           then rsMID t = gtMID (hd (snd (geFPP1Track e))) \<and> rsGenTemp t ! 0 = Some (of_int (gtTID x))
             \<and> (\<exists>g. rsGens t = [g] \<and> gen_of x (geNp e) (geV e) (geSolang e * geSigma e) g)
           else t = rdst0"
    and ty: "3 < ty" and e: "event_good ty m src e"
  shows "\<forall>r \<in> set (snd (det_bank ty e)). fpp_row m t r"
    "\<forall>r \<in> set (snd (det_bank ty e)). the (FPP_type src r t) = hit_type ty src e r"
    "gens_as ty src e (rsGens t)"
proof -
  have good: "\<forall>r \<in> set (snd (det_bank ty e)). good_row m r"
    using e by (simp add: event_good_def bank_ok_def good_row_def)
  have "(\<forall>r \<in> set (snd (det_bank ty e)). fpp_row m t r) \<and>
    (\<forall>r \<in> set (snd (det_bank ty e)). the (FPP_type src r t) = hit_type ty src e r) \<and> gens_as ty src e (rsGens t)"
  proof (cases "signal_track ty src e")
    case None
    then have t: "t = rdst0" using assms(1) ty by (auto simp: signal_track_def split: list.splits if_splits)
    have "\<forall>r \<in> set (snd (det_bank ty e)). rwMid r \<noteq> 0" using e ty None by (simp add: event_good_def)
    then show ?thesis using good None ty
      by (auto simp: t fpp_row_def rdst0_simps FPP_type_def hit_type_def gens_as_def)
  next
    case (Some x)
    then have x: "rsMID t = gtMID (hd (snd (geFPP1Track e)))" "rsGenTemp t ! 0 = Some (of_int (gtTID x))"
        "\<exists>g. rsGens t = [g] \<and> gen_of x (geNp e) (geV e) (geSolang e * geSigma e) g"
      using assms(1) ty by (auto simp: signal_track_def split: list.splits if_splits)
    then show ?thesis using good Some ty
      by (auto simp: fpp_row_def FPP_type_def hit_type_def gens_as_def)
  qed
  then show "\<forall>r \<in> set (snd (det_bank ty e)). fpp_row m t r"
    "\<forall>r \<in> set (snd (det_bank ty e)). the (FPP_type src r t) = hit_type ty src e r" "gens_as ty src e (rsGens t)"
    by blast+
qed

lemma fpp_hits_as:
  assumes "3 < ty" "list_all2 (\<lambda>r. stored m (the (FPP_type src r t)) (module_of m r) 0 r) (filter (\<lambda>_. True) rows) hs"
    "\<forall>r \<in> set rows. the (FPP_type src r t) = hit_type ty src e r" "snd (det_bank ty e) = rows"
  shows "hits_as ty m src e hs"
proof -
  have k: "kept ty m = (\<lambda>_. True)" using assms(1) by (simp add: kept_def fun_eq_iff)
  have "list_all2 (\<lambda>r. stored m (hit_type ty src e r) (module_of m r) 0 r) rows hs"
    using assms(2,3) by (auto simp: list_all2_conv_all_nth)
  then show ?thesis using assms(1,4) by (simp add: hits_as_def k size_module_def)
qed

lemma read_FPP1_ok:
  assumes "event_good 4 m src e"
  shows "\<exists>s cl. read_FPP1 m src e = Some (s, cl) \<and> hits_as 4 m src e (rsHits s) \<and> gens_as 4 src e (rsGens s)"
proof -
  have tr: "tracks_ok (geFPP1Track e)" and n: "fst (geFPP1 e) = int (length (snd (geFPP1 e)))"
    using assms by (simp_all add: event_good_def det_bank_def det_tracks_def bank_ok_def)
  define mid where "mid = gtMID (hd (snd (geFPP1Track e)))"
  obtain t where t: "(if src = 0 \<and> rsGens rdst0 = [] \<and> 0 < fst (geFPP1Track e) then do {
        t \<leftarrow> rd (snd (geFPP1Track e)) 0;
        if gtPID t = 2212 then do { mid \<leftarrow> Some mid; track_gen t (geNp e) (geV e) (geSolang e * geSigma e) (rdst0 \<lparr> rsMID := mid \<rparr>) }
        else Some rdst0 }
      else Some rdst0) = Some t" "between t t" "rsHits t = []"
    "case snd (geFPP1Track e) of [] \<Rightarrow> t = rdst0
       | x # _ \<Rightarrow> if src = 0 \<and> gtPID x = 2212
           then rsMID t = mid \<and> rsGenTemp t ! 0 = Some (of_int (gtTID x))
             \<and> (\<exists>g. rsGens t = [g] \<and> gen_of x (geNp e) (geV e) (geSolang e * geSigma e) g)
           else t = rdst0"
    using proton_gen_ok [OF tr, where mother = "Some mid"] by blast
  have g: "FPP1_gen src (geSolang e * geSigma e) e rdst0 = Some t"
    unfolding t(1) [symmetric] FPP1_gen_def mid_def
    by (cases "snd (geFPP1Track e)") (simp_all add: rd_def cong: if_cong del: rd_Some)
  have d: "snd (det_tracks 4 e) = snd (geFPP1Track e)" "snd (det_bank 4 e) = snd (geFPP1 e)"
    by (simp_all add: det_tracks_def det_bank_def)
  have set4: "\<forall>r \<in> set (snd (geFPP1 e)). fpp_row m t r"
      "\<forall>r \<in> set (snd (geFPP1 e)). the (FPP_type src r t) = hit_type 4 src e r" "gens_as 4 src e (rsGens t)"
    using fpp_setup [where ty = 4 and e = e, unfolded d, OF t(4) [unfolded mid_def] _ assms] by simp_all
  obtain s where s: "loop_hits (FPP1_hit m src) (snd (geFPP1 e)) 0 (length (snd (geFPP1 e))) t = Some s" "between t s"
      "list_all2 (\<lambda>r. stored m (the (FPP_type src r t)) (module_of m r) 0 r) (filter (\<lambda>_. True) (snd (geFPP1 e))) (rsHits s)"
    using fpp1.loop_all [OF t(2) set4(1) t(3)] by blast
  have "hits_as 4 m src e (rsHits s)" using fpp_hits_as [OF _ s(3) set4(2)] by (simp add: det_bank_def)
  then show ?thesis using g s(1,2) set4(3) n by (simp add: read_FPP1_def Let_def between_def)
qed

lemma read_FPP2_ok:
  assumes "event_good 5 m src e"
  shows "\<exists>s cl. read_FPP2 R m src e = Some (s, cl) \<and> hits_as 5 m src e (rsHits s) \<and> gens_as 5 src e (rsGens s)"
proof -
  have tr: "tracks_ok (geFPP2Track e)" and n: "fst (geFPP2 e) = int (length (snd (geFPP2 e)))" and c: "calo_ok m"
    using assms by (simp_all add: event_good_def det_bank_def det_tracks_def bank_ok_def)
  define mid where "mid = gtMID (hd (snd (geFPP1Track e)))"
  define mother where "mother = map_option gtMID (rd (snd (geFPP1Track e)) 0)"
  have mo: "snd (geFPP2Track e) \<noteq> [] \<and> src = 0 \<and> gtPID (hd (snd (geFPP2Track e))) = 2212 \<longrightarrow> mother = Some mid"
  proof
    assume that: "snd (geFPP2Track e) \<noteq> [] \<and> src = 0 \<and> gtPID (hd (snd (geFPP2Track e))) = 2212"
    have "signal_track 5 src e \<noteq> None"
      using that by (cases "snd (geFPP2Track e)") (simp_all add: signal_track_def det_tracks_def)
    then have "snd (geFPP1Track e) \<noteq> []" using assms by (simp add: event_good_def)
    then show "mother = Some mid" by (cases "snd (geFPP1Track e)") (simp_all add: mother_def mid_def rd_def del: rd_Some)
  qed
  obtain t where t: "(if src = 0 \<and> rsGens rdst0 = [] \<and> 0 < fst (geFPP2Track e) then do {
        t \<leftarrow> rd (snd (geFPP2Track e)) 0;
        if gtPID t = 2212 then do { mid \<leftarrow> mother; track_gen t (geNp e) (geV e) (geSolang e * geSigma e) (rdst0 \<lparr> rsMID := mid \<rparr>) }
        else Some rdst0 }
      else Some rdst0) = Some t" "between t t" "rsHits t = []"
    "case snd (geFPP2Track e) of [] \<Rightarrow> t = rdst0
       | x # _ \<Rightarrow> if src = 0 \<and> gtPID x = 2212
           then rsMID t = mid \<and> rsGenTemp t ! 0 = Some (of_int (gtTID x))
             \<and> (\<exists>g. rsGens t = [g] \<and> gen_of x (geNp e) (geV e) (geSolang e * geSigma e) g)
           else t = rdst0"
    using proton_gen_ok [OF tr mo] by blast
  have g: "FPP2_gen src (geSolang e * geSigma e) e rdst0 = Some t"
    unfolding t(1) [symmetric] FPP2_gen_def mother_def
    by (cases "snd (geFPP2Track e)"; cases "snd (geFPP1Track e)") (simp_all add: rd_def cong: if_cong del: rd_Some)
  have d: "snd (det_tracks 5 e) = snd (geFPP2Track e)" "snd (det_bank 5 e) = snd (geFPP2 e)"
    by (simp_all add: det_tracks_def det_bank_def)
  have set5: "\<forall>r \<in> set (snd (geFPP2 e)). fpp_row m t r"
      "\<forall>r \<in> set (snd (geFPP2 e)). the (FPP_type src r t) = hit_type 5 src e r" "gens_as 5 src e (rsGens t)"
    using fpp_setup [where ty = 5 and e = e, unfolded d, OF t(4) [unfolded mid_def] _ assms] by simp_all
  obtain s where s: "loop_hits (FPP2_hit m src) (snd (geFPP2 e)) 0 (length (snd (geFPP2 e))) t = Some s" "between t s"
      "list_all2 (\<lambda>r. stored m (the (FPP_type src r t)) (module_of m r) 0 r) (filter (\<lambda>_. True) (snd (geFPP2 e))) (rsHits s)"
    using fpp2.loop_all [OF t(2) set5(1) t(3)] by blast
  have "hits_as 5 m src e (rsHits s)" using fpp_hits_as [OF _ s(3) set5(2)] by (simp add: det_bank_def)
  moreover obtain d thr where "DoCalo m = Some d" "GetCaloThreshold m = Some thr" using calo_cases [OF c] .
  moreover obtain cl where "GetHCalCluster (cgPois R) (geHCal e) [] = Some cl" using HCal_total by blast
  ultimately show ?thesis using g s(1,2) set5(3) n by (simp add: read_FPP2_def Let_def between_def)
qed

lemma read_event_ok:
  assumes "event_good ty m src e" "Getg4sbsDetectorType m = Some ty"
  shows "\<exists>s cl. read_event R m src e = Some (s, cl) \<and> hits_as ty m src e (rsHits s) \<and> gens_as ty src e (rsGens s)"
proof -
  have "ty = 1 \<or> ty = 3 \<or> ty = 4 \<or> ty = 5" using assms(1) by (simp add: event_good_def)
  then show ?thesis using assms read_BBGEM_ok [of m src e R] read_FT_ok [of m src e R] read_FPP1_ok [of m src e]
      read_FPP2_ok [of m src e R]
    by (elim disjE) (simp_all add: read_event_def)
qed

section \<open>One call of ReadNextEvent\<close>

text \<open>An open file whose next entry is number k.\<close>

definition reading :: "g4file \<Rightarrow> (int \<times> g4event) list \<Rightarrow> nat \<Rightarrow> bool" where
  "reading f es k \<longleftrightarrow> gfFile f = Some True \<and> (\<exists>cur. gfTree f = Some (es, cur)) \<and> gfEvNum f = Some (of_nat k - 1)"

definition read_good :: "dbm \<Rightarrow> int \<Rightarrow> int \<times> g4event \<Rightarrow> bool" where
  "read_good m src be \<longleftrightarrow> 0 < fst be \<and> (\<exists>ty. Getg4sbsDetectorType m = Some ty \<and> event_good ty m src (snd be))"

definition det_type :: "dbm \<Rightarrow> int" where
  "det_type m = the (Getg4sbsDetectorType m)"

lemma unat_of_nat32: "k < 4294967296 \<Longrightarrow> unat (of_nat k :: 32 word) = k"
  by (simp add: unat_of_nat)

lemma ReadNextEvent_ok:
  assumes "reading f es k" "k < length es" "k < 4294967296" "read_good m (gfSource f) (es ! k)"
  shows "\<exists>g. ReadNextEvent R m f = Some (1, g) \<and> reading g es (k + 1) \<and> gfEvNum g = Some (of_nat k)
    \<and> gfSource g = gfSource f \<and> hits_as (det_type m) m (gfSource f) (snd (es ! k)) (gfHits g)
    \<and> gens_as (det_type m) (gfSource f) (snd (es ! k)) (gfGens g)"
proof -
  obtain b e where be: "es ! k = (b, e)" by force
  obtain ty where ty: "Getg4sbsDetectorType m = Some ty" "event_good ty m (gfSource f) e" "0 < b"
    using assms(4) be by (auto simp: read_good_def)
  obtain s cl where s: "read_event R m (gfSource f) e = Some (s, cl)" "hits_as ty m (gfSource f) e (rsHits s)"
      "gens_as ty (gfSource f) e (rsGens s)"
    using read_event_ok [OF ty(2,1)] by blast
  obtain ec sc where cl: "cl = (ec, sc)" by force
  obtain cur where cur: "gfTree f = Some (es, cur)" using assms(1) by (auto simp: reading_def)
  have ge: "g4_GetEntry es k cur = (b, Some e)" using assms(2) be ty(3) by (simp add: g4_GetEntry_def rd_def del: rd_Some)
  define g where "g = (g4_Clear f) \<lparr> gfEvNum := Some (of_nat k), gfTree := Some (es, Some e), gfHits := rsHits s,
    gfGens := rsGens s, gfECal := ec, gfScint := sc \<rparr>"
  have f: "gfFile f = Some True" "gfEvNum f = Some (of_nat k - 1)" using assms(1) by (simp_all add: reading_def)
  have "ReadNextEvent R m f = Some (1, g)"
    using f cur ge s(1) ty(3) unat_of_nat32 [OF assms(3)]
    by (simp add: ReadNextEvent_def g4_Clear_def g_def cl)
  moreover have "reading g es (k + 1)" using f by (simp add: reading_def g_def g4_Clear_def)
  ultimately show ?thesis using s(2,3) be ty(1)
    by (intro exI [of _ g]) (simp add: g_def g4_Clear_def det_type_def)
qed

text \<open>After the last entry nothing is read: the lists of hits and tracks are empty.\<close>

lemma ReadNextEvent_end:
  assumes "reading f es (length es)" "length es < 4294967296"
  shows "\<exists>g. ReadNextEvent R m f = Some (0, g) \<and> gfHits g = [] \<and> gfGens g = [] \<and> gfFile g = Some True"
proof -
  obtain cur where cur: "gfTree f = Some (es, cur)" using assms(1) by (auto simp: reading_def)
  have "g4_GetEntry es (length es) cur = (0, cur)" by (simp add: g4_GetEntry_def rd_def del: rd_Some)
  then show ?thesis using assms cur unat_of_nat32 [OF assms(2)]
    by (simp add: ReadNextEvent_def reading_def g4_Clear_def)
qed

section \<open>Packing\<close>

definition packable :: "g4hit \<Rightarrow> bool" where
  "packable k \<longleftrightarrow> 0 \<le> khType k \<and> khType k < 4294967296 \<and> 0 \<le> khTrid k \<and> khTrid k < 4294967296
     \<and> -2147483648 \<le> khPid k \<and> khPid k \<le> 2147483647 \<and> 0 \<le> khPlane k \<and> khPlane k \<le> 2147483647
     \<and> 0 \<le> khModule k \<and> khModule k \<le> 2147483647"

definition packed :: "dbm \<Rightarrow> g4hit \<Rightarrow> gemhitdata \<Rightarrow> bool" where
  "packed m k d \<longleftrightarrow> hdMom d = khMom k \<and> hdXi d = khIn k \<and> hdXo d = khOut k \<and> hdXr d = khRO k \<and> hdVert d = khVtx k
     \<and> hdTime d = (khTmin k + khTmax k) / 2 \<and> hdEdep d = khEdep k * 1000000 \<and> int (hdType d) = khType k
     \<and> int (hdTRID d) = khTrid k \<and> hdPID d = khPid k \<and> int (hdPlane d) = khPlane k \<and> int (hdModule d) = khModule k
     \<and> int (hdGem d) = GetGEMID m (khPlane k) (khModule k) mod 4294967296"

lemma upd_hit_again:
  "k < length (shHits d) \<Longrightarrow> upd_hit k f (d \<lparr> shHits := (shHits d)[k := x] \<rparr>) = Some (d \<lparr> shHits := (shHits d)[k := f x] \<rparr>)"
  by simp

lemma pack_hit_ok:
  assumes "slots_of k h" "packable k" "j < length (shHits gd)"
  shows "\<exists>d. pack_hit m h j gd = Some (gd \<lparr> shHits := (shHits gd)[j := d] \<rparr>) \<and> packed m k d"
proof -
  note s = assms(1) [unfolded slots_of_def]
  have u: "to_uint32 (of_int (khType k)) = Some (nat (khType k))" "to_uint32 (of_int (khTrid k)) = Some (nat (khTrid k))"
      "to_uint32 (of_int (khPlane k)) = Some (nat (khPlane k))" "to_uint32 (of_int (khModule k)) = Some (nat (khModule k))"
    and i: "to_int32 (of_int (khPid k)) = Some (khPid k)" "to_int32 (of_int (khPlane k)) = Some (khPlane k)"
      "to_int32 (of_int (khModule k)) = Some (khModule k)"
    using assms(2) by (simp_all add: packable_def to_uint32_of_int to_int32_of_int)
  have g: "hit_chamber m h = Some (nat (GetGEMID m (khPlane k) (khModule k) mod 4294967296))"
    using s i by (simp add: hit_chamber_def)
  define d where "d = (shHits gd ! j) \<lparr> hdMom := khMom k, hdXi := khIn k, hdXo := khOut k, hdTime := (khTmin k + khTmax k) / 2,
    hdVert := khVtx k, hdXr := khRO k, hdEdep := khEdep k * 1000000, hdType := nat (khType k), hdTRID := nat (khTrid k),
    hdPID := khPid k, hdGem := nat (GetGEMID m (khPlane k) (khModule k) mod 4294967296), hdPlane := nat (khPlane k),
    hdModule := nat (khModule k) \<rparr>"
  have "pack_hit m h j gd = Some (gd \<lparr> shHits := (shHits gd)[j := d] \<rparr>)"
    using s g u i(1) assms(3) by (simp add: pack_hit_def hit_setters d_def)
  moreover have "packed m k d" using assms(2) by (simp add: packed_def packable_def d_def)
  ultimately show ?thesis by blast
qed

lemma pack_hits_ok:
  assumes "list_all2 slots_of ks hs" "\<forall>k \<in> set ks. 0 < khEdep k \<longrightarrow> packable k" "j + length hs \<le> length (shHits gd)"
  shows "\<exists>ds gd'. pack_hits m hs j gd = Some (j + length ds, gd') \<and> list_all2 (packed m) (filter (\<lambda>k. 0 < khEdep k) ks) ds
    \<and> take (j + length ds) (shHits gd') = take j (shHits gd) @ ds \<and> length (shHits gd') = length (shHits gd)
    \<and> shSource gd' = shSource gd \<and> shEvtID gd' = shEvtID gd"
  using assms
proof (induction ks hs arbitrary: j gd rule: list_all2_induct)
  case Nil
  then show ?case by simp
next
  case (Cons k ks h hs)
  have e: "GetData 1 h = Some (khEdep k)" using Cons.hyps(1) by (simp add: slots_of_def)
  show ?case
  proof (cases "0 < khEdep k")
    case False
    then show ?thesis using Cons.IH [of j gd] Cons.prems e by simp
  next
    case True
    have j: "j < length (shHits gd)" using Cons.prems(2) by simp
    obtain d where d: "pack_hit m h j gd = Some (gd \<lparr> shHits := (shHits gd)[j := d] \<rparr>)" "packed m k d"
      using pack_hit_ok [OF Cons.hyps(1) _ j] Cons.prems(1) True by auto
    define g1 where "g1 = gd \<lparr> shHits := (shHits gd)[j := d] \<rparr>"
    obtain ds g2 where r: "pack_hits m hs (j + 1) g1 = Some (j + 1 + length ds, g2)"
        "list_all2 (packed m) (filter (\<lambda>k. 0 < khEdep k) ks) ds"
        "take (j + 1 + length ds) (shHits g2) = take (j + 1) (shHits g1) @ ds" "length (shHits g2) = length (shHits g1)"
        "shSource g2 = shSource g1" "shEvtID g2 = shEvtID g1"
      using Cons.IH [of "j + 1" g1] Cons.prems by (auto simp: g1_def)
    have t: "take (j + 1) (shHits g1) = take j (shHits gd) @ [d]"
      using j by (simp add: g1_def take_Suc_conv_app_nth)
    show ?thesis using r(1,2,4-6) r(3) [unfolded t] d e True
      by (intro exI [of _ "d # ds"] exI [of _ g2]) (simp add: g1_def [symmetric], simp add: g1_def)
  qed
qed

lemma GetGEMData_ok:
  assumes "list_all2 slots_of ks (gfHits f)" "\<forall>k \<in> set ks. 0 < khEdep k \<longrightarrow> packable k" "gfEvNum f = Some n"
  shows "\<exists>gd. GetGEMData m f = Some gd \<and> shSource gd = gfSource f \<and> shEvtID gd = unat n
    \<and> list_all2 (packed m) (filter (\<lambda>k. 0 < khEdep k) ks) (shHits gd)"
proof (cases "gfHits f = []")
  case True
  then show ?thesis using assms by (simp add: GetGEMData_def GetGEMData_into_def ClearEvent_def)
next
  case False
  define g0 where "g0 = InitEvent (length (gfHits f)) ((ClearEvent simhitdata_new) \<lparr> shSource := gfSource f, shEvtID := unat n \<rparr>)"
  have g0: "length (shHits g0) = length (gfHits f)" "shSource g0 = gfSource f" "shEvtID g0 = unat n"
    using False by (simp_all add: g0_def InitEvent_def) (simp_all add: SetNHit_def)
  have le: "0 + length (gfHits f) \<le> length (shHits g0)" using g0(1) by simp
  obtain ds g1 where r: "pack_hits m (gfHits f) 0 g0 = Some (0 + length ds, g1)"
      "list_all2 (packed m) (filter (\<lambda>k. 0 < khEdep k) ks) ds" "take (0 + length ds) (shHits g1) = take 0 (shHits g0) @ ds"
      "length (shHits g1) = length (shHits g0)" "shSource g1 = shSource g0" "shEvtID g1 = shEvtID g0"
    using pack_hits_ok [OF assms(1,2) le] by blast
  have "take (length ds) (shHits g1) = ds" using r(3) by simp
  moreover from this have "length ds \<le> length (shHits g1)" by (metis length_take min.cobounded1)
  ultimately have "shHits (SetNHit (length ds) g1) = ds" by (simp add: SetNHit_def resize_def)
  moreover have "GetGEMData m f = Some (SetNHit (length ds) g1)"
    using False assms(3) r(1) by (simp add: GetGEMData_def GetGEMData_into_def g0_def)
  moreover have "shSource (SetNHit (length ds) g1) = gfSource f" "shEvtID (SetNHit (length ds) g1) = unat n"
    using r(5,6) g0 by (simp_all add: SetNHit_def)
  ultimately show ?thesis using r(2) by (intro exI [of _ "SetNHit (length ds) g1"]) simp
qed


section \<open>From the tree to the digitization\<close>

text \<open>The hit given to the digitization for a row: entrance and exit in mm in the frame of the module,
  the exit limited by half the size of size\_module, energy in eV, the momentum in MeV with the slopes of the row.\<close>

definition row_packed :: "int \<Rightarrow> dbm \<Rightarrow> int \<Rightarrow> g4event \<Rightarrow> g4row \<Rightarrow> gemhitdata \<Rightarrow> bool" where
  "row_packed ty m src e r d \<longleftrightarrow> hdXi d = frame_of m (plane_of r) (module_of m r) (rwIn r)
     \<and> hdXo d = clip_vec m (plane_of r) (size_module ty m r) (frame_of m (plane_of r) (module_of m r) (rwOut r))
     \<and> vmag2 (hdMom d) = (1000 * rwP r)\<^sup>2 \<and> vx (hdMom d) = rwTxp r * vz (hdMom d)
     \<and> vy (hdMom d) = rwTyp r * vz (hdMom d) \<and> 0 \<le> vz (hdMom d)
     \<and> hdVert d = 1000 *\<^sub>R rwVtx r \<and> hdTime d = (rwTmin r + rwTmax r) / 2 \<and> hdEdep d = rwEdep r * 1000000000
     \<and> int (hdType d) = hit_type ty src e r \<and> int (hdTRID d) = rwTrid r \<and> hdPID d = rwPid r
     \<and> int (hdPlane d) = plane_of r \<and> int (hdModule d) = module_of m r
     \<and> int (hdGem d) = GetGEMID m (plane_of r) (module_of m r) mod 4294967296"

text \<open>Rows whose numbers fit the unsigned fields: in particular the hit lies in a module.\<close>

definition row_fits :: "int \<Rightarrow> dbm \<Rightarrow> int \<Rightarrow> g4event \<Rightarrow> g4row \<Rightarrow> bool" where
  "row_fits ty m src e r \<longleftrightarrow> 0 \<le> hit_type ty src e r \<and> hit_type ty src e r < 4294967296 \<and> 0 \<le> rwTrid r \<and> rwTrid r < 4294967296
     \<and> -2147483648 \<le> rwPid r \<and> rwPid r \<le> 2147483647 \<and> 0 \<le> plane_of r \<and> plane_of r \<le> 2147483647
     \<and> 0 \<le> module_of m r \<and> module_of m r \<le> 2147483647"

definition det_rows :: "dbm \<Rightarrow> g4event \<Rightarrow> g4row list" where
  "det_rows m e = filter (kept (det_type m) m) (snd (det_bank (det_type m) e))"

lemma hit_of_simps:
  "khEdep (hit_of m ty md s r ro) = rwEdep r * 1000" "khType (hit_of m ty md s r ro) = ty" "khTrid (hit_of m ty md s r ro) = rwTrid r"
  "khPid (hit_of m ty md s r ro) = rwPid r" "khPlane (hit_of m ty md s r ro) = plane_of r" "khModule (hit_of m ty md s r ro) = md"
  "khTmin (hit_of m ty md s r ro) = rwTmin r" "khTmax (hit_of m ty md s r ro) = rwTmax r"
  "khIn (hit_of m ty md s r ro) = frame_of m (plane_of r) md (rwIn r)" "khMom (hit_of m ty md s r ro) = hit_mom r"
  "khOut (hit_of m ty md s r ro) = clip_vec m (plane_of r) s (frame_of m (plane_of r) md (rwOut r))"
  "khVtx (hit_of m ty md s r ro) = 1000 *\<^sub>R rwVtx r"
  by (simp_all add: hit_of_def hit_scalars_def plane_of_def)

lemma GetGEMData_rows:
  assumes "hits_as ty m src e (gfHits f)" "\<forall>r \<in> set (filter (kept ty m) (snd (det_bank ty e))). 0 < rwEdep r \<longrightarrow> row_fits ty m src e r"
    "gfEvNum f = Some n"
  shows "\<exists>gd. GetGEMData m f = Some gd \<and> shSource gd = gfSource f \<and> shEvtID gd = unat n
    \<and> list_all2 (row_packed ty m src e)
        (filter (\<lambda>r. 0 < rwEdep r) (filter (kept ty m) (snd (det_bank ty e)))) (shHits gd)"
proof -
  define rows where "rows = filter (kept ty m) (snd (det_bank ty e))"
  define hit where "hit r ro = hit_of m (hit_type ty src e r) (module_of m r) (size_module ty m r) r ro" for r ro
  have "\<exists>ro. slots_of (hit (rows ! i) ro) (gfHits f ! i)" if "i < length rows" for i
    using assms(1) that by (simp add: hits_as_def stored_def hit_def rows_def list_all2_conv_all_nth)
  then obtain ro where ro: "\<And>i. i < length rows \<Longrightarrow> slots_of (hit (rows ! i) (ro i)) (gfHits f ! i)" by metis
  have l: "length (gfHits f) = length rows" using assms(1) by (simp add: hits_as_def rows_def list_all2_lengthD)
  define ks where "ks = map (\<lambda>i. hit (rows ! i) (ro i)) [0..<length rows]"
  have ks: "length ks = length rows" "\<And>i. i < length rows \<Longrightarrow> ks ! i = hit (rows ! i) (ro i)" by (simp_all add: ks_def)
  have "list_all2 slots_of ks (gfHits f)" using ro l ks by (simp add: list_all2_conv_all_nth)
  moreover have "\<forall>k \<in> set ks. 0 < khEdep k \<longrightarrow> packable k"
  proof (intro ballI impI)
    fix k assume "k \<in> set ks" and e: "0 < khEdep k"
    then obtain i where i: "i < length rows" "k = hit (rows ! i) (ro i)" using ks by (metis in_set_conv_nth)
    then have "row_fits ty m src e (rows ! i)" using assms(2) e nth_mem [OF i(1)] by (simp add: rows_def hit_def hit_of_simps)
    then show "packable k" by (simp add: i(2) hit_def packable_def hit_of_simps row_fits_def)
  qed
  ultimately obtain gd where gd: "GetGEMData m f = Some gd" "shSource gd = gfSource f" "shEvtID gd = unat n"
      "list_all2 (packed m) (filter (\<lambda>k. 0 < khEdep k) ks) (shHits gd)"
    using GetGEMData_ok [OF _ _ assms(3)] by blast
  have "list_all2 (\<lambda>r k. \<exists>ro. k = hit r ro) rows ks" using ks by (auto simp: list_all2_conv_all_nth)
  then have rk: "list_all2 (\<lambda>r k. \<exists>ro. k = hit r ro) (filter (\<lambda>r. 0 < rwEdep r) rows) (filter (\<lambda>k. 0 < khEdep k) ks)"
    by (induction rows ks rule: list_all2_induct) (auto simp: hit_def hit_of_simps)
  have "row_packed ty m src e r d" if "\<exists>ro. k = hit r ro" "packed m k d" for r k d
    using that by (auto simp: row_packed_def packed_def hit_def hit_of_simps hit_mom_spec)
  then have "list_all2 (row_packed ty m src e) (filter (\<lambda>r. 0 < rwEdep r) rows) (shHits gd)"
    using list_all2_trans [OF _ rk gd(4)] by blast
  then show ?thesis using gd(1-3) by (auto simp: rows_def)
qed

text \<open>One turn of the reading loop: read the next event and pack its hits.\<close>

definition event_packed :: "dbm \<Rightarrow> int \<Rightarrow> g4event \<Rightarrow> simhitdata \<Rightarrow> bool" where
  "event_packed m src e gd \<longleftrightarrow> shSource gd = src
     \<and> list_all2 (row_packed (det_type m) m src e) (filter (\<lambda>r. 0 < rwEdep r) (det_rows m e)) (shHits gd)"

definition rows_fit :: "dbm \<Rightarrow> int \<Rightarrow> g4event \<Rightarrow> bool" where
  "rows_fit m src e \<longleftrightarrow> (\<forall>r \<in> set (det_rows m e). 0 < rwEdep r \<longrightarrow> row_fits (det_type m) m src e r)"

lemma read_and_pack:
  assumes "reading f es k" "k < length es" "k < 4294967296" "read_good m (gfSource f) (es ! k)" "rows_fit m (gfSource f) (snd (es ! k))"
  shows "\<exists>g gd. ReadNextEvent R m f = Some (1, g) \<and> reading g es (k + 1) \<and> gfSource g = gfSource f
    \<and> gens_as (det_type m) (gfSource f) (snd (es ! k)) (gfGens g)
    \<and> GetGEMData m g = Some gd \<and> shEvtID gd = k \<and> event_packed m (gfSource f) (snd (es ! k)) gd"
proof -
  obtain g where g: "ReadNextEvent R m f = Some (1, g)" "reading g es (k + 1)" "gfEvNum g = Some (of_nat k)"
      "gfSource g = gfSource f" "hits_as (det_type m) m (gfSource f) (snd (es ! k)) (gfHits g)"
      "gens_as (det_type m) (gfSource f) (snd (es ! k)) (gfGens g)"
    using ReadNextEvent_ok [OF assms(1-4)] by blast
  obtain gd where "GetGEMData m g = Some gd" "shSource gd = gfSource g" "shEvtID gd = unat (of_nat k :: 32 word)"
      "list_all2 (row_packed (det_type m) m (gfSource f) (snd (es ! k))) (filter (\<lambda>r. 0 < rwEdep r) (det_rows m (snd (es ! k)))) (shHits gd)"
    using GetGEMData_rows [OF g(5) _ g(3)] assms(5) by (auto simp: rows_fit_def det_rows_def)
  then show ?thesis using g unat_of_nat32 [OF assms(3)] by (auto simp: event_packed_def)
qed

section \<open>The reading loop\<close>

text \<open>The loop \<open>while (f->ReadNextEvent()) { gd = f->GetGEMData(); ... }\<close> of the programs that use
  the reader; None if it does not end.\<close>

partial_function (option) read_all :: "calrng \<Rightarrow> dbm \<Rightarrow> g4file \<Rightarrow> simhitdata list \<Rightarrow> simhitdata list option" where
  "read_all R m f gds = Option.bind (ReadNextEvent R m f) (\<lambda>p.
     if fst p = 0 then Some gds
     else Option.bind (GetGEMData m (snd p)) (\<lambda>gd. read_all R m (snd p) (gds @ [gd])))"

lemma read_all_from:
  assumes "length es < 4294967296" "\<forall>be \<in> set es. read_good m src be \<and> rows_fit m src (snd be)"
  shows "reading f es k \<Longrightarrow> k \<le> length es \<Longrightarrow> gfSource f = src \<Longrightarrow>
    \<exists>gds'. read_all R m f gds = Some (gds @ gds') \<and> map shEvtID gds' = [k..<length es]
      \<and> list_all2 (\<lambda>be. event_packed m src (snd be)) (drop k es) gds'"
proof (induction "length es - k" arbitrary: k f gds)
  case 0
  then have "reading f es (length es)" by simp
  then obtain g where "ReadNextEvent R m f = Some (0, g)" using ReadNextEvent_end [OF _ assms(1)] by blast
  then show ?case using 0 by (subst read_all.simps) simp
next
  case (Suc n)
  have k: "k < length es" "k < 4294967296" using Suc.hyps(2) assms(1) by simp_all
  then have "es ! k \<in> set es" by simp
  then have good: "read_good m (gfSource f) (es ! k)" "rows_fit m (gfSource f) (snd (es ! k))"
    using assms(2) Suc.prems(3) by simp_all
  obtain g gd where g: "ReadNextEvent R m f = Some (1, g)" "reading g es (k + 1)" "gfSource g = gfSource f"
      "GetGEMData m g = Some gd" "shEvtID gd = k" "event_packed m (gfSource f) (snd (es ! k)) gd"
    using read_and_pack [OF Suc.prems(1) k good] by blast
  have "n = length es - (k + 1)" "k + 1 \<le> length es" using Suc.hyps(2) k(1) by simp_all
  then obtain gds' where r: "read_all R m g (gds @ [gd]) = Some ((gds @ [gd]) @ gds')" "map shEvtID gds' = [k + 1..<length es]"
      "list_all2 (\<lambda>be. event_packed m src (snd be)) (drop (k + 1) es) gds'"
    using Suc.hyps(1) [OF _ g(2)] g(3) Suc.prems(3) by metis
  have "read_all R m f gds = Some (gds @ gd # gds')" using g(1,4) r(1) by (subst read_all.simps) simp
  moreover have "[k..<length es] = k # [k + 1..<length es]" using k(1) by (simp add: upt_conv_Cons)
  moreover have "drop k es = es ! k # drop (k + 1) es" using k(1) by (simp add: Cons_nth_drop_Suc)
  ultimately show ?case using g(5,6) r(2,3) Suc.prems(3) by (intro exI [of _ "gd # gds'"]) simp
qed

section \<open>The SIDIS detectors\<close>

text \<open>A row whose energy and times fit an Int\_t and that lies in a module.\<close>

definition sidis_row :: "dbm \<Rightarrow> g4row \<Rightarrow> bool" where
  "sidis_row m r \<longleftrightarrow> good_row m r \<and> module_of m r \<noteq> -1 \<and> GetSigPID m 0 \<noteq> None \<and> to_int32 (rwEdep r * 1000) \<noteq> None
     \<and> to_int32 (rwTmin r) \<noteq> None \<and> to_int32 (rwTmax r) \<noteq> None"

text \<open>The record of a SIDIS hit: the frame is that of module 0, the size and the number are those of
  the module of the hit, and energy and times have lost their fractions.\<close>

definition sidis_stored :: "dbm \<Rightarrow> int \<Rightarrow> g4row \<Rightarrow> hitdata \<Rightarrow> bool" where
  "sidis_stored m src r h \<longleftrightarrow> (\<exists>ro. slots_of ((hit_of m (rwMid r + src + 1) 0 (module_of m r) r ro)
     \<lparr> khModule := module_of m r, khEdep := of_int (trunc_int (rwEdep r * 1000)), khTmin := of_int (trunc_int (rwTmin r)),
       khTmax := of_int (trunc_int (rwTmax r)) \<rparr>) h)"

lemma to_int32_trunc: "to_int32 x \<noteq> None \<Longrightarrow> to_int32 x = Some (trunc_int x)"
  by (auto simp: to_int32_def Let_def split: if_splits)

text \<open>Nine of fifteen slots: a record that is never filled, so that its accessors give the error values.\<close>

lemma store_gen9_ok:
  assumes "9 \<le> length (rsGenTemp s)" "\<forall>i < 9. rsGenTemp s ! i \<noteq> None"
  shows "\<exists>g. store_gen 9 s = Some (s \<lparr> rsGens := rsGens s @ [g] \<rparr>) \<and> IsFilled g = Some False"
proof -
  obtain h where h: "gendata_new = Some h" "hd_inv h" "hd_size h = 15"
      "hd_slots h = [0 \<mapsto> 31415927 / 10000000, 8 \<mapsto> 1]" using gendata_new_inv by blast
  obtain g where g: "copy_temp 9 (rsGenTemp s) h = Some g" "hd_inv g" "hd_size g = 15"
      "hd_slots g = hd_slots h ++ (\<lambda>i. if i < 9 then rsGenTemp s ! i else None)"
    using copy_temp_partial [OF h(2), of 9 "rsGenTemp s"] assms h(3) by auto
  have "hd_slots g 9 = None" by (simp add: g(4) h(4) map_add_def)
  then have "9 \<in> {..<hd_size g} - dom (hd_slots g)" using g(3) by auto
  then have "\<not> {..<hd_size g} \<subseteq> dom (hd_slots g)" by blast
  then have "IsFilled g = Some False" using IsFilled_slots [OF g(2)] by simp
  moreover have "store_gen 9 s = Some (s \<lparr> rsGens := rsGens s @ [g] \<rparr>)"
    unfolding store_gen_def using g(1) by (simp add: h(1))
  ultimately show ?thesis by blast
qed

definition sidis_inv :: "rdst \<Rightarrow> bool" where
  "sidis_inv s \<longleftrightarrow> length (rsHitTemp s) = 24 \<and> rsModule s = 0 \<and> length (rsGenTemp s) = 15
     \<and> (rsHits s \<noteq> [] \<longrightarrow> (\<forall>i < 9. rsGenTemp s ! i \<noteq> None)) \<and> (\<forall>g \<in> set (rsGens s). IsFilled g = Some False)"

lemma hit_gen_keys: "map fst (hit_gen_slots h w) = [0, 1, 2, 3, 4, 5, 6, 7, 8]"
  by (simp add: hit_gen_slots_def vec_slots_def)

lemma SBSGEM_ok:
  assumes "sidis_inv s" "sidis_row m r"
  shows "\<exists>t h. SBSGEM_hit m src w r s = Some t \<and> sidis_inv t \<and> rsHits t = rsHits s @ [h] \<and> sidis_stored m src r h"
proof -
  let ?md = "module_of m r" and ?type = "rwMid r + src + 1"
  have gr: "reader_db m" "row_ok m r" and md: "?md \<noteq> -1" using assms(2) by (simp_all add: sidis_row_def good_row_def)
  have c: "CheckIndex m (plane_of r) ?md 0 = Some True"
    using row_module_in [OF gr(2) _ md] gr(1) by (simp add: reader_db_def)
  have mp: "GetModuleIDFromPos m (rwPlane r - 1) (rwTx r) = Some ?md"
    using row_module [OF gr(2)] by (simp add: plane_of_def)
  define k0 where "k0 = (hit_scalars ?type 0 r) \<lparr> khEdep := of_int (trunc_int (rwEdep r * 1000)),
    khTmin := of_int (trunc_int (rwTmin r)), khTmax := of_int (trunc_int (rwTmax r)) \<rparr>"
  have i: "int_scalars r (hit_scalars ?type 0 r) = Some k0"
    using assms(2) to_int32_trunc [of "rwEdep r * 1000"] to_int32_trunc [of "rwTmin r"] to_int32_trunc [of "rwTmax r"]
    by (auto simp: sidis_row_def int_scalars_def k0_def)
  define s1 where "s1 = s \<lparr> rsSector := ?md, rsTrid := rsTrid s @ [rwTrid r] \<rparr>"
  have s1: "length (rsHitTemp s1) = 24" "rsModule s1 = 0" using assms(1) by (simp_all add: sidis_inv_def s1_def)
  obtain ro k where v: "hit_vectors m (rwPlane r - 1) 0 ?md r (k0 \<lparr> khModule := ?md \<rparr>) = Some k"
      "k = (hit_of m ?type 0 ?md r ro) \<lparr> khModule := ?md, khEdep := of_int (trunc_int (rwEdep r * 1000)),
        khTmin := of_int (trunc_int (rwTmin r)), khTmax := of_int (trunc_int (rwTmax r)) \<rparr>"
    using hit_vectors_ok [OF gr(1) c, of 0 r "k0 \<lparr> khModule := ?md \<rparr>"] by (auto simp: hit_of_def plane_of_def k0_def hit_scalars_def)
  obtain h t where st: "store_hit 2 23 (hit_slots k) s1 = Some (s1 \<lparr> rsHitTemp := t, rsHits := rsHits s1 @ [h] \<rparr>)"
      "length t = 24" "record_is 23 (hit_slots k) h"
    using store_hit23 [OF s1(1)] by blast
  have made: "sidis_stored m src r h" using slots_of_record [of 23 k "[]" h] st(3) v(2) by (auto simp: sidis_stored_def)
  define T where "T = set_temp (hit_gen_slots k w) (rsGenTemp s)"
  define s2 where "s2 = s1 \<lparr> rsHitTemp := t, rsHits := rsHits s1 @ [h], rsGenTemp := T \<rparr>"
  have T: "length T = 15" "\<forall>i < 9. T ! i \<noteq> None"
  proof -
    show "length T = 15" using assms(1) by (simp add: T_def sidis_inv_def)
    have some: "map_of (hit_gen_slots k w) i \<noteq> None" if "i < 9" for i
    proof -
      have "i \<in> set (map fst (hit_gen_slots k w))" using that unfolding hit_gen_keys by (auto simp: numeral_eq_Suc less_Suc_eq)
      then show ?thesis by (simp add: map_of_eq_None_iff)
    qed
    have d: "distinct (map fst (hit_gen_slots k w))" unfolding hit_gen_keys by simp
    show "\<forall>i < 9. T ! i \<noteq> None"
    proof (intro allI impI)
      fix i :: nat assume "i < 9"
      then have "map_of (hit_gen_slots k w) i \<noteq> None" "i < length (rsGenTemp s)"
        using some assms(1) by (simp_all add: sidis_inv_def)
      then show "T ! i \<noteq> None" using set_temp_nth [OF d] unfolding T_def by auto
    qed
  qed
  obtain sig where sig: "GetSigPID m 0 = Some sig" using assms(2) by (auto simp: sidis_row_def)
  define s3 where "s3 = (if rsPmax s2 < rwP r \<and> rwPid r = sig then s2 \<lparr> rsPmax := rwP r, rsGenMax := take 9 (rsGenTemp s2) \<rparr> else s2)"
  have s3: "sidis_inv s3" "rsHits s3 = rsHits s @ [h]" "rsGenTemp s3 = T"
    using assms(1) st(2) T by (simp_all add: s3_def s2_def s1_def sidis_inv_def)
  have run: "SBSGEM_hit m src w r s = (if src = 0 \<and> rsGens s3 = [] \<and> ?type = 1 then store_gen 9 s3 else Some s3)"
    using i mp v(1) st(1) s1(2) sig
    by (cases "rsPmax s < rwP r") (simp_all add: SBSGEM_hit_def Let_def s1_def data_size_def GEM_TAG_def s3_def s2_def T_def)
  obtain g where g: "store_gen 9 s3 = Some (s3 \<lparr> rsGens := rsGens s3 @ [g] \<rparr>)" "IsFilled g = Some False"
    using store_gen9_ok [of s3] s3(3) T by auto
  show ?thesis
  proof (cases "src = 0 \<and> rsGens s3 = [] \<and> ?type = 1")
    case True
    then show ?thesis using run g s3 made
      by (intro exI [of _ "s3 \<lparr> rsGens := rsGens s3 @ [g] \<rparr>"] exI [of _ h]) (simp add: sidis_inv_def)
  next
    case False
    then have "SBSGEM_hit m src w r s = Some s3" unfolding run by (rule if_not_P)
    then show ?thesis using s3 made by blast
  qed
qed

interpretation sidis: hit_reader "SBSGEM_hit m src w" sidis_inv "sidis_row m" "\<lambda>_. True" "sidis_stored m src" for m src w
  by unfold_locales (use SBSGEM_ok in simp_all)

text \<open>All hits of a SIDIS event are stored in the frame of module 0, and a generated track cannot be
  used.  For a signal event the rescue may ask for the track of largest momentum when there is none.\<close>

lemma read_SBSGEM_ok:
  assumes "fst (geSBSGEM e) = int (length (snd (geSBSGEM e)))" "\<forall>r \<in> set (snd (geSBSGEM e)). sidis_row m r"
  shows "src \<noteq> 0 \<or> length (snd (geSBSGEM e)) < 3 \<Longrightarrow> read_SBSGEM m src e \<noteq> None"
    "read_SBSGEM m src e = Some (s, cl) \<Longrightarrow> list_all2 (sidis_stored m src) (snd (geSBSGEM e)) (rsHits s)
      \<and> (\<forall>g \<in> set (rsGens s). GetP g = Some unset3 \<and> GetV g = Some unset3 \<and> GetTRID g = Some (- (10 ^ 9)))"
proof -
  let ?rows = "snd (geSBSGEM e)"
  have "sidis_inv rdst0" by (simp add: sidis_inv_def rdst0_def)
  then obtain t where t: "loop_hits (SBSGEM_hit m src (geSolang e * geSigma e)) ?rows 0 (length ?rows) rdst0 = Some t"
      "sidis_inv t" "list_all2 (sidis_stored m src) (filter (\<lambda>_. True) ?rows) (rsHits t)"
    using sidis.loop_all [OF _ assms(2) rdst0_simps(1)] by blast
  have run: "read_SBSGEM m src e = map_option (\<lambda>s. (s, [], [])) (SBSGEM_rescue src t)"
    using t(1) assms(1) by (cases "SBSGEM_rescue src t") (simp_all add: read_SBSGEM_def Let_def)
  have l: "length (rsHits t) = length ?rows" using list_all2_lengthD [OF t(3)] by simp
  show "read_SBSGEM m src e \<noteq> None" if "src \<noteq> 0 \<or> length ?rows < 3"
    using that l by (auto simp: run SBSGEM_rescue_def)
  assume "read_SBSGEM m src e = Some (s, cl)"
  then have r: "SBSGEM_rescue src t = Some s" using run by auto
  have "s = t \<or> store_gen 9 t = Some s \<and> rsHits t \<noteq> []"
    using r by (auto simp: SBSGEM_rescue_def bind_eq_Some_conv split: if_splits)
  then have "rsHits s = rsHits t \<and> (\<forall>g \<in> set (rsGens s). IsFilled g = Some False)"
  proof
    assume a: "store_gen 9 t = Some s \<and> rsHits t \<noteq> []"
    then obtain g where "store_gen 9 t = Some (t \<lparr> rsGens := rsGens t @ [g] \<rparr>)" "IsFilled g = Some False"
      using store_gen9_ok [of t] t(2) by (auto simp: sidis_inv_def)
    then show ?thesis using a t(2) by (auto simp: sidis_inv_def)
  qed (use t(2) in \<open>simp add: sidis_inv_def\<close>)
  then show "list_all2 (sidis_stored m src) ?rows (rsHits s)
      \<and> (\<forall>g \<in> set (rsGens s). GetP g = Some unset3 \<and> GetV g = Some unset3 \<and> GetTRID g = Some (- (10 ^ 9)))"
    using t(3) accessors_unset by auto
qed

section \<open>Errors\<close>

text \<open>A hit of the tracker outside all modules is stored with module -1; packing it converts -1 to
  an unsigned number.\<close>

lemma pack_hit_negative: "GetData 19 h = Some (-1) \<Longrightarrow> pack_hit m h j gd = None"
  using to_uint32_negative [of "-1"]
  by (cases "pack_hit m h j gd") (auto simp: pack_hit_def bind_eq_Some_conv)

lemma pack_hits_negative:
  "h \<in> set hs \<Longrightarrow> GetData 19 h = Some (-1) \<Longrightarrow> GetData 1 h = Some x \<Longrightarrow> 0 < x \<Longrightarrow> pack_hits m hs j gd = None"
proof (induction hs arbitrary: j gd)
  case (Cons h' hs)
  show ?case
  proof (cases "h' = h")
    case True
    then show ?thesis using Cons.prems pack_hit_negative by simp
  next
    case False
    then have ih: "pack_hits m hs j gd = None" for j gd using Cons by simp
    show ?thesis by (cases "GetData 1 h'"; cases "pack_hit m h' j gd") (simp_all add: ih)
  qed
qed simp

lemma tracker_hit_outside:
  assumes "hits_as 3 m src e (gfHits f)" "r \<in> set (snd (geFT e))" "module_of m r = -1" "0 < rwEdep r"
  shows "GetGEMData m f = None"
proof -
  have k: "kept 3 m = (\<lambda>_. True)" by (simp add: kept_def fun_eq_iff)
  obtain h where h: "h \<in> set (gfHits f)" "stored m (hit_type 3 src e r) (module_of m r) (size_module 3 m r) r h"
    using assms(1,2) by (fastforce simp: hits_as_def k det_bank_def list_all2_conv_all_nth in_set_conv_nth)
  then have "GetData 19 h = Some (-1)" "GetData 1 h = Some (rwEdep r * 1000)"
    using assms(3) by (auto simp: stored_def slots_of_def hit_of_simps)
  then have "pack_hits m (gfHits f) 0 gd = None" for gd using pack_hits_negative [OF h(1)] assms(4) by simp
  moreover have "gfHits f \<noteq> []" using h(1) by auto
  ultimately show ?thesis by (cases "gfEvNum f") (simp_all add: GetGEMData_def GetGEMData_into_def Let_def)
qed

text \<open>The second polarimeter needs a track of the first.\<close>

lemma second_polarimeter_alone:
  assumes "snd (geFPP2Track e) = [t]" "0 < fst (geFPP2Track e)" "gtPID t = 2212" "snd (geFPP1Track e) = []"
  shows "read_FPP2 R m 0 e = None"
proof -
  have "FPP2_gen 0 (geSolang e * geSigma e) e rdst0 = None"
    using assms by (simp add: FPP2_gen_def rdst0_simps rd_def del: rd_Some)
  then show ?thesis by (simp add: read_FPP2_def Let_def)
qed

text \<open>No detector type is refused.\<close>

lemma Open_any_type:
  assumes "gfName f \<noteq> []" "disk (gfName f) = TreeT es" "gfManager f" "Getg4sbsDetectorType m = Some ty"
  shows "\<exists>g. g4_Open disk m f = Some (1, g) \<and> reading g es 0"
  using assms by (simp add: g4_Open_def reading_def g4sbs_tree_def Let_def)

text \<open>Reading after Close uses the null pointer.\<close>

lemma read_after_Close: "g4_Close f = Some (1, g) \<Longrightarrow> ReadNextEvent R m g = None"
  by (auto simp: g4_Close_def ReadNextEvent_def bind_eq_Some_conv split: if_splits)

section \<open>The properties\<close>

text \<open>C6. Reading one event of the BigBite trackers, the forward tracker or the polarimeters (detector types
  1, 3, 4 and 5; the SIDIS tracker, type 2, is excluded).  On an open file whose next entry, number k below
  2 to the 32, is a sound event of that detector, ReadNextEvent succeeds and GetGEMData then delivers event
  k: one hit per row of the tree with positive energy (BigBite skips the rows outside all modules), in
  order, with entrance and exit point in the frame of its module, a momentum of the magnitude and slopes
  of the row, the energy in eV and the chamber number of plane and module.  The exit point is limited to
  half the size of the hit's module for BigBite, but for the other detectors to half the size of module 0
  of its plane, as the source passes sector, which is 0 there: for them the exit of a hit in another
  module may lie outside that module, or be cut although it lies inside.  The generated track is stored
  exactly if there is a signal track, complete with the kinematics at the target and the weight.  The
  next call reads entry k + 1.  Sound (read\_good, rows\_fit) means: the database has the geometry, offsets and
  calorimeter values the reader asks for, the lists of a bank are as long as its counter says, and the
  numbers of the rows with energy fit their unsigned fields, so that those hits lie in a module.\<close>

theorem event_read_and_packed:
  assumes "reading f es k" "k < length es" "k < 4294967296" "read_good m (gfSource f) (es ! k)" "rows_fit m (gfSource f) (snd (es ! k))"
  shows "\<exists>g gd. ReadNextEvent R m f = Some (1, g) \<and> reading g es (k + 1) \<and> gfSource g = gfSource f
    \<and> gens_as (det_type m) (gfSource f) (snd (es ! k)) (gfGens g)
    \<and> GetGEMData m g = Some gd \<and> shEvtID gd = k \<and> event_packed m (gfSource f) (snd (es ! k)) gd"
  using read_and_pack [OF assms] .

text \<open>C13. The reading loop ends.  After Open and SetFirstEvNum(n) the loop "while ReadNextEvent, take
  GetGEMData" over a file of fewer than 2 to the 32 sound entries terminates and has delivered exactly the
  entries n, n + 1, up to the last, each once, in order and correctly packed; the first entry is reached
  although SetFirstEvNum(0) wraps around to the largest unsigned number.\<close>

theorem reading_loop_ends:
  assumes "TSBSGeant4File name = Some f0" "name \<noteq> []" "disk name = TreeT es" "length es < 4294967296" "n \<le> length es"
    "\<forall>be \<in> set es. read_good m src be \<and> rows_fit m src (snd be)" "Getg4sbsDetectorType m = Some ty"
  shows "\<exists>f gds. g4_Open disk m (g4_SetSource src f0) = Some (1, f) \<and> read_all R m (SetFirstEvNum (of_nat n) f) [] = Some gds
    \<and> map shEvtID gds = [n..<length es] \<and> list_all2 (\<lambda>be. event_packed m src (snd be)) (drop n es) gds"
proof -
  have f0: "gfName f0 = name" "gfManager f0"
    using assms(1) by (auto simp: TSBSGeant4File_def g4_SetFilename_def split: if_splits)
  let ?f = "g4_SetSource src f0"
  have f: "gfName ?f \<noteq> []" "disk (gfName ?f) = TreeT es" "gfManager ?f" using f0 assms(2,3) by (simp_all add: g4_SetSource_def)
  obtain g where g: "g4_Open disk m ?f = Some (1, g)" "reading g es 0"
    using Open_any_type [where disk = disk, OF f assms(7)] by blast
  have "gfSource g = src" using g(1) f assms(7) by (auto simp: g4_Open_def g4_SetSource_def g4sbs_tree_def Let_def split: if_splits)
  then have "reading (SetFirstEvNum (of_nat n) g) es n" "gfSource (SetFirstEvNum (of_nat n) g) = src"
    using g(2) by (simp_all add: reading_def SetFirstEvNum_def)
  then obtain gds where "read_all R m (SetFirstEvNum (of_nat n) g) [] = Some ([] @ gds)" "map shEvtID gds = [n..<length es]"
      "list_all2 (\<lambda>be. event_packed m src (snd be)) (drop n es) gds"
    using read_all_from [OF assms(4,6) _ assms(5), where gds = "[]"] by blast
  then show ?thesis using g(1) by simp
qed

section \<open>An example\<close>

text \<open>A BigBite file of two events with a hit that leaves its module and a primary track.\<close>

definition dbmG :: dbm where
  "dbmG = dbmB \<lparr> dbVars := [''g4sbs_detectortype'' \<mapsto> DInt 1, ''g4sbs_z_specoffset'' \<mapsto> DDouble 0,
     ''docalo'' \<mapsto> DInt 0, ''calo_thr'' \<mapsto> DDouble 0] \<rparr>"

definition rowG :: g4row where
  "rowG = \<lparr> rwPlane = 1, rwTrid = 1, rwMid = 0, rwPid = 11, rwEdep = 1 / 1000000, rwTmin = 0, rwTmax = 2, rwTx = 1,
     rwTxp = 0, rwTyp = 0, rwIn = Vec 1 0 0, rwOut = Vec 2 0 0, rwVtx = 0, rwP = 1 \<rparr>"

definition trackG :: g4track where
  "trackG = \<lparr> gtTID = 1, gtPID = 11, gtMID = 0, gtX = 0, gtY = 0, gtXp = 0, gtYp = 0, gtP = 1 \<rparr>"

definition eventG :: g4event where
  "eventG = \<lparr> geSolang = 1, geSigma = 1, geV = 0, geEp = 0, geNp = 0, geBBGEM = (1, [rowG]), geBBTrack = (1, [trackG]),
     geSBSGEM = (0, []), geFT = (0, []), geFTTrack = (0, []), geFPP1 = (0, []), geFPP1Track = (0, []),
     geFPP2 = (0, []), geFPP2Track = (0, []), gePS = [], geSH = [], geECal = [], geCDet = [], geHCal = [] \<rparr>"

definition fileG :: g4file where
  "fileG = \<lparr> gfName = ''a'', gfFile = Some True, gfTree = Some ([(100, eventG), (100, eventG)], None), gfSource = 0,
     gfEvNum = Some (of_nat 1 - 1), gfManager = True, gfHits = [], gfGens = [], gfECal = [], gfScint = [] \<rparr>"

lemma dbmG_type: "Getg4sbsDetectorType dbmG = Some 1" "det_type dbmG = 1"
  by (simp_all add: Getg4sbsDetectorType_def det_type_def dbmG_def var_int_def)

lemma reader_dbG: "reader_db dbmG"
proof -
  have g: "geos dbmG i = (if i = 0 then [geoB (-1), geoB 1] else [])" for i
    by (simp add: geos_def dbmG_def dbmB_def)
  have "geometry_ok dbmG" unfolding geometry_ok_def g by (auto simp: dbmG_def dbmB_def)
  moreover have "Getg4sbsZSpecOffset dbmG = Some 0" by (simp add: Getg4sbsZSpecOffset_def dbmG_def var_double_def)
  ultimately show ?thesis by (simp add: reader_db_def g geoB_def)
qed

lemma rowG_module: "row_ok dbmG rowG" "module_of dbmG rowG = 1"
proof -
  show "row_ok dbmG rowG" by (simp add: row_ok_def plane_of_def rowG_def CheckIndex_True dbmG_def dbmB_def)
  have "geos dbmG (plane_of rowG) = [geoB (-1), geoB 1]" by (simp add: geos_def plane_of_def rowG_def dbmG_def dbmB_def)
  then show "module_of dbmG rowG = 1" by (simp add: module_of_def rowG_def geoB_def)
qed

lemma goodG: "read_good dbmG 0 (100, eventG)" "rows_fit dbmG 0 eventG"
proof -
  have "calo_ok dbmG" by (simp add: calo_ok_def DoCalo_def GetCaloThreshold_def dbmG_def var_int_def var_double_def)
  then have "event_good 1 dbmG 0 eventG"
    using reader_dbG rowG_module(1)
    by (simp add: event_good_def det_bank_def det_tracks_def eventG_def bank_ok_def tracks_ok_def track_ok_def trackG_def)
  then show "read_good dbmG 0 (100, eventG)" by (simp add: read_good_def dbmG_type)
  show "rows_fit dbmG 0 eventG"
    using rowG_module(2)
    by (simp add: rows_fit_def det_rows_def dbmG_type det_bank_def eventG_def row_fits_def hit_type_def plane_of_def)
      (simp add: rowG_def)
qed

theorem event_read_and_packed_witness:
  "\<forall>R. \<exists>g gd. ReadNextEvent R dbmG fileG = Some (1, g) \<and> GetGEMData dbmG g = Some gd \<and> shEvtID gd = 1
    \<and> length (shHits gd) = 1 \<and> vx (hdXo (shHits gd ! 0)) = 250 \<and> length (gfGens g) = 1"
proof
  fix R
  have f: "reading fileG [(100, eventG), (100, eventG)] 1" "gfSource fileG = 0" by (simp_all add: reading_def fileG_def)
  obtain g gd where g: "ReadNextEvent R dbmG fileG = Some (1, g)" "GetGEMData dbmG g = Some gd" "shEvtID gd = 1"
      "gens_as 1 0 eventG (gfGens g)" "event_packed dbmG 0 eventG gd"
    using event_read_and_packed [OF f(1), of dbmG R] goodG by (auto simp: f(2) dbmG_type)
  have "list_all2 (row_packed 1 dbmG 0 eventG) [rowG] (shHits gd)"
    using g(5) rowG_module(2)
    by (simp add: event_packed_def det_rows_def dbmG_type det_bank_def eventG_def kept_def) (simp add: rowG_def)
  then obtain d where d: "shHits gd = [d]" "row_packed 1 dbmG 0 eventG rowG d" by (auto simp: list_all2_Cons1)
  have "hdXo d = clip_vec dbmG 0 1 (frame_of dbmG 0 1 (Vec 2 0 0))"
    using d(2) rowG_module(2) by (simp add: row_packed_def size_module_def plane_of_def) (simp add: rowG_def)
  moreover have "GetXOffset dbmG 0 1 = Some 1" "GetDX dbmG 0 1 = Some (1/2)"
    by (simp_all add: GetXOffset_def GetDX_def geo_query_def CheckIndex_def geo_at_def geos_def dbmG_def dbmB_def geoB_def rdi_def rd_def
        del: rd_Some rdi_Some)
  ultimately have "vx (hdXo d) = 250" by (simp add: clip_vec_def frame_of_def clip_def)
  moreover have "length (gfGens g) = 1" using g(4)
    by (auto simp: gens_as_def signal_track_def det_tracks_def eventG_def trackG_def)
  ultimately show "\<exists>g gd. ReadNextEvent R dbmG fileG = Some (1, g) \<and> GetGEMData dbmG g = Some gd \<and> shEvtID gd = 1
    \<and> length (shHits gd) = 1 \<and> vx (hdXo (shHits gd ! 0)) = 250 \<and> length (gfGens g) = 1"
    using g(1-3) d(1) by auto
qed

definition entriesG :: "(int \<times> g4event) list" where
  "entriesG = [(100, eventG), (100, eventG)]"

theorem reading_loop_ends_witness:
  "\<forall>R. \<exists>f0 f gds. TSBSGeant4File ''a'' = Some f0
    \<and> g4_Open (\<lambda>_. TreeT entriesG) dbmG (g4_SetSource 0 f0) = Some (1, f)
    \<and> read_all R dbmG (SetFirstEvNum (of_nat 0) f) [] = Some gds \<and> map shEvtID gds = [0, 1]"
proof
  fix R
  obtain f0 where f0: "TSBSGeant4File ''a'' = Some f0" by (simp add: TSBSGeant4File_def g4_SetFilename_def)
  have "\<exists>f gds. g4_Open (\<lambda>_. TreeT entriesG) dbmG (g4_SetSource 0 f0) = Some (1, f)
    \<and> read_all R dbmG (SetFirstEvNum (of_nat 0) f) [] = Some gds \<and> map shEvtID gds = [0..<length entriesG]
    \<and> list_all2 (\<lambda>be. event_packed dbmG 0 (snd be)) (drop 0 entriesG) gds"
    by (rule reading_loop_ends [OF f0 _ _ _ _ _ dbmG_type(1)]) (use goodG in \<open>auto simp: entriesG_def\<close>)
  then show "\<exists>f0 f gds. TSBSGeant4File ''a'' = Some f0
    \<and> g4_Open (\<lambda>_. TreeT entriesG) dbmG (g4_SetSource 0 f0) = Some (1, f)
    \<and> read_all R dbmG (SetFirstEvNum (of_nat 0) f) [] = Some gds \<and> map shEvtID gds = [0, 1]"
    using f0 by (auto simp: entriesG_def)
qed

end
