(* ===== verification/Pass.thy ===== *)
theory Pass
  imports Geant4Reader Digitization
begin

text \<open>
  The program that digitizes simulated events, src/example/DigitizationPass.C: it loads the data
  bases, builds the spectrometer chamber by chamber, reads the signal files event by event, digitizes
  each event that has hits and a generated track, adds the events of some background files, and writes
  the event to the output tree.

  A record passenv holds what stays fixed during the run.  ROOT files are looked up by name in peDisk.
  The print option only writes to the terminal and is left out.
\<close>

section \<open>Setting up\<close>

text \<open>The choices by the spectrometer flag: general file, geometry, tag of the output file, prefixes of
  the signal and the background files.\<close>

record passcfg =
  pcGeneral :: string
  pcGeo :: string
  pcTag :: string
  pcSig :: string
  pcBkgd :: string

definition pass_config :: "int \<Rightarrow> bool \<Rightarrow> passcfg option" where
  "pass_config fspec mips =
     (if fspec = 1 then Some \<lparr> pcGeneral = ''db_generalinfo_bbgem.dat'', pcGeo = ''g4sbs_bbgem'', pcTag = ''bbgem'',
        pcSig = (if mips then ''/volatile/halla/sbs/efuchey/misc/gmn13.5_BBgemMIP_20171018_14''
                 else ''/work/halla/sbs/efuchey/gmn13.5_elastic_sig_20180709_22''),
        pcBkgd = ''/volatile/halla/sbs/efuchey/gmn13.5_beam_bkgd_20180718_22'' \<rparr>
      else if fspec = 3 then Some \<lparr> pcGeneral = ''db_generalinfo_ft.dat'', pcGeo = ''g4sbs_ft'', pcTag = ''ft'',
        pcSig = (if mips then ''/volatile/halla/sbs/efuchey/gep12_FTFPP_MIP_20170828_10''
                 else ''/volatile/halla/sbs/efuchey/gep12_elastic_sig_20180920_21''),
        pcBkgd = ''/work/halla/sbs/efuchey/gep12_beam_bkgd_20181001_12'' \<rparr>
      else if fspec = 4 then Some \<lparr> pcGeneral = ''db_generalinfo_fpp.dat'', pcGeo = ''g4sbs_fpp'', pcTag = ''fpp'',
        pcSig = (if mips then ''/volatile/halla/sbs/efuchey/gep12_FTFPP_MIP_20170828_10''
                 else ''/volatile/halla/sbs/efuchey/gep12_elastic_sig_20180920_21''),
        pcBkgd = ''/work/halla/sbs/efuchey/gep12_beam_bkgd_20181001_12'' \<rparr>
      else None)"

definition outname :: "passcfg \<Rightarrow> int \<Rightarrow> string" where
  "outname c nbacktoadd = ''rootfiles/digitized_'' @ pcTag c @ ''_'' @ (if nbacktoadd = 0 then ''nobkgd'' else ''bkgd'') @ ''.root''"

text \<open>The chambers: Init of the framework calls ReadDatabase of the chamber; init gives its result for a
  plane and a module, an error status ends the program.\<close>

definition new_chamber :: "(mat3 \<Rightarrow> mat3) \<Rightarrow> chamber" where
  "new_chamber minv = \<lparr> chOrigin = 0, chSize = 0, chBox = TSBSBox minv 1 1 0 1 1 0, chPlanes = [] \<rparr>"

record chamberdb =
  cdInv :: "mat3 \<Rightarrow> mat3"
  cdBase :: "int \<Rightarrow> int \<Rightarrow> int"
  cdFile :: "int \<Rightarrow> int \<Rightarrow> database option"
  cdPlanes :: "int \<Rightarrow> int \<Rightarrow> string \<Rightarrow> database option"

definition init_chamber :: "chamberdb \<Rightarrow> int \<Rightarrow> int \<Rightarrow> (status + chamber) option" where
  "init_chamber C i_plane i_module =
     ReadDatabaseC (cdInv C) (cdBase C i_plane i_module) (cdFile C i_plane i_module) (cdPlanes C i_plane i_module)
       (new_chamber (cdInv C))"

fun add_modules :: "chamberdb \<Rightarrow> int \<Rightarrow> int \<Rightarrow> nat \<Rightarrow> spec \<Rightarrow> (status + spec) option" where
  "add_modules C i_plane i_module 0 spect = Some (Inr spect)"
| "add_modules C i_plane i_module (Suc n) spect = (case init_chamber C i_plane i_module of None \<Rightarrow> None
   | Some (Inl err) \<Rightarrow> Some (Inl err)
   | Some (Inr ch) \<Rightarrow> add_modules C i_plane (i_module + 1) n (snd (AddGEM ch spect)))"

fun add_planes :: "chamberdb \<Rightarrow> dbm \<Rightarrow> int \<Rightarrow> nat \<Rightarrow> spec \<Rightarrow> (status + spec) option" where
  "add_planes C m i_plane 0 spect = Some (Inr spect)"
| "add_planes C m i_plane (Suc n) spect = (case GetNModule m i_plane of None \<Rightarrow> None
   | Some nmodule \<Rightarrow> (case add_modules C i_plane 0 (nat nmodule) spect of None \<Rightarrow> None
     | Some (Inl err) \<Rightarrow> Some (Inl err)
     | Some (Inr spect) \<Rightarrow> add_planes C m (i_plane + 1) n spect))"

section \<open>The state of the loops\<close>

record passenv =
  peR :: rng
  peQ :: calrng
  peG :: gempar
  peM :: dbm
  peSpec :: spec
  peDisk :: "string \<Rightarrow> g4disk"
  peSig :: string
  peBkgd :: string
  peMips :: bool
  peNmax :: int
  peNback :: int

text \<open>psGb: whether gb points to an object that is not deleted yet; it starts uninitialized.\<close>

record pass =
  psEvent :: int
  psGood :: int
  psHadback :: int
  psBgFile :: int
  psGb :: bool
  psDigi :: digi

definition pass0 :: "digi \<Rightarrow> pass" where
  "pass0 d = \<lparr> psEvent = 0, psGood = 0, psHadback = 1, psBgFile = 0, psGb = False, psDigi = d \<rparr>"

text \<open>Form of an int.\<close>

definition show_int :: "int \<Rightarrow> string" where
  "show_int n = (if n < 0 then ''-'' @ digits_of (nat (- n)) else digits_of (nat n))"

definition sig_file :: "passenv \<Rightarrow> nat \<Rightarrow> string" where
  "sig_file E i = peSig E @ (if peMips E then ''/gun_'' else ''/elastic_'') @ show_int (int i) @ ''.root''"

definition bg_file :: "passenv \<Rightarrow> int \<Rightarrow> string" where
  "bg_file E n = peBkgd E @ ''/beam_bkgd_'' @ show_int n @ ''.root''"

section \<open>Background\<close>

text \<open>One background event: hadback, gb and the digitizer change.\<close>

definition add_bg_event :: "passenv \<Rightarrow> g4file \<Rightarrow> pass \<Rightarrow> (g4file \<times> pass) option" where
  "add_bg_event E f s = do {
     (had, f) \<leftarrow> ReadNextEvent (peQ E) (peM E) f;
     gb \<leftarrow> GetGEMData (peM E) f;
     (r, d) \<leftarrow> AdditiveDigitize (peR E) (peG E) (peM E) gb (peSpec E) (psDigi s);
     Some (f, s \<lparr> psHadback := had, psGb := True, psDigi := d \<rparr>) }"

text \<open>The loop up to GetEntries, which stays the same while the file is read.\<close>

fun add_bg_events :: "passenv \<Rightarrow> nat \<Rightarrow> g4file \<Rightarrow> pass \<Rightarrow> (g4file \<times> pass) option" where
  "add_bg_events E 0 f s = Some (f, s)"
| "add_bg_events E (Suc n) f s = do { (f, s) \<leftarrow> add_bg_event E f s; add_bg_events E n f s }"

definition open_bg :: "passenv \<Rightarrow> int \<Rightarrow> (int \<times> g4file) option" where
  "open_bg E Nfile = do { f \<leftarrow> TSBSGeant4File (bg_file E Nfile); g4_Open (peDisk E) (peM E) f }"

definition add_bg_file :: "passenv \<Rightarrow> g4file \<Rightarrow> pass \<Rightarrow> pass option" where
  "add_bg_file E f s = do {
     let f = g4_SetSource 1 f;
     n \<leftarrow> g4_GetEntries f;
     (f, s) \<leftarrow> add_bg_events E n f s;
     (r, f) \<leftarrow> g4_Close f;
     Some s }"

text \<open>The variables that control the loop: Nfile, N\_bg\_file\_g and N\_bg\_file\_g\_post, before and after a
  turn in which file number Nfile was opened or was missing.\<close>

definition bg_step :: "int \<Rightarrow> bool \<Rightarrow> int \<times> int \<times> int \<Rightarrow> int \<times> int \<times> int" where
  "bg_step nbacktoadd opened c = (case c of (Nfile, N, post) \<Rightarrow>
     if opened then (Nfile + 1, N, post)
     else (let post = post + 1; N = N + 1 in
       if 1000 \<le> N then (let n_temp = Nfile; Nfile = post - n_temp; post = nbacktoadd; N = 0 in (Nfile + 1, N, post))
       else (Nfile + 1, N, post)))"

text \<open>The loop over the background files; its result is the new N\_bg\_file\_g.  None if it does not end.\<close>

partial_function (option) bg_files :: "passenv \<Rightarrow> int \<times> int \<times> int \<Rightarrow> pass \<Rightarrow> (int \<times> pass) option" where
  "bg_files E c s = (if \<not> fst c < snd (snd c) then Some (snd (snd c), s)
     else Option.bind (open_bg E (fst c)) (\<lambda>p.
       if fst p = 0 then bg_files E (bg_step (peNback E) False c) s
       else Option.bind (add_bg_file E (snd p) s) (\<lambda>s. bg_files E (bg_step (peNback E) True c) s)))"

definition add_background :: "passenv \<Rightarrow> pass \<Rightarrow> pass option" where
  "add_background E s =
     (if peNback E = 0 then Some s
      else do {
        let N_bg_file_g = psBgFile s;
        let N_bg_file_g_post = N_bg_file_g + peNback E;
        (N, s) \<leftarrow> bg_files E (N_bg_file_g, N_bg_file_g, N_bg_file_g_post) s;
        Some (s \<lparr> psBgFile := N \<rparr>) })"

section \<open>Events\<close>

text \<open>What the digitizer takes from the reader: the tracks and the clusters.\<close>

definition file_input :: "g4file \<Rightarrow> ginput" where
  "file_input f = \<lparr> giGen = gfGens f, giECal = map Some (gfECal f), giScint = map Some (gfScint f) \<rparr>"

text \<open>The end of the body: deleting gb where there is nothing to delete is undefined.\<close>

definition delete_gb :: "passenv \<Rightarrow> pass \<Rightarrow> pass option" where
  "delete_gb E s = (if peNback E = 0 then Some s else if psGb s then Some (s \<lparr> psGb := False \<rparr>) else None)"

definition next_event :: "pass \<Rightarrow> pass" where
  "next_event s = s \<lparr> psEvent := psEvent s + 1 \<rparr>"

text \<open>The body of the loop, after ReadNextEvent.\<close>

definition pass_event :: "passenv \<Rightarrow> g4file \<Rightarrow> pass \<Rightarrow> pass option" where
  "pass_event E f s =
     (if gfHits f = [] then Some (next_event s)
      else do {
        gd \<leftarrow> GetGEMData (peM E) f;
        if gfGens f = [] then Some (next_event s)
        else do {
          let s = s \<lparr> psGood := psGood s + 1 \<rparr>;
          (inp, d) \<leftarrow> SetTreeEvent (peR E) (peG E) gd (file_input f) (psEvent s) (psDigi s);
          (r, d) \<leftarrow> Digitize (peR E) (peG E) (peM E) gd (peSpec E) d;
          s \<leftarrow> add_background E (s \<lparr> psDigi := d \<rparr>);
          let s = (if 1000 \<le> psBgFile s then s \<lparr> psBgFile := 0 \<rparr> else s);
          d \<leftarrow> FillTree (peR E) (peG E) (peM E) (psDigi s);
          s \<leftarrow> delete_gb E (s \<lparr> psDigi := d \<rparr>);
          Some (next_event s) } })"

text \<open>nevent is compared with an unsigned number.\<close>

partial_function (option) pass_events :: "passenv \<Rightarrow> g4file \<Rightarrow> pass \<Rightarrow> (g4file \<times> pass) option" where
  "pass_events E f s = Option.bind (ReadNextEvent (peQ E) (peM E) f) (\<lambda>p.
     if fst p \<noteq> 0 \<and> psHadback s \<noteq> 0 \<and> psEvent s mod 4294967296 < peNmax E
     then Option.bind (pass_event E (snd p) s) (\<lambda>s. pass_events E (snd p) s)
     else Some (snd p, s))"

text \<open>A signal file that cannot be opened is passed over.\<close>

definition pass_file :: "passenv \<Rightarrow> nat \<Rightarrow> pass \<Rightarrow> pass option" where
  "pass_file E i_sig s = do {
     f \<leftarrow> TSBSGeant4File (sig_file E i_sig);
     let f = g4_SetSource 0 f;
     (res, f) \<leftarrow> g4_Open (peDisk E) (peM E) f;
     if res \<noteq> 1 then Some s
     else do { (f, s) \<leftarrow> pass_events E f s; (r, f) \<leftarrow> g4_Close f; Some s } }"

fun pass_files :: "passenv \<Rightarrow> nat \<Rightarrow> nat \<Rightarrow> pass \<Rightarrow> pass option" where
  "pass_files E i_sig 0 s = Some s"
| "pass_files E i_sig (Suc n) s = do { s \<leftarrow> pass_file E i_sig s; pass_files E (i_sig + 1) n s }"

section \<open>The program\<close>

text \<open>The end of a run: an unknown spectrometer, a chamber that cannot be set up, or the state after the
  last event with the name of the output file.  ratedig is the database of the digitizer, g0 the
  parameters before it is read, created tells whether the output file could be made.\<close>

datatype outcome = NoGeometry | NoChamber status | Done string pass

record sysenv =
  seGetenv :: "string \<Rightarrow> string option"
  seContents :: "string \<Rightarrow> string option"
  seReadLine :: "stream \<Rightarrow> stream"
  seManager :: dbm
  seChambers :: chamberdb
  seRatedig :: "(int \<times> gempar \<times> real list) option"
  sePar0 :: gempar
  seCreated :: bool
  seRng :: rng
  seCalRng :: calrng
  seDisk :: "string \<Rightarrow> g4disk"

definition run_of :: "'a option \<Rightarrow> 'a run" where
  "run_of r = (case r of None \<Rightarrow> Undefined | Some x \<Rightarrow> Ok x)"

definition load_setup :: "sysenv \<Rightarrow> passcfg \<Rightarrow> (dbm \<times> (status + spec)) run" where
  "load_setup S c =
     run_bind (LoadGeneralInfo (seGetenv S) (seContents S) (seReadLine S) (pcGeneral c) (seManager S)) (\<lambda>m.
     run_bind (LoadGeoInfo (seGetenv S) (seContents S) (pcGeo c) m) (\<lambda>m.
     run_bind (run_of (add_planes (seChambers S) m 0 (nat (dbNGEMPlane m)) \<lparr> fChambers = [] \<rparr>)) (\<lambda>r. Ok (m, r))))"

definition new_digitizer :: "sysenv \<Rightarrow> dbm \<Rightarrow> spec \<Rightarrow> (gempar \<times> digi) option" where
  "new_digitizer S m spect = do {
     (st, g) \<leftarrow> ReadDatabaseD (dbNChamber m) (seRatedig S) (sePar0 S);
     (g, d) \<leftarrow> TSBSSimGEMDigitization (dbNChamber m) g spect;
     Some (g, InitTree (seCreated S) d) }"

definition DigitizationPass :: "sysenv \<Rightarrow> int \<Rightarrow> nat \<Rightarrow> int \<Rightarrow> int \<Rightarrow> bool \<Rightarrow> outcome run" where
  "DigitizationPass S fspec NsigFiles Nmax nbacktoadd mips = (case pass_config fspec mips of None \<Rightarrow> Ok NoGeometry
     | Some c \<Rightarrow> run_bind (load_setup S c) (\<lambda>(m, r). case r of Inl err \<Rightarrow> Ok (NoChamber err)
       | Inr spect \<Rightarrow> run_of (do {
           (g, d) \<leftarrow> new_digitizer S m spect;
           let E = \<lparr> peR = seRng S, peQ = seCalRng S, peG = g, peM = m, peSpec = spect, peDisk = seDisk S,
             peSig = pcSig c, peBkgd = pcBkgd c, peMips = mips, peNmax = Nmax, peNback = nbacktoadd \<rparr>;
           s \<leftarrow> pass_files E 0 NsigFiles (pass0 d);
           Some (Done (outname c nbacktoadd) s) })))"


section \<open>Which background files are used\<close>

definition present :: "passenv \<Rightarrow> int \<Rightarrow> bool" where
  "present E n \<longleftrightarrow> (case open_bg E n of None \<Rightarrow> False | Some (r, f) \<Rightarrow> r \<noteq> 0)"

fun add_bg_list :: "passenv \<Rightarrow> int list \<Rightarrow> pass \<Rightarrow> pass option" where
  "add_bg_list E [] s = Some s"
| "add_bg_list E (n # ns) s = do { (r, f) \<leftarrow> open_bg E n; s \<leftarrow> add_bg_file E f s; add_bg_list E ns s }"

text \<open>The files ns used from number Nfile on, when h have been used already, and the next N\_bg\_file\_g:
  the files that exist among k successive numbers, up to the last one needed, or as many as there are
  before N\_bg\_file\_g, which counts the missing ones, reaches 1000.\<close>

definition bg_used :: "passenv \<Rightarrow> int \<Rightarrow> int \<Rightarrow> int \<Rightarrow> int list \<Rightarrow> int \<Rightarrow> bool" where
  "bg_used E h Nfile N ns N' \<longleftrightarrow> (\<exists>k. 0 \<le> k \<and> ns = filter (present E) [Nfile..Nfile + k - 1]
     \<and> (if h + int (length ns) = peNback E
        then N' = Nfile + k \<and> N + k - int (length ns) < 1000 \<and> (if ns = [] then k = 0 else last ns = Nfile + k - 1)
        else h + int (length ns) < peNback E \<and> N + k - int (length ns) = 1000 \<and> N' = peNback E))"

lemma upto_next: "0 \<le> (k :: int) \<Longrightarrow> [a..a + (k + 1) - 1] = a # [a + 1..a + 1 + k - 1]"
  by (simp add: upto_rec1)

lemma bg_used_found:
  assumes "bg_used E (h + 1) (Nfile + 1) N ns N'" "present E Nfile"
  shows "bg_used E h Nfile N (Nfile # ns) N'"
proof -
  obtain k where k: "0 \<le> k" "ns = filter (present E) [Nfile + 1..Nfile + 1 + k - 1]"
    "if h + 1 + int (length ns) = peNback E
     then N' = Nfile + 1 + k \<and> N + k - int (length ns) < 1000 \<and> (if ns = [] then k = 0 else last ns = Nfile + 1 + k - 1)
     else h + 1 + int (length ns) < peNback E \<and> N + k - int (length ns) = 1000 \<and> N' = peNback E"
    using assms(1) unfolding bg_used_def by blast
  have "Nfile # ns = filter (present E) [Nfile..Nfile + (k + 1) - 1]"
    unfolding upto_next [OF k(1)] using assms(2) k(2) by simp
  moreover have "if h + int (length (Nfile # ns)) = peNback E
     then N' = Nfile + (k + 1) \<and> N + (k + 1) - int (length (Nfile # ns)) < 1000
       \<and> (if Nfile # ns = [] then k + 1 = 0 else last (Nfile # ns) = Nfile + (k + 1) - 1)
     else h + int (length (Nfile # ns)) < peNback E \<and> N + (k + 1) - int (length (Nfile # ns)) = 1000 \<and> N' = peNback E"
    using k(3) by (cases "ns = []") (simp_all add: algebra_simps split: if_splits)
  moreover have "0 \<le> k + 1" using k(1) by simp
  ultimately show ?thesis unfolding bg_used_def by blast
qed

lemma bg_used_missing:
  assumes "bg_used E h (Nfile + 1) (N + 1) ns N'" "\<not> present E Nfile" "h < peNback E"
  shows "bg_used E h Nfile N ns N'"
proof -
  obtain k where k: "0 \<le> k" "ns = filter (present E) [Nfile + 1..Nfile + 1 + k - 1]"
    "if h + int (length ns) = peNback E
     then N' = Nfile + 1 + k \<and> N + 1 + k - int (length ns) < 1000 \<and> (if ns = [] then k = 0 else last ns = Nfile + 1 + k - 1)
     else h + int (length ns) < peNback E \<and> N + 1 + k - int (length ns) = 1000 \<and> N' = peNback E"
    using assms(1) unfolding bg_used_def by blast
  have "ns = filter (present E) [Nfile..Nfile + (k + 1) - 1]"
    unfolding upto_next [OF k(1)] using assms(2) k(2) by simp
  moreover have "if h + int (length ns) = peNback E
     then N' = Nfile + (k + 1) \<and> N + (k + 1) - int (length ns) < 1000 \<and> (if ns = [] then k + 1 = 0 else last ns = Nfile + (k + 1) - 1)
     else h + int (length ns) < peNback E \<and> N + (k + 1) - int (length ns) = 1000 \<and> N' = peNback E"
    using k(3) assms(3) by (cases "ns = []") (simp_all add: algebra_simps split: if_splits)
  moreover have "0 \<le> k + 1" using k(1) by simp
  ultimately show ?thesis unfolding bg_used_def by blast
qed

lemma bg_used_reset:
  "\<not> present E Nfile \<Longrightarrow> h < peNback E \<Longrightarrow> N + 1 = 1000 \<Longrightarrow> bg_used E h Nfile N [] (peNback E)"
  unfolding bg_used_def by (intro exI [of _ 1]) simp

text \<open>With at most three files per event the search ends: after the count is reset no number is left.\<close>

lemma bg_files_ok:
  assumes "peNback E \<le> 3" "\<forall>n. 0 \<le> n \<and> n < 1003 \<longrightarrow> open_bg E n \<noteq> None"
  shows "0 \<le> N \<Longrightarrow> N < 1000 \<Longrightarrow> 0 \<le> h \<Longrightarrow> h \<le> peNback E \<Longrightarrow>
    \<exists>ns N'. bg_used E h (N + h) N ns N'
      \<and> (\<forall>s. bg_files E (N + h, N, N + peNback E) s = Option.bind (add_bg_list E ns s) (\<lambda>s. Some (N', s)))"
proof (induction "nat (1000 - N) + nat (peNback E - h)" arbitrary: N h rule: less_induct)
  case less
  let ?c = "(N + h, N, N + peNback E)"
  show ?case
  proof (cases "h < peNback E")
    case False
    then have h: "h = peNback E" using less.prems(4) by simp
    then have "bg_used E h (N + h) N [] (N + h)" unfolding bg_used_def
      using less.prems(2) by (intro exI [of _ 0]) simp
    moreover have "bg_files E ?c s = Some (N + h, s)" for s using h by (subst bg_files.simps) simp
    ultimately show ?thesis by (intro exI [of _ "[]"] exI [of _ "N + h"]) simp
  next
    case h: True
    have "0 \<le> N + h" "N + h < 1003" using less.prems h assms(1) by simp_all
    then obtain r f where o: "open_bg E (N + h) = Some (r, f)" using assms(2) by fastforce
    show ?thesis
    proof (cases "r = 0")
      case False
      then have p: "present E (N + h)" by (simp add: present_def o)
      obtain ns N' where ih: "bg_used E (h + 1) (N + (h + 1)) N ns N'"
        "\<And>s. bg_files E (N + (h + 1), N, N + peNback E) s = Option.bind (add_bg_list E ns s) (\<lambda>s. Some (N', s))"
        using less.hyps [of N "h + 1"] less.prems h by auto
      have "bg_files E ?c s = Option.bind (add_bg_list E ((N + h) # ns) s) (\<lambda>s. Some (N', s))" for s
        using o False h by (subst bg_files.simps) (simp add: bg_step_def ih(2) [unfolded add.assoc [symmetric]] add.assoc [symmetric] cong: Option.bind_cong)
      moreover have "bg_used E h (N + h) N ((N + h) # ns) N'"
        using bg_used_found [OF _ p, of h N ns N'] ih(1) by (simp add: add.assoc)
      ultimately show ?thesis by blast
    next
      case True
      then have p: "\<not> present E (N + h)" by (simp add: present_def o)
      show ?thesis
      proof (cases "N + 1 = 1000")
        case r: True
        have "bg_step (peNback E) False ?c = (peNback E - h + 2, 0, peNback E)" using r by (simp add: bg_step_def)
        moreover have "bg_files E (peNback E - h + 2, 0, peNback E) s = Some (peNback E, s)" for s
          using h assms(1) less.prems(3) by (subst bg_files.simps) simp
        ultimately have "bg_files E ?c s = Some (peNback E, s)" for s
          using o True h by (subst bg_files.simps) simp
        then show ?thesis using bg_used_reset [OF p h r] by (intro exI [of _ "[]"] exI [of _ "peNback E"]) simp
      next
        case False
        then obtain ns N' where ih: "bg_used E h (N + 1 + h) (N + 1) ns N'"
          "\<And>s. bg_files E (N + 1 + h, N + 1, N + 1 + peNback E) s = Option.bind (add_bg_list E ns s) (\<lambda>s. Some (N', s))"
          using less.hyps [of "N + 1" h] less.prems by auto
        have "bg_step (peNback E) False ?c = (N + 1 + h, N + 1, N + 1 + peNback E)"
          using False less.prems(2) by (simp add: bg_step_def)
        then have "bg_files E ?c s = Option.bind (add_bg_list E ns s) (\<lambda>s. Some (N', s))" for s
          using o True h ih(2) by (subst bg_files.simps) simp
        moreover have "bg_used E h (N + h + 1) (N + 1) ns N'" using ih(1) by (simp add: algebra_simps)
        ultimately show ?thesis using bg_used_missing [OF _ p h] by blast
      qed
    qed
  qed
qed

text \<open>The files of one event.\<close>

lemma bg_used_sound:
  assumes "bg_used E 0 N N ns N'" "0 \<le> N" "N < 1000" "0 \<le> peNback E"
  shows "sorted_wrt (<) ns" "\<forall>n \<in> set ns. present E n \<and> N \<le> n \<and> n < 1000 + peNback E"
    "int (length ns) \<le> peNback E" "0 \<le> N'" "N' < 1000 + peNback E" "int (length ns) < peNback E \<Longrightarrow> N' = peNback E"
    "present E 999 \<Longrightarrow> 0 < peNback E \<Longrightarrow> ns \<noteq> []"
    "\<forall>n. N \<le> n \<and> n < N + peNback E \<longrightarrow> present E n \<Longrightarrow> ns = [N..N + peNback E - 1] \<and> N' = N + peNback E"
proof -
  obtain k where k: "0 \<le> k" "ns = filter (present E) [N..N + k - 1]"
    "if int (length ns) = peNback E
     then N' = N + k \<and> N + k - int (length ns) < 1000 \<and> (if ns = [] then k = 0 else last ns = N + k - 1)
     else int (length ns) < peNback E \<and> N + k - int (length ns) = 1000 \<and> N' = peNback E"
    using assms(1) unfolding bg_used_def add_0 by blast
  show "sorted_wrt (<) ns" unfolding k(2) by (intro sorted_wrt_filter) simp
  show le: "int (length ns) \<le> peNback E" using k(3) by (simp split: if_splits)
  have kb: "N + k \<le> 1000 + peNback E" using k(3) le by (simp split: if_splits)
  then show "\<forall>n \<in> set ns. present E n \<and> N \<le> n \<and> n < 1000 + peNback E" unfolding k(2) by auto
  show "0 \<le> N'" "N' < 1000 + peNback E" using k(1,3) assms by (auto split: if_splits)
  show "int (length ns) < peNback E \<Longrightarrow> N' = peNback E" using k(3) by (simp split: if_splits)
  show "ns \<noteq> []" if "present E 999" "0 < peNback E"
  proof
    assume e: "ns = []"
    then have "N + k = 1000" using k(3) that(2) by simp
    then have "999 \<in> set [N..N + k - 1]" using assms(3) by simp
    then have "999 \<in> set ns" using that(1) unfolding k(2) by simp
    then show False using e by simp
  qed
  show "ns = [N..N + peNback E - 1] \<and> N' = N + peNback E" if all: "\<forall>n. N \<le> n \<and> n < N + peNback E \<longrightarrow> present E n"
  proof (cases "k \<le> peNback E")
    case True
    have "filter (present E) [N..N + k - 1] = [N..N + k - 1]" using all True by (intro filter_True) auto
    then have n: "ns = [N..N + k - 1]" using k(2) by simp
    then have l: "int (length ns) = k" using k(1) by simp
    then have q: "k = peNback E" "N' = N + k" using k(3) assms(3) by (simp_all split: if_splits)
    show ?thesis using n q(2) unfolding q(1) by (rule conjI)
  next
    case False
    have u: "[N..N + k - 1] = [N..N + peNback E - 1] @ [N + peNback E..N + k - 1]"
      using upto_split2 [of N "N + peNback E - 1" "N + k - 1"] assms(4) False by (cases "peNback E = 0") simp_all
    have "filter (present E) [N..N + peNback E - 1] = [N..N + peNback E - 1]" using all by (intro filter_True) auto
    then have n: "ns = [N..N + peNback E - 1] @ filter (present E) [N + peNback E..N + k - 1]" using k(2) u by simp
    then have f: "filter (present E) [N + peNback E..N + k - 1] = []" using le assms(4) by simp
    then have l: "int (length ns) = peNback E" using n assms(4) by simp
    then have "if ns = [] then k = 0 else last ns = N + k - 1" using k(3) by simp
    then have False
    proof (cases "ns = []")
      case True
      then show ?thesis using \<open>if ns = [] then k = 0 else last ns = N + k - 1\<close> False assms(4) by simp
    next
      case ne: False
      then have "last ns \<in> set [N..N + peNback E - 1]" using n f by (metis append_Nil2 last_in_set)
      then show ?thesis using ne \<open>if ns = [] then k = 0 else last ns = N + k - 1\<close> False by simp
    qed
    then show ?thesis ..
  qed
qed

text \<open>Four or more files per event: the search need not end.\<close>

definition searching :: "int \<Rightarrow> int \<times> int \<times> int \<Rightarrow> bool" where
  "searching nb c \<longleftrightarrow> (case c of (Nfile, N, post) \<Rightarrow> post = N + nb \<and> 0 \<le> N \<and> N < 1000
     \<and> (N = 0 \<and> 0 \<le> Nfile \<and> Nfile \<le> 2 \<or> Nfile = 3 + N \<or> Nfile = nb - 1 + N))"

lemma searching_step:
  assumes "4 \<le> nb" "searching nb c"
  shows "fst c < snd (snd c)" "searching nb (bg_step nb (fst c \<in> {0, 1, 2}) c)"
  using assms by (cases c; force simp: searching_def bg_step_def Let_def)+

lemma bg_search_endless:
  assumes "4 \<le> nb"
  shows "let (Nfile, N, post) = ((\<lambda>c. bg_step nb (fst c \<in> {0, 1, 2}) c) ^^ t) (0, 0, nb) in Nfile < post"
proof -
  have "searching nb (((\<lambda>c. bg_step nb (fst c \<in> {0, 1, 2}) c) ^^ t) (0, 0, nb))"
  proof (induction t)
    case 0
    show ?case by (simp add: searching_def)
  next
    case (Suc t)
    then show ?case using searching_step(2) [OF assms] by simp
  qed
  then show ?thesis using searching_step(1) [OF assms] by (auto split: prod.splits)
qed

lemma bg_files_endless:
  assumes "4 \<le> peNback E" "\<forall>n. present E n \<longleftrightarrow> n \<in> {0, 1, 2}" "searching (peNback E) c"
  shows "bg_files E c s = None"
proof (cases "bg_files E c s")
  case (Some r)
  then have "4 \<le> peNback E \<longrightarrow> (\<forall>n. present E n \<longleftrightarrow> n \<in> {0, 1, 2}) \<longrightarrow> \<not> searching (peNback E) c"
  proof (induction rule: bg_files.raw_induct [rotated, consumes 1])
    case (1 bgf E c s r)
    show ?case
    proof (intro impI notI)
      assume a: "4 \<le> peNback E" "\<forall>n. present E n \<longleftrightarrow> n \<in> {0, 1, 2}" "searching (peNback E) c"
      note st = searching_step [OF a(1,3)]
      obtain q f where o: "open_bg E (fst c) = Some (q, f)" using 1(2) st(1) by (cases "open_bg E (fst c)") auto
      have "present E (fst c) = (q \<noteq> 0)" by (simp add: present_def o)
      then have "(fst c \<in> {0, 1, 2}) = (q \<noteq> 0)" using a(2) by blast
      then obtain y where "bgf E (bg_step (peNback E) (fst c \<in> {0, 1, 2}) c) y = Some r"
        using 1(2) st(1) o by (cases "q = 0") (auto simp: bind_eq_Some_conv)
      then show False using 1(1) a(1,2) st(2) by blast
    qed
  qed
  then show ?thesis using assms by blast
qed

section \<open>Event and counts\<close>

text \<open>The counts of N hits stay far below the range of Int\_t: then all planes can be stored.\<close>

definition counts_fit :: "rng \<Rightarrow> gempar \<Rightarrow> nat \<Rightarrow> bool" where
  "counts_fit R g N \<longleftrightarrow> (\<exists>K. hit_room R g K \<and> 2 * int N * K \<le> 1000000000)"

lemma counts_fit_mono: "counts_fit R g N \<Longrightarrow> M \<le> N \<Longrightarrow> counts_fit R g M"
proof -
  assume "counts_fit R g N" and M: "M \<le> N"
  then obtain K where K: "hit_room R g K" "2 * int N * K \<le> 1000000000" by (auto simp: counts_fit_def)
  have "2 * int M * K \<le> 2 * int N * K" using M hit_room_nonneg [OF K(1)] by (intro mult_right_mono) simp_all
  then have "2 * int M * K \<le> 1000000000" using K(2) by (rule order_trans)
  then show ?thesis using K(1) unfolding counts_fit_def by blast
qed

lemma planes_storable:
  assumes "digi_inv g m spect e d" "counts_below B d" "B \<le> 1000000000" "\<forall>ch \<in> set (fChambers spect). \<forall>pl \<in> set (chPlanes ch). plNStrips pl \<le> 32767"
    "ps \<in> set (dgDP d)" "p \<in> set ps"
  shows "plane_storable p"
proof -
  obtain ic where ic: "ic < length (dgDP d)" "ps = dgDP d ! ic" using assms(5) by (auto simp: in_set_conv_nth)
  then have r: "list_all2 (plane_inv g (evGEMClust e) (wrap16 (GetPlaneID m (int ic)))) (chPlanes (fChambers spect ! ic)) ps"
      and ch: "fChambers spect ! ic \<in> set (fChambers spect)"
    using assms(1) by (simp_all add: digi_inv_def planes_inv_def)
  obtain j where j: "j < length ps" "p = ps ! j" using assms(6) by (auto simp: in_set_conv_nth)
  then have jl: "j < length (chPlanes (fChambers spect ! ic))" using list_all2_lengthD [OF r] by simp
  have pi: "plane_inv g (evGEMClust e) (wrap16 (GetPlaneID m (int ic))) (chPlanes (fChambers spect ! ic) ! j) p"
    using list_all2_nthD [OF r jl] j(2) by simp
  have "plNStrips (chPlanes (fChambers spect ! ic) ! j) \<le> 32767" using assms(4) ch nth_mem [OF jl] by blast
  then have "dpNStrips p \<le> 32767" using pi by (simp add: plane_inv_def)
  moreover have sh: "dp_shape p" using pi by (simp add: plane_inv_def dp_inv_def)
  moreover have "adc_below B p" using assms(2,5,6) by (auto simp: counts_below_def)
  ultimately show ?thesis using adc_below_array [OF _ sh] assms(3) by (fastforce simp: plane_storable_def)
qed

lemma time_clusters_total: "\<exists>r. time_clusters R g src (map Some cs) n = Some r"
proof (induction cs arbitrary: n)
  case (Cons c cs)
  obtain t n1 where t: "cluster_time R g src n = (t, n1)" by force
  obtain r n2 where "time_clusters R g src (map Some cs) n1 = Some (r, n2)" using Cons [of n1] by auto
  then show ?case by (simp add: t)
qed simp

text \<open>The track of the event and its weight.\<close>

definition event_track :: "g4track \<Rightarrow> vec3 \<Rightarrow> vec3 \<Rightarrow> real \<Rightarrow> simevent \<Rightarrow> bool" where
  "event_track t pm v w e \<longleftrightarrow> evWeight e = w \<and> (\<exists>p. evMCTracks e = [\<lparr> tkNumber = gtTID t, tkPID = gtPID t,
     tkOrigin = Vec (gtX t * 1000) (gtY t * 1000) 0, tkMomentum = p, tkOriginAtTarget = v, tkMomentumAtTarget = pm \<rparr>]
     \<and> vmag2 p = (gtP t)\<^sup>2)"

lemma SetTreeEvent_track:
  assumes "dgEvent d = Some e" "giGen f = [gn]" "gen_of t pm v w gn" "giECal f = map Some cs" "giScint f = map Some ss"
  shows "\<exists>f' e' n. SetTreeEvent R g gd f evnum d = Some (f', set_draws n (d \<lparr> dgEvent := Some e' \<rparr>))
    \<and> event_track t pm v w e' \<and> evEvtID e' = (if evnum < 0 then int (shEvtID gd) else evnum)"
proof -
  let ?id = "if evnum < 0 then int (shEvtID gd) else evnum"
  obtain p where p: "GetP gn = Some p" "vmag2 p = (gtP t)\<^sup>2" using assms(3) by (auto simp: gen_of_def)
  define e1 where "e1 = AddTrack (gtTID t) (gtPID t) (Vec (gtX t * 1000) (gtY t * 1000) 0) p v pm
    ((event_Clear True e) \<lparr> evRunID := int (shRunID gd), evEvtID := ?id \<rparr>)"
  have a: "add_gens [gn] ((event_Clear True e) \<lparr> evRunID := int (shRunID gd), evEvtID := ?id \<rparr>) = Some e1"
    and w: "GetWeight gn = Some w" using assms(3) p(1) by (simp_all add: gen_of_def e1_def)
  obtain c1 n1 where c: "time_clusters R g (shSource gd) (map Some cs) (ioDraws (dgIons d)) = Some (c1, n1)"
    using time_clusters_total [of R g "shSource gd" cs] by force
  obtain s1 n2 where s: "time_clusters R g (shSource gd) (map Some ss) n1 = Some (s1, n2)"
    using time_clusters_total [of R g "shSource gd" ss] by force
  define e2 where "e2 = e1 \<lparr> evECalClusters := evECalClusters e1 @ c1, evScintClusters := evScintClusters e1 @ s1,
    evWeight := w, evSectorsMapped := dgMapSector d, evSignalSector := dgSignalSector d \<rparr>"
  have "SetTreeEvent R g gd f evnum d = Some (f \<lparr> giECal := map (\<lambda>_. None) (map Some cs), giScint := map (\<lambda>_. None) (map Some ss) \<rparr>,
      set_draws n2 (d \<lparr> dgEvent := Some e2 \<rparr>))"
    unfolding SetTreeEvent_def assms(1,2,4,5) bind.bind_lunit Let_def a c s w e2_def by (simp add: w s)
  moreover have "event_track t pm v w e2" "evEvtID e2 = ?id" using p(2)
    by (simp_all add: event_track_def e2_def e1_def AddTrack_def event_Clear_def Let_def)
  ultimately show ?thesis by blast
qed

text \<open>Digitize forgets the clusters that were in the event.\<close>

lemma Digitize_forgets:
  assumes "dgEvent d = Some e"
  shows "Digitize R g m gd spect d = Digitize R g m gd spect (d \<lparr> dgEvent := Some (e \<lparr> evGEMClust := cl \<rparr>) \<rparr>)"
  using assms by (simp add: Digitize_def event_Clear_def Let_def)


section \<open>Adding background\<close>

definition bg_entries :: "passenv \<Rightarrow> int \<Rightarrow> (int \<times> g4event) list" where
  "bg_entries E n = (case peDisk E (bg_file E n) of TreeT es \<Rightarrow> es | _ \<Rightarrow> [])"

text \<open>Hits that can be digitized, whatever was digitized before.\<close>

definition digitizable :: "passenv \<Rightarrow> int \<Rightarrow> g4event \<Rightarrow> bool" where
  "digitizable E src e \<longleftrightarrow> (\<forall>gd. event_packed (peM E) src e gd \<longrightarrow>
     (\<forall>h \<in> set (shHits gd). accepted (peSpec E) h \<longrightarrow> hit_ready (peR E) (peG E) (peSpec E) h \<and> ionizes (peR E) (peG E) h))"

definition entry_ok :: "passenv \<Rightarrow> int \<Rightarrow> int \<times> g4event \<Rightarrow> bool" where
  "entry_ok E src be \<longleftrightarrow> read_good (peM E) src be \<and> rows_fit (peM E) src (snd be) \<and> digitizable E src (snd be)"

text \<open>A background file is missing, or it has some sound events.\<close>

definition bg_ok :: "passenv \<Rightarrow> int \<Rightarrow> bool" where
  "bg_ok E n \<longleftrightarrow> bg_file E n \<noteq> [] \<and> length (bg_file E n) < 255
     \<and> (peDisk E (bg_file E n) = NotOpen \<or> (\<exists>es. peDisk E (bg_file E n) = TreeT es \<and> es \<noteq> [] \<and> length es < 4294967296
          \<and> (\<forall>be \<in> set es. entry_ok E 1 be)))"

text \<open>Opening a file by its name.\<close>

lemma open_file:
  assumes "length name < 255" "name \<noteq> []" "Getg4sbsDetectorType m = Some ty"
  shows "disk name = NotOpen \<Longrightarrow> \<exists>f. TSBSGeant4File name = Some f \<and> g4_Open disk m (g4_SetSource src f) = Some (0, (g4_SetSource src f) \<lparr> gfFile := Some False \<rparr>)"
    "disk name = TreeT es \<Longrightarrow> \<exists>f g. TSBSGeant4File name = Some f \<and> g4_Open disk m (g4_SetSource src f) = Some (1, g)
      \<and> reading g es 0 \<and> gfSource g = src"
  using assms by (simp_all add: TSBSGeant4File_def g4_SetFilename_def g4_SetSource_def g4_Open_def reading_def g4sbs_tree_def Let_def)

lemma open_bg_ok:
  assumes "bg_ok E n" "Getg4sbsDetectorType (peM E) = Some ty"
  shows "open_bg E n \<noteq> None"
    "present E n \<Longrightarrow> \<exists>f. open_bg E n = Some (1, f) \<and> reading f (bg_entries E n) 0 \<and> bg_entries E n \<noteq> []
      \<and> length (bg_entries E n) < 4294967296 \<and> (\<forall>be \<in> set (bg_entries E n). entry_ok E 1 be)"
proof -
  have o: "open_bg E n = Option.bind (TSBSGeant4File (bg_file E n)) (\<lambda>f. g4_Open (peDisk E) (peM E) (g4_SetSource 0 f))"
    by (simp add: open_bg_def TSBSGeant4File_def g4_SetFilename_def g4_SetSource_def)
  have nm: "length (bg_file E n) < 255" "bg_file E n \<noteq> []" using assms(1) by (simp_all add: bg_ok_def)
  note op = open_file [OF nm assms(2)]
  have c: "peDisk E (bg_file E n) = NotOpen \<or> (\<exists>es. peDisk E (bg_file E n) = TreeT es \<and> es \<noteq> [] \<and> length es < 4294967296
          \<and> (\<forall>be \<in> set es. entry_ok E 1 be))" using assms(1) by (simp add: bg_ok_def)
  then show "open_bg E n \<noteq> None" using op [where src = 0 and disk = "peDisk E"] unfolding o by fastforce
  assume p: "present E n"
  then have "peDisk E (bg_file E n) \<noteq> NotOpen" using op(1) [of "peDisk E" 0] unfolding present_def o by auto
  then obtain es where es: "peDisk E (bg_file E n) = TreeT es" "es \<noteq> []" "length es < 4294967296" "\<forall>be \<in> set es. entry_ok E 1 be"
    using c by blast
  then show "\<exists>f. open_bg E n = Some (1, f) \<and> reading f (bg_entries E n) 0 \<and> bg_entries E n \<noteq> []
      \<and> length (bg_entries E n) < 4294967296 \<and> (\<forall>be \<in> set (bg_entries E n). entry_ok E 1 be)"
    using op(2) [of "peDisk E" es 0] unfolding o by (auto simp: bg_entries_def)
qed

lemma add_all_append:
  "add_all R g m spect (xs @ ys) d = Option.bind (add_all R g m spect xs d) (add_all R g m spect ys)"
proof (induction xs arbitrary: d)
  case (Cons x xs)
  show ?case by (cases "AdditiveDigitize R g m x spect d") (simp_all add: Cons split: prod.split)
qed simp

text \<open>What the additions do to the state of the program.\<close>

definition bg_added :: "bool \<Rightarrow> digi \<Rightarrow> pass \<Rightarrow> pass" where
  "bg_added some d s = s \<lparr> psHadback := (if some then 1 else psHadback s), psGb := (psGb s \<or> some), psDigi := d \<rparr>"

lemma add_bg_events_ok:
  assumes "length es < 4294967296" "\<forall>be \<in> set es. entry_ok E 1 be"
  shows "reading f es k \<Longrightarrow> gfSource f = 1 \<Longrightarrow> k + n = length es \<Longrightarrow>
    \<exists>gds f'. gfFile f' = Some True \<and> list_all2 (\<lambda>be. event_packed (peM E) 1 (snd be)) (drop k es) gds
      \<and> (\<forall>s. add_bg_events E n f s = Option.bind (add_all (peR E) (peG E) (peM E) (peSpec E) gds (psDigi s))
          (\<lambda>d. Some (f', bg_added (n \<noteq> 0) d s)))"
proof (induction n arbitrary: f k)
  case 0
  then show ?case by (intro exI [of _ "[]"] exI [of _ f]) (simp add: reading_def bg_added_def)
next
  case (Suc n)
  have k: "k < length es" "k < 4294967296" using Suc.prems(3) assms(1) by simp_all
  then have "entry_ok E 1 (es ! k)" using assms(2) by simp
  then obtain g gd where g: "ReadNextEvent (peQ E) (peM E) f = Some (1, g)" "reading g es (k + 1)" "gfSource g = 1"
      "GetGEMData (peM E) g = Some gd" "event_packed (peM E) 1 (snd (es ! k)) gd"
    using read_and_pack [OF Suc.prems(1) k, of "peM E" "peQ E"] Suc.prems(2) by (auto simp: entry_ok_def)
  obtain gds f' where r: "gfFile f' = Some True" "list_all2 (\<lambda>be. event_packed (peM E) 1 (snd be)) (drop (k + 1) es) gds"
      "\<forall>s. add_bg_events E n g s = Option.bind (add_all (peR E) (peG E) (peM E) (peSpec E) gds (psDigi s))
          (\<lambda>d. Some (f', bg_added (n \<noteq> 0) d s))"
    using Suc.IH [OF g(2,3)] Suc.prems(3) by auto
  have "add_bg_events E (Suc n) f s = Option.bind (add_all (peR E) (peG E) (peM E) (peSpec E) (gd # gds) (psDigi s))
          (\<lambda>d. Some (f', bg_added True d s))" for s
    using g(1,4) r(3) by (cases "AdditiveDigitize (peR E) (peG E) (peM E) gd (peSpec E) (psDigi s)")
      (auto simp: add_bg_event_def bg_added_def split: prod.splits)
  moreover have "drop k es = es ! k # drop (k + 1) es" using k(1) by (simp add: Cons_nth_drop_Suc)
  ultimately show ?case using r(1,2) g(5) by (intro exI [of _ "gd # gds"] exI [of _ f']) simp
qed

lemma add_bg_list_ok:
  assumes "Getg4sbsDetectorType (peM E) = Some ty" "\<forall>n \<in> set ns. bg_ok E n \<and> present E n"
  shows "\<exists>gds. list_all2 (\<lambda>be. event_packed (peM E) 1 (snd be)) (concat (map (bg_entries E) ns)) gds
    \<and> (\<forall>s. add_bg_list E ns s = Option.bind (add_all (peR E) (peG E) (peM E) (peSpec E) gds (psDigi s))
          (\<lambda>d. Some (bg_added (ns \<noteq> []) d s)))"
  using assms(2)
proof (induction ns)
  case Nil
  then show ?case by (intro exI [of _ "[]"]) (simp add: bg_added_def)
next
  case (Cons n ns)
  let ?es = "bg_entries E n"
  obtain f where f: "open_bg E n = Some (1, f)" "reading f ?es 0" "?es \<noteq> []" "length ?es < 4294967296"
      "\<forall>be \<in> set ?es. entry_ok E 1 be"
    using open_bg_ok(2) [OF _ assms(1), of n] Cons.prems by auto
  have sf: "reading (g4_SetSource 1 f) ?es 0" "gfSource (g4_SetSource 1 f) = 1"
      "g4_GetEntries (g4_SetSource 1 f) = Some (length ?es)"
    using f(2) by (auto simp: reading_def g4_SetSource_def g4_GetEntries_def)
  obtain gds f' where a: "gfFile f' = Some True" "list_all2 (\<lambda>be. event_packed (peM E) 1 (snd be)) ?es gds"
      "\<forall>s. add_bg_events E (length ?es) (g4_SetSource 1 f) s = Option.bind (add_all (peR E) (peG E) (peM E) (peSpec E) gds (psDigi s))
          (\<lambda>d. Some (f', bg_added True d s))"
    using add_bg_events_ok [OF f(4,5) sf(1,2), of "length ?es"] f(3) by auto
  obtain gds' where r: "list_all2 (\<lambda>be. event_packed (peM E) 1 (snd be)) (concat (map (bg_entries E) ns)) gds'"
      "\<forall>s. add_bg_list E ns s = Option.bind (add_all (peR E) (peG E) (peM E) (peSpec E) gds' (psDigi s))
          (\<lambda>d. Some (bg_added (ns \<noteq> []) d s))" using Cons by auto
  have "add_bg_list E (n # ns) s = Option.bind (add_all (peR E) (peG E) (peM E) (peSpec E) (gds @ gds') (psDigi s))
          (\<lambda>d. Some (bg_added True d s))" for s
    using f(1) sf(3) a(1,3) r(2)
    by (cases "add_all (peR E) (peG E) (peM E) (peSpec E) gds (psDigi s)")
      (auto simp: add_bg_file_def Let_def g4_Close_def add_all_append bg_added_def)
  then show ?case using a(2) r(1) by (intro exI [of _ "gds @ gds'"]) (simp add: list_all2_appendI)
qed

section \<open>What digitizing keeps\<close>

definition keeps :: "digi \<Rightarrow> digi \<Rightarrow> bool" where
  "keeps d d' \<longleftrightarrow> dgTree d' = dgTree d \<and> (\<forall>e'. dgEvent d' = Some e' \<longrightarrow>
     (\<exists>e. dgEvent d = Some e \<and> evEvtID e' = evEvtID e \<and> evWeight e' = evWeight e))"

lemma keeps_refl [simp]: "keeps d d" by (simp add: keeps_def)

lemma keeps_trans: "keeps d d1 \<Longrightarrow> keeps d1 d2 \<Longrightarrow> keeps d d2"
  unfolding keeps_def by metis

lemma cum_plane_keeps: "cum_plane R g igem vs ty cid j d = Some d' \<Longrightarrow> keeps d d'"
  by (auto simp: cum_plane_def bind_eq_Some_conv keeps_def set_draws_def split: prod.splits)

lemma SetTreeHit_keeps: "SetTreeHit m spect ih fdh gd t0 d = Some (cid, d') \<Longrightarrow> keeps d d'"
  by (auto simp: SetTreeHit_def bind_eq_Some_conv keeps_def push_cluster_def Let_def)

lemma record_hit_keeps: "record_hit R g m spect gd tz ih h fdh d = Some d' \<Longrightarrow> keeps d d'"
  by (auto simp: record_hit_def bind_eq_Some_conv Let_def split: option.splits
      dest!: cum_plane_keeps SetTreeHit_keeps intro: keeps_trans)

lemma digitize_hit_keeps: "digitize_hit R g m spect gd bg jitter ih h d = Some d' \<Longrightarrow> keeps d d'"
proof -
  assume "digitize_hit R g m spect gd bg jitter ih h d = Some d'"
  then obtain io dadc tz fdh where "record_hit R g m spect gd tz ih h fdh (d \<lparr> dgIons := io, dgDADC := dadc \<rparr>) = Some d'"
    unfolding digitize_hit_def by (cases bg) (auto simp: bind_eq_Some_conv Let_def)
  then have "keeps (d \<lparr> dgIons := io, dgDADC := dadc \<rparr>) d'" by (rule record_hit_keeps)
  then show ?thesis by (simp add: keeps_def)
qed

lemma digitize_hits_keeps: "digitize_hits R g m spect gd bg jitter ih n d = Some d' \<Longrightarrow> keeps d d'"
proof (induction n arbitrary: ih d)
  case (Suc n)
  then show ?case by (fastforce simp: bind_eq_Some_conv split: if_splits intro: keeps_trans digitize_hit_keeps)
qed simp

lemma AdditiveDigitize_keeps: "AdditiveDigitize R g m gd spect d = Some (r, d') \<Longrightarrow> keeps d d'"
  by (fastforce simp: AdditiveDigitize_def Let_def bind_eq_Some_conv keeps_def set_draws_def split: if_splits
      dest: digitize_hits_keeps)

lemma add_all_keeps: "add_all R g m spect gds d = Some d' \<Longrightarrow> keeps d d'"
  by (induction gds arbitrary: d) (auto simp: bind_eq_Some_conv dest!: AdditiveDigitize_keeps intro: keeps_trans)

lemma Digitize_keeps: "Digitize R g m gd spect d = Some (r, d') \<Longrightarrow> keeps d d'"
proof -
  assume a: "Digitize R g m gd spect d = Some (r, d')"
  then obtain e where e: "dgEvent d = Some e" by (auto simp: Digitize_def bind_eq_Some_conv)
  have "keeps (d \<lparr> dgEvent := Some (event_Clear False e), dgSignalSector := 0,
                 dgDP := map (map dp_Clear) (dgDP d), dgFilled := True \<rparr>) d'"
    using a e by (auto simp: Digitize_def Let_def dest!: AdditiveDigitize_keeps)
  then show ?thesis using e by (auto simp: keeps_def event_Clear_def Let_def)
qed

lemma AdditiveDigitize_filled:
  "AdditiveDigitize R g m gd spect d = Some (r, d') \<Longrightarrow> dgFilled d' \<longleftrightarrow> dgFilled d \<and> shHits gd = []"
  by (auto simp: AdditiveDigitize_def Let_def bind_eq_Some_conv split: if_splits)

lemma add_all_filled:
  "add_all R g m spect gds d = Some d' \<Longrightarrow> dgFilled d' \<longleftrightarrow> dgFilled d \<and> (\<forall>gd \<in> set gds. shHits gd = [])"
  by (induction gds arbitrary: d) (auto simp: bind_eq_Some_conv dest!: AdditiveDigitize_filled)

section \<open>One event\<close>

text \<open>FillTree appends the event, with its strips if there was anything to digitize.\<close>

lemma FillTree_event:
  assumes "noise_ok R g" "\<forall>ps \<in> set (dgDP d). \<forall>p \<in> set ps. plane_storable p" "dgTree d = Some t" "digi_inv g m spect e d"
  shows "\<exists>ss d'. FillTree R g m d = Some d' \<and> dgTree d' = Some (t @ [e \<lparr> evGEMStrips := ss \<rparr>])
    \<and> digi_inv g m spect (e \<lparr> evGEMStrips := ss \<rparr>) d' \<and> dgDP d' = dgDP d
    \<and> (\<not> dgFilled d \<longrightarrow> list_all2 (strip_record m) (all_strips 0 (dgDP d)) ss)"
proof -
  have e: "dgEvent d = Some e" using assms(4) by (simp add: digi_inv_def)
  show ?thesis
  proof (cases "dgFilled d")
    case True
    then show ?thesis using assms(3,4) e
      by (intro exI [of _ "evGEMStrips e"] exI [of _ "d \<lparr> dgTree := Some (t @ [e]) \<rparr>"]) (simp add: FillTree_def digi_inv_def)
  next
    case False
    obtain ss draw where s: "SetTreeStrips R g m d
        = Some (set_draws draw (d \<lparr> dgEvent := Some (e \<lparr> evGEMStrips := ss \<rparr>), dgFilled := True \<rparr>))"
        "list_all2 (strip_record m) (all_strips 0 (dgDP d)) ss"
      using SetTreeStrips_ok [OF assms(1,2) e] by blast
    let ?e = "e \<lparr> evGEMStrips := ss \<rparr>"
    let ?d = "set_draws draw (d \<lparr> dgEvent := Some ?e, dgFilled := True \<rparr>) \<lparr> dgTree := Some (t @ [?e]) \<rparr>"
    have "FillTree R g m d = Some ?d" using s(1) assms(3) False by (simp add: FillTree_def set_draws_def)
    moreover have "digi_inv g m spect ?e ?d" using assms(4) by (simp add: digi_inv_def set_draws_def)
    ultimately show ?thesis using s(2) by (intro exI [of _ ss] exI [of _ ?d]) (simp add: set_draws_def)
  qed
qed

text \<open>The conditions of a run: the digitizer is set up, at most three background files per event, and
  the background files are sound, with number 999 among them.\<close>

definition pass_ok :: "passenv \<Rightarrow> bool" where
  "pass_ok E \<longleftrightarrow> setup_ok (peR E) (peG E) (peSpec E) \<and> gpSamplingPoints (peG E) \<le> 6 \<and> noise_ok (peR E) (peG E)
     \<and> (\<exists>ty. Getg4sbsDetectorType (peM E) = Some ty)
     \<and> (\<forall>ch \<in> set (fChambers (peSpec E)). \<forall>pl \<in> set (chPlanes ch). plNStrips pl \<le> 32767)
     \<and> 0 \<le> peNback E \<and> peNback E \<le> 3
     \<and> (0 < peNback E \<longrightarrow> (\<forall>n. 0 \<le> n \<and> n < 1003 \<longrightarrow> bg_ok E n) \<and> present E 999)"

text \<open>Room for the hits of a signal event of S rows and its background.\<close>

definition hits_of :: "passenv \<Rightarrow> int \<Rightarrow> nat" where
  "hits_of E n = sum_list (map (\<lambda>be. length (det_rows (peM E) (snd be))) (bg_entries E n))"

definition room :: "passenv \<Rightarrow> nat \<Rightarrow> bool" where
  "room E S \<longleftrightarrow> (\<exists>B. (\<forall>n. hits_of E n \<le> B) \<and> S + nat (peNback E) * B \<le> 32767
     \<and> counts_fit (peR E) (peG E) (S + nat (peNback E) * B))"

definition sig_ok :: "passenv \<Rightarrow> nat \<Rightarrow> int \<times> g4event \<Rightarrow> bool" where
  "sig_ok E S be \<longleftrightarrow> entry_ok E 0 be \<and> length (det_rows (peM E) (snd be)) \<le> S"

text \<open>Events with hits and a generated track are digitized.\<close>

definition signal_event :: "passenv \<Rightarrow> g4event \<Rightarrow> bool" where
  "signal_event E e \<longleftrightarrow> det_rows (peM E) e \<noteq> [] \<and> signal_track (det_type (peM E)) 0 e \<noteq> None"

text \<open>The event ev is entry e of the signal file with the events of the background files ns: number, track
  and weight, the clusters of all hits that were accepted, in order, and a strip record for every channel.\<close>

definition event_of :: "passenv \<Rightarrow> int \<Rightarrow> int list \<Rightarrow> g4event \<Rightarrow> simevent \<Rightarrow> bool" where
  "event_of E nev ns e ev \<longleftrightarrow> evEvtID ev = nev
     \<and> (\<exists>t. signal_track (det_type (peM E)) 0 e = Some t \<and> event_track t (if det_type (peM E) = 1 then geEp e else geNp e)
          (geV e) (geSolang e * geSigma e) ev)
     \<and> (\<exists>gd gds. event_packed (peM E) 0 e gd
          \<and> list_all2 (\<lambda>be. event_packed (peM E) 1 (snd be)) (concat (map (bg_entries E) ns)) gds
          \<and> overlay (peM E) (concat (map (source_hits (peSpec E)) (gd # gds))) (evGEMClust ev))
     \<and> evNSignal ev = int (length (filter is_signal (evGEMClust ev)))
     \<and> (evGEMClust ev \<noteq> [] \<longrightarrow> (\<exists>d. digi_inv (peG E) (peM E) (peSpec E) ev d
          \<and> list_all2 (strip_record (peM E)) (all_strips 0 (dgDP d)) (evGEMStrips ev)))"

definition pass_inv :: "passenv \<Rightarrow> simevent list \<Rightarrow> pass \<Rightarrow> bool" where
  "pass_inv E t s \<longleftrightarrow> (\<exists>e. digi_inv (peG E) (peM E) (peSpec E) e (psDigi s)) \<and> dgTree (psDigi s) = Some t
     \<and> psHadback s \<noteq> 0 \<and> 0 \<le> psBgFile s \<and> psBgFile s < 1000 \<and> 0 \<le> psEvent s"

lemma next_event_inv: "pass_inv E t s \<Longrightarrow> pass_inv E t (next_event s)"
  by (simp add: pass_inv_def next_event_def)

text \<open>The file number an event starts with.\<close>

definition next_start :: "int \<Rightarrow> int" where
  "next_start N = (if 1000 \<le> N then 0 else N)"

text \<open>The background of one event.\<close>

lemma add_background_ok:
  assumes "pass_ok E" "0 \<le> psBgFile s" "psBgFile s < 1000"
  shows "\<exists>ns N' gds. bg_used E 0 (psBgFile s) (psBgFile s) ns N' \<and> int (length ns) \<le> peNback E
    \<and> next_start N' \<in> {0..<1000} \<and> (0 < peNback E \<longrightarrow> ns \<noteq> [])
    \<and> list_all2 (\<lambda>be. event_packed (peM E) 1 (snd be)) (concat (map (bg_entries E) ns)) gds
    \<and> (\<forall>be \<in> set (concat (map (bg_entries E) ns)). entry_ok E 1 be)
    \<and> (\<forall>s'. psBgFile s' = psBgFile s \<longrightarrow> add_background E s' = Option.bind (add_all (peR E) (peG E) (peM E) (peSpec E) gds (psDigi s'))
          (\<lambda>d. Some ((bg_added (ns \<noteq> []) d s') \<lparr> psBgFile := N' \<rparr>)))"
proof (cases "peNback E = 0")
  case True
  then have "bg_used E 0 (psBgFile s) (psBgFile s) [] (psBgFile s)"
    unfolding bg_used_def using assms(3) by (intro exI [of _ 0]) simp
  then show ?thesis using True assms(2,3)
    by (intro exI [of _ "[]"] exI [of _ "psBgFile s"]) (simp add: add_background_def bg_added_def next_start_def)
next
  case False
  let ?N = "psBgFile s"
  have nb: "0 < peNback E" "peNback E \<le> 3" "present E 999" and ok: "\<forall>n. 0 \<le> n \<and> n < 1003 \<longrightarrow> bg_ok E n"
    using assms(1) False by (auto simp: pass_ok_def)
  obtain ty where ty: "Getg4sbsDetectorType (peM E) = Some ty" using assms(1) by (auto simp: pass_ok_def)
  have "\<forall>n. 0 \<le> n \<and> n < 1003 \<longrightarrow> open_bg E n \<noteq> None" using ok open_bg_ok(1) [OF _ ty] by blast
  then obtain ns N' where u: "bg_used E 0 ?N ?N ns N'"
      "\<forall>s. bg_files E (?N, ?N, ?N + peNback E) s = Option.bind (add_bg_list E ns s) (\<lambda>s. Some (N', s))"
    using bg_files_ok [OF nb(2) _ assms(2,3), of 0] nb(1) by auto
  note so = bg_used_sound [OF u(1) assms(2,3) less_imp_le [OF nb(1)]]
  have l: "int (length ns) \<le> peNback E" and ne: "ns \<noteq> []" and N': "0 \<le> N'" "N' < 1000 + peNback E"
    and pr: "\<forall>n \<in> set ns. present E n \<and> ?N \<le> n \<and> n < 1000 + peNback E"
    using so(2-5) so(7) [OF nb(3,1)] by blast+
  have bo: "\<forall>n \<in> set ns. bg_ok E n \<and> present E n" using pr ok assms(2) nb(2) by fastforce
  obtain gds where g: "list_all2 (\<lambda>be. event_packed (peM E) 1 (snd be)) (concat (map (bg_entries E) ns)) gds"
      "\<forall>s. add_bg_list E ns s = Option.bind (add_all (peR E) (peG E) (peM E) (peSpec E) gds (psDigi s))
          (\<lambda>d. Some (bg_added (ns \<noteq> []) d s))"
    using add_bg_list_ok [OF ty bo] by blast
  have "add_background E s' = Option.bind (add_all (peR E) (peG E) (peM E) (peSpec E) gds (psDigi s'))
          (\<lambda>d. Some ((bg_added (ns \<noteq> []) d s') \<lparr> psBgFile := N' \<rparr>))" if "psBgFile s' = ?N" for s'
    using that u(2) g(2) False
    by (cases "add_all (peR E) (peG E) (peM E) (peSpec E) gds (psDigi s')") (simp_all add: add_background_def Let_def)
  moreover have "\<forall>be \<in> set (concat (map (bg_entries E) ns)). entry_ok E 1 be"
    using bo open_bg_ok(2) [OF _ ty] by fastforce
  moreover have "next_start N' \<in> {0..<1000}" using N' nb(2) by (simp add: next_start_def)
  ultimately show ?thesis using u(1) l ne g(1) by blast
qed

lemma list_all2_right: "list_all2 P xs ys \<Longrightarrow> y \<in> set ys \<Longrightarrow> \<exists>x \<in> set xs. P x y"
  by (induction rule: list_all2_induct) auto

lemma packed_length:
  "event_packed m src e gd \<Longrightarrow> length (shHits gd) \<le> length (det_rows m e)"
proof -
  assume "event_packed m src e gd"
  then have "length (filter (\<lambda>r. 0 < rwEdep r) (det_rows m e)) = length (shHits gd)"
    unfolding event_packed_def by (blast dest: list_all2_lengthD)
  then show ?thesis by (metis length_filter_le)
qed

lemma packed_ready:
  "entry_ok E src be \<Longrightarrow> event_packed (peM E) src (snd be) gd \<Longrightarrow> data_ready (peR E) (peG E) (peSpec E) gd d"
  by (auto simp: entry_ok_def digitizable_def data_ready_def time_known_def)

text \<open>The number of hits of a signal event with its background.\<close>

lemma hits_bound:
  assumes "room E S" "length (det_rows (peM E) e) \<le> S" "event_packed (peM E) 0 e gd" "int (length ns) \<le> peNback E"
    "list_all2 (\<lambda>be. event_packed (peM E) 1 (snd be)) (concat (map (bg_entries E) ns)) gds"
  shows "sum_list (map (\<lambda>gd. length (shHits gd)) (gd # gds)) \<le> 32767"
    "counts_fit (peR E) (peG E) (sum_list (map (\<lambda>gd. length (shHits gd)) (gd # gds)))"
proof -
  obtain B where B: "\<forall>n. hits_of E n \<le> B" "S + nat (peNback E) * B \<le> 32767" "counts_fit (peR E) (peG E) (S + nat (peNback E) * B)"
    using assms(1) by (auto simp: room_def)
  have "sum_list (map (\<lambda>gd. length (shHits gd)) gds) \<le> sum_list (map (\<lambda>be. length (det_rows (peM E) (snd be))) (concat (map (bg_entries E) ns)))"
    using assms(5)
  proof (induction rule: list_all2_induct)
    case (Cons x xs y ys)
    then show ?case using packed_length [OF Cons(1)] by simp
  qed simp
  also have "\<dots> \<le> length ns * B"
  proof (induction ns)
    case (Cons n ns)
    then show ?case using B(1) [rule_format, of n] by (simp add: hits_of_def)
  qed simp
  also have "\<dots> \<le> nat (peNback E) * B" using assms(4) by (intro mult_right_mono) auto
  finally have le: "sum_list (map (\<lambda>gd. length (shHits gd)) (gd # gds)) \<le> S + nat (peNback E) * B"
    using packed_length [OF assms(3)] assms(2) by simp
  show "sum_list (map (\<lambda>gd. length (shHits gd)) (gd # gds)) \<le> 32767" using le B(2) by (rule le_trans)
  show "counts_fit (peR E) (peG E) (sum_list (map (\<lambda>gd. length (shHits gd)) (gd # gds)))" using counts_fit_mono [OF B(3) le] .
qed

lemma pass_event_ok:
  assumes ok: "pass_ok E" "room E S" and sig: "sig_ok E S be" and inv: "pass_inv E t s"
    and read: "GetGEMData (peM E) f = Some gd" "event_packed (peM E) 0 (snd be) gd"
      "hits_as (det_type (peM E)) (peM E) 0 (snd be) (gfHits f)" "gens_as (det_type (peM E)) 0 (snd be) (gfGens f)"
  shows "if signal_event E (snd be)
    then \<exists>s' ev ns N'. pass_event E f s = Some s' \<and> pass_inv E (t @ [ev]) s' \<and> psEvent s' = psEvent s + 1 \<and> psGood s' = psGood s + 1
      \<and> bg_used E 0 (psBgFile s) (psBgFile s) ns N' \<and> psBgFile s' = next_start N'
      \<and> event_of E (psEvent s) ns (snd be) ev
    else pass_event E f s = Some (next_event s)"
proof (cases "signal_event E (snd be)")
  case False
  have "gfHits f = [] \<longleftrightarrow> det_rows (peM E) (snd be) = []"
    using list_all2_lengthD [OF read(3) [unfolded hits_as_def]] by (auto simp: det_rows_def)
  moreover have "signal_track (det_type (peM E)) 0 (snd be) = None \<Longrightarrow> gfGens f = []" using read(4) by (simp add: gens_as_def)
  ultimately show ?thesis using False read(1) by (auto simp: pass_event_def signal_event_def)
next
  case True
  let ?R = "peR E" and ?g = "peG E" and ?m = "peM E" and ?spect = "peSpec E" and ?e = "snd be"
  have hits: "gfHits f \<noteq> []"
    using list_all2_lengthD [OF read(3) [unfolded hits_as_def]] True by (auto simp: det_rows_def signal_event_def)
  obtain tr where tr: "signal_track (det_type ?m) 0 ?e = Some tr" using True by (auto simp: signal_event_def)
  let ?pm = "if det_type ?m = 1 then geEp ?e else geNp ?e"
  obtain gn where gn: "gfGens f = [gn]" "gen_of tr ?pm (geV ?e) (geSolang ?e * geSigma ?e) gn"
    using read(4) tr by (auto simp: gens_as_def)
  obtain e where e: "digi_inv ?g ?m ?spect e (psDigi s)" using inv by (auto simp: pass_inv_def)
  have ev0: "dgEvent (psDigi s) = Some e" using e by (simp add: digi_inv_def)
  have nev: "0 \<le> psEvent s" and tree: "dgTree (psDigi s) = Some t" and N: "0 \<le> psBgFile s" "psBgFile s < 1000" and had: "psHadback s \<noteq> 0"
    using inv by (auto simp: pass_inv_def)
  have inp: "giGen (file_input f) = [gn]" "giECal (file_input f) = map Some (gfECal f)" "giScint (file_input f) = map Some (gfScint f)"
    by (simp_all add: file_input_def gn(1))
  obtain f2 e0 q where st: "SetTreeEvent ?R ?g gd (file_input f) (psEvent s) (psDigi s) = Some (f2, set_draws q ((psDigi s) \<lparr> dgEvent := Some e0 \<rparr>))"
      "event_track tr ?pm (geV ?e) (geSolang ?e * geSigma ?e) e0" "evEvtID e0 = psEvent s"
    using SetTreeEvent_track [OF ev0 inp(1) gn(2) inp(2,3), of ?R ?g gd "psEvent s"] nev by auto
  define d0 where "d0 = set_draws q ((psDigi s) \<lparr> dgEvent := Some e0 \<rparr>)"
  define e1 where "e1 = e0 \<lparr> evGEMClust := evGEMClust e \<rparr>"
  define d1 where "d1 = d0 \<lparr> dgEvent := Some e1 \<rparr>"
  have dig: "Digitize ?R ?g ?m gd ?spect d0 = Digitize ?R ?g ?m gd ?spect d1"
    using Digitize_forgets [of d0 e0] by (simp add: d0_def d1_def e1_def set_draws_def)
  have inv1: "digi_inv ?g ?m ?spect e1 d1" using e by (simp add: digi_inv_def d1_def d0_def e1_def set_draws_def)
  obtain ns N' gds where b: "bg_used E 0 (psBgFile s) (psBgFile s) ns N'" "int (length ns) \<le> peNback E"
    "next_start N' \<in> {0..<1000}" "0 < peNback E \<longrightarrow> ns \<noteq> []"
    "list_all2 (\<lambda>be. event_packed ?m 1 (snd be)) (concat (map (bg_entries E) ns)) gds"
    "\<forall>be \<in> set (concat (map (bg_entries E) ns)). entry_ok E 1 be"
    "\<And>s'. psBgFile s' = psBgFile s \<Longrightarrow> add_background E s' = Option.bind (add_all ?R ?g ?m ?spect gds (psDigi s'))
          (\<lambda>d. Some ((bg_added (ns \<noteq> []) d s') \<lparr> psBgFile := N' \<rparr>))"
    using add_background_ok [OF ok(1) N] by blast
  have so: "entry_ok E 0 be" "length (det_rows ?m ?e) \<le> S" using sig by (simp_all add: sig_ok_def)
  have ready: "\<forall>x \<in> set (gd # gds). data_ready ?R ?g ?spect x d1"
  proof -
    have "data_ready ?R ?g ?spect x d1" if x: "x \<in> set gds" for x
    proof -
      obtain y where "y \<in> set (concat (map (bg_entries E) ns))" "event_packed ?m 1 (snd y) x"
        using list_all2_right [OF b(5) x] by blast
      then show ?thesis using b(6) packed_ready by blast
    qed
    then show ?thesis using packed_ready [OF so(1) read(2)] by simp
  qed
  note hb = hits_bound [OF ok(2) so(2) read(2) b(2,5)]
  have su: "setup_ok ?R ?g ?spect" "gpSamplingPoints ?g \<le> 6" "noise_ok ?R ?g"
      "\<forall>ch \<in> set (fChambers ?spect). \<forall>pl \<in> set (chPlanes ch). plNStrips pl \<le> 32767"
    using ok(1) by (auto simp: pass_ok_def)
  obtain e' d' where run: "(do { (r, d) \<leftarrow> Digitize ?R ?g ?m gd ?spect d1; add_all ?R ?g ?m ?spect gds d }) = Some d'"
    and a: "digi_inv ?g ?m ?spect e' d'" "overlay ?m (concat (map (source_hits ?spect) (gd # gds))) (evGEMClust e')"
      "evNSignal e' = int (length (filter is_signal (evGEMClust e')))" "evMCTracks e' = evMCTracks e1"
      "\<forall>K. hit_room ?R ?g K \<longrightarrow> counts_below (2 * int (sum_list (map (\<lambda>gd. length (shHits gd)) (gd # gds))) * K) d'"
    using digitize_all_ok [OF su(1,2) inv1 ready hb(1)] by blast
  obtain r d2 where d2: "Digitize ?R ?g ?m gd ?spect d0 = Some (r, d2)" "add_all ?R ?g ?m ?spect gds d2 = Some d'"
    using run by (auto simp: dig bind_eq_Some_conv)
  have kp: "keeps d0 d'" using Digitize_keeps [OF d2(1)] add_all_keeps [OF d2(2)] by (rule keeps_trans)
  have ev': "dgEvent d' = Some e'" using a(1) by (simp add: digi_inv_def)
  have k: "dgTree d' = Some t" "evEvtID e' = psEvent s" "evWeight e' = evWeight e0"
    using kp ev' tree st(3) by (auto simp: keeps_def d0_def set_draws_def)
  have stor: "\<forall>ps \<in> set (dgDP d'). \<forall>p \<in> set ps. plane_storable p"
  proof -
    obtain K where "hit_room ?R ?g K" "2 * int (sum_list (map (\<lambda>gd. length (shHits gd)) (gd # gds))) * K \<le> 1000000000"
      using hb(2) by (auto simp: counts_fit_def)
    then show ?thesis using planes_storable [OF a(1) _ _ su(4)] a(5) by blast
  qed
  obtain ss d3 where f: "FillTree ?R ?g ?m d' = Some d3" "dgTree d3 = Some (t @ [e' \<lparr> evGEMStrips := ss \<rparr>])"
      "digi_inv ?g ?m ?spect (e' \<lparr> evGEMStrips := ss \<rparr>) d3" "dgDP d3 = dgDP d'"
      "\<not> dgFilled d' \<longrightarrow> list_all2 (strip_record ?m) (all_strips 0 (dgDP d')) ss"
    using FillTree_event [OF su(3) stor k(1) a(1)] by blast
  let ?ev = "e' \<lparr> evGEMStrips := ss \<rparr>" and ?N = "next_start N'"
  define s' where "s' = s \<lparr> psEvent := psEvent s + 1, psGood := psGood s + 1, psHadback := (if ns = [] then psHadback s else 1),
    psBgFile := ?N, psGb := (if peNback E = 0 then psGb s else False), psDigi := d3 \<rparr>"
  have bgr: "add_background E (s \<lparr> psGood := psGood s + 1, psDigi := d2 \<rparr>)
      = Some ((bg_added (ns \<noteq> []) d' (s \<lparr> psGood := psGood s + 1, psDigi := d2 \<rparr>)) \<lparr> psBgFile := N' \<rparr>)"
    using b(7) [of "s \<lparr> psGood := psGood s + 1, psDigi := d2 \<rparr>"] d2(2) by simp
  have nsn: "peNback E = 0 \<Longrightarrow> ns = []" using b(2) by simp
  have pb: "0 \<le> peNback E" using ok(1) by (simp add: pass_ok_def)
  have "pass_event E f s = Some s'"
    using hits read(1) gn(1) st(1) [folded d0_def] d2(1) bgr f(1) nsn b(4) pb
    by (auto simp: pass_event_def Let_def bg_added_def delete_gb_def next_event_def next_start_def s'_def)
  moreover have "pass_inv E (t @ [?ev]) s'" using f(2,3) b(3) had nev by (auto simp: pass_inv_def s'_def)
  moreover have "event_of E (psEvent s) ns ?e ?ev"
  proof -
    have "event_track tr ?pm (geV ?e) (geSolang ?e * geSigma ?e) ?ev" using st(2) k(3) a(4) by (simp add: event_track_def e1_def)
    moreover have "list_all2 (strip_record ?m) (all_strips 0 (dgDP d3)) (evGEMStrips ?ev)" if c: "evGEMClust ?ev \<noteq> []"
    proof -
      have "concat (map (source_hits ?spect) (gd # gds)) \<noteq> []"
      proof
        assume "concat (map (source_hits ?spect) (gd # gds)) = []"
        then have "length (evGEMClust e') = 0" unfolding overlay_length [OF a(2)] by simp
        then show False using c by simp
      qed
      then obtain x where "x \<in> set (gd # gds)" "source_hits ?spect x \<noteq> []" unfolding concat_eq_Nil_conv by auto
      then have "\<exists>x \<in> set (gd # gds). shHits x \<noteq> []" by (intro bexI [of _ x]) (auto simp: source_hits_def)
      then have "\<not> dgFilled d'"
        using add_all_filled [OF d2(2)] d2(1) by (auto simp: Digitize_def bind_eq_Some_conv dest!: AdditiveDigitize_filled)
      then show ?thesis using f(4,5) by simp
    qed
    ultimately show ?thesis using tr read(2) b(5) a(2,3) k(2) f(3) unfolding event_of_def by auto
  qed
  moreover have "psEvent s' = psEvent s + 1" "psGood s' = psGood s + 1" "psBgFile s' = next_start N'" by (simp_all add: s'_def)
  ultimately show ?thesis unfolding if_P [OF True] using b(1) by blast
qed


section \<open>The loops over events and files\<close>

text \<open>The events written for some entries of the signal files, from event number nev and background file N on,
  up to background file M.\<close>

fun written :: "passenv \<Rightarrow> int \<Rightarrow> int \<Rightarrow> (int \<times> g4event) list \<Rightarrow> simevent list \<Rightarrow> int \<Rightarrow> bool" where
  "written E nev N [] t M \<longleftrightarrow> t = [] \<and> M = N"
| "written E nev N (be # es) t M \<longleftrightarrow>
     (if signal_event E (snd be)
      then \<exists>ev t' ns N'. t = ev # t' \<and> bg_used E 0 N N ns N' \<and> event_of E nev ns (snd be) ev
        \<and> written E (nev + 1) (next_start N') es t' M
      else written E (nev + 1) N es t M)"

lemma written_append:
  "written E nev N es t M \<Longrightarrow> written E (nev + int (length es)) M es' t' M' \<Longrightarrow> written E nev N (es @ es') (t @ t') M'"
proof (induction es arbitrary: nev N t)
  case (Cons be es)
  show ?case
  proof (cases "signal_event E (snd be)")
    case False
    then show ?thesis using Cons.prems Cons.IH [of "nev + 1" N t] by (simp add: add.assoc)
  next
    case True
    then obtain ev u ns N' where u: "t = ev # u" "bg_used E 0 N N ns N'" "event_of E nev ns (snd be) ev"
        "written E (nev + 1) (next_start N') es u M"
      using Cons.prems(1) by auto
    have "written E (nev + 1) (next_start N') (es @ es') (u @ t') M'"
      using Cons.IH [OF u(4)] Cons.prems(2) by (simp add: add.assoc)
    then show ?thesis using True u(1-3) by auto
  qed
qed simp

lemma written_length: "written E nev N es t M \<Longrightarrow> length t = length (filter (\<lambda>be. signal_event E (snd be)) es)"
  by (induction es arbitrary: nev N t) (auto split: if_splits)

text \<open>How far a run has come: es processed, t written.\<close>

definition came :: "passenv \<Rightarrow> pass \<Rightarrow> (int \<times> g4event) list \<Rightarrow> simevent list \<Rightarrow> pass \<Rightarrow> bool" where
  "came E s es t s' \<longleftrightarrow> psEvent s' = psEvent s + int (length es) \<and> psGood s' = psGood s + int (length t)
     \<and> written E (psEvent s) (psBgFile s) es t (psBgFile s')"

lemma came_refl: "came E s [] [] s" by (simp add: came_def)

lemma came_trans: "came E s es t s1 \<Longrightarrow> came E s1 es' t' s2 \<Longrightarrow> came E s (es @ es') (t @ t') s2"
  using written_append [of E "psEvent s" "psBgFile s" es t "psBgFile s1" es' t' "psBgFile s2"]
  by (simp add: came_def)

text \<open>One turn of the loop over the events.\<close>

lemma pass_event_came:
  assumes ok: "pass_ok E" "room E S" "pass_inv E t s" and f: "reading f es k" "gfSource f = 0" "k < length es" "length es < 4294967296"
    "sig_ok E S (es ! k)"
  shows "\<exists>g. ReadNextEvent (peQ E) (peM E) f = Some (1, g) \<and> reading g es (k + 1) \<and> gfSource g = 0
    \<and> (\<exists>s' u. pass_event E g s = Some s' \<and> pass_inv E (t @ u) s' \<and> came E s [es ! k] u s')"
proof -
  have k: "k < 4294967296" using f(3,4) by simp
  have good: "read_good (peM E) (gfSource f) (es ! k)" "rows_fit (peM E) (gfSource f) (snd (es ! k))"
    using f(2,5) by (simp_all add: sig_ok_def entry_ok_def)
  obtain g where g: "ReadNextEvent (peQ E) (peM E) f = Some (1, g)"
      "hits_as (det_type (peM E)) (peM E) 0 (snd (es ! k)) (gfHits g)"
    using ReadNextEvent_ok [OF f(1,3) k good(1), of "peQ E"] f(2) by auto
  obtain gd where r: "reading g es (k + 1)" "gfSource g = 0" "gens_as (det_type (peM E)) 0 (snd (es ! k)) (gfGens g)"
      "GetGEMData (peM E) g = Some gd" "event_packed (peM E) 0 (snd (es ! k)) gd"
    using read_and_pack [OF f(1,3) k good, of "peQ E"] g(1) f(2) by auto
  note pe = pass_event_ok [OF ok(1,2) f(5) ok(3) r(4,5) g(2) r(3)]
  have "\<exists>s' u. pass_event E g s = Some s' \<and> pass_inv E (t @ u) s' \<and> came E s [es ! k] u s'"
  proof (cases "signal_event E (snd (es ! k))")
    case False
    then have "pass_event E g s = Some (next_event s)" using pe by simp
    moreover have "came E s [es ! k] [] (next_event s)" using False by (simp add: came_def next_event_def)
    ultimately show ?thesis using next_event_inv [OF ok(3)] by (intro exI [of _ "next_event s"] exI [of _ "[]"]) simp
  next
    case True
    then obtain s' ev ns N' where e: "pass_event E g s = Some s'" "pass_inv E (t @ [ev]) s'" "psEvent s' = psEvent s + 1"
        "psGood s' = psGood s + 1" "bg_used E 0 (psBgFile s) (psBgFile s) ns N'" "psBgFile s' = next_start N'"
        "event_of E (psEvent s) ns (snd (es ! k)) ev" using pe by auto
    then have "came E s [es ! k] [ev] s'" using True by (auto simp: came_def)
    then show ?thesis using e(1,2) by blast
  qed
  then show ?thesis using g(1) r(1,2) by blast
qed

text \<open>The loop ends at the end of the file or when Nmax events have been read.\<close>

lemma pass_events_ok:
  assumes ok: "pass_ok E" "room E S" and es: "length es < 4294967296" "\<forall>be \<in> set es. sig_ok E S be"
  shows "reading f es k \<Longrightarrow> gfSource f = 0 \<Longrightarrow> k \<le> length es \<Longrightarrow> pass_inv E t s \<Longrightarrow> psEvent s + int (length es - k) < 4294967296 \<Longrightarrow>
    \<exists>f' s' u. pass_events E f s = Some (f', s') \<and> gfFile f' = Some True \<and> pass_inv E (t @ u) s'
      \<and> came E s (take (nat (peNmax E - psEvent s)) (drop k es)) u s'"
proof (induction "length es - k" arbitrary: f k t s)
  case 0
  then have "reading f es (length es)" by simp
  then obtain g where "ReadNextEvent (peQ E) (peM E) f = Some (0, g)" "gfFile g = Some True"
    using ReadNextEvent_end [OF _ es(1)] by blast
  then have "pass_events E f s = Some (g, s)" by (subst pass_events.simps) simp
  then show ?case using 0 \<open>gfFile g = Some True\<close> by (intro exI [of _ g] exI [of _ s] exI [of _ "[]"]) (simp add: came_refl)
next
  case (Suc n)
  have k: "k < length es" using Suc.hyps(2) by simp
  then have sk: "sig_ok E S (es ! k)" using es(2) by simp
  obtain g s1 u where g: "ReadNextEvent (peQ E) (peM E) f = Some (1, g)" "reading g es (k + 1)" "gfSource g = 0"
      "pass_event E g s = Some s1" "pass_inv E (t @ u) s1" "came E s [es ! k] u s1"
    using pass_event_came [OF ok Suc.prems(4,1,2) k es(1) sk] by blast
  have nev: "0 \<le> psEvent s" "psEvent s < 4294967296" "psHadback s \<noteq> 0"
    using Suc.prems(4,5) by (simp_all add: pass_inv_def)
  have d: "drop k es = es ! k # drop (k + 1) es" using k by (simp add: Cons_nth_drop_Suc)
  show ?case
  proof (cases "psEvent s < peNmax E")
    case False
    then have "pass_events E f s = Some (g, s)" using g(1) nev by (subst pass_events.simps) simp
    moreover have "gfFile g = Some True" using g(2) by (simp add: reading_def)
    ultimately show ?thesis using False Suc.prems(4)
      by (intro exI [of _ g] exI [of _ s] exI [of _ "[]"]) (simp add: came_refl)
  next
    case True
    have e1: "psEvent s1 = psEvent s + 1" using g(6) by (simp add: came_def)
    have "n = length es - (k + 1)" "k + 1 \<le> length es" "psEvent s1 + int (length es - (k + 1)) < 4294967296"
      using Suc.hyps(2) k Suc.prems(5) e1 by simp_all
    then obtain f' s' u' where r: "pass_events E g s1 = Some (f', s')" "gfFile f' = Some True" "pass_inv E ((t @ u) @ u') s'"
      "came E s1 (take (nat (peNmax E - psEvent s1)) (drop (k + 1) es)) u' s'"
      using Suc.hyps(1) [OF _ g(2,3) _ g(5)] by blast
    have "pass_events E f s = Some (f', s')" using g(1,4) r(1) True nev by (subst pass_events.simps) simp
    moreover have "nat (peNmax E - psEvent s) = Suc (nat (peNmax E - psEvent s1))" using True e1 by simp
    then have "take (nat (peNmax E - psEvent s)) (drop k es) = [es ! k] @ take (nat (peNmax E - psEvent s1)) (drop (k + 1) es)"
      by (simp add: d)
    moreover have "came E s ([es ! k] @ take (nat (peNmax E - psEvent s1)) (drop (k + 1) es)) (u @ u') s'"
      using came_trans [OF g(6) r(4)] .
    ultimately show ?thesis using r(2,3) by (intro exI [of _ f'] exI [of _ s'] exI [of _ "u @ u'"]) simp
  qed
qed

text \<open>The entries of the signal files; a file that cannot be opened has none.\<close>

definition sig_entries :: "passenv \<Rightarrow> nat \<Rightarrow> (int \<times> g4event) list" where
  "sig_entries E i = (case peDisk E (sig_file E i) of TreeT es \<Rightarrow> es | _ \<Rightarrow> [])"

definition sig_file_ok :: "passenv \<Rightarrow> nat \<Rightarrow> nat \<Rightarrow> bool" where
  "sig_file_ok E S i \<longleftrightarrow> sig_file E i \<noteq> [] \<and> length (sig_file E i) < 255 \<and> peDisk E (sig_file E i) \<noteq> NoTreeT
     \<and> (\<forall>be \<in> set (sig_entries E i). sig_ok E S be)"

lemma pass_file_ok:
  assumes ok: "pass_ok E" "room E S" "pass_inv E t s" and f: "sig_file_ok E S i"
    "psEvent s + int (length (sig_entries E i)) < 4294967296"
  shows "\<exists>s' u. pass_file E i s = Some s' \<and> pass_inv E (t @ u) s'
    \<and> came E s (take (nat (peNmax E - psEvent s)) (sig_entries E i)) u s'"
proof -
  obtain ty where ty: "Getg4sbsDetectorType (peM E) = Some ty" using ok(1) by (auto simp: pass_ok_def)
  have nm: "length (sig_file E i) < 255" "sig_file E i \<noteq> []" using f(1) by (simp_all add: sig_file_ok_def)
  note op = open_file [OF nm ty, where src = 0 and disk = "peDisk E"]
  show ?thesis
  proof (cases "peDisk E (sig_file E i)")
    case NotOpen
    then have "pass_file E i s = Some s" using op(1) by (auto simp: pass_file_def Let_def)
    then show ?thesis using ok(3) NotOpen
      by (intro exI [of _ s] exI [of _ "[]"]) (simp add: sig_entries_def came_refl)
  next
    case NoTreeT
    then show ?thesis using f(1) by (simp add: sig_file_ok_def)
  next
    case (TreeT es)
    then have e: "sig_entries E i = es" by (simp add: sig_entries_def)
    obtain f0 g where g: "TSBSGeant4File (sig_file E i) = Some f0" "g4_Open (peDisk E) (peM E) (g4_SetSource 0 f0) = Some (1, g)"
        "reading g es 0" "gfSource g = 0" using op(2) [OF TreeT] by blast
    have es: "length es < 4294967296" "\<forall>be \<in> set es. sig_ok E S be" "psEvent s + int (length es - 0) < 4294967296"
      using f ok(3) e by (simp_all add: sig_file_ok_def pass_inv_def)
    obtain f' s' u where r: "pass_events E g s = Some (f', s')" "gfFile f' = Some True" "pass_inv E (t @ u) s'"
        "came E s (take (nat (peNmax E - psEvent s)) (drop 0 es)) u s'"
      using pass_events_ok [OF ok(1,2) es(1,2) g(3,4) _ ok(3) es(3)] by blast
    have "pass_file E i s = Some s'" using g(1,2) r(1,2) by (simp add: pass_file_def Let_def g4_Close_def)
    then show ?thesis using r(3,4) e by (intro exI [of _ s'] exI [of _ u]) simp
  qed
qed

lemma pass_files_ok:
  assumes ok: "pass_ok E" "room E S"
  shows "pass_inv E t s \<Longrightarrow> \<forall>q < i + n. sig_file_ok E S q \<Longrightarrow>
    psEvent s + int (length (concat (map (sig_entries E) [i..<i + n]))) < 4294967296 \<Longrightarrow>
    \<exists>s' u. pass_files E i n s = Some s' \<and> pass_inv E (t @ u) s'
      \<and> came E s (take (nat (peNmax E - psEvent s)) (concat (map (sig_entries E) [i..<i + n]))) u s'"
proof (induction n arbitrary: i t s)
  case 0
  then show ?case by (intro exI [of _ s] exI [of _ "[]"]) (simp add: came_refl)
next
  case (Suc n)
  let ?es = "sig_entries E i" and ?rest = "concat (map (sig_entries E) [i + 1..<(i + 1) + n])"
  have u: "[i..<i + Suc n] = i # [i + 1..<(i + 1) + n]" by (simp add: upt_conv_Cons)
  have f: "sig_file_ok E S i" "psEvent s + int (length ?es) < 4294967296" using Suc.prems(2,3) unfolding u by simp_all
  obtain s1 v where s1: "pass_file E i s = Some s1" "pass_inv E (t @ v) s1" "came E s (take (nat (peNmax E - psEvent s)) ?es) v s1"
    using pass_file_ok [OF ok Suc.prems(1) f] by blast
  have e1: "psEvent s1 = psEvent s + int (length (take (nat (peNmax E - psEvent s)) ?es))" using s1(3) by (simp add: came_def)
  then have "psEvent s1 + int (length ?rest) < 4294967296" using Suc.prems(3) unfolding u by simp
  then obtain s2 w where s2: "pass_files E (i + 1) n s1 = Some s2" "pass_inv E ((t @ v) @ w) s2"
      "came E s1 (take (nat (peNmax E - psEvent s1)) ?rest) w s2"
    using Suc.IH [OF s1(2), of "i + 1"] Suc.prems(2) by auto
  have "nat (peNmax E - psEvent s1) = nat (peNmax E - psEvent s) - length ?es" using e1 by (simp split: if_splits add: min_def)
  then have "take (nat (peNmax E - psEvent s)) ?es @ take (nat (peNmax E - psEvent s1)) ?rest
      = take (nat (peNmax E - psEvent s)) (?es @ ?rest)" by simp
  moreover have "concat (map (sig_entries E) [i..<i + Suc n]) = ?es @ ?rest" unfolding u by simp
  ultimately have "came E s (take (nat (peNmax E - psEvent s)) (concat (map (sig_entries E) [i..<i + Suc n]))) (v @ w) s2"
    using came_trans [OF s1(3) s2(3)] by simp
  then show ?case using s1(1) s2(1,2) by (intro exI [of _ s2] exI [of _ "v @ w"]) simp
qed

text \<open>The digitizer of a run, with its database read and the output tree made, is set up as the loops need it;
  the run is then the loop over the signal files.\<close>

lemma new_digitizer_ok:
  assumes "ReadDatabaseD (dbNChamber m) (seRatedig S) (sePar0 S) = Some (st, g)" "spec_ready spect"
    "0 \<le> gpSamplingPoints g" "gpSamplingPoints g \<le> 6" "seCreated S"
  shows "\<exists>g' d. new_digitizer S m spect = Some (g', d) \<and> digi_inv g' m spect simevent_new d \<and> dgTree d = Some []
    \<and> gpSamplingPoints g' = gpSamplingPoints g"
proof -
  obtain d where d: "TSBSSimGEMDigitization (dbNChamber m) g spect
      = Some (g \<lparr> gpTriggerOffset := resize (nat (dbNChamber m)) 0 (gpTriggerOffset g) \<rparr>, d)" "digi_inv g m spect simevent_new d"
    using digitizer_ok [OF assms(2-4)] by blast
  have "digi_inv g m spect simevent_new (InitTree True d)" using d(2) by (simp add: InitTree_def digi_inv_def)
  then show ?thesis using assms(1,5) d(1) by (simp add: new_digitizer_def InitTree_def)
qed

lemma DigitizationPass_run:
  assumes "pass_config fspec mips = Some c" "load_setup S c = Ok (m, Inr spect)" "new_digitizer S m spect = Some (g, d)"
    "pass_files \<lparr> peR = seRng S, peQ = seCalRng S, peG = g, peM = m, peSpec = spect, peDisk = seDisk S,
       peSig = pcSig c, peBkgd = pcBkgd c, peMips = mips, peNmax = Nmax, peNback = nbacktoadd \<rparr> 0 n (pass0 d) = Some s"
  shows "DigitizationPass S fspec n Nmax nbacktoadd mips = Ok (Done (outname c nbacktoadd) s)"
  using assms by (simp add: DigitizationPass_def run_of_def Let_def)

lemma DigitizationPass_no_geometry:
  "fspec \<notin> {1, 3, 4} \<Longrightarrow> DigitizationPass S fspec n Nmax nbacktoadd mips = Ok NoGeometry"
  by (simp add: DigitizationPass_def pass_config_def)

text \<open>Without any background file nothing is added, and at the end of the first event gb, which was never
  set, is deleted.\<close>

lemma no_background_undefined:
  assumes "0 < peNback E" "peNback E \<le> 3" "\<forall>n. 0 \<le> n \<and> n < 1003 \<longrightarrow> open_bg E n \<noteq> None \<and> \<not> present E n"
    "0 \<le> psBgFile s" "psBgFile s < 1000" "\<not> psGb s"
  shows "add_background E s = Some (s \<lparr> psBgFile := peNback E \<rparr>)" "delete_gb E (s \<lparr> psBgFile := N, psDigi := d \<rparr>) = None"
proof -
  have o: "\<forall>n. 0 \<le> n \<and> n < 1003 \<longrightarrow> open_bg E n \<noteq> None" using assms(3) by blast
  obtain ns N' where u: "bg_used E 0 (psBgFile s) (psBgFile s) ns N'"
      "\<forall>s'. bg_files E (psBgFile s, psBgFile s, psBgFile s + peNback E) s' = Option.bind (add_bg_list E ns s') (\<lambda>s. Some (N', s))"
    using bg_files_ok [OF assms(2) o assms(4,5), of 0] assms(1) by auto
  note so = bg_used_sound [OF u(1) assms(4,5) less_imp_le [OF assms(1)]]
  have "ns = []"
  proof (rule ccontr)
    assume "ns \<noteq> []"
    then obtain n where "n \<in> set ns" by (cases ns) auto
    then have "present E n" "0 \<le> n" "n < 1003" using so(2) assms(2,4) by fastforce+
    then show False using assms(3) by blast
  qed
  moreover from this have "N' = peNback E" using so(6) assms(1) by simp
  ultimately show "add_background E s = Some (s \<lparr> psBgFile := peNback E \<rparr>)"
    using u(2) assms(1) by (simp add: add_background_def Let_def)
  show "delete_gb E (s \<lparr> psBgFile := N, psDigi := d \<rparr>) = None" using assms(1,6) by (simp add: delete_gb_def)
qed

section \<open>The chambers of the spectrometer\<close>

lemma modules_before_le: "k \<le> length ns \<Longrightarrow> modules_before ns k \<le> modules_before ns (length ns)"
proof (induction ns arbitrary: k)
  case (Cons n ns)
  then show ?case by (cases k) simp_all
qed simp

lemma add_modules_spec:
  "add_modules C i j n spect = Some (Inr spect') \<Longrightarrow> \<exists>chs. fChambers spect' = fChambers spect @ chs \<and> length chs = n
    \<and> (\<forall>q < n. init_chamber C i (j + int q) = Some (Inr (chs ! q)))"
proof (induction n arbitrary: j spect)
  case (Suc n)
  obtain ch where ch: "init_chamber C i j = Some (Inr ch)" "add_modules C i (j + 1) n (snd (AddGEM ch spect)) = Some (Inr spect')"
    using Suc.prems by (auto split: option.splits sum.splits)
  obtain chs where c: "fChambers spect' = fChambers (snd (AddGEM ch spect)) @ chs" "length chs = n"
      "\<forall>q < n. init_chamber C i (j + 1 + int q) = Some (Inr (chs ! q))" using Suc.IH [OF ch(2)] by blast
  have "init_chamber C i (j + int q) = Some (Inr ((ch # chs) ! q))" if "q < Suc n" for q
    using that ch(1) c(3) by (cases q) (simp_all add: add.assoc)
  then show ?case using c(1,2) by (intro exI [of _ "ch # chs"]) (simp add: AddGEM_def)
qed simp

lemma add_planes_spec:
  "add_planes C m (int i) n spect = Some (Inr spect') \<Longrightarrow> i + n = length (dbNModule m) \<Longrightarrow>
    \<exists>chs. fChambers spect' = fChambers spect @ chs \<and> int (length chs) = modules_before (drop i (dbNModule m)) n
      \<and> (\<forall>k < n. \<forall>j. 0 \<le> j \<and> j < dbNModule m ! (i + k) \<longrightarrow>
          init_chamber C (int (i + k)) j = Some (Inr (chs ! nat (modules_before (drop i (dbNModule m)) k + j))))"
proof (induction n arbitrary: i spect)
  case (Suc n)
  let ?ns = "dbNModule m"
  have i: "i < length ?ns" using Suc.prems(2) by simp
  then have nm: "GetNModule m (int i) = Some (?ns ! i)" by (simp add: GetNModule_def)
  obtain s1 where s1: "add_modules C (int i) 0 (nat (?ns ! i)) spect = Some (Inr s1)"
      "add_planes C m (int (Suc i)) n s1 = Some (Inr spect')"
    using Suc.prems(1) nm by (auto simp: add.commute split: option.splits sum.splits)
  obtain as where as: "fChambers s1 = fChambers spect @ as" "length as = nat (?ns ! i)"
      "\<forall>q < nat (?ns ! i). init_chamber C (int i) (0 + int q) = Some (Inr (as ! q))" using add_modules_spec [OF s1(1)] by blast
  obtain bs where bs: "fChambers spect' = fChambers s1 @ bs" "int (length bs) = modules_before (drop (Suc i) ?ns) n"
      "\<forall>k < n. \<forall>j. 0 \<le> j \<and> j < ?ns ! (Suc i + k) \<longrightarrow>
          init_chamber C (int (Suc i + k)) j = Some (Inr (bs ! nat (modules_before (drop (Suc i) ?ns) k + j)))"
    using Suc.IH [OF s1(2)] Suc.prems(2) by auto
  have d: "drop i ?ns = ?ns ! i # drop (Suc i) ?ns" using i by (simp add: Cons_nth_drop_Suc)
  have "init_chamber C (int (i + k)) j = Some (Inr ((as @ bs) ! nat (modules_before (drop i ?ns) k + j)))"
    if k: "k < Suc n" "0 \<le> j" "j < ?ns ! (i + k)" for k j
  proof (cases k)
    case 0
    then have "nat j < nat (?ns ! i)" using k by simp
    then show ?thesis using as(2,3) 0 k(2) by (auto simp: nth_append dest: spec [of _ "nat j"])
  next
    case (Suc q)
    have b: "init_chamber C (int (Suc i + q)) j = Some (Inr (bs ! nat (modules_before (drop (Suc i) ?ns) q + j)))"
      using bs(3) k Suc by simp
    have "0 \<le> modules_before (drop (Suc i) ?ns) q + j" using k(2) modules_before_nonneg [of "drop (Suc i) ?ns" q] by linarith
    then have "nat (modules_before (drop i ?ns) k + j) = length as + nat (modules_before (drop (Suc i) ?ns) q + j)"
      unfolding Suc d modules_before_simps as(2) by linarith
    then show ?thesis using b Suc by (simp add: nth_append)
  qed
  then show ?case using as(1,2) bs(1,2) d by (intro exI [of _ "as @ bs"]) simp
qed simp

section \<open>The properties\<close>

text \<open>C22. The search for background files ends.  With at most three files per event, from any file number
  below 1000 on, the loop terminates, whatever files exist, and its effect is that of adding some files that
  exist, in increasing order, each once, and not more than asked for: exactly the next ones if they all
  exist, and at least one if file 999 exists.  Fewer are added only when the numbers are used up, and then
  the next event starts at the number of files per event instead of 0.\<close>

theorem background_search_ends:
  assumes "0 < peNback E" "peNback E \<le> 3" "\<forall>n. 0 \<le> n \<and> n < 1003 \<longrightarrow> open_bg E n \<noteq> None" "0 \<le> N" "N < 1000"
  shows "\<exists>ns N'. (\<forall>s. bg_files E (N, N, N + peNback E) s = Option.bind (add_bg_list E ns s) (\<lambda>s. Some (N', s)))
    \<and> sorted_wrt (<) ns \<and> (\<forall>n \<in> set ns. present E n \<and> N \<le> n) \<and> int (length ns) \<le> peNback E
    \<and> (if int (length ns) = peNback E then N' = last ns + 1 else N' = peNback E)
    \<and> ((\<forall>n. N \<le> n \<and> n < N + peNback E \<longrightarrow> present E n) \<longrightarrow> ns = [N..N + peNback E - 1])
    \<and> (present E 999 \<longrightarrow> ns \<noteq> [])"
proof -
  obtain ns N' where u: "bg_used E 0 N N ns N'"
      "\<forall>s. bg_files E (N, N, N + peNback E) s = Option.bind (add_bg_list E ns s) (\<lambda>s. Some (N', s))"
    using bg_files_ok [OF assms(2-5), of 0] assms(1) by auto
  note so = bg_used_sound [OF u(1) assms(4,5) less_imp_le [OF assms(1)]]
  have "N' = last ns + 1" if "int (length ns) = peNback E"
    using u(1) that assms(1) unfolding bg_used_def add_0 by (auto split: if_splits)
  then have "if int (length ns) = peNback E then N' = last ns + 1 else N' = peNback E" using so(3,6) by auto
  then show ?thesis using u(2) so(1-3,7,8) assms(1) by (intro exI [of _ ns] exI [of _ N']) blast
qed

text \<open>C24. With four or more files per event the search may never end.  If only the files 0, 1 and 2
  exist, the variable of the loop never reaches its bound: each time the count of missing files reaches
  1000 the search is restarted at a number that is too large to meet them again.  The function that adds
  the background has no result.\<close>

theorem background_search_endless:
  assumes "4 \<le> peNback E" "\<forall>n. present E n \<longleftrightarrow> n \<in> {0, 1, 2}"
  shows "(\<forall>t. let (Nfile, N, post) = ((\<lambda>c. bg_step (peNback E) (present E (fst c)) c) ^^ t) (0, 0, peNback E) in Nfile < post)
    \<and> (psBgFile s = 0 \<longrightarrow> add_background E s = None)"
proof -
  have e: "(\<lambda>c. bg_step (peNback E) (present E (fst c)) c) = (\<lambda>c :: int \<times> int \<times> int. bg_step (peNback E) (fst c \<in> {0, 1, 2}) c)"
    using assms(2) by (simp add: fun_eq_iff)
  have "searching (peNback E) (0, 0, peNback E)" by (simp add: searching_def)
  then have "add_background E s = None" if "psBgFile s = 0"
    using bg_files_endless [OF assms] that assms(1) by (simp add: add_background_def Let_def)
  then show ?thesis using bg_search_endless [OF assms(1)] unfolding e by blast
qed

text \<open>C23. The spectrometer has its chambers in the order of the tables of the database.  After the data
  bases are loaded into a fresh manager and the chambers are set up, there is one chamber per module, the
  chamber number GetGEMID of a plane and a module is the place of the chamber that was set up for them, and
  every chamber number is that of its plane and module.\<close>

theorem spectrometer_numbering:
  assumes "load_setup S c = Ok (m, Inr spect)" "dbNModule (seManager S) = []"
  shows "int (length (fChambers spect)) = modules_before (dbNModule m) (length (dbNModule m))
    \<and> (\<forall>k < length (dbNModule m). \<forall>j. 0 \<le> j \<and> j < dbNModule m ! k \<longrightarrow>
         (\<exists>ch. init_chamber (seChambers S) (int k) j = Some (Inr ch) \<and> GetChamber spect (GetGEMID m (int k) j) = Some ch))
    \<and> (\<forall>ic < length (fChambers spect). 0 \<le> GetPlaneID m (int ic) \<and> GetPlaneID m (int ic) < dbNGEMPlane m
         \<and> 0 \<le> GetModuleID m (int ic) \<and> GetModuleID m (int ic) < dbNModule m ! nat (GetPlaneID m (int ic))
         \<and> GetGEMID m (GetPlaneID m (int ic)) (GetModuleID m (int ic)) = int ic)"
proof -
  let ?C = "seChambers S" and ?ns = "dbNModule m"
  obtain m1 where l: "LoadGeneralInfo (seGetenv S) (seContents S) (seReadLine S) (pcGeneral c) (seManager S) = Ok m1"
      "LoadGeoInfo (seGetenv S) (seContents S) (pcGeo c) m1 = Ok m"
      "add_planes ?C m 0 (nat (dbNGEMPlane m)) \<lparr> fChambers = [] \<rparr> = Some (Inr spect)"
    using assms(1) by (auto simp: load_setup_def run_of_def split: option.splits)
  note num = LoadGeneralInfo_numbering [OF l(1) assms(2)]
  obtain inp st where "load_planes inp (pcGeo c) 0 (nat (dbNGEMPlane m1)) st m1 = Ok m"
    using l(2) by (auto simp: LoadGeoInfo_def split: option.splits)
  then have "same_tables m1 m" "dbNGEMPlane m1 = dbNGEMPlane m" using load_planes_spec by fastforce+
  then have same: "dbNModule m1 = ?ns" "GetGEMID m1 = GetGEMID m" "GetPlaneID m1 = GetPlaneID m"
      "GetModuleID m1 = GetModuleID m" "dbNGEMPlane m1 = dbNGEMPlane m"
    by (auto simp: same_tables_def GetGEMID_def GetPlaneID_def GetModuleID_def intro!: ext)
  have len: "int (length ?ns) = dbNGEMPlane m" using num same by simp
  then have "nat (dbNGEMPlane m) = length ?ns" by simp
  then obtain chs where chs: "fChambers spect = chs" "int (length chs) = modules_before ?ns (length ?ns)"
      "\<forall>k < length ?ns. \<forall>j. 0 \<le> j \<and> j < ?ns ! k \<longrightarrow> init_chamber ?C (int k) j = Some (Inr (chs ! nat (modules_before ?ns k + j)))"
    using add_planes_spec [of ?C m 0 "length ?ns" "\<lparr> fChambers = [] \<rparr>" spect] l(3) by auto
  have gem: "GetGEMID m (int k) j = modules_before ?ns k + j \<and> GetPlaneID m (GetGEMID m (int k) j) = int k
      \<and> GetModuleID m (GetGEMID m (int k) j) = j" if "k < length ?ns" "0 \<le> j" "j < ?ns ! k" for k j
    using num that unfolding same by blast
  have below: "modules_before ?ns k + j < modules_before ?ns (length ?ns)" if "k < length ?ns" "0 \<le> j" "j < ?ns ! k" for k j
  proof -
    have "modules_before ?ns (Suc k) \<le> modules_before ?ns (length ?ns)"
      using that(1) by (simp add: modules_before_le)
    then show ?thesis using that by (simp add: modules_before_Suc)
  qed
  have "\<exists>ch. init_chamber ?C (int k) j = Some (Inr ch) \<and> GetChamber spect (GetGEMID m (int k) j) = Some ch"
    if k: "k < length ?ns" "0 \<le> j" "j < ?ns ! k" for k j
  proof -
    have "0 \<le> modules_before ?ns k + j" using k(2) modules_before_nonneg [of ?ns k] by linarith
    moreover have "nat (modules_before ?ns k + j) < length chs" using below [OF k] chs(2) calculation by linarith
    ultimately show ?thesis using chs(1,3) gem [OF k] k by (auto simp: GetChamber_def rdi_def)
  qed
  moreover have "0 \<le> GetPlaneID m (int ic) \<and> GetPlaneID m (int ic) < dbNGEMPlane m
         \<and> 0 \<le> GetModuleID m (int ic) \<and> GetModuleID m (int ic) < ?ns ! nat (GetPlaneID m (int ic))
         \<and> GetGEMID m (GetPlaneID m (int ic)) (GetModuleID m (int ic)) = int ic" if ic: "ic < length (fChambers spect)" for ic
  proof -
    obtain k where k: "k < length ?ns" "0 \<le> int ic - modules_before ?ns k" "int ic - modules_before ?ns k < ?ns ! k"
      using modules_before_cover [of "int ic" ?ns] ic chs(1,2) by auto
    then show ?thesis using gem [OF k] len by auto
  qed
  ultimately show ?thesis using chs(1,2) by blast
qed

section \<open>Examples\<close>

text \<open>A run with given files and number of background files per event.\<close>

definition passB :: "(string \<Rightarrow> g4disk) \<Rightarrow> int \<Rightarrow> passenv" where
  "passB disk nb = \<lparr> peR = rngEx, peQ = \<lparr> cgPois = \<lambda>_ _. 0, cgGaus = \<lambda>_ _ _. 0 \<rparr>, peG = gparEx, peM = dbmG,
     peSpec = \<lparr> fChambers = [] \<rparr>, peDisk = disk, peSig = ''s'', peBkgd = ''b'', peMips = False, peNmax = 4294967295, peNback = nb \<rparr>"

lemma length_digits: "n < 10000 \<Longrightarrow> length (digits_of n) \<le> 4"
  by (subst digits_of.simps, simp, subst digits_of.simps, simp, subst digits_of.simps, simp, subst digits_of.simps) simp

lemma bg_name: "bg_file (passB disk nb) n = ''b/beam_bkgd_'' @ show_int n @ ''.root''"
  by (simp add: bg_file_def passB_def)

lemma bg_name_length: "0 \<le> n \<Longrightarrow> n < 1003 \<Longrightarrow> length (bg_file (passB disk nb) n) < 255"
proof -
  assume "0 \<le> n" "n < 1003"
  then show ?thesis using length_digits [of "nat n"] by (simp add: bg_name show_int_def nat_less_iff)
qed

lemma open_passB:
  assumes "length (bg_file (passB disk nb) n) < 255"
  shows "\<exists>r f. open_bg (passB disk nb) n = Some (r, f) \<and> (r \<noteq> 0 \<longleftrightarrow> disk (bg_file (passB disk nb) n) \<noteq> NotOpen)"
proof -
  have d: "peDisk (passB disk nb) = disk" "peM (passB disk nb) = dbmG" by (simp_all add: passB_def)
  have n: "bg_file (passB disk nb) n \<noteq> []" by (simp add: bg_name)
  show ?thesis using assms n dbmG_type(1)
    by (simp add: open_bg_def d TSBSGeant4File_def g4_SetFilename_def g4_Open_def Let_def split: g4disk.split)
qed

theorem background_search_ends_witness:
  "\<exists>N'. \<forall>s. bg_files (passB (\<lambda>_. TreeT []) 2) (5, 5, 7) s = Option.bind (add_bg_list (passB (\<lambda>_. TreeT []) 2) [5, 6] s) (\<lambda>s. Some (N', s))"
proof -
  let ?E = "passB (\<lambda>_. TreeT []) 2"
  have nb: "peNback ?E = 2" by (simp add: passB_def)
  have o: "open_bg ?E n \<noteq> None \<and> present ?E n" if "0 \<le> n" "n < 1003" for n
    using open_passB [OF bg_name_length [OF that], of "\<lambda>_. TreeT []" 2] by (auto simp: present_def)
  obtain ns N' where "\<forall>s. bg_files ?E (5, 5, 5 + peNback ?E) s = Option.bind (add_bg_list ?E ns s) (\<lambda>s. Some (N', s))"
      "(\<forall>n. 5 \<le> n \<and> n < 5 + peNback ?E \<longrightarrow> present ?E n) \<longrightarrow> ns = [5..5 + peNback ?E - 1]"
    using background_search_ends [of ?E 5] nb o by auto
  moreover have "[5..6] = [5, 6 :: int]" by (simp add: upto.simps)
  ultimately show ?thesis using o by (auto simp: nb)
qed

text \<open>Three files only.\<close>

definition disk3 :: "string \<Rightarrow> g4disk" where
  "disk3 name = (if name \<in> {''b/beam_bkgd_0.root'', ''b/beam_bkgd_1.root'', ''b/beam_bkgd_2.root''} then TreeT [] else NotOpen)"

lemma show_int_digit:
  assumes "show_int n = digits_of k"
  shows "n = int k"
proof (cases "n < 0")
  case True
  then have "digits_of k = CHR 0x2D # digits_of (nat (- n))" using assms by (simp add: show_int_def)
  then show ?thesis using digits_of_head [of k] digit_not_special by auto
next
  case False
  then have "int (nat n) = int k" using assms digits_val_of by (metis show_int_def)
  then show ?thesis using False by simp
qed

lemma disk3_present: "present (passB disk3 nb) n \<longleftrightarrow> n \<in> {0, 1, 2}"
proof -
  have "char_of (50 :: nat) = CHR 0x32" by (simp add: char_of_def bit_iff_odd)
  then have s: "digits_of 0 = ''0''" "digits_of 1 = ''1''" "digits_of 2 = ''2''" by (simp_all add: digits_of.simps char_digits)
  have b: "bg_file (passB disk3 nb) n = ''b/beam_bkgd_'' @ x @ ''.root'' \<longleftrightarrow> show_int n = x" for x by (simp add: bg_name)
  have i: "disk3 (bg_file (passB disk3 nb) n) \<noteq> NotOpen \<longleftrightarrow> show_int n \<in> {digits_of 0, digits_of 1, digits_of 2}"
    using b [of "''0''"] b [of "''1''"] b [of "''2''"] by (simp only: disk3_def s) simp
  have "show_int n \<in> {digits_of 0, digits_of 1, digits_of 2} \<longleftrightarrow> n \<in> {0, 1, 2}"
    using show_int_digit [of n 0] show_int_digit [of n 1] show_int_digit [of n 2] by (auto simp: show_int_def)
  with i have j: "disk3 (bg_file (passB disk3 nb) n) \<noteq> NotOpen \<longleftrightarrow> n \<in> {0, 1, 2}" by blast
  show ?thesis
  proof (cases "length (bg_file (passB disk3 nb) n) < 255")
    case True
    then show ?thesis using open_passB [OF True] j by (auto simp: present_def)
  next
    case False
    then have "n \<notin> {0, 1, 2}" using bg_name_length [of n disk3 nb] by auto
    moreover have "open_bg (passB disk3 nb) n = None" using False by (simp add: open_bg_def TSBSGeant4File_def g4_SetFilename_def)
    ultimately show ?thesis by (simp add: present_def)
  qed
qed

theorem background_search_endless_witness:
  "\<forall>d. add_background (passB disk3 4) (pass0 d) = None"
proof
  fix d
  have "4 \<le> peNback (passB disk3 4)" by (simp add: passB_def)
  then show "add_background (passB disk3 4) (pass0 d) = None"
    using background_search_endless [of "passB disk3 4" "pass0 d"] disk3_present by (simp add: pass0_def)
qed

text \<open>Two planes of two and one modules.\<close>

definition sysEx :: sysenv where
  "sysEx = \<lparr> seGetenv = (\<lambda>_. None), seContents = [''db_generalinfo.dat'' \<mapsto> generalEx, ''db_ft.dat'' \<mapsto> geoEx], seReadLine = id,
     seManager = dbm0, seChambers = \<lparr> cdInv = cofactor_inv, cdBase = (\<lambda>_ _. 0), cdFile = (\<lambda>_ _. Some dbEx), cdPlanes = (\<lambda>_ _ _. Some dbEx) \<rparr>,
     seRatedig = None, sePar0 = gparEx, seCreated = True, seRng = rngEx, seCalRng = \<lparr> cgPois = \<lambda>_ _. 0, cgGaus = \<lambda>_ _ _. 0 \<rparr>,
     seDisk = (\<lambda>_. NotOpen) \<rparr>"

definition cfgEx :: passcfg where
  "cfgEx = \<lparr> pcGeneral = ''db_generalinfo.dat'', pcGeo = ''ft'', pcTag = [], pcSig = [], pcBkgd = [] \<rparr>"

lemma add_modules_all:
  "\<forall>j. \<exists>ch. init_chamber C i j = Some (Inr ch) \<Longrightarrow> \<exists>s. add_modules C i j n spect = Some (Inr s)"
proof (induction n arbitrary: j spect)
  case (Suc n)
  obtain ch where "init_chamber C i j = Some (Inr ch)" using Suc.prems by blast
  then show ?case using Suc.IH [OF Suc.prems] by simp
qed simp

lemma add_planes_all:
  "\<forall>i j. \<exists>ch. init_chamber C i j = Some (Inr ch) \<Longrightarrow> i + n = length (dbNModule m) \<Longrightarrow> \<exists>s. add_planes C m (int i) n spect = Some (Inr s)"
proof (induction n arbitrary: i spect)
  case (Suc n)
  have nm: "GetNModule m (int i) = Some (dbNModule m ! i)" using Suc.prems(2) by (simp add: GetNModule_def)
  obtain s1 where "add_modules C (int i) 0 (nat (dbNModule m ! i)) spect = Some (Inr s1)"
    using add_modules_all Suc.prems(1) by blast
  then show ?case using nm Suc.IH [of "Suc i" s1] Suc.prems by (simp add: add.commute)
qed simp

theorem spectrometer_numbering_witness:
  "\<exists>m spect. load_setup sysEx cfgEx = Ok (m, Inr spect) \<and> length (fChambers spect) = 3
    \<and> (\<exists>ch. GetChamber spect (GetGEMID m 1 0) = Some ch)"
proof -
  have c: "seContents sysEx ''db_generalinfo.dat'' = Some generalEx" "seContents sysEx ''db_ft.dat'' = Some geoEx"
    and g: "seGetenv sysEx = (\<lambda>_. None)" "seReadLine sysEx = id" "seManager sysEx = dbm0" "pcGeneral cfgEx = ''db_generalinfo.dat''"
      "pcGeo cfgEx = ''ft''"
    by (simp_all add: sysEx_def cfgEx_def)
  obtain m1 where m1: "LoadGeneralInfo (\<lambda>_. None) (seContents sysEx) id ''db_generalinfo.dat'' dbm0 = Ok m1"
      "dbNModule m1 = [2, 1]" "dbNGEMPlane m1 = 2" using generalEx_run [of "seContents sysEx", OF c(1)] by blast
  obtain m where m: "LoadGeoInfo (\<lambda>_. None) (seContents sysEx) ''ft'' m1 = Ok m" using geoEx_run [of m1 "seContents sysEx", OF m1(2,3) c(2)] by blast
  obtain inp st where "load_planes inp ''ft'' 0 (nat (dbNGEMPlane m1)) st m1 = Ok m"
    using m by (auto simp: LoadGeoInfo_def split: option.splits)
  from load_planes_spec [OF this] m1 have ns: "dbNModule m = [2, 1]" "dbNGEMPlane m = 2" by (auto simp: same_tables_def)
  have "\<exists>ch. init_chamber (seChambers sysEx) i j = Some (Inr ch)" for i j
    using chamber_planes_share_frame_example by (auto simp: init_chamber_def sysEx_def new_chamber_def)
  then obtain spect where "add_planes (seChambers sysEx) m (int 0) 2 \<lparr> fChambers = [] \<rparr> = Some (Inr spect)"
    using add_planes_all [of "seChambers sysEx" 0 2 m "\<lparr> fChambers = [] \<rparr>"] ns(1) by auto
  then have l: "load_setup sysEx cfgEx = Ok (m, Inr spect)" using m1(1) m ns(2) by (simp add: load_setup_def g run_of_def)
  have f: "dbNModule (seManager sysEx) = []" by (simp add: g(3) dbm0_def)
  note n = spectrometer_numbering [OF l f, unfolded ns(1)]
  then have "length (fChambers spect) = 3" by (simp add: modules_before_def)
  moreover have "\<exists>ch. GetChamber spect (GetGEMID m 1 0) = Some ch"
    using n [THEN conjunct2, THEN conjunct1, rule_format, of 1 0] by auto
  ultimately show ?thesis using l by auto
qed

end
