(* ===== verification/DigiPass.thy ===== *)
theory DigiPass
  imports Pass
begin

text \<open>
  The batch program for the digitization, src/example/Utils/DigiPass.C: the digitization program of theory
  Pass with the file prefixes, the first event and the last event taken from the command line, and with
  background files numbered up to 10000.  What the two programs share is taken from Pass.

  The record passenv gives the parameters; its last event peNmax is compared with the number of the event,
  which starts at the first event Nmin.
\<close>

section \<open>Background\<close>

definition dp_bg_step :: "int \<Rightarrow> bool \<Rightarrow> int \<times> int \<times> int \<Rightarrow> int \<times> int \<times> int" where
  "dp_bg_step nbacktoadd opened c = (case c of (Nfile, N, post) \<Rightarrow>
     if opened then (Nfile + 1, N, post)
     else (let post = post + 1; N = N + 1 in
       if 10000 \<le> N then (let n_temp = Nfile; Nfile = post - n_temp; post = nbacktoadd; N = 0 in (Nfile + 1, N, post))
       else (Nfile + 1, N, post)))"

partial_function (option) dp_bg_files :: "passenv \<Rightarrow> int \<times> int \<times> int \<Rightarrow> pass \<Rightarrow> (int \<times> pass) option" where
  "dp_bg_files E c s = (if \<not> fst c < snd (snd c) then Some (snd (snd c), s)
     else Option.bind (open_bg E (fst c)) (\<lambda>p.
       if fst p = 0 then dp_bg_files E (dp_bg_step (peNback E) False c) s
       else Option.bind (add_bg_file E (snd p) s) (\<lambda>s. dp_bg_files E (dp_bg_step (peNback E) True c) s)))"

definition dp_add_background :: "passenv \<Rightarrow> pass \<Rightarrow> pass option" where
  "dp_add_background E s =
     (if peNback E = 0 then Some s
      else do {
        let N_bg_file_g = psBgFile s;
        let N_bg_file_g_post = N_bg_file_g + peNback E;
        (N, s) \<leftarrow> dp_bg_files E (N_bg_file_g, N_bg_file_g, N_bg_file_g_post) s;
        Some (s \<lparr> psBgFile := N \<rparr>) })"

section \<open>Events\<close>

definition dp_event :: "passenv \<Rightarrow> g4file \<Rightarrow> pass \<Rightarrow> pass option" where
  "dp_event E f s =
     (if gfHits f = [] then Some (next_event s)
      else do {
        gd \<leftarrow> GetGEMData (peM E) f;
        if gfGens f = [] then Some (next_event s)
        else do {
          let s = s \<lparr> psGood := psGood s + 1 \<rparr>;
          (inp, d) \<leftarrow> SetTreeEvent (peR E) (peG E) gd (file_input f) (psEvent s) (psDigi s);
          (r, d) \<leftarrow> Digitize (peR E) (peG E) (peM E) gd (peSpec E) d;
          s \<leftarrow> dp_add_background E (s \<lparr> psDigi := d \<rparr>);
          let s = (if 10000 \<le> psBgFile s then s \<lparr> psBgFile := 0 \<rparr> else s);
          d \<leftarrow> FillTree (peR E) (peG E) (peM E) (psDigi s);
          s \<leftarrow> delete_gb E (s \<lparr> psDigi := d \<rparr>);
          Some (next_event s) } })"

partial_function (option) dp_events :: "passenv \<Rightarrow> g4file \<Rightarrow> pass \<Rightarrow> (g4file \<times> pass) option" where
  "dp_events E f s = Option.bind (ReadNextEvent (peQ E) (peM E) f) (\<lambda>p.
     if fst p \<noteq> 0 \<and> psHadback s \<noteq> 0 \<and> psEvent s mod 4294967296 < peNmax E
     then Option.bind (dp_event E (snd p) s) (\<lambda>s. dp_events E (snd p) s)
     else Some (snd p, s))"

text \<open>A run ends with exit(-1), or goes on with the state.\<close>

datatype dpres = Exit int | Go pass

text \<open>Each signal file is read from event Nmin on.\<close>

definition dp_file :: "passenv \<Rightarrow> 32 word \<Rightarrow> nat \<Rightarrow> pass \<Rightarrow> dpres option" where
  "dp_file E Nmin i_sig s = do {
     f \<leftarrow> TSBSGeant4File (sig_file E i_sig);
     let f = g4_SetSource 0 f;
     (res, f) \<leftarrow> g4_Open (peDisk E) (peM E) f;
     if res \<noteq> 1 then Some (Go s)
     else do {
       let f = SetFirstEvNum Nmin f;
       n \<leftarrow> gfEvNum f;
       if n \<noteq> Nmin - 1 then Some (Exit (-1))
       else do { (f, s) \<leftarrow> dp_events E f s; (r, f) \<leftarrow> g4_Close f; Some (Go s) } } }"

fun dp_files :: "passenv \<Rightarrow> 32 word \<Rightarrow> nat \<Rightarrow> nat \<Rightarrow> pass \<Rightarrow> dpres option" where
  "dp_files E Nmin i_sig 0 s = Some (Go s)"
| "dp_files E Nmin i_sig (Suc n) s = (case dp_file E Nmin i_sig s of None \<Rightarrow> None
   | Some (Exit r) \<Rightarrow> Some (Exit r)
   | Some (Go s) \<Rightarrow> dp_files E Nmin (i_sig + 1) n s)"

definition dp_start :: "32 word \<Rightarrow> int \<Rightarrow> digi \<Rightarrow> pass" where
  "dp_start Nmin firstbackfilenum d = \<lparr> psEvent = uint Nmin, psGood = 0, psHadback = 1, psBgFile = firstbackfilenum, psGb = False,
     psDigi = d \<rparr>"

section \<open>The program\<close>

text \<open>The command line; atoi is a function of the library, its int result becomes an unsigned number.\<close>

record dpargs =
  daFspec :: "32 word"
  daNsig :: "32 word"
  daSig :: string
  daNmin :: "32 word"
  daNmax :: "32 word"
  daNback :: "32 word"
  daBkgd :: string
  daFirstBg :: "32 word"

definition dpargs0 :: dpargs where
  "dpargs0 = \<lparr> daFspec = 1, daNsig = 1, daSig = ''/work/halla/sbs/efuchey/gmn13.5_elastic_sig_20180709_22'', daNmin = 0, daNmax = -1,
     daNback = 0, daBkgd = ''/volatile/halla/sbs/efuchey/gmn13.5_beam_bkgd_20180718_22'', daFirstBg = 0 \<rparr>"

text \<open>argv with the name of the program; None: too many arguments.\<close>

definition dp_args :: "(string \<Rightarrow> int) \<Rightarrow> string list \<Rightarrow> dpargs option" where
  "dp_args atoi argv = (let argc = length argv; a = dpargs0 in
     if 9 < argc then None
     else let
       a = (if 1 < argc then a \<lparr> daFspec := of_int (atoi (argv ! 1)) \<rparr> else a);
       a = (if 2 < argc then a \<lparr> daNsig := of_int (atoi (argv ! 2)) \<rparr> else a);
       a = (if 3 < argc then a \<lparr> daSig := argv ! 3 \<rparr> else a);
       a = (if 4 < argc then a \<lparr> daNmin := of_int (atoi (argv ! 4)) \<rparr> else a);
       a = (if 5 < argc then a \<lparr> daNmax := of_int (atoi (argv ! 5)) \<rparr> else a);
       a = (if 6 < argc then a \<lparr> daNback := of_int (atoi (argv ! 6)) \<rparr> else a);
       a = (if 7 < argc then a \<lparr> daBkgd := argv ! 7 \<rparr> else a);
       a = (if 8 < argc then a \<lparr> daFirstBg := of_int (atoi (argv ! 8)) \<rparr> else a)
     in Some a)"

definition dp_outname :: "passcfg \<Rightarrow> 32 word \<Rightarrow> string" where
  "dp_outname c nbacktoadd = ''digitized_'' @ pcTag c @ ''_'' @ (if nbacktoadd = 0 then ''nobkgd'' else ''bkgd'') @ ''.root''"

datatype dpoutcome = DPNoGeometry | DPNoChamber status | DPExit int | DPDone string pass

text \<open>The function that main calls, with its eighth argument firstbackfilenum.\<close>

definition dp_run :: "sysenv \<Rightarrow> dpargs \<Rightarrow> int \<Rightarrow> dpoutcome run" where
  "dp_run S a firstbackfilenum = (case pass_config (uint (daFspec a)) False of None \<Rightarrow> Ok DPNoGeometry
     | Some c \<Rightarrow> run_bind (load_setup S c) (\<lambda>(m, r). case r of Inl err \<Rightarrow> Ok (DPNoChamber err)
       | Inr spect \<Rightarrow> run_of (do {
           (g, d) \<leftarrow> new_digitizer S m spect;
           let E = \<lparr> peR = seRng S, peQ = seCalRng S, peG = g, peM = m, peSpec = spect, peDisk = seDisk S,
             peSig = daSig a, peBkgd = daBkgd a, peMips = False, peNmax = uint (daNmax a), peNback = uint (daNback a) \<rparr>;
           r \<leftarrow> dp_files E (daNmin a) 0 (unat (daNsig a)) (dp_start (daNmin a) firstbackfilenum d);
           Some (case r of Exit n \<Rightarrow> DPExit n | Go s \<Rightarrow> DPDone (dp_outname c (daNback a)) s) })))"

text \<open>main passes seven of its eight arguments; the number of the first background file is the default 0.
  Inl: the value main returns.\<close>

definition digi_main :: "(string \<Rightarrow> int) \<Rightarrow> sysenv \<Rightarrow> string list \<Rightarrow> (int + dpoutcome run)" where
  "digi_main atoi S argv = (case dp_args atoi argv of None \<Rightarrow> Inl (-1) | Some a \<Rightarrow> Inr (dp_run S a 0))"

text \<open>The eighth argument has no effect.\<close>

lemma dp_run_first: "dp_run S (a \<lparr> daFirstBg := k \<rparr>) n = dp_run S a n"
  by (cases a; hypsubst_thin; unfold dp_run_def dpargs.simps; rule refl)

lemma first_background_ignored:
  assumes "length argv = 9" "length argv' = 9" "\<forall>i < 8. argv ! i = argv' ! i"
  shows "digi_main atoi S argv = digi_main atoi S argv'"
proof -
  have "\<exists>a. dp_args atoi argv = Some a \<and> dp_args atoi argv' = Some (a \<lparr> daFirstBg := of_int (atoi (argv' ! 8)) \<rparr>)"
    using assms by (simp add: dp_args_def Let_def)
  then show ?thesis using dp_run_first by (auto simp: digi_main_def)
qed

section \<open>Runs without background\<close>

text \<open>Without background the body of the loop is that of the other program.\<close>

lemma dp_event_pass:
  assumes "peNback E = 0" "psBgFile s < 1000"
  shows "dp_event E f s = pass_event E f s"
  using assms by (simp add: dp_event_def pass_event_def dp_add_background_def add_background_def Let_def cong: if_cong)

lemma pass_event_bgfile:
  assumes "peNback E = 0" "psBgFile s < 1000" "pass_event E f s = Some s'"
  shows "psBgFile s' = psBgFile s"
  using assms by (auto simp: pass_event_def add_background_def delete_gb_def next_event_def bind_eq_Some_conv Let_def split: if_splits)

lemma dp_events_pass:
  assumes "pass_events E f s = Some r" "peNback E = 0" "psBgFile s < 1000"
  shows "dp_events E f s = Some r"
proof -
  have "pass_events E f s = Some r \<Longrightarrow> peNback E = 0 \<longrightarrow> psBgFile s < 1000 \<longrightarrow> dp_events E f s = Some r"
  proof (induction rule: pass_events.raw_induct [rotated, consumes 1])
    case (1 pass_events E f s r)
    show ?case
    proof (intro impI)
      assume n: "peNback E = 0" "psBgFile s < 1000"
      obtain p where p: "ReadNextEvent (peQ E) (peM E) f = Some p" using 1(2) by (auto simp: bind_eq_Some_conv)
      show "dp_events E f s = Some r"
      proof (cases "fst p \<noteq> 0 \<and> psHadback s \<noteq> 0 \<and> psEvent s mod 4294967296 < peNmax E")
        case False
        then have "r = (snd p, s)" using 1(2) p by auto
        then show ?thesis using p False by (subst dp_events.simps) auto
      next
        case True
        then obtain s1 where s1: "pass_event E (snd p) s = Some s1" "pass_events E (snd p) s1 = Some r"
          using 1(2) p by (auto simp: bind_eq_Some_conv)
        have "psBgFile s1 < 1000" using pass_event_bgfile [OF n s1(1)] n(2) by simp
        then have "dp_events E (snd p) s1 = Some r" using 1(1) [OF s1(2)] n(1) by simp
        then show ?thesis using p True s1(1) dp_event_pass [OF n] by (subst dp_events.simps) simp
      qed
    qed
  qed
  then show ?thesis using assms by blast
qed

lemma ReadNextEvent_past:
  assumes "reading f es k" "length es \<le> k" "k < 4294967296"
  shows "\<exists>g. ReadNextEvent R m f = Some (0, g) \<and> gfFile g = Some True"
proof -
  obtain cur where cur: "gfTree f = Some (es, cur)" using assms(1) by (auto simp: reading_def)
  have "g4_GetEntry es k cur = (0, cur)" using assms(2) by (simp add: g4_GetEntry_def rd_def del: rd_Some)
  then show ?thesis using assms cur unat_of_nat32 [OF assms(3)]
    by (simp add: ReadNextEvent_def reading_def g4_Clear_def)
qed

lemma dp_events_ok:
  assumes ok: "pass_ok E" "room E S" "peNback E = 0" and es: "length es < 4294967296" "\<forall>be \<in> set es. sig_ok E S be"
    and r: "reading f es k" "gfSource f = 0" "k < 4294967296" "pass_inv E t s" "psEvent s + int (length es - k) < 4294967296"
  shows "\<exists>f' s' u. dp_events E f s = Some (f', s') \<and> gfFile f' = Some True \<and> pass_inv E (t @ u) s'
    \<and> came E s (take (nat (peNmax E - psEvent s)) (drop k es)) u s'"
proof (cases "k \<le> length es")
  case True
  obtain f' s' u where p: "pass_events E f s = Some (f', s')" "gfFile f' = Some True" "pass_inv E (t @ u) s'"
      "came E s (take (nat (peNmax E - psEvent s)) (drop k es)) u s'"
    using pass_events_ok [OF ok(1,2) es r(1,2) True r(4,5)] by blast
  have "dp_events E f s = Some (f', s')" using dp_events_pass [OF p(1) ok(3)] r(4) by (simp add: pass_inv_def)
  then show ?thesis using p(2-4) by blast
next
  case False
  then obtain g where "ReadNextEvent (peQ E) (peM E) f = Some (0, g)" "gfFile g = Some True"
    using ReadNextEvent_past [OF r(1) _ r(3)] by (meson nat_le_linear)
  then have "dp_events E f s = Some (g, s)" by (subst dp_events.simps) simp
  then show ?thesis using False \<open>gfFile g = Some True\<close> r(4)
    by (intro exI [of _ g] exI [of _ s] exI [of _ "[]"]) (simp add: came_refl)
qed

lemma reading_from: "reading g es 0 \<Longrightarrow> reading (SetFirstEvNum Nmin g) es (unat Nmin)"
  by (auto simp: reading_def SetFirstEvNum_def)

lemma dp_file_ok:
  assumes ok: "pass_ok E" "room E S" "peNback E = 0" "pass_inv E t s" and f: "sig_file_ok E S i"
    "psEvent s + int (length (drop (unat Nmin) (sig_entries E i))) < 4294967296" "length (sig_entries E i) < 4294967296"
  shows "\<exists>s' u. dp_file E Nmin i s = Some (Go s') \<and> pass_inv E (t @ u) s'
    \<and> came E s (take (nat (peNmax E - psEvent s)) (drop (unat Nmin) (sig_entries E i))) u s'"
proof -
  obtain ty where ty: "Getg4sbsDetectorType (peM E) = Some ty" using ok(1) by (auto simp: pass_ok_def)
  have nm: "length (sig_file E i) < 255" "sig_file E i \<noteq> []" using f(1) by (simp_all add: sig_file_ok_def)
  note op = open_file [OF nm ty, where src = 0 and disk = "peDisk E"]
  show ?thesis
  proof (cases "peDisk E (sig_file E i)")
    case NotOpen
    then have "dp_file E Nmin i s = Some (Go s)" using op(1) by (auto simp: dp_file_def Let_def)
    then show ?thesis using ok(4) NotOpen
      by (intro exI [of _ s] exI [of _ "[]"]) (simp add: sig_entries_def came_refl)
  next
    case NoTreeT
    then show ?thesis using f(1) by (simp add: sig_file_ok_def)
  next
    case (TreeT es)
    then have e: "sig_entries E i = es" by (simp add: sig_entries_def)
    obtain f0 g where g: "TSBSGeant4File (sig_file E i) = Some f0" "g4_Open (peDisk E) (peM E) (g4_SetSource 0 f0) = Some (1, g)"
        "reading g es 0" "gfSource g = 0" using op(2) [OF TreeT] by blast
    have es: "length es < 4294967296" "\<forall>be \<in> set es. sig_ok E S be" "psEvent s + int (length es - unat Nmin) < 4294967296"
      using f e by (simp_all add: sig_file_ok_def)
    have k: "unat Nmin < 4294967296" using unsigned_less [of Nmin] by simp
    have sr: "gfSource (SetFirstEvNum Nmin g) = 0" "gfEvNum (SetFirstEvNum Nmin g) = Some (Nmin - 1)"
      using g(4) by (simp_all add: SetFirstEvNum_def)
    obtain f' s' u where r: "dp_events E (SetFirstEvNum Nmin g) s = Some (f', s')" "gfFile f' = Some True" "pass_inv E (t @ u) s'"
        "came E s (take (nat (peNmax E - psEvent s)) (drop (unat Nmin) es)) u s'"
      using dp_events_ok [OF ok(1-3) es(1,2) reading_from [OF g(3)] sr(1) k ok(4) es(3)] by blast
    have "dp_file E Nmin i s = Some (Go s')" using g(1,2) r(1,2) sr(2) by (simp add: dp_file_def Let_def g4_Close_def)
    then show ?thesis using r(3,4) e by (intro exI [of _ s'] exI [of _ u]) simp
  qed
qed

text \<open>The entries that are read: in every file those from number Nmin on.\<close>

definition from_entries :: "passenv \<Rightarrow> 32 word \<Rightarrow> nat \<Rightarrow> (int \<times> g4event) list" where
  "from_entries E Nmin i = drop (unat Nmin) (sig_entries E i)"

lemma dp_files_ok:
  assumes ok: "pass_ok E" "room E S" "peNback E = 0"
  shows "pass_inv E t s \<Longrightarrow> \<forall>q < i + n. sig_file_ok E S q \<and> length (sig_entries E q) < 4294967296 \<Longrightarrow>
    psEvent s + int (length (concat (map (from_entries E Nmin) [i..<i + n]))) < 4294967296 \<Longrightarrow>
    \<exists>s' u. dp_files E Nmin i n s = Some (Go s') \<and> pass_inv E (t @ u) s'
      \<and> came E s (take (nat (peNmax E - psEvent s)) (concat (map (from_entries E Nmin) [i..<i + n]))) u s'"
proof (induction n arbitrary: i t s)
  case 0
  then show ?case by (intro exI [of _ s] exI [of _ "[]"]) (simp add: came_refl)
next
  case (Suc n)
  let ?es = "from_entries E Nmin i" and ?rest = "concat (map (from_entries E Nmin) [i + 1..<(i + 1) + n])"
  have u: "[i..<i + Suc n] = i # [i + 1..<(i + 1) + n]" by (simp add: upt_conv_Cons)
  have f: "sig_file_ok E S i" "psEvent s + int (length ?es) < 4294967296" "length (sig_entries E i) < 4294967296"
    using Suc.prems(2,3) unfolding u by simp_all
  obtain s1 v where s1: "dp_file E Nmin i s = Some (Go s1)" "pass_inv E (t @ v) s1" "came E s (take (nat (peNmax E - psEvent s)) ?es) v s1"
    using dp_file_ok [OF ok Suc.prems(1) f(1) _ f(3)] f(2) unfolding from_entries_def by blast
  have e1: "psEvent s1 = psEvent s + int (length (take (nat (peNmax E - psEvent s)) ?es))" using s1(3) by (simp add: came_def)
  then have "psEvent s1 + int (length ?rest) < 4294967296" using Suc.prems(3) unfolding u by simp
  then obtain s2 w where s2: "dp_files E Nmin (i + 1) n s1 = Some (Go s2)" "pass_inv E ((t @ v) @ w) s2"
      "came E s1 (take (nat (peNmax E - psEvent s1)) ?rest) w s2"
    using Suc.IH [OF s1(2), of "i + 1"] Suc.prems(2) by auto
  have "nat (peNmax E - psEvent s1) = nat (peNmax E - psEvent s) - length ?es" using e1 by (simp split: if_splits add: min_def)
  then have "take (nat (peNmax E - psEvent s)) ?es @ take (nat (peNmax E - psEvent s1)) ?rest
      = take (nat (peNmax E - psEvent s)) (?es @ ?rest)" by simp
  moreover have "concat (map (from_entries E Nmin) [i..<i + Suc n]) = ?es @ ?rest" unfolding u by simp
  ultimately have "came E s (take (nat (peNmax E - psEvent s)) (concat (map (from_entries E Nmin) [i..<i + Suc n]))) (v @ w) s2"
    using came_trans [OF s1(3) s2(3)] by simp
  then show ?case using s1(1) s2(1,2) by (intro exI [of _ s2] exI [of _ "v @ w"]) simp
qed

end
