(* ===== verification/Spec2Isabelle.thy ===== *)
theory Spec2Isabelle
  imports Auxi HitData DBManager SimEvent Calorimeter Box Plane SimFile DigitizedPlane Avalanche Digitization RocMap
    BitCount ECalArm Decoder DecoderSetup Variables TreeBranches Geant4Reader Pass DigiPass
begin

text \<open>
  Verification of libsolgem, the digitization of Geant4 events of the SuperBigBite spectrometer
  (src/src).  The program reads simulated hits (TSBSGeant4File), turns the energy deposited in a GEM
  chamber into charge on readout strips and ADC samples (TSBSSimGEMDigitization), overlays background
  events, writes an event of clusters and strips (TSBSSimEvent), and a decoder plugged into the analysis
  framework (TSBSSimDecoder) unpacks that event into crates, slots and channels and answers which
  particles a channel has seen.  Geometry and settings come from text data bases (TSBSDBManager).

  The theories, in the order of the data:

  Prelude: vectors, reading of lists by index (rd, rdi: None outside), truncating conversions of reals
  to integers of 16 and 32 bits, signed and unsigned (None when out of range, which is undefined in C++), division (None by 0).

  Auxi (TSBSSimAuxi.cxx): ADCConvert, pulse shapes, sums of circles and Gaussians.  Lemmas: readings
  lie within the ADC range, the pulse is causal and has its peak one shaping time after the charge.

  HitData (g4sbshitdata and g4sbsgendata in TSBSGeant4File, TSBSGEMHit, TSBSGEMSimHitData): the records
  of hits with their fill bits, the strips of a hit.  A hit record refines a map from slots to values.

  DBManager (TSBSDBManager.cxx): key look-up and value conversion of text files, LoadGeneralInfo,
  LoadGeoInfo, the tables between chambers, planes and modules, the geometry queries.  Lemmas: the tables
  are inverse to each other, no query leaves the loaded tables, positions and modules agree.

  SimEvent (TSBSSimEvent): the event.  Clustering and Calorimeter (clustering functions of
  TSBSGeant4File.cxx): a cluster is grown until no block is left within reach; the loop is a function
  terminating because each round that adds a block leaves fewer.  The result is the connected component
  of the seed, independent of the order of the hits.

  Box, Plane (TSBSBox, TSBSGEMPlane, TSBSGEMChamber, TSBSSpec): frames and their conversions, geometry
  read from a data base, strips of a plane.  Lemmas: the conversions are inverse, strip numbers are in range.

  Geant4File, Geant4Reader (TSBSGeant4File): opening a Geant4 file, reading an event of the selected
  detector into hit and track records, packing the hits.  The locale hit\_reader is the contract of the
  loop over the hits, interpreted for each of the five detectors; its lemma gives one record per row.
  Theorems: what one event delivers, and that the loop over a file ends with every event delivered.
  There an entry of the file is its event as lists of rows; TreeBranches (g4sbs\_tree) has the columns of the
  file, the members of the class and Init, and shows that for each detector type the members hold that event.
  GetEntry of ROOT is a parameter there, with its documented behaviour as hypothesis root\_reads: a bound branch
  is read into its member, the leaves of ev into the bytes at their distance from ev\_count.  The hypothesis is
  shown to hold of one function, read\_branches.  For the detectors other than BigBite the reader limits the exit
  of a hit to the size of module 0 of the plane (size\_module), as the source does.

  SimFile (TSBSSimFile): a ROOT file with a tree of events is its content; reading delivers every event
  once and in order.

  DigitizedPlane (TSBSDigitizedPlane in TSBSSimGEMDigitization): the strips of a readout plane,
  Cumulate with cross talk, Threshold.  Invariant dp\_inv: shape of the arrays, and the list of strips
  over threshold is exactly the set of strips whose sum is above it.  The theorems hold with cross talk, but
  for the one on the order of two hits.  Avalanche: ionization along the
  track (IonModel), charge on the strips (AvaModel).  Digitization: the digitizer, from its set-up to
  the strips of the event; invariant digi\_inv.

  RocMap, BitCount, ECalArm, Decoder (TSBSSimDecoder.cxx): hardware addresses, the bit count, the
  kinematics of the electron arm, loading an event, the truth information of a strip.  The locale
  addressing of RocMap is what the decoder relies on: channels have different keys.  The theorems on
  DoLoadEvent cover every setting of docalo, including the energy threshold that turns an event down with
  HED\_ERR, and an analyzer whose loadData refuses data with SD\_ERR: they say how far the event is then
  loaded.  DecoderSetup: the
  constructor and the reader of the shower profiles, with a round trip from the text of the file.
  Variables: the global variables of the decoder and the accessors behind them.

  Pass (src/example/DigitizationPass.C): the program that runs the digitization, from the data bases and
  the chambers over the loops on signal files, events and background files to the output tree.
  Lemmas: which background files an event gets, when the search for them ends and when it does not, the
  numbering of the chambers, what each event of the run does to the tree.  DigiPass (Utils/DigiPass.C): the
  batch version with its command line, which starts at a given event.

  This theory joins reader, digitizer and decoder: theorem file\_event\_decodes, and states what a run of
  the program writes: theorems pass\_writes\_events and batch\_writes\_events.  The counts on the strips
  stay in the range of Int\_t because a hit adds at most one ADC range and its cross talk to a strip
  (Digitization, counts\_grow; hypothesis counts\_fit).

  Conventions.  State is passed explicitly in records named after the classes; an operation that may
  fail an assert, leave an array, use an uninitialized value or divide by zero returns an option, and
  the theorems show that it returns Some.  Error codes of the source are values (datatypes status, hed,
  run).  Double\_t is an exact real: rounding is not modelled.  Int\_t is an unbounded integer except
  where the source converts a real or narrows (to\_int32, to\_int16, wrap16) or works on bits (words): so the ADC
  sums of a strip, the counters and the hardware addresses are not bounded in the definitions.  Of the narrow types, the
  strip number of a hit (AddStripAt), the cluster numbers and the plane and module of a strip are narrowed as in
  the source; the list fOverThr and the cluster numbers kept with a strip, both of Short\_t, are unbounded,
  which makes no difference on planes of at most 32767 strips, as the invariants demand, and for the cluster numbers of the
  digitizer, which are narrowed before.  The random generator is a record of functions from the number of the draw; ranges are hypotheses.

  Bounds.  Loops are structural recursions on the number of remaining iterations, so there is no fuel;
  the growth loop has its termination proof.  The loops over a Geant4 file, over the events of a signal
  file and over the background files are partial functions, None if they do not end.  The first two end for
  fewer than 2 to the 32 entries (the event number is an unsigned word), the last for at most three
  background files per event.  A plane holds at most six samples and 32767 strips, an
  event at most 32767 clusters, as the narrow integers of the source force.

  Not modelled: Print functions and benchmarks, the skeleton functions that ROOT generated and nobody calls, the
  other macros of src/example (plots and checks of the output) and the data bases, and the classes in
  oldSolRelated, which the build does not use.  ROOT, the
  analysis framework (Podd) and the file system are not part of the repository: they are parameters.
\<close>

section \<open>From the digitizer to the decoder\<close>

text \<open>The chamber tables of the database fit the spectrometer: every chamber is a module of a plane, two
  chambers are different modules, and every readout plane has a channel for each of its strips.\<close>

definition chamber_channel :: "dbm \<Rightarrow> nat \<Rightarrow> int \<times> int" where
  "chamber_channel m ic = (GetPlaneID m (int ic), GetModuleID m (int ic))"

definition tables_ok :: "dbm \<Rightarrow> spec \<Rightarrow> int \<Rightarrow> bool" where
  "tables_ok m spect n \<longleftrightarrow> (\<forall>ic < length (fChambers spect). case chamber_channel m ic of (p, md) \<Rightarrow>
       0 \<le> p \<and> p < 32768 \<and> 0 \<le> md \<and> md < 32768 \<and> p < dbNChamber m \<and> p < int (length (dbNModule m)) \<and> md < dbNModule m ! nat p)
     \<and> inj_on (chamber_channel m) {..<length (fChambers spect)}
     \<and> (\<forall>ch \<in> set (fChambers spect). \<forall>pl \<in> set (chPlanes ch). plNStrips pl \<le> n)"

lemma tables_chamber:
  assumes "tables_ok m spect n" "ic < length (fChambers spect)"
  shows "wrap16 (GetPlaneID m (int ic)) = GetPlaneID m (int ic)" "wrap16 (GetModuleID m (int ic)) = GetModuleID m (int ic)"
    "0 \<le> GetPlaneID m (int ic)" "GetPlaneID m (int ic) < dbNChamber m" "GetPlaneID m (int ic) < int (length (dbNModule m))"
    "0 \<le> GetModuleID m (int ic)" "GetModuleID m (int ic) < dbNModule m ! nat (GetPlaneID m (int ic))"
  using assms by (auto simp: tables_ok_def chamber_channel_def)

text \<open>The places of the strips of an event, each once.\<close>

definition strip_place :: "nat \<times> nat \<times> dplane \<times> nat \<Rightarrow> nat \<times> nat \<times> nat" where
  "strip_place x = (case x of (ic, ip, p, i) \<Rightarrow> (ic, ip, i))"

lemma plane_strips_place: "map strip_place (plane_strips ic (ip, p)) = map (\<lambda>i. (ic, ip, i)) [0..<dpNStrips p]"
  by (simp add: plane_strips_def strip_place_def)

lemma planes_places:
  "x \<in> set (concat (map (plane_strips ic) (enumerate k ps))) \<Longrightarrow>
    \<exists>ip i. x = (ic, k + ip, ps ! ip, i) \<and> ip < length ps \<and> i < dpNStrips (ps ! ip)"
proof (induction ps arbitrary: k)
  case (Cons p ps)
  then consider "x \<in> set (plane_strips ic (k, p))" | "x \<in> set (concat (map (plane_strips ic) (enumerate (Suc k) ps)))" by auto
  then show ?case
  proof cases
    case 1
    then show ?thesis by (rule_tac x = 0 in exI) (auto simp: plane_strips_def)
  next
    case 2
    obtain ip i where "x = (ic, Suc k + ip, ps ! ip, i)" "ip < length ps" "i < dpNStrips (ps ! ip)" using Cons.IH [OF 2] by blast
    then show ?thesis by (rule_tac x = "Suc ip" in exI) auto
  qed
qed simp

lemma all_strips_places:
  "x \<in> set (all_strips k dp) \<Longrightarrow>
    \<exists>ic ip i. x = (k + ic, ip, dp ! ic ! ip, i) \<and> ic < length dp \<and> ip < length (dp ! ic) \<and> i < dpNStrips (dp ! ic ! ip)"
proof (induction dp arbitrary: k)
  case (Cons ps dp)
  have "all_strips k (ps # dp) = concat (map (plane_strips k) (enumerate 0 ps)) @ all_strips (Suc k) dp"
    by (simp add: all_strips_def)
  then consider "x \<in> set (concat (map (plane_strips k) (enumerate 0 ps)))" | "x \<in> set (all_strips (Suc k) dp)"
    using Cons.prems by auto
  then show ?case
  proof cases
    case 1
    then show ?thesis using planes_places [OF 1] by (rule_tac x = 0 in exI) auto
  next
    case 2
    obtain ic ip i where "x = (Suc k + ic, ip, dp ! ic ! ip, i)" "ic < length dp" "ip < length (dp ! ic)"
        "i < dpNStrips (dp ! ic ! ip)" using Cons.IH [OF 2] by blast
    then show ?thesis by (rule_tac x = "Suc ic" in exI) auto
  qed
qed (simp add: all_strips_def)

lemma planes_distinct: "distinct (map strip_place (concat (map (plane_strips ic) (enumerate k ps))))"
proof (induction ps arbitrary: k)
  case (Cons p ps)
  have "set (map strip_place (plane_strips ic (k, p))) \<inter> set (map strip_place (concat (map (plane_strips ic) (enumerate (Suc k) ps)))) = {}"
    using planes_places [of _ ic "Suc k" ps] by (fastforce simp: strip_place_def plane_strips_def)
  then show ?case using Cons [of "Suc k"] plane_strips_place [of ic k p] by (simp add: distinct_map inj_on_def)
qed simp

lemma all_strips_distinct: "distinct (map strip_place (all_strips k dp))"
proof (induction dp arbitrary: k)
  case (Cons ps dp)
  have e: "all_strips k (ps # dp) = concat (map (plane_strips k) (enumerate 0 ps)) @ all_strips (Suc k) dp"
    by (simp add: all_strips_def)
  have "strip_place x \<noteq> strip_place y" if "x \<in> set (concat (map (plane_strips k) (enumerate 0 ps)))" "y \<in> set (all_strips (Suc k) dp)" for x y
    using planes_places [OF that(1)] all_strips_places [OF that(2)] by (auto simp: strip_place_def)
  then have "set (map strip_place (concat (map (plane_strips k) (enumerate 0 ps)))) \<inter> set (map strip_place (all_strips (Suc k) dp)) = {}"
    by fastforce
  then show ?case unfolding e map_append distinct_append using planes_distinct Cons by blast
qed (simp add: all_strips_def)

text \<open>Where the record of a strip comes from.\<close>

lemma strip_source:
  assumes "planes_inv g m spect cl dp" "spec_ready spect" "list_all2 (strip_record m) (all_strips 0 dp) ss" "j < length ss"
  obtains ic ip i where "ic < length (fChambers spect)" "ip < 2" "i < dpNStrips (dp ! ic ! ip)"
    "strip_record m (ic, ip, dp ! ic ! ip, i) (ss ! j)" "all_strips 0 dp ! j = (ic, ip, dp ! ic ! ip, i)"
    "plane_inv g cl (wrap16 (GetPlaneID m (int ic))) (chPlanes (fChambers spect ! ic) ! ip) (dp ! ic ! ip)"
proof -
  have l: "j < length (all_strips 0 dp)" using assms(3,4) by (simp add: list_all2_lengthD)
  then obtain ic ip i where x: "all_strips 0 dp ! j = (ic, ip, dp ! ic ! ip, i)" "ic < length dp" "ip < length (dp ! ic)"
      "i < dpNStrips (dp ! ic ! ip)" using all_strips_places [OF nth_mem [OF l]] by auto
  have ic: "ic < length (fChambers spect)" using x(2) assms(1) by (simp add: planes_inv_def)
  have a: "list_all2 (plane_inv g cl (wrap16 (GetPlaneID m (int ic)))) (chPlanes (fChambers spect ! ic)) (dp ! ic)"
    using assms(1) x(2) by (simp add: planes_inv_def)
  have "length (chPlanes (fChambers spect ! ic)) = 2" using assms(2) ic by (simp add: spec_ready_def chamber_ready_def)
  then have ip: "ip < 2" using x(3) list_all2_lengthD [OF a] by simp
  have "strip_record m (ic, ip, dp ! ic ! ip, i) (ss ! j)" using list_all2_nthD2 [OF assms(3,4)] x(1) by simp
  then show ?thesis using that ic ip x a by (simp add: list_all2_conv_all_nth)
qed

lemma record_channel:
  assumes "tables_ok m spect n" "ic < length (fChambers spect)" "ip < 2" "strip_record m (ic, ip, p, i) s"
  shows "channel_of s = \<lparr> cnPlane = GetPlaneID m (int ic), cnModule = GetModuleID m (int ic), cnProj = int ip, cnChan = int i \<rparr>"
  using assms(3,4) tables_chamber(1,2) [OF assms(1,2)] by (simp add: strip_record_def channel_of_def)

lemma strip_info_total:
  assumes "strip_linked m e strip" "signals_ok sig" "geometry_ok m"
  shows "\<exists>mc. strip_info m sig e strip = Some mc \<and> mcSigType mc = gsSigType strip"
proof (cases "bit (gsSigType strip) kInducedStrip \<and> \<not> bit (gsSigType strip) 0 \<and> \<not> bit (gsSigType strip) 1")
  case True
  obtain x where "GetPosFromModuleStrip m (gsProj strip) (gsPlane strip) (gsModule strip) (gsChan strip) = Some x"
    using geometry_total(2) [OF assms(3)] by blast
  then show ?thesis using True assms(1) by (simp add: strip_info_def strip_linked_def Let_def)
next
  case False
  then show ?thesis using strip_info_ok [OF assms(1,2) False refl refl] by blast
qed

lemma strips_linked:
  assumes "digi_inv g m spect e d" "spec_ready spect" "list_all2 (strip_record m) (all_strips 0 (dgDP d)) ss"
    "tables_ok m spect n" "gpSamplingPoints g = 6" "geometry_ok m" "dbNReadOut m = 2" "j < length ss"
  shows "strip_linked m (e \<lparr> evGEMStrips := ss \<rparr>) (ss ! j) \<and> strip_ok n m (ss ! j)"
proof -
  let ?e = "e \<lparr> evGEMStrips := ss \<rparr>" and ?s = "ss ! j"
  have pi: "planes_inv g m spect (evGEMClust e) (dgDP d)" and num: "numbered (evGEMClust e)"
    using assms(1) by (simp_all add: digi_inv_def)
  obtain ic ip i where x: "ic < length (fChambers spect)" "ip < 2" "i < dpNStrips (dgDP d ! ic ! ip)"
    "strip_record m (ic, ip, dgDP d ! ic ! ip, i) ?s"
    "plane_inv g (evGEMClust e) (wrap16 (GetPlaneID m (int ic))) (chPlanes (fChambers spect ! ic) ! ip) (dgDP d ! ic ! ip)"
    using strip_source [OF pi assms(2,3,8)] by metis
  define p where "p = dgDP d ! ic ! ip"
  have c: "channel_of ?s = \<lparr> cnPlane = GetPlaneID m (int ic), cnModule = GetModuleID m (int ic), cnProj = int ip, cnChan = int i \<rparr>"
    using record_channel [OF assms(4) x(1,2,4)] .
  have two: "length (chPlanes (fChambers spect ! ic)) = 2"
    using assms(2) x(1) by (simp add: spec_ready_def chamber_ready_def)
  have "chPlanes (fChambers spect ! ic) ! ip \<in> set (chPlanes (fChambers spect ! ic))" "fChambers spect ! ic \<in> set (fChambers spect)"
    using x(1,2) two by simp_all
  then have "plNStrips (chPlanes (fChambers spect ! ic) ! ip) \<le> n" using assms(4) unfolding tables_ok_def by blast
  then have "int i < n" using x(3,5) by (simp add: plane_inv_def)
  then have ok: "strip_ok n m ?s"
    using tables_chamber(3-) [OF assms(4) x(1)] x(2) unfolding strip_ok_def c by (auto simp: channel_ok_def)
  have wl: "well_linked (cluster_of (evGEMClust e) (wrap16 (GetPlaneID m (int ic)))) p" "dpNSamples p = 6"
    using x(5) assms(5) by (simp_all add: plane_inv_def p_def)
  have r: "gsSector ?s = 0" "gsPlane ?s = wrap16 (GetPlaneID m (int ic))" "gsProj ?s = int ip"
      "gsClusters ?s = dpStripClusters p ! i" "gsStripWeight ?s = dpStripWeight p ! i"
      "gsClusterRatio ?s = map (\<lambda>k. dpClusterADC p ! k ! i) [0..<6]"
    using x(2,4) wl(2) by (simp_all add: strip_record_def p_def)
  have len: "length (dpStripWeight p ! i) = length (gsClusters ?s)" "\<forall>k < 6. length (dpClusterADC p ! k ! i) = length (gsClusters ?s)"
    using wl x(3) r(4) by (simp_all add: well_linked_def p_def)
  have "ref_ok m ?e ?s q (gsClusters ?s ! q)" if q: "q < length (gsClusters ?s)" for q
  proof -
    let ?c = "gsClusters ?s ! q"
    have "?c \<in> set (dpStripClusters p ! i)" using q r(4) by simp
    then have co: "cluster_of (evGEMClust e) (wrap16 (GetPlaneID m (int ic))) ?c"
      using wl(1) x(3) by (simp add: well_linked_def p_def)
    then have k: "nat (?c - 1) < length (evGEMClust e)" "1 \<le> ?c" "?c \<le> int (length (evGEMClust e))"
      by (auto simp: cluster_of_def)
    have at: "cluster_at ?e ?c = evGEMClust e ! nat (?c - 1)" by (simp add: cluster_at_def)
    have cl: "gcID (cluster_at ?e ?c) = ?c" "gcSector (cluster_at ?e ?c) = 0" "length (gcXProj (cluster_at ?e ?c)) = 2"
      using num k unfolding at by (simp_all add: numbered_def)
    have "cluster_pos m (gsProj ?s) (cluster_at ?e ?c) \<noteq> None"
      using cluster_pos_total [OF assms(6)] cl(3) x(2) r(3) by simp
    then show ?thesis using k co q cl(1,2) r len unfolding ref_ok_def at by (simp add: cluster_of_def)
  qed
  then show ?thesis using ok r(3) x(2) assms(7) by (simp add: strip_linked_def)
qed

lemma channels_distinct:
  assumes "planes_inv g m spect cl dp" "spec_ready spect" "list_all2 (strip_record m) (all_strips 0 dp) ss" "tables_ok m spect n"
  shows "distinct (map channel_of ss)"
  unfolding distinct_conv_nth
proof (intro allI impI)
  fix j k assume j: "j < length (map channel_of ss)" and k: "k < length (map channel_of ss)" and ne: "j \<noteq> k"
  obtain ic ip i where x: "ic < length (fChambers spect)" "ip < 2" "strip_record m (ic, ip, dp ! ic ! ip, i) (ss ! j)"
      "all_strips 0 dp ! j = (ic, ip, dp ! ic ! ip, i)"
    using strip_source [OF assms(1-3)] j by (metis length_map)
  obtain ic' ip' i' where y: "ic' < length (fChambers spect)" "ip' < 2" "strip_record m (ic', ip', dp ! ic' ! ip', i') (ss ! k)"
      "all_strips 0 dp ! k = (ic', ip', dp ! ic' ! ip', i')"
    using strip_source [OF assms(1-3)] k by (metis length_map)
  have l: "length ss = length (all_strips 0 dp)" using assms(3) by (simp add: list_all2_lengthD)
  then have "map strip_place (all_strips 0 dp) ! j \<noteq> map strip_place (all_strips 0 dp) ! k"
    using all_strips_distinct [of 0 dp] j k ne by (simp add: distinct_conv_nth)
  then have "(ic, ip, i) \<noteq> (ic', ip', i')" using l j k x(4) y(4) by (simp add: strip_place_def)
  then have "channel_of (ss ! j) \<noteq> channel_of (ss ! k)"
    using record_channel [OF assms(4) x(1-3)] record_channel [OF assms(4) y(1-3)] assms(4) x(1) y(1)
    by (auto simp: tables_ok_def inj_on_def chamber_channel_def)
  then show "map channel_of ss ! j \<noteq> map channel_of ss ! k" using j k by simp
qed

lemma overlay_clusters:
  assumes "overlay m (concat (map (source_hits spect) gds)) cs" "numbered cs" "tables_ok m spect n" "c \<in> set cs"
  shows "cluster_wf m c"
proof -
  obtain k where k: "k < length cs" "cs ! k = c" using assms(4) by (auto simp: in_set_conv_nth)
  let ?h = "concat (map (source_hits spect) gds) ! k"
  have l: "k < length (concat (map (source_hits spect) gds))" using k(1) overlay_length [OF assms(1)] by simp
  have "?h \<in> set (concat (map (source_hits spect) gds))" using l by (rule nth_mem)
  then have "hdGem (snd ?h) < length (fChambers spect)" by (auto simp: source_hits_def accepted_def)
  moreover have "gcPlane c = wrap16 (GetPlaneID m (int (hdGem (snd ?h))))"
    using list_all2_nthD [OF assms(1) [unfolded overlay_def] l] k(2) by (simp add: made_from_def split: prod.splits)
  ultimately have "0 \<le> gcPlane c \<and> gcPlane c < dbNChamber m" using tables_chamber [OF assms(3)] by simp
  then show ?thesis using assms(2) k by (auto simp: cluster_wf_def numbered_def)
qed

text \<open>A strip of the event can be looked up at its hardware address, and its truth information is found.\<close>

definition decodes :: "'s podd \<Rightarrow> dbm \<Rightarrow> 's decoder \<Rightarrow> simevent \<Rightarrow> gemstrip \<Rightarrow> bool" where
  "decodes P m y e s \<longleftrightarrow> strip_linked m e s \<and> (\<exists>crate slot chan mc.
     StripToROCD (pdMaxSlot P) m (gsPlane s) (gsModule s) (gsProj s) (gsChan s) = Some (crate, slot, chan)
     \<and> GetSBSMCHitInfo (pdMaxSlot P) m y e crate slot chan = Some mc \<and> strip_info m (dcSignalInfo y) e s = Some mc)"

text \<open>The result of loading the event: the strips in front of number k decode, k is the number of strips
  unless the analyzer refuses a sample of strip k, and the result is an error then and when the energy
  is below the threshold; without calorimeter there is no other error.\<close>

definition decoded_up_to :: "'s podd \<Rightarrow> dbm \<Rightarrow> simevent \<Rightarrow> hed \<Rightarrow> 's decoder \<Rightarrow> nat \<Rightarrow> bool" where
  "decoded_up_to P m e ret y k \<longleftrightarrow> ret \<noteq> HED_FATAL \<and> k \<le> length (evGEMStrips e)
     \<and> (k < length (evGEMStrips e) \<longrightarrow> ret = HED_ERR \<and> refuses P m (evGEMStrips e ! k))
     \<and> (below_threshold m e = Some True \<longrightarrow> ret = HED_ERR)
     \<and> (k = length (evGEMStrips e) \<and> DoCalo m = Some 0 \<longrightarrow> ret = HED_OK)
     \<and> (\<forall>s \<in> set (take k (evGEMStrips e)). decodes P m y e s)"

lemma stored_event_decodes:
  assumes "digi_inv g m spect e d" "spec_ready spect" "gpSamplingPoints g = 6" "tables_ok m spect n" "geometry_ok m" "dbNReadOut m = 2"
    "list_all2 (strip_record m) (all_strips 0 (dgDP d)) ss" "event_ok m (e \<lparr> evGEMStrips := ss \<rparr>)"
    "calo_ready P (dcProfiles x) m (e \<lparr> evGEMStrips := ss \<rparr>)" "podd_ok P"
    "roc_setup P m n" "signals_ok (dcSignalInfo x)"
  shows "\<exists>ret y k. DoLoadEvent P m (e \<lparr> evGEMStrips := ss \<rparr>) x = Some (ret, y)
    \<and> decoded_up_to P m (e \<lparr> evGEMStrips := ss \<rparr>) ret y k"
proof -
  let ?e = "e \<lparr> evGEMStrips := ss \<rparr>"
  have pi: "planes_inv g m spect (evGEMClust e) (dgDP d)" using assms(1) by (simp add: digi_inv_def)
  have lk: "strip_linked m ?e (ss ! j) \<and> strip_ok n m (ss ! j)" if "j < length ss" for j
    using strips_linked [OF assms(1,2,7,4,3,5,6) that] .
  have ok: "\<forall>s \<in> set (evGEMStrips ?e). strip_ok n m s" using lk by (auto simp: in_set_conv_nth)
  have di: "distinct (map channel_of (evGEMStrips ?e))" using channels_distinct [OF pi assms(2,7,4)] by simp
  obtain ret y k where y: "DoLoadEvent P m ?e x = Some (ret, y)" "dcSignalInfo y = dcSignalInfo x" "loaded P n m ?e ret y k"
    using DoLoadEvent_ok [OF assms(10,11) ok di assms(8,9)] by blast
  then obtain r where f: "filed P n m ss 0 Map.empty (dcStripMap y) r k" by (auto simp: loaded_def)
  have k: "k \<le> length ss" "k < length ss \<longrightarrow> refuses P m (ss ! k)" "\<forall>j < k. dcStripMap y (strip_key n m (ss ! j)) = Some j"
    using f by (auto simp: filed_def)
  have "decodes P m y ?e s" if s: "s \<in> set (take k ss)" for s
  proof -
    obtain j where j: "j < k" "j < length ss" "ss ! j = s" using s k(1) by (auto simp: in_set_conv_nth)
    have sl: "strip_linked m ?e s" "strip_ok n m s" using lk [OF j(2)] j(3) by simp_all
    obtain crate slot where r: "StripToROCD (pdMaxSlot P) m (gsPlane s) (gsModule s) (gsProj s) (gsChan s) = Some (crate, slot, gsChan s)"
        "MakeROCKey (pdMaxSlot P) m crate slot (gsChan s) = Some (strip_key n m s)"
      using strip_address [OF assms(11) sl(2)] by blast
    have key: "dcStripMap y (strip_key n m s) = Some j" using k(3) j by blast
    then have "StripFromROC (pdMaxSlot P) m (dcStripMap y) crate slot (gsChan s) = Some (int j)"
      using r(2) by (auto simp: StripFromROC_def)
    then have info: "GetSBSMCHitInfo (pdMaxSlot P) m y ?e crate slot (gsChan s) = strip_info m (dcSignalInfo y) ?e s"
      using j by (simp add: GetSBSMCHitInfo_def rdi_def rd_def)
    obtain mc where "strip_info m (dcSignalInfo y) ?e s = Some mc"
      using strip_info_total [OF sl(1) _ assms(5)] assms(12) y(2) by metis
    then show ?thesis using r(1) info sl(1) by (auto simp: decodes_def)
  qed
  moreover have low: "below_threshold m ?e \<noteq> Some True" if "DoCalo m = Some 0"
    using that by (simp add: below_threshold_def Let_def)
  have "ret \<noteq> HED_FATAL" "k < length ss \<longrightarrow> ret = HED_ERR" "below_threshold m ?e = Some True \<longrightarrow> ret = HED_ERR"
      "k = length ss \<and> DoCalo m = Some 0 \<longrightarrow> ret = HED_OK"
    using y(3) low by (auto simp: loaded_def truth_result_def split: if_splits)
  ultimately have "decoded_up_to P m ?e ret y k" using k(1,2) by (simp add: decoded_up_to_def)
  then show ?thesis using y(1) by blast
qed

text \<open>From the hits to the truth information of the decoder: digitizing a signal event with its tracks
  and background events, writing the strips and loading the event succeed, every strip of the detector
  is found at its hardware address and its truth information is returned.\<close>

lemma digitized_event_decodes:
  assumes "setup_ok R g spect" "gpSamplingPoints g = 6" "noise_ok R g" "digi_inv g m spect e d"
    "\<forall>gd \<in> set (sig # bgs). data_ready R g spect gd d"
    "sum_list (map (\<lambda>gd. length (shHits gd)) (sig # bgs)) \<le> 32767" "evMCTracks e \<noteq> []"
    "geometry_ok m" "dbNReadOut m = 2" "tables_ok m spect n"
    "podd_ok P" "roc_setup P m n" "signals_ok (dcSignalInfo x)"
    "counts_fit R g (sum_list (map (\<lambda>gd. length (shHits gd)) (sig # bgs)))" "n \<le> 32767"
  shows "\<exists>d1 d2 e2. (do { (r, d1) \<leftarrow> Digitize R g m sig spect d; add_all R g m spect bgs d1 }) = Some d1
    \<and> SetTreeStrips R g m d1 = Some d2 \<and> dgEvent d2 = Some e2
    \<and> length (evGEMStrips e2) = length (all_strips 0 (dgDP d1)) \<and> evMCTracks e2 = evMCTracks e
    \<and> (calo_ready P (dcProfiles x) m e2 \<longrightarrow> (\<exists>ret y k. DoLoadEvent P m e2 x = Some (ret, y) \<and> decoded_up_to P m e2 ret y k))"
proof -
  have sp: "gpSamplingPoints g \<le> 6" and ready: "spec_ready spect" using assms(1,2) by (simp_all add: setup_ok_def)
  obtain e1 d1 where run: "(do { (r, d1) \<leftarrow> Digitize R g m sig spect d; add_all R g m spect bgs d1 }) = Some d1"
    and a: "digi_inv g m spect e1 d1" "overlay m (concat (map (source_hits spect) (sig # bgs))) (evGEMClust e1)"
      "evMCTracks e1 = evMCTracks e"
      "\<forall>K. hit_room R g K \<longrightarrow> counts_below (2 * int (sum_list (map (\<lambda>gd. length (shHits gd)) (sig # bgs))) * K) d1"
    using digitize_all_ok [OF assms(1) sp assms(4-6)] by blast
  have num: "numbered (evGEMClust e1)" and e1: "dgEvent d1 = Some e1" using a(1) by (simp_all add: digi_inv_def)
  have st: "\<forall>ps \<in> set (dgDP d1). \<forall>p \<in> set ps. plane_storable p"
  proof -
    obtain K where K: "hit_room R g K" "2 * int (sum_list (map (\<lambda>gd. length (shHits gd)) (sig # bgs))) * K \<le> 1000000000"
      using assms(14) by (auto simp: counts_fit_def)
    have "counts_below (2 * int (sum_list (map (\<lambda>gd. length (shHits gd)) (sig # bgs))) * K) d1"
      using a(4) K(1) by blast
    have "\<forall>ch \<in> set (fChambers spect). \<forall>pl \<in> set (chPlanes ch). plNStrips pl \<le> 32767"
      using assms(10,15) unfolding tables_ok_def by (meson order_trans)
    with \<open>counts_below _ d1\<close> show ?thesis using planes_storable [OF a(1) _ K(2)] by blast
  qed
  obtain ss draw where s: "SetTreeStrips R g m d1
      = Some (set_draws draw (d1 \<lparr> dgEvent := Some (e1 \<lparr> evGEMStrips := ss \<rparr>), dgFilled := True \<rparr>))"
      "list_all2 (strip_record m) (all_strips 0 (dgDP d1)) ss"
    using SetTreeStrips_ok [OF assms(3) st e1] by blast
  let ?e = "e1 \<lparr> evGEMStrips := ss \<rparr>"
  have "event_ok m ?e" using overlay_clusters [OF a(2) num assms(10)] a(3) assms(7) by (simp add: event_ok_def)
  then have "calo_ready P (dcProfiles x) m ?e \<longrightarrow> (\<exists>ret y k. DoLoadEvent P m ?e x = Some (ret, y) \<and> decoded_up_to P m ?e ret y k)"
    using stored_event_decodes [OF a(1) ready assms(2,10,8,9) s(2) _ _ assms(11-13)] by blast
  moreover have "length ss = length (all_strips 0 (dgDP d1))" using list_all2_lengthD [OF s(2)] by simp
  ultimately show ?thesis using run s(1) a(3)
    by (intro exI [of _ d1] exI [of _ "set_draws draw (d1 \<lparr> dgEvent := Some ?e, dgFilled := True \<rparr>)"] exI [of _ ?e])
      (simp add: set_draws_def)
qed

section \<open>From the file to the decoder\<close>

text \<open>C1. From the file to the truth information of the decoder.  The next entry of an open Geant4 file, a
  sound signal event with a signal track, is read and packed, its track and calorimeter clusters are set in
  the event, its hits are digitized, background events are added and the strips are written: all of this
  succeeds.  The event then holds the signal track with its kinematics at the target and a strip for every
  channel.  The decoder then loads it, if the values it reads of the calorimeter exist: every strip is
  found at its hardware address, the clusters it names are clusters of its own plane with their weights
  and samples, and GetSBSMCHitInfo returns its truth information, none of the assertions on the way fails.
  This holds also when the event is turned down with HED\_ERR because its calorimeter energy is below
  the threshold; only if the analyzer refuses a sample of a strip (loadData gives SD\_ERR) loading stops
  with HED\_ERR there, and the statement holds for the strips in front of it.  Without calorimeter (docalo
  is 0) and refusals the result is HED\_OK.

  Assumed: entry k is below 2 to the 32; the database has the geometry the reader asks for (read\_good)
  and rows whose values fit their fields; the digitizer is set up, with six samples and a noise function
  that returns; every event is small enough for its counts (at most 32767 hits, counts\_fit); detector
  types 1, 3, 4 and 5 (read\_good excludes SIDIS, type 2); the chambers are numbered apart and have at most n
  and 32767 strips (tables\_ok); the analyzer can be initialized, sorts by reordering, and no plane has
  fewer modules than the one before it (roc\_setup); track numbers of the signal list are positive.\<close>

theorem file_event_decodes:
  assumes "reading f es k" "k < length es" "k < 4294967296" "gfSource f = 0" "read_good m 0 (es ! k)" "rows_fit m 0 (snd (es ! k))"
    "signal_track (det_type m) 0 (snd (es ! k)) = Some t"
    and "setup_ok R g spect" "gpSamplingPoints g = 6" "noise_ok R g" "digi_inv g m spect e d"
    "\<forall>gd. event_packed m 0 (snd (es ! k)) gd \<longrightarrow> data_ready R g spect gd d" "\<forall>gd \<in> set bgs. data_ready R g spect gd d"
    "length (det_rows m (snd (es ! k))) + sum_list (map (\<lambda>gd. length (shHits gd)) bgs) \<le> 32767"
    and "dbNReadOut m = 2" "tables_ok m spect n" "podd_ok P" "roc_setup P m n" "signals_ok (dcSignalInfo x)"
    "counts_fit R g (length (det_rows m (snd (es ! k))) + sum_list (map (\<lambda>gd. length (shHits gd)) bgs))" "n \<le> 32767"
  shows "\<exists>f1 gd inp d0 e0 d1 d2 e2. ReadNextEvent Q m f = Some (1, f1) \<and> GetGEMData m f1 = Some gd
    \<and> SetTreeEvent R g gd (file_input f1) (int k) d = Some (inp, d0) \<and> dgEvent d0 = Some e0 \<and> evEvtID e0 = int k
    \<and> event_track t (if det_type m = 1 then geEp (snd (es ! k)) else geNp (snd (es ! k))) (geV (snd (es ! k)))
        (geSolang (snd (es ! k)) * geSigma (snd (es ! k))) e0
    \<and> (do { (r, d1) \<leftarrow> Digitize R g m gd spect d0; add_all R g m spect bgs d1 }) = Some d1
    \<and> SetTreeStrips R g m d1 = Some d2 \<and> dgEvent d2 = Some e2
    \<and> length (evGEMStrips e2) = length (all_strips 0 (dgDP d1)) \<and> evMCTracks e2 = evMCTracks e0
    \<and> (calo_ready P (dcProfiles x) m e2 \<longrightarrow> (\<exists>ret y k. DoLoadEvent P m e2 x = Some (ret, y) \<and> decoded_up_to P m e2 ret y k))"
proof -
  obtain f1 gd where r: "ReadNextEvent Q m f = Some (1, f1)" "GetGEMData m f1 = Some gd"
      "gens_as (det_type m) 0 (snd (es ! k)) (gfGens f1)" "event_packed m 0 (snd (es ! k)) gd"
    using read_and_pack [of f es k m Q] assms(1-6) by auto
  obtain gn where gn: "gfGens f1 = [gn]" "gen_of t (if det_type m = 1 then geEp (snd (es ! k)) else geNp (snd (es ! k)))
      (geV (snd (es ! k))) (geSolang (snd (es ! k)) * geSigma (snd (es ! k))) gn"
    using r(3) assms(7) by (auto simp: gens_as_def)
  have d: "dgEvent d = Some e" using assms(11) by (simp add: digi_inv_def)
  have inp: "giGen (file_input f1) = [gn]" "giECal (file_input f1) = map Some (gfECal f1)" "giScint (file_input f1) = map Some (gfScint f1)"
    by (simp_all add: file_input_def gn(1))
  obtain f2 e0 q where s: "SetTreeEvent R g gd (file_input f1) (int k) d = Some (f2, set_draws q (d \<lparr> dgEvent := Some e0 \<rparr>))"
      "event_track t (if det_type m = 1 then geEp (snd (es ! k)) else geNp (snd (es ! k))) (geV (snd (es ! k)))
        (geSolang (snd (es ! k)) * geSigma (snd (es ! k))) e0" "evEvtID e0 = int k"
    using SetTreeEvent_track [OF d inp(1) gn(2) inp(2,3), of R g gd "int k"] by auto
  define d0 where "d0 = set_draws q (d \<lparr> dgEvent := Some e0 \<rparr>)"
  define e' where "e' = e0 \<lparr> evGEMClust := evGEMClust e \<rparr>"
  define d' where "d' = d0 \<lparr> dgEvent := Some e' \<rparr>"
  have ev0: "dgEvent d0 = Some e0" by (simp add: d0_def set_draws_def)
  have dig: "Digitize R g m gd spect d0 = Digitize R g m gd spect d'"
    using Digitize_forgets [OF ev0] by (simp add: d'_def e'_def)
  have inv: "digi_inv g m spect e' d'" using assms(11) by (simp add: digi_inv_def d'_def d0_def e'_def set_draws_def)
  have ions: "ioTime0 (dgIons d') = ioTime0 (dgIons d)" by (simp add: d'_def d0_def set_draws_def)
  have ready: "\<forall>gd \<in> set (gd # bgs). data_ready R g spect gd d'"
    using assms(12,13) r(4) ions by (simp add: data_ready_def time_known_def)
  have "length (filter (\<lambda>r. 0 < rwEdep r) (det_rows m (snd (es ! k)))) = length (shHits gd)"
    using r(4) unfolding event_packed_def by (blast dest: list_all2_lengthD)
  then have "length (shHits gd) \<le> length (det_rows m (snd (es ! k)))" by (metis length_filter_le)
  then have le: "sum_list (map (\<lambda>gd. length (shHits gd)) (gd # bgs)) \<le> length (det_rows m (snd (es ! k))) + sum_list (map (\<lambda>gd. length (shHits gd)) bgs)"
    by simp
  have cnt: "sum_list (map (\<lambda>gd. length (shHits gd)) (gd # bgs)) \<le> 32767" using le_trans [OF le assms(14)] .
  have cf: "counts_fit R g (sum_list (map (\<lambda>gd. length (shHits gd)) (gd # bgs)))" by (rule counts_fit_mono [OF assms(20) le])
  have tr: "evMCTracks e' = evMCTracks e0" "evMCTracks e' \<noteq> []" using s(2) by (auto simp: event_track_def e'_def)
  have geo: "geometry_ok m" using assms(5) by (auto simp: read_good_def event_good_def reader_db_def)
  obtain d1 d2 e2 where d1: "(do { (r, d1) \<leftarrow> Digitize R g m gd spect d'; add_all R g m spect bgs d1 }) = Some d1"
    "SetTreeStrips R g m d1 = Some d2" "dgEvent d2 = Some e2" "length (evGEMStrips e2) = length (all_strips 0 (dgDP d1))"
    "evMCTracks e2 = evMCTracks e'"
    "calo_ready P (dcProfiles x) m e2 \<longrightarrow> (\<exists>ret y k. DoLoadEvent P m e2 x = Some (ret, y) \<and> decoded_up_to P m e2 ret y k)"
    using digitized_event_decodes [OF assms(8-10) inv ready cnt tr(2) geo assms(15-19) cf assms(21)] by blast
  have run: "(do { (r, d1) \<leftarrow> Digitize R g m gd spect d0; add_all R g m spect bgs d1 }) = Some d1"
    using d1(1) by (simp only: dig)
  show ?thesis
    by (intro exI conjI) (fact r(1), fact r(2), fact s(1) [folded d0_def], fact ev0, fact s(3), fact s(2), fact run,
        fact d1(2), fact d1(3), fact d1(4), fact d1(5) [unfolded tr(1)], fact d1(6))
qed

section \<open>An example\<close>

definition dbmF :: dbm where
  "dbmF = dbmE \<lparr> dbNChamber := 1, dbNReadOut := 2, dbNModule := [1], dbPMGeo := [0 \<mapsto> [geoB 0]],
     dbIgemtoPlane := [0 \<mapsto> 0], dbIgemtoModule := [0 \<mapsto> 0],
     dbVars := (dbVars dbmE)(''g4sbs_detectortype'' \<mapsto> DInt 1, ''g4sbs_z_specoffset'' \<mapsto> DDouble 0, ''calo_thr'' \<mapsto> DDouble 0) \<rparr>"

definition decoderEx :: "(int \<times> int \<times> int \<times> int) list decoder" where
  "decoderEx = \<lparr> dcNeedInit = True, dcSlots = [], dcStripMap = Map.empty, dcMCHits = [], dcMCTracks = [], dcMCPoints = [],
     dcBackTracks = [], dcNHits = 0, dcHitBits = 0, dcWeight = 1, dcEventNum = 0, dcSignalInfo = [(11, 1)],
     dcProfiles = \<lparr> prDefaultX = profileEx, prDefaultY = profileEx, prXNbins = 0, prYNbins = 0, prXMin = 0, prXMax = 0,
       prYMin = 0, prYMax = 0, prX = [], prY = [] \<rparr> \<rparr>"

lemma dbmF_simps:
  "dbNChamber dbmF = 1" "dbNModule dbmF = [1]" "geos dbmF 0 = [geoB 0]" "GetPlaneID dbmF 0 = 0" "GetModuleID dbmF 0 = 0"
  "dbVars dbmF ''chan_per_slot'' = Some (DInt 2048)" "dbVars dbmF ''docalo'' = Some (DInt 0)" "dbVars dbmF ''z0'' = Some (DDouble 1)"
  "dbVars dbmF ''g4sbs_detectortype'' = Some (DInt 1)" "dbVars dbmF ''g4sbs_z_specoffset'' = Some (DDouble 0)"
  "dbVars dbmF ''calo_thr'' = Some (DDouble 0)" "GetGEMID dbmF 0 0 = 0"
  by (simp_all add: dbmF_def dbmE_simps geos_def GetPlaneID_def GetModuleID_def map_at_def GetGEMID_def dbmE_def dbm0_def)

lemma dbmF_ok:
  assumes "plNStrips pl = 11"
  shows "geometry_ok dbmF" "dbNReadOut dbmF = 2" "tables_ok dbmF (specEx pl) 2048" "\<forall>pr e. calo_ready poddEx pr dbmF e" "roc_setup poddEx dbmF 2048"
    "signals_ok (dcSignalInfo decoderEx)"
proof -
  note f = dbmF_simps
  have "int (length (geos dbmF i)) = max 0 ([1] ! nat i)" if "0 \<le> i" "i < 1" for i
  proof -
    have "i = 0" using that by simp
    then show ?thesis by (simp add: f)
  qed
  then show "geometry_ok dbmF" by (simp add: geometry_ok_def f)
  show "dbNReadOut dbmF = 2" by (simp add: dbmF_def)
  show "tables_ok dbmF (specEx pl) 2048" using assms by (simp add: tables_ok_def specEx_def chamber_channel_def f inj_on_def)
  show "\<forall>pr e. calo_ready poddEx pr dbmF e"
    by (intro allI calo_ready_off) (simp_all add: DoCalo_def f var_int_def var_double_def)
  show "roc_setup poddEx dbmF 2048"
    by (simp add: roc_setup_def GetChanPerSlot_def f var_int_def counts_ok_def poddEx_def)
  show "signals_ok (dcSignalInfo decoderEx)" by (simp add: signals_ok_def decoderEx_def)
qed


text \<open>A file of one event: a hit of 52 eV that crosses the module, and the primary track.\<close>

definition rowF :: g4row where
  "rowF = rowG \<lparr> rwEdep := 52 / 1000000000, rwTx := 0, rwIn := Vec 0 0 1, rwOut := Vec (1/100) (1/100) (1003/1000) \<rparr>"

definition eventF :: g4event where
  "eventF = eventG \<lparr> geBBGEM := (1, [rowF]) \<rparr>"

definition entriesF :: "(int \<times> g4event) list" where
  "entriesF = [(100, eventF)]"

definition fileF :: g4file where
  "fileF = fileG \<lparr> gfTree := Some (entriesF, None), gfEvNum := Some (of_nat 0 - 1) \<rparr>"

lemma rowF_module: "row_ok dbmF rowF" "module_of dbmF rowF = 0" "plane_of rowF = 0" "det_type dbmF = 1"
proof -
  show p: "plane_of rowF = 0" by (simp add: plane_of_def rowF_def rowG_def)
  show "row_ok dbmF rowF" by (simp add: row_ok_def p CheckIndex_True dbmF_simps)
  show "module_of dbmF rowF = 0" by (simp add: module_of_def p dbmF_simps) (simp add: rowF_def geoB_def)
  show "det_type dbmF = 1" by (simp add: det_type_def Getg4sbsDetectorType_def dbmF_simps var_int_def)
qed

lemma fileF_reading: "reading fileF entriesF 0" "gfSource fileF = 0" "0 < length entriesF"
  by (simp_all add: reading_def fileF_def fileG_def entriesF_def)

lemma goodF: "read_good dbmF src (entriesF ! 0)" "rows_fit dbmF src (snd (entriesF ! 0))"
  "signal_track (det_type dbmF) 0 (snd (entriesF ! 0)) = Some trackG" "rows_fit dbmF src eventF" "det_rows dbmF eventF = [rowF]"
proof -
  have "geometry_ok dbmF" using dbmF_ok(1) [of "pl \<lparr> plNStrips := 11 \<rparr>" for pl] by simp
  moreover have "geos dbmF i = (if i = 0 then [geoB 0] else [])" for i by (simp add: geos_def dbmF_def)
  ultimately have "reader_db dbmF" by (simp add: reader_db_def Getg4sbsZSpecOffset_def dbmF_simps var_double_def geoB_def)
  moreover have "calo_ok dbmF" by (simp add: calo_ok_def DoCalo_def GetCaloThreshold_def dbmF_simps var_int_def var_double_def)
  ultimately have "event_good 1 dbmF src eventF" using rowF_module(1)
    by (simp add: event_good_def det_bank_def det_tracks_def eventF_def eventG_def bank_ok_def tracks_ok_def Geant4Reader.track_ok_def trackG_def)
  then show "read_good dbmF src (entriesF ! 0)"
    by (simp add: entriesF_def read_good_def Getg4sbsDetectorType_def dbmF_simps var_int_def)
  show r: "det_rows dbmF eventF = [rowF]"
    using rowF_module(2) by (simp add: det_rows_def rowF_module(4) det_bank_def eventF_def kept_def)
  show f: "rows_fit dbmF src eventF" using rowF_module(2,3)
    by (simp add: rows_fit_def r rowF_module(4) row_fits_def hit_type_def) (simp add: rowF_def rowG_def)
  show "rows_fit dbmF src (snd (entriesF ! 0))" using f by (simp add: entriesF_def)
  show "signal_track (det_type dbmF) 0 (snd (entriesF ! 0)) = Some trackG"
    by (simp add: entriesF_def signal_track_def rowF_module(4) det_tracks_def eventF_def eventG_def trackG_def)
qed

text \<open>The hit the reader makes of the row is the one the digitizer is known to take.\<close>

lemma packedF:
  assumes "event_packed dbmF src eventF gd"
  shows "\<exists>h. shHits gd = [h] \<and> hdXi h = 0 \<and> hdXo h = Vec 10 10 3 \<and> hdEdep h = 52 \<and> hdPlane h = 0 \<and> hdGem h = 0"
proof -
  have "list_all2 (row_packed 1 dbmF src eventF) [rowF] (shHits gd)"
    using assms by (simp add: event_packed_def goodF(5) rowF_module(4)) (simp add: rowF_def)
  then obtain h where h: "shHits gd = [h]" "row_packed 1 dbmF src eventF rowF h" by (auto simp: list_all2_Cons1)
  have q: "GetXOffset dbmF 0 0 = Some 0" "GetD0 dbmF 0 0 = Some 1" "GetDX dbmF 0 0 = Some (1/2)" "GetDY dbmF 0 0 = Some (2/5)"
      "Getg4sbsZSpecOffset dbmF = Some 0"
    by (simp_all add: GetXOffset_def GetD0_def GetDX_def GetDY_def geo_query_def CheckIndex_def geo_at_def dbmF_simps geoB_def
        Getg4sbsZSpecOffset_def var_double_def rdi_def rd_def del: rd_Some rdi_Some)
  have v: "rwIn rowF = Vec 0 0 1" "rwOut rowF = Vec (1/100) (1/100) (1003/1000)" "rwEdep rowF = 52 / 1000000000"
    by (simp_all add: rowF_def)
  have "int (hdPlane h) = 0" "int (hdGem h) = 0"
    using h(2) by (simp_all add: row_packed_def rowF_module(2,3) dbmF_simps)
  moreover have "hdXi h = 0" "hdXo h = Vec 10 10 3" "hdEdep h = 52"
    using h(2) by (simp_all add: row_packed_def size_module_def rowF_module(2,3) frame_of_def clip_vec_def clip_def q v zero_vec3_def)
  ultimately show ?thesis using h(1) by simp
qed

theorem file_event_decodes_witness:
  "\<forall>Q. \<exists>pl f1 gd h d inp d0 d1 d2 e2 y. ReadNextEvent Q dbmF fileF = Some (1, f1) \<and> GetGEMData dbmF f1 = Some gd
    \<and> shHits gd = [h] \<and> hdXo h = Vec 10 10 3 \<and> SetTreeEvent rngEx gparEx gd (file_input f1) 0 d = Some (inp, d0)
    \<and> (do { (r, d1) \<leftarrow> Digitize rngEx gparEx dbmF gd (specEx pl) d0; add_all rngEx gparEx dbmF (specEx pl) [] d1 }) = Some d1
    \<and> SetTreeStrips rngEx gparEx dbmF d1 = Some d2 \<and> dgEvent d2 = Some e2 \<and> map tkNumber (evMCTracks e2) = [1]
    \<and> DoLoadEvent poddEx dbmF e2 decoderEx = Some (HED_OK, y) \<and> (\<forall>s \<in> set (evGEMStrips e2). decodes poddEx dbmF y e2 s)"
proof
  fix Q
  obtain pl where pl: "setup_ok rngEx gparEx (specEx pl)" "hit_ready rngEx gparEx (specEx pl) hitEx" "plNStrips pl = 11" using readyEx by blast
  have sp: "gpSamplingPoints gparEx = 6" by (simp add: gparEx_def)
  obtain d where d: "digi_inv gparEx dbmF (specEx pl) simevent_new d"
    using digitizer_ok [of "specEx pl" gparEx 1 dbmF] pl(1) sp by (auto simp: setup_ok_def)
  have noise: "noise_ok rngEx gparEx" by (simp add: noise_ok_def rngEx_def)
  have ready: "data_ready rngEx gparEx (specEx pl) gd d" if p: "event_packed dbmF 0 eventF gd" for gd
  proof -
    obtain h where h: "shHits gd = [h]" "hdXi h = 0" "hdXo h = Vec 10 10 3" "hdEdep h = 52" "hdPlane h = 0" "hdGem h = 0"
      using packedF [OF p] by blast
    have "hit_ready rngEx gparEx (specEx pl) h = hit_ready rngEx gparEx (specEx pl) hitEx"
      by (simp add: hit_ready_def h hitEx_def hit0_def)
    moreover have "ionizes rngEx gparEx h" by (simp add: ionizes_def rngEx_def)
    ultimately show ?thesis using pl(2) by (simp add: data_ready_def h(1) time_known_def)
  qed
  have r: "\<forall>gd. event_packed dbmF 0 (snd (entriesF ! 0)) gd \<longrightarrow> data_ready rngEx gparEx (specEx pl) gd d"
    "\<forall>gd \<in> set []. data_ready rngEx gparEx (specEx pl) gd d" using ready by (simp_all add: entriesF_def)
  have n: "length (det_rows dbmF (snd (entriesF ! 0))) + sum_list (map (\<lambda>gd. length (shHits gd)) []) \<le> 32767"
    by (simp add: goodF(5) entriesF_def)
  have "hit_room rngEx gparEx 4095" by (simp add: hit_room_def rngEx_def gparEx_def)
  then have cf: "counts_fit rngEx gparEx (length (det_rows dbmF (snd (entriesF ! 0))) + sum_list (map (\<lambda>gd. length (shHits gd)) []))"
    by (auto simp: counts_fit_def goodF(5) entriesF_def intro!: exI [of _ 4095])
  have n2: "(2048::int) \<le> 32767" by simp
  obtain f1 gd inp d0 e0 d1 d2 e2 where g: "ReadNextEvent Q dbmF fileF = Some (1, f1)" "GetGEMData dbmF f1 = Some gd"
      "SetTreeEvent rngEx gparEx gd (file_input f1) (int 0) d = Some (inp, d0)"
      "(do { (r, d1) \<leftarrow> Digitize rngEx gparEx dbmF gd (specEx pl) d0; add_all rngEx gparEx dbmF (specEx pl) [] d1 }) = Some d1"
      "SetTreeStrips rngEx gparEx dbmF d1 = Some d2" "dgEvent d2 = Some e2" "evMCTracks e2 = evMCTracks e0"
      "event_track trackG (if det_type dbmF = 1 then geEp (snd (entriesF ! 0)) else geNp (snd (entriesF ! 0))) (geV (snd (entriesF ! 0)))
        (geSolang (snd (entriesF ! 0)) * geSigma (snd (entriesF ! 0))) e0"
      "calo_ready poddEx (dcProfiles decoderEx) dbmF e2 \<longrightarrow>
        (\<exists>ret y k. DoLoadEvent poddEx dbmF e2 decoderEx = Some (ret, y) \<and> decoded_up_to poddEx dbmF e2 ret y k)"
    using file_event_decodes [OF fileF_reading(1,3) zero_less_numeral fileF_reading(2) goodF(1-3) pl(1) sp noise d r n
        dbmF_ok(2,3) [OF pl(3)] exampleEx(1) dbmF_ok(5,6) [OF pl(3)] cf n2, of Q] by blast
  have "event_packed dbmF 0 eventF gd"
    using read_and_pack [OF fileF_reading(1,3), of dbmF Q] goodF(1,2) g(1,2) by (auto simp: fileF_reading(2) entriesF_def)
  then obtain h where h: "shHits gd = [h]" "hdXo h = Vec 10 10 3" using packedF by blast
  obtain ret y k where y: "DoLoadEvent poddEx dbmF e2 decoderEx = Some (ret, y)" "decoded_up_to poddEx dbmF e2 ret y k"
    using g(9) dbmF_ok(4) [OF pl(3)] by blast
  have k: "k = length (evGEMStrips e2)"
    using y(2) exampleEx(7) [of dbmF] by (auto simp: decoded_up_to_def le_less)
  have ret: "ret = HED_OK" "\<forall>s \<in> set (evGEMStrips e2). decodes poddEx dbmF y e2 s"
    using y(2) k by (simp_all add: decoded_up_to_def DoCalo_def dbmF_simps var_int_def)
  have tk: "map tkNumber (evMCTracks e2) = [1]" using g(7,8) by (auto simp: event_track_def trackG_def)
  show "\<exists>pl f1 gd h d inp d0 d1 d2 e2 y. ReadNextEvent Q dbmF fileF = Some (1, f1) \<and> GetGEMData dbmF f1 = Some gd
    \<and> shHits gd = [h] \<and> hdXo h = Vec 10 10 3 \<and> SetTreeEvent rngEx gparEx gd (file_input f1) 0 d = Some (inp, d0)
    \<and> (do { (r, d1) \<leftarrow> Digitize rngEx gparEx dbmF gd (specEx pl) d0; add_all rngEx gparEx dbmF (specEx pl) [] d1 }) = Some d1
    \<and> SetTreeStrips rngEx gparEx dbmF d1 = Some d2 \<and> dgEvent d2 = Some e2 \<and> map tkNumber (evMCTracks e2) = [1]
    \<and> DoLoadEvent poddEx dbmF e2 decoderEx = Some (HED_OK, y) \<and> (\<forall>s \<in> set (evGEMStrips e2). decodes poddEx dbmF y e2 s)"
    by (rule exI [of _ pl], rule exI [of _ f1], rule exI [of _ gd], rule exI [of _ h], rule exI [of _ d], rule exI [of _ inp],
        rule exI [of _ d0], rule exI [of _ d1], rule exI [of _ d2], rule exI [of _ e2], rule exI [of _ y])
      (intro conjI g(1,2,4-6) y(1) [unfolded ret(1)] ret(2) h tk g(3) [unfolded int_ops(1)])
qed

section \<open>The whole run\<close>

text \<open>C2. The run over the signal files ends and writes what it should: the program terminates, reads the
  entries of the signal files in order up to the number Nmax, and the output tree then holds exactly one
  event for each of them that has hits and a generated track, in the same order: with the number of the
  entry, its track and weight, one cluster for every accepted hit of the entry and then of the background
  files chosen for it, and a strip record for every channel.  The background of an event starts at the file
  number the event before left.

  Assumed: a digitizer that is set up (at most six samples, at most 32767 strips per plane, a noise function
  that returns) with an empty output tree; at most three background files per event and, if background is
  asked for, file 999 is present and each of the files 0 to 1002 is missing or sound and not empty -- with
  four files the search may never end, and an event for which no file is found deletes an undefined
  pointer, which file 999 excludes; signal files that are missing or sound, with fewer than 2 to the 32
  entries in all; names shorter than 255 characters; detector type 1, 3, 4 or 5; and room for the counts: at
  most 32767 hits in an event with its background.\<close>

theorem pass_writes_events:
  assumes "pass_ok E" "room E S" "digi_inv (peG E) (peM E) (peSpec E) e d" "dgTree d = Some []"
    "\<forall>i < n. sig_file_ok E S i" "length (concat (map (sig_entries E) [0..<n])) < 4294967296"
  shows "\<exists>s u. pass_files E 0 n (pass0 d) = Some s \<and> dgTree (psDigi s) = Some u
    \<and> (let es = take (nat (peNmax E)) (concat (map (sig_entries E) [0..<n]))
       in psEvent s = int (length es) \<and> psGood s = int (length u)
          \<and> length u = length (filter (\<lambda>be. signal_event E (snd be)) es) \<and> written E 0 0 es u (psBgFile s))"
proof -
  have "pass_inv E [] (pass0 d)" using assms(3,4) by (auto simp: pass_inv_def pass0_def)
  moreover have "psEvent (pass0 d) + int (length (concat (map (sig_entries E) [0..<0 + n]))) < 4294967296"
    using assms(6) by (simp add: pass0_def)
  ultimately obtain s u where s: "pass_files E 0 n (pass0 d) = Some s" "pass_inv E ([] @ u) s"
      "came E (pass0 d) (take (nat (peNmax E - psEvent (pass0 d))) (concat (map (sig_entries E) [0..<0 + n]))) u s"
    using pass_files_ok [OF assms(1,2), of "[]" "pass0 d" 0 n] assms(5) by auto
  let ?es = "take (nat (peNmax E)) (concat (map (sig_entries E) [0..<n]))"
  have c: "psEvent s = int (length ?es)" "psGood s = int (length u)" "written E 0 0 ?es u (psBgFile s)"
    using s(3) by (simp_all add: came_def pass0_def)
  have "dgTree (psDigi s) = Some u" using s(2) by (simp add: pass_inv_def)
  then show ?thesis using s(1) c written_length [OF c(3)] by (intro exI [of _ s] exI [of _ u]) (simp add: Let_def)
qed

text \<open>A run over one signal file of one event with two background files of one event each.\<close>

definition passF :: "plane \<Rightarrow> passenv" where
  "passF pl = \<lparr> peR = rngEx, peQ = \<lparr> cgPois = \<lambda>_ _. 0, cgGaus = \<lambda>_ _ _. 0 \<rparr>, peG = gparEx, peM = dbmF, peSpec = specEx pl,
     peDisk = (\<lambda>_. TreeT entriesF), peSig = ''s'', peBkgd = ''b'', peMips = False, peNmax = 4294967295, peNback = 2 \<rparr>"

lemma passF_simps:
  "peR (passF pl) = rngEx" "peG (passF pl) = gparEx" "peM (passF pl) = dbmF" "peSpec (passF pl) = specEx pl" "peNback (passF pl) = 2"
  "peNmax (passF pl) = 4294967295" "bg_entries (passF pl) k = entriesF" "sig_entries (passF pl) i = entriesF"
  "peDisk (passF pl) name = TreeT entriesF"
  by (simp_all add: passF_def bg_entries_def sig_entries_def)

text \<open>The hits of the example can be digitized, and each makes one cluster.\<close>

lemma hitsF:
  assumes "hit_ready rngEx gparEx (specEx pl) hitEx" "event_packed dbmF src eventF gd"
  shows "\<forall>h \<in> set (shHits gd). hit_ready rngEx gparEx (specEx pl) h \<and> ionizes rngEx gparEx h"
    "length (source_hits (specEx pl) gd) = 1"
proof -
  obtain h where h: "shHits gd = [h]" "hdXi h = 0" "hdXo h = Vec 10 10 3" "hdEdep h = 52" "hdPlane h = 0" "hdGem h = 0"
    using packedF [OF assms(2)] by blast
  have "hit_ready rngEx gparEx (specEx pl) h = hit_ready rngEx gparEx (specEx pl) hitEx"
    by (simp add: hit_ready_def h hitEx_def hit0_def)
  then show "\<forall>h \<in> set (shHits gd). hit_ready rngEx gparEx (specEx pl) h \<and> ionizes rngEx gparEx h"
    using assms(1) h(1) by (simp add: ionizes_def rngEx_def)
  have "accepted (specEx pl) h" by (simp add: accepted_def h specEx_def)
  then show "length (source_hits (specEx pl) gd) = 1" by (simp add: source_hits_def h(1))
qed

lemma passF_ok:
  assumes "setup_ok rngEx gparEx (specEx pl)" "hit_ready rngEx gparEx (specEx pl) hitEx" "plNStrips pl = 11"
  shows "pass_ok (passF pl)" "room (passF pl) 1" "sig_file_ok (passF pl) 1 0" "0 \<le> k \<Longrightarrow> k < 1003 \<Longrightarrow> present (passF pl) k"
proof -
  let ?E = "passF pl"
  note f = passF_simps
  have d: "digitizable ?E src eventF" for src using hitsF(1) [OF assms(2), of src] by (simp add: digitizable_def f)
  have eok: "entry_ok ?E src be" if "be \<in> set entriesF" for src be
    using that goodF(1,4) [of src] d [of src] by (simp add: entry_ok_def f entriesF_def)
  have bname: "bg_file ?E k = ''b/beam_bkgd_'' @ show_int k @ ''.root''" for k by (simp add: bg_file_def passF_def)
  have len: "length (show_int k) \<le> 4" if "0 \<le> k" "k < 1003" for k
    using that length_digits [of "nat k"] by (simp add: show_int_def nat_less_iff)
  have bok: "bg_ok ?E k" if "0 \<le> k" "k < 1003" for k
    using len [OF that] eok by (simp add: bg_ok_def f bname entriesF_def)
  have ty: "Getg4sbsDetectorType dbmF = Some 1" by (simp add: Getg4sbsDetectorType_def dbmF_simps var_int_def)
  show pr: "present ?E k" if "0 \<le> k" "k < 1003" for k
    using len [OF that] ty by (simp add: present_def open_bg_def bname TSBSGeant4File_def g4_SetFilename_def g4_Open_def f Let_def)
  have st: "plNStrips pl' \<le> 32767" if "ch \<in> set (fChambers (specEx pl))" "pl' \<in> set (chPlanes ch)" for ch pl'
    using that assms(3) by (auto simp: specEx_def)
  show "pass_ok ?E" using assms(1) bok pr [of 999] ty st
    by (auto simp: pass_ok_def f noise_ok_def) (simp_all add: rngEx_def gparEx_def)
  have "hit_room rngEx gparEx 4095" by (simp add: hit_room_def rngEx_def gparEx_def)
  then have "counts_fit rngEx gparEx 3" unfolding counts_fit_def by (intro exI [of _ 4095]) simp
  moreover have "hits_of ?E k = 1" for k by (simp add: hits_of_def f) (simp add: entriesF_def goodF(5))
  ultimately show "room ?E 1" by (simp add: room_def f) (intro exI [of _ 1]; simp)
  have "sig_file ?E 0 = ''s/elastic_'' @ show_int 0 @ ''.root''" by (simp add: sig_file_def passF_def)
  moreover have "\<forall>be \<in> set entriesF. sig_ok ?E 1 be" using eok [of _ 0] by (simp add: sig_ok_def f) (simp add: entriesF_def goodF(5))
  ultimately show "sig_file_ok ?E 1 0" using len [of 0] by (simp add: sig_file_ok_def f)
qed

theorem pass_writes_events_witness:
  "\<exists>pl d s ev. pass_files (passF pl) 0 1 (pass0 d) = Some s \<and> dgTree (psDigi s) = Some [ev] \<and> evEvtID ev = 0
    \<and> length (evGEMClust ev) = 3 \<and> psEvent s = 1 \<and> psBgFile s = 2"
proof -
  obtain pl where pl: "setup_ok rngEx gparEx (specEx pl)" "hit_ready rngEx gparEx (specEx pl) hitEx" "plNStrips pl = 11" using readyEx by blast
  let ?E = "passF pl"
  note f = passF_simps and ok = passF_ok [OF pl]
  obtain d0 where d0: "digi_inv gparEx dbmF (specEx pl) simevent_new d0"
    using digitizer_ok [of "specEx pl" gparEx 1 dbmF] pl(1) by (auto simp: setup_ok_def gparEx_def)
  define d where "d = d0 \<lparr> dgTree := Some [] \<rparr>"
  have d: "digi_inv (peG ?E) (peM ?E) (peSpec ?E) simevent_new d" "dgTree d = Some []"
    using d0 by (simp_all add: d_def f digi_inv_def)
  have n: "\<forall>i < 1. sig_file_ok ?E 1 i" "length (concat (map (sig_entries ?E) [0..<1])) < 4294967296"
    using ok(3) by (simp_all add: f entriesF_def)
  obtain s u where s: "pass_files ?E 0 1 (pass0 d) = Some s" "dgTree (psDigi s) = Some u" "psEvent s = 1"
      "written ?E 0 0 [(100, eventF)] u (psBgFile s)"
    using pass_writes_events [OF ok(1,2) d n] by (auto simp: f Let_def entriesF_def)
  have "signal_event ?E eventF" using goodF(3) by (simp add: signal_event_def f goodF(5) entriesF_def)
  then obtain ev ns N' where e: "u = [ev]" "bg_used ?E 0 0 0 ns N'" "event_of ?E 0 ns eventF ev" "psBgFile s = next_start N'"
    using s(4) by auto
  have nb: "(0::int) \<le> peNback ?E" "\<forall>n. 0 \<le> n \<and> n < 0 + peNback ?E \<longrightarrow> present ?E n" using ok(4) by (simp_all add: f)
  have "[0..1] = [0, 1 :: int]" by (simp add: upto.simps)
  then have ns: "ns = [0, 1]" "N' = 2" using bg_used_sound(8) [OF e(2) _ _ nb] by (simp_all add: f)
  obtain gd gds where g: "event_packed dbmF 0 eventF gd" "list_all2 (\<lambda>be. event_packed dbmF 1 (snd be)) (entriesF @ entriesF) gds"
      "overlay dbmF (concat (map (source_hits (specEx pl)) (gd # gds))) (evGEMClust ev)"
    using e(3) unfolding event_of_def f ns by auto
  obtain g1 g2 where g12: "gds = [g1, g2]" "event_packed dbmF 1 eventF g1" "event_packed dbmF 1 eventF g2"
    using g(2) by (auto simp: entriesF_def list_all2_Cons1)
  have "length (evGEMClust ev) = 3"
    using overlay_length [OF g(3)] hitsF(2) [OF pl(2)] g(1) g12 by simp
  moreover have "evEvtID ev = 0" using e(3) by (simp add: event_of_def)
  ultimately show ?thesis using s(1-3) e(1,4) ns(2) by (auto simp: next_start_def)
qed

text \<open>C27. The batch program: a run without background ends, reads every file from entry Nmin on, and stops when the number of the
  event, which starts at Nmin and goes on from file to file, reaches Nmax.  The tree then holds one event for
  each of these entries that has hits and a generated track.\<close>

theorem batch_writes_events:
  assumes "pass_ok E" "room E S" "peNback E = 0" "digi_inv (peG E) (peM E) (peSpec E) e d" "dgTree d = Some []"
    "0 \<le> fb" "fb < 1000" "\<forall>i < n. sig_file_ok E S i \<and> length (sig_entries E i) < 4294967296"
    "uint Nmin + int (length (concat (map (from_entries E Nmin) [0..<n]))) < 4294967296"
  shows "\<exists>s u. dp_files E Nmin 0 n (dp_start Nmin fb d) = Some (Go s) \<and> dgTree (psDigi s) = Some u
    \<and> (let es = take (nat (peNmax E - uint Nmin)) (concat (map (from_entries E Nmin) [0..<n]))
       in psEvent s = uint Nmin + int (length es) \<and> psGood s = int (length u)
          \<and> length u = length (filter (\<lambda>be. signal_event E (snd be)) es) \<and> written E (uint Nmin) fb es u (psBgFile s))"
proof -
  have "pass_inv E [] (dp_start Nmin fb d)" using assms(4-7) by (auto simp: pass_inv_def dp_start_def)
  moreover have "psEvent (dp_start Nmin fb d) + int (length (concat (map (from_entries E Nmin) [0..<0 + n]))) < 4294967296"
    using assms(9) by (simp add: dp_start_def)
  ultimately obtain s u where s: "dp_files E Nmin 0 n (dp_start Nmin fb d) = Some (Go s)" "pass_inv E ([] @ u) s"
      "came E (dp_start Nmin fb d) (take (nat (peNmax E - psEvent (dp_start Nmin fb d))) (concat (map (from_entries E Nmin) [0..<0 + n]))) u s"
    using dp_files_ok [OF assms(1-3), of "[]" "dp_start Nmin fb d" 0 n Nmin] assms(8) by auto
  let ?es = "take (nat (peNmax E - uint Nmin)) (concat (map (from_entries E Nmin) [0..<n]))"
  have c: "psEvent s = uint Nmin + int (length ?es)" "psGood s = int (length u)" "written E (uint Nmin) fb ?es u (psBgFile s)"
    using s(3) by (simp_all add: came_def dp_start_def)
  have "dgTree (psDigi s) = Some u" using s(2) by (simp add: pass_inv_def)
  then show ?thesis using s(1) c written_length [OF c(3)] by (intro exI [of _ s] exI [of _ u]) (simp add: Let_def)
qed

theorem batch_writes_events_witness:
  "\<exists>pl d s ev. dp_files ((passF pl) \<lparr> peNback := 0 \<rparr>) 0 0 1 (dp_start 0 7 d) = Some (Go s)
    \<and> dgTree (psDigi s) = Some [ev] \<and> evEvtID ev = 0 \<and> psEvent s = 1"
proof -
  obtain pl where pl: "setup_ok rngEx gparEx (specEx pl)" "hit_ready rngEx gparEx (specEx pl) hitEx" "plNStrips pl = 11" using readyEx by blast
  let ?E = "(passF pl) \<lparr> peNback := 0 \<rparr>"
  note f = passF_simps and ok = passF_ok [OF pl]
  obtain d0 where d0: "digi_inv gparEx dbmF (specEx pl) simevent_new d0"
    using digitizer_ok [of "specEx pl" gparEx 1 dbmF] pl(1) by (auto simp: setup_ok_def gparEx_def)
  define d where "d = d0 \<lparr> dgTree := Some [] \<rparr>"
  have d: "digi_inv (peG ?E) (peM ?E) (peSpec ?E) simevent_new d" "dgTree d = Some []"
    using d0 by (simp_all add: d_def f digi_inv_def)
  have o: "pass_ok ?E" using ok(1) by (simp add: pass_ok_def)
  have "sig_file ?E i = sig_file (passF pl) i" for i by (simp add: sig_file_def)
  then have se: "sig_entries ?E i = entriesF" for i using f(8) by (simp add: sig_entries_def)
  have "sig_file_ok ?E 1 0" using ok(3) \<open>\<And>i. sig_file ?E i = sig_file (passF pl) i\<close> se f(8)
    by (simp add: sig_file_ok_def sig_ok_def entry_ok_def digitizable_def)
  then have sf: "\<forall>i < 1. sig_file_ok ?E 1 i \<and> length (sig_entries ?E i) < 4294967296" using se by (simp add: entriesF_def)
  have "bg_entries ?E n = bg_entries (passF pl) n" for n by (simp add: bg_entries_def bg_file_def)
  then have h: "hits_of ?E n = hits_of (passF pl) n" for n by (simp add: hits_of_def)
  obtain B where B: "\<forall>n. hits_of (passF pl) n \<le> B" "counts_fit rngEx gparEx (1 + 2 * B)" using ok(2) by (auto simp: room_def f)
  have "room ?E 1" unfolding room_def h using B counts_fit_mono [OF B(2), of 1] by (intro exI [of _ B]) (simp add: f)
  have l: "uint (0 :: 32 word) + int (length (concat (map (from_entries ?E 0) [0..<1]))) < 4294967296"
    by (simp add: from_entries_def se entriesF_def)
  obtain s u where s: "dp_files ?E 0 0 1 (dp_start 0 7 d) = Some (Go s)" "dgTree (psDigi s) = Some u" "psEvent s = 1"
      "written ?E 0 7 [(100, eventF)] u (psBgFile s)"
    using batch_writes_events [OF o \<open>room ?E 1\<close> _ d _ _ sf l, of 7] by (auto simp: f Let_def from_entries_def se entriesF_def)
  have "signal_event ?E eventF" using goodF(3) by (simp add: signal_event_def f goodF(5) entriesF_def)
  then obtain ev ns N' where e: "u = [ev]" "event_of ?E 0 ns eventF ev" using s(4) by auto
  then show ?thesis using s by (auto simp: event_of_def)
qed

end
